(* ===== verification/Prelude.thy ===== *)
theory Prelude
  imports Main "HOL-Library.Word" "HOL-Library.AList" "HOL-Library.Char_ord"
    "HOL-Library.Monad_Syntax"
begin

text \<open>
  What the components share: the machine integer types, the errors a C++ operation can end in,
  \<open>std::unordered_map\<close> as an association list behind the locale \<open>umap\<close>, the
  conversions between bytes and characters, \<open>std::string::substr\<close>, hexadecimal output
  through an \<open>ostringstream\<close> and \<open>std::stoul\<close> with base 16.
\<close>

unbundle bit_operations_syntax

named_theorems wf_intros "introduction rules of the well-formedness invariants"
named_theorems um_simps "lookup and key facts of the map operations"

type_synonym u8 = "8 word"
type_synonym u16 = "16 word"
type_synonym u32 = "32 word"
type_synonym u64 = "64 word"

subsection \<open>Errors\<close>

text \<open>
  \<open>NullDeref\<close>, \<open>OutOfBounds\<close> and \<open>SignedOverflow\<close> are undefined behaviour in C++; the model
  stops there. \<open>InvalidArg\<close> is the exception of \<open>std::stoi\<close>. \<open>NoReturn\<close> is a loop that did not
  finish within its fuel. \<open>Terminated\<close> is \<open>std::terminate\<close>.
\<close>

datatype error = NullDeref | OutOfBounds | SignedOverflow | InvalidArg | NoReturn | Terminated

lemma map_sum_Inr: "map_sum id f x = Inr y \<longleftrightarrow> (\<exists>z. x = Inr z \<and> y = f z)"
  by (cases x) auto

definition INT_MAX :: int where
  "INT_MAX = 2147483647"

definition INT_MIN :: int where
  "INT_MIN = - 2147483648"

text \<open>
  One operation after another: the state goes on, the outputs are appended, an error stops.
\<close>

type_synonym ('s, 'o) op = "'s \<Rightarrow> error + 's \<times> 'o list"

definition and_then :: "('s, 'o) op \<Rightarrow> ('s, 'o) op \<Rightarrow> ('s, 'o) op" where
  "and_then f g s =
     (case f s of Inl e \<Rightarrow> Inl e
      | Inr (s1, o1) \<Rightarrow> (case g s1 of Inl e \<Rightarrow> Inl e | Inr (s2, o2) \<Rightarrow> Inr (s2, o1 @ o2)))"

definition skip :: "('s, 'o) op" where
  "skip s = Inr (s, [])"

lemma and_then_Inr:
  "and_then f g s = Inr (s2, out) \<longleftrightarrow>
     (\<exists>s1 o1 o2. f s = Inr (s1, o1) \<and> g s1 = Inr (s2, o2) \<and> out = o1 @ o2)"
  by (auto simp: and_then_def split: sum.splits)

lemma and_then_Inl: "and_then f g s = Inl e \<longleftrightarrow>
     f s = Inl e \<or> (\<exists>s1 o1. f s = Inr (s1, o1) \<and> g s1 = Inl e)"
  by (auto simp: and_then_def split: sum.splits)

lemma skip_Inr [simp]: "skip s = Inr r \<longleftrightarrow> r = (s, [])"
  by (auto simp: skip_def)

fun for_each :: "('a \<Rightarrow> ('s, 'o) op) \<Rightarrow> 'a list \<Rightarrow> ('s, 'o) op" where
  "for_each f [] = skip"
| "for_each f (x # xs) = and_then (f x) (for_each f xs)"

text \<open>An operation that keeps a property of the state in every outcome, and one that cannot fail there.\<close>

definition preserves :: "('s \<Rightarrow> bool) \<Rightarrow> ('s, 'o) op \<Rightarrow> bool" where
  "preserves P f \<longleftrightarrow> (\<forall>s s' out. P s \<longrightarrow> f s = Inr (s', out) \<longrightarrow> P s')"

lemma preservesD: "preserves P f \<Longrightarrow> P s \<Longrightarrow> f s = Inr (s', out) \<Longrightarrow> P s'"
  unfolding preserves_def by blast

lemma preserves_skip [simp, wf_intros]: "preserves P skip"
  by (simp add: preserves_def)

lemma preserves_and_then [wf_intros]: "preserves P f \<Longrightarrow> preserves P g \<Longrightarrow> preserves P (and_then f g)"
  unfolding preserves_def and_then_Inr by blast

lemma preserves_for_each [wf_intros]: "(\<And>x. x \<in> set xs \<Longrightarrow> preserves P (f x)) \<Longrightarrow> preserves P (for_each f xs)"
  by (induction xs) (auto intro: preserves_and_then)

text \<open>Addition on \<open>int\<close>: overflow is undefined behaviour.\<close>

definition add_int :: "int \<Rightarrow> int \<Rightarrow> error + int" where
  "add_int a b =
     (if a + b < INT_MIN \<or> INT_MAX < a + b then Inl SignedOverflow else Inr (a + b))"

lemma add_int_Inr: "add_int a b = Inr c \<longleftrightarrow> c = a + b \<and> INT_MIN \<le> a + b \<and> a + b \<le> INT_MAX"
  by (auto simp: add_int_def)

text \<open>\<open>%\<close> on \<open>int\<close>: the remainder of a division that truncates towards zero.\<close>

definition int_rem :: "int \<Rightarrow> int \<Rightarrow> int" where
  "int_rem a b = sgn a * (\<bar>a\<bar> mod \<bar>b\<bar>)"

text \<open>\<open>/\<close> on signed integers truncates towards zero.\<close>

definition int_quot :: "int \<Rightarrow> int \<Rightarrow> int" where
  "int_quot a b = sgn a * sgn b * (\<bar>a\<bar> div \<bar>b\<bar>)"

lemma int_quot_nonneg: "0 \<le> a \<Longrightarrow> 0 < b \<Longrightarrow> int_quot a b = a div b"
  by (cases "a = 0") (simp_all add: int_quot_def)

lemma int_quot_neg: "a < 0 \<Longrightarrow> 0 < b \<Longrightarrow> int_quot a b \<le> 0"
  by (simp add: int_quot_def pos_imp_zdiv_nonneg_iff)

subsection \<open>Unordered maps\<close>

text \<open>
  An \<open>unordered_map\<close> is the list of its entries in iteration order, which C++ leaves open: a new
  key goes to the end, an existing one keeps its place.
\<close>

type_synonym ('k, 'v) umap = "('k \<times> 'v) list"

definition um_find :: "('k, 'v) umap \<Rightarrow> 'k \<Rightarrow> 'v option" where
  "um_find m k = map_of m k"

definition um_put :: "'k \<Rightarrow> 'v \<Rightarrow> ('k, 'v) umap \<Rightarrow> ('k, 'v) umap" where
  "um_put k v m = AList.update k v m"

definition um_erase :: "'k \<Rightarrow> ('k, 'v) umap \<Rightarrow> ('k, 'v) umap" where
  "um_erase k m = AList.delete k m"

definition um_keys :: "('k, 'v) umap \<Rightarrow> 'k set" where
  "um_keys m = fst ` set m"

definition um_wf :: "('k, 'v) umap \<Rightarrow> bool" where
  "um_wf m \<longleftrightarrow> distinct (map fst m)"

text \<open>\<open>operator[]\<close> inserts the default value \<open>d\<close> for a missing key and returns a reference.\<close>

definition um_index :: "'v \<Rightarrow> 'k \<Rightarrow> ('k, 'v) umap \<Rightarrow> 'v \<times> ('k, 'v) umap" where
  "um_index d k m = (case um_find m k of Some v \<Rightarrow> (v, m) | None \<Rightarrow> (d, um_put k d m))"

text \<open>
  Reading a map with \<open>operator[]\<close> gives the empty string for a missing key; the entry that it inserts
  is itself empty and only ever read this way.
\<close>

definition um_at :: "'v \<Rightarrow> ('k, 'v) umap \<Rightarrow> 'k \<Rightarrow> 'v" where
  "um_at d m k = (case um_find m k of Some v \<Rightarrow> v | None \<Rightarrow> d)"

text \<open>\<open>emplace\<close> does nothing when the key is present.\<close>

definition um_emplace :: "'k \<Rightarrow> 'v \<Rightarrow> ('k, 'v) umap \<Rightarrow> ('k, 'v) umap" where
  "um_emplace k v m = (case um_find m k of Some _ \<Rightarrow> m | None \<Rightarrow> um_put k v m)"

locale map_table =
  fixes find :: "'m \<Rightarrow> 'k \<Rightarrow> 'v option"
    and put :: "'k \<Rightarrow> 'v \<Rightarrow> 'm \<Rightarrow> 'm"
    and erase :: "'k \<Rightarrow> 'm \<Rightarrow> 'm"
    and wf :: "'m \<Rightarrow> bool"
  assumes find_put: "find (put k v m) = (find m)(k \<mapsto> v)"
    and find_erase: "find (erase k m) = (find m)(k := None)"
    and wf_put: "wf m \<Longrightarrow> wf (put k v m)"
    and wf_erase: "wf m \<Longrightarrow> wf (erase k m)"
begin

lemma find_put_same: "find (put k v m) k = Some v"
  by (simp add: find_put)

lemma find_put_other: "k' \<noteq> k \<Longrightarrow> find (put k v m) k' = find m k'"
  by (simp add: find_put)

lemma find_erase_same: "find (erase k m) k = None"
  by (simp add: find_erase)

lemma find_erase_other: "k' \<noteq> k \<Longrightarrow> find (erase k m) k' = find m k'"
  by (simp add: find_erase)

lemma find_put_put: "find (put k v (put k v' m)) = find (put k v m)"
  by (simp add: find_put)

lemma find_put_restore: "find m k = Some v \<Longrightarrow> find (put k v (erase k m)) = find m"
  by (auto simp: find_put find_erase)

lemma dom_find_put: "dom (find (put k v m)) = insert k (dom (find m))"
  by (simp add: find_put)

end

interpretation um: map_table um_find um_put um_erase um_wf
proof (unfold_locales, goal_cases)
  case 1 show ?case by (simp add: um_find_def um_put_def update_conv' fun_eq_iff)
next
  case 2 show ?case by (simp add: um_find_def um_erase_def delete_conv' fun_eq_iff)
next
  case (3 m k v) then show ?case by (simp add: um_wf_def um_put_def distinct_update)
next
  case (4 m k) then show ?case by (simp add: um_wf_def um_erase_def distinct_delete)
qed

lemmas um_laws = um.find_put um.find_erase um.wf_put um.wf_erase

lemma um_find_Nil [simp]: "um_find [] k = None"
  by (simp add: um_find_def)

lemma um_wf_Nil [simp, wf_intros]: "um_wf []"
  by (simp add: um_wf_def)

lemma um_find_put [simp, um_simps]: "um_find (um_put k v m) k' = (if k' = k then Some v else um_find m k')"
  by (simp add: um.find_put)

lemma um_find_erase [simp, um_simps]: "um_find (um_erase k m) k' = (if k' = k then None else um_find m k')"
  by (simp add: um.find_erase)

lemma um_wf_put [simp, wf_intros]: "um_wf m \<Longrightarrow> um_wf (um_put k v m)"
  by (rule um.wf_put)

lemma um_wf_erase [simp, wf_intros]: "um_wf m \<Longrightarrow> um_wf (um_erase k m)"
  by (rule um.wf_erase)

lemma um_keys_find: "k \<in> um_keys m \<longleftrightarrow> (\<exists>v. um_find m k = Some v)"
  by (metis um_keys_def um_find_def map_of_eq_None_iff not_Some_eq)

lemma um_find_None_keys: "um_find m k = None \<longleftrightarrow> k \<notin> um_keys m"
  by (simp add: um_keys_def um_find_def map_of_eq_None_iff)

lemma um_keys_put [simp, um_simps]: "um_keys (um_put k v m) = insert k (um_keys m)"
  by (auto simp: um_keys_find split: if_splits)

lemma um_keys_erase [simp, um_simps]: "um_keys (um_erase k m) = um_keys m - {k}"
  by (auto simp: um_keys_find split: if_splits)

lemma um_find_mem: "um_wf m \<Longrightarrow> (k, v) \<in> set m \<longleftrightarrow> um_find m k = Some v"
  by (simp add: um_wf_def um_find_def)

lemma um_find_SomeD: "um_find m k = Some v \<Longrightarrow> (k, v) \<in> set m"
  by (simp add: um_find_def map_of_SomeD)

lemma um_find_emplace [simp, um_simps]:
  "um_find (um_emplace k v m) k' =
     (if k' = k \<and> um_find m k = None then Some v else um_find m k')"
  by (simp add: um_emplace_def split: option.split)

lemma um_wf_emplace [simp, wf_intros]: "um_wf m \<Longrightarrow> um_wf (um_emplace k v m)"
  by (simp add: um_emplace_def split: option.split)

lemma um_find_index: "um_find (snd (um_index d k m)) k' =
    (if k' = k \<and> um_find m k = None then Some d else um_find m k')"
  by (simp add: um_index_def split: option.split)

lemma um_index_value: "fst (um_index d k m) = (case um_find m k of Some v \<Rightarrow> v | None \<Rightarrow> d)"
  by (simp add: um_index_def split: option.split)

lemma um_index_known: "um_find m k = Some v \<Longrightarrow> um_index d k m = (v, m)"
  by (simp add: um_index_def)

lemma um_wf_index [simp, wf_intros]: "um_wf m \<Longrightarrow> um_wf (snd (um_index d k m))"
  by (simp add: um_index_def split: option.split)

end
