(* ===== verification/CxxString.thy ===== *)
theory CxxString
  imports Prelude
begin

text \<open>
  What the code uses of \<open>std::string\<close> and the streams: a string is a list of bytes
  (\<open>char\<close>), \<open>substr\<close> throws beyond the end, \<open>std::hex\<close> output is padded on the left with zeros,
  \<open>std::stoul\<close> with base 16 skips white space, takes a sign and a \<open>0x\<close> prefix and reads as many
  hexadecimal digits as there are.
\<close>

subsection \<open>Bytes and characters\<close>

definition byte_of_char :: "char \<Rightarrow> u8" where
  "byte_of_char c = of_nat (of_char c)"

definition char_of_byte :: "u8 \<Rightarrow> char" where
  "char_of_byte w = char_of (unat w)"

lemma unat_u8_less: "unat (w :: u8) < 256"
  using unsigned_less [of w] by simp

lemma char_of_byte_of_char [simp]: "char_of_byte (byte_of_char c) = c"
proof -
  have "unat (byte_of_char c) = of_char c"
    by (simp add: byte_of_char_def unat_of_nat)
  then show ?thesis
    by (simp add: char_of_byte_def)
qed

lemma byte_of_char_of_byte [simp]: "byte_of_char (char_of_byte w) = w"
  using unat_u8_less [of w] by (simp add: char_of_byte_def byte_of_char_def take_bit_eq_mod)

lemma map_char_of_byte_inverse [simp]: "map byte_of_char (map char_of_byte ws) = ws"
  by (simp add: comp_def)

lemma map_byte_char_comp [simp]: "map (byte_of_char \<circ> char_of_byte) ws = ws"
  by (simp add: comp_def)

subsection \<open>Substrings and searching\<close>

text \<open>\<open>s.substr(pos, n)\<close>: throws \<open>out_of_range\<close> when \<open>pos > s.size()\<close>, the model's \<open>None\<close>.\<close>

definition substr :: "string \<Rightarrow> nat \<Rightarrow> nat \<Rightarrow> string option" where
  "substr s pos n = (if length s < pos then None else Some (take n (drop pos s)))"

text \<open>\<open>s.find(pat)\<close>: the first position, \<open>npos\<close> is \<open>None\<close>.\<close>

fun str_find :: "string \<Rightarrow> string \<Rightarrow> nat option" where
  "str_find pat [] = (if pat = [] then Some 0 else None)"
| "str_find pat (c # s) =
     (if take (length pat) (c # s) = pat then Some 0 else map_option Suc (str_find pat s))"

text \<open>\<open>std::getline\<close>: the characters before the first newline and what follows it.\<close>

definition getline :: "string \<Rightarrow> string \<times> string" where
  "getline s =
     (takeWhile (\<lambda>c. c \<noteq> CHR 0x0A) s, drop 1 (dropWhile (\<lambda>c. c \<noteq> CHR 0x0A) s))"

lemma getline_newline:
  "CHR 0x0A \<notin> set l \<Longrightarrow> getline (l @ [CHR 0x0A] @ r) = (l, r)"
  by (induction l) (auto simp: getline_def)

lemma getline_no_newline: "CHR 0x0A \<notin> set l \<Longrightarrow> getline l = (l, [])"
  by (induction l) (auto simp: getline_def)

text \<open>Dropping one trailing carriage return, as every line reader of the code does.\<close>

definition strip_cr :: "string \<Rightarrow> string" where
  "strip_cr line = (if line \<noteq> [] \<and> last line = CHR 0x0D then butlast line else line)"

lemma strip_cr_id [simp]: "CHR 0x0D \<notin> set l \<Longrightarrow> strip_cr l = l"
  by (auto simp: strip_cr_def dest: last_in_set)

lemma strip_cr_cr [simp]: "strip_cr (l @ [CHR 0x0D]) = l"
  by (simp add: strip_cr_def)

subsection \<open>Hexadecimal output\<close>

definition hex_digits :: string where
  "hex_digits = ''0123456789ABCDEF''"

definition hex_digit :: "nat \<Rightarrow> char" where
  "hex_digit n = hex_digits ! n"

fun hex_str :: "nat \<Rightarrow> string" where
  "hex_str n = (if n < 16 then [hex_digit n] else hex_str (n div 16) @ [hex_digit (n mod 16)])"

declare hex_str.simps [simp del]

text \<open>\<open>std::setw(k)\<close> with a fill character.\<close>

definition setw :: "nat \<Rightarrow> char \<Rightarrow> string \<Rightarrow> string" where
  "setw k c s = replicate (k - length s) c @ s"

subsection \<open>Decimal output\<close>

text \<open>\<open>std::to_string\<close> of an unsigned number.\<close>

fun dec_str :: "nat \<Rightarrow> string" where
  "dec_str n = (if n < 10 then [char_of (48 + n)] else dec_str (n div 10) @ [char_of (48 + n mod 10)])"

declare dec_str.simps [simp del]

subsection \<open>Hexadecimal input\<close>

text \<open>\<open>isspace\<close> in the C locale.\<close>

definition is_space :: "char \<Rightarrow> bool" where
  "is_space c \<longleftrightarrow> c \<in> {CHR '' '', CHR 0x09, CHR 0x0A, CHR 0x0B, CHR 0x0C, CHR 0x0D}"

definition hex_val :: "char \<Rightarrow> nat option" where
  "hex_val c =
     (let n = of_char c in
      if 48 \<le> n \<and> n \<le> 57 then Some (n - 48)
      else if 65 \<le> n \<and> n \<le> 70 then Some (n - 55)
      else if 97 \<le> n \<and> n \<le> 102 then Some (n - 87)
      else None)"

definition is_hex :: "char \<Rightarrow> bool" where
  "is_hex c \<longleftrightarrow> hex_val c \<noteq> None"

definition hex_value :: "string \<Rightarrow> nat" where
  "hex_value s = foldl (\<lambda>v c. 16 * v + (case hex_val c of Some d \<Rightarrow> d | None \<Rightarrow> 0)) 0 s"

text \<open>The sign of \<open>strtoul\<close>, then the optional \<open>0x\<close> (only before a hexadecimal digit).\<close>

definition strip_sign :: "string \<Rightarrow> bool \<times> string" where
  "strip_sign s =
     (case s of [] \<Rightarrow> (False, [])
      | c # r \<Rightarrow> if c = CHR ''-'' then (True, r) else if c = CHR ''+'' then (False, r) else (False, s))"

definition strip_0x :: "string \<Rightarrow> string" where
  "strip_0x s =
     (case s of z # x # d # r \<Rightarrow>
        if z = CHR ''0'' \<and> (x = CHR ''x'' \<or> x = CHR ''X'') \<and> is_hex d then d # r else s
      | _ \<Rightarrow> s)"

text \<open>
  \<open>std::stoul(s, nullptr, 16)\<close>: \<open>None\<close> is \<open>invalid_argument\<close> (no digits) or \<open>out_of_range\<close>
  (beyond 64 bits); a minus sign negates modulo $2^{64}$.
\<close>

definition stoul16 :: "string \<Rightarrow> u64 option" where
  "stoul16 s =
     (let (neg, s1) = strip_sign (dropWhile is_space s);
          ds = takeWhile is_hex (strip_0x s1)
      in if ds = [] then None
         else if 2 ^ 64 \<le> hex_value ds then None
         else Some (if neg then - of_nat (hex_value ds) else of_nat (hex_value ds)))"

subsection \<open>Reading back what was written\<close>

lemma hex_digits_read: "list_all (\<lambda>n. hex_val (hex_digit n) = Some n) [0..<16]"
  by (simp add: upt_conv_Cons hex_val_def hex_digit_def hex_digits_def)

lemma hex_val_digit [simp]: "n < 16 \<Longrightarrow> hex_val (hex_digit n) = Some n"
  using hex_digits_read by (simp add: list_all_iff)

lemma is_hex_digit [simp]: "n < 16 \<Longrightarrow> is_hex (hex_digit n)"
  by (simp add: is_hex_def)

lemma is_hex_zero [simp]: "is_hex (CHR ''0'')"
  by (simp add: is_hex_def hex_val_def)

lemma hex_value_snoc [simp]:
  "hex_value (s @ [c]) = 16 * hex_value s + (case hex_val c of Some d \<Rightarrow> d | None \<Rightarrow> 0)"
  by (simp add: hex_value_def)

lemma hex_value_Nil [simp]: "hex_value [] = 0"
  by (simp add: hex_value_def)

lemma hex_value_zero [simp]: "hex_value (CHR ''0'' # s) = hex_value s"
  by (simp add: hex_value_def hex_val_def)

lemma hex_value_zeros [simp]: "hex_value (replicate k (CHR ''0'') @ s) = hex_value s"
  by (induction k) simp_all

lemma hex_str_value [simp]: "hex_value (hex_str n) = n"
proof (induction n rule: hex_str.induct)
  case (1 n)
  show ?case
  proof (cases "n < 16")
    case True
    then show ?thesis by (simp add: hex_str.simps [of n] hex_value_def)
  next
    case False
    with 1 show ?thesis by (simp add: hex_str.simps [of n])
  qed
qed

lemma hex_str_hex: "list_all is_hex (hex_str n)"
proof (induction n rule: hex_str.induct)
  case (1 n)
  then show ?case
    by (cases "n < 16") (simp_all add: hex_str.simps [of n])
qed

lemma hex_str_length: "n < 16 ^ k \<Longrightarrow> 0 < k \<Longrightarrow> length (hex_str n) \<le> k"
proof (induction n arbitrary: k rule: hex_str.induct)
  case (1 n)
  show ?case
  proof (cases "n < 16")
    case True
    with 1 show ?thesis by (simp add: hex_str.simps [of n])
  next
    case False
    then obtain j where j: "k = Suc j" and "0 < j"
    proof (cases k)
      case 0
      with "1.prems" show ?thesis by simp
    next
      case (Suc j)
      with False "1.prems" have "0 < j" by (cases j) simp_all
      with Suc that show ?thesis by blast
    qed
    have "n div 16 < 16 ^ j"
      using "1.prems"(1) j by (simp add: less_mult_imp_div_less mult.commute)
    with 1 False \<open>0 < j\<close> have "length (hex_str (n div 16)) \<le> j"
      by simp
    with False j show ?thesis by (simp add: hex_str.simps [of n])
  qed
qed

lemma setw_hex_length [simp]:
  "n < 16 ^ k \<Longrightarrow> 0 < k \<Longrightarrow> length (setw k c (hex_str n)) = k"
  using hex_str_length [of n k] by (simp add: setw_def)

lemma setw_hex_value [simp]: "hex_value (setw k (CHR ''0'') (hex_str n)) = n"
  by (simp add: setw_def)

lemma setw_hex_hex: "list_all is_hex (setw k (CHR ''0'') (hex_str n))"
  using hex_str_hex [of n] by (auto simp: setw_def list_all_iff)

lemma is_hex_not_special:
  assumes "is_hex c"
  shows "\<not> is_space c" and "c \<noteq> CHR ''-''" and "c \<noteq> CHR ''+''"
    and "c \<noteq> CHR ''x''" and "c \<noteq> CHR ''X''"
  using assms by (auto simp: is_hex_def hex_val_def is_space_def)

lemma strip_sign_hex: "s \<noteq> [] \<Longrightarrow> list_all is_hex s \<Longrightarrow> strip_sign s = (False, s)"
  by (cases s) (auto simp: strip_sign_def dest: is_hex_not_special)

lemma strip_0x_hex: "list_all is_hex s \<Longrightarrow> strip_0x s = s"
  by (auto simp: strip_0x_def dest: is_hex_not_special split: list.split)

lemma dropWhile_space_hex: "list_all is_hex s \<Longrightarrow> dropWhile is_space s = s"
  by (cases s) (auto dest: is_hex_not_special)

lemma stoul16_hex:
  assumes "s \<noteq> []" and "list_all is_hex s" and "hex_value s < 2 ^ 64"
  shows "stoul16 s = Some (of_nat (hex_value s))"
proof -
  have tw: "takeWhile is_hex s = s"
    using assms(2) by (simp add: list_all_iff takeWhile_eq_all_conv)
  have "stoul16 s =
      (if s = [] then None else if 2 ^ 64 \<le> hex_value s then None else Some (of_nat (hex_value s)))"
    by (simp only: stoul16_def dropWhile_space_hex [OF assms(2)]
        strip_sign_hex [OF assms(1,2)] strip_0x_hex [OF assms(2)] tw Let_def prod.case if_False)
  with assms(1,3) show ?thesis
    by (simp del: power_numeral)
qed

lemma stoul16_setw:
  assumes "n < 16 ^ k" and "0 < k" and "k \<le> 16"
  shows "stoul16 (setw k (CHR ''0'') (hex_str n)) = Some (of_nat n)"
proof -
  have "(16::nat) ^ k \<le> 16 ^ 16"
    using assms(3) by (rule power_increasing) simp
  then have "n < 2 ^ 64" using assms(1) by simp
  moreover have "setw k (CHR ''0'') (hex_str n) \<noteq> []"
    using setw_hex_length [OF assms(1,2), of "CHR ''0''"] assms(2) by (metis list.size(3) less_irrefl)
  ultimately show ?thesis
    by (simp add: stoul16_hex setw_hex_hex)
qed

lemma hex_chars_no_newline: "list_all is_hex s \<Longrightarrow> CHR 0x0A \<notin> set s \<and> CHR 0x0D \<notin> set s"
proof -
  assume h: "list_all is_hex s"
  have "\<not> is_hex (CHR 0x0A)" "\<not> is_hex (CHR 0x0D)"
    by (simp_all add: is_hex_def hex_val_def)
  with h show ?thesis
    by (auto simp: list_all_iff)
qed

subsection \<open>Decimal input\<close>

definition is_digit :: "char \<Rightarrow> bool" where
  "is_digit c \<longleftrightarrow> 48 \<le> (of_char c :: nat) \<and> (of_char c :: nat) \<le> 57"

definition dec_value :: "string \<Rightarrow> nat" where
  "dec_value s = foldl (\<lambda>v c. 10 * v + (of_char c - 48)) 0 s"

text \<open>
  \<open>std::stoi(s)\<close>: \<open>None\<close> is \<open>invalid_argument\<close> (no digits) or \<open>out_of_range\<close> (not an \<open>int\<close>); what
  follows the digits is ignored.
\<close>

definition stoi :: "string \<Rightarrow> int option" where
  "stoi s =
     (let (neg, s1) = strip_sign (dropWhile is_space s);
          ds = takeWhile is_digit s1;
          v = (if neg then - int (dec_value ds) else int (dec_value ds))
      in if ds = [] then None else if v < INT_MIN \<or> INT_MAX < v then None else Some v)"

end
