(* ===== verification/UwbFrame.thy ===== *)
theory UwbFrame
  imports CxxString
begin

text \<open>
  The frames of the UWB serial link, \<open>FrameCodec\<close> of \<open>src/Master/src/uwb/UwbFramecodec.cpp\<close>:
  the frame record, the XOR checksum, the text encoding and its decoder, and the locale
  \<open>line_codec\<close> that states what the serial reader needs of a codec.
\<close>

datatype FrameType = DATA | ACK | HEARTBEAT

record TimeSlotFrame =
  src_id :: u8
  dst_id :: u8
  seq_no :: u8
  ftype :: FrameType
  payload :: "u8 list"
  checksum :: u8

definition FRAME_HEADER :: string where
  "FRAME_HEADER = ''[TS]''"

definition HEADER_SIZE :: nat where
  "HEADER_SIZE = 4"

definition MIN_FRAME_SIZE :: nat where
  "MIN_FRAME_SIZE = 12"

definition BROADCAST_ID :: u8 where
  "BROADCAST_ID = 0xFF"

text \<open>\<open>static_cast<uint8_t>(frame.type)\<close>\<close>

fun frame_type_code :: "FrameType \<Rightarrow> u8" where
  "frame_type_code DATA = 0"
| "frame_type_code ACK = 1"
| "frame_type_code HEARTBEAT = 2"

definition calculate_checksum :: "TimeSlotFrame \<Rightarrow> u8" where
  "calculate_checksum f =
     foldl (\<lambda>c b. c XOR b)
       ((((0 XOR src_id f) XOR dst_id f) XOR seq_no f) XOR frame_type_code (ftype f))
       (payload f)"

definition verify_checksum :: "TimeSlotFrame \<Rightarrow> bool" where
  "verify_checksum f \<longleftrightarrow> checksum f = calculate_checksum f"

text \<open>The two constructors: payload from bytes, payload from a string.\<close>

definition mk_frame :: "u8 \<Rightarrow> u8 \<Rightarrow> u8 \<Rightarrow> FrameType \<Rightarrow> u8 list \<Rightarrow> TimeSlotFrame" where
  "mk_frame src dst sq t data =
     (let f = \<lparr>src_id = src, dst_id = dst, seq_no = sq, ftype = t, payload = data, checksum = 0\<rparr>
      in f\<lparr>checksum := calculate_checksum f\<rparr>)"

definition mk_frame_str :: "u8 \<Rightarrow> u8 \<Rightarrow> u8 \<Rightarrow> FrameType \<Rightarrow> string \<Rightarrow> TimeSlotFrame" where
  "mk_frame_str src dst sq t data =
     (let f = \<lparr>src_id = src, dst_id = dst, seq_no = sq, ftype = t,
               payload = map byte_of_char data, checksum = 0\<rparr>
      in f\<lparr>checksum := calculate_checksum f\<rparr>)"

fun frame_type_to_string :: "FrameType \<Rightarrow> string" where
  "frame_type_to_string DATA = ''DAT''"
| "frame_type_to_string ACK = ''ACK''"
| "frame_type_to_string HEARTBEAT = ''HBT''"

text \<open>\<open>None\<close> is the exception \<open>invalid_argument\<close>.\<close>

definition string_to_frame_type :: "string \<Rightarrow> FrameType option" where
  "string_to_frame_type s =
     (if s = ''DAT'' then Some DATA
      else if s = ''ACK'' then Some ACK
      else if s = ''HBT'' then Some HEARTBEAT
      else None)"

definition to_hex_u8 :: "u8 \<Rightarrow> string" where
  "to_hex_u8 v = setw 2 (CHR ''0'') (hex_str (unat v))"

definition to_hex_u16 :: "u16 \<Rightarrow> string" where
  "to_hex_u16 v = setw 4 (CHR ''0'') (hex_str (unat v))"

definition from_hex_byte :: "string \<Rightarrow> u8 option" where
  "from_hex_byte s = map_option ucast (stoul16 s)"

definition from_hex_word :: "string \<Rightarrow> u16 option" where
  "from_hex_word s = map_option ucast (stoul16 s)"

definition encode :: "TimeSlotFrame \<Rightarrow> string" where
  "encode f =
     FRAME_HEADER
     @ to_hex_u8 (src_id f) @ to_hex_u8 (dst_id f) @ to_hex_u8 (seq_no f)
     @ frame_type_to_string (ftype f)
     @ (if ftype f = DATA \<or> ftype f = HEARTBEAT
        then to_hex_u16 (of_nat (length (payload f))) @ map char_of_byte (payload f)
        else [])
     @ to_hex_u8 (checksum f)"

text \<open>
  \<open>decode\<close> returns the frame where the code returns \<open>true\<close>; \<open>None\<close> is \<open>false\<close>, by a failed test or by
  an exception that the \<open>catch\<close> turns into \<open>false\<close>.
\<close>

definition decode :: "string \<Rightarrow> TimeSlotFrame option" where
  "decode data =
     (if length data < MIN_FRAME_SIZE \<or> take HEADER_SIZE data \<noteq> FRAME_HEADER then None
      else do {
        let pos = HEADER_SIZE;
        s \<leftarrow> substr data pos 2 \<bind> from_hex_byte;
        let pos = pos + 2;
        d \<leftarrow> substr data pos 2 \<bind> from_hex_byte;
        let pos = pos + 2;
        q \<leftarrow> substr data pos 2 \<bind> from_hex_byte;
        let pos = pos + 2;
        t \<leftarrow> substr data pos 3 \<bind> string_to_frame_type;
        let pos = pos + 3;
        (pl, pos) \<leftarrow>
          (if t = DATA \<or> t = HEARTBEAT then
             if length data < pos + 4 then None
             else do {
               len \<leftarrow> substr data pos 4 \<bind> from_hex_word;
               let pos = pos + 4;
               (if length data < pos + unat len + 2 then None
                else Some (map byte_of_char (take (unat len) (drop pos data)), pos + unat len))
             }
           else Some ([], pos));
        (if length data < pos + 2 then None
         else do {
           c \<leftarrow> substr data pos 2 \<bind> from_hex_byte;
           let f = \<lparr>src_id = s, dst_id = d, seq_no = q, ftype = t, payload = pl, checksum = c\<rparr>;
           (if verify_checksum f then Some f else None)
         })
      })"

subsection \<open>Fields\<close>

lemma to_hex_u8_length [simp]: "length (to_hex_u8 v) = 2"
  using unat_u8_less [of v] by (simp add: to_hex_u8_def)

lemma unat_u16_less: "unat (w :: u16) < 65536"
  using unsigned_less [of w] by simp

lemma to_hex_u16_length [simp]: "length (to_hex_u16 v) = 4"
  using unat_u16_less [of v] by (simp add: to_hex_u16_def)

lemma ucast_u8_u64 [simp]: "(ucast (ucast (v :: u8) :: u64) :: u8) = v"
  by (rule ucast_up_ucast_id) (simp add: is_up)

lemma ucast_u16_u64 [simp]: "(ucast (ucast (v :: u16) :: u64) :: u16) = v"
  by (rule ucast_up_ucast_id) (simp add: is_up)

lemma from_to_hex_byte [simp]: "from_hex_byte (to_hex_u8 v) = Some v"
  using unat_u8_less [of v] stoul16_setw [of "unat v" 2]
  by (simp add: from_hex_byte_def to_hex_u8_def)

lemma from_to_hex_word [simp]: "from_hex_word (to_hex_u16 v) = Some v"
  using unat_u16_less [of v] stoul16_setw [of "unat v" 4]
  by (simp add: from_hex_word_def to_hex_u16_def)

lemma string_to_frame_type_string [simp]:
  "string_to_frame_type (frame_type_to_string t) = Some t"
  by (cases t) (simp_all add: string_to_frame_type_def)

lemma frame_type_to_string_length [simp]: "length (frame_type_to_string t) = 3"
  by (cases t) simp_all

lemma substr_mid: "length p = n \<Longrightarrow> length f = k \<Longrightarrow> substr (p @ f @ r) n k = Some f"
  by (simp add: substr_def)

lemma substr_suffix: "length p = n \<Longrightarrow> length f = k \<Longrightarrow> substr (p @ f) n k = Some f"
  by (simp add: substr_def)

subsection \<open>Round trip\<close>

text \<open>
  The frames the encoding can carry: the length fits 16 bits, an acknowledgement carries no payload
  (\<open>encode\<close> would drop it), the checksum is the computed one.
\<close>

definition frame_shape :: "TimeSlotFrame \<Rightarrow> bool" where
  "frame_shape f \<longleftrightarrow> length (payload f) \<le> 65535 \<and> (ftype f = ACK \<longrightarrow> payload f = [])"

definition frame_ok :: "TimeSlotFrame \<Rightarrow> bool" where
  "frame_ok f \<longleftrightarrow> frame_shape f \<and> verify_checksum f"

text \<open>What a frame of that shape decodes to, whatever its checksum.\<close>

definition checked :: "TimeSlotFrame \<Rightarrow> TimeSlotFrame option" where
  "checked f = (if verify_checksum f then Some f else None)"

lemma unat_length_u16: "n \<le> 65535 \<Longrightarrow> unat (of_nat n :: u16) = n"
  by (simp add: unat_of_nat)

lemma decode_encode_payload:
  assumes ok: "frame_shape f" and t: "ftype f = DATA \<or> ftype f = HEARTBEAT"
  shows "decode (encode f @ rest) = checked f"
proof -
  let ?h = "FRAME_HEADER" and ?s = "to_hex_u8 (src_id f)" and ?d = "to_hex_u8 (dst_id f)"
    and ?q = "to_hex_u8 (seq_no f)" and ?t = "frame_type_to_string (ftype f)"
    and ?l = "to_hex_u16 (of_nat (length (payload f)))" and ?p = "map char_of_byte (payload f)"
    and ?c = "to_hex_u8 (checksum f)"
  obtain x where e: "x = ?h @ ?s @ ?d @ ?q @ ?t @ ?l @ ?p @ ?c @ rest" by blast
  then have xe: "encode f @ rest = x" using t by (simp add: encode_def)
  have hl [simp]: "length ?h = 4" by (simp add: FRAME_HEADER_def)
  have len: "length x = 19 + length (payload f) + length rest" unfolding e by simp
  have ul: "unat (of_nat (length (payload f)) :: u16) = length (payload f)"
    using ok by (simp add: frame_shape_def unat_length_u16)
  have s: "substr x 4 2 = Some ?s" unfolding e by (rule substr_mid) simp_all
  have d: "substr x 6 2 = Some ?d"
    unfolding e using substr_mid [of "?h @ ?s" 6 ?d 2] by simp
  have q: "substr x 8 2 = Some ?q"
    unfolding e using substr_mid [of "?h @ ?s @ ?d" 8 ?q 2] by simp
  have ty: "substr x 10 3 = Some ?t"
    unfolding e using substr_mid [of "?h @ ?s @ ?d @ ?q" 10 ?t 3] by simp
  have l: "substr x 13 4 = Some ?l"
    unfolding e using substr_mid [of "?h @ ?s @ ?d @ ?q @ ?t" 13 ?l 4] by simp
  have p: "take (length (payload f)) (drop 17 x) = ?p"
    unfolding e by simp
  have c: "substr x (17 + length (payload f)) 2 = Some ?c"
    unfolding e
    using substr_mid [of "?h @ ?s @ ?d @ ?q @ ?t @ ?l @ ?p" "17 + length (payload f)" ?c 2 rest]
    by simp
  have h: "take 4 x = FRAME_HEADER" unfolding e by simp
  have r: "\<lparr>src_id = src_id f, dst_id = dst_id f, seq_no = seq_no f, ftype = ftype f,
            payload = payload f, checksum = checksum f\<rparr> = f"
    by simp
  show ?thesis
    unfolding decode_def xe
    using t ok
    by (simp add: len h s d q ty l p c ul r MIN_FRAME_SIZE_def HEADER_SIZE_def Let_def checked_def
        del: add_2_eq_Suc')
qed

lemma decode_encode_ack:
  assumes ok: "frame_shape f" and t: "ftype f = ACK"
  shows "decode (encode f @ rest) = checked f"
proof -
  let ?h = "FRAME_HEADER" and ?s = "to_hex_u8 (src_id f)" and ?d = "to_hex_u8 (dst_id f)"
    and ?q = "to_hex_u8 (seq_no f)" and ?t = "frame_type_to_string (ftype f)"
    and ?c = "to_hex_u8 (checksum f)"
  obtain x where e: "x = ?h @ ?s @ ?d @ ?q @ ?t @ ?c @ rest" by blast
  then have xe: "encode f @ rest = x" using t by (simp add: encode_def)
  have hl [simp]: "length ?h = 4" by (simp add: FRAME_HEADER_def)
  have len: "length x = 15 + length rest" unfolding e by simp
  have s: "substr x 4 2 = Some ?s" unfolding e by (rule substr_mid) simp_all
  have d: "substr x 6 2 = Some ?d"
    unfolding e using substr_mid [of "?h @ ?s" 6 ?d 2] by simp
  have q: "substr x 8 2 = Some ?q"
    unfolding e using substr_mid [of "?h @ ?s @ ?d" 8 ?q 2] by simp
  have ty: "substr x 10 3 = Some ?t"
    unfolding e using substr_mid [of "?h @ ?s @ ?d @ ?q" 10 ?t 3] by simp
  have c: "substr x 13 2 = Some ?c"
    unfolding e using substr_mid [of "?h @ ?s @ ?d @ ?q @ ?t" 13 ?c 2] by simp
  have h: "take 4 x = FRAME_HEADER" unfolding e by simp
  have "payload f = []" using ok t by (simp add: frame_shape_def)
  then have r: "\<lparr>src_id = src_id f, dst_id = dst_id f, seq_no = seq_no f, ftype = ACK,
            payload = [], checksum = checksum f\<rparr> = f"
    using t by simp
  show ?thesis
    unfolding decode_def xe
    using ok
    by (simp add: len h s d q ty c r t MIN_FRAME_SIZE_def HEADER_SIZE_def Let_def checked_def
        string_to_frame_type_def del: add_2_eq_Suc')
qed

lemma decode_encode_shape: "frame_shape f \<Longrightarrow> decode (encode f @ rest) = checked f"
  by (cases "ftype f") (simp_all add: decode_encode_payload decode_encode_ack)

lemma decode_encode_append: "frame_ok f \<Longrightarrow> decode (encode f @ rest) = Some f"
  by (simp add: frame_ok_def decode_encode_shape checked_def)

subsection \<open>Rejection\<close>

lemma decode_verified: "decode data = Some f \<Longrightarrow> verify_checksum f"
  by (auto simp: decode_def Let_def bind_eq_Some_conv split: if_splits)

lemma decode_short: "length data < MIN_FRAME_SIZE \<Longrightarrow> decode data = None"
  by (simp add: decode_def)

lemma decode_ack_payload: "decode data = Some f \<Longrightarrow> ftype f = ACK \<Longrightarrow> payload f = []"
  by (auto simp: decode_def Let_def bind_eq_Some_conv split: if_splits)

lemma decode_payload_bound: "decode data = Some f \<Longrightarrow> length (payload f) \<le> 65535"
proof -
  have "unat (w :: u16) \<le> 65535" for w using unat_u16_less [of w] by simp
  then show "decode data = Some f \<Longrightarrow> length (payload f) \<le> 65535"
    by (auto simp: decode_def Let_def bind_eq_Some_conv min_def split: if_splits)
qed

lemma decode_frame_ok: "decode data = Some f \<Longrightarrow> frame_ok f"
  by (auto simp: frame_ok_def frame_shape_def dest: decode_verified decode_ack_payload decode_payload_bound)

subsection \<open>Constructors\<close>

lemma calculate_checksum_update [simp]:
  "calculate_checksum (f\<lparr>checksum := c\<rparr>) = calculate_checksum f"
  by (simp add: calculate_checksum_def)

lemma verify_mk_frame [simp]: "verify_checksum (mk_frame s d q t p)"
  by (simp add: mk_frame_def verify_checksum_def Let_def calculate_checksum_def)

lemma verify_mk_frame_str [simp]: "verify_checksum (mk_frame_str s d q t p)"
  by (simp add: mk_frame_str_def verify_checksum_def Let_def calculate_checksum_def)

lemma mk_frame_sel [simp]:
  "src_id (mk_frame s d q t p) = s" "dst_id (mk_frame s d q t p) = d"
  "seq_no (mk_frame s d q t p) = q" "ftype (mk_frame s d q t p) = t"
  "payload (mk_frame s d q t p) = p"
  by (simp_all add: mk_frame_def Let_def)

lemma mk_frame_str_sel [simp]:
  "src_id (mk_frame_str s d q t p) = s" "dst_id (mk_frame_str s d q t p) = d"
  "seq_no (mk_frame_str s d q t p) = q" "ftype (mk_frame_str s d q t p) = t"
  "payload (mk_frame_str s d q t p) = map byte_of_char p"
  by (simp_all add: mk_frame_str_def Let_def)

subsection \<open>Frames on a line\<close>

text \<open>
  The serial reader takes the bytes up to a newline, drops a trailing carriage return and decodes.
  A codec serves it when the encoding of an acceptable frame holds no newline, does not end in a
  carriage return, and decodes to the frame.
\<close>

locale line_codec =
  fixes enc :: "'f \<Rightarrow> string"
    and dec :: "string \<Rightarrow> 'f option"
    and ok :: "'f \<Rightarrow> bool"
  assumes dec_enc: "ok f \<Longrightarrow> dec (enc f) = Some f"
    and enc_no_newline: "ok f \<Longrightarrow> CHR 0x0A \<notin> set (enc f)"
    and enc_strip: "ok f \<Longrightarrow> strip_cr (enc f) = enc f"
begin

lemma read_line:
  "ok f \<Longrightarrow> getline (enc f @ [CHR 0x0A] @ r) = (enc f, r)"
  using enc_no_newline [of f] by (rule getline_newline)

lemma decode_line:
  "ok f \<Longrightarrow> dec (strip_cr (fst (getline (enc f @ [CHR 0x0A] @ r)))) = Some f"
  using read_line [of f r] by (simp add: enc_strip dec_enc)

lemma rest_line:
  "ok f \<Longrightarrow> snd (getline (enc f @ [CHR 0x0A] @ r)) = r"
  using read_line [of f r] by simp

lemma enc_inj: "ok f \<Longrightarrow> ok g \<Longrightarrow> enc f = enc g \<Longrightarrow> f = g"
  by (metis dec_enc option.inject)

end

definition line_ok :: "TimeSlotFrame \<Rightarrow> bool" where
  "line_ok f \<longleftrightarrow> frame_ok f \<and> 10 \<notin> set (payload f)"

lemma char_of_byte_newline: "char_of_byte w = CHR 0x0A \<longleftrightarrow> w = 10"
proof -
  have "byte_of_char (CHR 0x0A) = 10" by (simp add: byte_of_char_def)
  then show ?thesis
    by (metis byte_of_char_of_byte char_of_byte_of_char)
qed

lemma to_hex_u8_hex: "list_all is_hex (to_hex_u8 v)"
  by (simp add: to_hex_u8_def setw_hex_hex)

lemma to_hex_u16_hex: "list_all is_hex (to_hex_u16 v)"
  by (simp add: to_hex_u16_def setw_hex_hex)

lemma frame_type_no_newline: "CHR 0x0A \<notin> set (frame_type_to_string t)"
  by (cases t) simp_all

lemma encode_no_newline:
  assumes "line_ok f"
  shows "CHR 0x0A \<notin> set (encode f)"
proof -
  have "CHR 0x0A \<notin> set (map char_of_byte (payload f))"
    using assms by (auto simp: line_ok_def char_of_byte_newline dest: sym [of "CHR 0x0A"])
  then show ?thesis
    by (simp add: encode_def FRAME_HEADER_def frame_type_no_newline
        hex_chars_no_newline [OF to_hex_u8_hex] hex_chars_no_newline [OF to_hex_u16_hex])
qed

lemma encode_strip_cr: "strip_cr (encode f) = encode f"
proof -
  let ?c = "to_hex_u8 (checksum f)"
  obtain p where e: "encode f = p @ ?c"
    unfolding encode_def by (metis append.assoc)
  have ne: "?c \<noteq> []" using to_hex_u8_length [of "checksum f"] by (metis list.size(3) zero_neq_numeral)
  then have "last (encode f) \<in> set ?c" by (simp add: e)
  then have "last (encode f) \<noteq> CHR 0x0D"
    using hex_chars_no_newline [OF to_hex_u8_hex] by metis
  then show ?thesis by (simp add: strip_cr_def)
qed

interpretation uwb_line: line_codec encode decode line_ok
proof (unfold_locales, goal_cases)
  case (1 f) then show ?case using decode_encode_append [of f "[]"] by (simp add: line_ok_def)
next
  case (2 f) then show ?case by (rule encode_no_newline)
next
  case (3 f) show ?case by (rule encode_strip_cr)
qed

subsection \<open>Corruption\<close>

lemma foldl_xor: "foldl (\<lambda>c b. c XOR b) a bs = a XOR foldl (\<lambda>c b. c XOR b) (0 :: u8) bs"
proof (induction bs arbitrary: a)
  case (Cons b bs)
  show ?case using Cons.IH [of "a XOR b"] Cons.IH [of b] by (simp add: xor.assoc)
qed simp

lemma xor_cancel: "(a :: u8) XOR b = a XOR c \<longleftrightarrow> b = c"
  by (metis xor.assoc xor_self_eq xor.left_neutral)

lemma foldl_xor_update:
  "i < length bs \<Longrightarrow>
   foldl (\<lambda>c b. c XOR b) (0 :: u8) (bs[i := b]) = foldl (\<lambda>c b. c XOR b) 0 bs \<longleftrightarrow> b = bs ! i"
proof (induction bs arbitrary: i)
  case (Cons a bs)
  show ?case
  proof (cases i)
    case 0
    then show ?thesis
      using foldl_xor [of a bs] foldl_xor [of b bs] by (simp add: xor.commute [of _ "foldl _ _ _"] xor_cancel)
  next
    case (Suc j)
    then show ?thesis
      using Cons.IH [of j] Cons.prems foldl_xor [of a] by (simp add: xor_cancel)
  qed
qed simp

text \<open>
  C7: Every frame whose payload fits the 16-bit length (and, for an acknowledgement, is empty) and
  whose checksum is the computed one is read back unchanged from its encoding, whatever follows it.
\<close>

theorem frame_roundtrip:
  assumes "frame_ok f"
  shows "decode (encode f @ rest) = Some f"
  using assms by (rule decode_encode_append)

theorem frame_roundtrip_witness:
  "decode (encode (mk_frame_str 1 2 7 DATA ''GET'') @ ''xx'') = Some (mk_frame_str 1 2 7 DATA ''GET'')"
  by (rule frame_roundtrip) (simp add: frame_ok_def frame_shape_def)

text \<open>
  A change of one payload byte of a good frame on the way is always detected: the changed text is
  not decoded.
\<close>

theorem frame_corruption_detected:
  assumes "frame_ok f" and "ftype f \<noteq> ACK" and "i < length (payload f)" and "b \<noteq> payload f ! i"
  shows "decode (encode (f\<lparr>payload := (payload f)[i := b]\<rparr>)) = None"
proof -
  let ?g = "f\<lparr>payload := (payload f)[i := b]\<rparr>"
  have "frame_shape ?g" using assms by (simp add: frame_ok_def frame_shape_def)
  moreover have "calculate_checksum ?g \<noteq> calculate_checksum f"
    using foldl_xor_update [OF assms(3), of b] assms(4)
    by (simp add: calculate_checksum_def foldl_xor [of "src_id f XOR _"] xor_cancel
        foldl_xor [of "_ XOR frame_type_code (ftype f)"])
  then have "\<not> verify_checksum ?g"
    using assms(1) by (simp add: frame_ok_def verify_checksum_def)
  ultimately show ?thesis
    using decode_encode_shape [of ?g "[]"] by (simp add: checked_def)
qed

theorem frame_corruption_detected_witness:
  "decode (encode ((mk_frame 1 2 7 DATA [65, 66])\<lparr>payload := [65, 67]\<rparr>)) = None"
  using frame_corruption_detected [of "mk_frame 1 2 7 DATA [65, 66]" 1 67]
  by (simp add: frame_ok_def frame_shape_def)

end
