(* ===== verification/UwbSlot.thy ===== *)
theory UwbSlot
  imports Prelude
begin

text \<open>
  The time slots of the UWB link, \<open>SimpleTimeSlotManager\<close> of
  \<open>src/Master/src/uwb/UwbTimeslotmanager.cpp\<close>. Every call of \<open>system_clock::now()\<close> is an argument:
  a member function that reads the clock twice has two. A reading is the \<open>int64\<close> count of
  milliseconds since 1970, converted to \<open>uint64_t\<close> by the subtraction of the epoch.
\<close>

definition SLOT_DURATION_MS :: u32 where "SLOT_DURATION_MS = 500"
definition TRANSMISSION_WINDOW_MS :: u32 where "TRANSMISSION_WINDOW_MS = 400"
definition GUARD_INTERVAL_MS :: u32 where "GUARD_INTERVAL_MS = 100"
definition MAX_NODES :: u8 where "MAX_NODES = 3"
definition GLOBAL_EPOCH_MS :: u64 where "GLOBAL_EPOCH_MS = 1704067200000"

definition get_current_slot :: "u64 \<Rightarrow> u32" where
  "get_current_slot now = ucast ((now - GLOBAL_EPOCH_MS) div ucast SLOT_DURATION_MS)"

text \<open>
  \<open>(m_node_id - 1) % MAX_NODES\<close> is computed in \<open>int\<close> and may be negative; the comparison converts it
  to \<open>uint32_t\<close>.
\<close>

definition is_my_slot :: "u8 \<Rightarrow> u64 \<Rightarrow> bool" where
  "is_my_slot node_id now \<longleftrightarrow>
     get_current_slot now mod ucast MAX_NODES
       = of_int (int_rem (uint node_id - 1) (uint MAX_NODES))"

definition get_slot_owner :: "u64 \<Rightarrow> u8" where
  "get_slot_owner now = ucast (get_current_slot now mod ucast MAX_NODES + 1)"

definition get_time_in_slot_ms :: "u64 \<Rightarrow> u32" where
  "get_time_in_slot_ms now = ucast ((now - GLOBAL_EPOCH_MS) mod ucast SLOT_DURATION_MS)"

definition is_in_transmission_window :: "u8 \<Rightarrow> u64 \<Rightarrow> u64 \<Rightarrow> bool" where
  "is_in_transmission_window node_id t1 t2 \<longleftrightarrow>
     (if \<not> is_my_slot node_id t1 then False
      else get_time_in_slot_ms t2 < TRANSMISSION_WINDOW_MS)"

definition can_transmit :: "u8 \<Rightarrow> u64 \<Rightarrow> u64 \<Rightarrow> u64 \<Rightarrow> bool" where
  "can_transmit node_id t1 t2 t3 \<longleftrightarrow>
     is_my_slot node_id t1 \<and> is_in_transmission_window node_id t2 t3"

definition get_transmission_time_remaining :: "u8 \<Rightarrow> u64 \<Rightarrow> u64 \<Rightarrow> u64 \<Rightarrow> u32" where
  "get_transmission_time_remaining node_id t1 t2 t3 =
     (if \<not> is_in_transmission_window node_id t1 t2 then 0
      else TRANSMISSION_WINDOW_MS - get_time_in_slot_ms t3)"

text \<open>
  The manager's state and one pass through the loop of \<open>monitor_thread\<close>: the clock is read for the
  slot number, for the ownership and for the time in the slot. The result says whether the callback
  ran.
\<close>

record slot_manager =
  m_node_id :: u8
  m_running :: bool
  m_last_slot :: u32
  m_callback :: bool

definition new_slot_manager :: "u8 \<Rightarrow> slot_manager" where
  "new_slot_manager node_id =
     \<lparr>m_node_id = node_id, m_running = False, m_last_slot = 0xFFFFFFFF, m_callback = False\<rparr>"

definition sm_start :: "slot_manager \<Rightarrow> slot_manager" where
  "sm_start m = (if m_running m then m else m\<lparr>m_running := True\<rparr>)"

definition sm_stop :: "slot_manager \<Rightarrow> slot_manager" where
  "sm_stop m = (if \<not> m_running m then m else m\<lparr>m_running := False\<rparr>)"

definition set_my_slot_callback :: "slot_manager \<Rightarrow> slot_manager" where
  "set_my_slot_callback m = m\<lparr>m_callback := True\<rparr>"

definition monitor_step :: "u64 \<times> u64 \<times> u64 \<Rightarrow> slot_manager \<Rightarrow> slot_manager \<times> bool" where
  "monitor_step ts m =
     (let (t1, t2, t3) = ts; cur = get_current_slot t1 in
      if cur \<noteq> m_last_slot m then
        let m = m\<lparr>m_last_slot := cur\<rparr> in
        if is_my_slot (m_node_id m) t2 then
          if get_time_in_slot_ms t3 < TRANSMISSION_WINDOW_MS then (m, m_callback m)
          else (m, False)
        else (m, False)
      else (m, False))"

text \<open>\<open>monitor_thread\<close>: the slots in which the callback ran, over the passes made while running.\<close>

fun monitor_thread :: "(u64 \<times> u64 \<times> u64) list \<Rightarrow> slot_manager \<Rightarrow> slot_manager \<times> u32 list" where
  "monitor_thread [] m = (m, [])"
| "monitor_thread (ts # tss) m =
     (if \<not> m_running m then (m, [])
      else let (m', fired) = monitor_step ts m; (m'', slots) = monitor_thread tss m' in
        (m'', (if fired then [get_current_slot (fst ts)] else []) @ slots))"

subsection \<open>Readings in milliseconds since the global epoch\<close>

definition at_ms :: "nat \<Rightarrow> u64" where
  "at_ms e = GLOBAL_EPOCH_MS + of_nat e"

text \<open>The readings whose slot number fits \<open>uint32_t\<close>: 68 years.\<close>

definition in_range :: "nat \<Rightarrow> bool" where
  "in_range e \<longleftrightarrow> e < 500 * 2 ^ 32"

lemma unat_slot:
  assumes "in_range e"
  shows "unat (get_current_slot (at_ms e)) = e div 500"
proof -
  have e: "e < 2147483648000" using assms by (simp add: in_range_def)
  then have "unat (of_nat e :: u64) = e" by (simp add: unat_of_nat)
  then have "unat ((of_nat e :: u64) div 500) = e div 500" by (simp add: unat_div)
  moreover have "e div 500 < 4294967296" using e by (simp add: div_less_iff_less_mult)
  ultimately show ?thesis
    by (simp add: get_current_slot_def at_ms_def SLOT_DURATION_MS_def unsigned_ucast_eq take_bit_eq_mod)
qed

lemma unat_time_in_slot:
  assumes "in_range e"
  shows "unat (get_time_in_slot_ms (at_ms e)) = e mod 500"
proof -
  have e: "e < 2147483648000" using assms by (simp add: in_range_def)
  then have "unat (of_nat e :: u64) = e" by (simp add: unat_of_nat)
  then have "unat ((of_nat e :: u64) mod 500) = e mod 500" by (simp add: unat_mod)
  moreover have "e mod 500 < 4294967296" by (rule less_trans [of _ 500]) simp_all
  ultimately show ?thesis
    by (simp add: get_time_in_slot_ms_def at_ms_def SLOT_DURATION_MS_def unsigned_ucast_eq take_bit_eq_mod)
qed

lemma unat_mod3: "unat ((w :: u32) mod 3) = unat w mod 3"
  by (simp add: unat_mod)

text \<open>The owner test, over naturals: node 0 never owns a slot.\<close>

lemma is_my_slot_iff:
  assumes "in_range e"
  shows "is_my_slot i (at_ms e) \<longleftrightarrow> i \<noteq> 0 \<and> e div 500 mod 3 = (unat i - 1) mod 3"
proof (cases "i = 0")
  case True
  have l: "unat (get_current_slot (at_ms e) mod 3) < 3" by (simp add: unat_mod)
  have m: "unat (- 1 :: u32) = 4294967295"
    by (simp add: unsigned_minus_1_eq_mask mask_eq_exp_minus_1)
  have "get_current_slot (at_ms e) mod 3 \<noteq> - 1"
  proof
    assume "get_current_slot (at_ms e) mod 3 = - 1"
    then show False using l m by simp
  qed
  with True show ?thesis
    by (simp add: is_my_slot_def MAX_NODES_def int_rem_def)
next
  case False
  then obtain k where k: "unat i = Suc k" by (cases "unat i") (auto simp: unat_eq_0)
  then have "uint i = int (Suc k)" by (metis of_nat_unat)
  moreover have "int_rem (int k) 3 = int (k mod 3)"
    by (cases "k = 0") (simp_all add: int_rem_def zmod_int)
  ultimately have r: "int_rem (uint i - 1) 3 = int ((unat i - 1) mod 3)"
    using k by simp
  have "(unat i - 1) mod 3 < 3" by simp
  then have u: "unat (of_nat ((unat i - 1) mod 3) :: u32) = (unat i - 1) mod 3"
    by (simp add: unat_of_nat)
  have "is_my_slot i (at_ms e) \<longleftrightarrow>
      get_current_slot (at_ms e) mod 3 = of_nat ((unat i - 1) mod 3)"
    by (simp add: is_my_slot_def MAX_NODES_def r)
  also have "\<dots> \<longleftrightarrow> unat (get_current_slot (at_ms e) mod 3) = (unat i - 1) mod 3"
    by (metis u unsigned_word_eqI)
  finally show ?thesis using False assms by (simp add: unat_mod3 unat_slot)
qed

lemma in_window_iff:
  assumes "in_range e"
  shows "get_time_in_slot_ms (at_ms e) < TRANSMISSION_WINDOW_MS \<longleftrightarrow> e mod 500 < 400"
  using unat_time_in_slot [OF assms]
  by (simp add: word_less_nat_alt TRANSMISSION_WINDOW_MS_def)

subsection \<open>Shared schedules\<close>

text \<open>
  What a transmitter relies on: at any instant exactly one of the participants owns the channel.
\<close>

locale slot_schedule =
  fixes mine :: "'i \<Rightarrow> 't \<Rightarrow> bool"
    and members :: "'i set"
    and instants :: "'t set"
  assumes one_owner: "t \<in> instants \<Longrightarrow> i \<in> members \<Longrightarrow> j \<in> members \<Longrightarrow> mine i t \<Longrightarrow> mine j t \<Longrightarrow> i = j"
    and some_owner: "t \<in> instants \<Longrightarrow> \<exists>i \<in> members. mine i t"
begin

lemma owner_ex1: "t \<in> instants \<Longrightarrow> \<exists>!i. i \<in> members \<and> mine i t"
  using one_owner some_owner by blast

lemma no_collision:
  assumes "t \<in> instants" and "i \<in> members" and "j \<in> members"
    and "\<And>k. tx k \<Longrightarrow> mine k t" and "tx i" and "tx j"
  shows "i = j"
  using assms one_owner by blast

end

lemma members_unat: "i \<in> {1, 2, 3 :: u8} \<Longrightarrow> i \<noteq> 0 \<and> (unat i - 1) mod 3 = unat i - 1 \<and> 1 \<le> unat i \<and> unat i \<le> 3"
  by auto

lemma members_eqI: "i \<in> {1, 2, 3 :: u8} \<Longrightarrow> j \<in> {1, 2, 3} \<Longrightarrow> unat i - 1 = unat j - 1 \<Longrightarrow> i = j"
  by auto

interpretation uwb_slots: slot_schedule "\<lambda>i e. is_my_slot i (at_ms e)" "{1, 2, 3}" "Collect in_range"
proof (unfold_locales, goal_cases)
  case (1 e i j)
  then have "unat i - 1 = unat j - 1"
    by (metis is_my_slot_iff members_unat mem_Collect_eq)
  with 1 show ?case by (intro members_eqI) simp_all
next
  case (2 e)
  consider "e div 500 mod 3 = 0" | "e div 500 mod 3 = 1" | "e div 500 mod 3 = 2"
    by linarith
  then show ?case
    using 2 by cases (auto simp: is_my_slot_iff)
qed

lemma window_my_slot: "is_in_transmission_window i t1 t2 \<Longrightarrow> is_my_slot i t1"
  by (simp add: is_in_transmission_window_def split: if_splits)

lemma window_iff:
  "in_range e \<Longrightarrow> is_in_transmission_window i (at_ms e) (at_ms e) \<longleftrightarrow>
     is_my_slot i (at_ms e) \<and> e mod 500 < 400"
  by (simp add: is_in_transmission_window_def in_window_iff)

text \<open>
  C8: When the clocks agree and a check is made at one instant, at most one of the nodes 1 to 3 may
  transmit.
\<close>

theorem slot_tx_exclusive:
  assumes "in_range e" and "i \<in> {1, 2, 3}" and "j \<in> {1, 2, 3}"
    and "can_transmit i (at_ms e) (at_ms e) (at_ms e)"
    and "can_transmit j (at_ms e) (at_ms e) (at_ms e)"
  shows "i = j"
  by (rule uwb_slots.no_collision
      [where tx = "\<lambda>k. can_transmit k (at_ms e) (at_ms e) (at_ms e)" and t = e])
    (use assms in \<open>auto simp: can_transmit_def\<close>)

theorem slot_tx_exclusive_witness:
  "can_transmit 2 (at_ms 600) (at_ms 600) (at_ms 600) \<and>
   \<not> can_transmit 1 (at_ms 600) (at_ms 600) (at_ms 600) \<and>
   \<not> can_transmit 3 (at_ms 600) (at_ms 600) (at_ms 600)"
proof -
  have r: "in_range 600" by (simp add: in_range_def)
  then have c: "can_transmit 2 (at_ms 600) (at_ms 600) (at_ms 600)"
    by (simp add: can_transmit_def window_iff is_my_slot_iff)
  show ?thesis using c slot_tx_exclusive [OF r _ _ c, of 1] slot_tx_exclusive [OF r _ _ c, of 3] by auto
qed

text \<open>
  \<open>get_slot_owner\<close> and \<open>is_my_slot\<close> agree: the owner it reports is the one node of 1 to 3 whose slot
  it is.
\<close>

theorem slot_owner_agrees:
  assumes "in_range e" and "i \<in> {1, 2, 3}"
  shows "is_my_slot i (at_ms e) \<longleftrightarrow> get_slot_owner (at_ms e) = i"
proof -
  let ?w = "get_current_slot (at_ms e) mod 3 :: u32"
  have u: "unat ?w = e div 500 mod 3" using assms(1) by (simp add: unat_mod3 unat_slot)
  have "unat (?w + 1) = e div 500 mod 3 + 1"
  proof -
    have "unat (?w + 1) = (unat ?w + 1) mod 2 ^ 32" by (simp add: unat_word_ariths)
    moreover have "e div 500 mod 3 < 3" by simp
    ultimately show ?thesis using u by simp
  qed
  then have "unat (get_slot_owner (at_ms e)) = e div 500 mod 3 + 1"
    by (simp add: get_slot_owner_def MAX_NODES_def unsigned_ucast_eq take_bit_eq_mod)
  then show ?thesis
    using members_unat [OF assms(2)] is_my_slot_iff [OF assms(1), of i]
    by (metis Suc_eq_plus1 Suc_pred' diff_Suc_1 le_eq_less_or_eq less_eq_Suc_le One_nat_def unsigned_word_eqI)
qed

theorem slot_owner_agrees_witness:
  "is_my_slot 3 (at_ms 1000) \<and> get_slot_owner (at_ms 1000) = 3"
proof -
  have r: "in_range 1000" by (simp add: in_range_def)
  then have "is_my_slot 3 (at_ms 1000)" by (simp add: is_my_slot_iff)
  then show ?thesis using slot_owner_agrees [OF r, of 3] by simp
qed

text \<open>
  Inside the window the remaining time is between 1 and 400 ms, and the slot stays the node's and
  the window open until exactly that many milliseconds have passed.
\<close>

theorem slot_remaining_exact:
  assumes "in_range (e + 400)" and "is_in_transmission_window i (at_ms e) (at_ms e)"
    and r: "r = unat (get_transmission_time_remaining i (at_ms e) (at_ms e) (at_ms e))"
  shows "1 \<le> r \<and> r \<le> 400 \<and>
    (\<forall>k < r. is_in_transmission_window i (at_ms (e + k)) (at_ms (e + k))) \<and>
    \<not> is_in_transmission_window i (at_ms (e + r)) (at_ms (e + r))"
proof -
  have ir: "in_range (e + k)" if "k \<le> 400" for k
    using assms(1) that by (simp add: in_range_def)
  have e: "in_range e" using ir [of 0] by simp
  have w: "is_my_slot i (at_ms e)" "e mod 500 < 400"
    using assms(2) window_iff [OF e] by simp_all
  have r400: "r = 400 - e mod 500"
  proof -
    have le: "get_time_in_slot_ms (at_ms e) \<le> 400"
      using in_window_iff [OF e, THEN iffD2, OF w(2)] by (simp add: TRANSMISSION_WINDOW_MS_def)
    have "unat (400 - get_time_in_slot_ms (at_ms e)) = 400 - e mod 500"
      using unat_sub [OF le] unat_time_in_slot [OF e] by simp
    then show ?thesis
      using assms(2) by (simp add: r get_transmission_time_remaining_def TRANSMISSION_WINDOW_MS_def)
  qed
  have m: "(e + k) div 500 = e div 500 \<and> (e + k) mod 500 = e mod 500 + k" if "k \<le> 400 - e mod 500" for k
  proof -
    have "e mod 500 + k < 500" using that w(2) by simp
    moreover have "e + k = 500 * (e div 500) + (e mod 500 + k)" by simp
    ultimately show ?thesis
      by (metis add.commute add_0 div_less div_mult_self1 mod_less mod_mult_self1 mult.commute zero_neq_numeral)
  qed
  have k: "is_in_transmission_window i (at_ms (e + k)) (at_ms (e + k)) \<longleftrightarrow> e mod 500 + k < 400"
    if "k \<le> 400 - e mod 500" for k
    using m [OF that] that w ir [of k] e by (simp add: window_iff is_my_slot_iff)
  have "e mod 500 + j < 400" if "j < r" for j
    using that w(2) r400 by linarith
  then show ?thesis
    using w(2) k [of r] k r400 by simp
qed

theorem slot_remaining_exact_witness:
  "\<not> is_in_transmission_window 1 (at_ms 400) (at_ms 400)"
proof -
  have e: "in_range (150 + 400)" and e': "in_range 150" by (simp_all add: in_range_def)
  have w: "is_in_transmission_window 1 (at_ms 150) (at_ms 150)"
    using e' by (simp add: window_iff is_my_slot_iff)
  have r: "unat (get_transmission_time_remaining 1 (at_ms 150) (at_ms 150) (at_ms 150)) = 250"
    using w unat_time_in_slot [OF e']
    by (simp add: get_transmission_time_remaining_def TRANSMISSION_WINDOW_MS_def unat_sub word_le_nat_alt)
  show ?thesis using slot_remaining_exact [OF e w r [symmetric]] by simp
qed

text \<open>
  The members read the clock separately, so the answer can be stale: reading the ownership in the
  last millisecond of node 1's slot and the time in the slot one millisecond later, node 1 is told
  that it can transmit while the slot and its window already belong to node 2.
\<close>

theorem slot_check_race:
  "can_transmit 1 (at_ms 499) (at_ms 499) (at_ms 500) \<and>
   \<not> is_my_slot 1 (at_ms 500) \<and>
   can_transmit 2 (at_ms 500) (at_ms 500) (at_ms 500)"
proof -
  have r: "in_range 499" "in_range 500" by (simp_all add: in_range_def)
  then show ?thesis
    by (simp add: can_transmit_def is_in_transmission_window_def is_my_slot_iff in_window_iff)
qed

subsection \<open>The monitor loop\<close>

lemma monitor_step_state [simp]:
  "fst (monitor_step ts m) = m\<lparr>m_last_slot := get_current_slot (fst ts)\<rparr>"
  by (auto simp: monitor_step_def Let_def split: prod.split)

lemma monitor_step_fires:
  "snd (monitor_step ts m) \<Longrightarrow> get_current_slot (fst ts) \<noteq> m_last_slot m"
  by (auto simp: monitor_step_def Let_def split: prod.splits if_splits)

lemma monitor_thread_Cons:
  "m_running m \<Longrightarrow> snd (monitor_thread (ts # tss) m) =
     (if snd (monitor_step ts m) then [get_current_slot (fst ts)] else []) @
     snd (monitor_thread tss (m\<lparr>m_last_slot := get_current_slot (fst ts)\<rparr>))"
  using monitor_step_state [of ts m]
  by (simp add: Let_def case_prod_beta del: monitor_step_state)

lemma monitor_thread_stopped: "\<not> m_running m \<Longrightarrow> snd (monitor_thread tss m) = []"
  by (cases tss) simp_all

lemma monitor_fired_increasing:
  assumes "sorted (map (\<lambda>ts. get_current_slot (fst ts)) tss)"
    and "\<forall>ts \<in> set tss. m_last_slot m \<le> get_current_slot (fst ts)"
  shows "sorted_wrt (<) (snd (monitor_thread tss m)) \<and>
    (\<forall>s \<in> set (snd (monitor_thread tss m)). m_last_slot m < s)"
  using assms
proof (induction tss arbitrary: m)
  case Nil
  then show ?case by simp
next
  case (Cons ts tss)
  show ?case
  proof (cases "m_running m")
    case False
    then show ?thesis by (simp add: monitor_thread_stopped)
  next
    case True
    let ?m = "m\<lparr>m_last_slot := get_current_slot (fst ts)\<rparr>"
    have "sorted_wrt (<) (snd (monitor_thread tss ?m)) \<and>
        (\<forall>s \<in> set (snd (monitor_thread tss ?m)). m_last_slot ?m < s)"
      using Cons.prems by (intro Cons.IH) auto
    then show ?thesis
      using Cons.prems(2) monitor_step_fires [of ts m]
      by (auto simp: monitor_thread_Cons [OF True] simp del: monitor_thread.simps
          intro: le_less_trans order.not_eq_order_implies_strict)
  qed
qed

text \<open>
  While the slot numbers read do not decrease, the callback runs at most once in each slot: the
  slots in which it ran are strictly increasing, whatever the state the loop starts in.
\<close>

theorem monitor_once_per_slot:
  assumes "sorted (map (\<lambda>ts. get_current_slot (fst ts)) tss)"
  shows "sorted_wrt (<) (snd (monitor_thread tss m))"
proof (cases "m_running m \<and> tss \<noteq> []")
  case True
  then obtain ts tss' where tss: "tss = ts # tss'" by (cases tss) auto
  let ?m = "m\<lparr>m_last_slot := get_current_slot (fst ts)\<rparr>"
  have "sorted_wrt (<) (snd (monitor_thread tss' ?m)) \<and>
      (\<forall>s \<in> set (snd (monitor_thread tss' ?m)). m_last_slot ?m < s)"
    using assms tss by (intro monitor_fired_increasing) auto
  then show ?thesis
    using True tss by (auto simp: monitor_thread_Cons simp del: monitor_thread.simps)
next
  case False
  then show ?thesis by (auto simp: monitor_thread_stopped)
qed

theorem monitor_once_per_slot_witness:
  "snd (monitor_thread [(at_ms 0, at_ms 0, at_ms 0), (at_ms 10, at_ms 10, at_ms 10)]
      (sm_start (set_my_slot_callback (new_slot_manager 1)))) = [0] \<and>
   sorted_wrt (<) (snd (monitor_thread [(at_ms 0, at_ms 0, at_ms 0), (at_ms 10, at_ms 10, at_ms 10)]
      (sm_start (set_my_slot_callback (new_slot_manager 1)))))"
proof -
  have r: "in_range 0" "in_range 10" by (simp_all add: in_range_def)
  have s: "get_current_slot (at_ms 0) = 0" "get_current_slot (at_ms 10) = 0"
    using unat_slot [OF r(1)] unat_slot [OF r(2)] by (simp_all add: unat_eq_0)
  then have "sorted (map (\<lambda>ts. get_current_slot (fst ts))
      [(at_ms 0, at_ms 0, at_ms 0), (at_ms 10, at_ms 10, at_ms 10)])"
    by simp
  then show ?thesis
    by (rule conjI [OF _ monitor_once_per_slot, rotated])
      (simp add: monitor_step_def s r is_my_slot_iff in_window_iff sm_start_def
        set_my_slot_callback_def new_slot_manager_def)
qed

definition polls :: "nat list \<Rightarrow> (u64 \<times> u64 \<times> u64) list" where
  "polls es = map (\<lambda>e. (at_ms e, at_ms e, at_ms e)) es"

lemma polls_Cons [simp]: "polls (e # es) = (at_ms e, at_ms e, at_ms e) # polls es"
  by (simp add: polls_def)

lemma slot_number: "in_range e \<Longrightarrow> get_current_slot (at_ms e) = of_nat (e div 500)"
  using of_nat_unat [of "get_current_slot (at_ms e)", where ?'a = u32] by (simp add: unat_slot)

lemma monitor_step_in_slot:
  assumes "in_range e" and "m_callback m" and "m_node_id m \<noteq> 0"
    and "e div 500 mod 3 = (unat (m_node_id m) - 1) mod 3" and "e mod 500 < 400"
    and "unat (m_last_slot m) < e div 500"
  shows "snd (monitor_step (at_ms e, at_ms e, at_ms e) m)"
proof -
  have "get_current_slot (at_ms e) \<noteq> m_last_slot m"
    using assms(6) unat_slot [OF assms(1)] by auto
  then show ?thesis
    using assms by (simp add: monitor_step_def is_my_slot_iff in_window_iff)
qed

text \<open>
  No slot is missed: when the clock readings of the loop are at most 400 ms apart, the node's
  callback runs in every slot of the node that begins while the loop polls.
\<close>

theorem monitor_no_missed_slot:
  assumes "successively (\<lambda>a b. a \<le> b \<and> b \<le> a + 400) es" and "\<forall>e \<in> set es. in_range e"
    and "es \<noteq> []" and "hd es < 500 * k" and "500 * k \<le> last es"
    and "m_running m" and "m_callback m" and "m_node_id m \<noteq> 0"
    and "k mod 3 = (unat (m_node_id m) - 1) mod 3"
  shows "of_nat k \<in> set (snd (monitor_thread (polls es) m))"
  using assms
proof (induction es arbitrary: m rule: induct_list012)
  case (3 e e' es)
  let ?m = "m\<lparr>m_last_slot := get_current_slot (at_ms e)\<rparr>"
  have sub: "set (snd (monitor_thread (polls (e' # es)) ?m))
      \<subseteq> set (snd (monitor_thread (polls (e # e' # es)) m))"
    using monitor_thread_Cons [OF 3(8), of "(at_ms e, at_ms e, at_ms e)" "polls (e' # es)"] by auto
  show ?case
  proof (cases "e' < 500 * k")
    case True
    have "of_nat k \<in> set (snd (monitor_thread (polls (e' # es)) ?m))"
      using 3(3-) True by (intro 3(2)) auto
    then show ?thesis using sub by blast
  next
    case False
    have le: "e' \<le> e + 400" "e < 500 * k" "in_range e'" "in_range e" using 3(3,4,6) by auto
    then have d: "e' div 500 = k" using False by (simp add: div_nat_eqI)
    have w: "e' mod 500 < 400" using le False d by (simp add: modulo_nat_def)
    have "unat (m_last_slot ?m) < e' div 500"
      using le d unat_slot [of e] by (simp add: less_mult_imp_div_less mult.commute)
    then have "snd (monitor_step (at_ms e', at_ms e', at_ms e') ?m)"
      using 3 d w le by (intro monitor_step_in_slot) simp_all
    moreover have "get_current_slot (at_ms e') = of_nat k" using d slot_number [OF le(3)] by simp
    moreover have "m_running ?m" using 3(8) by simp
    ultimately have "of_nat k \<in> set (snd (monitor_thread (polls (e' # es)) ?m))"
      using monitor_thread_Cons [of ?m "(at_ms e', at_ms e', at_ms e')" "polls es"] by simp
    then show ?thesis using sub by blast
  qed
qed simp_all

theorem monitor_no_missed_slot_witness:
  "of_nat 1 \<in> set (snd (monitor_thread (polls [100, 400, 700])
     (sm_start (set_my_slot_callback (new_slot_manager 2)))))"
  by (rule monitor_no_missed_slot)
    (simp_all add: in_range_def sm_start_def set_my_slot_callback_def new_slot_manager_def)

end
