(* ===== verification/HttpApi.thy ===== *)
theory HttpApi
  imports CxxString
begin

text \<open>
  The two libraries the code calls: Boost.Beast's request object and jsoncpp. Their code is not in
  the repository; their operations are the fields of the records below, arguments of every definition
  that calls them. \<open>http_laws\<close> and \<open>json_laws\<close> are the documented facts the properties use.
\<close>

datatype verb = v_get | v_post | v_put | v_delete | v_unknown

text \<open>
  \<open>h_make v t\<close> is \<open>request{v, t, 11}\<close>; \<open>h_get\<close> is \<open>req[name]\<close>, the empty string for an absent field;
  \<open>h_set_method\<close> throws for \<open>verb::unknown\<close> (\<open>None\<close>); \<open>h_text\<close> is what \<open>operator<<\<close> prints.
\<close>

record 'r http_api =
  h_make :: "verb \<Rightarrow> string \<Rightarrow> 'r"
  h_empty :: 'r
  h_method :: "'r \<Rightarrow> verb"
  h_set_method :: "verb \<Rightarrow> 'r \<Rightarrow> 'r option"
  h_target :: "'r \<Rightarrow> string"
  h_set_target :: "string \<Rightarrow> 'r \<Rightarrow> 'r"
  h_set_version :: "nat \<Rightarrow> 'r \<Rightarrow> 'r"
  h_get :: "'r \<Rightarrow> string \<Rightarrow> string"
  h_set :: "string \<Rightarrow> string \<Rightarrow> 'r \<Rightarrow> 'r"
  h_body :: "'r \<Rightarrow> string"
  h_set_body :: "string \<Rightarrow> 'r \<Rightarrow> 'r"
  h_prepare :: "'r \<Rightarrow> 'r"
  h_text :: "'r \<Rightarrow> string"

text \<open>The fields the program sets itself; Beast compares names without case.\<close>

definition app_fields :: "string set" where
  "app_fields = {''src'', ''dest'', ''node'', ''sub'', ''pub'', ''type'', ''topic'', ''host1'', ''host2'',
     ''pid'', ''eventfd''}"

definition http_laws :: "'r http_api \<Rightarrow> bool" where
  "http_laws A \<longleftrightarrow>
     (\<forall>v t. v \<noteq> v_unknown \<longrightarrow> h_method A (h_make A v t) = v) \<and>
     (\<forall>v t. h_target A (h_make A v t) = t) \<and>
     (\<forall>k v r. h_method A (h_set A k v r) = h_method A r) \<and>
     (\<forall>k v r. h_target A (h_set A k v r) = h_target A r) \<and>
     (\<forall>k v r. h_body A (h_set A k v r) = h_body A r) \<and>
     (\<forall>k k' v r. k \<in> app_fields \<longrightarrow> k' \<in> app_fields \<longrightarrow>
        h_get A (h_set A k v r) k' = (if k' = k then v else h_get A r k')) \<and>
     (\<forall>b r. h_body A (h_set_body A b r) = b) \<and>
     (\<forall>b r. h_method A (h_set_body A b r) = h_method A r) \<and>
     (\<forall>b r. h_target A (h_set_body A b r) = h_target A r) \<and>
     (\<forall>b k r. h_get A (h_set_body A b r) k = h_get A r k) \<and>
     (\<forall>r. h_method A (h_prepare A r) = h_method A r) \<and>
     (\<forall>r. h_target A (h_prepare A r) = h_target A r) \<and>
     (\<forall>r. h_body A (h_prepare A r) = h_body A r) \<and>
     (\<forall>r k. k \<in> app_fields \<longrightarrow> h_get A (h_prepare A r) k = h_get A r k)"

named_theorems http_simps "reading a request back, under the laws of the library"

lemma http_reads [http_simps]:
  assumes "http_laws A"
  shows "v \<noteq> v_unknown \<Longrightarrow> h_method A (h_make A v t) = v"
    and "h_target A (h_make A v t) = t"
    and "h_method A (h_set A k w r) = h_method A r"
    and "h_target A (h_set A k w r) = h_target A r"
    and "h_body A (h_set A k w r) = h_body A r"
    and "h_body A (h_set_body A b r) = b"
    and "h_method A (h_set_body A b r) = h_method A r"
    and "h_target A (h_set_body A b r) = h_target A r"
    and "h_get A (h_set_body A b r) k = h_get A r k"
    and "h_method A (h_prepare A r) = h_method A r"
    and "h_target A (h_prepare A r) = h_target A r"
    and "h_body A (h_prepare A r) = h_body A r"
  using assms by (simp_all add: http_laws_def)

lemma http_get_set [http_simps]:
  "http_laws A \<Longrightarrow> k \<in> app_fields \<Longrightarrow> k' \<in> app_fields \<Longrightarrow>
   h_get A (h_set A k v r) k' = (if k' = k then v else h_get A r k')"
  by (simp add: http_laws_def)

lemma http_get_prepare [http_simps]:
  "http_laws A \<Longrightarrow> k \<in> app_fields \<Longrightarrow> h_get A (h_prepare A r) k = h_get A r k"
  by (simp add: http_laws_def)

lemma app_fields_simps [simp]:
  "''src'' \<in> app_fields" "''dest'' \<in> app_fields" "''node'' \<in> app_fields" "''sub'' \<in> app_fields"
  "''pub'' \<in> app_fields" "''type'' \<in> app_fields" "''topic'' \<in> app_fields"
  "''host1'' \<in> app_fields" "''host2'' \<in> app_fields" "''pid'' \<in> app_fields" "''eventfd'' \<in> app_fields"
  by (simp_all add: app_fields_def)

subsection \<open>Node information as JSON\<close>

text \<open>What \<open>getAllNodeInfo\<close> puts in the document and \<open>NewController\<close> reads: topics with their types.\<close>

record node_info =
  ni_name :: string
  ni_pubtopics :: "(string \<times> string) list"
  ni_subtopics :: "(string \<times> string) list"

text \<open>
  \<open>j_write\<close> is \<open>Json::writeString\<close> of \<open>{"nodes": [...]}\<close>; \<open>j_parse\<close> is the list over which the loops on
  \<open>root["nodes"]\<close> run after \<open>reader.parse\<close>, empty when the text is not JSON.
\<close>

record json_api =
  j_write :: "node_info list \<Rightarrow> string"
  j_parse :: "string \<Rightarrow> node_info list"

definition json_laws :: "json_api \<Rightarrow> bool" where
  "json_laws J \<longleftrightarrow> (\<forall>ns. j_parse J (j_write J ns) = ns)"

subsection \<open>A concrete library\<close>

text \<open>
  A request as its parts, for evaluating the model on concrete input: fields in order, \<open>h_text\<close> in
  the HTTP/1.1 format.
\<close>

record request =
  rq_method :: verb
  rq_target :: string
  rq_fields :: "(string \<times> string) list"
  rq_body :: string

fun verb_text :: "verb \<Rightarrow> string" where
  "verb_text v_get = ''GET''"
| "verb_text v_post = ''POST''"
| "verb_text v_put = ''PUT''"
| "verb_text v_delete = ''DELETE''"
| "verb_text v_unknown = ''<unknown>''"

definition crlf :: string where
  "crlf = [CHR 0x0D, CHR 0x0A]"

definition http_text :: "verb \<Rightarrow> string \<Rightarrow> (string \<times> string) list \<Rightarrow> string \<Rightarrow> string" where
  "http_text v t fs b =
     verb_text v @ '' '' @ t @ '' HTTP/1.1'' @ crlf
     @ concat (map (\<lambda>(k, w). k @ '': '' @ w @ crlf) fs) @ crlf @ b"

definition list_http :: "request http_api" where
  "list_http = \<lparr>
     h_make = \<lambda>v t. \<lparr>rq_method = v, rq_target = t, rq_fields = [], rq_body = []\<rparr>,
     h_empty = \<lparr>rq_method = v_get, rq_target = [], rq_fields = [], rq_body = []\<rparr>,
     h_method = rq_method,
     h_set_method = \<lambda>v r. if v = v_unknown then None else Some (r\<lparr>rq_method := v\<rparr>),
     h_target = rq_target,
     h_set_target = \<lambda>t r. r\<lparr>rq_target := t\<rparr>,
     h_set_version = \<lambda>_ r. r,
     h_get = \<lambda>r k. (case map_of (rq_fields r) k of Some v \<Rightarrow> v | None \<Rightarrow> []),
     h_set = \<lambda>k v r. r\<lparr>rq_fields := AList.update k v (rq_fields r)\<rparr>,
     h_body = rq_body,
     h_set_body = \<lambda>b r. r\<lparr>rq_body := b\<rparr>,
     h_prepare = \<lambda>r. r,
     h_text = \<lambda>r. http_text (rq_method r) (rq_target r) (rq_fields r) (rq_body r)\<rparr>"

lemma list_http_laws: "http_laws list_http"
  by (simp add: http_laws_def list_http_def update_conv')

text \<open>
  A concrete text form of the node information: every string and list ends with \<open>0\<close>, every element
  of one is preceded by \<open>1\<close>.
\<close>

fun enc_list :: "('a \<Rightarrow> string) \<Rightarrow> 'a list \<Rightarrow> string" where
  "enc_list f [] = ''0''"
| "enc_list f (x # xs) = CHR ''1'' # f x @ enc_list f xs"

fun dec_list :: "(string \<Rightarrow> ('a \<times> string) option) \<Rightarrow> nat \<Rightarrow> string \<Rightarrow> ('a list \<times> string) option" where
  "dec_list d 0 s = None"
| "dec_list d (Suc n) [] = None"
| "dec_list d (Suc n) (c # s) =
     (if c = CHR ''0'' then Some ([], s)
      else case d s of None \<Rightarrow> None
        | Some (x, s) \<Rightarrow> map_option (\<lambda>(xs, s). (x # xs, s)) (dec_list d n s))"

definition dec_chr :: "string \<Rightarrow> (char \<times> string) option" where
  "dec_chr s = (case s of [] \<Rightarrow> None | c # s \<Rightarrow> Some (c, s))"

definition dec_pair :: "(string \<Rightarrow> ('a \<times> string) option) \<Rightarrow> (string \<Rightarrow> ('b \<times> string) option) \<Rightarrow>
    string \<Rightarrow> (('a \<times> 'b) \<times> string) option" where
  "dec_pair d e s = (case d s of None \<Rightarrow> None | Some (x, s) \<Rightarrow> map_option (\<lambda>(y, s). ((x, y), s)) (e s))"

definition decodes :: "('a \<Rightarrow> string) \<Rightarrow> (string \<Rightarrow> ('a \<times> string) option) \<Rightarrow> bool" where
  "decodes f d \<longleftrightarrow> (\<forall>x r. d (f x @ r) = Some (x, r))"

definition dec_all :: "(string \<Rightarrow> ('a \<times> string) option) \<Rightarrow> string \<Rightarrow> ('a list \<times> string) option" where
  "dec_all d s = dec_list d (Suc (length s)) s"

lemma decodes_chr: "decodes (\<lambda>c. [c]) dec_chr"
  by (simp add: decodes_def dec_chr_def)

lemma decodes_pair: "decodes f d \<Longrightarrow> decodes g e \<Longrightarrow> decodes (\<lambda>(x, y). f x @ g y) (dec_pair d e)"
  by (simp add: decodes_def dec_pair_def)

lemma decodes_list:
  assumes "decodes f d"
  shows "decodes (enc_list f) (dec_all d)"
proof -
  have "length xs < n \<Longrightarrow> dec_list d n (enc_list f xs @ r) = Some (xs, r)" for xs r n
  proof (induction xs arbitrary: n)
    case Nil
    then show ?case by (cases n) simp_all
  next
    case (Cons x xs)
    then show ?case using assms by (cases n) (simp_all add: decodes_def)
  qed
  moreover have "length xs < Suc (length (enc_list f xs @ r))" for xs r
    by (induction xs) simp_all
  ultimately show ?thesis unfolding decodes_def dec_all_def by blast
qed

definition enc_info :: "node_info \<Rightarrow> string" where
  "enc_info n =
     (let str = enc_list (\<lambda>c. [c]); tops = enc_list (\<lambda>(x, y). str x @ str y)
      in str (ni_name n) @ tops (ni_pubtopics n) @ tops (ni_subtopics n))"

definition dec_info :: "string \<Rightarrow> (node_info \<times> string) option" where
  "dec_info s =
     (let str = dec_all dec_chr; tops = dec_all (dec_pair str str)
      in map_option (\<lambda>((n, p, q), s). (\<lparr>ni_name = n, ni_pubtopics = p, ni_subtopics = q\<rparr>, s))
           (dec_pair str (dec_pair tops tops) s))"

definition list_json :: json_api where
  "list_json = \<lparr>j_write = enc_list enc_info,
     j_parse = \<lambda>s. (case dec_all dec_info s of None \<Rightarrow> [] | Some (ns, _) \<Rightarrow> ns)\<rparr>"

lemma decodes_info: "decodes enc_info dec_info"
proof -
  let ?str = "enc_list (\<lambda>c. [c])" and ?dstr = "dec_all dec_chr"
  let ?tops = "enc_list (\<lambda>(x, y). ?str x @ ?str y)" and ?dtops = "dec_all (dec_pair ?dstr ?dstr)"
  have s: "decodes ?str ?dstr" by (rule decodes_list [OF decodes_chr])
  have t: "decodes ?tops ?dtops" by (rule decodes_list [OF decodes_pair [OF s s]])
  have "decodes (\<lambda>(x, y). ?str x @ (case y of (p, q) \<Rightarrow> ?tops p @ ?tops q)) (dec_pair ?dstr (dec_pair ?dtops ?dtops))"
    by (rule decodes_pair [OF s decodes_pair [OF t t]])
  then have "dec_pair ?dstr (dec_pair ?dtops ?dtops) (?str n @ (?tops p @ ?tops q) @ r) = Some ((n, p, q), r)" for n p q r
    unfolding decodes_def by (metis (no_types, lifting) append_assoc case_prod_conv)
  then show ?thesis by (simp add: decodes_def enc_info_def dec_info_def Let_def)
qed

lemma list_json_laws: "json_laws list_json"
proof -
  have "dec_all dec_info (enc_list enc_info ns @ []) = Some (ns, [])" for ns
    using decodes_list [OF decodes_info] unfolding decodes_def by blast
  then show ?thesis by (simp add: json_laws_def list_json_def)
qed

end
