(* ===== verification/UwbHttp.thy ===== *)
theory UwbHttp
  imports HttpApi
begin

text \<open>
  HTTP requests as frame payloads: \<open>Handle::serialize_http_request\<close> and \<open>Handle::parse_http_request\<close>
  of \<open>src/Master/src/uwb/UwbHandle.cpp\<close>. A request is printed and escaped so that it fits one line;
  the receiver restores the text, splits it at the first blank line and sets the parts one by one.
\<close>

subsection \<open>Escaping\<close>

definition BSL :: char where "BSL = CHR 0x5C"
definition CR :: char where "CR = CHR 0x0D"
definition LF :: char where "LF = CHR 0x0A"

fun escape :: "string \<Rightarrow> string" where
  "escape [] = []"
| "escape (c # s) =
     (if c = CR then [BSL, CHR ''r''] else if c = LF then [BSL, CHR ''n'']
      else if c = BSL then [BSL, BSL] else [c]) @ escape s"

fun unescape :: "string \<Rightarrow> string" where
  "unescape (c # d # s) =
     (if c = BSL \<and> d = CHR ''r'' then CR # unescape s
      else if c = BSL \<and> d = CHR ''n'' then LF # unescape s
      else if c = BSL \<and> d = BSL then BSL # unescape s
      else c # unescape (d # s))"
| "unescape s = s"

lemma unescape_plain: "c \<noteq> BSL \<Longrightarrow> unescape (c # s) = c # unescape s"
  by (cases s) simp_all

lemma unescape_escape: "unescape (escape s) = s"
  by (induction s) (auto simp: unescape_plain BSL_def CR_def LF_def)

lemma escape_no_newline: "CR \<notin> set (escape s) \<and> LF \<notin> set (escape s)"
  by (induction s) (auto simp: BSL_def CR_def LF_def)

lemma escape_length: "length s \<le> length (escape s) \<and> length (escape s) \<le> 2 * length s"
  by (induction s) auto

definition serialize_http_request :: "'r http_api \<Rightarrow> 'r \<Rightarrow> string" where
  "serialize_http_request A req = escape (h_text A req)"

subsection \<open>Parsing\<close>

text \<open>\<open>stream >> word\<close>: white space is skipped, then the characters up to the next white space.\<close>

definition next_word :: "string \<Rightarrow> string \<times> string" where
  "next_word s =
     (let s = dropWhile is_space s in
      (takeWhile (\<lambda>c. \<not> is_space c) s, dropWhile (\<lambda>c. \<not> is_space c) s))"

definition string_to_verb :: "string \<Rightarrow> verb" where
  "string_to_verb m =
     (if m = ''GET'' then v_get else if m = ''POST'' then v_post else if m = ''PUT'' then v_put
      else if m = ''DELETE'' then v_delete else v_unknown)"

definition trim_spaces :: "string \<Rightarrow> string" where
  "trim_spaces v = rev (dropWhile (\<lambda>c. c = CHR '' '') (rev (dropWhile (\<lambda>c. c = CHR '' '') v)))"

definition parse_request_line :: "'r http_api \<Rightarrow> string \<Rightarrow> 'r \<Rightarrow> 'r option" where
  "parse_request_line A line req = do {
     let (method, s) = next_word line;
     let (path, s) = next_word s;
     req \<leftarrow> h_set_method A (string_to_verb method) req;
     Some (h_set_version A 11 (h_set_target A path req))
   }"

definition parse_field :: "'r http_api \<Rightarrow> string \<Rightarrow> 'r \<Rightarrow> 'r" where
  "parse_field A line req =
     (case str_find '':'' line of
        None \<Rightarrow> req
      | Some p \<Rightarrow> h_set A (take p line) (trim_spaces (drop (p + 1) line)) req)"

text \<open>The \<open>getline\<close> loop: it ends at the end of the stream or at an empty line.\<close>

function parse_lines :: "'r http_api \<Rightarrow> string \<Rightarrow> bool \<Rightarrow> 'r \<Rightarrow> 'r option" where
  "parse_lines A s first_line req =
     (if s = [] then Some req
      else
        let line = strip_cr (fst (getline s)); rest = snd (getline s) in
        if line = [] then Some req
        else if first_line then
          parse_request_line A line req \<bind> (\<lambda>req. parse_lines A rest False req)
        else parse_lines A rest False (parse_field A line req))"
  by pat_completeness auto

lemma getline_rest: "s \<noteq> [] \<Longrightarrow> length (snd (getline s)) < length s"
proof -
  assume "s \<noteq> []"
  then have "0 < length s" by simp
  moreover have "length (dropWhile (\<lambda>c. c \<noteq> CHR 0x0A) s) \<le> length s"
    by (rule length_dropWhile_le)
  ultimately show ?thesis unfolding getline_def snd_conv length_drop by linarith
qed

termination parse_lines
  by (relation "measure (\<lambda>(A, s, f, r). length s)") (simp_all add: getline_rest)

declare parse_lines.simps [simp del]

definition parse_http_request :: "'r http_api \<Rightarrow> string \<Rightarrow> 'r option" where
  "parse_http_request A data =
     (let decoded = unescape data in
      case str_find [CR, LF, CR, LF] decoded of
        None \<Rightarrow> None
      | Some body_start \<Rightarrow>
          let headers_part = take body_start decoded; body_part = drop (body_start + 4) decoded in
          parse_lines A headers_part True (h_empty A) \<bind>
            (\<lambda>req. Some (h_prepare A (h_set_body A body_part req))))"

subsection \<open>Reading a printed request\<close>

text \<open>The header lines as the printer joins them; no line is empty or holds a line break.\<close>

definition line_clean :: "string \<Rightarrow> bool" where
  "line_clean l \<longleftrightarrow> l \<noteq> [] \<and> CR \<notin> set l \<and> LF \<notin> set l"

fun join_lines :: "string list \<Rightarrow> string" where
  "join_lines [] = []"
| "join_lines [l] = l"
| "join_lines (l # l' # ls) = l @ crlf @ join_lines (l' # ls)"

definition field_line :: "string \<times> string \<Rightarrow> string" where
  "field_line f = fst f @ '': '' @ snd f"

definition field_clean :: "string \<times> string \<Rightarrow> bool" where
  "field_clean f \<longleftrightarrow>
     CHR '':'' \<notin> set (fst f) \<and> CR \<notin> set (fst f) \<and> LF \<notin> set (fst f) \<and>
     CR \<notin> set (snd f) \<and> LF \<notin> set (snd f) \<and>
     (snd f \<noteq> [] \<longrightarrow> hd (snd f) \<noteq> CHR '' '' \<and> last (snd f) \<noteq> CHR '' '')"

definition target_clean :: "string \<Rightarrow> bool" where
  "target_clean t \<longleftrightarrow> t \<noteq> [] \<and> list_all (\<lambda>c. \<not> is_space c) t"

lemma line_clean_hd: "line_clean l \<Longrightarrow> \<exists>c r. l = c # r \<and> c \<noteq> CR \<and> c \<noteq> LF"
  by (cases l) (auto simp: line_clean_def)

lemma concat_lines: "ls \<noteq> [] \<Longrightarrow> concat (map (\<lambda>l. l @ crlf) ls) = join_lines ls @ crlf"
  by (induction ls rule: join_lines.induct) simp_all

lemma str_find_skip:
  "p \<notin> set l \<Longrightarrow> str_find (p # ps) (l @ r) = map_option ((+) (length l)) (str_find (p # ps) r)"
  by (induction l; cases "str_find (p # ps) r") auto

lemma str_find_crlf_line:
  assumes "line_clean l"
  shows "str_find [CR, LF, CR, LF] (crlf @ l @ r)
       = map_option ((+) (2 + length l)) (str_find [CR, LF, CR, LF] r)"
proof -
  obtain c l' where l: "l = c # l'" "c \<noteq> CR" "c \<noteq> LF" using line_clean_hd [OF assms] by blast
  have "CR \<notin> set l" using assms by (simp add: line_clean_def)
  then have "str_find [CR, LF, CR, LF] (l @ r) = map_option ((+) (length l)) (str_find [CR, LF, CR, LF] r)"
    by (rule str_find_skip)
  moreover have "str_find [CR, LF, CR, LF] (crlf @ l @ r)
      = map_option (Suc \<circ> Suc) (str_find [CR, LF, CR, LF] (l @ r))"
    using l by (cases "str_find [CR, LF, CR, LF] (l' @ r)") (simp_all add: crlf_def CR_def LF_def)
  ultimately show ?thesis by (cases "str_find [CR, LF, CR, LF] r") simp_all
qed

lemma str_find_separator:
  assumes "ls \<noteq> []" and "\<forall>l \<in> set ls. line_clean l"
  shows "str_find [CR, LF, CR, LF] (join_lines ls @ crlf @ crlf @ b) = Some (length (join_lines ls))"
  using assms
proof (induction ls rule: join_lines.induct)
  case (2 l)
  then have "CR \<notin> set l" by (simp add: line_clean_def)
  then show ?case using str_find_skip [of CR l "[LF, CR, LF]" "crlf @ crlf @ b"] by (simp add: crlf_def CR_def LF_def)
next
  case (3 l l' ls)
  have c: "CR \<notin> set l" using 3(3) by (simp add: line_clean_def)
  have ih: "str_find [CR, LF, CR, LF] (join_lines (l' # ls) @ crlf @ crlf @ b)
      = Some (length (join_lines (l' # ls)))"
    using 3 by simp
  obtain r where r: "join_lines (l' # ls) = l' @ r"
    by (cases ls) simp_all
  have cl: "CR \<notin> set l'" "line_clean l'" using 3(3) by (simp_all add: line_clean_def)
  have "str_find [CR, LF, CR, LF] (crlf @ l' @ r @ crlf @ crlf @ b)
      = map_option ((+) 2) (str_find [CR, LF, CR, LF] (l' @ r @ crlf @ crlf @ b))"
    unfolding str_find_crlf_line [OF cl(2)] str_find_skip [OF cl(1)]
    by (cases "str_find [CR, LF, CR, LF] (r @ crlf @ crlf @ b)") simp_all
  then show ?case
    using ih str_find_skip [OF c, of "[LF, CR, LF]" "crlf @ l' @ r @ crlf @ crlf @ b"]
    by (simp add: r crlf_def)
qed simp

lemma strip_line_cr: "line_clean l \<Longrightarrow> strip_cr (l @ [CR]) = l"
  by (simp add: CR_def)

lemma getline_crlf:
  assumes "line_clean l"
  shows "getline (l @ crlf @ r) = (l @ [CR], r)" and "getline l = (l, [])"
proof -
  have "CHR 0x0A \<notin> set (l @ [CR])" using assms by (simp add: line_clean_def LF_def CR_def)
  then show "getline (l @ crlf @ r) = (l @ [CR], r)"
    using getline_newline [of "l @ [CR]" r] by (simp add: crlf_def CR_def)
  show "getline l = (l, [])"
    using assms by (intro getline_no_newline) (simp add: line_clean_def LF_def)
qed

lemma line_clean_strip: "line_clean l \<Longrightarrow> strip_cr l = l"
  by (simp add: line_clean_def CR_def)

lemma parse_lines_fields:
  assumes "\<forall>l \<in> set ls. line_clean l"
  shows "parse_lines A (join_lines ls) False r = Some (foldl (\<lambda>r l. parse_field A l r) r ls)"
  using assms
proof (induction ls arbitrary: r rule: join_lines.induct)
  case 1
  then show ?case by (simp add: parse_lines.simps)
next
  case (2 l)
  then have "line_clean l" by simp
  then show ?case
    using getline_crlf(2) [of l] line_clean_strip [of l]
    by (subst parse_lines.simps) (simp add: line_clean_def parse_lines.simps [of A "[]"])
next
  case (3 l l' ls)
  then have "line_clean l" by simp
  then show ?case
    using getline_crlf(1) [of l "join_lines (l' # ls)"] strip_line_cr [of l] 3
    by (subst parse_lines.simps) (simp add: line_clean_def)
qed

lemma parse_lines_header:
  assumes "line_clean l" and "\<forall>l \<in> set ls. line_clean l"
  shows "parse_lines A (join_lines (l # ls)) True r =
    map_option (\<lambda>r. foldl (\<lambda>r l. parse_field A l r) r ls) (parse_request_line A l r)"
proof (cases ls)
  case Nil
  then show ?thesis
    using assms getline_crlf(2) [of l] line_clean_strip [of l]
    by (subst parse_lines.simps)
      (auto simp: line_clean_def parse_lines.simps [of A "[]"] split: bind_splits)
next
  case (Cons l' ls')
  then show ?thesis
    using assms getline_crlf(1) [of l "join_lines ls"] strip_line_cr [of l] parse_lines_fields [of ls A]
    by (subst parse_lines.simps) (auto simp: line_clean_def split: bind_splits)
qed

lemma trim_spaces_id:
  assumes "w \<noteq> [] \<longrightarrow> hd w \<noteq> CHR '' '' \<and> last w \<noteq> CHR '' ''"
  shows "trim_spaces (CHR '' '' # w) = w"
proof (cases "w = []")
  case True then show ?thesis by (simp add: trim_spaces_def)
next
  case False
  then have "dropWhile (\<lambda>c. c = CHR '' '') w = w" using assms by (cases w) simp_all
  moreover have "dropWhile (\<lambda>c. c = CHR '' '') (rev w) = rev w"
    using assms False by (cases "rev w") (auto simp: last_rev hd_rev[symmetric])
  ultimately show ?thesis by (simp add: trim_spaces_def)
qed

lemma parse_field_line:
  assumes "field_clean f"
  shows "parse_field A (field_line f) r = h_set A (fst f) (snd f) r"
proof -
  have "str_find '':'' (field_line f) = Some (length (fst f))"
    using assms str_find_skip [of "CHR '':''" "fst f" "[]" "'': '' @ snd f"]
    by (simp add: field_clean_def field_line_def)
  then show ?thesis
    using assms trim_spaces_id [of "snd f"] by (simp add: parse_field_def field_line_def field_clean_def)
qed

lemma field_line_clean: "field_clean f \<Longrightarrow> line_clean (field_line f)"
  by (auto simp: field_clean_def field_line_def line_clean_def CR_def LF_def)

lemma next_word_space:
  "w \<noteq> [] \<Longrightarrow> list_all (\<lambda>c. \<not> is_space c) w \<Longrightarrow> next_word (w @ '' '' @ r) = (w, '' '' @ r)"
proof -
  assume w: "w \<noteq> []" "list_all (\<lambda>c. \<not> is_space c) w"
  have sp: "is_space (CHR '' '')" by (simp add: is_space_def)
  have d: "dropWhile is_space (w @ '' '' @ r) = w @ '' '' @ r" using w by (cases w) auto
  have "takeWhile (\<lambda>c. \<not> is_space c) (w @ '' '' @ r) = w"
    using w(2) sp by (induction w) auto
  moreover have "dropWhile (\<lambda>c. \<not> is_space c) (w @ '' '' @ r) = '' '' @ r"
    using w(2) sp by (induction w) auto
  ultimately show ?thesis unfolding next_word_def Let_def d by simp
qed

lemma next_word_skip: "next_word (CHR '' '' # s) = next_word s"
  by (simp add: next_word_def is_space_def)

lemma verb_text_clean: "verb_text v \<noteq> [] \<and> list_all (\<lambda>c. c \<noteq> CR \<and> c \<noteq> LF) (verb_text v)"
  by (cases v) (simp_all add: CR_def LF_def)

lemma verb_text_words: "list_all (\<lambda>c. \<not> is_space c) (verb_text v)"
  by (cases v) (simp_all add: is_space_def)

lemma string_to_verb_text [simp]: "v \<noteq> v_unknown \<Longrightarrow> string_to_verb (verb_text v) = v"
  by (cases v) (simp_all add: string_to_verb_def)

lemma parse_request_line_text:
  assumes "v \<noteq> v_unknown" and "target_clean t"
  shows "parse_request_line A (verb_text v @ '' '' @ t @ '' HTTP/1.1'') r =
    h_set_method A v r \<bind> (\<lambda>r. Some (h_set_version A 11 (h_set_target A t r)))"
proof -
  have "next_word (verb_text v @ '' '' @ t @ '' HTTP/1.1'') = (verb_text v, '' '' @ t @ '' HTTP/1.1'')"
    by (rule next_word_space) (simp_all add: verb_text_clean verb_text_words)
  moreover have "next_word (t @ '' '' @ ''HTTP/1.1'') = (t, '' '' @ ''HTTP/1.1'')"
    using assms(2) by (intro next_word_space) (simp_all add: target_clean_def)
  ultimately show ?thesis
    using assms(1) by (simp add: parse_request_line_def next_word_skip)
qed

lemma request_line_clean:
  "target_clean t \<Longrightarrow> line_clean (verb_text v @ '' '' @ t @ '' HTTP/1.1'')"
  using verb_text_clean [of v]
  by (auto simp: line_clean_def target_clean_def list_all_iff is_space_def CR_def LF_def)

lemma foldl_fields:
  "\<forall>f \<in> set fs. field_clean f \<Longrightarrow>
   foldl (\<lambda>r l. parse_field A l r) r (map field_line fs) = foldl (\<lambda>r f. h_set A (fst f) (snd f) r) r fs"
  by (induction fs arbitrary: r) (simp_all add: parse_field_line)

text \<open>The request the receiver builds from a request line, header fields and a body.\<close>

definition rebuild :: "'r http_api \<Rightarrow> verb \<Rightarrow> string \<Rightarrow> (string \<times> string) list \<Rightarrow> string \<Rightarrow> 'r option" where
  "rebuild A v t fs b =
     map_option (\<lambda>r. h_prepare A (h_set_body A b
         (foldl (\<lambda>r f. h_set A (fst f) (snd f) r) (h_set_version A 11 (h_set_target A t r)) fs)))
       (h_set_method A v (h_empty A))"

lemma parse_serialized:
  assumes "h_text A req = http_text v t fs b" and "v \<noteq> v_unknown" and "target_clean t"
    and "\<forall>f \<in> set fs. field_clean f"
  shows "parse_http_request A (serialize_http_request A req) = rebuild A v t fs b"
proof -
  let ?l = "verb_text v @ '' '' @ t @ '' HTTP/1.1''" and ?fs = "map field_line fs"
  have c: "line_clean ?l" "\<forall>l \<in> set ?fs. line_clean l"
    using assms request_line_clean field_line_clean by auto
  have "h_text A req = concat (map (\<lambda>l. l @ crlf) (?l # ?fs)) @ crlf @ b"
    by (simp add: assms(1) http_text_def field_line_def case_prod_beta' comp_def)
  also have "\<dots> = join_lines (?l # ?fs) @ crlf @ crlf @ b"
    by (subst concat_lines) simp_all
  finally have tx: "h_text A req = join_lines (?l # ?fs) @ crlf @ crlf @ b" .
  have sep: "str_find [CR, LF, CR, LF] (h_text A req) = Some (length (join_lines (?l # ?fs)))"
    unfolding tx using c by (intro str_find_separator) auto
  have hd: "take (length (join_lines (?l # ?fs))) (h_text A req) = join_lines (?l # ?fs)"
    by (simp add: tx)
  have bd: "drop (length (join_lines (?l # ?fs)) + 4) (h_text A req) = b"
    by (simp add: tx crlf_def)
  show ?thesis
    unfolding parse_http_request_def serialize_http_request_def unescape_escape Let_def sep
      option.case hd bd parse_lines_header [OF c] parse_request_line_text [OF assms(2,3)] rebuild_def
    using foldl_fields [OF assms(4), of A]
    by (cases "h_set_method A v (h_empty A)") simp_all
qed

text \<open>
  The escaping of a request loses nothing: whatever its bytes, the receiver restores the text,
  and the escaped text holds no line break, so that it fits one line of the serial link.
\<close>

theorem escape_roundtrip:
  "unescape (escape s) = s \<and> CHR 0x0D \<notin> set (escape s) \<and> CHR 0x0A \<notin> set (escape s)"
  using unescape_escape [of s] escape_no_newline [of s] by (simp add: CR_def LF_def)

text \<open>
  C6: A request printed in the HTTP/1.1 format is read back part by part: the receiver sets the same
  method, target and header fields in the same order and the body byte for byte, whatever the body
  holds (line breaks, backslashes and blank lines included).
\<close>

theorem http_payload_roundtrip:
  assumes "h_text A req = http_text v t fs b" and "v \<noteq> v_unknown" and "target_clean t"
    and "\<forall>f \<in> set fs. field_clean f"
  shows "parse_http_request A (serialize_http_request A req) =
    map_option (\<lambda>r. h_prepare A (h_set_body A b
         (foldl (\<lambda>r f. h_set A (fst f) (snd f) r) (h_set_version A 11 (h_set_target A t r)) fs)))
       (h_set_method A v (h_empty A))"
  using parse_serialized [OF assms] by (simp add: rebuild_def)

definition sample_request :: request where
  "sample_request = \<lparr>rq_method = v_post, rq_target = ''/node'',
     rq_fields = [(''node'', ''lidar''), (''src'', ''car''), (''dest'', ''base'')],
     rq_body = [BSL, CR, LF, CR, LF, BSL, CHR ''n'']\<rparr>"

lemma sample_text:
  "h_text list_http sample_request =
     http_text v_post ''/node'' [(''node'', ''lidar''), (''src'', ''car''), (''dest'', ''base'')]
       [BSL, CR, LF, CR, LF, BSL, CHR ''n'']"
  by (simp add: list_http_def sample_request_def)

theorem http_payload_roundtrip_witness:
  "parse_http_request list_http (serialize_http_request list_http sample_request) = Some sample_request"
  by (subst http_payload_roundtrip [OF sample_text])
    (simp_all add: target_clean_def is_space_def field_clean_def CR_def LF_def list_http_def
      sample_request_def)

end
