(* ===== verification/UwbHandle.thy ===== *)
theory UwbHandle
  imports UwbFrame UwbSlot UwbHttp
begin

text \<open>
  The reliable link over the UWB modem, \<open>Handle\<close> of \<open>src/Master/src/uwb/UwbHandle.cpp\<close>: a state
  record with the send and acknowledgement queues, the table of frames waiting for an
  acknowledgement and the table of the last sequence numbers received, and one definition for each
  member function that changes it. What leaves the object is a list of events: a line written to the
  serial port, a completion callback, a request handed to the router. A callback is a number, the
  null callback is \<open>None\<close>.
\<close>

subsection \<open>State\<close>

record PendingFrame =
  pf_frame :: TimeSlotFrame
  pf_send_time :: int
  pf_retry_count :: u32
  pf_callback :: "nat option"

record Stats =
  frames_sent :: u32
  frames_received :: u32
  acks_sent :: u32
  acks_received :: u32
  retransmissions :: u32
  timeouts :: u32
  http_requests_sent :: u32
  http_requests_received :: u32
  serial_errors :: u32
  heartbeats_sent :: u32

record handle =
  u_node_id :: u8
  u_running :: bool
  u_serial_open :: bool
  u_slots :: slot_manager
  u_send_queue :: "TimeSlotFrame list"
  u_ack_queue :: "TimeSlotFrame list"
  u_pending :: "(u8, PendingFrame) umap"
  u_last_seq :: "(u8, u8) umap"
  u_next_seq :: u8
  u_stats :: Stats
  u_read_buffer :: string

datatype 'r event =
  Wrote string
| Callback nat bool
| Routed 'r

definition ACK_TIMEOUT_MS :: int where "ACK_TIMEOUT_MS = 2000"
definition MAX_RETRIES :: u32 where "MAX_RETRIES = 3"

definition new_stats :: Stats where
  "new_stats = \<lparr>frames_sent = 0, frames_received = 0, acks_sent = 0, acks_received = 0,
     retransmissions = 0, timeouts = 0, http_requests_sent = 0, http_requests_received = 0,
     serial_errors = 0, heartbeats_sent = 0\<rparr>"

definition new_handle :: "u8 \<Rightarrow> handle" where
  "new_handle node_id = \<lparr>u_node_id = node_id, u_running = False, u_serial_open = False,
     u_slots = new_slot_manager node_id, u_send_queue = [], u_ack_queue = [], u_pending = [],
     u_last_seq = [], u_next_seq = 1, u_stats = new_stats, u_read_buffer = []\<rparr>"

text \<open>One counter of the statistics goes up by one, modulo $2^{32}$.\<close>

definition inc :: "((u32 \<Rightarrow> u32) \<Rightarrow> Stats \<Rightarrow> Stats) \<Rightarrow> handle \<Rightarrow> handle" where
  "inc counter h = h\<lparr>u_stats := counter (\<lambda>n. n + 1) (u_stats h)\<rparr>"

definition notify :: "nat option \<Rightarrow> bool \<Rightarrow> 'r event list" where
  "notify cb ok = (case cb of None \<Rightarrow> [] | Some c \<Rightarrow> [Callback c ok])"

subsection \<open>Starting and stopping\<close>

text \<open>\<open>init_serial\<close>: the port may fail to open, or to take the options once it is open.\<close>

definition init_serial :: "bool \<Rightarrow> bool \<Rightarrow> handle \<Rightarrow> handle \<times> bool" where
  "init_serial open_ok options_ok h =
     (if \<not> open_ok then (h, False) else (h\<lparr>u_serial_open := True\<rparr>, options_ok))"

definition handle_run :: "bool \<Rightarrow> bool \<Rightarrow> handle \<Rightarrow> handle" where
  "handle_run open_ok options_ok h =
     (if u_running h then h
      else let (h, ok) = init_serial open_ok options_ok h in
        if \<not> ok then h
        else h\<lparr>u_running := True, u_slots := sm_start (set_my_slot_callback (u_slots h))\<rparr>)"

definition handle_stop :: "handle \<Rightarrow> handle \<times> 'r event list" where
  "handle_stop h =
     (if \<not> u_running h then (h, [])
      else (h\<lparr>u_running := False, u_slots := sm_stop (u_slots h), u_serial_open := False,
              u_pending := []\<rparr>,
            concat (map (\<lambda>(_, p). notify (pf_callback p) False) (u_pending h))))"

subsection \<open>Sending\<close>

definition send_http_reliable ::
  "'r http_api \<Rightarrow> int \<Rightarrow> 'r \<Rightarrow> u8 \<Rightarrow> nat option \<Rightarrow> handle \<Rightarrow> handle \<times> 'r event list" where
  "send_http_reliable A now req dst callback h =
     (if \<not> u_running h then (h, notify callback False)
      else let serialized = serialize_http_request A req in
        if 65535 < length serialized then (h, notify callback False)
        else
          let seq = u_next_seq h;
              h = h\<lparr>u_next_seq := (if seq + 1 = 0 then 1 else seq + 1)\<rparr>;
              frame = mk_frame_str (u_node_id h) dst seq DATA serialized;
              h = h\<lparr>u_send_queue := u_send_queue h @ [frame]\<rparr>;
              (h, evs) =
                (if dst \<noteq> BROADCAST_ID then
                   (h\<lparr>u_pending := um_emplace seq
                        \<lparr>pf_frame = frame, pf_send_time = now, pf_retry_count = 0,
                         pf_callback = callback\<rparr> (u_pending h)\<rparr>, [])
                 else (h, notify callback True))
          in (inc http_requests_sent_update h, evs))"

definition send_http :: "'r http_api \<Rightarrow> int \<Rightarrow> 'r \<Rightarrow> u8 \<Rightarrow> handle \<Rightarrow> handle \<times> 'r event list" where
  "send_http A now req dst h = send_http_reliable A now req dst None h"

text \<open>\<open>ok\<close>: whether \<open>asio::write\<close> returned without an exception.\<close>

definition send_frame_immediately :: "bool \<Rightarrow> TimeSlotFrame \<Rightarrow> handle \<Rightarrow> handle \<times> 'r event list" where
  "send_frame_immediately ok frame h =
     (if \<not> u_serial_open h then (h, [])
      else let encoded = encode frame @ [CHR 0x0A] in
        if ok then
          (let h = inc frames_sent_update h;
               h = (if ftype frame = ACK then inc acks_sent_update h else h)
           in (h, [Wrote encoded]))
        else (inc serial_errors_update h, []))"

fun drain_frames :: "(nat \<Rightarrow> bool) \<Rightarrow> nat \<Rightarrow> TimeSlotFrame list \<Rightarrow> handle \<Rightarrow> handle \<times> 'r event list" where
  "drain_frames oks k [] h = (h, [])"
| "drain_frames oks k (f # fs) h =
     (let (h, e1) = send_frame_immediately (oks k) f h; (h, e2) = drain_frames oks (Suc k) fs h
      in (h, e1 @ e2))"

text \<open>\<open>oks k\<close> is the outcome of the \<open>k\<close>-th write of the slot.\<close>

definition on_my_slot :: "(nat \<Rightarrow> bool) \<Rightarrow> handle \<Rightarrow> handle \<times> 'r event list" where
  "on_my_slot oks h =
     (let (h1, e1) = drain_frames oks 0 (u_send_queue h) h;
          h1 = h1\<lparr>u_send_queue := []\<rparr>;
          (h2, e2) = drain_frames oks (length (u_send_queue h)) (u_ack_queue h1) h1
      in (h2\<lparr>u_ack_queue := []\<rparr>, e1 @ e2))"

subsection \<open>Receiving\<close>

definition handle_ack :: "u8 \<Rightarrow> handle \<Rightarrow> handle \<times> 'r event list" where
  "handle_ack seq h =
     (case um_find (u_pending h) seq of
        None \<Rightarrow> (h, [])
      | Some p \<Rightarrow>
          (inc acks_received_update (h\<lparr>u_pending := um_erase seq (u_pending h)\<rparr>),
           notify (pf_callback p) True))"

definition handle_received_frame :: "'r http_api \<Rightarrow> TimeSlotFrame \<Rightarrow> handle \<Rightarrow> handle \<times> 'r event list" where
  "handle_received_frame A frame h =
     (if dst_id frame \<noteq> u_node_id h \<and> dst_id frame \<noteq> BROADCAST_ID then (h, [])
      else
        let h = inc frames_received_update h in
        if ftype frame = ACK then handle_ack (seq_no frame) h
        else
          let is_duplicate = (um_find (u_last_seq h) (src_id frame) = Some (seq_no frame)) in
          if is_duplicate then (h, [])
          else
            let h = h\<lparr>u_last_seq := um_put (src_id frame) (seq_no frame) (u_last_seq h)\<rparr>;
                h = (if dst_id frame \<noteq> BROADCAST_ID \<and> ftype frame \<noteq> HEARTBEAT then
                       h\<lparr>u_ack_queue := u_ack_queue h
                          @ [mk_frame (u_node_id h) (src_id frame) (seq_no frame) ACK []]\<rparr>
                     else h)
            in if ftype frame = DATA then
                 (case parse_http_request A (map char_of_byte (payload frame)) of
                    Some req \<Rightarrow> (inc http_requests_received_update h, [Routed req])
                  | None \<Rightarrow> (h, []))
               else (h, []))"

text \<open>
  \<open>async_read_until\<close> has appended \<open>bytes\<close> to the buffer; \<open>handle_read\<close> takes the first line and leaves
  the rest for the next read.
\<close>

definition handle_read :: "'r http_api \<Rightarrow> bool \<Rightarrow> string \<Rightarrow> handle \<Rightarrow> handle \<times> 'r event list" where
  "handle_read A ec bytes h =
     (let h = h\<lparr>u_read_buffer := u_read_buffer h @ bytes\<rparr> in
      if \<not> u_running h then (h, [])
      else if \<not> ec then
        let (line, rest) = getline (u_read_buffer h);
            h = h\<lparr>u_read_buffer := rest\<rparr>
        in (case decode (strip_cr line) of
              Some frame \<Rightarrow> handle_received_frame A frame h
            | None \<Rightarrow> (inc serial_errors_update h, []))
      else (inc serial_errors_update h, []))"

subsection \<open>Timeouts and heartbeats\<close>

text \<open>Times are the nanoseconds of \<open>steady_clock\<close>; the elapsed time is truncated to milliseconds.\<close>

definition timed_out :: "int \<Rightarrow> PendingFrame \<Rightarrow> bool" where
  "timed_out now p \<longleftrightarrow> ACK_TIMEOUT_MS \<le> int_quot (now - pf_send_time p) 1000000"

definition check_pending :: "int \<Rightarrow> u8 \<Rightarrow> PendingFrame \<Rightarrow> handle \<Rightarrow> handle \<times> 'r event list" where
  "check_pending now k p h =
     (if timed_out now p then
        if pf_retry_count p < MAX_RETRIES then
          let p = p\<lparr>pf_retry_count := pf_retry_count p + 1, pf_send_time := now\<rparr>;
              h = h\<lparr>u_pending := um_put k p (u_pending h),
                    u_send_queue := u_send_queue h @ [pf_frame p]\<rparr>
          in (inc retransmissions_update h, [])
        else
          (inc timeouts_update (h\<lparr>u_pending := um_erase k (u_pending h)\<rparr>),
           notify (pf_callback p) False)
      else (h, []))"

fun check_loop :: "int \<Rightarrow> (u8 \<times> PendingFrame) list \<Rightarrow> handle \<Rightarrow> handle \<times> 'r event list" where
  "check_loop now [] h = (h, [])"
| "check_loop now ((k, p) # ps) h =
     (let (h, e1) = check_pending now k p h; (h, e2) = check_loop now ps h in (h, e1 @ e2))"

definition check_timeouts :: "int \<Rightarrow> handle \<Rightarrow> handle \<times> 'r event list" where
  "check_timeouts now h = check_loop now (u_pending h) h"

text \<open>One pass of the loops of \<open>timeout_worker\<close> and \<open>heartbeat_worker\<close>.\<close>

definition timeout_worker :: "int \<Rightarrow> handle \<Rightarrow> handle \<times> 'r event list" where
  "timeout_worker now h = (if u_running h then check_timeouts now h else (h, []))"

definition heartbeat_worker :: "handle \<Rightarrow> handle" where
  "heartbeat_worker h =
     (if u_running h then
        let data = ''HB:'' @ dec_str (unat (u_node_id h));
            frame = mk_frame_str (u_node_id h) BROADCAST_ID 0 HEARTBEAT data
        in inc heartbeats_sent_update (h\<lparr>u_send_queue := u_send_queue h @ [frame]\<rparr>)
      else h)"

subsection \<open>Runs\<close>

datatype 'r input =
  SendReq 'r u8 "nat option" int
| SlotBegin "nat \<Rightarrow> bool"
| SerialRead bool string
| TimeoutTick int
| HeartbeatTick
| StopReq
| RunReq bool bool

fun handle_step :: "'r http_api \<Rightarrow> 'r input \<Rightarrow> handle \<Rightarrow> handle \<times> 'r event list" where
  "handle_step A (SendReq r d cb now) h = send_http_reliable A now r d cb h"
| "handle_step A (SlotBegin oks) h = on_my_slot oks h"
| "handle_step A (SerialRead ec bs) h = handle_read A ec bs h"
| "handle_step A (TimeoutTick now) h = timeout_worker now h"
| "handle_step A HeartbeatTick h = (heartbeat_worker h, [])"
| "handle_step A StopReq h = handle_stop h"
| "handle_step A (RunReq a b) h = (handle_run a b h, [])"

fun handle_steps :: "'r http_api \<Rightarrow> 'r input list \<Rightarrow> handle \<Rightarrow> handle \<times> 'r event list" where
  "handle_steps A [] h = (h, [])"
| "handle_steps A (i # is) h =
     (let (h, e1) = handle_step A i h; (h, e2) = handle_steps A is h in (h, e1 @ e2))"

subsection \<open>Invariant\<close>

definition out_ok :: "u8 \<Rightarrow> TimeSlotFrame \<Rightarrow> bool" where
  "out_ok node f \<longleftrightarrow> line_ok f \<and> src_id f = node"

definition pend_ok :: "u8 \<Rightarrow> u8 \<Rightarrow> PendingFrame \<Rightarrow> bool" where
  "pend_ok node k p \<longleftrightarrow> k \<noteq> 0 \<and> seq_no (pf_frame p) = k \<and> ftype (pf_frame p) = DATA \<and>
     dst_id (pf_frame p) \<noteq> BROADCAST_ID \<and> out_ok node (pf_frame p) \<and> pf_retry_count p \<le> MAX_RETRIES"

definition handle_inv :: "handle \<Rightarrow> bool" where
  "handle_inv h \<longleftrightarrow>
     u_next_seq h \<noteq> 0 \<and> um_wf (u_pending h) \<and>
     (\<forall>k p. um_find (u_pending h) k = Some p \<longrightarrow> pend_ok (u_node_id h) k p) \<and>
     (\<forall>f \<in> set (u_send_queue h). out_ok (u_node_id h) f) \<and>
     (\<forall>f \<in> set (u_ack_queue h). out_ok (u_node_id h) f \<and> ftype f = ACK)"

definition event_ok :: "u8 \<Rightarrow> 'r event \<Rightarrow> bool" where
  "event_ok node e \<longleftrightarrow>
     (case e of Wrote t \<Rightarrow> (\<exists>f. out_ok node f \<and> t = encode f @ [CHR 0x0A]) | _ \<Rightarrow> True)"

definition keeps :: "handle \<Rightarrow> handle \<times> 'r event list \<Rightarrow> bool" where
  "keeps h r \<longleftrightarrow> handle_inv (fst r) \<and> u_node_id (fst r) = u_node_id h \<and>
     list_all (event_ok (u_node_id h)) (snd r)"

lemma inc_sel [simp]:
  "u_node_id (inc c h) = u_node_id h" "u_running (inc c h) = u_running h"
  "u_serial_open (inc c h) = u_serial_open h" "u_slots (inc c h) = u_slots h"
  "u_send_queue (inc c h) = u_send_queue h" "u_ack_queue (inc c h) = u_ack_queue h"
  "u_pending (inc c h) = u_pending h" "u_last_seq (inc c h) = u_last_seq h"
  "u_next_seq (inc c h) = u_next_seq h" "u_read_buffer (inc c h) = u_read_buffer h"
  by (simp_all add: inc_def)

lemma inc_inv [simp]: "handle_inv (inc c h) = handle_inv h"
  by (simp add: handle_inv_def)

lemma read_buffer_inv [simp]: "handle_inv (h\<lparr>u_read_buffer := b\<rparr>) = handle_inv h"
  by (simp add: handle_inv_def)

lemma notify_ok [simp]: "list_all (event_ok n) (notify cb b)"
  by (simp add: notify_def event_ok_def split: option.split)

lemma new_handle_inv [simp, wf_intros]: "handle_inv (new_handle n)"
  by (simp add: handle_inv_def new_handle_def)

lemma byte_of_char_newline: "byte_of_char c = 10 \<longleftrightarrow> c = LF"
proof -
  have "byte_of_char LF = 10" by (simp add: byte_of_char_def LF_def)
  then show ?thesis by (metis char_of_byte_of_char)
qed

lemma frame_str_line_ok:
  "t \<noteq> ACK \<Longrightarrow> length s \<le> 65535 \<Longrightarrow> LF \<notin> set s \<Longrightarrow> line_ok (mk_frame_str a b q t s)"
  by (auto simp: line_ok_def frame_ok_def frame_shape_def byte_of_char_newline
      dest: sym [of 10])

lemma ack_frame_line_ok: "line_ok (mk_frame a b q ACK [])"
  by (simp add: line_ok_def frame_ok_def frame_shape_def)

lemma dec_str_no_newline: "LF \<notin> set (dec_str n)"
proof (induction n rule: dec_str.induct)
  case (1 n)
  have "LF \<noteq> char_of (48 + d :: nat)" if "d < 10" for d
  proof
    assume "LF = char_of (48 + d)"
    then have "of_char LF = (48 + d) mod 256" by (metis of_char_of)
    then show False using that by (simp add: LF_def)
  qed
  then show ?case
    using 1 by (subst dec_str.simps) (auto split: if_splits dest: sym)
qed

lemma dec_str_u8_length: "n < 1000 \<Longrightarrow> length (dec_str n) \<le> 3"
  by (simp add: dec_str.simps [of n] dec_str.simps [of "n div 10"] dec_str.simps [of "n div 10 div 10"])

lemma heartbeat_line_ok:
  "line_ok (mk_frame_str (u_node_id h) BROADCAST_ID 0 HEARTBEAT (''HB:'' @ dec_str (unat (u_node_id h))))"
  using dec_str_u8_length [of "unat (u_node_id h)"] unat_u8_less [of "u_node_id h"]
    dec_str_no_newline [of "unat (u_node_id h)"]
  by (intro frame_str_line_ok) (simp_all add: LF_def)

subsection \<open>The operations keep it\<close>

lemma keeps_same: "handle_inv h \<Longrightarrow> list_all (event_ok (u_node_id h)) es \<Longrightarrow> keeps h (h, es)"
  by (simp add: keeps_def)

lemma run_keeps: "handle_inv h \<Longrightarrow> keeps h (handle_run a b h, [])"
  by (auto simp: keeps_def handle_run_def init_serial_def handle_inv_def Let_def)

lemma stop_keeps: "handle_inv h \<Longrightarrow> keeps h (handle_stop h)"
  by (auto simp: keeps_def handle_stop_def handle_inv_def list_all_iff notify_def event_ok_def
      split: option.splits)

lemma send_keeps:
  assumes "handle_inv h"
  shows "keeps h (send_http_reliable A now r d cb h)"
proof (cases "u_running h \<and> length (serialize_http_request A r) \<le> 65535")
  case True
  let ?f = "mk_frame_str (u_node_id h) d (u_next_seq h) DATA (serialize_http_request A r)"
  have f: "out_ok (u_node_id h) ?f"
    using True escape_no_newline by (auto simp: out_ok_def serialize_http_request_def intro!: frame_str_line_ok)
  then have p: "d \<noteq> BROADCAST_ID \<Longrightarrow> pend_ok (u_node_id h) (u_next_seq h)
      \<lparr>pf_frame = ?f, pf_send_time = now, pf_retry_count = 0, pf_callback = cb\<rparr>"
    using assms by (simp add: pend_ok_def handle_inv_def MAX_RETRIES_def)
  show ?thesis
    using assms True f p
    by (auto simp: keeps_def send_http_reliable_def handle_inv_def Let_def split: if_splits)
next
  case False
  then show ?thesis
    using assms by (auto simp: keeps_def send_http_reliable_def Let_def)
qed

lemma send_frame_immediately_state:
  "\<exists>s. fst (send_frame_immediately ok f h :: handle \<times> 'r event list) = h\<lparr>u_stats := s\<rparr>"
proof -
  have "h = h\<lparr>u_stats := u_stats h\<rparr>" by simp
  then have "\<exists>s. h = h\<lparr>u_stats := s\<rparr>" ..
  moreover have "\<exists>s. h\<lparr>u_stats := s'\<rparr> = h\<lparr>u_stats := s\<rparr>" for s' by blast
  ultimately show ?thesis by (simp add: send_frame_immediately_def inc_def Let_def)
qed

lemma send_frame_immediately_events:
  "snd (send_frame_immediately ok f h) = (if u_serial_open h \<and> ok then [Wrote (encode f @ [CHR 0x0A])] else [])"
  by (simp add: send_frame_immediately_def Let_def)

lemma drain_frames_state: "\<exists>s. fst (drain_frames oks k fs h :: handle \<times> 'r event list) = h\<lparr>u_stats := s\<rparr>"
proof (induction fs arbitrary: k h)
  case Nil
  have "h = h\<lparr>u_stats := u_stats h\<rparr>" by simp
  then show ?case by (metis drain_frames.simps(1) fst_conv)
next
  case (Cons f fs)
  obtain s where s: "fst (send_frame_immediately (oks k) f h :: handle \<times> 'r event list) = h\<lparr>u_stats := s\<rparr>"
    using send_frame_immediately_state by blast
  obtain s' where "fst (drain_frames oks (Suc k) fs (h\<lparr>u_stats := s\<rparr>) :: handle \<times> 'r event list) = h\<lparr>u_stats := s'\<rparr>"
    using Cons.IH [of "Suc k" "h\<lparr>u_stats := s\<rparr>"] by auto
  then show ?case using s by (auto simp: case_prod_beta Let_def)
qed

lemma drain_frames_sel [simp]:
  "u_node_id (fst (drain_frames oks k fs h :: handle \<times> 'r event list)) = u_node_id h"
  "u_running (fst (drain_frames oks k fs h :: handle \<times> 'r event list)) = u_running h"
  "u_serial_open (fst (drain_frames oks k fs h :: handle \<times> 'r event list)) = u_serial_open h"
  "u_send_queue (fst (drain_frames oks k fs h :: handle \<times> 'r event list)) = u_send_queue h"
  "u_ack_queue (fst (drain_frames oks k fs h :: handle \<times> 'r event list)) = u_ack_queue h"
  "u_pending (fst (drain_frames oks k fs h :: handle \<times> 'r event list)) = u_pending h"
  "u_last_seq (fst (drain_frames oks k fs h :: handle \<times> 'r event list)) = u_last_seq h"
  "u_next_seq (fst (drain_frames oks k fs h :: handle \<times> 'r event list)) = u_next_seq h"
  "u_read_buffer (fst (drain_frames oks k fs h :: handle \<times> 'r event list)) = u_read_buffer h"
  using drain_frames_state [of oks k fs h, where 'r = 'r] by auto

text \<open>What a drained queue puts on the line: the frames whose write succeeds, in queue order.\<close>

fun written :: "(nat \<Rightarrow> bool) \<Rightarrow> nat \<Rightarrow> TimeSlotFrame list \<Rightarrow> 'r event list" where
  "written oks k [] = []"
| "written oks k (f # fs) = (if oks k then [Wrote (encode f @ [CHR 0x0A])] else []) @ written oks (Suc k) fs"

lemma drain_frames_events:
  "snd (drain_frames oks k fs h :: handle \<times> 'r event list) = (if u_serial_open h then written oks k fs else [])"
proof (induction fs arbitrary: k h)
  case (Cons f fs)
  obtain s where "fst (send_frame_immediately (oks k) f h :: handle \<times> 'r event list) = h\<lparr>u_stats := s\<rparr>"
    using send_frame_immediately_state by blast
  then show ?case
    using Cons.IH [of "Suc k" "h\<lparr>u_stats := s\<rparr>"]
    by (simp add: case_prod_beta Let_def send_frame_immediately_events)
qed simp

lemma written_append: "written oks k (fs @ gs) = written oks k fs @ written oks (k + length fs) gs"
  by (induction fs arbitrary: k) simp_all

lemma written_ok: "\<forall>f \<in> set fs. out_ok n f \<Longrightarrow> list_all (event_ok n) (written oks k fs)"
  by (induction fs arbitrary: k) (auto simp: event_ok_def)

lemma on_my_slot_events:
  "snd (on_my_slot oks h) = (if u_serial_open h then written oks 0 (u_send_queue h @ u_ack_queue h) else [])"
  by (simp add: on_my_slot_def Let_def case_prod_beta drain_frames_events written_append)

lemma on_my_slot_sel [simp]:
  "u_node_id (fst (on_my_slot oks h)) = u_node_id h"
  "u_running (fst (on_my_slot oks h)) = u_running h"
  "u_serial_open (fst (on_my_slot oks h)) = u_serial_open h"
  "u_send_queue (fst (on_my_slot oks h)) = []"
  "u_ack_queue (fst (on_my_slot oks h)) = []"
  "u_pending (fst (on_my_slot oks h)) = u_pending h"
  "u_last_seq (fst (on_my_slot oks h)) = u_last_seq h"
  "u_next_seq (fst (on_my_slot oks h)) = u_next_seq h"
  "u_read_buffer (fst (on_my_slot oks h)) = u_read_buffer h"
  by (simp_all add: on_my_slot_def Let_def case_prod_beta)

lemma slot_keeps: "handle_inv h \<Longrightarrow> keeps h (on_my_slot oks h)"
  by (auto simp: keeps_def handle_inv_def on_my_slot_events intro!: written_ok)

lemma ack_keeps: "handle_inv h \<Longrightarrow> keeps h (handle_ack q h)"
  by (auto simp: keeps_def handle_ack_def handle_inv_def split: option.split)

lemma keeps_trans:
  "keeps h (h1, e1) \<Longrightarrow> keeps h1 (h2, e2) \<Longrightarrow> keeps h (h2, e1 @ e2)"
  by (simp add: keeps_def)

lemma frame_keeps:
  assumes "handle_inv h"
  shows "keeps h (handle_received_frame A f h)"
proof -
  have a: "out_ok n (mk_frame n b q ACK [])" for n b q
    by (simp add: out_ok_def ack_frame_line_ok)
  have k: "keeps h (handle_ack (seq_no f) (inc frames_received_update h))"
    using ack_keeps [of "inc frames_received_update h" "seq_no f"] assms by (simp add: keeps_def)
  show ?thesis
    using assms a k
    by (auto simp: handle_received_frame_def Let_def keeps_def event_ok_def handle_inv_def
        split: option.split)
qed

lemma read_keeps:
  assumes "handle_inv h"
  shows "keeps h (handle_read A ec bs h)"
proof -
  have "keeps h (handle_received_frame A f (h\<lparr>u_read_buffer := b\<rparr>))" for f b
    using frame_keeps [of "h\<lparr>u_read_buffer := b\<rparr>" A f] assms by (simp add: keeps_def)
  then show ?thesis
    using assms by (auto simp: handle_read_def Let_def keeps_def split: option.split prod.split)
qed

lemma word_retry_le: "(w :: u32) < MAX_RETRIES \<Longrightarrow> w + 1 \<le> MAX_RETRIES"
  unfolding MAX_RETRIES_def by (simp add: inc_le)

lemma check_pending_keeps:
  assumes "handle_inv h" and "pend_ok (u_node_id h) k p"
  shows "keeps h (check_pending now k p h)"
  using assms word_retry_le [of "pf_retry_count p"]
  by (auto simp: keeps_def check_pending_def handle_inv_def pend_ok_def Let_def)

lemma check_loop_keeps:
  assumes "handle_inv h" and "\<forall>(k, p) \<in> set ps. pend_ok (u_node_id h) k p"
  shows "keeps h (check_loop now ps h :: handle \<times> 'r event list)"
  using assms
proof (induction ps arbitrary: h)
  case Nil
  then show ?case by (simp add: keeps_def)
next
  case (Cons kp ps)
  obtain k p where kp: "kp = (k, p)" by (cases kp)
  obtain h1 e1 where 1: "check_pending now k p h = (h1, e1 :: 'r event list)"
    by (cases "check_pending now k p h :: handle \<times> 'r event list")
  obtain h2 e2 where 2: "check_loop now ps h1 = (h2, e2 :: 'r event list)"
    by (cases "check_loop now ps h1 :: handle \<times> 'r event list")
  have k1: "keeps h (h1, e1)"
    using check_pending_keeps [of h k p now, where 'a = 'r] Cons.prems kp 1 by auto
  then have "keeps h1 (h2, e2)" using Cons.IH [of h1] Cons.prems kp 2 by (simp add: keeps_def)
  then show ?case using k1 keeps_trans kp 1 2 by (auto simp: Let_def)
qed

lemma timeouts_keeps:
  assumes "handle_inv h"
  shows "keeps h (check_timeouts now h)"
proof -
  have "\<forall>(k, p) \<in> set (u_pending h). pend_ok (u_node_id h) k p"
    using assms um_find_mem [of "u_pending h"] by (auto simp: handle_inv_def)
  then show ?thesis
    using assms by (simp add: check_timeouts_def check_loop_keeps)
qed

lemma heartbeat_keeps: "handle_inv h \<Longrightarrow> keeps h (heartbeat_worker h, [])"
  using heartbeat_line_ok [of h]
  by (auto simp: keeps_def heartbeat_worker_def handle_inv_def Let_def out_ok_def)

lemma step_keeps:
  assumes "handle_inv h"
  shows "keeps h (handle_step A i h)"
proof (cases i)
  case (TimeoutTick now)
  then show ?thesis using assms by (simp add: timeout_worker_def keeps_same timeouts_keeps)
qed (use assms in \<open>simp_all add: send_keeps slot_keeps read_keeps heartbeat_keeps stop_keeps run_keeps\<close>)

lemma steps_keeps: "handle_inv h \<Longrightarrow> keeps h (handle_steps A is h)"
proof (induction "is" arbitrary: h)
  case (Cons i "is")
  obtain h1 e1 where 1: "handle_step A i h = (h1, e1)" by (cases "handle_step A i h")
  obtain h2 e2 where 2: "handle_steps A is h1 = (h2, e2)" by (cases "handle_steps A is h1")
  have "keeps h (h1, e1)" using step_keeps [OF Cons.prems, of A i] 1 by simp
  moreover from this have "keeps h1 (h2, e2)" using Cons.IH [of h1] 2 by (simp add: keeps_def)
  ultimately show ?case using keeps_trans 1 2 by (auto simp: Let_def)
qed (simp add: keeps_def)

lemma steps_append:
  "handle_steps A (is @ js) h =
     (let (h1, e1) = handle_steps A is h; (h2, e2) = handle_steps A js h1 in (h2, e1 @ e2))"
  by (induction "is" arbitrary: h) (simp_all add: case_prod_beta Let_def)

lemma written_line_decodes:
  assumes "event_ok n (Wrote t)"
  shows "\<exists>f. decode (strip_cr (fst (getline t))) = Some f \<and> snd (getline t) = [] \<and> src_id f = n \<and> t = encode f @ [CHR 0x0A]"
proof -
  obtain f where f: "out_ok n f" "t = encode f @ [CHR 0x0A]" using assms by (auto simp: event_ok_def)
  then show ?thesis
    using uwb_line.decode_line [of f "[]"] uwb_line.rest_line [of f "[]"] by (auto simp: out_ok_def)
qed

text \<open>
  C3: Whatever happens to a handle from its construction on (sends, slots with failing writes, any
  bytes or errors from the serial port, timeouts, heartbeats, stops and restarts), every line it
  writes is one whole line that the peer's reader decodes to a frame with a valid checksum and this
  node's id as its source.
\<close>

theorem every_line_decodes:
  assumes "Wrote t \<in> set (snd (handle_steps (A :: 'r http_api) is (new_handle n)))"
  shows "\<exists>f. decode (strip_cr (fst (getline t))) = Some f \<and> snd (getline t) = [] \<and>
    verify_checksum f \<and> src_id f = n"
proof -
  have "keeps (new_handle n) (handle_steps A is (new_handle n))"
    by (rule steps_keeps) simp
  then have "event_ok n (Wrote t :: 'r event)"
    using assms by (auto simp: keeps_def list_all_iff new_handle_def)
  then show ?thesis using written_line_decodes decode_verified by blast
qed

lemma char_of_51: "char_of (51 :: nat) = CHR ''3''"
proof -
  have "char_of (of_char (CHR ''3'') :: nat) = CHR ''3''" by (rule char_of_char)
  then show ?thesis by simp
qed

lemma heartbeat_run:
  "Wrote (encode (mk_frame_str 3 BROADCAST_ID 0 HEARTBEAT ''HB:3'') @ [CHR 0x0A])
    \<in> set (snd (handle_steps list_http [RunReq True True, HeartbeatTick, SlotBegin (\<lambda>_. True)] (new_handle 3)))"
  by (simp add: handle_run_def init_serial_def new_handle_def heartbeat_worker_def dec_str.simps
      case_prod_beta Let_def on_my_slot_events char_of_51)

theorem every_line_decodes_witness:
  "\<exists>f. decode (strip_cr (fst (getline (encode (mk_frame_str 3 BROADCAST_ID 0 HEARTBEAT ''HB:3'') @ [CHR 0x0A])))) = Some f
     \<and> verify_checksum f \<and> src_id f = 3"
  using every_line_decodes [OF heartbeat_run] by blast

subsection \<open>Callbacks\<close>

fun fires :: "nat \<Rightarrow> 'r event \<Rightarrow> bool" where
  "fires c (Callback d b) = (d = c)"
| "fires c _ = False"

definition fired :: "nat \<Rightarrow> 'r event list \<Rightarrow> nat" where
  "fired c es = length (filter (fires c) es)"

fun asks :: "nat \<Rightarrow> 'r input \<Rightarrow> bool" where
  "asks c (SendReq r d cb now) = (cb = Some c)"
| "asks c _ = False"

definition asked :: "nat \<Rightarrow> 'r input list \<Rightarrow> nat" where
  "asked c is = length (filter (asks c) is)"

definition waiting :: "nat \<Rightarrow> (u8, PendingFrame) umap \<Rightarrow> u8 set" where
  "waiting c m = {k. \<exists>p. um_find m k = Some p \<and> pf_callback p = Some c}"

definition outstanding :: "nat \<Rightarrow> handle \<Rightarrow> nat" where
  "outstanding c h = card (waiting c (u_pending h))"

text \<open>\<open>emplace\<close> keeps the entry of a number still in use: the new callback is dropped.\<close>

fun drops :: "'r http_api \<Rightarrow> nat \<Rightarrow> handle \<Rightarrow> 'r input \<Rightarrow> bool" where
  "drops A c h (SendReq r d cb now) =
     (cb = Some c \<and> u_running h \<and> length (serialize_http_request A r) \<le> 65535 \<and> d \<noteq> BROADCAST_ID \<and>
      um_find (u_pending h) (u_next_seq h) \<noteq> None)"
| "drops A c h _ = False"

fun dropped :: "'r http_api \<Rightarrow> nat \<Rightarrow> 'r input list \<Rightarrow> handle \<Rightarrow> nat" where
  "dropped A c [] h = 0"
| "dropped A c (i # is) h = (if drops A c h i then 1 else 0) + dropped A c is (fst (handle_step A i h))"

lemma fired_simps [simp]:
  "fired c [] = 0" "fired c (xs @ ys) = fired c xs + fired c ys"
  "fired c (notify cb b) = (if cb = Some c then 1 else 0)"
  "fired c [Wrote t] = 0" "fired c [Routed r] = 0"
  by (simp_all add: fired_def notify_def split: option.split)

lemma fired_written [simp]: "fired c (written oks k fs) = 0"
  by (induction fs arbitrary: k) simp_all

lemma finite_waiting [simp]: "finite (waiting c m)"
proof (rule finite_subset)
  show "waiting c m \<subseteq> um_keys m" by (auto simp: waiting_def um_keys_find)
  show "finite (um_keys m)" by (simp add: um_keys_def)
qed

lemma waiting_simps [simp]:
  "waiting c (um_put k p m) = (if pf_callback p = Some c then insert k (waiting c m) else waiting c m - {k})"
  "waiting c (um_erase k m) = waiting c m - {k}" "waiting c [] = {}"
  by (auto simp: waiting_def split: if_splits)

lemma waiting_emplace [simp]:
  "waiting c (um_emplace k p m) =
     (if um_find m k = None \<and> pf_callback p = Some c then insert k (waiting c m) else waiting c m)"
  by (auto simp: waiting_def split: if_splits)

lemma waiting_mem: "um_find m k = Some p \<Longrightarrow> k \<in> waiting c m \<longleftrightarrow> pf_callback p = Some c"
  by (simp add: waiting_def)

lemma not_waiting: "um_find m k = None \<Longrightarrow> k \<notin> waiting c m"
  by (simp add: waiting_def)

lemma card_waiting_remove:
  "um_find m k = Some p \<Longrightarrow>
   (if pf_callback p = Some c then 1 else 0) + card (waiting c m - {k}) = card (waiting c m)"
  using waiting_mem [of m k p c] card_Suc_Diff1 [of "waiting c m" k] by simp

lemma stop_fired:
  "um_wf m \<Longrightarrow>
   fired c (concat (map (\<lambda>(k, p). notify (pf_callback p) b) m) :: 'r event list) = card (waiting c m)"
proof (induction m)
  case (Cons kp m)
  obtain k p where kp: "kp = (k, p)" by (cases kp)
  have wf: "um_wf m" and k: "um_find m k = None"
    using Cons.prems kp by (auto simp: um_wf_def um_find_def map_of_eq_None_iff)
  have "waiting c (kp # m) = (if pf_callback p = Some c then insert k (waiting c m) else waiting c m)"
    using k by (auto simp: waiting_def um_find_def kp split: if_splits)
  then show ?case using Cons.IH [OF wf] not_waiting [OF k, of c] kp by simp
qed simp

lemma check_pending_callbacks:
  assumes "um_find (u_pending h) k = Some p"
  shows "fired c (snd (check_pending now k p h :: handle \<times> 'r event list))
      + outstanding c (fst (check_pending now k p h :: handle \<times> 'r event list)) = outstanding c h"
  using card_waiting_remove [OF assms, of c] waiting_mem [OF assms, of c]
  by (auto simp: check_pending_def outstanding_def Let_def insert_absorb)

lemma check_pending_other:
  "k' \<noteq> k \<Longrightarrow> um_find (u_pending (fst (check_pending now k p h))) k' = um_find (u_pending h) k'"
  by (simp add: check_pending_def Let_def)

lemma check_loop_callbacks:
  assumes "um_wf ps" and "\<forall>(k, p) \<in> set ps. um_find (u_pending h) k = Some p"
  shows "fired c (snd (check_loop now ps h :: handle \<times> 'r event list))
      + outstanding c (fst (check_loop now ps h :: handle \<times> 'r event list)) = outstanding c h"
  using assms
proof (induction ps arbitrary: h)
  case (Cons kp ps)
  obtain k p where kp: "kp = (k, p)" by (cases kp)
  let ?h = "fst (check_pending now k p h :: handle \<times> 'r event list)"
  have k: "k \<notin> fst ` set ps" and wf: "um_wf ps" using Cons.prems kp by (simp_all add: um_wf_def)
  have "\<forall>(k', p') \<in> set ps. um_find (u_pending ?h) k' = Some p'"
    using Cons.prems(2) k check_pending_other [of _ k now p h, where 'a = 'r] by (force simp: kp)
  then have "fired c (snd (check_loop now ps ?h :: handle \<times> 'r event list))
      + outstanding c (fst (check_loop now ps ?h :: handle \<times> 'r event list)) = outstanding c ?h"
    by (rule Cons.IH [OF wf])
  then show ?case
    using check_pending_callbacks [of h k p c now, where 'r = 'r] Cons.prems(2)
    by (simp add: kp case_prod_beta Let_def)
qed simp

lemma timeouts_callbacks:
  assumes "um_wf (u_pending h)"
  shows "fired c (snd (check_timeouts now h :: handle \<times> 'r event list))
      + outstanding c (fst (check_timeouts now h :: handle \<times> 'r event list)) = outstanding c h"
  unfolding check_timeouts_def
  by (rule check_loop_callbacks) (use assms um_find_mem [OF assms] in auto)

lemma outstanding_inc [simp]: "outstanding c (inc d h) = outstanding c h"
  by (simp add: outstanding_def)

lemma ack_callbacks:
  "fired c (snd (handle_ack q h :: handle \<times> 'r event list))
     + outstanding c (fst (handle_ack q h :: handle \<times> 'r event list)) = outstanding c h"
  using card_waiting_remove [of "u_pending h" q _ c]
  by (auto simp: handle_ack_def outstanding_def split: option.split)

lemma frame_callbacks:
  "fired c (snd (handle_received_frame A f h)) + outstanding c (fst (handle_received_frame A f h)) = outstanding c h"
  using ack_callbacks [of c "seq_no f" "inc frames_received_update h"]
  by (auto simp: handle_received_frame_def Let_def outstanding_def split: option.split)

lemma read_callbacks:
  "fired c (snd (handle_read A ec bs h)) + outstanding c (fst (handle_read A ec bs h)) = outstanding c h"
  using frame_callbacks [of c A _ "h\<lparr>u_read_buffer := _\<rparr>"]
  by (auto simp: handle_read_def Let_def outstanding_def split: option.split prod.split)

lemma send_callbacks:
  "fired c (snd (send_http_reliable A now r d cb h)) + outstanding c (fst (send_http_reliable A now r d cb h))
     + (if drops A c h (SendReq r d cb now) then 1 else 0)
   = outstanding c h + (if cb = Some c then 1 else 0)"
  using not_waiting [of "u_pending h" "u_next_seq h" c]
  by (auto simp: send_http_reliable_def outstanding_def Let_def)

lemma step_callbacks:
  assumes "handle_inv h"
  shows "fired c (snd (handle_step A i h)) + outstanding c (fst (handle_step A i h))
      + (if drops A c h i then 1 else 0) = outstanding c h + (if asks c i then 1 else 0)"
proof (cases i)
  case (SendReq r d cb now)
  then show ?thesis using send_callbacks [of c A now r d cb h] by simp
next
  case (SlotBegin oks)
  then show ?thesis by (simp add: on_my_slot_events outstanding_def)
next
  case (SerialRead ec bs)
  then show ?thesis using read_callbacks [of c A ec bs h] by simp
next
  case (TimeoutTick now)
  then show ?thesis
    using timeouts_callbacks [of h c now, where 'r = 'a] assms by (simp add: timeout_worker_def handle_inv_def)
next
  case HeartbeatTick
  then show ?thesis by (simp add: heartbeat_worker_def outstanding_def Let_def)
next
  case StopReq
  then show ?thesis
    using stop_fired [of "u_pending h" c False, where 'r = 'a] assms
    by (simp add: handle_stop_def outstanding_def handle_inv_def)
next
  case (RunReq a b)
  then show ?thesis by (simp add: handle_run_def init_serial_def outstanding_def Let_def)
qed

lemma outstanding_new [simp]: "outstanding c (new_handle n) = 0"
  by (simp add: outstanding_def new_handle_def)

definition idle_empty :: "handle \<Rightarrow> bool" where
  "idle_empty h \<longleftrightarrow> u_running h \<or> u_pending h = []"

lemma received_running [simp]: "u_running (fst (handle_received_frame A f h)) = u_running h"
  by (auto simp: handle_received_frame_def handle_ack_def Let_def split: option.split)

lemma check_pending_running [simp]: "u_running (fst (check_pending now k p h)) = u_running h"
  by (simp add: check_pending_def Let_def)

lemma check_loop_running [simp]:
  "u_running (fst (check_loop now ps h :: handle \<times> 'r event list)) = u_running h"
proof (induction ps arbitrary: h)
  case (Cons kp ps)
  then show ?case by (cases kp) (simp add: case_prod_beta Let_def)
qed simp

lemma step_idle:
  assumes "idle_empty h"
  shows "idle_empty (fst (handle_step A i h))"
proof (cases "u_running h")
  case True
  then show ?thesis
    by (cases i) (auto simp: idle_empty_def send_http_reliable_def handle_read_def timeout_worker_def
        check_timeouts_def heartbeat_worker_def handle_stop_def handle_run_def Let_def
        split: option.split prod.split)
next
  case False
  then show ?thesis
    using assms by (cases i) (auto simp: idle_empty_def send_http_reliable_def handle_read_def
        timeout_worker_def heartbeat_worker_def handle_stop_def handle_run_def init_serial_def Let_def)
qed

lemma steps_idle: "idle_empty h \<Longrightarrow> idle_empty (fst (handle_steps A is h))"
  by (induction "is" arbitrary: h) (simp_all add: step_idle case_prod_beta Let_def)

lemma steps_callbacks:
  "handle_inv h \<Longrightarrow>
   fired c (snd (handle_steps A is h)) + outstanding c (fst (handle_steps A is h)) + dropped A c is h
     = outstanding c h + asked c is"
proof (induction "is" arbitrary: h)
  case Nil
  then show ?case by (simp add: asked_def)
next
  case (Cons i "is")
  have "handle_inv (fst (handle_step A i h))" using step_keeps [OF Cons.prems, of A i] by (simp add: keeps_def)
  then show ?case
    using Cons.IH [of "fst (handle_step A i h)"] step_callbacks [OF Cons.prems, of c A i]
    by (simp add: case_prod_beta Let_def asked_def split: if_splits)
qed

text \<open>
  C2: Every callback given to a send is accounted for, in every run: it has fired exactly once (with
  success or failure), is still waiting for its acknowledgement, or was dropped by a send whose
  sequence number was still waiting. So no callback fires twice, and without such a reuse none is lost.
\<close>

theorem callbacks_accounted:
  "fired c (snd (handle_steps A is (new_handle n))) + outstanding c (fst (handle_steps A is (new_handle n)))
     + dropped A c is (new_handle n) = asked c is"
  using steps_callbacks [of "new_handle n" c A "is"] by simp

text \<open>
  Stopping answers everything: after a run that ends with a stop the handle is not running, nothing
  waits for an acknowledgement, and every callback given to a send has fired exactly once, but for
  those dropped by the reuse of a sequence number.
\<close>

theorem stop_answers_all:
  "u_pending (fst (handle_steps A (is @ [StopReq]) (new_handle n))) = [] \<and>
   \<not> u_running (fst (handle_steps A (is @ [StopReq]) (new_handle n))) \<and>
   fired c (snd (handle_steps A (is @ [StopReq]) (new_handle n))) + dropped A c is (new_handle n) = asked c is"
proof -
  let ?h = "fst (handle_steps A is (new_handle n))"
  have "idle_empty (new_handle n)" by (simp add: idle_empty_def new_handle_def)
  then have i: "idle_empty ?h" by (rule steps_idle)
  have "handle_inv ?h" using steps_keeps [of "new_handle n" A "is"] by (simp add: keeps_def)
  then have f: "fired c (snd (handle_step A StopReq ?h)) + outstanding c (fst (handle_step A StopReq ?h))
      = outstanding c ?h"
    using step_callbacks [of ?h c A StopReq] by simp
  have s: "u_pending (fst (handle_step A StopReq ?h)) = [] \<and> \<not> u_running (fst (handle_step A StopReq ?h))"
    using i by (auto simp: idle_empty_def handle_stop_def)
  then have "outstanding c (fst (handle_step A StopReq ?h)) = 0"
    by (simp add: outstanding_def)
  moreover have "fired c (snd (handle_steps A is (new_handle n))) + outstanding c ?h
      + dropped A c is (new_handle n) = asked c is"
    using steps_callbacks [of "new_handle n" c A "is"] by simp
  ultimately show ?thesis
    using f s by (simp add: steps_append case_prod_beta Let_def)
qed

end
