(* ===== verification/UwbLink.thy ===== *)
theory UwbLink
  imports UwbHandle
begin

text \<open>
  Delivery over the UWB link: what a handle does with a frame that is never acknowledged, with a
  duplicate, and with a request on its way from one node to another.
\<close>

subsection \<open>Timeouts\<close>

lemma timed_out_after: "pf_send_time p + 2000000000 \<le> now \<Longrightarrow> timed_out now p"
proof -
  assume a: "pf_send_time p + 2000000000 \<le> now"
  then have "2000 \<le> (now - pf_send_time p) div 1000000" by linarith
  then show ?thesis using a by (simp add: timed_out_def ACK_TIMEOUT_MS_def int_quot_nonneg)
qed

lemma not_timed_out_before: "now < pf_send_time p + 2000000000 \<Longrightarrow> \<not> timed_out now p"
proof -
  assume a: "now < pf_send_time p + 2000000000"
  show ?thesis
  proof (cases "now < pf_send_time p")
    case True
    then show ?thesis using int_quot_neg [of "now - pf_send_time p" 1000000]
      by (simp add: timed_out_def ACK_TIMEOUT_MS_def)
  next
    case False
    then have "(now - pf_send_time p) div 1000000 < 2000" using a by linarith
    then show ?thesis using False by (simp add: timed_out_def ACK_TIMEOUT_MS_def int_quot_nonneg)
  qed
qed

definition retry_entry :: "int \<Rightarrow> PendingFrame \<Rightarrow> PendingFrame option" where
  "retry_entry now p =
     (if pf_retry_count p < MAX_RETRIES
      then Some (p\<lparr>pf_retry_count := pf_retry_count p + 1, pf_send_time := now\<rparr>) else None)"

lemma check_pending_late:
  assumes "timed_out now p"
  shows "um_find (u_pending (fst (check_pending now k p h))) k = retry_entry now p"
  using assms by (simp add: check_pending_def retry_entry_def Let_def)

lemma check_loop_late:
  assumes "um_wf ps" and "\<forall>(k, p) \<in> set ps. timed_out now p"
  shows "um_find (u_pending (fst (check_loop now ps h :: handle \<times> 'r event list))) k =
    (case um_find ps k of None \<Rightarrow> um_find (u_pending h) k | Some p \<Rightarrow> retry_entry now p)"
  using assms
proof (induction ps arbitrary: h)
  case (Cons kp ps)
  obtain k' p where kp: "kp = (k', p)" by (cases kp)
  let ?h = "fst (check_pending now k' p h :: handle \<times> 'r event list)"
  have wf: "um_wf ps" and n: "um_find ps k' = None"
    using Cons.prems kp by (auto simp: um_wf_def um_find_def map_of_eq_None_iff)
  have late: "timed_out now p" using Cons.prems kp by simp
  have "um_find (u_pending (fst (check_loop now ps ?h :: handle \<times> 'r event list))) k =
    (case um_find ps k of None \<Rightarrow> um_find (u_pending ?h) k | Some p \<Rightarrow> retry_entry now p)"
    using Cons.IH [OF wf] Cons.prems(2) by simp
  moreover have "um_find ((k', p) # ps) k = (if k = k' then Some p else um_find ps k)"
    by (simp add: um_find_def)
  ultimately show ?case
    using check_pending_late [OF late, of k' h, where 'a = 'r]
      check_pending_other [of k k' now p h, where 'a = 'r] n
    by (auto simp: kp case_prod_beta Let_def split: option.split)
qed simp

lemma timeouts_late:
  assumes "um_wf (u_pending h)"
    and "\<And>k p. um_find (u_pending h) k = Some p \<Longrightarrow> pf_send_time p + 2000000000 \<le> now"
  shows "um_find (u_pending (fst (check_timeouts now h :: handle \<times> 'r event list))) k =
    (case um_find (u_pending h) k of None \<Rightarrow> None | Some p \<Rightarrow> retry_entry now p)"
proof -
  have "\<forall>(k, p) \<in> set (u_pending h). timed_out now p"
    using assms um_find_mem [OF assms(1)] timed_out_after by auto
  then show ?thesis
    using check_loop_late [OF assms(1), of now h k]
    by (auto simp: check_timeouts_def split: option.split)
qed

text \<open>Every waiting frame was sent \<open>j\<close> times or more after the first, the last time by \<open>t\<close>.\<close>

definition tried :: "nat \<Rightarrow> int \<Rightarrow> handle \<Rightarrow> bool" where
  "tried j t h \<longleftrightarrow> handle_inv h \<and> u_running h \<and>
     (\<forall>k p. um_find (u_pending h) k = Some p \<longrightarrow> pf_send_time p \<le> t \<and> j \<le> unat (pf_retry_count p))"

lemma unat_retry_Suc: "(w :: u32) < MAX_RETRIES \<Longrightarrow> unat (w + 1) = Suc (unat w)"
  by (simp add: MAX_RETRIES_def word_less_nat_alt unat_word_ariths)

lemma tick_tried:
  assumes "tried j t h" and "t + 2000000000 \<le> now"
  shows "tried (Suc j) now (fst (handle_step (A :: 'r http_api) (TimeoutTick now) h))"
proof -
  let ?h = "fst (check_timeouts now h :: handle \<times> 'r event list)"
  have inv: "handle_inv h" "u_running h" "um_wf (u_pending h)"
    using assms(1) by (simp_all add: tried_def handle_inv_def)
  have late: "pf_send_time p + 2000000000 \<le> now" if "um_find (u_pending h) k = Some p" for k p
    using assms that by (fastforce simp: tried_def)
  have f: "um_find (u_pending ?h) k =
      (case um_find (u_pending h) k of None \<Rightarrow> None | Some p \<Rightarrow> retry_entry now p)" for k
    by (rule timeouts_late [OF inv(3) late])
  have "pf_send_time p \<le> now \<and> Suc j \<le> unat (pf_retry_count p)" if s: "um_find (u_pending ?h) k = Some p" for k p
  proof -
    obtain q where q: "um_find (u_pending h) k = Some q" "retry_entry now q = Some p"
      using s f [of k] by (auto split: option.splits)
    then have "pf_retry_count q < MAX_RETRIES" "p = q\<lparr>pf_retry_count := pf_retry_count q + 1, pf_send_time := now\<rparr>"
      by (auto simp: retry_entry_def split: if_splits)
    moreover have "j \<le> unat (pf_retry_count q)" using q(1) assms(1) by (auto simp: tried_def)
    ultimately show ?thesis by (simp add: unat_retry_Suc)
  qed
  moreover have "handle_inv ?h" using timeouts_keeps [OF inv(1), of now, where 'a = 'r] by (simp add: keeps_def)
  moreover have "u_running ?h" using inv(2) by (simp add: check_timeouts_def)
  ultimately show ?thesis using inv(2) by (simp add: tried_def timeout_worker_def)
qed

lemma tried_four_empty:
  assumes "tried 4 t h"
  shows "u_pending h = []"
proof -
  have False if "um_find (u_pending h) k = Some p" for k p
  proof -
    have "pf_retry_count p \<le> MAX_RETRIES" "4 \<le> unat (pf_retry_count p)"
      using assms that by (auto simp: tried_def handle_inv_def pend_ok_def)
    then show False by (simp add: MAX_RETRIES_def word_le_nat_alt)
  qed
  then have "um_find (u_pending h) k = None" for k by (cases "um_find (u_pending h) k") auto
  then show ?thesis by (metis um_find_None_keys um_keys_def empty_iff equals0I image_is_empty set_empty)
qed

text \<open>
  C5: No frame waits for ever: four passes of the timeout loop at least two seconds apart empty the
  table of pending frames, whatever it held, and every callback that waited has fired.
\<close>

theorem pending_resolved:
  assumes "handle_inv h" and "u_running h"
    and "\<forall>k p. um_find (u_pending h) k = Some p \<longrightarrow> pf_send_time p \<le> t0"
    and "t0 + 2000000000 \<le> t1" and "t1 + 2000000000 \<le> t2" and "t2 + 2000000000 \<le> t3"
    and "t3 + 2000000000 \<le> t4"
    and "r = handle_steps A [TimeoutTick t1, TimeoutTick t2, TimeoutTick t3, TimeoutTick t4] h"
  shows "u_pending (fst r) = [] \<and> fired c (snd r) = outstanding c h"
proof -
  let ?h1 = "fst (handle_step A (TimeoutTick t1) h)"
  let ?h2 = "fst (handle_step A (TimeoutTick t2) ?h1)"
  let ?h3 = "fst (handle_step A (TimeoutTick t3) ?h2)"
  let ?h4 = "fst (handle_step A (TimeoutTick t4) ?h3)"
  have "tried 0 t0 h" using assms(1-3) by (simp add: tried_def)
  then have "tried 1 t1 ?h1" using tick_tried [of 0 t0 h t1 A] assms(4) by simp
  then have "tried 2 t2 ?h2" using tick_tried [of 1 t1 ?h1 t2 A] assms(5) by (simp del: handle_step.simps add: numeral_2_eq_2)
  then have "tried 3 t3 ?h3" using tick_tried [of 2 t2 ?h2 t3 A] assms(6) by (simp del: handle_step.simps add: numeral_3_eq_3 numeral_2_eq_2)
  then have "tried 4 t4 ?h4" using tick_tried [of 3 t3 ?h3 t4 A] assms(7) by (simp del: handle_step.simps add: eval_nat_numeral)
  then have "u_pending ?h4 = []" by (rule tried_four_empty)
  moreover have "fst r = ?h4" by (simp add: assms(8) case_prod_beta Let_def del: handle_step.simps)
  ultimately have e: "u_pending (fst r) = []" by simp
  then have "outstanding c (fst r) = 0" by (simp add: outstanding_def)
  then show ?thesis
    using e steps_callbacks [OF assms(1), of c A "[TimeoutTick t1, TimeoutTick t2, TimeoutTick t3, TimeoutTick t4]"]
    by (simp add: assms(8) asked_def)
qed

definition waiting_handle :: handle where
  "waiting_handle = (fst (handle_steps list_http
     [RunReq True True, SendReq sample_request 2 (Some 7) 0] (new_handle 1)))"

lemma sample_length: "length (serialize_http_request list_http sample_request) \<le> 65535"
proof -
  have "length (serialize_http_request list_http sample_request) \<le> 2 * length (h_text list_http sample_request)"
    unfolding serialize_http_request_def using escape_length by blast
  also have "\<dots> \<le> 65535" by (simp add: sample_text http_text_def crlf_def)
  finally show ?thesis .
qed

lemma sample_payload: "serialize_http_request list_http sample_request = escape (h_text list_http sample_request)"
  by (simp add: serialize_http_request_def)

lemma waiting_handle_facts:
  "handle_inv waiting_handle" "u_running waiting_handle"
  "um_find (u_pending waiting_handle) k = Some p \<Longrightarrow> k = 1 \<and> pf_send_time p = 0 \<and> pf_callback p = Some 7"
  "um_find (u_pending waiting_handle) 1 \<noteq> None"
  "outstanding 7 waiting_handle = 1"
proof -
  show "handle_inv waiting_handle"
    using steps_keeps [of "new_handle 1" list_http] by (simp add: waiting_handle_def keeps_def del: handle_steps.simps)
  let ?p = "\<lparr>pf_frame = mk_frame_str 1 2 1 DATA (serialize_http_request list_http sample_request),
        pf_send_time = 0, pf_retry_count = 0, pf_callback = Some 7\<rparr>"
  have p: "u_pending waiting_handle = um_put 1 ?p []" "u_running waiting_handle"
    using sample_length
    by (simp_all add: waiting_handle_def handle_run_def init_serial_def new_handle_def Let_def
        send_http_reliable_def BROADCAST_ID_def um_emplace_def)
  then show "u_running waiting_handle" by simp
  show "um_find (u_pending waiting_handle) k = Some p \<Longrightarrow> k = 1 \<and> pf_send_time p = 0 \<and> pf_callback p = Some 7"
    by (auto simp: p split: if_splits)
  show "um_find (u_pending waiting_handle) 1 \<noteq> None" by (simp add: p)
  show "outstanding 7 waiting_handle = 1" by (simp add: outstanding_def p)
qed

theorem pending_resolved_witness:
  "fired 7 (snd (handle_steps list_http [TimeoutTick 2000000000, TimeoutTick 4000000000,
      TimeoutTick 6000000000, TimeoutTick 8000000000] waiting_handle)) = 1"
proof -
  have "\<forall>k p. um_find (u_pending waiting_handle) k = Some p \<longrightarrow> pf_send_time p \<le> 0"
    using waiting_handle_facts(3) by fastforce
  from pending_resolved [OF waiting_handle_facts(1,2) this, of 2000000000 4000000000 6000000000 8000000000 _ list_http 7]
  show ?thesis by (simp add: waiting_handle_facts(5) del: handle_steps.simps)
qed

subsection \<open>A frame that is never acknowledged\<close>

lemma check_single:
  "u_pending h = um_put k p [] \<Longrightarrow> timed_out now p \<Longrightarrow> pf_retry_count p < MAX_RETRIES \<Longrightarrow>
   check_timeouts now h = (inc retransmissions_update
     (h\<lparr>u_pending := um_put k (p\<lparr>pf_retry_count := pf_retry_count p + 1, pf_send_time := now\<rparr>) [],
       u_send_queue := u_send_queue h @ [pf_frame p]\<rparr>), [])"
  by (simp add: check_timeouts_def check_pending_def um_put_def Let_def)

lemma check_single_last:
  "u_pending h = um_put k p [] \<Longrightarrow> timed_out now p \<Longrightarrow> pf_retry_count p = MAX_RETRIES \<Longrightarrow>
   check_timeouts now h =
     (inc timeouts_update (h\<lparr>u_pending := []\<rparr>), notify (pf_callback p) False)"
  by (simp add: check_timeouts_def check_pending_def um_put_def um_erase_def Let_def)

text \<open>
  A request to one node that is never acknowledged is queued for transmission exactly four times
  (once and three retransmissions), then its callback reports failure and the handle stops trying.
\<close>

theorem unacked_send_four_tries:
  assumes "u_running h" and "u_pending h = []" and "d \<noteq> BROADCAST_ID"
    and "length (serialize_http_request (A :: 'r http_api) r) \<le> 65535"
    and "t0 + 2000000000 \<le> t1" and "t1 + 2000000000 \<le> t2" and "t2 + 2000000000 \<le> t3"
    and "t3 + 2000000000 \<le> t4"
    and "f = mk_frame_str (u_node_id h) d (u_next_seq h) DATA (serialize_http_request A r)"
    and "(h', es) = handle_steps A [SendReq r d (Some c) t0, TimeoutTick t1, TimeoutTick t2,
           TimeoutTick t3, TimeoutTick t4] h"
  shows "u_send_queue h' = u_send_queue h @ [f, f, f, f] \<and> u_pending h' = [] \<and> es = [Callback c False]"
proof -
  let ?p = "\<lambda>n t. \<lparr>pf_frame = f, pf_send_time = t, pf_retry_count = n, pf_callback = Some c\<rparr>"
  let ?q = "u_send_queue h"
  have tm: "timed_out t1 (?p n t0)" "timed_out t2 (?p n t1)" "timed_out t3 (?p n t2)" "timed_out t4 (?p n t3)" for n
    using assms(5-8) by (simp_all add: timed_out_after)
  have s: "\<exists>h0. send_http_reliable A t0 r d (Some c) h = (h0, []) \<and> u_pending h0 = um_put (u_next_seq h) (?p 0 t0) [] \<and>
      u_send_queue h0 = ?q @ [f] \<and> u_running h0"
    using assms(1-4,9) by (simp add: send_http_reliable_def Let_def um_emplace_def)
  have s1: "\<exists>h1. timeout_worker now h0 = (h1, [] :: 'r event list) \<and> u_pending h1 = um_put k (?p (n + 1) now) [] \<and>
      u_send_queue h1 = u_send_queue h0 @ [f] \<and> u_running h1"
    if "u_pending h0 = um_put k (?p n t) []" "timed_out now (?p n t)" "n < MAX_RETRIES" "u_running h0" for h0 now k n t
    using check_single [of h0 k "?p n t" now, where 'a = 'r] that by (simp add: timeout_worker_def)
  obtain h0 where h0: "send_http_reliable A t0 r d (Some c) h = (h0, [])"
    "u_pending h0 = um_put (u_next_seq h) (?p 0 t0) []" "u_send_queue h0 = ?q @ [f]" "u_running h0"
    using s by blast
  obtain h1 where h1: "timeout_worker t1 h0 = (h1, [] :: 'r event list)"
    "u_pending h1 = um_put (u_next_seq h) (?p 1 t1) []" "u_send_queue h1 = ?q @ [f, f]" "u_running h1"
    using s1 [OF h0(2) tm(1) _ h0(4)] h0(3) by (auto simp: MAX_RETRIES_def)
  obtain h2 where h2: "timeout_worker t2 h1 = (h2, [] :: 'r event list)"
    "u_pending h2 = um_put (u_next_seq h) (?p 2 t2) []" "u_send_queue h2 = ?q @ [f, f, f]" "u_running h2"
    using s1 [OF h1(2) tm(2) _ h1(4)] h1(3) by (auto simp: MAX_RETRIES_def)
  obtain h3 where h3: "timeout_worker t3 h2 = (h3, [] :: 'r event list)"
    "u_pending h3 = um_put (u_next_seq h) (?p 3 t3) []" "u_send_queue h3 = ?q @ [f, f, f, f]" "u_running h3"
    using s1 [OF h2(2) tm(3) _ h2(4)] h2(3) by (auto simp: MAX_RETRIES_def)
  have "timeout_worker t4 h3 = (inc timeouts_update (h3\<lparr>u_pending := []\<rparr>), [Callback c False] :: 'r event list)"
    using check_single_last [OF h3(2) tm(4)] h3(4) by (simp add: timeout_worker_def MAX_RETRIES_def notify_def)
  then show ?thesis
    using assms(10) h0(1) h1(1) h2(1) h3(1,3) by simp
qed

lemma initial_run_facts:
  "u_running (handle_run True True (new_handle n))" "u_pending (handle_run True True (new_handle n)) = []"
  "u_node_id (handle_run True True (new_handle n)) = n" "u_next_seq (handle_run True True (new_handle n)) = 1"
  "u_send_queue (handle_run True True (new_handle n)) = []" "u_ack_queue (handle_run True True (new_handle n)) = []"
  "u_serial_open (handle_run True True (new_handle n))" "u_last_seq (handle_run True True (new_handle n)) = []"
  "u_read_buffer (handle_run True True (new_handle n)) = []"
  by (simp_all add: handle_run_def init_serial_def new_handle_def)

theorem unacked_send_four_tries_witness:
  "snd (handle_steps list_http [SendReq sample_request 2 (Some 7) 0, TimeoutTick 2000000000,
      TimeoutTick 4000000000, TimeoutTick 6000000000, TimeoutTick 9000000000]
      (handle_run True True (new_handle 1))) = [Callback 7 False]"
proof -
  let ?is = "[SendReq sample_request 2 (Some 7) 0, TimeoutTick 2000000000,
      TimeoutTick 4000000000, TimeoutTick 6000000000, TimeoutTick 9000000000]"
  obtain h' es where r: "(h', es) = handle_steps list_http ?is (handle_run True True (new_handle 1))"
    by (metis surj_pair)
  have "es = [Callback 7 False]"
    using unacked_send_four_tries [OF initial_run_facts(1,2) _ sample_length _ _ _ _ refl r]
    by (simp add: BROADCAST_ID_def)
  then show ?thesis using r by (metis snd_conv)
qed

subsection \<open>Duplicates\<close>

lemma read_frame_line:
  assumes "line_ok f" and "u_running h" and "u_read_buffer h = []"
  shows "handle_read A False (encode f @ [CHR 0x0A]) h = handle_received_frame A f h"
proof -
  have "getline (encode f @ [CHR 0x0A]) = (encode f, [])"
    using uwb_line.read_line [OF assms(1), of "[]"] by simp
  moreover have "decode (strip_cr (encode f)) = Some f"
    using uwb_line.decode_line [OF assms(1), of "[]"] calculation by simp
  moreover have r: "h\<lparr>u_read_buffer := []\<rparr> = h" using assms(3) by simp
  ultimately show ?thesis using assms(2,3) by (simp add: handle_read_def r)
qed

lemma received_sel [simp]:
  "u_node_id (fst (handle_received_frame A f h)) = u_node_id h"
  "u_serial_open (fst (handle_received_frame A f h)) = u_serial_open h"
  "u_send_queue (fst (handle_received_frame A f h)) = u_send_queue h"
  "u_read_buffer (fst (handle_received_frame A f h)) = u_read_buffer h"
  by (auto simp: handle_received_frame_def handle_ack_def Let_def split: option.split)

definition reply :: "handle \<Rightarrow> TimeSlotFrame \<Rightarrow> TimeSlotFrame" where
  "reply h f = mk_frame (u_node_id h) (src_id f) (seq_no f) ACK []"

definition routed :: "'r http_api \<Rightarrow> TimeSlotFrame \<Rightarrow> 'r event list" where
  "routed A f = (case parse_http_request A (map char_of_byte (payload f)) of Some r \<Rightarrow> [Routed r] | None \<Rightarrow> [])"

lemma first_data:
  assumes "dst_id f = u_node_id h" and "u_node_id h \<noteq> BROADCAST_ID" and "ftype f = DATA"
    and "um_find (u_last_seq h) (src_id f) \<noteq> Some (seq_no f)"
  shows "snd (handle_received_frame A f h) = routed A f"
    and "u_ack_queue (fst (handle_received_frame A f h)) = u_ack_queue h @ [reply h f]"
    and "u_last_seq (fst (handle_received_frame A f h)) = um_put (src_id f) (seq_no f) (u_last_seq h)"
  using assms by (auto simp: handle_received_frame_def routed_def reply_def Let_def split: option.split)

lemma again_data:
  assumes "dst_id f = u_node_id h" and "ftype f \<noteq> ACK"
    and "um_find (u_last_seq h) (src_id f) = Some (seq_no f)"
  shows "handle_received_frame A f h = (inc frames_received_update h, [])"
  using assms by (simp add: handle_received_frame_def Let_def)

fun receive_all :: "'r http_api \<Rightarrow> TimeSlotFrame list \<Rightarrow> handle \<Rightarrow> handle \<times> 'r event list" where
  "receive_all A [] h = (h, [])"
| "receive_all A (f # fs) h =
     (let (h, e1) = handle_received_frame A f h; (h, e2) = receive_all A fs h in (h, e1 @ e2))"

lemma receive_again:
  assumes "dst_id f = u_node_id h" and "ftype f \<noteq> ACK"
    and "um_find (u_last_seq h) (src_id f) = Some (seq_no f)"
  shows "snd (receive_all A (replicate k f) h) = [] \<and>
    u_ack_queue (fst (receive_all A (replicate k f) h)) = u_ack_queue h"
  using assms
proof (induction k arbitrary: h)
  case (Suc k)
  then show ?case
    using Suc.IH [of "inc frames_received_update h"] again_data [OF Suc.prems, of A]
    by (simp add: case_prod_beta Let_def)
qed simp

text \<open>
  A data frame that arrives any number of times in a row is handed to the router once and
  acknowledged once: the copies are not routed again, and they are not acknowledged again either.
\<close>

theorem duplicates_routed_once:
  assumes "dst_id f = u_node_id h" and "u_node_id h \<noteq> BROADCAST_ID" and "ftype f = DATA"
    and "um_find (u_last_seq h) (src_id f) \<noteq> Some (seq_no f)"
    and "parse_http_request A (map char_of_byte (payload f)) = Some r"
  shows "snd (receive_all A (replicate (Suc k) f) h) = [Routed r] \<and>
    u_ack_queue (fst (receive_all A (replicate (Suc k) f) h))
      = u_ack_queue h @ [mk_frame (u_node_id h) (src_id f) (seq_no f) ACK []]"
proof -
  let ?h = "fst (handle_received_frame A f h)"
  have "um_find (u_last_seq ?h) (src_id f) = Some (seq_no f)" using first_data(3) [OF assms(1-4), of A] by simp
  then have "snd (receive_all A (replicate k f) ?h) = [] \<and>
      u_ack_queue (fst (receive_all A (replicate k f) ?h)) = u_ack_queue ?h"
    using assms(1,3) by (intro receive_again) simp_all
  then show ?thesis
    using first_data [OF assms(1-4), of A] assms(5)
    by (simp add: case_prod_beta Let_def routed_def reply_def)
qed

definition sample_frame :: TimeSlotFrame where
  "sample_frame = mk_frame_str 1 2 7 DATA (serialize_http_request list_http sample_request)"

lemma sample_parse: "parse_http_request list_http (serialize_http_request list_http sample_request) = Some sample_request"
  by (subst parse_serialized [OF sample_text])
    (simp_all add: rebuild_def target_clean_def is_space_def field_clean_def CR_def LF_def list_http_def
      sample_request_def)

lemma sample_frame_facts:
  "src_id sample_frame = 1" "dst_id sample_frame = 2" "seq_no sample_frame = 7" "ftype sample_frame = DATA"
  "parse_http_request list_http (map char_of_byte (payload sample_frame)) = Some sample_request"
  "line_ok sample_frame"
proof -
  have "LF \<notin> set (serialize_http_request list_http sample_request)"
    using escape_no_newline by (simp add: serialize_http_request_def)
  then show "line_ok sample_frame"
    using sample_length by (simp add: sample_frame_def frame_str_line_ok)
qed (simp_all add: sample_frame_def comp_def sample_parse)

theorem duplicates_routed_once_witness:
  "snd (receive_all list_http (replicate (Suc 2) sample_frame) (handle_run True True (new_handle 2)))
     = [Routed sample_request]"
  by (rule conjunct1 [OF duplicates_routed_once])
    (simp_all add: sample_frame_facts initial_run_facts BROADCAST_ID_def)

text \<open>
  So an acknowledgement that is lost is never repeated: a receiver that gets a data frame and its
  three retransmissions, each followed by a slot of its own, routes the request and writes one single
  acknowledgement, after the first. If that line is lost, the sender reports a failure although the
  request was delivered.
\<close>

theorem lost_ack_not_repeated:
  assumes "line_ok f" and "u_running h" and "u_serial_open h" and "u_read_buffer h = []"
    and "u_send_queue h = []" and "u_ack_queue h = []"
    and "dst_id f = u_node_id h" and "u_node_id h \<noteq> BROADCAST_ID" and "ftype f = DATA"
    and "um_find (u_last_seq h) (src_id f) \<noteq> Some (seq_no f)"
    and "parse_http_request (A :: 'r http_api) (map char_of_byte (payload f)) = Some r"
    and "rd = SerialRead False (encode f @ [CHR 0x0A])" and "slot = SlotBegin (\<lambda>_. True)"
  shows "snd (handle_steps A [rd, slot, rd, slot, rd, slot, rd, slot] h) =
    [Routed r, Wrote (encode (mk_frame (u_node_id h) (src_id f) (seq_no f) ACK []) @ [CHR 0x0A])]"
proof -
  let ?next = "\<lambda>g. fst (on_my_slot (\<lambda>_. True) (inc frames_received_update g) :: handle \<times> 'r event list)"
  let ?idle = "\<lambda>g. u_running g \<and> u_serial_open g \<and> u_read_buffer g = [] \<and> u_send_queue g = [] \<and>
      u_ack_queue g = [] \<and> dst_id f = u_node_id g \<and> um_find (u_last_seq g) (src_id f) = Some (seq_no f)"
  have again: "snd (handle_steps A (rd # slot # is) g) = snd (handle_steps A is (?next g)) \<and> ?idle (?next g)"
    if "?idle g" for g "is"
    using that again_data [of f g A] read_frame_line [OF assms(1), of g A] assms(9)
    by (simp add: assms(12,13) case_prod_beta Let_def on_my_slot_events)
  let ?h1 = "fst (handle_received_frame A f h)"
  let ?h2 = "fst (on_my_slot (\<lambda>_. True) ?h1 :: handle \<times> 'r event list)"
  have q: "u_ack_queue ?h1 = [reply h f]"
    using first_data(2) [OF assms(7-10), of A] assms(6) by simp
  have "um_find (u_last_seq ?h1) (src_id f) = Some (seq_no f)"
    using first_data(3) [OF assms(7-10), of A] by simp
  then have i2: "?idle ?h2" using assms(2-4,7) by simp
  have "snd (handle_steps A (rd # slot # is) h) =
      [Routed r, Wrote (encode (reply h f) @ [CHR 0x0A])] @ snd (handle_steps A is ?h2)" for "is"
    using first_data(1) [OF assms(7-10), of A] read_frame_line [OF assms(1,2,4), of A] q assms(3,5)
    by (simp add: assms(12,13) case_prod_beta Let_def on_my_slot_events routed_def assms(11))
  then show ?thesis
    using again [OF i2] again [of "?next ?h2"] again [of "?next (?next ?h2)"]
    by (simp add: reply_def del: handle_steps.simps(2))
qed

theorem lost_ack_not_repeated_witness:
  "snd (handle_steps list_http
      [SerialRead False (encode sample_frame @ [CHR 0x0A]), SlotBegin (\<lambda>_. True),
       SerialRead False (encode sample_frame @ [CHR 0x0A]), SlotBegin (\<lambda>_. True),
       SerialRead False (encode sample_frame @ [CHR 0x0A]), SlotBegin (\<lambda>_. True),
       SerialRead False (encode sample_frame @ [CHR 0x0A]), SlotBegin (\<lambda>_. True)]
      (handle_run True True (new_handle 2)))
   = [Routed sample_request, Wrote (encode (mk_frame 2 1 7 ACK []) @ [CHR 0x0A])]"
  using lost_ack_not_repeated [of sample_frame "handle_run True True (new_handle 2)" list_http sample_request,
      OF sample_frame_facts(6) initial_run_facts(1,7,9,5,6) _ _ sample_frame_facts(4) _
         sample_frame_facts(5) refl refl]
  by (simp add: sample_frame_facts initial_run_facts BROADCAST_ID_def del: handle_steps.simps)

text \<open>
  The duplicate filter remembers one number per source, and a heartbeat (number 0) replaces it: a
  data frame that is retransmitted after a heartbeat of its sender is handed to the router twice.
\<close>

theorem heartbeat_defeats_filter:
  assumes "dst_id f = u_node_id h" and "u_node_id h \<noteq> BROADCAST_ID" and "ftype f = DATA" and "seq_no f \<noteq> 0"
    and "um_find (u_last_seq h) (src_id f) \<noteq> Some (seq_no f)"
    and "parse_http_request A (map char_of_byte (payload f)) = Some r"
  shows "snd (receive_all A [f, mk_frame_str (src_id f) BROADCAST_ID 0 HEARTBEAT b, f] h) = [Routed r, Routed r]"
proof -
  let ?hb = "mk_frame_str (src_id f) BROADCAST_ID 0 HEARTBEAT b"
  let ?h1 = "fst (handle_received_frame A f h)"
  let ?h2 = "fst (handle_received_frame A ?hb ?h1)"
  have l: "u_last_seq ?h1 = um_put (src_id f) (seq_no f) (u_last_seq h)"
    using first_data(3) [OF assms(1-3,5)] .
  then have "snd (handle_received_frame A ?hb ?h1) = []"
    and "um_find (u_last_seq ?h2) (src_id f) = Some 0"
    using assms(4) by (simp_all add: handle_received_frame_def [of A ?hb] Let_def)
  moreover from this(2) have "snd (handle_received_frame A f ?h2) = routed A f"
    using assms by (intro first_data(1)) simp_all
  ultimately show ?thesis
    using first_data(1) [OF assms(1-3,5), of A] assms(6)
    by (simp add: case_prod_beta Let_def routed_def)
qed

theorem heartbeat_defeats_filter_witness:
  "snd (receive_all list_http [sample_frame, mk_frame_str 1 BROADCAST_ID 0 HEARTBEAT ''HB:1'', sample_frame]
     (handle_run True True (new_handle 2))) = [Routed sample_request, Routed sample_request]"
  using heartbeat_defeats_filter [of sample_frame "handle_run True True (new_handle 2)" list_http sample_request "''HB:1''",
      OF _ _ sample_frame_facts(4) _ _ sample_frame_facts(5)]
  by (simp add: sample_frame_facts initial_run_facts BROADCAST_ID_def del: receive_all.simps)

subsection \<open>Sequence numbers in use\<close>

lemma unat_1_u8: "unat (w :: u8) = 1 \<Longrightarrow> w = 1"
  by (metis of_nat_unat of_nat_1 ucast_id)

lemma send_seq:
  assumes "u_running h" and "length (serialize_http_request A r) \<le> 65535" and "d \<noteq> BROADCAST_ID"
    and "(h', es) = send_http_reliable A t r d cb h"
  shows "u_running h'" and "u_next_seq h' = (if u_next_seq h + 1 = 0 then 1 else u_next_seq h + 1)"
    and "u_next_seq h \<in> um_keys (u_pending h')" and "um_keys (u_pending h) \<subseteq> um_keys (u_pending h')"
    and "es = []"
  using assms by (auto simp: send_http_reliable_def Let_def um_keys_find split: if_splits)

definition burst :: "'r http_api \<Rightarrow> 'r \<Rightarrow> u8 \<Rightarrow> int \<Rightarrow> nat \<Rightarrow> 'r input list" where
  "burst A r d t k = replicate k (SendReq r d None t)"

lemma burst_state:
  assumes "u_running h" and "u_next_seq h = 1" and "d \<noteq> BROADCAST_ID"
    and "length (serialize_http_request A r) \<le> 65535" and "k \<le> 255"
  shows "u_running (fst (handle_steps A (burst A r d t k) h)) \<and>
    unat (u_next_seq (fst (handle_steps A (burst A r d t k) h))) = (if k = 255 then 1 else k + 1) \<and>
    (0 < k \<longrightarrow> 1 \<in> um_keys (u_pending (fst (handle_steps A (burst A r d t k) h))))"
  using assms(5)
proof (induction k)
  case 0
  then show ?case using assms(1,2) by (simp add: burst_def)
next
  case (Suc k)
  let ?h = "fst (handle_steps A (burst A r d t k) h)"
  let ?h' = "fst (send_http_reliable A t r d None ?h)"
  have b: "burst A r d t (Suc k) = burst A r d t k @ [SendReq r d None t]"
    by (simp add: burst_def replicate_append_same)
  have h': "fst (handle_steps A (burst A r d t (Suc k)) h) = ?h'"
    unfolding b steps_append by (simp add: case_prod_beta Let_def)
  have ih: "u_running ?h" "unat (u_next_seq ?h) = k + 1" "0 < k \<longrightarrow> 1 \<in> um_keys (u_pending ?h)"
    using Suc by simp_all
  have s: "u_running ?h'" "u_next_seq ?h' = (if u_next_seq ?h + 1 = 0 then 1 else u_next_seq ?h + 1)"
    "u_next_seq ?h \<in> um_keys (u_pending ?h')" "um_keys (u_pending ?h) \<subseteq> um_keys (u_pending ?h')"
    using send_seq [OF ih(1) assms(4,3), of ?h' "snd (send_http_reliable A t r d None ?h)" t None] by simp_all
  have u: "unat (u_next_seq ?h + 1) = (k + 2) mod 256"
    using ih(2) by (simp add: unat_word_ariths)
  have "unat (u_next_seq ?h') = (if Suc k = 255 then 1 else Suc k + 1)"
  proof (cases "k = 254")
    case True
    then have "u_next_seq ?h + 1 = 0" using u by (simp add: unat_eq_0)
    then show ?thesis using s(2) True by simp
  next
    case False
    then have "unat (u_next_seq ?h + 1) = k + 2" using u Suc.prems by simp
    then show ?thesis using s(2) False by (auto simp: unat_eq_0)
  qed
  moreover have "1 \<in> um_keys (u_pending ?h')"
  proof (cases "k = 0")
    case True
    then have "u_next_seq ?h = 1" using ih(2) by (simp add: unat_1_u8)
    then show ?thesis using s(3) by simp
  next
    case False
    then show ?thesis using ih(3) s(4) by auto
  qed
  ultimately show ?case using s(1) h' by simp
qed

text \<open>
  Sequence numbers wrap after 255 sends without a check: the callback of the 256th request sent
  to one node while the first is still unacknowledged is lost. It neither fires nor waits, although its
  frame is queued for transmission.
\<close>

theorem seq_reuse_loses_callback:
  assumes "d \<noteq> BROADCAST_ID" and "length (serialize_http_request A r) \<le> 65535"
    and "(h, es) = handle_steps A (burst A r d t 255) (handle_run True True (new_handle n))"
    and "(h', es') = send_http_reliable A t r d (Some c) h"
  shows "es' = [] \<and> u_pending h' = u_pending h \<and>
    u_send_queue h' = u_send_queue h @ [mk_frame_str (u_node_id h) d 1 DATA (serialize_http_request A r)]"
proof -
  have "u_running h \<and> unat (u_next_seq h) = 1 \<and> 1 \<in> um_keys (u_pending h)"
    using burst_state [OF initial_run_facts(1) initial_run_facts(4) assms(1,2), of 255 t n] assms(3)
    by (metis fst_conv le_refl zero_less_numeral)
  then have h: "u_running h" "u_next_seq h = 1" "um_find (u_pending h) 1 \<noteq> None"
    using unat_1_u8 by (auto simp: um_keys_find)
  then show ?thesis
    using assms(1,2,4) by (auto simp: send_http_reliable_def Let_def um_emplace_def)
qed

theorem seq_reuse_loses_callback_witness:
  "snd (send_http_reliable list_http 0 sample_request 2 (Some 7)
     (fst (handle_steps list_http (burst list_http sample_request 2 0 255) (handle_run True True (new_handle 1))))) = []"
proof -
  let ?r = "handle_steps list_http (burst list_http sample_request 2 0 255) (handle_run True True (new_handle 1))"
  let ?s = "send_http_reliable list_http 0 sample_request 2 (Some 7) (fst ?r)"
  have d: "2 \<noteq> BROADCAST_ID" by (simp add: BROADCAST_ID_def)
  have "(fst ?r, snd ?r) = ?r" "(fst ?s, snd ?s) = ?s" by simp_all
  from seq_reuse_loses_callback [OF d sample_length this] show ?thesis by blast
qed

subsection \<open>One request from node to node\<close>

lemma send_unicast:
  assumes "u_running h" and "length (serialize_http_request A r) \<le> 65535" and "d \<noteq> BROADCAST_ID"
    and "um_find (u_pending h) (u_next_seq h) = None"
    and "f = mk_frame_str (u_node_id h) d (u_next_seq h) DATA (serialize_http_request A r)"
  shows "\<exists>h'. send_http_reliable A t r d cb h = (h', []) \<and> u_send_queue h' = u_send_queue h @ [f] \<and>
    u_ack_queue h' = u_ack_queue h \<and> u_serial_open h' = u_serial_open h \<and> u_running h' \<and>
    u_node_id h' = u_node_id h \<and> u_read_buffer h' = u_read_buffer h \<and>
    um_find (u_pending h') (u_next_seq h) = Some \<lparr>pf_frame = f, pf_send_time = t, pf_retry_count = 0, pf_callback = cb\<rparr>"
  using assms by (simp add: send_http_reliable_def Let_def)

lemma data_frame_line_ok:
  "length (serialize_http_request A r) \<le> 65535 \<Longrightarrow>
   line_ok (mk_frame_str s d q DATA (serialize_http_request A r))"
  using escape_no_newline by (intro frame_str_line_ok) (simp_all add: serialize_http_request_def)

lemma frame_payload_text [simp]:
  "map char_of_byte (payload (mk_frame_str s d q t b)) = b"
  by (simp add: comp_def)

lemma request_delivery:
  assumes sender: "u_running s" "u_serial_open s" "u_send_queue s = []" "u_ack_queue s = []"
      "u_read_buffer s = []" "u_node_id s \<noteq> BROADCAST_ID" "um_find (u_pending s) (u_next_seq s) = None"
    and receiver: "u_running d" "u_serial_open d" "u_send_queue d = []" "u_ack_queue d = []"
      "u_read_buffer d = []" "u_node_id d \<noteq> BROADCAST_ID"
      "um_find (u_last_seq d) (u_node_id s) \<noteq> Some (u_next_seq s)"
    and req: "h_text (A :: 'r http_api) r = http_text v t fs b" "v \<noteq> v_unknown" "target_clean t"
      "\<forall>f \<in> set fs. field_clean f" "length (serialize_http_request A r) \<le> 65535"
      "rebuild A v t fs b = Some r'"
  shows "\<exists>s1 d1 s2 data ack.
    handle_steps A [SendReq r (u_node_id d) (Some c) now, SlotBegin (\<lambda>_. True)] s = (s1, [Wrote data]) \<and>
    handle_steps A [SerialRead False data, SlotBegin (\<lambda>_. True)] d = (d1, [Routed r', Wrote ack]) \<and>
    ack = encode (mk_frame (u_node_id d) (u_node_id s) (u_next_seq s) ACK []) @ [CHR 0x0A] \<and>
    handle_steps A [SerialRead False ack] s1 = (s2, [Callback c True]) \<and>
    um_find (u_pending s2) (u_next_seq s) = None"
proof -
  let ?q = "u_next_seq s"
  let ?f = "mk_frame_str (u_node_id s) (u_node_id d) ?q DATA (serialize_http_request A r)"
  let ?ack = "mk_frame (u_node_id d) (u_node_id s) ?q ACK []"
  obtain h where h: "send_http_reliable A now r (u_node_id d) (Some c) s = (h, [])" "u_send_queue h = [?f]"
    "u_ack_queue h = []" "u_serial_open h" "u_running h" "u_node_id h = u_node_id s" "u_read_buffer h = []"
    "um_find (u_pending h) ?q = Some \<lparr>pf_frame = ?f, pf_send_time = now, pf_retry_count = 0, pf_callback = Some c\<rparr>"
    using send_unicast [OF sender(1) req(5) receiver(6) sender(7) refl, of now "Some c"] sender by auto
  let ?s1 = "fst (on_my_slot (\<lambda>_. True) h :: handle \<times> 'r event list)"
  have 1: "handle_steps A [SendReq r (u_node_id d) (Some c) now, SlotBegin (\<lambda>_. True)] s
      = (?s1, [Wrote (encode ?f @ [CHR 0x0A])])"
    using h by (simp add: case_prod_beta Let_def on_my_slot_events)
  let ?d0 = "fst (handle_received_frame A ?f d)"
  have p: "parse_http_request A (map char_of_byte (payload ?f)) = Some r'"
    using parse_serialized [OF req(1-4)] req(6) by (simp only: frame_payload_text)
  have fd: "snd (handle_received_frame A ?f d) = [Routed r']" "u_ack_queue ?d0 = [?ack]"
    using first_data(1,2) [of ?f d A] receiver p by (simp_all add: routed_def reply_def)
  have rd: "handle_read A False (encode ?f @ [CHR 0x0A]) d = handle_received_frame A ?f d"
    by (rule read_frame_line [OF data_frame_line_ok [OF req(5)] receiver(1,5)])
  have 2: "handle_steps A [SerialRead False (encode ?f @ [CHR 0x0A]), SlotBegin (\<lambda>_. True)] d
      = (fst (on_my_slot (\<lambda>_. True) ?d0 :: handle \<times> 'r event list), [Routed r', Wrote (encode ?ack @ [CHR 0x0A])])"
    using fd receiver(2,3) by (simp add: rd case_prod_beta Let_def on_my_slot_events)
  have ra: "handle_read A False (encode ?ack @ [CHR 0x0A]) ?s1 = handle_received_frame A ?ack ?s1"
    using h(5,7) by (intro read_frame_line) (simp_all add: ack_frame_line_ok)
  have "handle_received_frame A ?ack ?s1 = handle_ack ?q (inc frames_received_update ?s1)"
    using h(6) by (simp add: handle_received_frame_def Let_def)
  also have "\<dots> = (inc acks_received_update ((inc frames_received_update ?s1)\<lparr>u_pending := um_erase ?q (u_pending h)\<rparr>),
      [Callback c True])"
    using h(8) by (simp add: handle_ack_def notify_def)
  finally have 3: "handle_received_frame A ?ack ?s1 = \<dots>" .
  have "handle_steps A [SerialRead False (encode ?ack @ [CHR 0x0A])] ?s1 =
      (inc acks_received_update ((inc frames_received_update ?s1)\<lparr>u_pending := um_erase ?q (u_pending h)\<rparr>),
       [Callback c True])"
    using 3 by (simp add: ra)
  with 1 2 show ?thesis by fastforce
qed

definition sample_exchange :: "handle \<Rightarrow> handle \<Rightarrow> string \<Rightarrow> string \<Rightarrow> handle \<Rightarrow> handle \<Rightarrow> handle \<Rightarrow> bool" where
  "sample_exchange a d data ack s1 d1 s2 \<longleftrightarrow>
    handle_steps list_http [SendReq sample_request 2 (Some 9) 0, SlotBegin (\<lambda>_. True)] a = (s1, [Wrote data]) \<and>
    handle_steps list_http [SerialRead False data, SlotBegin (\<lambda>_. True)] d = (d1, [Routed sample_request, Wrote ack]) \<and>
    ack = encode (mk_frame 2 1 1 ACK []) @ [CHR 0x0A] \<and>
    handle_steps list_http [SerialRead False ack] s1 = (s2, [Callback 9 True])"

lemma sample_hypotheses:
  "rebuild list_http v_post ''/node'' [(''node'', ''lidar''), (''src'', ''car''), (''dest'', ''base'')]
       [BSL, CR, LF, CR, LF, BSL, CHR ''n''] = Some sample_request"
  "target_clean ''/node''"
  "\<forall>f \<in> set [(''node'', ''lidar''), (''src'', ''car''), (''dest'', ''base'')]. field_clean f"
  by (simp_all add: rebuild_def list_http_def sample_request_def target_clean_def is_space_def
      field_clean_def CR_def LF_def)

lemma sample_exchange_ex:
  "\<exists>data ack s1 d1 s2. sample_exchange (handle_run True True (new_handle 1)) (handle_run True True (new_handle 2)) data ack s1 d1 s2"
  using request_delivery [of "handle_run True True (new_handle 1)" "handle_run True True (new_handle 2)"
      list_http sample_request, OF initial_run_facts(1,7,5,6,9) _ _ initial_run_facts(1,7,5,6,9) _ _ sample_text _ sample_hypotheses(2,3)
      sample_length sample_hypotheses(1), of 9 0]
  unfolding sample_exchange_def
  by (simp add: initial_run_facts BROADCAST_ID_def del: handle_steps.simps) blast

text \<open>
  C1: A request sent to another node, when no line is lost, is delivered and confirmed: the sender's
  next slot writes one line; reading it, the receiver hands the router a request with the same method,
  target, header fields and body, and its next slot writes one acknowledgement; reading that, the
  sender reports success and forgets the frame.
\<close>

theorem request_delivered:
  assumes sender: "u_running s" "u_serial_open s" "u_send_queue s = []" "u_ack_queue s = []"
      "u_read_buffer s = []" "u_node_id s \<noteq> BROADCAST_ID" "um_find (u_pending s) (u_next_seq s) = None"
    and receiver: "u_running d" "u_serial_open d" "u_send_queue d = []" "u_ack_queue d = []"
      "u_read_buffer d = []" "u_node_id d \<noteq> BROADCAST_ID"
      "um_find (u_last_seq d) (u_node_id s) \<noteq> Some (u_next_seq s)"
    and req: "h_text (A :: 'r http_api) r = http_text v t fs b" "v \<noteq> v_unknown" "target_clean t"
      "\<forall>f \<in> set fs. field_clean f" "length (serialize_http_request A r) \<le> 65535"
      "rebuild A v t fs b = Some r'"
  shows "\<exists>s1 d1 s2 data ack.
    handle_steps A [SendReq r (u_node_id d) (Some c) now, SlotBegin (\<lambda>_. True)] s = (s1, [Wrote data]) \<and>
    handle_steps A [SerialRead False data, SlotBegin (\<lambda>_. True)] d = (d1, [Routed r', Wrote ack]) \<and>
    ack = encode (mk_frame (u_node_id d) (u_node_id s) (u_next_seq s) ACK []) @ [CHR 0x0A] \<and>
    handle_steps A [SerialRead False ack] s1 = (s2, [Callback c True]) \<and>
    um_find (u_pending s2) (u_next_seq s) = None"
  using assms by (rule request_delivery)

theorem request_delivered_witness:
  "\<exists>s1 d1 s2 data ack.
    handle_steps list_http [SendReq sample_request 2 (Some 9) 0, SlotBegin (\<lambda>_. True)]
      (handle_run True True (new_handle 1)) = (s1, [Wrote data]) \<and>
    handle_steps list_http [SerialRead False data, SlotBegin (\<lambda>_. True)]
      (handle_run True True (new_handle 2)) = (d1, [Routed sample_request, Wrote ack]) \<and>
    handle_steps list_http [SerialRead False ack] s1 = (s2, [Callback 9 True]) \<and>
    um_find (u_pending s2) 1 = None"
  using request_delivered [of "handle_run True True (new_handle 1)" "handle_run True True (new_handle 2)"
      list_http sample_request, OF initial_run_facts(1,7,5,6,9) _ _ initial_run_facts(1,7,5,6,9) _ _ sample_text _ sample_hypotheses(2,3)
      sample_length sample_hypotheses(1), of 9 0]
  by (simp add: initial_run_facts BROADCAST_ID_def del: handle_steps.simps) blast

end
