(* ===== verification/UwbNet.thy ===== *)
theory UwbNet
  imports UwbLink
begin

text \<open>
  Two handles on one radio channel as a step relation: each takes any input of its own, and reads
  lines the other has written, in any order, any number of times or never. The invariants say what the
  link guarantees under loss, delay, duplication and reordering of lines.
\<close>

subsection \<open>Where outgoing frames come from\<close>

definition all_out :: "(TimeSlotFrame \<Rightarrow> bool) \<Rightarrow> handle \<Rightarrow> bool" where
  "all_out P h \<longleftrightarrow> (\<forall>f \<in> set (u_send_queue h). P f) \<and>
     (\<forall>k p. um_find (u_pending h) k = Some p \<longrightarrow> P (pf_frame p))"

text \<open>The frames an input creates for the send queue.\<close>

fun creates :: "'r http_api \<Rightarrow> handle \<Rightarrow> 'r input \<Rightarrow> TimeSlotFrame set" where
  "creates A h (SendReq r d cb t) =
     {mk_frame_str (u_node_id h) d (u_next_seq h) DATA (serialize_http_request A r)}"
| "creates A h HeartbeatTick =
     {mk_frame_str (u_node_id h) BROADCAST_ID 0 HEARTBEAT (''HB:'' @ dec_str (unat (u_node_id h)))}"
| "creates A h _ = {}"

lemma all_out_inc [simp]: "all_out P (inc c h) = all_out P h"
  by (simp add: all_out_def)

lemma check_pending_out:
  assumes "all_out P h" and "P (pf_frame p)"
  shows "all_out P (fst (check_pending now k p h))"
  using assms by (auto simp: all_out_def check_pending_def Let_def split: if_splits)

lemma check_loop_out:
  assumes "all_out P h" and "\<forall>(k, p) \<in> set ps. P (pf_frame p)"
  shows "all_out P (fst (check_loop now ps h :: handle \<times> 'r event list))"
  using assms
proof (induction ps arbitrary: h)
  case (Cons kp ps)
  obtain k p where kp: "kp = (k, p)" by (cases kp)
  let ?h = "fst (check_pending now k p h :: handle \<times> 'r event list)"
  have "all_out P ?h" using Cons.prems kp by (intro check_pending_out) simp_all
  then show ?case using Cons.IH [of ?h] Cons.prems kp by (simp add: case_prod_beta Let_def)
qed simp

lemma received_out: "all_out P h \<Longrightarrow> all_out P (fst (handle_received_frame A f h))"
  by (auto simp: all_out_def handle_received_frame_def handle_ack_def Let_def split: option.split)

lemma step_out:
  assumes "all_out P h" and "um_wf (u_pending h)" and "\<forall>f \<in> creates A h i. P f"
  shows "all_out P (fst (handle_step A i h))"
proof (cases i)
  case (SendReq r d cb t)
  then show ?thesis
    using assms by (auto simp: all_out_def send_http_reliable_def Let_def split: if_splits)
next
  case (SlotBegin oks)
  then show ?thesis using assms by (simp add: all_out_def)
next
  case (SerialRead ec bs)
  have "all_out P (h\<lparr>u_read_buffer := b\<rparr>)" for b using assms(1) by (simp add: all_out_def)
  then show ?thesis
    using SerialRead received_out [of P "h\<lparr>u_read_buffer := _\<rparr>" A]
    by (auto simp: handle_read_def Let_def split: option.split prod.split)
next
  case (TimeoutTick now)
  have "\<forall>(k, p) \<in> set (u_pending h). P (pf_frame p)"
    using assms um_find_mem [OF assms(2)] by (auto simp: all_out_def)
  then show ?thesis
    using TimeoutTick assms check_loop_out [of P h "u_pending h" now]
    by (auto simp: timeout_worker_def check_timeouts_def)
next
  case HeartbeatTick
  then show ?thesis using assms by (auto simp: all_out_def heartbeat_worker_def Let_def)
next
  case StopReq
  then show ?thesis using assms by (auto simp: all_out_def handle_stop_def)
next
  case (RunReq a b)
  then show ?thesis using assms by (auto simp: all_out_def handle_run_def init_serial_def Let_def)
qed

text \<open>What a step does to the acknowledgement queue, and what it writes.\<close>

lemma written_mem: "Wrote t \<in> set (written oks k fs) \<Longrightarrow> \<exists>f \<in> set fs. t = encode f @ [CHR 0x0A]"
  by (induction fs arbitrary: k) (auto split: if_splits)

lemma written_only: "e \<in> set (written oks k fs) \<Longrightarrow> \<exists>t. e = Wrote t"
  by (induction fs arbitrary: k) (auto split: if_splits)

fun local_input :: "'r input \<Rightarrow> bool" where
  "local_input (SerialRead ec bs) = False"
| "local_input _ = True"

lemma notify_events: "e \<in> set (notify cb b) \<Longrightarrow> \<exists>c. e = Callback c b"
  by (auto simp: notify_def split: option.splits)

lemma check_loop_events:
  "e \<in> set (snd (check_loop now ps h :: handle \<times> 'r event list)) \<Longrightarrow> \<exists>c. e = Callback c False"
proof (induction ps arbitrary: h)
  case (Cons kp ps)
  then show ?case
    by (cases kp) (auto simp: case_prod_beta Let_def check_pending_def dest!: notify_events split: if_splits)
qed simp

lemma check_loop_ack [simp]:
  "u_ack_queue (fst (check_loop now ps h :: handle \<times> 'r event list)) = u_ack_queue h"
proof (induction ps arbitrary: h)
  case (Cons kp ps)
  then show ?case by (cases kp) (simp add: case_prod_beta Let_def check_pending_def)
qed simp

lemma local_events:
  assumes "local_input i" and "e \<in> set (snd (handle_step A i h))"
  shows "(\<exists>c b. e = Callback c b) \<or>
    (\<exists>f. f \<in> set (u_send_queue h) \<union> set (u_ack_queue h) \<and> e = Wrote (encode f @ [CHR 0x0A]))"
proof (cases i)
  case (SendReq r d cb t)
  then show ?thesis
    using assms by (auto simp: send_http_reliable_def Let_def dest!: notify_events split: if_splits)
next
  case (SlotBegin oks)
  then show ?thesis
    using assms written_only [of e oks 0] written_mem [of _ oks 0]
    by (fastforce simp: on_my_slot_events split: if_splits)
next
  case (TimeoutTick now)
  then show ?thesis
    using assms check_loop_events [of e now "u_pending h" h]
    by (auto simp: timeout_worker_def check_timeouts_def split: if_splits)
next
  case StopReq
  then show ?thesis using assms by (auto simp: handle_stop_def dest!: notify_events split: if_splits)
qed (use assms in simp_all)

lemma local_ack_queue:
  assumes "local_input i"
  shows "set (u_ack_queue (fst (handle_step A i h))) \<subseteq> set (u_ack_queue h)"
  using assms by (cases i) (auto simp: send_http_reliable_def timeout_worker_def
      check_timeouts_def heartbeat_worker_def handle_stop_def handle_run_def init_serial_def Let_def
      split: if_splits)

lemma local_read_buffer:
  assumes "local_input i"
  shows "u_read_buffer (fst (handle_step A i h)) = u_read_buffer h"
proof -
  have "u_read_buffer (fst (check_loop now ps g :: handle \<times> 'a event list)) = u_read_buffer g" for now ps g
  proof (induction ps arbitrary: g)
    case (Cons kp ps)
    then show ?case by (cases kp) (simp add: case_prod_beta Let_def check_pending_def)
  qed simp
  then show ?thesis
    using assms by (cases i) (auto simp: send_http_reliable_def timeout_worker_def
      check_timeouts_def heartbeat_worker_def handle_stop_def handle_run_def init_serial_def Let_def)
qed

subsection \<open>The network\<close>

text \<open>
  Ghost components: the lines written so far by each side, the requests the first handle was asked to
  send, the requests the second has routed and the data frames it has read.
\<close>

record 'r net =
  n_a :: handle
  n_b :: handle
  n_ab :: "string set"
  n_ba :: "string set"
  n_asked :: "'r set"
  n_routed :: "'r set"
  n_read :: "TimeSlotFrame set"

definition lines_of :: "'r event list \<Rightarrow> string set" where
  "lines_of es = {t. Wrote t \<in> set es}"

definition routed_of :: "'r event list \<Rightarrow> 'r set" where
  "routed_of es = {r. Routed r \<in> set es}"

fun request_of :: "'r input \<Rightarrow> 'r set" where
  "request_of (SendReq r d cb t) = {r}"
| "request_of _ = {}"

definition data_of :: "string \<Rightarrow> TimeSlotFrame set" where
  "data_of t = {f. decode (strip_cr (fst (getline t))) = Some f \<and> ftype f = DATA}"

inductive net_step :: "'r http_api \<Rightarrow> 'r net \<Rightarrow> 'r net \<Rightarrow> bool" for A where
  a_local: "local_input i \<Longrightarrow> handle_step A i (n_a s) = (h, es) \<Longrightarrow>
    net_step A s (s\<lparr>n_a := h, n_ab := n_ab s \<union> lines_of es, n_asked := n_asked s \<union> request_of i\<rparr>)"
| b_local: "local_input i \<Longrightarrow> handle_step A i (n_b s) = (h, es) \<Longrightarrow>
    net_step A s (s\<lparr>n_b := h, n_ba := n_ba s \<union> lines_of es\<rparr>)"
| a_reads: "t \<in> n_ba s \<Longrightarrow> u_running (n_a s) \<Longrightarrow> handle_step A (SerialRead False t) (n_a s) = (h, es) \<Longrightarrow>
    net_step A s (s\<lparr>n_a := h\<rparr>)"
| b_reads: "t \<in> n_ab s \<Longrightarrow> u_running (n_b s) \<Longrightarrow> handle_step A (SerialRead False t) (n_b s) = (h, es) \<Longrightarrow>
    net_step A s (s\<lparr>n_b := h, n_routed := n_routed s \<union> routed_of es, n_read := n_read s \<union> data_of t\<rparr>)"

definition net_init :: "u8 \<Rightarrow> u8 \<Rightarrow> 'r net" where
  "net_init a b = \<lparr>n_a = new_handle a, n_b = new_handle b, n_ab = {}, n_ba = {}, n_asked = {},
     n_routed = {}, n_read = {}\<rparr>"

inductive net_reach :: "'r http_api \<Rightarrow> u8 \<Rightarrow> u8 \<Rightarrow> 'r net \<Rightarrow> bool" for A a b where
  init: "net_reach A a b (net_init a b)"
| step: "net_reach A a b s \<Longrightarrow> net_step A s s' \<Longrightarrow> net_reach A a b s'"

inductive_cases net_stepE: "net_step A s s'"

text \<open>A data frame carries a request that was asked for.\<close>

definition carries :: "'r http_api \<Rightarrow> 'r set \<Rightarrow> TimeSlotFrame \<Rightarrow> bool" where
  "carries A R f \<longleftrightarrow> (ftype f = DATA \<longrightarrow> (\<exists>r \<in> R. map char_of_byte (payload f) = serialize_http_request A r))"

definition answered :: "TimeSlotFrame set \<Rightarrow> TimeSlotFrame \<Rightarrow> bool" where
  "answered F f \<longleftrightarrow> (ftype f = ACK \<longrightarrow> (\<exists>g \<in> F. dst_id f = src_id g \<and> seq_no f = seq_no g))"

definition net_inv :: "'r http_api \<Rightarrow> 'r net \<Rightarrow> bool" where
  "net_inv A s \<longleftrightarrow> handle_inv (n_a s) \<and> handle_inv (n_b s) \<and>
     u_read_buffer (n_a s) = [] \<and> u_read_buffer (n_b s) = [] \<and>
     all_out (carries A (n_asked s)) (n_a s) \<and>
     (\<forall>t \<in> n_ab s. \<exists>f. line_ok f \<and> carries A (n_asked s) f \<and> t = encode f @ [CHR 0x0A]) \<and>
     (\<forall>r \<in> n_routed s. \<exists>q \<in> n_asked s. parse_http_request A (serialize_http_request A q) = Some r) \<and>
     all_out (\<lambda>f. ftype f \<noteq> ACK) (n_b s) \<and>
     (\<forall>f \<in> set (u_ack_queue (n_b s)). answered (n_read s) f) \<and>
     (\<forall>t \<in> n_ba s. \<exists>f. line_ok f \<and> answered (n_read s) f \<and> t = encode f @ [CHR 0x0A]) \<and>
     (\<forall>f \<in> n_read s. ftype f = DATA)"

lemma carries_mono: "R \<subseteq> S \<Longrightarrow> carries A R f \<Longrightarrow> carries A S f"
  by (auto simp: carries_def)

lemma answered_mono: "F \<subseteq> G \<Longrightarrow> answered F f \<Longrightarrow> answered G f"
  by (auto simp: answered_def)

lemma all_out_mono: "(\<And>f. P f \<Longrightarrow> Q f) \<Longrightarrow> all_out P h \<Longrightarrow> all_out Q h"
  by (auto simp: all_out_def)

lemma creates_carries: "f \<in> creates A h i \<Longrightarrow> carries A (R \<union> request_of i) f"
  by (cases i) (auto simp: carries_def comp_def)

lemma creates_not_ack: "f \<in> creates A h i \<Longrightarrow> ftype f \<noteq> ACK"
  by (cases i) auto

lemma step_inv: "handle_inv h \<Longrightarrow> handle_inv (fst (handle_step A i h))"
  using step_keeps [of h A i] by (simp add: keeps_def)

lemma read_whole_line:
  assumes "line_ok f" and "u_running h" and "u_read_buffer h = []" and "t = encode f @ [CHR 0x0A]"
  shows "handle_step A (SerialRead False t) h = handle_received_frame A f h"
    and "data_of t = (if ftype f = DATA then {f} else {})"
  using read_frame_line [OF assms(1-3)] uwb_line.decode_line [OF assms(1), of "[]"] assms(4)
  by (auto simp: data_of_def)

lemma received_acks:
  "g \<in> set (u_ack_queue (fst (handle_received_frame A f h))) \<Longrightarrow>
   g \<in> set (u_ack_queue h) \<or> ftype f = DATA \<and> dst_id g = src_id f \<and> seq_no g = seq_no f"
  by (cases "ftype f") (auto simp: handle_received_frame_def handle_ack_def Let_def split: option.splits if_splits)

lemma received_routed:
  "Routed r \<in> set (snd (handle_received_frame A f h)) \<Longrightarrow>
   ftype f = DATA \<and> parse_http_request A (map char_of_byte (payload f)) = Some r"
  by (auto simp: handle_received_frame_def handle_ack_def Let_def dest!: notify_events split: option.splits if_splits)

lemma a_local_inv:
  assumes "net_inv A s" and "local_input i" and "handle_step A i (n_a s) = (h, es)"
  shows "net_inv A (s\<lparr>n_a := h, n_ab := n_ab s \<union> lines_of es, n_asked := n_asked s \<union> request_of i\<rparr>)"
proof -
  let ?R = "n_asked s \<union> request_of i"
  have inv: "handle_inv (n_a s)" "all_out (carries A (n_asked s)) (n_a s)" using assms(1) by (simp_all add: net_inv_def)
  have h: "h = fst (handle_step A i (n_a s))" "es = snd (handle_step A i (n_a s))" using assms(3) by simp_all
  have o: "all_out (carries A ?R) (n_a s)"
    by (rule all_out_mono [OF _ inv(2)]) (blast intro: carries_mono)
  then have "all_out (carries A ?R) h"
    unfolding h using inv(1) creates_carries by (intro step_out) (auto simp: handle_inv_def)
  moreover have "\<exists>f. line_ok f \<and> carries A ?R f \<and> t = encode f @ [CHR 0x0A]" if tl: "t \<in> lines_of es" for t
  proof -
    obtain f where f: "f \<in> set (u_send_queue (n_a s)) \<union> set (u_ack_queue (n_a s))" "t = encode f @ [CHR 0x0A]"
      using local_events [OF assms(2), of "Wrote t" A "n_a s"] tl h(2) by (auto simp: lines_of_def)
    then have "line_ok f" using inv(1) by (auto simp: handle_inv_def out_ok_def)
    moreover have "carries A ?R f"
      using f(1) o inv(1) by (auto simp: all_out_def handle_inv_def carries_def)
    ultimately show ?thesis using f(2) by blast
  qed
  moreover have "handle_inv h" "u_read_buffer h = []"
    using h assms(1) step_inv [OF inv(1), of A i] local_read_buffer [OF assms(2), of A]
    by (simp_all add: net_inv_def)
  ultimately show ?thesis
    using assms(1) carries_mono [of "n_asked s" ?R A] unfolding net_inv_def by (auto; fast)
qed

lemma b_local_inv:
  assumes "net_inv A s" and "local_input i" and "handle_step A i (n_b s) = (h, es)"
  shows "net_inv A (s\<lparr>n_b := h, n_ba := n_ba s \<union> lines_of es\<rparr>)"
proof -
  let ?P = "\<lambda>f. ftype f \<noteq> ACK"
  have inv: "handle_inv (n_b s)" "all_out ?P (n_b s)" using assms(1) by (simp_all add: net_inv_def)
  have h: "h = fst (handle_step A i (n_b s))" "es = snd (handle_step A i (n_b s))" using assms(3) by simp_all
  have "all_out ?P h"
    unfolding h using inv creates_not_ack by (intro step_out) (auto simp: handle_inv_def)
  moreover have "\<exists>f. line_ok f \<and> answered (n_read s) f \<and> t = encode f @ [CHR 0x0A]" if tl: "t \<in> lines_of es" for t
  proof -
    obtain f where f: "f \<in> set (u_send_queue (n_b s)) \<union> set (u_ack_queue (n_b s))" "t = encode f @ [CHR 0x0A]"
      using local_events [OF assms(2), of "Wrote t" A "n_b s"] tl h(2) by (auto simp: lines_of_def)
    then have "line_ok f" using inv(1) by (auto simp: handle_inv_def out_ok_def)
    moreover have "answered (n_read s) f"
      using f(1) inv(2) assms(1) by (auto simp: all_out_def net_inv_def answered_def)
    ultimately show ?thesis using f(2) by blast
  qed
  moreover have "handle_inv h" "u_read_buffer h = []"
    using h assms(1) step_inv [OF inv(1), of A i] local_read_buffer [OF assms(2), of A]
    by (simp_all add: net_inv_def)
  moreover have "\<forall>f \<in> set (u_ack_queue h). answered (n_read s) f"
    using assms(1) local_ack_queue [OF assms(2), of A "n_b s"] by (auto simp: net_inv_def h)
  ultimately show ?thesis
    using assms(1) unfolding net_inv_def by auto
qed

lemma a_reads_inv:
  assumes "net_inv A s" and "t \<in> n_ba s" and "u_running (n_a s)"
    and "handle_step A (SerialRead False t) (n_a s) = (h, es)"
  shows "net_inv A (s\<lparr>n_a := h\<rparr>)"
proof -
  obtain f where f: "line_ok f" "t = encode f @ [CHR 0x0A]" using assms(1,2) by (auto simp: net_inv_def)
  have b: "u_read_buffer (n_a s) = []" "handle_inv (n_a s)" using assms(1) by (simp_all add: net_inv_def)
  have "h = fst (handle_received_frame A f (n_a s))"
    using read_whole_line(1) [OF f(1) assms(3) b(1) f(2), of A] assms(4) by simp
  then show ?thesis
    using assms(1) frame_keeps [OF b(2), of A f] received_out [of _ "n_a s" A f]
    by (simp add: net_inv_def keeps_def)
qed

lemma b_reads_inv:
  assumes "net_inv A s" and "t \<in> n_ab s" and "u_running (n_b s)"
    and "handle_step A (SerialRead False t) (n_b s) = (h, es)"
  shows "net_inv A (s\<lparr>n_b := h, n_routed := n_routed s \<union> routed_of es, n_read := n_read s \<union> data_of t\<rparr>)"
proof -
  obtain f where f: "line_ok f" "carries A (n_asked s) f" "t = encode f @ [CHR 0x0A]"
    using assms(1,2) by (auto simp: net_inv_def)
  have b: "u_read_buffer (n_b s) = []" "handle_inv (n_b s)" using assms(1) by (simp_all add: net_inv_def)
  have r: "h = fst (handle_received_frame A f (n_b s))" "es = snd (handle_received_frame A f (n_b s))"
    using read_whole_line(1) [OF f(1) assms(3) b(1) f(3), of A] assms(4) by simp_all
  have d: "data_of t = (if ftype f = DATA then {f} else {})"
    using read_whole_line(2) [OF f(1) assms(3) b(1) f(3)] .
  let ?F = "n_read s \<union> data_of t"
  have k1: "\<forall>r \<in> n_routed s \<union> routed_of es. \<exists>q \<in> n_asked s. parse_http_request A (serialize_http_request A q) = Some r"
  proof
    fix x assume x: "x \<in> n_routed s \<union> routed_of es"
    show "\<exists>q \<in> n_asked s. parse_http_request A (serialize_http_request A q) = Some x"
    proof (cases "x \<in> routed_of es")
      case True
      then have y: "ftype f = DATA" "parse_http_request A (map char_of_byte (payload f)) = Some x"
        using received_routed [of x A f "n_b s"] r(2) by (simp_all add: routed_of_def)
      then obtain q where "q \<in> n_asked s" "map char_of_byte (payload f) = serialize_http_request A q"
        using f(2) by (auto simp: carries_def)
      then show ?thesis using y(2) by metis
    next
      case False
      then show ?thesis using x assms(1) by (simp add: net_inv_def)
    qed
  qed
  have k2: "\<forall>g \<in> set (u_ack_queue h). answered ?F g"
  proof
    fix g assume "g \<in> set (u_ack_queue h)"
    then consider "g \<in> set (u_ack_queue (n_b s))" | "ftype f = DATA" "dst_id g = src_id f" "seq_no g = seq_no f"
      using received_acks [of g A f "n_b s"] r(1) by blast
    then show "answered ?F g"
    proof cases
      case 1
      then have "answered (n_read s) g" using assms(1) by (simp add: net_inv_def)
      then show ?thesis by (rule answered_mono [rotated]) simp
    next
      case 2
      then show ?thesis by (simp add: answered_def d)
    qed
  qed
  have k3: "\<forall>t \<in> n_ba s. \<exists>f. line_ok f \<and> answered ?F f \<and> t = encode f @ [CHR 0x0A]"
  proof -
    have "\<forall>t \<in> n_ba s. \<exists>f. line_ok f \<and> answered (n_read s) f \<and> t = encode f @ [CHR 0x0A]"
      using assms(1) by (simp add: net_inv_def)
    then show ?thesis using answered_mono [OF Un_upper1] by meson
  qed
  have k4: "\<forall>f \<in> ?F. ftype f = DATA"
    using assms(1) by (auto simp: net_inv_def data_of_def)
  have k5: "handle_inv h" "u_read_buffer h = []" "all_out (\<lambda>f. ftype f \<noteq> ACK) h"
    using frame_keeps [OF b(2), of A f] received_out [of _ "n_b s" A f] b(1) assms(1)
    by (simp_all add: keeps_def r(1) net_inv_def)
  show ?thesis
    using assms(1) k1 k2 k3 k4 k5 unfolding net_inv_def by simp
qed

lemma net_step_inv: "net_step A s s' \<Longrightarrow> net_inv A s \<Longrightarrow> net_inv A s'"
  by (erule net_stepE) (simp_all add: a_local_inv b_local_inv a_reads_inv b_reads_inv)

lemma net_init_inv: "net_inv A (net_init a b)"
  by (simp add: net_inv_def net_init_def all_out_def) (simp add: new_handle_def)

lemma net_reach_inv: "net_reach A a b s \<Longrightarrow> net_inv A s"
  by (induction rule: net_reach.induct) (auto intro: net_init_inv net_step_inv)

subsection \<open>A reachable exchange\<close>

lemma a_locals:
  assumes "net_reach A a b s" and "\<forall>i \<in> set xs. local_input i" and "handle_steps A xs (n_a s) = (h, es)"
  shows "net_reach A a b (s\<lparr>n_a := h, n_ab := n_ab s \<union> lines_of es,
    n_asked := n_asked s \<union> \<Union> (request_of ` set xs)\<rparr>)"
  using assms
proof (induction xs arbitrary: s es)
  case Nil
  then have "s\<lparr>n_a := h, n_ab := n_ab s \<union> lines_of es, n_asked := n_asked s \<union> \<Union> (request_of ` set [])\<rparr> = s"
    by (simp add: lines_of_def)
  then show ?case using Nil by simp
next
  case (Cons i xs)
  obtain h1 e1 where 1: "handle_step A i (n_a s) = (h1, e1)" by (cases "handle_step A i (n_a s)")
  obtain e2 where 2: "handle_steps A xs h1 = (h, e2)" "es = e1 @ e2"
    using Cons.prems(3) 1 by (auto simp: Let_def split: prod.splits)
  let ?s = "s\<lparr>n_a := h1, n_ab := n_ab s \<union> lines_of e1, n_asked := n_asked s \<union> request_of i\<rparr>"
  have "net_reach A a b ?s"
    using Cons.prems(1,2) 1 by (intro net_reach.step [OF _ a_local]) auto
  then have "net_reach A a b (?s\<lparr>n_a := h, n_ab := n_ab ?s \<union> lines_of e2,
      n_asked := n_asked ?s \<union> \<Union> (request_of ` set xs)\<rparr>)"
    using Cons.prems(2) 2(1) by (intro Cons.IH) simp_all
  moreover have "lines_of es = lines_of e1 \<union> lines_of e2" by (auto simp: lines_of_def 2(2))
  ultimately show ?case by (simp add: Un_assoc)
qed

lemma b_locals:
  assumes "net_reach A a b s" and "\<forall>i \<in> set xs. local_input i" and "handle_steps A xs (n_b s) = (h, es)"
  shows "net_reach A a b (s\<lparr>n_b := h, n_ba := n_ba s \<union> lines_of es\<rparr>)"
  using assms
proof (induction xs arbitrary: s es)
  case Nil
  then have "s\<lparr>n_b := h, n_ba := n_ba s \<union> lines_of es\<rparr> = s" by (simp add: lines_of_def)
  then show ?case using Nil by simp
next
  case (Cons i xs)
  obtain h1 e1 where 1: "handle_step A i (n_b s) = (h1, e1)" by (cases "handle_step A i (n_b s)")
  obtain e2 where 2: "handle_steps A xs h1 = (h, e2)" "es = e1 @ e2"
    using Cons.prems(3) 1 by (auto simp: Let_def split: prod.splits)
  let ?s = "s\<lparr>n_b := h1, n_ba := n_ba s \<union> lines_of e1\<rparr>"
  have "net_reach A a b ?s"
    using Cons.prems(1,2) 1 by (intro net_reach.step [OF _ b_local]) auto
  then have "net_reach A a b (?s\<lparr>n_b := h, n_ba := n_ba ?s \<union> lines_of e2\<rparr>)"
    using Cons.prems(2) 2(1) by (intro Cons.IH) simp_all
  moreover have "lines_of es = lines_of e1 \<union> lines_of e2" by (auto simp: lines_of_def 2(2))
  ultimately show ?case by (simp add: Un_assoc)
qed

lemma read_writes_nothing: "Wrote t \<notin> set (snd (handle_read A ec bs h))"
  by (auto simp: handle_read_def handle_received_frame_def handle_ack_def Let_def dest!: notify_events
      split: option.split prod.split)

lemma exchange_reachable:
  "\<exists>s. net_reach list_http 1 2 s \<and> sample_request \<in> n_routed s \<and>
     encode (mk_frame 2 1 1 ACK []) @ [CHR 0x0A] \<in> n_ba s"
proof -
  let ?A = "list_http" and ?ha = "handle_run True True (new_handle 1)" and ?hb = "handle_run True True (new_handle 2)"
  obtain data ack s1 d1 s2 where x: "sample_exchange ?ha ?hb data ack s1 d1 s2"
    using sample_exchange_ex by blast
  obtain m e1 where m: "handle_step ?A (SerialRead False data) ?hb = (m, e1)"
    by (cases "handle_step ?A (SerialRead False data) ?hb")
  obtain e2 where e2: "handle_steps ?A [SlotBegin (\<lambda>_. True)] m = (d1, e2)" "e1 @ e2 = [Routed sample_request, Wrote ack]"
    using x m by (auto simp: sample_exchange_def Let_def split: prod.splits)
  have r2: "Routed sample_request \<notin> set e2"
    using local_events [of "SlotBegin (\<lambda>_. True)" "Routed sample_request" ?A m] e2(1)
    by (auto simp: Let_def split: prod.splits)
  then have r1: "Routed sample_request \<in> set e1" using e2(2) by (metis Un_iff list.set_intros(1) set_append)
  let ?s0 = "net_init 1 2 :: request net"
  have "net_reach ?A 1 2 ?s0" by (rule net_reach.init)
  then have "net_reach ?A 1 2 (?s0\<lparr>n_a := s1, n_ab := n_ab ?s0 \<union> lines_of [Wrote data :: request event],
      n_asked := n_asked ?s0 \<union> \<Union> (request_of ` set ([RunReq True True] @
        [SendReq sample_request 2 (Some 9) 0, SlotBegin (\<lambda>_. True)]))\<rparr>)"
    using x by (intro a_locals [where s = ?s0 and h = s1]) (auto simp: net_init_def sample_exchange_def)
  then obtain sa where sa: "net_reach ?A 1 2 sa" "data \<in> n_ab sa" "n_b sa = new_handle 2"
    by (auto simp: lines_of_def net_init_def)
  have "net_reach ?A 1 2 (sa\<lparr>n_b := ?hb, n_ba := n_ba sa \<union> lines_of ([] :: request event list)\<rparr>)"
    using sa by (intro b_locals [where xs = "[RunReq True True]"]) simp_all
  then obtain sb where sb: "net_reach ?A 1 2 sb" "data \<in> n_ab sb" "n_b sb = ?hb" using sa(2) by auto
  have "net_reach ?A 1 2 (sb\<lparr>n_b := m, n_routed := n_routed sb \<union> routed_of e1, n_read := n_read sb \<union> data_of data\<rparr>)"
    using sb m initial_run_facts(1) [of 2] by (intro net_reach.step [OF sb(1)] b_reads) simp_all
  then obtain sc where sc: "net_reach ?A 1 2 sc" "sample_request \<in> n_routed sc" "n_b sc = m"
    using r1 by (auto simp: routed_of_def)
  have d: "net_reach ?A 1 2 (sc\<lparr>n_b := d1, n_ba := n_ba sc \<union> lines_of e2\<rparr>)"
    using sc e2(1) by (intro b_locals [where xs = "[SlotBegin (\<lambda>_. True)]"]) simp_all
  have "Wrote ack \<notin> set e1"
    using read_writes_nothing [of ack ?A False data ?hb] m by simp
  then have "Wrote ack \<in> set e2" using e2(2) by (metis Un_iff list.set_intros set_append)
  then have "ack \<in> lines_of e2" by (simp add: lines_of_def)
  then show ?thesis using d sc(2) x by (auto simp: sample_exchange_def)
qed

text \<open>
  C4: No request is made up: in every reachable state of the two-node network, each request the second
  node handed to its router is what parsing gives of a request that the first node was asked to send,
  whatever was lost, delayed, repeated or reordered.
\<close>

theorem no_forged_request:
  assumes "net_reach A a b s" and "r \<in> n_routed s"
  shows "\<exists>q \<in> n_asked s. parse_http_request A (serialize_http_request A q) = Some r"
  using net_reach_inv [OF assms(1)] assms(2) by (simp add: net_inv_def)

theorem no_forged_request_witness:
  "\<exists>s. net_reach list_http 1 2 s \<and> sample_request \<in> n_routed s \<and> (\<exists>q \<in> n_asked s.
     parse_http_request list_http (serialize_http_request list_http q) = Some sample_request)"
proof -
  obtain s where s: "net_reach list_http 1 2 s" "sample_request \<in> n_routed s"
    using exchange_reachable by blast
  show ?thesis using s no_forged_request [OF s] by blast
qed

text \<open>
  An acknowledgement means receipt: in every reachable state, a line of the second node that decodes
  to an acknowledgement answers a data frame with that number which the second node has read.
\<close>

theorem ack_means_received:
  assumes "net_reach A a b s" and "t \<in> n_ba s"
    and "decode (strip_cr (fst (getline t))) = Some f" and "ftype f = ACK"
  shows "\<exists>g \<in> n_read s. ftype g = DATA \<and> src_id g = dst_id f \<and> seq_no g = seq_no f"
proof -
  have inv: "net_inv A s" by (rule net_reach_inv [OF assms(1)])
  obtain g where g: "line_ok g" "answered (n_read s) g" "t = encode g @ [CHR 0x0A]"
    using inv assms(2) by (auto simp: net_inv_def)
  then have "f = g" using uwb_line.decode_line [OF g(1), of "[]"] assms(3) by simp
  then obtain e where "e \<in> n_read s" "dst_id f = src_id e" "seq_no f = seq_no e"
    using g(2) assms(4) by (auto simp: answered_def)
  then show ?thesis using inv by (auto simp: net_inv_def)
qed

theorem ack_means_received_witness:
  "\<exists>s. net_reach list_http 1 2 s \<and> (\<exists>g \<in> n_read s. ftype g = DATA \<and> src_id g = 1 \<and> seq_no g = 1)"
proof -
  let ?f = "mk_frame 2 1 1 ACK []"
  obtain s where s: "net_reach list_http 1 2 s" "encode ?f @ [CHR 0x0A] \<in> n_ba s"
    using exchange_reachable by blast
  have "decode (strip_cr (fst (getline (encode ?f @ [CHR 0x0A])))) = Some ?f"
    using uwb_line.decode_line [of ?f "[]"] by (simp add: ack_frame_line_ok)
  from ack_means_received [OF s this] show ?thesis using s(1) by auto
qed

end
