(* ===== verification/RouteMap.thy ===== *)
theory RouteMap
  imports Prelude
begin

text \<open>
  The routing table, \<open>Map\<close> of \<open>src/Master/src/interface/Map.cpp\<close>: hosts are numbered (the local one
  is 0), a matrix holds the link of each pair, and \<open>getRoute\<close> is Dijkstra's algorithm on \<open>int\<close>
  distances with \<open>INT_MAX\<close> for unreached, followed by a walk along the parents to the first hop.
  The configuration file is modelled as the values that the JSON accessors return.
\<close>

subsection \<open>Configuration\<close>

record iface_cfg =
  ic_name :: string
  ic_type :: string
  ic_segment :: int
  ic_node_id :: nat

record host_cfg =
  hc_name :: string
  hc_interfaces :: "iface_cfg list"

record config =
  cf_hosts :: "host_cfg list"
  cf_map :: "(string \<times> string \<times> int) list"
  cf_launch :: "string list"

subsection \<open>State\<close>

record link =
  segment :: int
  weight :: int
  initWeight :: int

definition no_link :: link where
  "no_link = \<lparr>segment = - 1, weight = 0, initWeight = 0\<rparr>"

record route_map =
  key2node :: "(nat, string) umap"
  node2key :: "(string, nat) umap"
  segment2node :: "(int, nat list) umap"
  links :: "link list list"
  segment2interface :: "(int, string) umap list"

definition empty_map :: route_map where
  "empty_map = \<lparr>key2node = [], node2key = [], segment2node = [], links = [], segment2interface = []\<rparr>"

subsection \<open>Initialisation\<close>

definition get_link :: "link list list \<Rightarrow> nat \<Rightarrow> nat \<Rightarrow> link" where
  "get_link L a b = L ! a ! b"

definition upd_link :: "(link \<Rightarrow> link) \<Rightarrow> nat \<Rightarrow> nat \<Rightarrow> link list list \<Rightarrow> link list list" where
  "upd_link f a b L = L[a := (L ! a)[b := f (L ! a ! b)]]"

definition resize :: "'a \<Rightarrow> nat \<Rightarrow> 'a list \<Rightarrow> 'a list" where
  "resize d n xs = take n xs @ replicate (n - length xs) d"

text \<open>\<open>segment2node[segment].push_back(k)\<close>\<close>

definition push_node :: "nat \<Rightarrow> int \<Rightarrow> (int, nat list) umap \<Rightarrow> (int, nat list) umap" where
  "push_node k seg m = (let (v, m) = um_index [] seg m in um_put seg (v @ [k]) m)"

fun add_interfaces :: "nat \<Rightarrow> iface_cfg list \<Rightarrow> (int, string) umap \<Rightarrow> route_map \<Rightarrow> (int, string) umap \<times> route_map" where
  "add_interfaces k [] s2i m = (s2i, m)"
| "add_interfaces k (i # is) s2i m =
     add_interfaces k is (um_put (ic_segment i) (ic_name i) s2i)
       (m\<lparr>segment2node := push_node k (ic_segment i) (segment2node m)\<rparr>)"

definition add_host :: "nat \<Rightarrow> host_cfg \<Rightarrow> route_map \<Rightarrow> route_map" where
  "add_host k h m =
     (let m = m\<lparr>key2node := um_put k (hc_name h) (key2node m),
                node2key := um_put (hc_name h) k (node2key m)\<rparr>;
          (s2i, m) = add_interfaces k (hc_interfaces h) [] m
      in m\<lparr>segment2interface := segment2interface m @ [s2i]\<rparr>)"

text \<open>The first loop stops at the first host with the local name.\<close>

fun init_local :: "string \<Rightarrow> host_cfg list \<Rightarrow> route_map \<Rightarrow> route_map" where
  "init_local localhost [] m = m"
| "init_local localhost (h # hs) m =
     (if hc_name h = localhost then add_host 0 h m else init_local localhost hs m)"

fun init_others :: "string \<Rightarrow> host_cfg list \<Rightarrow> nat \<Rightarrow> route_map \<Rightarrow> nat \<times> route_map" where
  "init_others localhost [] i m = (i, m)"
| "init_others localhost (h # hs) i m =
     (if hc_name h \<noteq> localhost then init_others localhost hs (Suc i) (add_host (Suc i) h m)
      else init_others localhost hs i m)"

definition connect :: "int \<Rightarrow> nat \<Rightarrow> nat \<Rightarrow> link list list \<Rightarrow> link list list" where
  "connect seg a b L =
     upd_link (\<lambda>_. \<lparr>segment = seg, weight = 1, initWeight = 1\<rparr>) b a
       (upd_link (\<lambda>_. \<lparr>segment = seg, weight = 1, initWeight = 1\<rparr>) a b L)"

text \<open>All pairs \<open>j < k\<close> of the nodes on a segment.\<close>

fun connect_all :: "int \<Rightarrow> nat list \<Rightarrow> link list list \<Rightarrow> link list list" where
  "connect_all seg [] L = L"
| "connect_all seg (a # as) L = connect_all seg as (fold (\<lambda>b. connect seg a b) as L)"

definition set_both :: "(link \<Rightarrow> link) \<Rightarrow> nat \<Rightarrow> nat \<Rightarrow> link list list \<Rightarrow> link list list" where
  "set_both f a b L = upd_link f b a (upd_link f a b L)"

fun apply_map :: "(string \<times> string \<times> int) list \<Rightarrow> route_map \<Rightarrow> route_map" where
  "apply_map [] m = m"
| "apply_map ((src, dest, w) # es) m =
     (let (a, n2k) = um_index 0 src (node2key m);
          (b, n2k) = um_index 0 dest n2k
      in apply_map es (m\<lparr>node2key := n2k,
           links := set_both (\<lambda>l. l\<lparr>weight := w, initWeight := w\<rparr>) a b (links m)\<rparr>))"

definition map_init :: "config \<Rightarrow> string \<Rightarrow> route_map \<Rightarrow> route_map" where
  "map_init cfg localhost m =
     (let m = init_local localhost (cf_hosts cfg) m;
          (i, m) = init_others localhost (cf_hosts cfg) 0 m;
          L = map (resize no_link (i + 1)) (resize [] (i + 1) (links m));
          L = fold (\<lambda>(seg, value) L. connect_all seg value L) (segment2node m) L
      in apply_map (cf_map cfg) (m\<lparr>links := L\<rparr>))"

subsection \<open>Weights\<close>

definition map_setMaxWeight :: "string \<Rightarrow> string \<Rightarrow> route_map \<Rightarrow> route_map" where
  "map_setMaxWeight host1 host2 m =
     (let (src, n2k) = um_index 0 host1 (node2key m);
          (dest, n2k) = um_index 0 host2 n2k
      in m\<lparr>node2key := n2k, links := set_both (\<lambda>l. l\<lparr>weight := INT_MAX - 1\<rparr>) src dest (links m)\<rparr>)"

definition map_setInitWeight :: "string \<Rightarrow> string \<Rightarrow> route_map \<Rightarrow> route_map" where
  "map_setInitWeight host1 host2 m =
     (let (src, n2k) = um_index 0 host1 (node2key m);
          (dest, n2k) = um_index 0 host2 n2k
      in m\<lparr>node2key := n2k, links := set_both (\<lambda>l. l\<lparr>weight := initWeight l\<rparr>) src dest (links m)\<rparr>)"

subsection \<open>Routes\<close>

text \<open>The unvisited node of the smallest distance below \<open>INT_MAX\<close>, the first of several.\<close>

fun pick :: "bool list \<Rightarrow> int list \<Rightarrow> nat list \<Rightarrow> int \<Rightarrow> nat option \<Rightarrow> nat option" where
  "pick visited distance [] minDistance minIndex = minIndex"
| "pick visited distance (i # is) minDistance minIndex =
     (if \<not> visited ! i \<and> distance ! i < minDistance
      then pick visited distance is (distance ! i) (Some i)
      else pick visited distance is minDistance minIndex)"

fun relax :: "link list list \<Rightarrow> nat \<Rightarrow> bool list \<Rightarrow> nat list \<Rightarrow> int list \<Rightarrow> nat option list \<Rightarrow>
    error + int list \<times> nat option list" where
  "relax L u visited [] distance parent = Inr (distance, parent)"
| "relax L u visited (i # is) distance parent =
     (if \<not> visited ! i \<and> 0 < weight (get_link L u i) then
        (case add_int (distance ! u) (weight (get_link L u i)) of
           Inl e \<Rightarrow> Inl e
         | Inr d \<Rightarrow>
             if d < distance ! i then relax L u visited is (distance[i := d]) (parent[i := Some u])
             else relax L u visited is distance parent)
      else relax L u visited is distance parent)"

lemma pick_Some:
  assumes "pick V d is m k = Some u"
  shows "k = Some u \<or> u \<in> set is \<and> \<not> V ! u"
  using assms by (induction "is" arbitrary: m k) (auto split: if_splits)

function (sequential) search :: "link list list \<Rightarrow> bool list \<Rightarrow> int list \<Rightarrow> nat option list \<Rightarrow>
    error + bool list \<times> int list \<times> nat option list" where
  "search L visited distance parent =
     (case pick visited distance [0..<length visited] INT_MAX None of
        None \<Rightarrow> Inr (visited, distance, parent)
      | Some u \<Rightarrow>
          (case relax L u (visited[u := True]) [0..<length visited] distance parent of
             Inl e \<Rightarrow> Inl e
           | Inr (distance, parent) \<Rightarrow> search L (visited[u := True]) distance parent))"
  by pat_completeness auto

lemma unvisited_decreases:
  "u < length V \<Longrightarrow> \<not> V ! u \<Longrightarrow> length (filter Not (V[u := True])) < length (filter Not V)"
proof (induction V arbitrary: u)
  case (Cons b V)
  then show ?case by (cases u) auto
qed simp

termination search
proof (relation "measure (\<lambda>(L, V, d, p). length (filter Not V))")
  fix L :: "link list list" and V :: "bool list" and d p u x y z
  assume "pick V d [0..<length V] INT_MAX None = Some u"
  then have "u < length V" "\<not> V ! u" using pick_Some by fastforce+
  then show "((L, V[u := True], y, z), L, V, d, p) \<in> measure (\<lambda>(L, V, d, p). length (filter Not V))"
    using unvisited_decreases by simp
qed simp

declare search.simps [simp del]

type_synonym routes = "(string, string \<times> string) umap"

text \<open>The loop along the parents, with fuel for the number of nodes.\<close>

fun walk_back :: "route_map \<Rightarrow> nat option list \<Rightarrow> nat \<Rightarrow> nat \<Rightarrow> nat \<Rightarrow> nat option \<Rightarrow> routes \<Rightarrow> error + routes" where
  "walk_back m parent fuel i cur None route = Inr route"
| "walk_back m parent 0 i cur (Some par) route = Inl NoReturn"
| "walk_back m parent (Suc fuel) i cur (Some par) route =
     (if par = 0 then
        (if length (segment2interface m) \<le> par \<or> length (segment2interface m) \<le> cur then Inl OutOfBounds
         else
           let seg = segment (get_link (links m) par cur);
               entry = (um_at [] (segment2interface m ! par) seg, um_at [] (segment2interface m ! cur) seg)
           in walk_back m parent fuel i par (parent ! par) (um_put (um_at [] (key2node m) i) entry route))
      else walk_back m parent fuel i par (parent ! par) route)"

fun collect :: "route_map \<Rightarrow> bool list \<Rightarrow> nat option list \<Rightarrow> nat list \<Rightarrow> routes \<Rightarrow> error + routes" where
  "collect m visited parent [] route = Inr route"
| "collect m visited parent (i # is) route =
     (if visited ! i then
        (case walk_back m parent (length (links m)) i i (parent ! i) route of
           Inl e \<Rightarrow> Inl e
         | Inr route \<Rightarrow> collect m visited parent is route)
      else collect m visited parent is route)"

definition getRoute :: "route_map \<Rightarrow> error + routes" where
  "getRoute m =
     (let n = length (links m) in
      if n = 0 then Inl OutOfBounds
      else
        (case search (links m) (replicate n False) ((replicate n INT_MAX)[0 := 0]) (replicate n None) of
           Inl e \<Rightarrow> Inl e
         | Inr (visited, distance, parent) \<Rightarrow> collect m visited parent [1..<n] []))"

end
