(* ===== verification/RouteProof.thy ===== *)
theory RouteProof
  imports RouteMap
begin

text \<open>
  Correctness of \<open>getRoute\<close>: the loop invariant of the search, the walk along the parents, and the
  theorems that the table holds a first hop of a shortest path for exactly the hosts within reach.
\<close>

subsection \<open>Paths\<close>

text \<open>\<open>path W n u v x\<close>: the nodes \<open>u\<close> and \<open>v\<close> are joined by links of total weight \<open>x\<close>.\<close>

inductive path :: "(nat \<Rightarrow> nat \<Rightarrow> int) \<Rightarrow> nat \<Rightarrow> nat \<Rightarrow> nat \<Rightarrow> int \<Rightarrow> bool" for W n u where
  here: "u < n \<Longrightarrow> path W n u u 0"
| link: "path W n u v x \<Longrightarrow> v' < n \<Longrightarrow> 0 < W v v' \<Longrightarrow> path W n u v' (x + W v v')"

lemma path_nonneg: "path W n u v x \<Longrightarrow> 0 \<le> x"
  by (induction rule: path.induct) simp_all

lemma path_bound: "path W n u v x \<Longrightarrow> v < n"
  by (induction rule: path.induct) simp_all

lemma path_first:
  assumes "path W n b v x" and "0 < W a b" and "a < n"
  shows "path W n a v (W a b + x)"
  using assms(1)
proof (induction rule: path.induct)
  case here
  then show ?case using path.link [OF path.here [of a n W], of b] assms(2,3) by simp
next
  case (link v x v')
  then show ?case using path.link [of W n a v "W a b + x" v'] by (simp add: add.assoc)
qed

subsection \<open>The two loops\<close>

abbreviation wt :: "link list list \<Rightarrow> nat \<Rightarrow> nat \<Rightarrow> int" where
  "wt L a b \<equiv> weight (get_link L a b)"

lemma pick_spec:
  "pick V d is m k = k \<and> (\<forall>i \<in> set is. V ! i \<or> m \<le> d ! i) \<or>
   (\<exists>u \<in> set is. pick V d is m k = Some u \<and> \<not> V ! u \<and> d ! u < m \<and> (\<forall>i \<in> set is. V ! i \<or> d ! u \<le> d ! i))"
proof (induction "is" arbitrary: m k)
  case (Cons i "is")
  show ?case
  proof (cases "\<not> V ! i \<and> d ! i < m")
    case True
    then show ?thesis using Cons.IH [of "d ! i" "Some i"] by auto
  next
    case False
    then have e: "pick V d (i # is) m k = pick V d is m k" by (simp only: pick.simps if_False)
    show ?thesis using Cons.IH [of m k] False unfolding e by auto
  qed
qed simp

lemma relax_spec:
  assumes "relax L u V is d p = Inr (d', p')" and "distinct is" and "V ! u"
    and "\<forall>i \<in> set is. i < length d \<and> i < length p" 
  shows "length d' = length d \<and> length p' = length p \<and>
    (\<forall>j. d' ! j = (if j \<in> set is \<and> \<not> V ! j \<and> 0 < wt L u j \<and> d ! u + wt L u j < d ! j
                   then d ! u + wt L u j else d ! j) \<and>
         p' ! j = (if j \<in> set is \<and> \<not> V ! j \<and> 0 < wt L u j \<and> d ! u + wt L u j < d ! j
                   then Some u else p ! j))"
  using assms
proof (induction "is" arbitrary: d p)
  case (Cons i "is")
  show ?case
  proof (cases "\<not> V ! i \<and> 0 < wt L u i \<and> d ! u + wt L u i < d ! i")
    case True
    then have u: "u \<noteq> i" using Cons.prems(3) by auto
    have r: "relax L u V is (d[i := d ! u + wt L u i]) (p[i := Some u]) = Inr (d', p')"
      using Cons.prems(1) True by (auto simp: add_int_def split: if_splits)
    have ih: "length d' = length d \<and> length p' = length p \<and>
      (\<forall>j. d' ! j = (if j \<in> set is \<and> \<not> V ! j \<and> 0 < wt L u j \<and> d ! u + wt L u j < (d[i := d ! u + wt L u i]) ! j
                   then d ! u + wt L u j else (d[i := d ! u + wt L u i]) ! j) \<and>
         p' ! j = (if j \<in> set is \<and> \<not> V ! j \<and> 0 < wt L u j \<and> d ! u + wt L u j < (d[i := d ! u + wt L u i]) ! j
                   then Some u else (p[i := Some u]) ! j))"
      using Cons.IH [OF r] Cons.prems u by simp
    show ?thesis
    proof (intro conjI allI)
      show "length d' = length d" "length p' = length p" using ih by simp_all
    next
      fix j
      show "d' ! j = (if j \<in> set (i # is) \<and> \<not> V ! j \<and> 0 < wt L u j \<and> d ! u + wt L u j < d ! j
          then d ! u + wt L u j else d ! j)"
        using ih Cons.prems(2,4) True by (cases "j = i") auto
      show "p' ! j = (if j \<in> set (i # is) \<and> \<not> V ! j \<and> 0 < wt L u j \<and> d ! u + wt L u j < d ! j
          then Some u else p ! j)"
        using ih Cons.prems(2,4) True by (cases "j = i") auto
    qed
  next
    case False
    have r: "relax L u V is d p = Inr (d', p')"
      using Cons.prems(1) False by (auto simp: add_int_def split: if_splits)
    show ?thesis
      using Cons.IH [OF r] Cons.prems(2-4) False by auto
  qed
qed simp

lemma relax_no_overflow:
  assumes "0 \<le> d ! u" and "\<forall>i \<in> set is. 0 < wt L u i \<longrightarrow> d ! u + wt L u i \<le> INT_MAX"
    and "V ! u" and "\<forall>i \<in> set is. i < length d"
  shows "\<exists>r. relax L u V is d p = Inr r"
  using assms
proof (induction "is" arbitrary: d p)
  case (Cons i "is")
  show ?case
  proof (cases "\<not> V ! i \<and> 0 < wt L u i")
    case True
    then have u: "u \<noteq> i" using Cons.prems(3) by auto
    have a: "add_int (d ! u) (wt L u i) = Inr (d ! u + wt L u i)"
      using Cons.prems(1,2) True by (simp add: add_int_def INT_MIN_def)
    show ?thesis
      using Cons.IH [of d p] Cons.IH [of "d[i := d ! u + wt L u i]" "p[i := Some u]"] Cons.prems True u
      by (simp add: a)
  next
    case False
    then show ?thesis using Cons.IH [of d p] Cons.prems by auto
  qed
qed simp

subsection \<open>The invariant of the search\<close>

definition search_inv :: "link list list \<Rightarrow> nat \<Rightarrow> bool list \<Rightarrow> int list \<Rightarrow> nat option list \<Rightarrow> bool" where
  "search_inv L n V d p \<longleftrightarrow>
     0 < n \<and> length V = n \<and> length d = n \<and> length p = n \<and> d ! 0 = 0 \<and> p ! 0 = None \<and>
     (\<forall>v < n. 0 \<le> d ! v \<and> d ! v \<le> INT_MAX) \<and>
     (\<forall>v < n. \<forall>u. p ! v = Some u \<longrightarrow> u < n \<and> V ! u \<and> 0 < wt L u v \<and> d ! v = d ! u + wt L u v) \<and>
     (\<forall>v < n. v \<noteq> 0 \<longrightarrow> p ! v = None \<longrightarrow> d ! v = INT_MAX) \<and>
     (\<forall>u < n. V ! u \<longrightarrow> d ! u < INT_MAX) \<and>
     (\<forall>u < n. V ! u \<longrightarrow> (\<forall>v < n. 0 < wt L u v \<longrightarrow> d ! v \<le> d ! u + wt L u v)) \<and>
     (\<forall>u < n. V ! u \<longrightarrow> (\<forall>v < n. \<not> V ! v \<longrightarrow> d ! u \<le> d ! v))"

lemma search_inv_init:
  "0 < n \<Longrightarrow> search_inv L n (replicate n False) ((replicate n INT_MAX)[0 := 0]) (replicate n None)"
  by (auto simp: search_inv_def INT_MAX_def nth_list_update)

lemma search_inv_step:
  assumes "search_inv L n V d p" and "pick V d [0..<length V] INT_MAX None = Some u"
    and "relax L u (V[u := True]) [0..<length V] d p = Inr (d', p')"
  shows "search_inv L n (V[u := True]) d' p'"
proof -
  let ?V = "V[u := True]"
  have len: "length V = n" "length d = n" "length p = n" "0 < n" using assms(1) by (simp_all add: search_inv_def)
  have u: "u < n" "\<not> V ! u" "d ! u < INT_MAX" "\<forall>i < n. V ! i \<or> d ! u \<le> d ! i"
    using pick_spec [of V d "[0..<length V]" INT_MAX None] assms(2) len by auto
  have r: "length d' = n" "length p' = n"
    "\<And>j. d' ! j = (if j < n \<and> \<not> ?V ! j \<and> 0 < wt L u j \<and> d ! u + wt L u j < d ! j then d ! u + wt L u j else d ! j)"
    "\<And>j. p' ! j = (if j < n \<and> \<not> ?V ! j \<and> 0 < wt L u j \<and> d ! u + wt L u j < d ! j then Some u else p ! j)"
    using relax_spec [OF assms(3)] len u by simp_all
  have V: "\<And>j. j < n \<Longrightarrow> ?V ! j \<longleftrightarrow> V ! j \<or> j = u" using len u by (simp add: nth_list_update)
  have old: "\<And>j. j < n \<Longrightarrow> ?V ! j \<Longrightarrow> d' ! j = d ! j" using r(3) by simp
  have i0: "d ! 0 = 0" "p ! 0 = None" using assms(1) by (simp_all add: search_inv_def)
  have i1: "0 \<le> d ! v" "d ! v \<le> INT_MAX" if "v < n" for v using assms(1) that by (simp_all add: search_inv_def)
  have i2: "w < n" "V ! w" "0 < wt L w v" "d ! v = d ! w + wt L w v" if "v < n" "p ! v = Some w" for v w
    using assms(1) that by (simp_all add: search_inv_def)
  have i3: "d ! v = INT_MAX" if "v < n" "v \<noteq> 0" "p ! v = None" for v using assms(1) that by (simp add: search_inv_def)
  have i4: "d ! w < INT_MAX" if "w < n" "V ! w" for w using assms(1) that by (simp add: search_inv_def)
  have i5: "d ! v \<le> d ! w + wt L w v" if "w < n" "V ! w" "v < n" "0 < wt L w v" for v w
    using assms(1) that by (simp add: search_inv_def)
  have i6: "d ! w \<le> d ! v" if "w < n" "V ! w" "v < n" "\<not> V ! v" for v w
    using assms(1) that by (simp add: search_inv_def)
  have nu: "d ! u + wt L u v < d ! v \<Longrightarrow> 0 < wt L u v \<Longrightarrow> v < n \<Longrightarrow> \<not> V ! v \<and> v \<noteq> u" for v
    using i6 [OF _ _ u(1,2), of v] by force
  have a1: "d' ! 0 = 0" "p' ! 0 = None"
  proof -
    have "\<not> (0 < wt L u 0 \<and> d ! u + wt L u 0 < d ! 0)" using i1(1) [OF u(1)] i0 by linarith
    then show "d' ! 0 = 0" "p' ! 0 = None" using r(3,4) [of 0] i0 by auto
  qed
  have a2: "0 \<le> d' ! v \<and> d' ! v \<le> INT_MAX" if "v < n" for v
    using i1 [OF that] i1(1) [OF u(1)] r(3) [of v] by (simp split: if_splits)
  have low: "d' ! v \<le> d ! v" for v using r(3) [of v] by (simp split: if_splits)
  have a3: "w < n \<and> ?V ! w \<and> 0 < wt L w v \<and> d' ! v = d' ! w + wt L w v" if v: "v < n" "p' ! v = Some w" for v w
  proof (cases "\<not> ?V ! v \<and> 0 < wt L u v \<and> d ! u + wt L u v < d ! v")
    case True
    then have "w = u" "d' ! v = d ! u + wt L u v" using r(3,4) [of v] v by simp_all
    then show ?thesis using True u(1) V [OF u(1)] old [OF u(1)] by simp
  next
    case False
    then have "p ! v = Some w" "d' ! v = d ! v" using r(3,4) [of v] v by auto
    then show ?thesis using i2 [OF v(1)] V old by simp
  qed
  have a4: "d' ! v = INT_MAX" if "v < n" "v \<noteq> 0" "p' ! v = None" for v
    using i3 [OF that(1,2)] that(3) r(3,4) [of v] by (simp split: if_splits)
  have a5: "d' ! w < INT_MAX" if "w < n" "?V ! w" for w
    using i4 [OF that(1)] u(3) old [OF that] V [OF that(1)] that(2) by auto
  have a6: "d' ! v \<le> d' ! w + wt L w v" if "w < n" "?V ! w" "v < n" "0 < wt L w v" for w v
  proof (cases "w = u")
    case False
    then have "V ! w" using that(2) V [OF that(1)] by simp
    then show ?thesis using i5 [OF that(1) _ that(3,4)] low [of v] old [OF that(1,2)] by simp
  next
    case True
    then have e: "d' ! w = d ! u" using old [OF that(1,2)] by simp
    show ?thesis
    proof (cases "?V ! v")
      case True
      then have "d ! v \<le> d ! u" using V [OF that(3)] i6 [OF that(3) _ u(1,2)] by auto
      then show ?thesis using low [of v] e that(4) by linarith
    next
      case False
      then show ?thesis using r(3) [of v] e \<open>w = u\<close> that(3,4) by auto
    qed
  qed
  have a7: "d' ! w \<le> d' ! v" if "w < n" "?V ! w" "v < n" "\<not> ?V ! v" for w v
  proof -
    have v: "\<not> V ! v" using that(4) V [OF that(3)] by simp
    have wu: "d ! w \<le> d ! u" using V [OF that(1)] that(2) i6 [OF that(1) _ u(1,2)] by auto
    have "d ! u \<le> d ! v" using u(4) that(3) v by blast
    then have "d ! u \<le> d' ! v" using r(3) [of v] by (simp split: if_splits)
    then show ?thesis using wu old [OF that(1,2)] by simp
  qed
  show ?thesis
    unfolding search_inv_def using len r(1,2) a1 a2 a3 a4 a5 a6 a7 by simp
qed

lemma search_spec:
  assumes "search_inv L n V d p" and "search L V d p = Inr (V', d', p')"
  shows "search_inv L n V' d' p' \<and> (\<forall>v < n. \<not> V' ! v \<longrightarrow> d' ! v = INT_MAX)"
  using assms
proof (induction L V d p rule: search.induct)
  case (1 L V d p)
  show ?case
  proof (cases "pick V d [0..<length V] INT_MAX None")
    case None
    then have e: "V' = V" "d' = d" "p' = p" using 1(3) by (simp_all add: search.simps [of L V d p])
    have "\<forall>v < n. V ! v \<or> INT_MAX \<le> d ! v"
      using pick_spec [of V d "[0..<length V]" INT_MAX None] None 1(2) by (auto simp: search_inv_def)
    then show ?thesis using 1(2) e by (fastforce simp: search_inv_def)
  next
    case (Some u)
    obtain dd pp where r: "relax L u (V[u := True]) [0..<length V] d p = Inr (dd, pp)"
      using 1(3) Some by (auto simp: search.simps [of L V d p] split: sum.splits)
    have "search L (V[u := True]) dd pp = Inr (V', d', p')"
      using 1(3) Some r by (simp add: search.simps [of L V d p])
    then show ?thesis using 1(1) [OF Some r refl] search_inv_step [OF 1(2) Some r] by simp
  qed
qed

text \<open>Enough room for the weights: no sum of the search exceeds \<open>INT_MAX\<close>.\<close>

definition weights_fit :: "link list list \<Rightarrow> bool" where
  "weights_fit L \<longleftrightarrow>
     (\<forall>a < length L. \<forall>b < length L. (int (length L) + 1) * weight (get_link L a b) < INT_MAX)"

definition seen :: "bool list \<Rightarrow> int" where
  "seen V = int (length (filter id V))"

lemma seen_update: "u < length V \<Longrightarrow> \<not> V ! u \<Longrightarrow> seen (V[u := True]) = seen V + 1"
proof (induction V arbitrary: u)
  case (Cons b V)
  then show ?case by (cases u) (auto simp: seen_def)
qed simp

lemma seen_bound: "0 \<le> seen V" "seen V \<le> int (length V)"
  by (simp_all add: seen_def)

definition dist_fits :: "int \<Rightarrow> nat \<Rightarrow> bool list \<Rightarrow> int list \<Rightarrow> bool" where
  "dist_fits w n V d \<longleftrightarrow> (\<forall>v < n. d ! v = INT_MAX \<or> d ! v \<le> seen V * w)"

lemma search_fits:
  assumes "search_inv L n V d p" and "dist_fits w n V d" and "0 \<le> w" and "(int n + 1) * w < INT_MAX"
    and "\<forall>a < n. \<forall>b < n. wt L a b \<le> w"
  shows "\<exists>V' d' p'. search L V d p = Inr (V', d', p') \<and> dist_fits w n V' d'"
  using assms(1,2,5)
proof (induction L V d p rule: search.induct)
  case (1 L V d p)
  have len: "length V = n" "length d = n" using 1(2) by (simp_all add: search_inv_def)
  show ?case
  proof (cases "pick V d [0..<length V] INT_MAX None")
    case None
    then show ?thesis using 1(3) by (simp add: search.simps [of L V d p])
  next
    case (Some u)
    have u: "u < n" "\<not> V ! u" "d ! u < INT_MAX"
      using pick_spec [of V d "[0..<length V]" INT_MAX None] Some len by auto
    have du: "d ! u \<le> seen V * w" "0 \<le> d ! u" using 1(2,3) u by (auto simp: dist_fits_def search_inv_def)
    have sw: "seen V * w \<le> int n * w" using seen_bound(2) [of V] len assms(3) by (simp add: mult_right_mono)
    have room: "d ! u + wt L u i \<le> INT_MAX" if "i < n" for i
    proof -
      have "wt L u i \<le> w" using 1(4) u(1) that by simp
      then show ?thesis using du(1) sw assms(4) by (simp add: distrib_right)
    qed
    have "\<exists>r. relax L u (V[u := True]) [0..<length V] d p = Inr r"
      using du(2) room len u by (intro relax_no_overflow) auto
    then obtain dd pp where r: "relax L u (V[u := True]) [0..<length V] d p = Inr (dd, pp)" by auto
    have dd: "dd ! v = d ! v \<or> dd ! v = d ! u + wt L u v" "length dd = n" if "v < n" for v
      using relax_spec [OF r] len u 1(2) that by (auto simp: search_inv_def split: if_splits)
    have s: "seen (V[u := True]) * w = seen V * w + w"
      using seen_update [of u V] u len by (simp add: distrib_right)
    have "dist_fits w n (V[u := True]) dd"
      unfolding dist_fits_def
    proof (intro allI impI)
      fix v assume v: "v < n"
      have "d ! v = INT_MAX \<or> d ! v \<le> seen V * w" using 1(3) v by (simp add: dist_fits_def)
      moreover have "wt L u v \<le> w" using 1(4) u(1) v by simp
      ultimately show "dd ! v = INT_MAX \<or> dd ! v \<le> seen (V[u := True]) * w"
        using dd(1) [OF v] du(1) assms(3) s by linarith
    qed
    then have "\<exists>V' d' p'. search L (V[u := True]) dd pp = Inr (V', d', p') \<and> dist_fits w n V' d'"
      using 1(1) [OF Some r refl] search_inv_step [OF 1(2) Some r] 1(4) by blast
    then show ?thesis using Some r by (simp add: search.simps [of L V d p])
  qed
qed

subsection \<open>The distances are shortest\<close>

lemma parents_path:
  assumes "search_inv L n V d p" and "v < n" and "d ! v < INT_MAX"
  shows "path (wt L) n 0 v (d ! v)"
  using assms(2,3)
proof (induction "nat (d ! v)" arbitrary: v rule: less_induct)
  case less
  show ?case
  proof (cases "v = 0")
    case True
    then show ?thesis using path.here [of 0 n "wt L"] assms(1) by (simp add: search_inv_def)
  next
    case False
    then obtain u where u: "p ! v = Some u"
      using assms(1) less.prems by (cases "p ! v") (auto simp: search_inv_def)
    then have e: "u < n" "0 < wt L u v" "d ! v = d ! u + wt L u v" "V ! u"
      using assms(1) less.prems by (auto simp: search_inv_def)
    then have "0 \<le> d ! u" using assms(1) by (simp add: search_inv_def)
    then have "path (wt L) n 0 u (d ! u)" using e less.prems by (intro less.hyps) auto
    then show ?thesis using path.link [of "wt L" n 0 u "d ! u" v] less.prems(1) e(2,3) by simp
  qed
qed

lemma shortest:
  assumes "search_inv L n V d p" and "\<forall>v < n. \<not> V ! v \<longrightarrow> d ! v = INT_MAX"
    and "path (wt L) n 0 v x"
  shows "d ! v \<le> x \<or> INT_MAX \<le> x"
  using assms(3)
proof (induction rule: path.induct)
  case here
  then show ?case using assms(1) by (simp add: search_inv_def)
next
  case (link v x v')
  have "v < n" using link.hyps(1) by (rule path_bound)
  show ?case
  proof (cases "V ! v")
    case True
    then have "d ! v' \<le> d ! v + wt L v v'"
      using assms(1) \<open>v < n\<close> link.hyps(2,3) by (simp add: search_inv_def)
    then show ?thesis using link.IH link.hyps(3) by linarith
  next
    case False
    then have "INT_MAX \<le> x" using assms(2) \<open>v < n\<close> link.IH by auto
    then show ?thesis using link.hyps(3) by linarith
  qed
qed

subsection \<open>The first hop\<close>

definition map_wf :: "route_map \<Rightarrow> bool" where
  "map_wf m \<longleftrightarrow> 0 < length (links m) \<and> (\<forall>r \<in> set (links m). length r = length (links m)) \<and>
     length (segment2interface m) = length (links m) \<and>
     inj_on (um_at [] (key2node m)) {..<length (links m)} \<and>
     (\<forall>h k. um_find (node2key m) h = Some k \<longrightarrow> k < length (links m))"

definition host_name :: "route_map \<Rightarrow> nat \<Rightarrow> string" where
  "host_name m i = um_at [] (key2node m) i"

text \<open>The entry for a neighbour: the local interface on the common segment and the neighbour's.\<close>

definition hop :: "route_map \<Rightarrow> nat \<Rightarrow> string \<times> string" where
  "hop m c = (um_at [] (segment2interface m ! 0) (segment (get_link (links m) 0 c)),
              um_at [] (segment2interface m ! c) (segment (get_link (links m) 0 c)))"

definition closer :: "nat \<Rightarrow> int list \<Rightarrow> nat \<Rightarrow> nat" where
  "closer n d v = card {w. w < n \<and> d ! w < d ! v}"

lemma closer_less: "u < n \<Longrightarrow> d ! u < d ! v \<Longrightarrow> closer n d u < closer n d v"
  unfolding closer_def by (rule psubset_card_mono) (auto intro: less_trans)

lemma closer_bound: "v < n \<Longrightarrow> closer n d v < n"
proof -
  assume "v < n"
  then have "{w. w < n \<and> d ! w < d ! v} \<subset> {..<n}" by auto
  then have "card {w. w < n \<and> d ! w < d ! v} < card {..<n}" by (rule psubset_card_mono [rotated]) simp
  then show ?thesis by (simp add: closer_def)
qed

lemma parent_facts:
  assumes "search_inv L n V d p" and "v < n" and "v \<noteq> 0" and "d ! v < INT_MAX"
  obtains u where "p ! v = Some u" "u < n" "0 < wt L u v" "d ! v = d ! u + wt L u v" "d ! u < d ! v" "0 \<le> d ! u"
proof -
  obtain u where u: "p ! v = Some u" using assms by (cases "p ! v") (auto simp: search_inv_def)
  then have "u < n" "0 < wt L u v" "d ! v = d ! u + wt L u v" using assms by (auto simp: search_inv_def)
  moreover have "0 \<le> d ! u" using calculation(1) assms(1) by (simp add: search_inv_def)
  ultimately show ?thesis using that u by simp
qed

lemma walk_back_spec:
  assumes "search_inv (links m) n V d p" and "length (links m) = n" and "length (segment2interface m) = n"
    and "cur < n" and "cur \<noteq> 0" and "d ! cur < INT_MAX"
    and "path (wt (links m)) n cur i (d ! i - d ! cur)" and "closer n d cur \<le> fuel"
  shows "\<exists>c. 0 < c \<and> c < n \<and> p ! c = Some 0 \<and> path (wt (links m)) n c i (d ! i - d ! c) \<and>
    walk_back m p fuel i cur (p ! cur) route = Inr (um_put (host_name m i) (hop m c) route)"
  using assms(4-8)
proof (induction fuel arbitrary: cur)
  case 0
  obtain u where "u < n" "d ! u < d ! cur"
    using parent_facts [OF assms(1) 0(1,2,3)] by metis
  then have "closer n d u < closer n d cur" by (rule closer_less)
  then show ?case using 0(5) by simp
next
  case (Suc fuel)
  obtain u where u: "p ! cur = Some u" "u < n" "0 < wt (links m) u cur" "d ! cur = d ! u + wt (links m) u cur"
      "d ! u < d ! cur" "0 \<le> d ! u"
    using parent_facts [OF assms(1) Suc.prems(1,2,3)] by metis
  show ?case
  proof (cases "u = 0")
    case True
    have "p ! 0 = None" using assms(1) by (simp add: search_inv_def)
    then show ?thesis
      using True u Suc.prems assms(2,3) by (intro exI [of _ cur]) (simp add: Let_def hop_def host_name_def)
  next
    case False
    have "path (wt (links m)) n u i (wt (links m) u cur + (d ! i - d ! cur))"
      using Suc.prems(4) u(3,2) by (rule path_first)
    then have "path (wt (links m)) n u i (d ! i - d ! u)" using u(4) by (simp add: algebra_simps)
    moreover have "closer n d u \<le> fuel" using closer_less [OF u(2,5)] Suc.prems(5) by simp
    ultimately show ?thesis
      using Suc.IH [of u] u Suc.prems(3) False by simp
  qed
qed

definition first_hop :: "route_map \<Rightarrow> int list \<Rightarrow> nat option list \<Rightarrow> nat \<Rightarrow> nat \<Rightarrow> bool" where
  "first_hop m d p i c \<longleftrightarrow> 0 < c \<and> c < length (links m) \<and> p ! c = Some 0 \<and>
     path (wt (links m)) (length (links m)) c i (d ! i - d ! c)"

lemma collect_spec:
  assumes "search_inv (links m) n V d p" and "length (links m) = n" and "map_wf m"
    and "\<forall>i \<in> set is. 0 < i \<and> i < n" and "distinct is"
  shows "\<exists>route'. collect m V p is route = Inr route' \<and>
    (\<forall>i \<in> set is. V ! i \<longrightarrow> (\<exists>c. first_hop m d p i c \<and> um_find route' (host_name m i) = Some (hop m c))) \<and>
    (\<forall>k. (\<forall>i \<in> set is. V ! i \<longrightarrow> host_name m i \<noteq> k) \<longrightarrow> um_find route' k = um_find route k)"
  using assms(4,5)
proof (induction "is" arbitrary: route)
  case (Cons i "is")
  have i: "0 < i" "i < n" "i \<notin> set is" using Cons.prems by auto
  show ?case
  proof (cases "V ! i")
    case False
    then show ?thesis using Cons.IH [of route] Cons.prems by simp
  next
    case True
    have di: "d ! i < INT_MAX" using assms(1) True i by (simp add: search_inv_def)
    have "path (wt (links m)) n i i (d ! i - d ! i)" using path.here [OF i(2), of "wt (links m)"] by simp
    moreover have "closer n d i \<le> n" using closer_bound [OF i(2)] by (simp add: less_imp_le)
    ultimately obtain c where c: "0 < c" "c < n" "p ! c = Some 0" "path (wt (links m)) n c i (d ! i - d ! c)"
      "walk_back m p n i i (p ! i) route = Inr (um_put (host_name m i) (hop m c) route)"
      using walk_back_spec [OF assms(1,2) _ i(2) _ di, of i n route] assms(2,3) i by (auto simp: map_wf_def)
    let ?r = "um_put (host_name m i) (hop m c) route"
    obtain r' where r': "collect m V p is ?r = Inr r'"
      "\<forall>j \<in> set is. V ! j \<longrightarrow> (\<exists>c. first_hop m d p j c \<and> um_find r' (host_name m j) = Some (hop m c))"
      "\<forall>k. (\<forall>j \<in> set is. V ! j \<longrightarrow> host_name m j \<noteq> k) \<longrightarrow> um_find r' k = um_find ?r k"
      using Cons.IH [of ?r] Cons.prems by auto
    have "host_name m j \<noteq> host_name m i" if "j \<in> set is" for j
      using inj_onD [of "um_at [] (key2node m)" "{..<n}" j i] assms(2,3) Cons.prems(1) i that
      by (auto simp: map_wf_def host_name_def)
    then have "um_find r' (host_name m i) = Some (hop m c)" using r'(3) by simp
    moreover have "first_hop m d p i c" using c assms(2) by (simp add: first_hop_def)
    moreover have "collect m V p (i # is) route = Inr r'" using True c(5) r'(1) assms(2) by simp
    ultimately show ?thesis using r'(2,3) True by auto
  qed
qed simp

definition reachable :: "route_map \<Rightarrow> nat \<Rightarrow> int \<Rightarrow> bool" where
  "reachable m i x \<longleftrightarrow> path (wt (links m)) (length (links m)) 0 i x"

lemma getRoute_search:
  assumes "map_wf m" and "getRoute m = Inr route"
  shows "\<exists>V d p. search_inv (links m) (length (links m)) V d p \<and>
    (\<forall>v < length (links m). \<not> V ! v \<longrightarrow> d ! v = INT_MAX) \<and>
    collect m V p [1..<length (links m)] [] = Inr route"
proof -
  let ?n = "length (links m)"
  obtain V d p where s: "search (links m) (replicate ?n False) ((replicate ?n INT_MAX)[0 := 0]) (replicate ?n None) = Inr (V, d, p)"
    "collect m V p [1..<?n] [] = Inr route"
    using assms by (auto simp: getRoute_def map_wf_def Let_def split: sum.splits)
  moreover have "0 < ?n" using assms(1) by (simp add: map_wf_def)
  ultimately show ?thesis
    using search_spec [OF search_inv_init s(1)] by blast
qed

lemma getRoute_entry:
  assumes "map_wf m" and "getRoute m = Inr route" and "0 < i" and "i < length (links m)"
  shows "reachable m i x \<Longrightarrow> x < INT_MAX \<Longrightarrow>
      \<exists>c y. 0 < c \<and> c < length (links m) \<and> 0 < wt (links m) 0 c \<and> path (wt (links m)) (length (links m)) c i y \<and>
        (\<forall>z. reachable m i z \<longrightarrow> wt (links m) 0 c + y \<le> z) \<and> um_find route (host_name m i) = Some (hop m c)"
    and "\<not> (\<exists>x < INT_MAX. reachable m i x) \<Longrightarrow> um_find route (host_name m i) = None"
proof -
  let ?n = "length (links m)"
  obtain V d p where s: "search_inv (links m) ?n V d p" "\<forall>v < ?n. \<not> V ! v \<longrightarrow> d ! v = INT_MAX"
    "collect m V p [1..<?n] [] = Inr route"
    using getRoute_search [OF assms(1,2)] by blast
  have "\<forall>i \<in> set [1..<?n]. 0 < i \<and> i < ?n" by auto
  then obtain c: "\<forall>i \<in> set [1..<?n]. V ! i \<longrightarrow> (\<exists>c. first_hop m d p i c \<and> um_find route (host_name m i) = Some (hop m c))"
    "\<forall>k. (\<forall>i \<in> set [1..<?n]. V ! i \<longrightarrow> host_name m i \<noteq> k) \<longrightarrow> um_find route k = None"
    using collect_spec [OF s(1) refl assms(1), of "[1..<?n]" "[]"] s(3) by auto
  have dz: "d ! 0 = 0" using s(1) by (simp add: search_inv_def)
  have min: "d ! i \<le> z" if "reachable m i z" for z
    using shortest [OF s(1,2), of i z] that s(1) assms(4) by (auto simp: reachable_def search_inv_def)
  { assume x: "reachable m i x" "x < INT_MAX"
    then have "d ! i < INT_MAX" using min by fastforce
    then have "V ! i" using s(2) assms(4) by fastforce
    then obtain c where f: "first_hop m d p i c" "um_find route (host_name m i) = Some (hop m c)"
      using c(1) assms(3,4) by auto
    then have "c < ?n" "p ! c = Some 0" "0 < c" by (simp_all add: first_hop_def)
    then have "0 < wt (links m) 0 c \<and> d ! c = d ! 0 + wt (links m) 0 c"
      using s(1) by (auto simp: search_inv_def)
    then have "d ! i = wt (links m) 0 c + (d ! i - d ! c)" "0 < wt (links m) 0 c" using dz by simp_all
    then show "\<exists>c y. 0 < c \<and> c < ?n \<and> 0 < wt (links m) 0 c \<and> path (wt (links m)) ?n c i y \<and>
        (\<forall>z. reachable m i z \<longrightarrow> wt (links m) 0 c + y \<le> z) \<and> um_find route (host_name m i) = Some (hop m c)"
      using f min by (intro exI [of _ c] exI [of _ "d ! i - d ! c"]) (auto simp: first_hop_def) }
  { assume no: "\<not> (\<exists>x < INT_MAX. reachable m i x)"
    have "\<not> V ! i"
    proof
      assume "V ! i"
      then have "d ! i < INT_MAX" using s(1) assms(4) by (simp add: search_inv_def)
      then have "reachable m i (d ! i)" using parents_path [OF s(1) assms(4)] by (simp add: reachable_def)
      then show False using no \<open>d ! i < INT_MAX\<close> by blast
    qed
    have "host_name m j \<noteq> host_name m i" if "j \<in> set [1..<?n]" "V ! j" for j
    proof
      assume "host_name m j = host_name m i"
      then have "j = i" using assms(1,4) that(1) by (auto simp: map_wf_def host_name_def dest: inj_onD)
      then show False using that(2) \<open>\<not> V ! i\<close> by simp
    qed
    then show "um_find route (host_name m i) = None" using c(2) by blast }
qed

lemma fit_reaches:
  assumes "search_inv L n V d p" and "\<forall>v < n. \<not> V ! v \<longrightarrow> d ! v = INT_MAX" and "dist_fits w n V d"
    and "0 \<le> w" and "(int n + 1) * w < INT_MAX" and "\<forall>a < n. \<forall>b < n. wt L a b \<le> w"
    and "path (wt L) n 0 v x"
  shows "V ! v"
  using assms(7)
proof (induction rule: path.induct)
  case here
  then show ?case using assms(1,2) by (auto simp: search_inv_def INT_MAX_def)
next
  case (link v x v')
  have v: "v < n" using link.hyps(1) by (rule path_bound)
  have "d ! v < INT_MAX" using v link.IH assms(1) by (simp add: search_inv_def)
  then have "d ! v \<le> seen V * w"
    using v assms(3) by (auto simp: dist_fits_def)
  also have "\<dots> \<le> int n * w"
    using seen_bound(2) [of V] assms(1,4) by (simp add: search_inv_def mult_right_mono)
  finally have "d ! v \<le> int n * w" .
  moreover have "d ! v' \<le> d ! v + wt L v v'"
    using assms(1) link.IH v link.hyps(2,3) by (simp add: search_inv_def)
  moreover have "wt L v v' \<le> w" using assms(6) v link.hyps(2) by simp
  ultimately have "d ! v' < INT_MAX" using assms(5) by (simp add: distrib_right)
  then show ?case using assms(2) link.hyps(2) by fastforce
qed

lemma fit_bound:
  assumes "weights_fit L"
  shows "\<exists>w \<ge> 0. (int (length L) + 1) * w < INT_MAX \<and> (\<forall>a < length L. \<forall>b < length L. wt L a b \<le> w)"
proof -
  let ?k = "int (length L) + 1"
  let ?w = "(INT_MAX - 1) div ?k"
  have "wt L a b \<le> ?w" if "a < length L" "b < length L" for a b
  proof -
    have "?k * wt L a b \<le> INT_MAX - 1" using assms that by (auto simp: weights_fit_def)
    then have "(?k * wt L a b) div ?k \<le> ?w" by (rule zdiv_mono1) simp
    moreover have "(?k * wt L a b) div ?k = wt L a b" by (rule nonzero_mult_div_cancel_left) simp
    ultimately show ?thesis by linarith
  qed
  moreover have "?k * ?w < INT_MAX"
    using mult_div_mod_eq [of ?k "INT_MAX - 1"] pos_mod_sign [of ?k "INT_MAX - 1"] by linarith
  moreover have "0 \<le> ?w" by (simp add: INT_MAX_def pos_imp_zdiv_nonneg_iff)
  ultimately show ?thesis by blast
qed

lemma getRoute_fits:
  assumes "map_wf m" and "weights_fit (links m)"
  shows "\<exists>route. getRoute m = Inr route \<and>
    (\<forall>i. 0 < i \<longrightarrow> i < length (links m) \<longrightarrow> (\<exists>x. reachable m i x) \<longrightarrow> um_find route (host_name m i) \<noteq> None)"
proof -
  let ?n = "length (links m)"
  obtain w where w: "0 \<le> w" "(int ?n + 1) * w < INT_MAX" "\<forall>a < ?n. \<forall>b < ?n. wt (links m) a b \<le> w"
    using fit_bound [OF assms(2)] by auto
  have n: "0 < ?n" using assms(1) by (simp add: map_wf_def)
  have "dist_fits w ?n (replicate ?n False) ((replicate ?n INT_MAX)[0 := 0])"
    using n by (simp add: dist_fits_def nth_list_update seen_def)
  then obtain V d p where s: "search (links m) (replicate ?n False) ((replicate ?n INT_MAX)[0 := 0]) (replicate ?n None) = Inr (V, d, p)"
    "dist_fits w ?n V d"
    using search_fits [OF search_inv_init [OF n] _ w] by blast
  have i: "search_inv (links m) ?n V d p" "\<forall>v < ?n. \<not> V ! v \<longrightarrow> d ! v = INT_MAX"
    using search_spec [OF search_inv_init [OF n] s(1)] by blast+
  have "\<forall>i \<in> set [1..<?n]. 0 < i \<and> i < ?n" by auto
  then obtain route where r: "collect m V p [1..<?n] [] = Inr route"
    "\<forall>i \<in> set [1..<?n]. V ! i \<longrightarrow> (\<exists>c. first_hop m d p i c \<and> um_find route (host_name m i) = Some (hop m c))"
    using collect_spec [OF i(1) refl assms(1), of "[1..<?n]" "[]"] by auto
  have "getRoute m = Inr route" using s(1) r(1) n by (simp add: getRoute_def Let_def)
  moreover have "V ! j" if "reachable m j x" for j x
    using fit_reaches [OF i s(2) w] that by (simp add: reachable_def)
  ultimately show ?thesis using r(2) by fastforce
qed

subsection \<open>The matrix\<close>

definition square :: "nat \<Rightarrow> link list list \<Rightarrow> bool" where
  "square n L \<longleftrightarrow> length L = n \<and> (\<forall>r \<in> set L. length r = n)"

lemma square_upd [simp, intro]: "square n L \<Longrightarrow> square n (upd_link f a b L)"
proof (cases "a < length L")
  case True
  assume "square n L"
  then show ?thesis using True set_update_subset_insert [of L a "(L ! a)[b := f (L ! a ! b)]"]
    by (auto simp: square_def upd_link_def)
next
  case False
  assume "square n L"
  then show ?thesis using False by (simp add: upd_link_def list_update_beyond)
qed

lemma get_upd_link:
  "square n L \<Longrightarrow> a < n \<Longrightarrow> b < n \<Longrightarrow>
   get_link (upd_link f a b L) x y = (if x = a \<and> y = b then f (get_link L a b) else get_link L x y)"
  by (auto simp: square_def get_link_def upd_link_def nth_list_update)

lemma square_set_both [simp, intro]: "square n L \<Longrightarrow> square n (set_both f a b L)"
  by (simp add: set_both_def)

lemma get_set_both:
  "square n L \<Longrightarrow> a < n \<Longrightarrow> b < n \<Longrightarrow> a \<noteq> b \<Longrightarrow>
   get_link (set_both f a b L) x y =
     (if x = a \<and> y = b \<or> x = b \<and> y = a then f (get_link L x y) else get_link L x y)"
  using get_upd_link [of n L a b f] get_upd_link [of n "upd_link f a b L" b a f]
  by (auto simp: set_both_def)

lemma square_ext:
  assumes "square n L" and "square n M" and "\<And>x y. x < n \<Longrightarrow> y < n \<Longrightarrow> get_link L x y = get_link M x y"
  shows "L = M"
proof (rule nth_equalityI)
  show "length L = length M" using assms(1,2) by (simp add: square_def)
  fix x assume x: "x < length L"
  show "L ! x = M ! x"
    by (rule nth_equalityI) (use assms x in \<open>auto simp: square_def get_link_def\<close>)
qed

end
