(* ===== verification/RouteInit.thy ===== *)
theory RouteInit
  imports RouteProof
begin

text \<open>
  What \<open>Map::init\<close> establishes and the weight operations keep: a well-formed, symmetric table whose
  routes are defined. With the properties of the routing table.
\<close>

subsection \<open>Initialisation\<close>

definition built :: "nat \<Rightarrow> route_map \<Rightarrow> bool" where
  "built k m \<longleftrightarrow> um_keys (key2node m) = {..<k} \<and> length (segment2interface m) = k \<and>
     (\<forall>h v. um_find (node2key m) h = Some v \<longleftrightarrow> um_find (key2node m) v = Some h) \<and>
     (\<forall>sv \<in> set (segment2node m). \<forall>v \<in> set (snd sv). v < k) \<and> links m = []"

lemma push_node_bound:
  assumes "\<forall>sv \<in> set M. \<forall>v \<in> set (snd sv). v < n" and "k < n"
  shows "\<forall>sv \<in> set (push_node k seg M). \<forall>v \<in> set (snd sv). v < n"
proof -
  have u: "set (um_put s w N) \<subseteq> insert (s, w) (set N)" for s w and N :: "(int, nat list) umap"
    unfolding um_put_def by (induction N) auto
  show ?thesis
  proof (cases "um_find M seg")
    case None
    then have "push_node k seg M = um_put seg [k] (um_put seg [] M)"
      by (simp add: push_node_def um_index_def)
    then show ?thesis using u [of seg "[k]" "um_put seg [] M"] u [of seg "[]" M] assms by fastforce
  next
    case (Some v)
    then have "push_node k seg M = um_put seg (v @ [k]) M" by (simp add: push_node_def um_index_def)
    moreover have "(seg, v) \<in> set M" using Some by (rule um_find_SomeD)
    ultimately show ?thesis using u [of seg "v @ [k]" M] assms by fastforce
  qed
qed

lemma add_interfaces_state:
  assumes "\<forall>sv \<in> set (segment2node m). \<forall>v \<in> set (snd sv). v < n" and "k < n"
  shows "\<exists>t sn. add_interfaces k is s2i m = (t, m\<lparr>segment2node := sn\<rparr>) \<and> (\<forall>sv \<in> set sn. \<forall>v \<in> set (snd sv). v < n)"
  using assms(1)
proof (induction "is" arbitrary: s2i m)
  case Nil
  have "m = m\<lparr>segment2node := segment2node m\<rparr>" by simp
  then show ?case using Nil by (metis add_interfaces.simps(1))
next
  case (Cons i "is")
  let ?m = "m\<lparr>segment2node := push_node k (ic_segment i) (segment2node m)\<rparr>"
  have "\<forall>sv \<in> set (segment2node ?m). \<forall>v \<in> set (snd sv). v < n"
    using push_node_bound [OF Cons.prems assms(2)] by simp
  from Cons.IH [OF this, of "um_put (ic_segment i) (ic_name i) s2i"] show ?case by auto
qed

lemma add_host_built:
  assumes "built k m" and "um_find (node2key m) (hc_name h) = None"
  shows "built (Suc k) (add_host k h m)"
    and "um_find (node2key (add_host k h m)) x = (if x = hc_name h then Some k else um_find (node2key m) x)"
proof -
  let ?m = "m\<lparr>key2node := um_put k (hc_name h) (key2node m), node2key := um_put (hc_name h) k (node2key m)\<rparr>"
  have "\<forall>sv \<in> set (segment2node ?m). \<forall>v \<in> set (snd sv). v < Suc k"
    using assms(1) by (auto simp: built_def less_Suc_eq)
  then obtain t sn where a: "add_interfaces k (hc_interfaces h) [] ?m = (t, ?m\<lparr>segment2node := sn\<rparr>)"
    "\<forall>sv \<in> set sn. \<forall>v \<in> set (snd sv). v < Suc k"
    using add_interfaces_state [of ?m "Suc k" k] by blast
  have e: "add_host k h m = ?m\<lparr>segment2node := sn, segment2interface := segment2interface m @ [t]\<rparr>"
    using a(1) by (simp add: add_host_def Let_def)
  have fresh: "um_find (key2node m) k = None"
    using assms(1) by (simp add: built_def um_find_None_keys)
  have "um_find (node2key (add_host k h m)) x = Some v \<longleftrightarrow> um_find (key2node (add_host k h m)) v = Some x" for x v
  proof -
    have i: "um_find (node2key m) h' = Some w \<longleftrightarrow> um_find (key2node m) w = Some h'" for h' w
      using assms(1) by (simp add: built_def)
    show ?thesis using i [of x v] i [of x k] i [of "hc_name h" v] fresh assms(2) by (simp add: e)
  qed
  then show "built (Suc k) (add_host k h m)"
    using assms(1) a(2) by (auto simp: built_def e)
  show "um_find (node2key (add_host k h m)) x = (if x = hc_name h then Some k else um_find (node2key m) x)"
    by (simp add: e)
qed

lemma init_local_built:
  assumes "localhost \<in> hc_name ` set hs"
  shows "built 1 (init_local localhost hs empty_map)"
    and "um_find (node2key (init_local localhost hs empty_map)) x = (if x = localhost then Some 0 else None)"
proof -
  have e: "built 0 empty_map" "um_find (node2key empty_map) y = None" for y
    by (simp_all add: built_def empty_map_def um_keys_def)
  have "built 1 (init_local localhost hs empty_map) \<and>
      um_find (node2key (init_local localhost hs empty_map)) x = (if x = localhost then Some 0 else None)"
    using assms
  proof (induction hs)
    case (Cons h hs)
    then show ?case
      using add_host_built [OF e(1), of h] e(2) by auto
  qed simp
  then show "built 1 (init_local localhost hs empty_map)"
    "um_find (node2key (init_local localhost hs empty_map)) x = (if x = localhost then Some 0 else None)"
    by simp_all
qed

lemma init_others_built:
  assumes "built (Suc i) m" and "distinct (map hc_name hs)"
    and "\<forall>h \<in> set hs. hc_name h \<noteq> localhost \<longrightarrow> um_find (node2key m) (hc_name h) = None"
  shows "built (Suc (fst (init_others localhost hs i m))) (snd (init_others localhost hs i m)) \<and>
    um_find (node2key (snd (init_others localhost hs i m))) localhost = um_find (node2key m) localhost"
  using assms
proof (induction hs arbitrary: i m)
  case (Cons h hs)
  show ?case
  proof (cases "hc_name h = localhost")
    case True
    then show ?thesis using Cons by simp
  next
    case False
    then have n: "um_find (node2key m) (hc_name h) = None" using Cons.prems(3) by simp
    have "built (Suc (Suc i)) (add_host (Suc i) h m)" by (rule add_host_built(1) [OF Cons.prems(1) n])
    moreover have "\<forall>g \<in> set hs. hc_name g \<noteq> localhost \<longrightarrow> um_find (node2key (add_host (Suc i) h m)) (hc_name g) = None"
    proof (intro ballI impI)
      fix g assume g: "g \<in> set hs" "hc_name g \<noteq> localhost"
      then have "hc_name g \<noteq> hc_name h" using Cons.prems(2) by (metis distinct.simps(2) image_eqI list.set_map list.simps(9))
      then show "um_find (node2key (add_host (Suc i) h m)) (hc_name g) = None"
        using g Cons.prems(3) add_host_built(2) [OF Cons.prems(1) n] by simp
    qed
    moreover have "um_find (node2key (add_host (Suc i) h m)) localhost = um_find (node2key m) localhost"
      using add_host_built(2) [OF Cons.prems(1) n] False by simp
    ultimately show ?thesis using Cons.IH [of "Suc i" "add_host (Suc i) h m"] Cons.prems(2) False by simp
  qed
qed simp

definition symmetric :: "nat \<Rightarrow> link list list \<Rightarrow> bool" where
  "symmetric n L \<longleftrightarrow> square n L \<and> (\<forall>x < n. \<forall>y < n. get_link L x y = get_link L y x)"

lemma symmetric_set_both:
  assumes "symmetric n L" and "a < n" and "b < n"
  shows "symmetric n (set_both f a b L)"
proof (cases "a = b")
  case False
  then show ?thesis
    using assms get_set_both [OF _ assms(2,3), of L f] by (auto simp: symmetric_def)
next
  case True
  have s: "square n L" "square n (upd_link f a a L)" using assms(1) by (auto simp: symmetric_def)
  show ?thesis
    using assms True get_upd_link [OF s(1) assms(2,2), of f] get_upd_link [OF s(2) assms(2,2), of f] s
    by (auto simp: symmetric_def set_both_def)
qed

lemma connect_both: "connect seg a b L = set_both (\<lambda>_. \<lparr>segment = seg, weight = 1, initWeight = 1\<rparr>) a b L"
  by (simp add: connect_def set_both_def)

lemma connect_all_symmetric:
  "symmetric n L \<Longrightarrow> \<forall>a \<in> set as. a < n \<Longrightarrow> symmetric n (connect_all seg as L)"
proof (induction as arbitrary: L)
  case (Cons a as)
  have "symmetric n (fold (\<lambda>b. connect seg a b) bs M)"
    if "symmetric n M" "\<forall>b \<in> set bs. b < n" for bs M
    using that Cons.prems(2)
    by (induction bs arbitrary: M) (simp_all add: connect_both symmetric_set_both)
  then show ?case using Cons by simp
qed simp

lemma fold_connect_symmetric:
  "symmetric n L \<Longrightarrow> \<forall>sv \<in> set svs. \<forall>v \<in> set (snd sv). v < n \<Longrightarrow>
   symmetric n (fold (\<lambda>(seg, value) L. connect_all seg value L) svs L)"
proof (induction svs arbitrary: L)
  case (Cons sv svs)
  then show ?case by (cases sv) (simp add: connect_all_symmetric)
qed simp

definition keys_bound :: "nat \<Rightarrow> (string, nat) umap \<Rightarrow> bool" where
  "keys_bound n N \<longleftrightarrow> (\<forall>h k. um_find N h = Some k \<longrightarrow> k < n)"

lemma index_bound:
  assumes "keys_bound n N" and "0 < n"
  shows "fst (um_index 0 h N) < n" and "keys_bound n (snd (um_index 0 h N))"
  using assms by (auto simp: keys_bound_def um_index_value um_find_index split: option.split)

lemma apply_map_keeps:
  assumes "symmetric n (links m)" and "keys_bound n (node2key m)" and "0 < n"
  shows "symmetric n (links (apply_map es m)) \<and> keys_bound n (node2key (apply_map es m)) \<and>
    key2node (apply_map es m) = key2node m \<and> segment2interface (apply_map es m) = segment2interface m"
  using assms(1,2)
proof (induction es arbitrary: m)
  case (Cons e es)
  obtain src dest w where e: "e = (src, dest, w)" by (cases e)
  let ?a = "um_index 0 src (node2key m)" and ?b = "um_index 0 dest (snd (um_index 0 src (node2key m)))"
  let ?m = "m\<lparr>node2key := snd ?b, links := set_both (\<lambda>l. l\<lparr>weight := w, initWeight := w\<rparr>) (fst ?a) (fst ?b) (links m)\<rparr>"
  have b: "fst ?a < n" "fst ?b < n" "keys_bound n (snd ?b)"
    using index_bound [OF Cons.prems(2) assms(3)] index_bound [OF index_bound(2) [OF Cons.prems(2) assms(3)] assms(3)]
    by blast+
  have "apply_map (e # es) m = apply_map es ?m" by (simp add: e case_prod_beta Let_def)
  then show ?case
    using Cons.IH [of ?m] symmetric_set_both [OF Cons.prems(1) b(1,2)] b(3) by simp
qed simp

lemma map_init_wf:
  assumes "distinct (map hc_name (cf_hosts cfg))" and "localhost \<in> hc_name ` set (cf_hosts cfg)"
  shows "map_wf (map_init cfg localhost empty_map)"
    and "symmetric (length (links (map_init cfg localhost empty_map))) (links (map_init cfg localhost empty_map))"
    and "host_name (map_init cfg localhost empty_map) 0 = localhost"
proof -
  let ?ma = "init_local localhost (cf_hosts cfg) empty_map"
  let ?r = "init_others localhost (cf_hosts cfg) 0 ?ma"
  let ?n = "Suc (fst ?r)" and ?mb = "snd ?r"
  let ?La = "map (resize no_link ?n) (resize [] ?n (links ?mb))"
  let ?Lb = "fold (\<lambda>(seg, value) L. connect_all seg value L) (segment2node ?mb) ?La"
  let ?m = "map_init cfg localhost empty_map"
  have m0: "built 1 ?ma" by (rule init_local_built(1) [OF assms(2)])
  have f0: "um_find (node2key ?ma) x = (if x = localhost then Some 0 else None)" for x
    by (rule init_local_built(2) [OF assms(2)])
  have m1: "built ?n ?mb" "um_find (node2key ?mb) localhost = Some 0"
    using init_others_built [of 0 ?ma "cf_hosts cfg" localhost] assms(1) m0 f0 by simp_all
  have "?La = replicate ?n (replicate ?n no_link)"
    using m1(1) by (simp add: built_def resize_def)
  moreover have "symmetric ?n (replicate ?n (replicate ?n no_link))"
    by (auto simp: symmetric_def square_def get_link_def simp del: replicate.simps)
  ultimately have l1: "symmetric ?n ?Lb"
    using m1 by (intro fold_connect_symmetric) (simp_all add: built_def)
  have kb: "keys_bound ?n (node2key ?mb)"
  proof -
    have "v < ?n" if "um_find (node2key ?mb) h = Some v" for h v
    proof -
      have "um_find (key2node ?mb) v = Some h" using m1 that by (simp add: built_def)
      then have "v \<in> um_keys (key2node ?mb)" using um_keys_find by fast
      then show ?thesis using m1 by (simp add: built_def)
    qed
    then show ?thesis by (simp add: keys_bound_def)
  qed
  have me: "?m = apply_map (cf_map cfg) (?mb\<lparr>links := ?Lb\<rparr>)"
    by (simp add: map_init_def Let_def case_prod_beta')
  have k: "symmetric ?n (links ?m)" "keys_bound ?n (node2key ?m)" "key2node ?m = key2node ?mb"
    "segment2interface ?m = segment2interface ?mb"
    using apply_map_keeps [of ?n "?mb\<lparr>links := ?Lb\<rparr>" "cf_map cfg"] l1 kb by (simp_all add: me)
  have len: "length (links ?m) = ?n" "\<forall>r \<in> set (links ?m). length r = ?n"
    using k(1) by (simp_all add: symmetric_def square_def)
  have some: "\<exists>h. um_find (key2node ?mb) v = Some h" if "v < ?n" for v
    using m1 that um_keys_find [of v "key2node ?mb"] by (simp add: built_def)
  have inj: "inj_on (um_at [] (key2node ?m)) {..<?n}"
  proof (rule inj_onI)
    fix x y assume xy: "x \<in> {..<?n}" "y \<in> {..<?n}" "um_at [] (key2node ?m) x = um_at [] (key2node ?m) y"
    then obtain h where "um_find (key2node ?mb) x = Some h" "um_find (key2node ?mb) y = Some h"
      using some [of x] some [of y] by (auto simp: k(3) um_at_def)
    then have "um_find (node2key ?mb) h = Some x" "um_find (node2key ?mb) h = Some y"
      using m1 by (simp_all add: built_def)
    then show "x = y" by simp
  qed
  show "map_wf ?m"
    using len inj k m1 unfolding map_wf_def keys_bound_def built_def by simp
  show "symmetric (length (links ?m)) (links ?m)" using k(1) len(1) by simp
  have "um_find (key2node ?mb) 0 = Some localhost" using m1 by (simp add: built_def)
  then show "host_name ?m 0 = localhost" by (simp add: host_name_def um_at_def k(3))
qed

subsection \<open>The weight operations\<close>

lemma setMaxWeight_known:
  "um_find (node2key m) h1 = Some a \<Longrightarrow> um_find (node2key m) h2 = Some b \<Longrightarrow>
   map_setMaxWeight h1 h2 m = m\<lparr>links := set_both (\<lambda>l. l\<lparr>weight := INT_MAX - 1\<rparr>) a b (links m)\<rparr>"
  by (simp add: map_setMaxWeight_def um_index_known)

lemma setInitWeight_known:
  "um_find (node2key m) h1 = Some a \<Longrightarrow> um_find (node2key m) h2 = Some b \<Longrightarrow>
   map_setInitWeight h1 h2 m = m\<lparr>links := set_both (\<lambda>l. l\<lparr>weight := initWeight l\<rparr>) a b (links m)\<rparr>"
  by (simp add: map_setInitWeight_def um_index_known)

lemma map_wf_square: "map_wf m \<Longrightarrow> square (length (links m)) (links m)"
  by (simp add: map_wf_def square_def)

lemma set_both_length [simp]: "length (set_both f a b L) = length L"
  by (simp add: set_both_def upd_link_def)

lemma map_wf_weights:
  assumes "map_wf m"
  shows "map_wf (map_setMaxWeight h1 h2 m)" and "map_wf (map_setInitWeight h1 h2 m)"
proof -
  have kb: "keys_bound (length (links m)) (node2key m)" and n: "0 < length (links m)"
    using assms by (simp_all add: map_wf_def keys_bound_def)
  have sq: "\<forall>r \<in> set (set_both f a b (links m)). length r = length (links m)" for f a b
    using square_set_both [OF map_wf_square [OF assms], of f a b] by (simp add: square_def)
  have i: "um_find (snd (um_index 0 h2 (snd (um_index 0 h1 (node2key m))))) h = Some k \<Longrightarrow> k < length (links m)" for h k
    using index_bound(2) [OF index_bound(2) [OF kb n] n] by (simp add: keys_bound_def)
  show "map_wf (map_setMaxWeight h1 h2 m)" "map_wf (map_setInitWeight h1 h2 m)"
    using assms sq i by (simp_all add: map_wf_def map_setMaxWeight_def map_setInitWeight_def case_prod_beta Let_def)
qed

text \<open>
  For a configuration whose host names differ and that lists the local host, \<open>init\<close> builds a
  well-formed table: a square symmetric matrix with one row for each host, the local host as number 0,
  and names and interfaces for every number.
\<close>

theorem init_well_formed:
  assumes "distinct (map hc_name (cf_hosts cfg))" and "localhost \<in> hc_name ` set (cf_hosts cfg)"
    and "m = map_init cfg localhost empty_map"
  shows "map_wf m \<and> host_name m 0 = localhost \<and>
    symmetric (length (links m)) (links m)"
  using map_init_wf [OF assms(1,2)] assms(3) by simp

definition chain :: config where
  "chain = \<lparr>cf_hosts =
       [\<lparr>hc_name = ''A'', hc_interfaces = [\<lparr>ic_name = ''a1'', ic_type = ''tcp'', ic_segment = 1, ic_node_id = 0\<rparr>]\<rparr>,
        \<lparr>hc_name = ''B'', hc_interfaces = [\<lparr>ic_name = ''b1'', ic_type = ''tcp'', ic_segment = 1, ic_node_id = 0\<rparr>,
                                         \<lparr>ic_name = ''b2'', ic_type = ''tcp'', ic_segment = 2, ic_node_id = 0\<rparr>]\<rparr>,
        \<lparr>hc_name = ''C'', hc_interfaces = [\<lparr>ic_name = ''c2'', ic_type = ''tcp'', ic_segment = 2, ic_node_id = 0\<rparr>]\<rparr>],
     cf_map = [], cf_launch = []\<rparr>"

definition chain_map :: route_map where
  "chain_map = map_init chain ''A'' empty_map"

lemma chain_names: "distinct (map hc_name (cf_hosts chain))" "''A'' \<in> hc_name ` set (cf_hosts chain)"
  by (simp_all add: chain_def)

theorem init_well_formed_witness: "map_wf chain_map \<and> host_name chain_map 0 = ''A''"
  using init_well_formed [OF chain_names chain_map_def] by simp

lemma chain_map_links: "links chain_map =
    [[no_link, \<lparr>segment = 1, weight = 1, initWeight = 1\<rparr>, no_link],
     [\<lparr>segment = 1, weight = 1, initWeight = 1\<rparr>, no_link, \<lparr>segment = 2, weight = 1, initWeight = 1\<rparr>],
     [no_link, \<lparr>segment = 2, weight = 1, initWeight = 1\<rparr>, no_link]]"
  by code_simp

lemma chain_map_names: "key2node chain_map = [(0, ''A''), (1, ''B''), (2, ''C'')]"
    "node2key chain_map = [(''A'', 0), (''B'', 1), (''C'', 2)]"
    "segment2interface chain_map = [[(1, ''a1'')], [(1, ''b1''), (2, ''b2'')], [(2, ''c2'')]]"
  by code_simp+

lemma chain_route: "getRoute chain_map = Inr [(''B'', (''a1'', ''b1'')), (''C'', (''a1'', ''b1''))]"
  by code_simp

lemma chain_map_wf: "map_wf chain_map"
  unfolding chain_map_def by (rule map_init_wf(1) [OF chain_names])

lemma chain_host_names: "host_name chain_map 1 = ''B''" "host_name chain_map 2 = ''C''"
  by (simp_all add: host_name_def um_at_def chain_map_names um_find_def)

lemma chain_reachable: "reachable chain_map 2 2"
proof -
  have W: "wt (links chain_map) 0 1 = 1" "wt (links chain_map) 1 2 = 1" "length (links chain_map) = 3"
    by (simp_all add: chain_map_links get_link_def)
  have "path (wt (links chain_map)) 3 0 0 0" by (rule path.here) simp
  then have "path (wt (links chain_map)) 3 0 1 (0 + wt (links chain_map) 0 1)"
    by (rule path.link) (use W in \<open>simp_all del: One_nat_def\<close>)
  then have "path (wt (links chain_map)) 3 0 2 (0 + wt (links chain_map) 0 1 + wt (links chain_map) 1 2)"
    by (rule path.link) (use W in \<open>simp_all del: One_nat_def\<close>)
  then show ?thesis using W by (simp add: reachable_def del: One_nat_def)
qed

lemma chain_len: "length (links chain_map) = 3"
  by (simp add: chain_map_links)

subsection \<open>The routing table\<close>

text \<open>
  C12: The routing table is right. When \<open>getRoute\<close> returns a table, the host number \<open>i\<close> has an entry
  exactly if a path of total weight below \<open>INT_MAX\<close> leads to it, and the entry names the two interfaces
  of the link to a neighbour from which a shortest of all these paths goes on.
\<close>

theorem route_shortest_first_hop:
  assumes "map_wf m" and "getRoute m = Inr route" and "0 < i" and "i < length (links m)"
  shows "if \<exists>x < INT_MAX. reachable m i x
    then \<exists>c y. 0 < c \<and> c < length (links m) \<and> 0 < wt (links m) 0 c \<and>
      path (wt (links m)) (length (links m)) c i y \<and>
      (\<forall>z. reachable m i z \<longrightarrow> wt (links m) 0 c + y \<le> z) \<and>
      um_find route (host_name m i) = Some (hop m c)
    else um_find route (host_name m i) = None"
  using getRoute_entry [OF assms] by auto

theorem route_shortest_first_hop_witness:
  "\<exists>c y. path (wt (links chain_map)) 3 c 2 y \<and> wt (links chain_map) 0 c + y \<le> 2 \<and> hop chain_map c = (''a1'', ''b1'')"
proof -
  have n: "2 < length (links chain_map)" by (simp add: chain_map_links)
  have "\<exists>x < INT_MAX. reachable chain_map 2 x" using chain_reachable by (intro exI [of _ 2]) (simp add: INT_MAX_def)
  then obtain c y where "path (wt (links chain_map)) (length (links chain_map)) c 2 y"
    "\<forall>z. reachable chain_map 2 z \<longrightarrow> wt (links chain_map) 0 c + y \<le> z"
    "um_find [(''B'', (''a1'', ''b1'')), (''C'', (''a1'', ''b1''))] (host_name chain_map 2) = Some (hop chain_map c)"
    using route_shortest_first_hop [OF chain_map_wf chain_route _ n] by auto
  then show ?thesis
    using chain_reachable by (intro exI [of _ c] exI [of _ y]) (auto simp: chain_len chain_host_names um_find_def)
qed

text \<open>
  C13: \<open>getRoute\<close> always returns, without overflow and without an index out of range, when the weights leave
  room (the number of hosts plus one times each weight is below \<open>INT_MAX\<close>), and then every host that any
  path leads to has a route.
\<close>

theorem route_total:
  assumes "map_wf m" and "weights_fit (links m)"
  shows "\<exists>route. getRoute m = Inr route \<and>
    (\<forall>i x. 0 < i \<and> i < length (links m) \<and> reachable m i x \<longrightarrow> um_find route (host_name m i) \<noteq> None)"
  using getRoute_fits [OF assms] by blast

lemma chain_fits: "weights_fit (links chain_map)"
  by (auto simp: weights_fit_def chain_map_links get_link_def no_link_def INT_MAX_def nth_Cons' numeral_2_eq_2)

theorem route_total_witness:
  "\<exists>route. getRoute chain_map = Inr route \<and> um_find route ''C'' \<noteq> None"
proof -
  obtain route where r: "getRoute chain_map = Inr route"
    "\<forall>i x. 0 < i \<and> i < length (links chain_map) \<and> reachable chain_map i x \<longrightarrow> um_find route (host_name chain_map i) \<noteq> None"
    using route_total [OF chain_map_wf chain_fits] by blast
  have "2 < length (links chain_map)" by (simp add: chain_map_links)
  then have "um_find route (host_name chain_map 2) \<noteq> None" using r(2) [rule_format, of 2 2] chain_reachable by simp
  then show ?thesis using r(1) by (auto simp: chain_host_names)
qed

text \<open>
  Restoring a link undoes its removal: for two known hosts whose link has its initial weight,
  \<open>setMaxWeight\<close> followed by \<open>setInitWeight\<close> gives back the same map, and so the same routes.
\<close>

theorem weight_restored:
  assumes "map_wf m" and "um_find (node2key m) h1 = Some a" and "um_find (node2key m) h2 = Some b" and "a \<noteq> b"
    and "weight (get_link (links m) a b) = initWeight (get_link (links m) a b)"
    and "weight (get_link (links m) b a) = initWeight (get_link (links m) b a)"
  shows "map_setInitWeight h1 h2 (map_setMaxWeight h1 h2 m) = m"
proof -
  let ?n = "length (links m)" and ?f = "\<lambda>l. l\<lparr>weight := INT_MAX - 1\<rparr>" and ?g = "\<lambda>l. l\<lparr>weight := initWeight l\<rparr>"
  have ab: "a < ?n" "b < ?n" using assms(1-3) by (auto simp: map_wf_def)
  have sq: "square ?n (links m)" "square ?n (set_both ?f a b (links m))" using map_wf_square [OF assms(1)] by auto
  have "set_both ?g a b (set_both ?f a b (links m)) = links m"
  proof (rule square_ext)
    show "square ?n (set_both ?g a b (set_both ?f a b (links m)))" using sq(2) by (rule square_set_both)
    show "square ?n (links m)" by (rule sq(1))
    fix x y
    show "get_link (set_both ?g a b (set_both ?f a b (links m))) x y = get_link (links m) x y"
      unfolding get_set_both [OF sq(2) ab assms(4)] get_set_both [OF sq(1) ab assms(4)]
      using assms(5,6) by auto
  qed
  moreover have "map_setInitWeight h1 h2 (map_setMaxWeight h1 h2 m)
      = m\<lparr>links := set_both ?g a b (set_both ?f a b (links m))\<rparr>"
    using setMaxWeight_known [OF assms(2,3)]
      setInitWeight_known [of "m\<lparr>links := set_both ?f a b (links m)\<rparr>" h1 a h2 b] assms(2,3) by simp
  ultimately show ?thesis by simp
qed

theorem weight_restored_witness:
  "map_setInitWeight ''A'' ''B'' (map_setMaxWeight ''A'' ''B'' chain_map) = chain_map"
  by (rule weight_restored [OF chain_map_wf, where a = 0 and b = 1])
    (simp_all add: chain_map_names um_find_def chain_map_links get_link_def)

text \<open>
  A link at the maximal weight hides what lies behind it. On a chain A - B - C, after A marks its
  link to B with \<open>setMaxWeight\<close> (weight \<open>INT_MAX - 1\<close>), B keeps its route but C has none: the distance
  \<open>INT_MAX\<close> is not below \<open>INT_MAX\<close>. With weight 2 between B and C the sum overflows \<open>int\<close>.
\<close>

theorem max_weight_hides_host:
  "getRoute (map_setMaxWeight ''A'' ''B'' chain_map) = Inr [(''B'', (''a1'', ''b1''))] \<and>
   getRoute (map_setMaxWeight ''A'' ''B'' (map_init (chain\<lparr>cf_map := [(''B'', ''C'', 2)]\<rparr>) ''A'' empty_map))
     = Inl SignedOverflow"
proof
  show "getRoute (map_setMaxWeight ''A'' ''B'' chain_map) = Inr [(''B'', (''a1'', ''b1''))]"
    by code_simp
  show "getRoute (map_setMaxWeight ''A'' ''B'' (map_init (chain\<lparr>cf_map := [(''B'', ''C'', 2)]\<rparr>) ''A'' empty_map))
     = Inl SignedOverflow"
    by code_simp
qed

end
