(* ===== verification/TcpHost.thy ===== *)
theory TcpHost
  imports HttpApi
begin

text \<open>
  A TCP link to another host, \<open>TcpHostInterface\<close> of \<open>src/Master/src/tcp/TcpHostInterface.cpp\<close>: the three
  flags and the queue of requests. The asynchronous operations that a member function starts are the
  list of outputs.
\<close>

record 'r tcp_link =
  isConnected :: bool
  isReady :: bool
  isConnecting :: bool
  m_requestQueue :: "'r list"

datatype 'r tcp_io =
  StartTimer nat
| CancelTimer
| StartReconnectTimer nat
| AsyncConnect
| AsyncWrite 'r
| CancelStream
| CloseStream

definition new_tcp_link :: "'r tcp_link" where
  "new_tcp_link = \<lparr>isConnected = False, isReady = True, isConnecting = False, m_requestQueue = []\<rparr>"

definition doConnect :: "'r tcp_link \<Rightarrow> 'r tcp_link \<times> 'r tcp_io list" where
  "doConnect s =
     (if isConnecting s then (s, [])
      else (s\<lparr>isConnected := False, isConnecting := True\<rparr>, [StartTimer 1, AsyncConnect]))"

definition tcp_run :: "'r tcp_link \<Rightarrow> 'r tcp_link \<times> 'r tcp_io list" where
  "tcp_run s = (let (s, io) = doConnect s in (s, StartReconnectTimer 60 # io))"

definition onTimeout :: "bool \<Rightarrow> 'r tcp_link \<Rightarrow> 'r tcp_link \<times> 'r tcp_io list" where
  "onTimeout ec s = (if ec then (s, []) else (s, [CancelStream]))"

definition doWrite :: "'r tcp_link \<Rightarrow> 'r tcp_link \<times> 'r tcp_io list" where
  "doWrite s =
     (if isReady s \<and> isConnected s \<and> m_requestQueue s \<noteq> [] then
        (s\<lparr>isReady := False, m_requestQueue := tl (m_requestQueue s)\<rparr>,
         [StartTimer 1, AsyncWrite (hd (m_requestQueue s))])
      else (s, []))"

text \<open>
  \<open>onFail\<close> and \<open>onNew\<close> of the base class broadcast requests, which may come back to this very link
  before the handler goes on. The two handlers that call them are therefore written over the state
  of the caller: \<open>on_link\<close> runs a piece of the handler on the link, \<open>fail\<close> and \<open>new\<close> are the calls.
\<close>

definition onConnect ::
  "(('r tcp_link \<Rightarrow> 'r tcp_link \<times> 'r tcp_io list) \<Rightarrow> ('s, 'o) op) \<Rightarrow> ('s, 'o) op \<Rightarrow> ('s, 'o) op \<Rightarrow>
   bool \<Rightarrow> ('s, 'o) op" where
  "onConnect on_link fail new ec =
     and_then (on_link (\<lambda>l. (l\<lparr>isConnecting := False\<rparr>, [CancelTimer])))
       (if ec then and_then fail (on_link (\<lambda>l. (l, [CloseStream])))
        else and_then (on_link (\<lambda>l. doWrite (l\<lparr>isConnected := True\<rparr>))) new)"

text \<open>\<open>send\<close> prepares the caller's request in place and queues a copy.\<close>

definition tcp_send :: "'r http_api \<Rightarrow> 'r \<Rightarrow> 'r tcp_link \<Rightarrow> 'r tcp_link \<times> 'r \<times> 'r tcp_io list" where
  "tcp_send A req s =
     (let req = h_prepare A req;
          s = s\<lparr>m_requestQueue := m_requestQueue s @ [req]\<rparr>;
          (s, io) = (if \<not> isConnected s then doConnect s else doWrite s)
      in (s, req, io))"

definition onWrite ::
  "(('r tcp_link \<Rightarrow> 'r tcp_link \<times> 'r tcp_io list) \<Rightarrow> ('s, 'o) op) \<Rightarrow> ('s, 'o) op \<Rightarrow> bool \<Rightarrow> ('s, 'o) op" where
  "onWrite on_link fail ec =
     and_then (on_link (\<lambda>l. (l\<lparr>isReady := True\<rparr>, [CancelTimer])))
       (if ec then and_then fail (and_then (on_link (\<lambda>l. (l, [CloseStream]))) (on_link doConnect))
        else on_link doWrite)"

definition onReconnectTimeout :: "bool \<Rightarrow> 'r tcp_link \<Rightarrow> 'r tcp_link \<times> 'r tcp_io list" where
  "onReconnectTimeout ec s =
     (if ec then (s, [])
      else let (s, io) = (if \<not> isConnected s then doConnect s else (s, []))
        in (s, io @ [StartReconnectTimer 60]))"

subsection \<open>Behaviour of the link\<close>

text \<open>
  A run alternates the calls of the manager with completions of operations that were started: a
  connect completes after \<open>AsyncConnect\<close>, a write after \<open>AsyncWrite\<close>. The step relation keeps count.
  The calls of \<open>onFail\<close> and \<open>onNew\<close> may send any requests over the link.
\<close>

definition on_self :: "('r tcp_link \<Rightarrow> 'r tcp_link \<times> 'r tcp_io list) \<Rightarrow> ('r tcp_link, 'r tcp_io) op" where
  "on_self f l = Inr (f l)"

fun sends_by :: "('r \<Rightarrow> 'r tcp_link \<Rightarrow> 'r tcp_link \<times> 'r \<times> 'r tcp_io list) \<Rightarrow> 'r list \<Rightarrow> ('r tcp_link, 'r tcp_io) op" where
  "sends_by f [] l = Inr (l, [])"
| "sends_by f (r # rs) l =
     and_then (\<lambda>l. case f r l of (l, _, io) \<Rightarrow> Inr (l, io)) (sends_by f rs) l"

abbreviation sends :: "'r http_api \<Rightarrow> 'r list \<Rightarrow> ('r tcp_link, 'r tcp_io) op" where
  "sends A \<equiv> sends_by (tcp_send A)"

record 'r tcp_world =
  tw_link :: "'r tcp_link"
  tw_connects :: nat
  tw_writes :: nat
  tw_sent :: "'r list"
  tw_written :: "'r list"

fun is_connect :: "'r tcp_io \<Rightarrow> bool" where
  "is_connect AsyncConnect = True"
| "is_connect _ = False"

fun write_of :: "'r tcp_io \<Rightarrow> 'r list" where
  "write_of (AsyncWrite r) = [r]"
| "write_of _ = []"

definition after :: "'r tcp_link \<Rightarrow> 'r tcp_io list \<Rightarrow> 'r tcp_world \<Rightarrow> 'r tcp_world" where
  "after s io w = w\<lparr>tw_link := s,
     tw_connects := tw_connects w + length (filter is_connect io),
     tw_writes := tw_writes w + length (concat (map write_of io)),
     tw_written := tw_written w @ concat (map write_of io)\<rparr>"

inductive tcp_step :: "'r http_api \<Rightarrow> 'r tcp_world \<Rightarrow> 'r tcp_world \<Rightarrow> bool" for A where
  send: "tcp_send A r (tw_link w) = (s, r', io) \<Longrightarrow>
    tcp_step A w ((after s io w)\<lparr>tw_sent := tw_sent w @ [r']\<rparr>)"
| connected: "0 < tw_connects w \<Longrightarrow>
    onConnect on_self (sends A rs) (sends A rs) ec (tw_link w) = Inr (s, io) \<Longrightarrow>
    tcp_step A w ((after s io (w\<lparr>tw_connects := tw_connects w - 1\<rparr>))\<lparr>tw_sent := tw_sent w @ map (h_prepare A) rs\<rparr>)"
| wrote: "0 < tw_writes w \<Longrightarrow> onWrite on_self (sends A rs) ec (tw_link w) = Inr (s, io) \<Longrightarrow>
    tcp_step A w ((after s io (w\<lparr>tw_writes := tw_writes w - 1\<rparr>))\<lparr>tw_sent := tw_sent w @
      (if ec then map (h_prepare A) rs else [])\<rparr>)"
| reconnect: "onReconnectTimeout ec (tw_link w) = (s, io) \<Longrightarrow> tcp_step A w (after s io w)"
| timeout: "onTimeout ec (tw_link w) = (s, io) \<Longrightarrow> tcp_step A w (after s io w)"

inductive tcp_reach :: "'r http_api \<Rightarrow> 'r tcp_world \<Rightarrow> bool" for A where
  start: "tcp_run new_tcp_link = (s, io) \<Longrightarrow>
    tcp_reach A (after s io \<lparr>tw_link = new_tcp_link, tw_connects = 0, tw_writes = 0, tw_sent = [], tw_written = []\<rparr>)"
| step: "tcp_reach A w \<Longrightarrow> tcp_step A w w' \<Longrightarrow> tcp_reach A w'"

text \<open>
  One connect is pending exactly while \<open>isConnecting\<close>, one write exactly while not \<open>isReady\<close>; queue and
  written requests make up the sent ones.
\<close>

definition link_base :: "'r tcp_link \<Rightarrow> nat \<Rightarrow> nat \<Rightarrow> 'r list \<Rightarrow> 'r list \<Rightarrow> bool" where
  "link_base l c k sent written \<longleftrightarrow>
     c = (if isConnecting l then 1 else 0) \<and> k = (if isReady l then 0 else 1) \<and>
     \<not> (isConnecting l \<and> isConnected l) \<and> sent = written @ m_requestQueue l"

definition link_ok :: "'r tcp_link \<Rightarrow> nat \<Rightarrow> nat \<Rightarrow> 'r list \<Rightarrow> 'r list \<Rightarrow> bool" where
  "link_ok l c k sent written \<longleftrightarrow>
     link_base l c k sent written \<and> (isConnected l \<and> isReady l \<longrightarrow> m_requestQueue l = [])"

definition writes_of :: "'r tcp_io list \<Rightarrow> 'r list" where
  "writes_of io = concat (map write_of io)"

definition connects_of :: "'r tcp_io list \<Rightarrow> nat" where
  "connects_of io = length (filter is_connect io)"

lemma io_append [simp]:
  "writes_of (a @ b) = writes_of a @ writes_of b" "connects_of (a @ b) = connects_of a + connects_of b"
  by (simp_all add: writes_of_def connects_of_def)

lemmas link_defs = link_ok_def link_base_def writes_of_def connects_of_def

text \<open>
  What the handlers rely on when requests come back to the link: a \<open>send\<close> keeps the count of pending
  operations and the order, and does not leave a request waiting on a connection that is idle.
\<close>

locale queued_link =
  fixes prep :: "'r \<Rightarrow> 'r"
    and put :: "'r \<Rightarrow> 'r tcp_link \<Rightarrow> 'r tcp_link \<times> 'r \<times> 'r tcp_io list"
  assumes put_base: "link_base l c k sent written \<Longrightarrow> put r l = (l', r', io) \<Longrightarrow>
      link_base l' (c + connects_of io) (k + length (writes_of io)) (sent @ [prep r]) (written @ writes_of io)"
    and put_idle: "link_base l c k sent written \<Longrightarrow> put r l = (l', r', io) \<Longrightarrow>
      (isConnected l \<and> isReady l \<longrightarrow> m_requestQueue l = []) \<Longrightarrow>
      (isConnected l' \<and> isReady l' \<longrightarrow> m_requestQueue l' = [])"
    and put_request: "put r l = (l', r', io) \<Longrightarrow> r' = prep r"
begin

lemma put_ok:
  assumes "link_ok l c k sent written" and "put r l = (l', r', io)"
  shows "link_ok l' (c + connects_of io) (k + length (writes_of io)) (sent @ [r']) (written @ writes_of io)"
  using put_base [OF _ assms(2)] put_idle [OF _ assms(2)] put_request [OF assms(2)] assms(1)
  unfolding link_ok_def by metis

lemma puts_base:
  assumes "link_base l c k sent written" and "sends_by put rs l = Inr (l', io)"
  shows "link_base l' (c + connects_of io) (k + length (writes_of io)) (sent @ map prep rs) (written @ writes_of io)
    \<and> ((isConnected l \<and> isReady l \<longrightarrow> m_requestQueue l = []) \<longrightarrow>
       (isConnected l' \<and> isReady l' \<longrightarrow> m_requestQueue l' = []))"
  using assms
proof (induction rs arbitrary: l c k sent written io)
  case Nil
  then show ?case by (simp add: writes_of_def connects_of_def)
next
  case (Cons r rs)
  obtain l1 r1 o1 where 1: "put r l = (l1, r1, o1)" by (cases "put r l")
  obtain o2 where 2: "sends_by put rs l1 = Inr (l', o2)" "io = o1 @ o2"
    using Cons.prems(2) 1 by (auto simp: and_then_Inr)
  have "link_base l1 (c + connects_of o1) (k + length (writes_of o1)) (sent @ [prep r]) (written @ writes_of o1)"
    using put_base [OF Cons.prems(1) 1] .
  from Cons.IH [OF this 2(1)] put_idle [OF Cons.prems(1) 1] show ?case
    by (simp add: 2(2) add.assoc)
qed

lemma puts_ok:
  assumes "link_ok l c k sent written" and "sends_by put rs l = Inr (l', io)"
  shows "link_ok l' (c + connects_of io) (k + length (writes_of io)) (sent @ map prep rs) (written @ writes_of io)"
  using assms puts_base [of l c k sent written rs l' io] by (simp add: link_ok_def)

end

interpretation tcp: queued_link "h_prepare A" "tcp_send A" for A :: "'r http_api"
  by unfold_locales
    (auto simp: link_defs tcp_send_def doConnect_def doWrite_def Let_def split: if_splits prod.splits)

lemma doWrite_link_ok:
  assumes "c = (if isConnecting l then 1 else 0)" and "k = (if isReady l then 0 else 1)"
    and "\<not> (isConnecting l \<and> isConnected l)" and "sent = written @ m_requestQueue l"
    and "doWrite l = (l', io)"
  shows "link_ok l' (c + connects_of io) (k + length (writes_of io)) sent (written @ writes_of io)"
  using assms by (auto simp: link_defs doWrite_def split: if_splits)

definition tcp_inv :: "'r tcp_world \<Rightarrow> bool" where
  "tcp_inv w \<longleftrightarrow> link_ok (tw_link w) (tw_connects w) (tw_writes w) (tw_sent w) (tw_written w)"

lemma after_inv: "tcp_inv ((after s io w)\<lparr>tw_sent := sent\<rparr>) \<longleftrightarrow>
    link_ok s (tw_connects w + connects_of io) (tw_writes w + length (writes_of io)) sent (tw_written w @ writes_of io)"
  by (simp add: tcp_inv_def after_def writes_of_def connects_of_def)

lemma connect_link_ok:
  assumes "link_ok l c k sent written" and "0 < c"
    and "onConnect on_self (sends A rs) (sends A rs) ec l = Inr (l', io)"
  shows "link_ok l' (c - 1 + connects_of io) (k + length (writes_of io)) (sent @ map (h_prepare A) rs) (written @ writes_of io)"
proof (cases ec)
  case True
  then obtain o2 where o2: "sends A rs (l\<lparr>isConnecting := False\<rparr>) = Inr (l', o2)"
    "io = [CancelTimer] @ o2 @ [CloseStream]"
    using assms(3) by (auto simp: onConnect_def and_then_Inr on_self_def)
  have "link_ok (l\<lparr>isConnecting := False\<rparr>) (c - 1) k sent written"
    using assms(1,2) by (auto simp: link_defs split: if_splits)
  from tcp.puts_ok [OF this o2(1)] show ?thesis
    by (simp add: o2(2)) (simp add: writes_of_def connects_of_def)
next
  case False
  let ?l = "l\<lparr>isConnecting := False, isConnected := True\<rparr>"
  obtain l1 o1 o2 where o: "doWrite ?l = (l1, o1)" "sends A rs l1 = Inr (l', o2)" "io = [CancelTimer] @ o1 @ o2"
    using assms(3) False by (auto simp: onConnect_def and_then_Inr on_self_def)
  have "link_ok l1 (c - 1 + connects_of o1) (k + length (writes_of o1)) sent (written @ writes_of o1)"
    using assms(1,2) o(1) by (intro doWrite_link_ok) (auto simp: link_defs split: if_splits)
  from tcp.puts_ok [OF this o(2)] show ?thesis
    by (simp add: o(3) add.assoc) (simp add: writes_of_def connects_of_def)
qed

lemma write_link_ok:
  assumes "link_ok l c k sent written" and "0 < k"
    and "onWrite on_self (sends A rs) ec l = Inr (l', io)"
  shows "link_ok l' (c + connects_of io) (k - 1 + length (writes_of io))
    (sent @ (if ec then map (h_prepare A) rs else [])) (written @ writes_of io)"
proof (cases ec)
  case False
  then obtain o1 where o1: "doWrite (l\<lparr>isReady := True\<rparr>) = (l', o1)" "io = [CancelTimer] @ o1"
    using assms(3) by (auto simp: onWrite_def and_then_Inr on_self_def)
  have "link_ok l' (c + connects_of o1) (k - 1 + length (writes_of o1)) sent (written @ writes_of o1)"
    using assms(1,2) o1(1) by (intro doWrite_link_ok) (auto simp: link_defs split: if_splits)
  then show ?thesis using False by (simp add: o1(2)) (simp add: writes_of_def connects_of_def)
next
  case True
  then obtain l1 o1 o2 where o: "sends A rs (l\<lparr>isReady := True\<rparr>) = Inr (l1, o1)" "doConnect l1 = (l', o2)"
    "io = [CancelTimer] @ o1 @ [CloseStream] @ o2"
    using assms(3) by (auto simp: onWrite_def and_then_Inr on_self_def)
  have "link_base (l\<lparr>isReady := True\<rparr>) c (k - 1) sent written"
    using assms(1,2) by (auto simp: link_defs split: if_splits)
  then have b: "link_base l1 (c + connects_of o1) (k - 1 + length (writes_of o1))
      (sent @ map (h_prepare A) rs) (written @ writes_of o1)"
    using tcp.puts_base [OF _ o(1)] by blast
  then have "link_ok l' (c + connects_of o1 + connects_of o2) (k - 1 + length (writes_of o1) + length (writes_of o2))
      (sent @ map (h_prepare A) rs) (written @ writes_of o1 @ writes_of o2)"
    using o(2) by (auto simp: link_defs doConnect_def split: if_splits)
  then show ?thesis using True by (simp add: o(3) add.assoc) (simp add: writes_of_def connects_of_def)
qed

lemma tcp_step_inv:
  assumes "tcp_step A w w'" and "tcp_inv w"
  shows "tcp_inv w'"
  using assms(1)
proof cases
  case (send r s r' io)
  have l: "link_ok (tw_link w) (tw_connects w) (tw_writes w) (tw_sent w) (tw_written w)"
    using assms(2) by (simp add: tcp_inv_def)
  show ?thesis using tcp.put_ok [OF l send(2)] unfolding send(1) after_inv .
next
  case (connected rs ec s io)
  then show ?thesis
    using connect_link_ok [of "tw_link w" "tw_connects w" "tw_writes w" "tw_sent w" "tw_written w" A rs ec s io] assms(2)
    unfolding connected(1) after_inv by (simp add: tcp_inv_def)
next
  case (wrote rs ec s io)
  then show ?thesis
    using write_link_ok [of "tw_link w" "tw_connects w" "tw_writes w" "tw_sent w" "tw_written w" A rs ec s io] assms(2)
    unfolding wrote(1) after_inv by (simp add: tcp_inv_def)
next
  case (reconnect ec s io)
  then show ?thesis using assms(2)
    by (auto simp: tcp_inv_def after_def onReconnectTimeout_def doConnect_def link_ok_def link_base_def
        Let_def split: if_splits)
next
  case (timeout ec s io)
  then show ?thesis using assms(2)
    by (auto simp: tcp_inv_def after_def onTimeout_def split: if_splits)
qed

lemma tcp_reach_inv: "tcp_reach A w \<Longrightarrow> tcp_inv w"
proof (induction rule: tcp_reach.induct)
  case (start s io)
  then show ?case
    by (auto simp: tcp_inv_def after_def tcp_run_def doConnect_def new_tcp_link_def link_defs)
qed (rule tcp_step_inv)

definition sample_tcp :: "bool \<Rightarrow> request tcp_world" where
  "sample_tcp ok = \<lparr>tw_link = \<lparr>isConnected = ok, isReady = \<not> ok, isConnecting = \<not> ok,
       m_requestQueue = (if ok then [] else [h_make list_http v_post ''/x''])\<rparr>,
     tw_connects = (if ok then 0 else 1), tw_writes = (if ok then 1 else 0),
     tw_sent = [h_make list_http v_post ''/x''],
     tw_written = (if ok then [h_make list_http v_post ''/x''] else [])\<rparr>"

lemma sample_tcp_reach: "tcp_reach list_http (sample_tcp False)" "tcp_reach list_http (sample_tcp True)"
proof -
  let ?w0 = "\<lparr>tw_link = new_tcp_link, tw_connects = 0, tw_writes = 0, tw_sent = [], tw_written = []\<rparr> :: request tcp_world"
  let ?w1 = "after (fst (tcp_run new_tcp_link)) (snd (tcp_run new_tcp_link)) ?w0"
  have r1: "tcp_reach list_http ?w1" by (rule tcp_reach.start) simp
  let ?r = "h_make list_http v_post ''/x''"
  let ?s = "\<lparr>isConnected = False, isReady = True, isConnecting = True, m_requestQueue = [?r]\<rparr>"
  have "tcp_send list_http ?r (tw_link ?w1) = (?s, ?r, [])"
    by (simp add: after_def tcp_run_def doConnect_def new_tcp_link_def tcp_send_def list_http_def Let_def)
  from tcp_step.send [OF this]
  have "tcp_step list_http ?w1 (sample_tcp False)"
    by (simp add: sample_tcp_def after_def tcp_run_def doConnect_def new_tcp_link_def)
  with r1 show r2: "tcp_reach list_http (sample_tcp False)" by (rule tcp_reach.step)
  have "onConnect on_self (sends list_http []) (sends list_http []) False (tw_link (sample_tcp False)) = Inr
      (\<lparr>isConnected = True, isReady = False, isConnecting = False, m_requestQueue = []\<rparr>,
       [CancelTimer, StartTimer 1, AsyncWrite ?r])"
    by (simp add: sample_tcp_def onConnect_def doWrite_def and_then_def on_self_def)
  from tcp_step.connected [OF _ this]
  have "tcp_step list_http (sample_tcp False) (sample_tcp True)"
    by (simp add: sample_tcp_def after_def)
  with r2 show "tcp_reach list_http (sample_tcp True)" by (rule tcp_reach.step)
qed



text \<open>
  Nothing waits on a working connection: a reachable link that is connected with no write under
  way has an empty queue, and a link that is not connected starts connecting with the next send.
\<close>

theorem tcp_not_stuck:
  assumes "tcp_reach A w"
  shows "(isConnected (tw_link w) \<and> tw_writes w = 0 \<longrightarrow> m_requestQueue (tw_link w) = []) \<and>
    (\<not> isConnected (tw_link w) \<longrightarrow> isConnecting (fst (tcp_send A r (tw_link w))))"
  using tcp_reach_inv [OF assms] by (auto simp: tcp_inv_def link_ok_def link_base_def tcp_send_def doConnect_def Let_def split: if_splits)

theorem tcp_not_stuck_witness:
  "isConnecting (fst (tcp_send list_http (h_make list_http v_post ''/x'') (tw_link (sample_tcp False))))"
  using tcp_not_stuck [OF sample_tcp_reach(1), of "h_make list_http v_post ''/x''"] by (simp add: sample_tcp_def)

text \<open>
  After a write failed, the report of the failure goes out over the same link before the connection is closed:
  it is written at once, then the stream is closed and the next connect starts with that write under way. The
  request is gone from the queue.
\<close>

theorem failed_link_writes_on:
  "\<exists>w. tcp_reach list_http w \<and> tw_connects w = 1 \<and> tw_writes w = 1 \<and> m_requestQueue (tw_link w) = [] \<and>
    \<not> isConnected (tw_link w)"
proof -
  let ?r = "h_make list_http v_post ''/x''"
  let ?s = "\<lparr>isConnected = False, isReady = False, isConnecting = True, m_requestQueue = []\<rparr> :: request tcp_link"
  let ?io = "[CancelTimer, StartTimer 1, AsyncWrite ?r, CloseStream, StartTimer 1, AsyncConnect]"
  have "onWrite on_self (sends list_http [?r]) True (tw_link (sample_tcp True)) = Inr (?s, ?io)"
    by (simp add: sample_tcp_def onWrite_def doWrite_def doConnect_def and_then_def on_self_def tcp_send_def list_http_def Let_def)
  from tcp_step.wrote [OF _ this]
  have "tcp_step list_http (sample_tcp True) ((after ?s ?io ((sample_tcp True)\<lparr>tw_writes := tw_writes (sample_tcp True) - 1\<rparr>))
      \<lparr>tw_sent := tw_sent (sample_tcp True) @ map (h_prepare list_http) [?r]\<rparr>)"
    by (simp add: sample_tcp_def)
  with sample_tcp_reach(2) have "tcp_reach list_http ((after ?s ?io ((sample_tcp True)\<lparr>tw_writes := tw_writes (sample_tcp True) - 1\<rparr>))
      \<lparr>tw_sent := tw_sent (sample_tcp True) @ map (h_prepare list_http) [?r]\<rparr>)" by (rule tcp_reach.step)
  then show ?thesis by (intro exI conjI, assumption) (simp_all add: after_def sample_tcp_def)
qed

end
