(* ===== verification/HostTable.thy ===== *)
theory HostTable
  imports Prelude
begin

text \<open>
  What the master knows of another host, \<open>Host\<close> of \<open>src/Master/src/interface/Host.cpp\<close>: its nodes, and
  for every node the topics it publishes and subscribes to with their types.
\<close>

type_synonym topics = "(string, string) umap"

record host_info =
  hi_name :: string
  node2pub :: "(string, topics) umap"
  node2sub :: "(string, topics) umap"
  nodelist :: "string list"
  hostInterfaceList :: "(string, nat option) umap"

definition new_host :: "string \<Rightarrow> host_info" where
  "new_host name = \<lparr>hi_name = name, node2pub = [], node2sub = [], nodelist = [], hostInterfaceList = []\<rparr>"

text \<open>\<open>unordered_set\<close>: a list without duplicates.\<close>

definition us_insert :: "'a \<Rightarrow> 'a list \<Rightarrow> 'a list" where
  "us_insert x s = (if x \<in> set s then s else s @ [x])"

definition us_erase :: "'a \<Rightarrow> 'a list \<Rightarrow> 'a list" where
  "us_erase x s = filter (\<lambda>y. y \<noteq> x) s"

lemma set_us_insert [simp]: "set (us_insert x s) = insert x (set s)"
  by (auto simp: us_insert_def)

lemma set_us_erase [simp]: "set (us_erase x s) = set s - {x}"
  by (auto simp: us_erase_def)

lemma distinct_us [simp, wf_intros]: "distinct s \<Longrightarrow> distinct (us_insert x s)" "distinct s \<Longrightarrow> distinct (us_erase x s)"
  by (simp_all add: us_insert_def us_erase_def)

definition host_setHostInterface :: "string \<Rightarrow> nat option \<Rightarrow> host_info \<Rightarrow> host_info" where
  "host_setHostInterface interfaceName hostInterface h =
     h\<lparr>hostInterfaceList := um_put interfaceName hostInterface (hostInterfaceList h)\<rparr>"

definition host_addNode :: "string \<Rightarrow> host_info \<Rightarrow> host_info" where
  "host_addNode node h = h\<lparr>nodelist := us_insert node (nodelist h)\<rparr>"

text \<open>
  \<open>deleteNode\<close> returns the topics of the entries of \<open>node2subtopic2type\<close>: of every node, and before the
  deleted node's own entry is erased.
\<close>

definition host_deleteNode :: "string \<Rightarrow> host_info \<Rightarrow> host_info \<times> string list" where
  "host_deleteNode node h =
     (let h = h\<lparr>nodelist := us_erase node (nodelist h), node2pub := um_erase node (node2pub h)\<rparr>;
          res = concat (map (\<lambda>(nodeName, topic2type). map fst topic2type) (node2sub h))
      in (h\<lparr>node2sub := um_erase node (node2sub h)\<rparr>, res))"

text \<open>\<open>m[node][topic] = type\<close> and \<open>m[node].erase(topic)\<close>; both create the entry of a new node.\<close>

definition put_topic :: "string \<Rightarrow> string \<Rightarrow> string \<Rightarrow> (string, topics) umap \<Rightarrow> (string, topics) umap" where
  "put_topic node topic type m =
     (let (t, m) = um_index [] node m in um_put node (um_put topic type t) m)"

definition erase_topic :: "string \<Rightarrow> string \<Rightarrow> (string, topics) umap \<Rightarrow> (string, topics) umap" where
  "erase_topic node topic m =
     (let (t, m) = um_index [] node m in um_put node (um_erase topic t) m)"

definition host_addSub :: "string \<Rightarrow> string \<Rightarrow> string \<Rightarrow> host_info \<Rightarrow> host_info" where
  "host_addSub node topic type h = h\<lparr>node2sub := put_topic node topic type (node2sub h)\<rparr>"

definition host_deleteSub :: "string \<Rightarrow> string \<Rightarrow> host_info \<Rightarrow> host_info" where
  "host_deleteSub node topic h = h\<lparr>node2sub := erase_topic node topic (node2sub h)\<rparr>"

definition host_addPub :: "string \<Rightarrow> string \<Rightarrow> string \<Rightarrow> host_info \<Rightarrow> host_info" where
  "host_addPub node topic type h = h\<lparr>node2pub := put_topic node topic type (node2pub h)\<rparr>"

definition host_deletePub :: "string \<Rightarrow> string \<Rightarrow> host_info \<Rightarrow> host_info" where
  "host_deletePub node topic h = h\<lparr>node2pub := erase_topic node topic (node2pub h)\<rparr>"

definition host_clear :: "host_info \<Rightarrow> host_info" where
  "host_clear h = h\<lparr>nodelist := [], node2pub := [], node2sub := []\<rparr>"

subsection \<open>What is subscribed\<close>

definition subscribes :: "host_info \<Rightarrow> string \<Rightarrow> string \<Rightarrow> bool" where
  "subscribes h node topic \<longleftrightarrow>
     (\<exists>t ty. um_find (node2sub h) node = Some t \<and> um_find t topic = Some ty)"

definition sub_topics :: "host_info \<Rightarrow> string set" where
  "sub_topics h = {topic. \<exists>node. subscribes h node topic}"

lemma subscribes_addSub [simp]:
  "subscribes (host_addSub n t ty h) node topic \<longleftrightarrow> node = n \<and> topic = t \<or> subscribes h node topic"
  by (auto simp: subscribes_def host_addSub_def put_topic_def case_prod_beta Let_def um_index_value um_find_index
      split: option.splits if_splits)

lemma subscribes_addPub [simp]: "subscribes (host_addPub n t ty h) = subscribes h"
  by (simp add: subscribes_def host_addPub_def fun_eq_iff)

lemma subscribes_addNode [simp]: "subscribes (host_addNode n h) = subscribes h"
  by (simp add: subscribes_def host_addNode_def fun_eq_iff)

lemma subscribes_deleteNode [simp]:
  "subscribes (fst (host_deleteNode n h)) node topic \<longleftrightarrow> node \<noteq> n \<and> subscribes h node topic"
  by (auto simp: subscribes_def host_deleteNode_def Let_def)

lemma subscribes_clear [simp]: "\<not> subscribes (host_clear h) node topic"
  by (simp add: subscribes_def host_clear_def)

definition subs_wf :: "host_info \<Rightarrow> bool" where
  "subs_wf h \<longleftrightarrow> um_wf (node2sub h) \<and> (\<forall>n t. um_find (node2sub h) n = Some t \<longrightarrow> um_wf t)"

lemma deleteNode_topics:
  assumes "subs_wf h"
  shows "set (snd (host_deleteNode n h)) = sub_topics h"
proof -
  have "x \<in> set (snd (host_deleteNode n h)) \<longleftrightarrow> x \<in> sub_topics h" for x
  proof -
    have "x \<in> set (snd (host_deleteNode n h)) \<longleftrightarrow> (\<exists>a t. (a, t) \<in> set (node2sub h) \<and> x \<in> fst ` set t)"
      by (force simp: host_deleteNode_def Let_def)
    also have "\<dots> \<longleftrightarrow> (\<exists>a t. um_find (node2sub h) a = Some t \<and> x \<in> um_keys t)"
      using um_find_mem [of "node2sub h"] assms by (auto simp: subs_wf_def um_keys_def)
    also have "\<dots> \<longleftrightarrow> x \<in> sub_topics h"
      by (auto simp: sub_topics_def subscribes_def um_keys_find)
    finally show ?thesis .
  qed
  then show ?thesis by blast
qed

end
