(* ===== verification/ShmRegistry.thy ===== *)
theory ShmRegistry
  imports HostTable HttpApi
begin

text \<open>
  The registry of the local nodes, \<open>src/Master/src/shm/\<close>: \<open>Node\<close>, \<open>Publish\<close> and \<open>Subscribe\<close> objects
  and the three maps of \<open>MiddlewareManager\<close>. An object behind a shared pointer is a record with an
  identity; comparing pointers compares identities. The queues in shared memory are lists of at most
  \<open>QUEUE_SIZE\<close> messages, which the node's process pushes to or pops from. Exhausted shared memory is
  not modelled.
\<close>

subsection \<open>Objects\<close>

text \<open>\<open>Publish\<close> and \<open>Subscribe\<close> keep the same data; their queue is in \<open>mw_queues\<close> under the identity.\<close>

record endpoint =
  ep_id :: nat
  ep_topic :: string
  ep_type :: string
  ep_node :: string

record node =
  nd_name :: string
  nd_pid :: int
  nd_publishes :: "(string, endpoint) umap"
  nd_subscribes :: "(string, endpoint) umap"

text \<open>A null shared pointer in \<open>m_nodes\<close> is \<open>None\<close>.\<close>

record mw =
  m_nodes :: "(string, node option) umap"
  m_publishes :: "(string, endpoint list) umap"
  m_subscribes :: "(string, endpoint list) umap"
  mw_queues :: "(nat, string list) umap"
  mw_next_id :: nat

datatype mw_out =
  EventfdRead nat
| EventfdWrite nat
| EventfdCancel nat

definition new_mw :: mw where
  "new_mw = \<lparr>m_nodes = [], m_publishes = [], m_subscribes = [], mw_queues = [], mw_next_id = 0\<rparr>"

definition QUEUE_SIZE :: nat where "QUEUE_SIZE = 10"

subsection \<open>Node\<close>

definition new_node :: "string \<Rightarrow> int \<Rightarrow> node" where
  "new_node name pid = \<lparr>nd_name = name, nd_pid = pid, nd_publishes = [], nd_subscribes = []\<rparr>"

definition containsPublish :: "string \<Rightarrow> node \<Rightarrow> bool" where
  "containsPublish topic nd \<longleftrightarrow> um_find (nd_publishes nd) topic \<noteq> None"

definition containsSubscribe :: "string \<Rightarrow> node \<Rightarrow> bool" where
  "containsSubscribe topic nd \<longleftrightarrow> um_find (nd_subscribes nd) topic \<noteq> None"

definition addPublish :: "endpoint \<Rightarrow> node \<Rightarrow> node" where
  "addPublish e nd = nd\<lparr>nd_publishes := um_put (ep_topic e) e (nd_publishes nd)\<rparr>"

definition addSubscribe :: "endpoint \<Rightarrow> node \<Rightarrow> node" where
  "addSubscribe e nd = nd\<lparr>nd_subscribes := um_put (ep_topic e) e (nd_subscribes nd)\<rparr>"

definition removePublish :: "string \<Rightarrow> node \<Rightarrow> node \<times> endpoint option" where
  "removePublish topic nd =
     (case um_find (nd_publishes nd) topic of None \<Rightarrow> (nd, None)
      | Some e \<Rightarrow> (nd\<lparr>nd_publishes := um_erase topic (nd_publishes nd)\<rparr>, Some e))"

definition removeSubscribe :: "string \<Rightarrow> node \<Rightarrow> node \<times> endpoint option" where
  "removeSubscribe topic nd =
     (case um_find (nd_subscribes nd) topic of None \<Rightarrow> (nd, None)
      | Some e \<Rightarrow> (nd\<lparr>nd_subscribes := um_erase topic (nd_subscribes nd)\<rparr>, Some e))"

definition removeAllPublish :: "node \<Rightarrow> node \<times> endpoint list" where
  "removeAllPublish nd = (nd\<lparr>nd_publishes := []\<rparr>, map snd (nd_publishes nd))"

definition removeAllSubscribe :: "node \<Rightarrow> node \<times> endpoint list" where
  "removeAllSubscribe nd = (nd\<lparr>nd_subscribes := []\<rparr>, map snd (nd_subscribes nd))"

definition getAllPublishTopics :: "node \<Rightarrow> (string \<times> string) list" where
  "getAllPublishTopics nd = map (\<lambda>(topic, e). (topic, ep_type e)) (nd_publishes nd)"

definition getAllSubscribeTopics :: "node \<Rightarrow> (string \<times> string) list" where
  "getAllSubscribeTopics nd = map (\<lambda>(topic, e). (topic, ep_type e)) (nd_subscribes nd)"

subsection \<open>Publish and Subscribe\<close>

text \<open>What the system calls of \<open>run\<close> answer.\<close>

datatype os_result = PidfdError | GetfdError | ShmError | OsOk

definition make_endpoint :: "string \<Rightarrow> string \<Rightarrow> node \<Rightarrow> mw \<Rightarrow> mw \<times> endpoint" where
  "make_endpoint topic type nd m =
     (m\<lparr>mw_next_id := mw_next_id m + 1\<rparr>,
      \<lparr>ep_id = mw_next_id m, ep_topic = topic, ep_type = type, ep_node = nd_name nd\<rparr>)"

definition Publish_run :: "os_result \<Rightarrow> endpoint \<Rightarrow> mw \<Rightarrow> bool \<times> mw \<times> mw_out list" where
  "Publish_run os e m =
     (if os = PidfdError then (False, m, []) else if os = GetfdError then (False, m, [])
      else if os = ShmError then (False, m, [])
      else (True, m\<lparr>mw_queues := um_put (ep_id e) [] (mw_queues m)\<rparr>, [EventfdRead (ep_id e)]))"

definition Subscribe_run :: "os_result \<Rightarrow> endpoint \<Rightarrow> mw \<Rightarrow> bool \<times> mw" where
  "Subscribe_run os e m =
     (if os = PidfdError then (False, m) else if os = GetfdError then (False, m)
      else if os = ShmError then (False, m)
      else (True, m\<lparr>mw_queues := um_put (ep_id e) [] (mw_queues m)\<rparr>))"

definition queue_push :: "nat \<Rightarrow> string \<Rightarrow> mw \<Rightarrow> bool \<times> mw" where
  "queue_push i message m =
     (let q = um_at [] (mw_queues m) i in
      if length q < QUEUE_SIZE then (True, m\<lparr>mw_queues := um_put i (q @ [message]) (mw_queues m)\<rparr>)
      else (False, m))"

text \<open>\<open>pop\<close> leaves the empty message when there is none; the program ignores what it returns.\<close>

definition queue_pop :: "nat \<Rightarrow> mw \<Rightarrow> string \<times> mw" where
  "queue_pop i m =
     (case um_at [] (mw_queues m) i of [] \<Rightarrow> ([], m)
      | message # q \<Rightarrow> (message, m\<lparr>mw_queues := um_put i q (mw_queues m)\<rparr>))"

definition publish2Node :: "string \<Rightarrow> endpoint \<Rightarrow> mw \<Rightarrow> mw \<times> mw_out list" where
  "publish2Node message e m =
     (let (ok, m) = queue_push (ep_id e) message m in (m, if ok then [EventfdWrite (ep_id e)] else []))"

subsection \<open>MiddlewareManager\<close>

fun publish_loop :: "string \<Rightarrow> endpoint list \<Rightarrow> mw \<Rightarrow> mw \<times> mw_out list" where
  "publish_loop message [] m = (m, [])"
| "publish_loop message (e # es) m =
     (let (m, o1) = publish2Node message e m; (m, o2) = publish_loop message es m in (m, o1 @ o2))"

definition transferInnerMessage :: "string \<Rightarrow> string \<Rightarrow> mw \<Rightarrow> mw \<times> mw_out list" where
  "transferInnerMessage topic message m =
     (case um_find (m_subscribes m) topic of None \<Rightarrow> (m, [])
      | Some es \<Rightarrow> publish_loop message es m)"

fun node_infos :: "(string \<times> node option) list \<Rightarrow> error + node_info list" where
  "node_infos [] = Inr []"
| "node_infos ((name, None) # ns) = Inl NullDeref"
| "node_infos ((name, Some nd) # ns) =
     (case node_infos ns of Inl e \<Rightarrow> Inl e
      | Inr is \<Rightarrow> Inr (\<lparr>ni_name = name, ni_pubtopics = getAllPublishTopics nd,
          ni_subtopics = getAllSubscribeTopics nd\<rparr> # is))"

definition getAllNodeInfo :: "json_api \<Rightarrow> mw \<Rightarrow> error + string" where
  "getAllNodeInfo J m = map_sum id (j_write J) (node_infos (m_nodes m))"

subsection \<open>The registry side of the controllers\<close>

text \<open>
  The parts of the handlers of \<open>NodeController\<close>, \<open>NodePubController\<close> and \<open>NodeSubController\<close> that
  work on the registry; \<open>None\<close> is the answer \<open>false\<close>, after which no other host is told.
\<close>

definition reg_addNode :: "string \<Rightarrow> int \<Rightarrow> mw \<Rightarrow> mw option" where
  "reg_addNode name pid m =
     (case um_find (m_nodes m) name of Some _ \<Rightarrow> None
      | None \<Rightarrow> Some (m\<lparr>m_nodes := um_put name (Some (new_node name pid)) (m_nodes m)\<rparr>))"

text \<open>\<open>m[topic].push_back(e)\<close>\<close>

definition push_endpoint :: "endpoint \<Rightarrow> (string, endpoint list) umap \<Rightarrow> (string, endpoint list) umap" where
  "push_endpoint e t = (let (v, t) = um_index [] (ep_topic e) t in um_put (ep_topic e) (v @ [e]) t)"

definition reg_addPublish :: "os_result \<Rightarrow> string \<Rightarrow> string \<Rightarrow> string \<Rightarrow> mw \<Rightarrow>
    error + bool \<times> mw \<times> mw_out list" where
  "reg_addPublish os name topic type m =
     (case um_find (m_nodes m) name of
        None \<Rightarrow> Inr (False, m, [])
      | Some None \<Rightarrow> Inl NullDeref
      | Some (Some nd) \<Rightarrow>
          if containsPublish topic nd then Inr (False, m, [])
          else
            let (m, e) = make_endpoint topic type nd m; (ok, m, out) = Publish_run os e m in
            if \<not> ok then Inr (False, m, out)
            else Inr (True, m\<lparr>m_nodes := um_put name (Some (addPublish e nd)) (m_nodes m),
                              m_publishes := push_endpoint e (m_publishes m)\<rparr>, out))"

definition reg_addSubscribe :: "os_result \<Rightarrow> string \<Rightarrow> string \<Rightarrow> string \<Rightarrow> mw \<Rightarrow> error + bool \<times> mw" where
  "reg_addSubscribe os name topic type m =
     (case um_find (m_nodes m) name of
        None \<Rightarrow> Inr (False, m)
      | Some None \<Rightarrow> Inl NullDeref
      | Some (Some nd) \<Rightarrow>
          if containsSubscribe topic nd then Inr (False, m)
          else
            let (m, e) = make_endpoint topic type nd m; (ok, m) = Subscribe_run os e m in
            if \<not> ok then Inr (False, m)
            else Inr (True, m\<lparr>m_nodes := um_put name (Some (addSubscribe e nd)) (m_nodes m),
                              m_subscribes := push_endpoint e (m_subscribes m)\<rparr>))"

text \<open>One round of the loops of \<open>handleDelete\<close>: \<open>erase(remove(...))\<close>, and the entry goes with the last one.\<close>

definition drop_endpoint :: "endpoint \<Rightarrow> (string, endpoint list) umap \<Rightarrow> (string, endpoint list) umap" where
  "drop_endpoint e t =
     (let (v, t) = um_index [] (ep_topic e) t;
          v = filter (\<lambda>x. ep_id x \<noteq> ep_id e) v;
          t = um_put (ep_topic e) v t
      in if v = [] then um_erase (ep_topic e) t else t)"

text \<open>\<open>m_nodes[node_name]\<close> creates a null entry for an unknown node, which stays.\<close>

definition reg_deleteNode :: "string \<Rightarrow> mw \<Rightarrow> bool \<times> mw \<times> mw_out list" where
  "reg_deleteNode name m =
     (let (nd, ns) = um_index None name (m_nodes m); m = m\<lparr>m_nodes := ns\<rparr> in
      case nd of None \<Rightarrow> (False, m, [])
      | Some nd \<Rightarrow>
          let (nd, subs) = removeAllSubscribe nd;
              m = m\<lparr>m_subscribes := fold drop_endpoint subs (m_subscribes m)\<rparr>;
              (nd, pubs) = removeAllPublish nd;
              m = m\<lparr>m_publishes := fold drop_endpoint pubs (m_publishes m)\<rparr>
          in (True, m\<lparr>m_nodes := um_erase name (m_nodes m)\<rparr>,
              map (\<lambda>e. EventfdCancel (ep_id e)) (subs @ pubs)))"

subsection \<open>Consistency of the registry\<close>

text \<open>
  The endpoint that node \<open>n\<close> has for topic \<open>t\<close>, and the contract of the two tables that list the
  endpoints of each topic: exactly those that some node has.
\<close>

definition tab :: "(node \<Rightarrow> (string, endpoint) umap) \<Rightarrow> (string, node option) umap \<Rightarrow>
    string \<Rightarrow> string \<Rightarrow> endpoint option" where
  "tab sel ns n t = (case um_find ns n of Some (Some nd) \<Rightarrow> um_find (sel nd) t | _ \<Rightarrow> None)"

lemma tab_Some: "tab sel ns n t = Some e \<longleftrightarrow> (\<exists>nd. um_find ns n = Some (Some nd) \<and> um_find (sel nd) t = Some e)"
  by (auto simp: tab_def split: option.splits)

definition index_ok :: "(string \<Rightarrow> string \<Rightarrow> endpoint option) \<Rightarrow> (string, endpoint list) umap \<Rightarrow> nat \<Rightarrow> bool" where
  "index_ok T tbl next \<longleftrightarrow>
     (\<forall>n t e. T n t = Some e \<longrightarrow> ep_topic e = t \<and> ep_node e = n \<and> ep_id e < next) \<and>
     (\<forall>n t e n' t' e'. T n t = Some e \<longrightarrow> T n' t' = Some e' \<longrightarrow> ep_id e = ep_id e' \<longrightarrow> e = e') \<and>
     (\<forall>t. um_find tbl t \<noteq> Some []) \<and>
     (\<forall>t. distinct (um_at [] tbl t) \<and> set (um_at [] tbl t) = {e. \<exists>n. T n t = Some e})"

lemma index_okD:
  assumes "index_ok T tbl next"
  shows "T n t = Some e \<Longrightarrow> ep_topic e = t" and "T n t = Some e \<Longrightarrow> ep_node e = n"
    and "T n t = Some e \<Longrightarrow> ep_id e < next"
    and "T n t = Some e \<Longrightarrow> T n' t' = Some e' \<Longrightarrow> ep_id e = ep_id e' \<Longrightarrow> e = e'"
    and "um_find tbl t \<noteq> Some []" and "distinct (um_at [] tbl t)"
    and "set (um_at [] tbl t) = {e. \<exists>n. T n t = Some e}"
  using assms unfolding index_ok_def by blast+

lemma index_ok_mono: "index_ok T tbl next \<Longrightarrow> next \<le> next' \<Longrightarrow> index_ok T tbl next'"
  unfolding index_ok_def by (meson less_le_trans)

lemma um_at_put [simp]: "um_at d (um_put k v m) k' = (if k' = k then v else um_at d m k')"
  by (simp add: um_at_def)

lemma um_at_erase [simp]: "um_at d (um_erase k m) k' = (if k' = k then d else um_at d m k')"
  by (simp add: um_at_def)

lemma um_index_at: "fst (um_index d k m) = um_at d m k"
  by (simp add: um_at_def um_index_value)

lemma um_at_index [simp]: "um_at d (snd (um_index d k m)) k' = um_at d m k'"
  by (simp add: um_at_def um_find_index split: option.split)

lemma push_endpoint_at:
  "um_at [] (push_endpoint e tbl) t = (if t = ep_topic e then um_at [] tbl t @ [e] else um_at [] tbl t)"
  by (simp add: push_endpoint_def case_prod_beta um_index_at)

lemma push_endpoint_nonempty: "um_find tbl t \<noteq> Some [] \<Longrightarrow> um_find (push_endpoint e tbl) t \<noteq> Some []"
  by (simp add: push_endpoint_def case_prod_beta um_find_index)

lemma index_ok_add:
  assumes "index_ok T tbl next" and "T n (ep_topic e) = None" and "ep_node e = n" and "ep_id e = next"
  shows "index_ok (T(n := (T n)(ep_topic e \<mapsto> e))) (push_endpoint e tbl) (next + 1)"
proof -
  note D = index_okD [OF assms(1)]
  let ?T = "T(n := (T n)(ep_topic e \<mapsto> e))"
  have old: "?T m t = Some x \<longleftrightarrow> x = e \<and> m = n \<and> t = ep_topic e \<or> T m t = Some x" for m t x
    using assms(2) by auto
  have fresh: "T m t = Some x \<Longrightarrow> ep_id x \<noteq> next" for m t x using D(3) by blast
  have "e \<notin> set (um_at [] tbl t)" for t
    using D(7) fresh assms(4) by fastforce
  then have "distinct (um_at [] (push_endpoint e tbl) t)" for t
    using D(6) by (simp add: push_endpoint_at)
  moreover have "set (um_at [] (push_endpoint e tbl) t) = {x. \<exists>m. ?T m t = Some x}" for t
    unfolding old using D(7) [of t] by (auto simp: push_endpoint_at)
  moreover have "\<forall>m t x. ?T m t = Some x \<longrightarrow> ep_topic x = t \<and> ep_node x = m \<and> ep_id x < next + 1"
    unfolding old using D(1-3) assms(3,4) by (metis less_add_one trans_less_add1)
  moreover have "\<forall>m t x m' t' x'. ?T m t = Some x \<longrightarrow> ?T m' t' = Some x' \<longrightarrow> ep_id x = ep_id x' \<longrightarrow> x = x'"
    unfolding old using D(4) fresh assms(4) by metis
  ultimately show ?thesis
    unfolding index_ok_def using push_endpoint_nonempty [OF D(5)] by blast
qed

lemma drop_endpoint_at:
  "um_at [] (drop_endpoint e tbl) t =
     (if t = ep_topic e then filter (\<lambda>x. ep_id x \<noteq> ep_id e) (um_at [] tbl t) else um_at [] tbl t)"
  by (simp add: drop_endpoint_def Let_def case_prod_beta um_index_at)

lemma drop_endpoint_nonempty: "\<forall>t. um_find tbl t \<noteq> Some [] \<Longrightarrow> um_find (drop_endpoint e tbl) t \<noteq> Some []"
  by (simp add: drop_endpoint_def Let_def case_prod_beta um_find_index)

lemma drop_fold:
  assumes "\<forall>t. um_find tbl t \<noteq> Some []"
  shows "um_at [] (fold drop_endpoint es tbl) t =
      filter (\<lambda>x. \<forall>e \<in> set es. ep_topic e = t \<longrightarrow> ep_id x \<noteq> ep_id e) (um_at [] tbl t)"
    and "um_find (fold drop_endpoint es tbl) t \<noteq> Some []"
proof -
  have "(\<forall>t. um_find (fold drop_endpoint es tbl) t \<noteq> Some []) \<and>
    (\<forall>t. um_at [] (fold drop_endpoint es tbl) t =
      filter (\<lambda>x. \<forall>e \<in> set es. ep_topic e = t \<longrightarrow> ep_id x \<noteq> ep_id e) (um_at [] tbl t))"
    using assms
  proof (induction es arbitrary: tbl)
    case (Cons e es)
    have "\<forall>t. um_find (drop_endpoint e tbl) t \<noteq> Some []" using drop_endpoint_nonempty Cons.prems by blast
    from Cons.IH [OF this] show ?case
      by (auto simp: drop_endpoint_at intro!: filter_cong)
  qed simp
  then show "um_at [] (fold drop_endpoint es tbl) t =
      filter (\<lambda>x. \<forall>e \<in> set es. ep_topic e = t \<longrightarrow> ep_id x \<noteq> ep_id e) (um_at [] tbl t)"
    and "um_find (fold drop_endpoint es tbl) t \<noteq> Some []" by blast+
qed

lemma index_ok_remove:
  assumes "index_ok T tbl next" and "set es = {e. \<exists>t. T n t = Some e}"
  shows "index_ok (T(n := \<lambda>_. None)) (fold drop_endpoint es tbl) next"
proof -
  note D = index_okD [OF assms(1)]
  let ?T = "T(n := \<lambda>_. None)"
  have old: "?T m t = Some x \<longleftrightarrow> m \<noteq> n \<and> T m t = Some x" for m t x by auto
  have ne: "\<forall>t. um_find tbl t \<noteq> Some []" using D(5) by blast
  have "x \<in> set (um_at [] (fold drop_endpoint es tbl) t) \<longleftrightarrow> (\<exists>m. ?T m t = Some x)" for t x
  proof -
    have "x \<in> set (um_at [] (fold drop_endpoint es tbl) t) \<longleftrightarrow>
        (\<exists>m. T m t = Some x) \<and> (\<forall>e t'. T n t' = Some e \<longrightarrow> ep_topic e = t \<longrightarrow> ep_id x \<noteq> ep_id e)"
      unfolding drop_fold(1) [OF ne] using assms(2) D(7) [of t] by auto
    also have "\<dots> \<longleftrightarrow> (\<exists>m. m \<noteq> n \<and> T m t = Some x)"
    proof
      assume l: "(\<exists>m. T m t = Some x) \<and> (\<forall>e t'. T n t' = Some e \<longrightarrow> ep_topic e = t \<longrightarrow> ep_id x \<noteq> ep_id e)"
      then obtain m where m: "T m t = Some x" by blast
      have "m \<noteq> n" using l m D(1) by blast
      with m show "\<exists>m. m \<noteq> n \<and> T m t = Some x" by blast
    next
      assume "\<exists>m. m \<noteq> n \<and> T m t = Some x"
      then obtain m where m: "m \<noteq> n" "T m t = Some x" by blast
      have "ep_id x \<noteq> ep_id e" if e: "T n t' = Some e" for e t'
        using D(4) [OF m(2) e] D(2) [OF m(2)] D(2) [OF e] m(1) by blast
      with m show "(\<exists>m. T m t = Some x) \<and> (\<forall>e t'. T n t' = Some e \<longrightarrow> ep_topic e = t \<longrightarrow> ep_id x \<noteq> ep_id e)" by blast
    qed
    finally show ?thesis unfolding old .
  qed
  then have "set (um_at [] (fold drop_endpoint es tbl) t) = {x. \<exists>m. ?T m t = Some x}" for t by blast
  moreover have "distinct (um_at [] (fold drop_endpoint es tbl) t)" for t
    unfolding drop_fold(1) [OF ne] using D(6) by simp
  moreover have "\<forall>m t x. ?T m t = Some x \<longrightarrow> ep_topic x = t \<and> ep_node x = m \<and> ep_id x < next"
    unfolding old using D(1-3) by blast
  moreover have "\<forall>m t x m' t' x'. ?T m t = Some x \<longrightarrow> ?T m' t' = Some x' \<longrightarrow> ep_id x = ep_id x' \<longrightarrow> x = x'"
    unfolding old using D(4) by blast
  ultimately show ?thesis
    unfolding index_ok_def using drop_fold(2) [OF ne] by blast
qed

text \<open>
  Both kinds of endpoints are kept the same way: \<open>sel\<close> is the node's own map, \<open>other\<close> the map of the
  other kind.
\<close>

locale endpoints =
  fixes sel other :: "node \<Rightarrow> (string, endpoint) umap"
    and add :: "endpoint \<Rightarrow> node \<Rightarrow> node"
    and remove_all :: "node \<Rightarrow> node \<times> endpoint list"
  assumes sel_add: "sel (add e nd) = um_put (ep_topic e) e (sel nd)"
    and other_add: "other (add e nd) = other nd"
    and name_add: "nd_name (add e nd) = nd_name nd"
    and sel_new: "sel (new_node n p) = []"
    and removed: "snd (remove_all nd) = map snd (sel nd)"
    and other_remove: "other (fst (remove_all nd)) = other nd"
begin

lemma tab_new: "um_find ns n = None \<Longrightarrow> tab sel (um_put n (Some (new_node n p)) ns) = tab sel ns"
  by (auto simp: tab_def sel_new fun_eq_iff)

lemma tab_add:
  "um_find ns n = Some (Some nd) \<Longrightarrow>
   tab sel (um_put n (Some (add e nd)) ns) = (tab sel ns)(n := (tab sel ns n)(ep_topic e \<mapsto> e))"
  by (auto simp: tab_def sel_add fun_eq_iff)

lemma tab_other:
  "um_find ns n = Some (Some nd) \<Longrightarrow> tab other (um_put n (Some (add e nd)) ns) = tab other ns"
  by (auto simp: tab_def other_add fun_eq_iff)

lemma all_removed:
  assumes "um_find ns n = Some (Some nd)" and "um_wf (sel nd)"
  shows "set (snd (remove_all nd)) = {e. \<exists>t. tab sel ns n t = Some e}"
  using um_find_mem [OF assms(2)] assms(1) by (force simp: removed tab_def)

lemma index_add:
  assumes "index_ok (tab sel ns) tbl next" and "um_find ns n = Some (Some nd)"
    and "um_find (sel nd) t = None"
    and "e = \<lparr>ep_id = next, ep_topic = t, ep_type = ty, ep_node = n\<rparr>"
  shows "index_ok (tab sel (um_put n (Some (add e nd)) ns)) (push_endpoint e tbl) (next + 1)"
  using index_ok_add [OF assms(1), of n e] assms(2-4) tab_add [OF assms(2), of e] by (simp add: tab_def)

end

interpretation pubs: endpoints nd_publishes nd_subscribes addPublish removeAllPublish
  by unfold_locales (auto simp: addPublish_def new_node_def removeAllPublish_def)

interpretation subs: endpoints nd_subscribes nd_publishes addSubscribe removeAllSubscribe
  by unfold_locales (auto simp: addSubscribe_def new_node_def removeAllSubscribe_def)

lemma tab_null: "um_find ns n = None \<Longrightarrow> tab sel (snd (um_index None n ns)) = tab sel ns"
  by (auto simp: tab_def um_find_index fun_eq_iff)

lemma tab_erase: "tab sel (um_erase n ns) = (tab sel ns)(n := \<lambda>_. None)"
  by (auto simp: tab_def fun_eq_iff)

definition node_ok :: "string \<Rightarrow> node \<Rightarrow> bool" where
  "node_ok name nd \<longleftrightarrow> nd_name nd = name \<and> um_wf (nd_publishes nd) \<and> um_wf (nd_subscribes nd)"

definition mw_inv :: "mw \<Rightarrow> bool" where
  "mw_inv m \<longleftrightarrow>
     (\<forall>n nd. um_find (m_nodes m) n = Some (Some nd) \<longrightarrow> node_ok n nd) \<and>
     index_ok (tab nd_publishes (m_nodes m)) (m_publishes m) (mw_next_id m) \<and>
     index_ok (tab nd_subscribes (m_nodes m)) (m_subscribes m) (mw_next_id m)"

lemma mw_invD:
  assumes "mw_inv m"
  shows "um_find (m_nodes m) n = Some (Some nd) \<Longrightarrow> node_ok n nd"
    and "index_ok (tab nd_publishes (m_nodes m)) (m_publishes m) (mw_next_id m)"
    and "index_ok (tab nd_subscribes (m_nodes m)) (m_subscribes m) (mw_next_id m)"
  using assms by (simp_all add: mw_inv_def)

lemma mw_inv_new [simp, wf_intros]: "mw_inv new_mw"
  by (simp add: mw_inv_def new_mw_def index_ok_def tab_def um_at_def)

lemma mw_inv_queues [simp]: "mw_inv (m\<lparr>mw_queues := q\<rparr>) = mw_inv m"
  by (simp add: mw_inv_def)

lemma node_ok_new [simp, wf_intros]: "node_ok name (new_node name pid)"
  by (simp add: node_ok_def new_node_def)

lemma node_ok_add [simp, wf_intros]:
  "node_ok n nd \<Longrightarrow> node_ok n (addPublish e nd)" "node_ok n nd \<Longrightarrow> node_ok n (addSubscribe e nd)"
  by (simp_all add: node_ok_def addPublish_def addSubscribe_def)

lemma addNode_inv:
  assumes "mw_inv m" and "reg_addNode name pid m = Some m'"
  shows "mw_inv m'"
proof -
  have n: "um_find (m_nodes m) name = None"
    and m': "m' = m\<lparr>m_nodes := um_put name (Some (new_node name pid)) (m_nodes m)\<rparr>"
    using assms(2) by (auto simp: reg_addNode_def split: option.splits)
  show ?thesis
    using mw_invD [OF assms(1)] by (simp add: mw_inv_def m' pubs.tab_new [OF n] subs.tab_new [OF n])
qed

lemma reg_addPublish_cases:
  assumes "reg_addPublish os name topic type m = Inr (ok, m', out)"
  shows "\<not> ok \<and> (m' = m \<or> m' = m\<lparr>mw_next_id := mw_next_id m + 1\<rparr>) \<or>
    (\<exists>nd e. ok \<and> um_find (m_nodes m) name = Some (Some nd) \<and> um_find (nd_publishes nd) topic = None \<and>
      e = \<lparr>ep_id = mw_next_id m, ep_topic = topic, ep_type = type, ep_node = nd_name nd\<rparr> \<and>
      m' = m\<lparr>mw_next_id := mw_next_id m + 1, mw_queues := um_put (mw_next_id m) [] (mw_queues m),
             m_nodes := um_put name (Some (addPublish e nd)) (m_nodes m),
             m_publishes := push_endpoint e (m_publishes m)\<rparr>)"
  using assms
    by (auto simp: reg_addPublish_def containsPublish_def Publish_run_def make_endpoint_def Let_def
        split: option.splits if_splits)

lemma reg_addSubscribe_cases:
  assumes "reg_addSubscribe os name topic type m = Inr (ok, m')"
  shows "\<not> ok \<and> (m' = m \<or> m' = m\<lparr>mw_next_id := mw_next_id m + 1\<rparr>) \<or>
    (\<exists>nd e. ok \<and> um_find (m_nodes m) name = Some (Some nd) \<and> um_find (nd_subscribes nd) topic = None \<and>
      e = \<lparr>ep_id = mw_next_id m, ep_topic = topic, ep_type = type, ep_node = nd_name nd\<rparr> \<and>
      m' = m\<lparr>mw_next_id := mw_next_id m + 1, mw_queues := um_put (mw_next_id m) [] (mw_queues m),
             m_nodes := um_put name (Some (addSubscribe e nd)) (m_nodes m),
             m_subscribes := push_endpoint e (m_subscribes m)\<rparr>)"
  using assms
    by (auto simp: reg_addSubscribe_def containsSubscribe_def Subscribe_run_def make_endpoint_def Let_def
        split: option.splits if_splits)

lemma mw_inv_next: "mw_inv m \<Longrightarrow> mw_next_id m \<le> k \<Longrightarrow> mw_inv (m\<lparr>mw_next_id := k\<rparr>)"
  using index_ok_mono by (fastforce simp: mw_inv_def)

lemma addPublish_inv:
  assumes "mw_inv m" and "reg_addPublish os name topic type m = Inr (ok, m', out)"
  shows "mw_inv m'"
  using reg_addPublish_cases [OF assms(2)]
proof (elim disjE exE conjE)
  fix nd e
  assume nd: "um_find (m_nodes m) name = Some (Some nd)" and free: "um_find (nd_publishes nd) topic = None"
    and e: "e = \<lparr>ep_id = mw_next_id m, ep_topic = topic, ep_type = type, ep_node = nd_name nd\<rparr>"
    and m': "m' = m\<lparr>mw_next_id := mw_next_id m + 1, mw_queues := um_put (mw_next_id m) [] (mw_queues m),
             m_nodes := um_put name (Some (addPublish e nd)) (m_nodes m),
             m_publishes := push_endpoint e (m_publishes m)\<rparr>"
  note D = mw_invD [OF assms(1)]
  have ok: "node_ok name nd" using D(1) nd .
  then have "nd_name nd = name" by (simp add: node_ok_def)
  then show ?thesis
    using D(1) ok pubs.index_add [OF D(2) nd free, of e type] index_ok_mono [OF D(3), of "mw_next_id m + 1"]
    by (simp add: mw_inv_def m' e pubs.tab_other [OF nd])
qed (use assms(1) mw_inv_next [OF assms(1), of "mw_next_id m + 1"] in auto)

lemma addSubscribe_inv:
  assumes "mw_inv m" and "reg_addSubscribe os name topic type m = Inr (ok, m')"
  shows "mw_inv m'"
  using reg_addSubscribe_cases [OF assms(2)]
proof (elim disjE exE conjE)
  fix nd e
  assume nd: "um_find (m_nodes m) name = Some (Some nd)" and free: "um_find (nd_subscribes nd) topic = None"
    and e: "e = \<lparr>ep_id = mw_next_id m, ep_topic = topic, ep_type = type, ep_node = nd_name nd\<rparr>"
    and m': "m' = m\<lparr>mw_next_id := mw_next_id m + 1, mw_queues := um_put (mw_next_id m) [] (mw_queues m),
             m_nodes := um_put name (Some (addSubscribe e nd)) (m_nodes m),
             m_subscribes := push_endpoint e (m_subscribes m)\<rparr>"
  note D = mw_invD [OF assms(1)]
  have ok: "node_ok name nd" using D(1) nd .
  then have "nd_name nd = name" by (simp add: node_ok_def)
  then show ?thesis
    using D(1) ok subs.index_add [OF D(3) nd free, of e type] index_ok_mono [OF D(2), of "mw_next_id m + 1"]
    by (simp add: mw_inv_def m' e subs.tab_other [OF nd])
qed (use assms(1) mw_inv_next [OF assms(1), of "mw_next_id m + 1"] in auto)

lemma deleteNode_unknown:
  assumes "um_find (m_nodes m) name = None \<or> um_find (m_nodes m) name = Some None"
  shows "reg_deleteNode name m = (False, m\<lparr>m_nodes := snd (um_index None name (m_nodes m))\<rparr>, [])"
  using assms by (auto simp: reg_deleteNode_def um_index_def split: option.splits)

lemma deleteNode_known:
  assumes "um_find (m_nodes m) name = Some (Some nd)"
  shows "reg_deleteNode name m =
    (True, m\<lparr>m_subscribes := fold drop_endpoint (snd (removeAllSubscribe nd)) (m_subscribes m),
       m_publishes := fold drop_endpoint (snd (removeAllPublish nd)) (m_publishes m),
       m_nodes := um_erase name (m_nodes m)\<rparr>,
     map (\<lambda>e. EventfdCancel (ep_id e)) (snd (removeAllSubscribe nd) @ snd (removeAllPublish nd)))"
  by (simp add: reg_deleteNode_def um_index_known [OF assms] removeAllSubscribe_def removeAllPublish_def)

lemma deleteNode_inv:
  assumes "mw_inv m" and "reg_deleteNode name m = (ok, m', out)"
  shows "mw_inv m'"
proof (cases "\<exists>nd. um_find (m_nodes m) name = Some (Some nd)")
  case True
  then obtain nd where nd: "um_find (m_nodes m) name = Some (Some nd)" by blast
  note D = mw_invD [OF assms(1)]
  have "um_wf (nd_publishes nd)" "um_wf (nd_subscribes nd)" using D(1) [OF nd] by (simp_all add: node_ok_def)
  note r = pubs.all_removed [OF nd this(1)] subs.all_removed [OF nd this(2)]
  show ?thesis
    using assms(2) D(1) index_ok_remove [OF D(2) r(1)] index_ok_remove [OF D(3) r(2)]
    unfolding deleteNode_known [OF nd] by (auto simp: mw_inv_def tab_erase split: if_splits)
next
  case False
  then have u: "um_find (m_nodes m) name = None \<or> um_find (m_nodes m) name = Some None"
    by (cases "um_find (m_nodes m) name") auto
  have t: "tab sel (snd (um_index None name (m_nodes m))) = tab sel (m_nodes m)" for sel
    using u tab_null by (auto simp: um_index_def)
  show ?thesis
    using assms(2) mw_invD [OF assms(1)] unfolding deleteNode_unknown [OF u]
    by (auto simp: mw_inv_def t um_find_index split: if_splits)
qed

lemma mw_queues_same [simp]: "\<exists>q. m = m\<lparr>mw_queues := q\<rparr>"
  by (rule exI [of _ "mw_queues m"]) simp

lemma publish2Node_queues: "\<exists>q. fst (publish2Node message e m) = m\<lparr>mw_queues := q\<rparr>"
  by (cases "length (um_at [] (mw_queues m) (ep_id e)) < QUEUE_SIZE")
    (auto simp: publish2Node_def queue_push_def Let_def)

lemma publish_loop_queues: "\<exists>q. fst (publish_loop message es m) = m\<lparr>mw_queues := q\<rparr>"
proof (induction es arbitrary: m)
  case (Cons e es)
  obtain q where "fst (publish2Node message e m) = m\<lparr>mw_queues := q\<rparr>"
    using publish2Node_queues by blast
  with Cons.IH [of "m\<lparr>mw_queues := q\<rparr>"] show ?case by (auto simp: case_prod_beta)
qed simp

lemma inner_queues: "\<exists>q. fst (transferInnerMessage topic message m) = m\<lparr>mw_queues := q\<rparr>"
  by (auto simp: transferInnerMessage_def publish_loop_queues split: option.split)

lemma pop_queues: "\<exists>q. snd (queue_pop i m) = m\<lparr>mw_queues := q\<rparr>"
  by (auto simp: queue_pop_def split: list.split)

subsection \<open>Every run of the registry\<close>

text \<open>
  The steps that change the registry: the handlers, a message handed to the subscribers, a push of a
  node's process to a queue and a pop on either side.
\<close>

inductive reg_step :: "mw \<Rightarrow> mw \<Rightarrow> bool" where
  addNode: "reg_addNode name pid m = Some m' \<Longrightarrow> reg_step m m'"
| addPublish: "reg_addPublish os name topic type m = Inr (ok, m', out) \<Longrightarrow> reg_step m m'"
| addSubscribe: "reg_addSubscribe os name topic type m = Inr (ok, m') \<Longrightarrow> reg_step m m'"
| deleteNode: "reg_deleteNode name m = (ok, m', out) \<Longrightarrow> reg_step m m'"
| deliver: "transferInnerMessage topic message m = (m', out) \<Longrightarrow> reg_step m m'"
| push: "queue_push i message m = (ok, m') \<Longrightarrow> reg_step m m'"
| pop: "queue_pop i m = (message, m') \<Longrightarrow> reg_step m m'"

inductive reg_reach :: "mw \<Rightarrow> bool" where
  start: "reg_reach new_mw"
| step: "reg_reach m \<Longrightarrow> reg_step m m' \<Longrightarrow> reg_reach m'"

lemma push_queues: "\<exists>q. snd (queue_push i message m) = m\<lparr>mw_queues := q\<rparr>"
  by (cases "length (um_at [] (mw_queues m) i) < QUEUE_SIZE") (auto simp: queue_push_def Let_def)

lemma reg_step_inv:
  assumes "reg_step m m'" and "mw_inv m"
  shows "mw_inv m'"
  using assms(1)
proof cases
  case (deliver topic message out)
  then show ?thesis using inner_queues [of topic message m] assms(2) by auto
next
  case (push i message ok)
  then show ?thesis using push_queues [of i message m] assms(2) by auto
next
  case (pop i message)
  then show ?thesis using pop_queues [of i m] assms(2) by auto
next
  case (addNode name pid)
  from addNode_inv [OF assms(2) this] show ?thesis .
next
  case (addPublish os name topic type ok out)
  from addPublish_inv [OF assms(2) this] show ?thesis .
next
  case (addSubscribe os name topic type ok)
  from addSubscribe_inv [OF assms(2) this] show ?thesis .
next
  case (deleteNode name ok out)
  from deleteNode_inv [OF assms(2) this] show ?thesis .
qed

lemma reg_reach_inv: "reg_reach m \<Longrightarrow> mw_inv m"
  by (induction rule: reg_reach.induct) (auto intro: reg_step_inv)

lemma subscribers_of:
  assumes "mw_inv m"
  shows "distinct (um_at [] (m_subscribes m) t)"
    and "set (um_at [] (m_subscribes m) t) = {e. \<exists>n nd. um_find (m_nodes m) n = Some (Some nd) \<and> um_find (nd_subscribes nd) t = Some e}"
    and "um_find (m_subscribes m) t \<noteq> Some []"
    and "inj_on ep_id (set (um_at [] (m_subscribes m) t))"
proof -
  note D = index_okD [OF mw_invD(3) [OF assms]]
  show "distinct (um_at [] (m_subscribes m) t)" "um_find (m_subscribes m) t \<noteq> Some []"
    by (rule D(6), rule D(5))
  show "set (um_at [] (m_subscribes m) t) = {e. \<exists>n nd. um_find (m_nodes m) n = Some (Some nd) \<and> um_find (nd_subscribes nd) t = Some e}"
    unfolding D(7) tab_Some ..
  show "inj_on ep_id (set (um_at [] (m_subscribes m) t))"
    unfolding D(7) inj_on_def using D(4) by blast
qed

lemma publishers_of:
  assumes "mw_inv m"
  shows "distinct (um_at [] (m_publishes m) t)"
    and "set (um_at [] (m_publishes m) t) = {e. \<exists>n nd. um_find (m_nodes m) n = Some (Some nd) \<and> um_find (nd_publishes nd) t = Some e}"
    and "um_find (m_publishes m) t \<noteq> Some []"
  using index_okD(5-7) [OF mw_invD(2) [OF assms]] unfolding tab_Some by blast+

text \<open>What a message does to the queues of a list of subscribers.\<close>

definition gets :: "string \<Rightarrow> endpoint list \<Rightarrow> nat \<Rightarrow> string list \<Rightarrow> string list" where
  "gets message es i q = (if i \<in> ep_id ` set es \<and> length q < QUEUE_SIZE then q @ [message] else q)"

lemma publish_loop_spec:
  assumes "distinct (map ep_id es)"
  shows "um_at [] (mw_queues (fst (publish_loop message es m))) i = gets message es i (um_at [] (mw_queues m) i)"
    and "snd (publish_loop message es m) =
      map (\<lambda>e. EventfdWrite (ep_id e)) (filter (\<lambda>e. length (um_at [] (mw_queues m) (ep_id e)) < QUEUE_SIZE) es)"
proof -
  have "(\<forall>i. um_at [] (mw_queues (fst (publish_loop message es m))) i = gets message es i (um_at [] (mw_queues m) i)) \<and>
    snd (publish_loop message es m) =
      map (\<lambda>e. EventfdWrite (ep_id e)) (filter (\<lambda>e. length (um_at [] (mw_queues m) (ep_id e)) < QUEUE_SIZE) es)"
    using assms
  proof (induction es arbitrary: m)
    case Nil
    then show ?case by (simp add: gets_def)
  next
    case (Cons e es)
    let ?m = "fst (publish2Node message e m)"
    have q: "um_at [] (mw_queues ?m) i = gets message [e] i (um_at [] (mw_queues m) i)" for i
      by (auto simp: publish2Node_def queue_push_def Let_def gets_def)
    have o: "snd (publish2Node message e m) =
        (if length (um_at [] (mw_queues m) (ep_id e)) < QUEUE_SIZE then [EventfdWrite (ep_id e)] else [])"
      by (simp add: publish2Node_def queue_push_def Let_def)
    have new: "ep_id e \<notin> ep_id ` set es" and d: "distinct (map ep_id es)" using Cons.prems by auto
    have same: "x \<in> set es \<Longrightarrow> um_at [] (mw_queues ?m) (ep_id x) = um_at [] (mw_queues m) (ep_id x)" for x
    proof -
      assume "x \<in> set es"
      then have "ep_id x \<noteq> ep_id e" using new by (metis imageI)
      then show ?thesis unfolding q by (simp add: gets_def)
    qed
    have f: "filter (\<lambda>e. length (um_at [] (mw_queues ?m) (ep_id e)) < QUEUE_SIZE) es =
        filter (\<lambda>e. length (um_at [] (mw_queues m) (ep_id e)) < QUEUE_SIZE) es"
      by (rule filter_cong) (simp_all add: same)
    show ?case
      using Cons.IH [OF d, of ?m] new by (simp add: case_prod_beta o f) (auto simp: q gets_def)
  qed
  then show "um_at [] (mw_queues (fst (publish_loop message es m))) i = gets message es i (um_at [] (mw_queues m) i)"
    and "snd (publish_loop message es m) =
      map (\<lambda>e. EventfdWrite (ep_id e)) (filter (\<lambda>e. length (um_at [] (mw_queues m) (ep_id e)) < QUEUE_SIZE) es)"
    by blast+
qed

lemma inner_loop: "transferInnerMessage t message m = publish_loop message (um_at [] (m_subscribes m) t) m"
  by (simp add: transferInnerMessage_def um_at_def split: option.split)

subsection \<open>Properties\<close>

text \<open>Two nodes, the first subscribed to a topic and the second publishing it.\<close>

definition sample_mw :: mw where
  "sample_mw = \<lparr>
     m_nodes = [(''map'', Some \<lparr>nd_name = ''map'', nd_pid = 7, nd_publishes = [],
                   nd_subscribes = [(''pose'', \<lparr>ep_id = 0, ep_topic = ''pose'', ep_type = ''str'', ep_node = ''map''\<rparr>)]\<rparr>),
                (''gps'', Some \<lparr>nd_name = ''gps'', nd_pid = 8,
                   nd_publishes = [(''pose'', \<lparr>ep_id = 1, ep_topic = ''pose'', ep_type = ''str'', ep_node = ''gps''\<rparr>)],
                   nd_subscribes = []\<rparr>)],
     m_publishes = [(''pose'', [\<lparr>ep_id = 1, ep_topic = ''pose'', ep_type = ''str'', ep_node = ''gps''\<rparr>])],
     m_subscribes = [(''pose'', [\<lparr>ep_id = 0, ep_topic = ''pose'', ep_type = ''str'', ep_node = ''map''\<rparr>])],
     mw_queues = [(0, []), (1, [])], mw_next_id = 2\<rparr>"

lemma um_find_head: "um_find ((k, v) # m) k = Some v"
  by (simp add: um_find_def)

lemma sample_mw_reach: "reg_reach sample_mw"
proof -
  let ?m1 = "the (reg_addNode ''map'' 7 new_mw)"
  let ?m2 = "the (reg_addNode ''gps'' 8 ?m1)"
  let ?m3 = "snd (projr (reg_addSubscribe OsOk ''map'' ''pose'' ''str'' ?m2))"
  have 1: "reg_addNode ''map'' 7 new_mw = Some ?m1" by code_simp
  have 2: "reg_addNode ''gps'' 8 ?m1 = Some ?m2" by code_simp
  have 3: "reg_addSubscribe OsOk ''map'' ''pose'' ''str'' ?m2 = Inr (True, ?m3)" by code_simp
  have 4: "reg_addPublish OsOk ''gps'' ''pose'' ''str'' ?m3 = Inr (True, sample_mw, [EventfdRead 1])"
    by code_simp
  note r1 = reg_reach.step [OF reg_reach.start reg_step.addNode [OF 1]]
  note r2 = reg_reach.step [OF r1 reg_step.addNode [OF 2]]
  note r3 = reg_reach.step [OF r2 reg_step.addSubscribe [OF 3]]
  show ?thesis by (rule reg_reach.step [OF r3 reg_step.addPublish [OF 4]])
qed

text \<open>
  C17: In every run of the registry the tables by topic agree with the nodes: the list of a topic's
  publishers holds, once each, the publishers that the registered nodes have for it, the same for
  subscribers, and no topic is left with an empty list.
\<close>

theorem registry_consistent:
  assumes "reg_reach m"
  shows "set (um_at [] (m_publishes m) t) = {e. \<exists>n nd. um_find (m_nodes m) n = Some (Some nd) \<and> um_find (nd_publishes nd) t = Some e} \<and>
    set (um_at [] (m_subscribes m) t) = {e. \<exists>n nd. um_find (m_nodes m) n = Some (Some nd) \<and> um_find (nd_subscribes nd) t = Some e} \<and>
    distinct (um_at [] (m_publishes m) t) \<and> distinct (um_at [] (m_subscribes m) t) \<and>
    um_find (m_publishes m) t \<noteq> Some [] \<and> um_find (m_subscribes m) t \<noteq> Some []"
  using publishers_of [OF reg_reach_inv [OF assms], of t] subscribers_of [OF reg_reach_inv [OF assms], of t]
  by simp

theorem registry_consistent_witness:
  "\<exists>nd. um_find (m_nodes sample_mw) ''map'' = Some (Some nd) \<and> um_find (nd_subscribes nd) ''pose'' = Some (hd (um_at [] (m_subscribes sample_mw) ''pose''))"
proof -
  have "hd (um_at [] (m_subscribes sample_mw) ''pose'') \<in> set (um_at [] (m_subscribes sample_mw) ''pose'')"
    by code_simp
  then obtain n nd where n: "um_find (m_nodes sample_mw) n = Some (Some nd)"
    "um_find (nd_subscribes nd) ''pose'' = Some (hd (um_at [] (m_subscribes sample_mw) ''pose''))"
    using registry_consistent [OF sample_mw_reach, of "''pose''"] by blast
  then have "n = ''map''"
    by (auto simp: sample_mw_def um_find_def um_at_def split: if_splits)
  with n show ?thesis by blast
qed

text \<open>
  A message for a topic reaches exactly the local subscribers of the topic: each subscriber whose
  queue has room gets it at the end of its queue and one wake-up, a full queue drops it, and no
  other queue changes.
\<close>

theorem inner_delivery:
  assumes "reg_reach m" and "transferInnerMessage t message m = (m', out)"
  shows "um_at [] (mw_queues m') i =
      (if (\<exists>n nd e. um_find (m_nodes m) n = Some (Some nd) \<and> um_find (nd_subscribes nd) t = Some e \<and> ep_id e = i)
          \<and> length (um_at [] (mw_queues m) i) < QUEUE_SIZE
       then um_at [] (mw_queues m) i @ [message] else um_at [] (mw_queues m) i) \<and>
    out = map (\<lambda>e. EventfdWrite (ep_id e))
      (filter (\<lambda>e. length (um_at [] (mw_queues m) (ep_id e)) < QUEUE_SIZE) (um_at [] (m_subscribes m) t))"
proof (rule conjI)
  note S = subscribers_of [OF reg_reach_inv [OF assms(1)], of t]
  have d: "distinct (map ep_id (um_at [] (m_subscribes m) t))"
    using S(1,4) by (simp add: distinct_map)
  have i: "i \<in> ep_id ` set (um_at [] (m_subscribes m) t) \<longleftrightarrow>
      (\<exists>n nd e. um_find (m_nodes m) n = Some (Some nd) \<and> um_find (nd_subscribes nd) t = Some e \<and> ep_id e = i)"
    unfolding S(2) by blast
  note P = publish_loop_spec [OF d, of message m]
  show "um_at [] (mw_queues m') i =
      (if (\<exists>n nd e. um_find (m_nodes m) n = Some (Some nd) \<and> um_find (nd_subscribes nd) t = Some e \<and> ep_id e = i)
          \<and> length (um_at [] (mw_queues m) i) < QUEUE_SIZE
       then um_at [] (mw_queues m) i @ [message] else um_at [] (mw_queues m) i)"
    using P(1) [of i] assms(2) unfolding inner_loop gets_def i by simp
  show "out = map (\<lambda>e. EventfdWrite (ep_id e))
      (filter (\<lambda>e. length (um_at [] (mw_queues m) (ep_id e)) < QUEUE_SIZE) (um_at [] (m_subscribes m) t))"
    using P(2) assms(2) unfolding inner_loop by simp
qed

theorem inner_delivery_witness:
  "um_at [] (mw_queues (fst (transferInnerMessage ''pose'' ''1 2'' sample_mw))) 0 = [''1 2''] \<and>
   snd (transferInnerMessage ''pose'' ''1 2'' sample_mw) = [EventfdWrite 0]"
proof -
  let ?r = "transferInnerMessage ''pose'' ''1 2'' sample_mw"
  have r: "?r = (fst ?r, snd ?r)" by simp
  have e: "um_find (m_nodes sample_mw) ''map'' = Some (Some \<lparr>nd_name = ''map'', nd_pid = 7, nd_publishes = [],
      nd_subscribes = [(''pose'', \<lparr>ep_id = 0, ep_topic = ''pose'', ep_type = ''str'', ep_node = ''map''\<rparr>)]\<rparr>)"
    by code_simp
  have "\<exists>n nd e. um_find (m_nodes sample_mw) n = Some (Some nd) \<and> um_find (nd_subscribes nd) ''pose'' = Some e \<and> ep_id e = 0"
    by (intro exI conjI, rule e) (simp only: node.simps, rule um_find_head, simp)
  moreover have "um_at [] (mw_queues sample_mw) 0 = []"
    and "um_at [] (m_subscribes sample_mw) ''pose'' = [\<lparr>ep_id = 0, ep_topic = ''pose'', ep_type = ''str'', ep_node = ''map''\<rparr>]"
    by code_simp+
  ultimately show ?thesis
    using inner_delivery [OF sample_mw_reach r, of 0] by (simp add: QUEUE_SIZE_def)
qed

text \<open>
  Deleting a registered node removes all of it: its entry, and its publishers and subscribers
  from the lists of every topic, while the other nodes keep theirs.
\<close>

theorem deleted_node_gone:
  assumes "reg_reach m" and "um_find (m_nodes m) name = Some (Some nd)"
    and "reg_deleteNode name m = (ok, m', out)"
  shows "ok \<and> m_nodes m' = um_erase name (m_nodes m) \<and>
    um_at [] (m_publishes m') t = filter (\<lambda>e. ep_node e \<noteq> name) (um_at [] (m_publishes m) t) \<and>
    um_at [] (m_subscribes m') t = filter (\<lambda>e. ep_node e \<noteq> name) (um_at [] (m_subscribes m) t)"
proof -
  note D = mw_invD [OF reg_reach_inv [OF assms(1)]]
  have wf: "um_wf (nd_publishes nd)" "um_wf (nd_subscribes nd)"
    using D(1) [OF assms(2)] by (simp_all add: node_ok_def)
  have gone: "um_at [] (fold drop_endpoint es tbl) t = filter (\<lambda>e. ep_node e \<noteq> name) (um_at [] tbl t)"
    if I: "index_ok (tab sel (m_nodes m)) tbl (mw_next_id m)"
      and es: "set es = {e. \<exists>t. tab sel (m_nodes m) name t = Some e}" for sel tbl es
  proof -
    note I = index_okD [OF I]
    have "(\<forall>e \<in> set es. ep_topic e = t \<longrightarrow> ep_id x \<noteq> ep_id e) \<longleftrightarrow> ep_node x \<noteq> name"
      if "x \<in> set (um_at [] tbl t)" for x
    proof -
      obtain n where n: "tab sel (m_nodes m) n t = Some x" using \<open>x \<in> _\<close> I(7) by blast
      have "ep_node e = name" if "e \<in> set es" for e using that I(2) es by blast
      moreover have "x \<in> set es" if "ep_node x = name" using that n I(2) [OF n] es by blast
      moreover have "ep_topic x = t" using I(1) [OF n] .
      moreover have "e = x" if "e \<in> set es" "ep_id e = ep_id x" for e using that I(4) n es by blast
      ultimately show ?thesis by metis
    qed
    then show ?thesis
      unfolding drop_fold(1) [OF allI [OF I(5)]] by (auto intro: filter_cong)
  qed
  show ?thesis
    using assms(3) gone [OF D(2) pubs.all_removed [OF assms(2) wf(1)]]
      gone [OF D(3) subs.all_removed [OF assms(2) wf(2)]]
    unfolding deleteNode_known [OF assms(2)] by auto
qed

theorem deleted_node_gone_witness:
  "um_at [] (m_publishes (fst (snd (reg_deleteNode ''gps'' sample_mw)))) ''pose'' = []"
proof -
  let ?r = "reg_deleteNode ''gps'' sample_mw"
  have r: "?r = (fst ?r, fst (snd ?r), snd (snd ?r))" by simp
  have e: "um_find (m_nodes sample_mw) ''gps'' = Some (Some \<lparr>nd_name = ''gps'', nd_pid = 8,
      nd_publishes = [(''pose'', \<lparr>ep_id = 1, ep_topic = ''pose'', ep_type = ''str'', ep_node = ''gps''\<rparr>)],
      nd_subscribes = []\<rparr>)" by code_simp
  have f: "filter (\<lambda>e. ep_node e \<noteq> ''gps'') (um_at [] (m_publishes sample_mw) ''pose'') = []" by code_simp
  note deleted_node_gone [OF sample_mw_reach e r, of "''pose''"]
  then show ?thesis unfolding f by blast
qed

lemma node_infos_null:
  "(n, None) \<in> set ns \<Longrightarrow> node_infos ns = Inl NullDeref"
  by (induction ns rule: node_infos.induct) (auto split: sum.split)

text \<open>
  Deleting an unknown node answers false but leaves a null entry under its name, and with that
  entry present the next collection of the node information, which every new connection asks
  for, dereferences null.
\<close>

theorem unknown_delete_poisons:
  assumes "um_find (m_nodes m) name = None" and "reg_deleteNode name m = (ok, m', out)"
  shows "\<not> ok \<and> um_find (m_nodes m') name = Some None \<and> getAllNodeInfo J m' = Inl NullDeref"
proof -
  have m': "\<not> ok" "um_find (m_nodes m') name = Some None"
    using assms deleteNode_unknown [of m name] by (auto simp: um_find_index)
  have "(name, None) \<in> set (m_nodes m')" using um_find_SomeD [OF m'(2)] .
  then show ?thesis using m' by (simp add: getAllNodeInfo_def node_infos_null)
qed

theorem unknown_delete_poisons_witness:
  "getAllNodeInfo list_json (fst (snd (reg_deleteNode ''cam'' sample_mw))) = Inl NullDeref"
proof -
  let ?r = "reg_deleteNode ''cam'' sample_mw"
  have r: "?r = (fst ?r, fst (snd ?r), snd (snd ?r))" by simp
  have "um_find (m_nodes sample_mw) ''cam'' = None" by code_simp
  from unknown_delete_poisons [OF this r, of list_json] show ?thesis by simp
qed

end
