(* ===== verification/IfaceManager.thy ===== *)
theory IfaceManager
  imports RouteInit TcpHost UwbHandle ShmRegistry
begin

text \<open>
  The interfaces to the other hosts and \<open>InterfaceManager\<close>, \<open>src/Master/src/interface/\<close> and
  \<open>src/Master/src/InterfaceManager.cpp\<close>. The state of the whole master is one record: what the
  interface manager keeps, the registry of the local nodes and the clock. \<open>HostInterface\<close> objects and
  \<open>Handle\<close> objects are shared by pointer; they are in two lists, a pointer is an index, \<open>None\<close> is null.
  Addresses, ports and devices are only handed to the operating system and are left out.
\<close>

subsection \<open>State\<close>

datatype 'r host_link =
  TcpHif "'r tcp_link"
| UwbHif "nat option" u8

record 'r host_interface =
  hf_name :: string
  hf_host :: string
  hf_segment :: int
  hf_type :: string
  fail_times :: int
  hf_link :: "'r host_link"

record interface =
  if_name :: string
  if_type :: string
  if_segment :: int
  name2hostInterface :: "(string, nat option) umap"

record 'r master =
  m_hostName :: string
  topic2host :: "(string, string list) umap"
  route :: routes
  hostlist :: "(string, host_info) umap"
  interfaceList :: "(string, interface option) umap"
  launch :: "string list"
  m_map :: route_map
  m_uwbHandle :: "nat option"
  m_hifs :: "'r host_interface list"
  m_handles :: "handle list"
  m_mw :: mw
  m_now :: int

datatype 'r mout =
  TcpOut nat "'r tcp_io"
| UwbOut nat "'r event"
| ShmOut mw_out

type_synonym 'r mop = "('r master, 'r mout) op"

definition new_master :: "'r master" where
  "new_master = \<lparr>m_hostName = [], topic2host = [], route = [], hostlist = [], interfaceList = [], launch = [],
     m_map = empty_map, m_uwbHandle = None, m_hifs = [], m_handles = [], m_mw = new_mw, m_now = 0\<rparr>"

subsection \<open>Sending\<close>

text \<open>
  A send gets the request by reference and prepares it in place, so a loop goes on with the prepared
  one: these operations work on the request and the state.
\<close>

definition hif_send :: "'r http_api \<Rightarrow> nat \<Rightarrow> ('r \<times> 'r master, 'r mout) op" where
  "hif_send A k = (\<lambda>(req, ms).
     (case hf_link (m_hifs ms ! k) of
        TcpHif l \<Rightarrow>
          (let (l, req, io) = tcp_send A req l
           in Inr ((req, ms\<lparr>m_hifs := (m_hifs ms)[k := (m_hifs ms ! k)\<lparr>hf_link := TcpHif l\<rparr>]\<rparr>),
                map (TcpOut k) io))
      | UwbHif None node_id \<Rightarrow> Inr ((req, ms), [])
      | UwbHif (Some h) node_id \<Rightarrow>
          (let req = h_prepare A req;
               (hdl, evs) = send_http_reliable A (m_now ms) req node_id None (m_handles ms ! h)
           in Inr ((req, ms\<lparr>m_handles := (m_handles ms)[h := hdl]\<rparr>), map (UwbOut h) evs))))"

text \<open>
  \<open>Interface::send\<close> and the lookup before it: \<open>operator[]\<close> gives null for a missing name, and the call
  through it is undefined.
\<close>

definition iface_send :: "'r http_api \<Rightarrow> string \<Rightarrow> interface \<Rightarrow> ('r \<times> 'r master, 'r mout) op" where
  "iface_send A nextInterface i s =
     (case um_find (name2hostInterface i) nextInterface of
        Some (Some k) \<Rightarrow> hif_send A k s
      | _ \<Rightarrow> Inl NullDeref)"

definition transfer :: "'r http_api \<Rightarrow> string \<Rightarrow> ('r \<times> 'r master, 'r mout) op" where
  "transfer A dest = (\<lambda>(req, ms).
     let ((interfaceName, nextInterface), rt) = um_index ([], []) dest (route ms) in
     (case um_find (interfaceList ms) interfaceName of
        Some (Some i) \<Rightarrow> iface_send A nextInterface i (req, ms\<lparr>route := rt\<rparr>)
      | _ \<Rightarrow> Inl NullDeref))"

text \<open>The loops of \<open>broadcast\<close> and \<open>publish\<close> set the destination and repeat the body of \<open>transfer\<close>.\<close>

definition send_to :: "'r http_api \<Rightarrow> string \<Rightarrow> ('r \<times> 'r master, 'r mout) op" where
  "send_to A host = (\<lambda>(req, ms). transfer A host (h_set A ''dest'' host req, ms))"

definition broadcast :: "'r http_api \<Rightarrow> ('r \<times> 'r master, 'r mout) op" where
  "broadcast A = (\<lambda>(req, ms).
     for_each (send_to A) (map fst (hostlist ms)) (h_set A ''src'' (m_hostName ms) req, ms))"

text \<open>A local request, gone when the function returns.\<close>

definition with_request :: "'r \<Rightarrow> ('r \<times> 'r master, 'r mout) op \<Rightarrow> 'r mop" where
  "with_request req f ms =
     (case f (req, ms) of Inl e \<Rightarrow> Inl e | Inr ((_, ms), out) \<Rightarrow> Inr (ms, out))"

subsection \<open>Notifications\<close>

definition im_addNode :: "'r http_api \<Rightarrow> string \<Rightarrow> 'r mop" where
  "im_addNode A node = with_request (h_set A ''node'' node (h_make A v_post ''/node'')) (broadcast A)"

definition im_deleteNode :: "'r http_api \<Rightarrow> string \<Rightarrow> 'r mop" where
  "im_deleteNode A node = with_request (h_set A ''node'' node (h_make A v_delete ''/node'')) (broadcast A)"

definition im_addSub :: "'r http_api \<Rightarrow> string \<Rightarrow> string \<Rightarrow> string \<Rightarrow> 'r mop" where
  "im_addSub A node topic type =
     with_request (h_set A ''type'' type (h_set A ''sub'' topic (h_set A ''node'' node (h_make A v_post ''/node/sub''))))
       (broadcast A)"

definition im_deleteSub :: "'r http_api \<Rightarrow> string \<Rightarrow> string \<Rightarrow> 'r mop" where
  "im_deleteSub A node topic =
     with_request (h_set A ''sub'' topic (h_set A ''node'' node (h_make A v_delete ''/node/sub''))) (broadcast A)"

definition im_addPub :: "'r http_api \<Rightarrow> string \<Rightarrow> string \<Rightarrow> string \<Rightarrow> 'r mop" where
  "im_addPub A node topic type =
     with_request (h_set A ''type'' type (h_set A ''pub'' topic (h_set A ''node'' node (h_make A v_post ''/node/pub''))))
       (broadcast A)"

definition im_deletePub :: "'r http_api \<Rightarrow> string \<Rightarrow> string \<Rightarrow> 'r mop" where
  "im_deletePub A node topic =
     with_request (h_set A ''pub'' topic (h_set A ''node'' node (h_make A v_delete ''/node/pub''))) (broadcast A)"

definition im_publish :: "'r http_api \<Rightarrow> string \<Rightarrow> string \<Rightarrow> 'r mop" where
  "im_publish A topic data ms =
     (let req = h_set_body A data (h_set A ''topic'' topic (h_make A v_post ''/publish''));
          (host, t2h) = um_index [] topic (topic2host ms);
          ms = ms\<lparr>topic2host := t2h\<rparr>
      in with_request (h_set A ''src'' (m_hostName ms) req) (for_each (send_to A) host) ms)"

subsection \<open>Weights\<close>

definition set_weight :: "(route_map \<Rightarrow> route_map) \<Rightarrow> 'r mop" where
  "set_weight f ms =
     (case getRoute (f (m_map ms)) of Inl e \<Rightarrow> Inl e
      | Inr rt \<Rightarrow> Inr (ms\<lparr>m_map := f (m_map ms), route := rt\<rparr>, []))"

definition weight_request :: "'r http_api \<Rightarrow> string \<Rightarrow> string \<Rightarrow> string \<Rightarrow> 'r" where
  "weight_request A host1 host2 type =
     h_set A ''type'' type (h_set A ''host2'' host2 (h_set A ''host1'' host1 (h_make A v_post ''/weight'')))"

definition setMaxWeight :: "'r http_api \<Rightarrow> string \<Rightarrow> 'r mop" where
  "setMaxWeight A host ms =
     and_then (set_weight (map_setMaxWeight (m_hostName ms) host))
       (with_request (weight_request A (m_hostName ms) host ''max'') (broadcast A)) ms"

definition setInitWeight :: "'r http_api \<Rightarrow> string \<Rightarrow> 'r mop" where
  "setInitWeight A host ms =
     and_then (set_weight (map_setInitWeight (m_hostName ms) host))
       (with_request (weight_request A (m_hostName ms) host ''init'') (broadcast A)) ms"

definition setMaxWeight2 :: "string \<Rightarrow> string \<Rightarrow> 'r mop" where
  "setMaxWeight2 host1 host2 = set_weight (map_setMaxWeight host1 host2)"

definition setInitWeight2 :: "string \<Rightarrow> string \<Rightarrow> 'r mop" where
  "setInitWeight2 host1 host2 = set_weight (map_setInitWeight host1 host2)"

subsection \<open>Connections\<close>

definition set_fail_times :: "nat \<Rightarrow> int \<Rightarrow> 'r master \<Rightarrow> 'r master" where
  "set_fail_times k n ms = ms\<lparr>m_hifs := (m_hifs ms)[k := (m_hifs ms ! k)\<lparr>fail_times := n\<rparr>]\<rparr>"

definition onNew :: "'r http_api \<Rightarrow> json_api \<Rightarrow> nat \<Rightarrow> 'r mop" where
  "onNew A J k ms =
     (case getAllNodeInfo J (m_mw ms) of Inl e \<Rightarrow> Inl e
      | Inr info \<Rightarrow>
          and_then (with_request (h_set_body A info (h_make A v_post ''/new'')) (broadcast A))
            (and_then (setInitWeight A (hf_host (m_hifs ms ! k))) (\<lambda>ms. Inr (set_fail_times k 0 ms, []))) ms)"

definition onFail :: "'r http_api \<Rightarrow> nat \<Rightarrow> 'r mop" where
  "onFail A k ms =
     (let n = fail_times (m_hifs ms ! k) in
      if 5 < n then Inr (ms, [])
      else let ms = set_fail_times k (n + 1) ms in
        if 5 < n + 1 then setMaxWeight A (hf_host (m_hifs ms ! k)) ms else Inr (ms, []))"

text \<open>A piece of a handler of a TCP link, on the link with index \<open>k\<close>.\<close>

definition on_link :: "nat \<Rightarrow> ('r tcp_link \<Rightarrow> 'r tcp_link \<times> 'r tcp_io list) \<Rightarrow> 'r mop" where
  "on_link k f ms =
     (case hf_link (m_hifs ms ! k) of
        TcpHif l \<Rightarrow>
          (let (l, io) = f l
           in Inr (ms\<lparr>m_hifs := (m_hifs ms)[k := (m_hifs ms ! k)\<lparr>hf_link := TcpHif l\<rparr>]\<rparr>, map (TcpOut k) io))
      | UwbHif _ _ \<Rightarrow> Inr (ms, []))"

definition link_connected :: "'r http_api \<Rightarrow> json_api \<Rightarrow> nat \<Rightarrow> bool \<Rightarrow> 'r mop" where
  "link_connected A J k = onConnect (on_link k) (onFail A k) (onNew A J k)"

definition link_written :: "'r http_api \<Rightarrow> nat \<Rightarrow> bool \<Rightarrow> 'r mop" where
  "link_written A k = onWrite (on_link k) (onFail A k)"

subsection \<open>Start\<close>

text \<open>\<open>serial n\<close>: whether the port of the \<open>n\<close>-th handle opens and takes its options.\<close>

fun init_interfaces :: "(nat \<Rightarrow> bool \<times> bool) \<Rightarrow> iface_cfg list \<Rightarrow> 'r master \<Rightarrow> 'r master" where
  "init_interfaces serial [] ms = ms"
| "init_interfaces serial (c # cs) ms =
     (let i = \<lparr>if_name = ic_name c, if_type = ic_type c, if_segment = ic_segment c, name2hostInterface = []\<rparr>;
          n = length (m_handles ms);
          (p, ms) =
            (if ic_type c = ''tcp'' then (Some i, ms)
             else if ic_type c = ''uwb'' then
               (Some i, ms\<lparr>m_handles := m_handles ms @
                    [handle_run (fst (serial n)) (snd (serial n)) (new_handle (of_nat (ic_node_id c)))],
                  m_uwbHandle := Some n\<rparr>)
             else (None, ms))
      in init_interfaces serial cs (ms\<lparr>interfaceList := um_put (ic_name c) p (interfaceList ms)\<rparr>))"

fun attach :: "string \<Rightarrow> int \<Rightarrow> nat option \<Rightarrow> (string \<times> interface option) list \<Rightarrow> error + (string \<times> interface option) list" where
  "attach name seg p [] = Inr []"
| "attach name seg p ((key, None) # is) = Inl NullDeref"
| "attach name seg p ((key, Some i) # is) =
     (case attach name seg p is of Inl e \<Rightarrow> Inl e
      | Inr is \<Rightarrow> Inr ((key, Some (if if_segment i = seg
           then i\<lparr>name2hostInterface := um_put name p (name2hostInterface i)\<rparr> else i)) # is))"

fun init_host :: "string \<Rightarrow> iface_cfg list \<Rightarrow> host_info \<Rightarrow> 'r master \<Rightarrow> error + host_info \<times> 'r master" where
  "init_host hostName [] h ms = Inr (h, ms)"
| "init_host hostName (c # cs) h ms =
     (let hif = (\<lambda>l. \<lparr>hf_name = ic_name c, hf_host = hostName, hf_segment = ic_segment c, hf_type = ic_type c,
                      fail_times = 0, hf_link = l\<rparr>);
          k = length (m_hifs ms);
          (p, hifs) =
            (if ic_type c = ''tcp'' then (Some k, m_hifs ms @ [hif (TcpHif new_tcp_link)])
             else if ic_type c = ''uwb'' then
               (Some k, m_hifs ms @ [hif (UwbHif (m_uwbHandle ms) (of_nat (ic_node_id c)))])
             else (None, m_hifs ms))
      in case attach (ic_name c) (ic_segment c) p (interfaceList ms) of Inl e \<Rightarrow> Inl e
         | Inr is \<Rightarrow> init_host hostName cs (host_setHostInterface (ic_name c) p h)
             (ms\<lparr>m_hifs := hifs, interfaceList := is\<rparr>))"

fun init_hosts :: "host_cfg list \<Rightarrow> 'r master \<Rightarrow> error + 'r master" where
  "init_hosts [] ms = Inr ms"
| "init_hosts (h # hs) ms =
     (if hc_name h = m_hostName ms then init_hosts hs ms
      else
        (case init_host (hc_name h) (hc_interfaces h) (new_host (hc_name h)) ms of Inl e \<Rightarrow> Inl e
         | Inr (info, ms) \<Rightarrow> init_hosts hs (ms\<lparr>hostlist := um_put (hc_name h) info (hostlist ms)\<rparr>)))"

definition im_init :: "(nat \<Rightarrow> bool \<times> bool) \<Rightarrow> config \<Rightarrow> string \<Rightarrow> 'r master \<Rightarrow> error + 'r master" where
  "im_init serial cfg hostName ms =
     (let ms = ms\<lparr>m_hostName := hostName\<rparr>;
          ms = (case find (\<lambda>h. hc_name h = hostName) (cf_hosts cfg) of None \<Rightarrow> ms
                | Some h \<Rightarrow> init_interfaces serial (hc_interfaces h) ms)
      in case init_hosts (cf_hosts cfg) ms of Inl e \<Rightarrow> Inl e
         | Inr ms \<Rightarrow>
             (let m = map_init cfg hostName (m_map ms) in
              case getRoute m of Inl e \<Rightarrow> Inl e
              | Inr rt \<Rightarrow> Inr (ms\<lparr>m_map := m, route := rt, launch := cf_launch cfg\<rparr>)))"

definition start_link :: "string \<times> nat option \<Rightarrow> 'r mop" where
  "start_link p = (case snd p of None \<Rightarrow> (\<lambda>ms. Inl NullDeref) | Some k \<Rightarrow> on_link k tcp_run)"

definition im_run :: "'r mop" where
  "im_run ms =
     for_each (\<lambda>p. case snd p of None \<Rightarrow> (\<lambda>ms. Inl NullDeref) | Some i \<Rightarrow> for_each start_link (name2hostInterface i))
       (interfaceList ms) ms"

end
