(* ===== verification/IfaceSend.thy ===== *)
theory IfaceSend
  imports IfaceManager
begin

text \<open>
  What the interface manager sends where: the host interface a request for a host ends at, the
  requests a broadcast or a publication hands to each link, the failure counter and the routes.
\<close>

subsection \<open>Where a request goes\<close>

text \<open>The host interface that \<open>transfer\<close> ends at, if every lookup on the way succeeds.\<close>

definition hop_of :: "'r master \<Rightarrow> string \<Rightarrow> nat option" where
  "hop_of ms host =
     (case um_find (interfaceList ms) (fst (um_at ([], []) (route ms) host)) of
        Some (Some i) \<Rightarrow>
          (case um_find (name2hostInterface i) (snd (um_at ([], []) (route ms) host)) of
             Some (Some k) \<Rightarrow> Some k | _ \<Rightarrow> None)
      | _ \<Rightarrow> None)"

definition queue_of :: "'r master \<Rightarrow> nat \<Rightarrow> 'r list option" where
  "queue_of ms k = (case hf_link (m_hifs ms ! k) of TcpHif l \<Rightarrow> Some (m_requestQueue l) | UwbHif _ _ \<Rightarrow> None)"

fun write_to :: "nat \<Rightarrow> 'r mout \<Rightarrow> 'r list" where
  "write_to k (TcpOut j io) = (if j = k then write_of io else [])"
| "write_to k _ = []"

definition written_to :: "nat \<Rightarrow> 'r mout list \<Rightarrow> 'r list" where
  "written_to k out = concat (map (write_to k) out)"

lemma written_to_simps [simp]:
  "written_to k [] = []" "written_to k (a @ b) = written_to k a @ written_to k b"
  "written_to k (map (TcpOut j) io) = (if j = k then writes_of io else [])"
  by (simp_all add: written_to_def writes_of_def comp_def)

lemma written_to_others [simp]: "written_to k (map (UwbOut h) evs) = []" "written_to k (map ShmOut os) = []"
  by (simp_all add: written_to_def comp_def)

text \<open>What sending leaves alone.\<close>

definition settings :: "'r master \<Rightarrow> _" where
  "settings ms = (m_hostName ms, topic2host ms, hostlist ms, interfaceList ms, launch ms, m_map ms, m_mw ms, m_now ms,
     map (\<lambda>h. (hf_name h, hf_host h, hf_segment h, hf_type h, fail_times h)) (m_hifs ms), length (m_handles ms))"

definition unmoved :: "'r master \<Rightarrow> 'r master \<Rightarrow> bool" where
  "unmoved ms ms' \<longleftrightarrow> settings ms' = settings ms \<and> um_at ([], []) (route ms') = um_at ([], []) (route ms)"

lemma unmoved_refl [simp]: "unmoved ms ms"
  by (simp add: unmoved_def)

lemma unmoved_trans: "unmoved a b \<Longrightarrow> unmoved b c \<Longrightarrow> unmoved a c"
  by (simp add: unmoved_def)

lemma hop_of_cong:
  "interfaceList ms' = interfaceList ms \<Longrightarrow> um_at ([], []) (route ms') = um_at ([], []) (route ms) \<Longrightarrow>
   hop_of ms' = hop_of ms"
  by (rule ext) (simp only: hop_of_def)

lemma hop_of_update [simp]:
  "hop_of (ms\<lparr>topic2host := t\<rparr>) = hop_of ms" "hop_of (ms\<lparr>m_hifs := l\<rparr>) = hop_of ms"
  "hop_of (ms\<lparr>m_map := m\<rparr>) = hop_of ms" "hop_of (ms\<lparr>m_mw := w\<rparr>) = hop_of ms" "hop_of (ms\<lparr>hostlist := hs\<rparr>) = hop_of ms"
  by (rule hop_of_cong; simp)+

lemma unmoved_hop: "unmoved ms ms' \<Longrightarrow> hop_of ms' = hop_of ms"
  by (rule hop_of_cong) (simp_all add: unmoved_def settings_def)

lemma unmoved_sel:
  assumes "unmoved ms ms'"
  shows "m_hostName ms' = m_hostName ms" "topic2host ms' = topic2host ms" "hostlist ms' = hostlist ms"
    "interfaceList ms' = interfaceList ms" "m_map ms' = m_map ms" "m_mw ms' = m_mw ms"
    "length (m_hifs ms') = length (m_hifs ms)"
    "k < length (m_hifs ms) \<Longrightarrow> hf_host (m_hifs ms' ! k) = hf_host (m_hifs ms ! k)"
    "k < length (m_hifs ms) \<Longrightarrow> fail_times (m_hifs ms' ! k) = fail_times (m_hifs ms ! k)"
proof -
  have s: "settings ms' = settings ms" using assms by (simp add: unmoved_def)
  then show "m_hostName ms' = m_hostName ms" "topic2host ms' = topic2host ms" "hostlist ms' = hostlist ms"
    "interfaceList ms' = interfaceList ms" "m_map ms' = m_map ms" "m_mw ms' = m_mw ms"
    by (simp_all add: settings_def)
  have m: "map (\<lambda>h. (hf_name h, hf_host h, hf_segment h, hf_type h, fail_times h)) (m_hifs ms')
      = map (\<lambda>h. (hf_name h, hf_host h, hf_segment h, hf_type h, fail_times h)) (m_hifs ms)"
    using s by (simp add: settings_def)
  show l: "length (m_hifs ms') = length (m_hifs ms)" using map_eq_imp_length_eq [OF m] .
  show "hf_host (m_hifs ms' ! k) = hf_host (m_hifs ms ! k)" "fail_times (m_hifs ms' ! k) = fail_times (m_hifs ms ! k)"
    if "k < length (m_hifs ms)"
    using arg_cong [OF m, of "\<lambda>xs. xs ! k"] that l by simp_all
qed

lemma transfer_hop: "hop_of ms dest = Some k \<Longrightarrow>
    transfer A dest (req, ms) = hif_send A k (req, ms\<lparr>route := snd (um_index ([], []) dest (route ms))\<rparr>)"
  by (auto simp: transfer_def hop_of_def iface_send_def um_index_at case_prod_beta Let_def split: option.splits)

lemma transfer_no_hop: "hop_of ms dest = None \<Longrightarrow> transfer A dest (req, ms) = Inl NullDeref"
  by (auto simp: transfer_def hop_of_def iface_send_def um_index_at case_prod_beta Let_def split: option.splits)

lemma tcp_send_queue:
  "tcp_send A req l = (l', req', io) \<Longrightarrow>
   req' = h_prepare A req \<and> writes_of io @ m_requestQueue l' = m_requestQueue l @ [h_prepare A req]"
  by (auto simp: tcp_send_def doConnect_def doWrite_def Let_def writes_of_def split: if_splits)

lemma map_update_same: "k < length xs \<Longrightarrow> f y = f (xs ! k) \<Longrightarrow> map f (xs[k := y]) = map f xs"
  by (simp add: map_update list_update_same_conv)

text \<open>One send: what it hands to the link with index \<open>k\<close>, and what it leaves alone.\<close>

definition handed :: "'r master \<Rightarrow> 'r master \<Rightarrow> 'r mout list \<Rightarrow> nat \<Rightarrow> 'r list \<Rightarrow> bool" where
  "handed ms ms' out k rs \<longleftrightarrow>
     (case queue_of ms k of
        None \<Rightarrow> queue_of ms' k = None \<and> written_to k out = []
      | Some q \<Rightarrow> \<exists>q'. queue_of ms' k = Some q' \<and> written_to k out @ q' = q @ rs)"

lemma handed_none: "queue_of ms' k = queue_of ms k \<Longrightarrow> written_to k out = [] \<Longrightarrow> handed ms ms' out k []"
  by (simp add: handed_def split: option.split)

lemma handed_trans: "handed a b o1 k r1 \<Longrightarrow> handed b c o2 k r2 \<Longrightarrow> handed a c (o1 @ o2) k (r1 @ r2)"
  by (auto simp: handed_def split: option.splits)

lemma hif_send_spec:
  assumes "k < length (m_hifs ms)"
  shows "\<exists>req' ms' out. hif_send A k (req, ms) = Inr ((req', ms'), out) \<and> unmoved ms ms' \<and>
    (req' = req \<or> req' = h_prepare A req) \<and>
    (\<forall>j. handed ms ms' out j (if j = k then [h_prepare A req] else []))"
proof (cases "hf_link (m_hifs ms ! k)")
  case (TcpHif l)
  obtain l' r' io where l': "tcp_send A req l = (l', r', io)" by (cases "tcp_send A req l")
  note q = tcp_send_queue [OF l']
  let ?ms = "ms\<lparr>m_hifs := (m_hifs ms)[k := (m_hifs ms ! k)\<lparr>hf_link := TcpHif l'\<rparr>]\<rparr>"
  have "hif_send A k (req, ms) = Inr ((r', ?ms), map (TcpOut k) io)"
    by (simp add: hif_send_def TcpHif l')
  moreover have "unmoved ms ?ms"
    using assms by (simp add: unmoved_def settings_def map_update_same)
  moreover have "handed ms ?ms (map (TcpOut k) io) j (if j = k then [h_prepare A req] else [])" for j
    using assms q TcpHif by (auto simp: handed_def queue_of_def nth_list_update split: host_link.split)
  ultimately show ?thesis using q by blast
next
  case (UwbHif p n)
  show ?thesis
  proof (cases p)
    case None
    then have "hif_send A k (req, ms) = Inr ((req, ms), [])" by (simp add: hif_send_def UwbHif)
    moreover have "handed ms ms [] j (if j = k then [h_prepare A req] else [])" for j
      using UwbHif by (auto simp: handed_def queue_of_def split: host_link.split)
    ultimately show ?thesis by (metis unmoved_refl)
  next
    case (Some h)
    obtain hd evs where hd: "send_http_reliable A (m_now ms) (h_prepare A req) n None (m_handles ms ! h) = (hd, evs)"
      by (cases "send_http_reliable A (m_now ms) (h_prepare A req) n None (m_handles ms ! h)")
    let ?ms = "ms\<lparr>m_handles := (m_handles ms)[h := hd]\<rparr>"
    have "hif_send A k (req, ms) = Inr ((h_prepare A req, ?ms), map (UwbOut h) evs)"
      by (simp add: hif_send_def UwbHif Some hd)
    moreover have "unmoved ms ?ms" by (simp add: unmoved_def settings_def)
    moreover have "handed ms ?ms (map (UwbOut h) evs) j (if j = k then [h_prepare A req] else [])" for j
      using UwbHif by (auto simp: handed_def queue_of_def split: host_link.split)
    ultimately show ?thesis by blast
  qed
qed

text \<open>Two requests that differ at most in their destination and in what \<open>prepare_payload\<close> adds.\<close>

definition same_parts :: "'r http_api \<Rightarrow> 'r \<Rightarrow> 'r \<Rightarrow> bool" where
  "same_parts A r s \<longleftrightarrow> h_method A s = h_method A r \<and> h_target A s = h_target A r \<and> h_body A s = h_body A r \<and>
     (\<forall>f \<in> app_fields - {''dest''}. h_get A s f = h_get A r f)"

definition addressed :: "'r http_api \<Rightarrow> 'r \<Rightarrow> string \<Rightarrow> 'r \<Rightarrow> bool" where
  "addressed A r host s \<longleftrightarrow> same_parts A r s \<and> h_get A s ''dest'' = host"

lemma same_parts_refl [simp]: "same_parts A r r"
  by (simp add: same_parts_def)

lemma same_parts_trans: "same_parts A r s \<Longrightarrow> same_parts A s t \<Longrightarrow> same_parts A r t"
  by (simp add: same_parts_def)

lemma same_parts_prepare: "http_laws A \<Longrightarrow> same_parts A r (h_prepare A r)"
  by (simp add: same_parts_def http_simps)

lemma same_parts_dest: "http_laws A \<Longrightarrow> same_parts A r (h_set A ''dest'' host r)"
  by (auto simp: same_parts_def http_simps)

lemma addressed_prepare: "http_laws A \<Longrightarrow> addressed A r host (h_prepare A (h_set A ''dest'' host r))"
  using same_parts_trans [OF same_parts_dest same_parts_prepare] by (simp add: addressed_def http_simps)

lemma unmoved_route: "unmoved ms (ms\<lparr>route := snd (um_index ([], []) h (route ms))\<rparr>)"
  by (simp add: unmoved_def settings_def fun_eq_iff)

lemma handed_route [simp]: "handed (ms\<lparr>route := r\<rparr>) ms' out k rs = handed ms ms' out k rs"
  by (simp add: handed_def queue_of_def)

lemma send_to_spec:
  assumes "http_laws A" and "hop_of ms host = Some k" and "k < length (m_hifs ms)"
  shows "\<exists>req' ms' out s. send_to A host (req, ms) = Inr ((req', ms'), out) \<and> unmoved ms ms' \<and>
    same_parts A req req' \<and> addressed A req host s \<and>
    (\<forall>j. handed ms ms' out j (if j = k then [s] else []))"
proof -
  let ?r = "h_set A ''dest'' host req" and ?ms = "ms\<lparr>route := snd (um_index ([], []) host (route ms))\<rparr>"
  have k: "k < length (m_hifs ?ms)" using assms(3) by simp
  obtain req' ms' out where o: "hif_send A k (?r, ?ms) = Inr ((req', ms'), out)" "unmoved ?ms ms'"
    "req' = ?r \<or> req' = h_prepare A ?r" "\<forall>j. handed ?ms ms' out j (if j = k then [h_prepare A ?r] else [])"
    using hif_send_spec [OF k] by blast
  have "send_to A host (req, ms) = Inr ((req', ms'), out)"
    using o(1) by (simp add: send_to_def transfer_hop [OF assms(2)])
  moreover have "unmoved ms ms'" using unmoved_trans [OF unmoved_route o(2)] .
  moreover have "same_parts A req req'"
    using o(3) same_parts_dest [OF assms(1)] addressed_prepare [OF assms(1)] by (auto simp: addressed_def)
  ultimately show ?thesis
    using addressed_prepare [OF assms(1)] o(4) by (simp only: handed_route) blast
qed

definition reaches_all :: "'r master \<Rightarrow> string list \<Rightarrow> bool" where
  "reaches_all ms hosts \<longleftrightarrow> (\<forall>h \<in> set hosts. \<exists>k. hop_of ms h = Some k \<and> k < length (m_hifs ms))"

text \<open>The requests handed to link \<open>k\<close>: one for each host it leads to, in the order of the loop.\<close>

lemma send_all_spec:
  assumes "http_laws A" and "reaches_all ms hosts"
  shows "\<exists>req' ms' out. for_each (send_to A) hosts (req, ms) = Inr ((req', ms'), out) \<and> unmoved ms ms' \<and>
    (\<forall>k. \<exists>rs. handed ms ms' out k rs \<and> list_all2 (addressed A req) (filter (\<lambda>h. hop_of ms h = Some k) hosts) rs)"
  using assms(2)
proof (induction hosts arbitrary: req ms)
  case Nil
  have "handed ms ms [] k []" for k by (simp add: handed_none)
  then show ?case by (auto simp: skip_def)
next
  case (Cons h hosts)
  obtain i where i: "hop_of ms h = Some i" "i < length (m_hifs ms)"
    using Cons.prems by (auto simp: reaches_all_def)
  obtain r1 m1 o1 s where 1: "send_to A h (req, ms) = Inr ((r1, m1), o1)" "unmoved ms m1" "same_parts A req r1"
    "addressed A req h s" "\<forall>j. handed ms m1 o1 j (if j = i then [s] else [])"
    using send_to_spec [OF assms(1) i] by blast
  have "reaches_all m1 hosts"
    using Cons.prems unmoved_hop [OF 1(2)] unmoved_sel(7) [OF 1(2)] by (simp add: reaches_all_def)
  from Cons.IH [OF this, of r1] obtain r2 m2 o2 where
    2: "for_each (send_to A) hosts (r1, m1) = Inr ((r2, m2), o2)" "unmoved m1 m2" and
    rs: "\<forall>k. \<exists>rs. handed m1 m2 o2 k rs \<and> list_all2 (addressed A r1) (filter (\<lambda>h. hop_of m1 h = Some k) hosts) rs"
    by blast
  have "\<exists>rs. handed ms m2 (o1 @ o2) k rs \<and> list_all2 (addressed A req) (filter (\<lambda>h. hop_of ms h = Some k) (h # hosts)) rs" for k
  proof -
    obtain rs where rs': "handed m1 m2 o2 k rs" "list_all2 (addressed A r1) (filter (\<lambda>h. hop_of m1 h = Some k) hosts) rs"
      using rs by blast
    have "list_all2 (addressed A req) (filter (\<lambda>h. hop_of ms h = Some k) hosts) rs"
      using list_all2_mono [OF rs'(2)] same_parts_trans [OF 1(3)] unmoved_hop [OF 1(2)]
      by (auto simp: addressed_def)
    then have "list_all2 (addressed A req) (filter (\<lambda>h. hop_of ms h = Some k) (h # hosts)) ((if k = i then [s] else []) @ rs)"
      using i(1) 1(4) by auto
    then show ?thesis using handed_trans [OF 1(5) [rule_format] rs'(1)] by blast
  qed
  moreover have "for_each (send_to A) (h # hosts) (req, ms) = Inr ((r2, m2), o1 @ o2)"
    using 1(1) 2(1) by (simp add: and_then_def)
  ultimately show ?case using unmoved_trans [OF 1(2) 2(2)] by blast
qed

lemma send_all_fails:
  assumes "http_laws A" and "h \<in> set hosts" and "hop_of ms h = None"
    and "\<And>h k. hop_of ms h = Some k \<Longrightarrow> k < length (m_hifs ms)"
  shows "for_each (send_to A) hosts (req, ms) = Inl NullDeref"
  using assms(2-4)
proof (induction hosts arbitrary: req ms)
  case (Cons g hosts)
  show ?case
  proof (cases "hop_of ms g")
    case None
    then show ?thesis by (simp add: and_then_def send_to_def transfer_no_hop)
  next
    case (Some i)
    obtain r1 m1 o1 where 1: "send_to A g (req, ms) = Inr ((r1, m1), o1)" "unmoved ms m1"
      using send_to_spec [OF assms(1) Some Cons.prems(3) [OF Some]] by blast
    have "h \<in> set hosts" using Cons.prems(1,2) Some by auto
    with Cons.IH [of m1 r1] Cons.prems(2,3) unmoved_hop [OF 1(2)] unmoved_sel(7) [OF 1(2)]
    show ?thesis using 1(1) by (simp add: and_then_def)
  qed
qed simp

subsection \<open>Properties of the routes in use\<close>

definition host_names :: "'r master \<Rightarrow> string list" where
  "host_names ms = map fst (hostlist ms)"

lemma broadcast_spec:
  assumes "http_laws A" and "reaches_all ms (host_names ms)"
  shows "\<exists>req' ms' out. broadcast A (req, ms) = Inr ((req', ms'), out) \<and> unmoved ms ms' \<and>
    (\<forall>k. \<exists>rs. handed ms ms' out k rs \<and>
      list_all2 (addressed A (h_set A ''src'' (m_hostName ms) req)) (filter (\<lambda>h. hop_of ms h = Some k) (host_names ms)) rs)"
  using send_all_spec [OF assms(1,2), of "h_set A ''src'' (m_hostName ms) req"]
  by (simp add: broadcast_def host_names_def)

lemma broadcast_request:
  assumes "http_laws A" and "reaches_all ms (host_names ms)"
  obtains ms' out where "with_request req (broadcast A) ms = Inr (ms', out)" "unmoved ms ms'"
  using broadcast_spec [OF assms, of req] by (auto simp: with_request_def)

lemma broadcast_fails:
  assumes "http_laws A" and "h \<in> set (host_names ms)" and "hop_of ms h = None"
    and "\<And>h k. hop_of ms h = Some k \<Longrightarrow> k < length (m_hifs ms)"
  shows "with_request req (broadcast A) ms = Inl NullDeref"
  using send_all_fails [OF assms(1) _ assms(3,4)] assms(2)
  by (simp add: with_request_def broadcast_def host_names_def)

text \<open>The master of host A on the chain A - B - C, as \<open>init\<close> leaves it.\<close>

definition chain_master :: "request master" where
  "chain_master = projr (im_init (\<lambda>_. (True, True)) chain ''A'' new_master)"

lemma chain_master_sel:
  "m_hostName chain_master = ''A''" "host_names chain_master = [''B'', ''C'']" "length (m_hifs chain_master) = 3"
  "hf_host (m_hifs chain_master ! 0) = ''B''" "fail_times (m_hifs chain_master ! 0) = 0"
  "m_map chain_master = chain_map" "m_mw chain_master = new_mw" "topic2host chain_master = []"
  "route chain_master = [(''B'', (''a1'', ''b1'')), (''C'', (''a1'', ''b1''))]"
  "interfaceList chain_master = [(''a1'', Some \<lparr>if_name = ''a1'', if_type = ''tcp'', if_segment = 1,
      name2hostInterface = [(''b1'', Some 0)]\<rparr>)]"
  "m_hifs chain_master ! 0 = \<lparr>hf_name = ''b1'', hf_host = ''B'', hf_segment = 1, hf_type = ''tcp'', fail_times = 0,
      hf_link = TcpHif new_tcp_link\<rparr>"
  by code_simp+

lemma chain_init: "im_init (\<lambda>_. (True, True)) chain ''A'' new_master = Inr chain_master"
  unfolding chain_master_def by code_simp

lemma chain_hop: "hop_of (chain_master\<lparr>route := r\<rparr>) h =
    (if um_at ([], []) r h = (''a1'', ''b1'') then Some 0 else None)"
  by (cases "um_at ([], []) r h") (simp add: hop_of_def chain_master_sel um_find_def)

lemma chain_hops: "hop_of chain_master ''B'' = Some 0" "hop_of chain_master ''C'' = Some 0"
  by code_simp+

lemma chain_reaches: "reaches_all chain_master (host_names chain_master)"
  by (simp add: reaches_all_def chain_master_sel(2,3) chain_hops)

text \<open>
  A broadcast returns whenever every known host has a hop, and then hands each link, in order,
  one request for every host behind it: addressed to that host, with this host as its source and
  the method, target, body and other fields of the caller's request. Nothing else is handed over.
\<close>

theorem broadcast_reaches_all:
  assumes "http_laws A" and "reaches_all ms (host_names ms)"
  shows "\<exists>req' ms' out. broadcast A (req, ms) = Inr ((req', ms'), out) \<and> unmoved ms ms' \<and>
    (\<forall>k. \<exists>rs. handed ms ms' out k rs \<and>
      list_all2 (addressed A (h_set A ''src'' (m_hostName ms) req)) (filter (\<lambda>h. hop_of ms h = Some k) (host_names ms)) rs)"
  using broadcast_spec [OF assms] .

theorem broadcast_reaches_all_witness:
  "\<exists>req' ms' out. broadcast list_http (h_make list_http v_post ''/node'', chain_master) = Inr ((req', ms'), out) \<and>
     (\<exists>r1 r2. handed chain_master ms' out 0 [r1, r2] \<and> h_get list_http r1 ''dest'' = ''B'' \<and>
        h_get list_http r2 ''dest'' = ''C'' \<and> h_get list_http r2 ''src'' = ''A'')"
proof -
  let ?r = "h_make list_http v_post ''/node''"
  obtain req' ms' out where b: "broadcast list_http (?r, chain_master) = Inr ((req', ms'), out)"
    "\<forall>k. \<exists>rs. handed chain_master ms' out k rs \<and>
      list_all2 (addressed list_http (h_set list_http ''src'' (m_hostName chain_master) ?r))
        (filter (\<lambda>h. hop_of chain_master h = Some k) (host_names chain_master)) rs"
    using broadcast_reaches_all [OF list_http_laws chain_reaches, of ?r] by blast
  have "filter (\<lambda>h. hop_of chain_master h = Some 0) (host_names chain_master) = [''B'', ''C'']"
    by (simp add: chain_master_sel(2) chain_hops)
  then obtain r1 r2 where r: "handed chain_master ms' out 0 [r1, r2]"
    "addressed list_http (h_set list_http ''src'' ''A'' ?r) ''B'' r1"
    "addressed list_http (h_set list_http ''src'' ''A'' ?r) ''C'' r2"
    using b(2) [rule_format, of 0] by (auto simp: list_all2_Cons1 chain_master_sel(1))
  have "h_get list_http r2 ''src'' = h_get list_http (h_set list_http ''src'' ''A'' ?r) ''src''"
    using r(3) by (simp add: addressed_def same_parts_def)
  then have "h_get list_http r2 ''src'' = ''A''" by (simp add: list_http_def)
  with b(1) r show ?thesis by (auto simp: addressed_def)
qed

lemma publish_spec:
  assumes "http_laws A" and "reaches_all ms (um_at [] (topic2host ms) topic)"
  shows "\<exists>ms' out. im_publish A topic data ms = Inr (ms', out) \<and>
    um_at [] (topic2host ms') = um_at [] (topic2host ms) \<and>
    (\<forall>k. \<exists>rs. handed ms ms' out k rs \<and>
      list_all2 (\<lambda>h r. h_method A r = v_post \<and> h_target A r = ''/publish'' \<and> h_get A r ''topic'' = topic \<and>
          h_body A r = data \<and> h_get A r ''src'' = m_hostName ms \<and> h_get A r ''dest'' = h)
        (filter (\<lambda>h. hop_of ms h = Some k) (um_at [] (topic2host ms) topic)) rs)"
proof -
  let ?q = "h_set A ''src'' (m_hostName ms) (h_set_body A data (h_set A ''topic'' topic (h_make A v_post ''/publish'')))"
  let ?ms = "ms\<lparr>topic2host := snd (um_index [] topic (topic2host ms))\<rparr>"
  have hop: "hop_of ?ms = hop_of ms" by simp
  have "reaches_all ?ms (um_at [] (topic2host ms) topic)"
    using assms(2) by (simp add: reaches_all_def hop)
  from send_all_spec [OF assms(1) this, of ?q] obtain req' ms' out where
    o: "for_each (send_to A) (um_at [] (topic2host ms) topic) (?q, ?ms) = Inr ((req', ms'), out)" "unmoved ?ms ms'"
    and rs: "\<forall>k. \<exists>rs. handed ?ms ms' out k rs \<and>
      list_all2 (addressed A ?q) (filter (\<lambda>h. hop_of ?ms h = Some k) (um_at [] (topic2host ms) topic)) rs"
    by blast
  have h: "handed ?ms ms' out k rs = handed ms ms' out k rs" for k rs by (simp add: handed_def queue_of_def)
  have q: "h_method A ?q = v_post" "h_target A ?q = ''/publish''" "h_get A ?q ''topic'' = topic" "h_body A ?q = data"
    "h_get A ?q ''src'' = m_hostName ms"
    using assms(1) by (simp_all add: http_simps)
  have "addressed A ?q x r \<Longrightarrow> h_method A r = v_post \<and> h_target A r = ''/publish'' \<and> h_get A r ''topic'' = topic \<and>
      h_body A r = data \<and> h_get A r ''src'' = m_hostName ms \<and> h_get A r ''dest'' = x" for x r
    unfolding addressed_def same_parts_def q(1,2,4) using q(3,5) by auto
  then have "\<exists>rs. handed ms ms' out k rs \<and>
      list_all2 (\<lambda>h r. h_method A r = v_post \<and> h_target A r = ''/publish'' \<and> h_get A r ''topic'' = topic \<and>
          h_body A r = data \<and> h_get A r ''src'' = m_hostName ms \<and> h_get A r ''dest'' = h)
        (filter (\<lambda>h. hop_of ms h = Some k) (um_at [] (topic2host ms) topic)) rs" for k
    using rs [rule_format, of k] unfolding h hop by (blast intro: list_all2_mono)
  moreover have "im_publish A topic data ms = Inr (ms', out)"
    using o(1) by (simp add: im_publish_def case_prod_beta Let_def um_index_at with_request_def)
  moreover have "um_at [] (topic2host ms') = um_at [] (topic2host ms)"
    using unmoved_sel(2) [OF o(2)] by (simp add: fun_eq_iff)
  ultimately show ?thesis by blast
qed

text \<open>
  A publication goes to exactly the hosts recorded for its topic: when they all have a hop, each
  link is handed one \<open>POST /publish\<close> with the topic and the data for every such host behind it.
\<close>

theorem publish_to_hosts:
  assumes "http_laws A" and "reaches_all ms (um_at [] (topic2host ms) topic)"
  shows "\<exists>ms' out. im_publish A topic data ms = Inr (ms', out) \<and>
    um_at [] (topic2host ms') = um_at [] (topic2host ms) \<and>
    (\<forall>k. \<exists>rs. handed ms ms' out k rs \<and>
      list_all2 (\<lambda>h r. h_method A r = v_post \<and> h_target A r = ''/publish'' \<and> h_get A r ''topic'' = topic \<and>
          h_body A r = data \<and> h_get A r ''src'' = m_hostName ms \<and> h_get A r ''dest'' = h)
        (filter (\<lambda>h. hop_of ms h = Some k) (um_at [] (topic2host ms) topic)) rs)"
  using publish_spec [OF assms] .

theorem publish_to_hosts_witness:
  "\<exists>ms' out. im_publish list_http ''pose'' ''1'' (chain_master\<lparr>topic2host := [(''pose'', [''C''])]\<rparr>) = Inr (ms', out) \<and>
     (\<exists>r. handed chain_master ms' out 0 [r] \<and> h_get list_http r ''dest'' = ''C'' \<and> h_body list_http r = ''1'')"
proof -
  let ?ms = "chain_master\<lparr>topic2host := [(''pose'', [''C''])]\<rparr>"
  have hop: "hop_of ?ms ''C'' = Some 0" by (simp add: chain_hops)
  have t: "um_at [] (topic2host ?ms) ''pose'' = [''C'']" by (simp add: um_at_def um_find_def)
  have r: "reaches_all ?ms (um_at [] (topic2host ?ms) ''pose'')"
    unfolding t by (simp add: reaches_all_def chain_hops chain_master_sel)
  obtain ms' out where p: "im_publish list_http ''pose'' ''1'' ?ms = Inr (ms', out)"
    "\<exists>rs. handed ?ms ms' out 0 rs \<and> list_all2 (\<lambda>h r. h_method list_http r = v_post \<and> h_target list_http r = ''/publish'' \<and>
        h_get list_http r ''topic'' = ''pose'' \<and> h_body list_http r = ''1'' \<and>
        h_get list_http r ''src'' = m_hostName ?ms \<and> h_get list_http r ''dest'' = h)
        (filter (\<lambda>h. hop_of ?ms h = Some 0) (um_at [] (topic2host ?ms) ''pose'')) rs"
    using publish_to_hosts [OF list_http_laws r, of "''1''"] by blast
  have h: "handed ?ms ms' out 0 rs = handed chain_master ms' out 0 rs" for rs by (simp add: handed_def queue_of_def)
  show ?thesis using p unfolding t h by (auto simp: chain_hops list_all2_Cons1)
qed

subsection \<open>Failing links\<close>

abbreviation avoid :: "'r master \<Rightarrow> nat \<Rightarrow> route_map" where
  "avoid ms k \<equiv> map_setMaxWeight (m_hostName ms) (hf_host (m_hifs ms ! k)) (m_map ms)"

lemma fail_times_set [simp]: "k < length (m_hifs ms) \<Longrightarrow> fail_times (m_hifs (set_fail_times k n ms) ! k) = n"
  by (simp add: set_fail_times_def)

lemma set_fail_times_sel [simp]:
  "m_hostName (set_fail_times k n ms) = m_hostName ms" "m_map (set_fail_times k n ms) = m_map ms"
  "hostlist (set_fail_times k n ms) = hostlist ms" "length (m_hifs (set_fail_times k n ms)) = length (m_hifs ms)"
  "k < length (m_hifs ms) \<Longrightarrow> hf_host (m_hifs (set_fail_times k n ms) ! k) = hf_host (m_hifs ms ! k)"
  "hop_of (set_fail_times k n ms) = hop_of ms" "host_names (set_fail_times k n ms) = host_names ms"
  "k < length (m_hifs ms) \<Longrightarrow> set_fail_times k n (set_fail_times k m ms) = set_fail_times k n ms"
  by (simp_all add: set_fail_times_def host_names_def)

lemma set_fail_times_same: "fail_times (m_hifs ms ! k) = n \<Longrightarrow> set_fail_times k n ms = ms"
proof -
  assume "fail_times (m_hifs ms ! k) = n"
  then have "(m_hifs ms ! k)\<lparr>fail_times := n\<rparr> = m_hifs ms ! k" by (metis host_interface.surjective host_interface.update_convs(5))
  then show ?thesis by (simp add: set_fail_times_def)
qed

lemma hop_of_route: "hop_of ((set_fail_times k n ms)\<lparr>m_map := m, route := r\<rparr>) = hop_of (ms\<lparr>route := r\<rparr>)"
  by (rule hop_of_cong) (simp_all add: set_fail_times_def)

lemma onFail_early:
  "fail_times (m_hifs ms ! k) = n \<Longrightarrow> n < 5 \<Longrightarrow> onFail A k ms = Inr (set_fail_times k (n + 1) ms, [])"
  by (simp add: onFail_def)

lemma onFail_late: "5 < fail_times (m_hifs ms ! k) \<Longrightarrow> onFail A k ms = Inr (ms, [])"
  by (simp add: onFail_def)

lemma onFail_sixth:
  assumes "k < length (m_hifs ms)" and "fail_times (m_hifs ms ! k) = 5" and "getRoute (avoid ms k) = Inr rt"
  shows "onFail A k ms = with_request (weight_request A (m_hostName ms) (hf_host (m_hifs ms ! k)) ''max'') (broadcast A)
      ((set_fail_times k 6 ms)\<lparr>m_map := avoid ms k, route := rt\<rparr>)"
  using assms by (simp add: onFail_def Let_def setMaxWeight_def set_weight_def and_then_def split: sum.split)

lemma queue_of_set: "queue_of ((set_fail_times k n ms)\<lparr>m_map := m, route := r\<rparr>) = queue_of ms"
proof (rule ext)
  fix j
  show "queue_of ((set_fail_times k n ms)\<lparr>m_map := m, route := r\<rparr>) j = queue_of ms j"
    by (cases "k < length (m_hifs ms)") (simp_all add: queue_of_def set_fail_times_def nth_list_update list_update_beyond)
qed

lemma queue_of_set_fail_times: "queue_of (set_fail_times k n ms) = queue_of ms"
proof (rule ext)
  fix j
  show "queue_of (set_fail_times k n ms) j = queue_of ms j"
    by (cases "k < length (m_hifs ms)") (simp_all add: queue_of_def set_fail_times_def nth_list_update list_update_beyond)
qed

text \<open>The request that tells the other hosts of the new weight, and that each host behind a TCP link got it once.\<close>

abbreviation max_weight_told :: "'r http_api \<Rightarrow> nat \<Rightarrow> routes \<Rightarrow> 'r master \<Rightarrow> 'r master \<Rightarrow> 'r mout list \<Rightarrow> bool" where
  "max_weight_told A k rt ms ms' out \<equiv>
     (\<forall>j. \<exists>rs. handed ms ms' out j rs \<and>
       list_all2 (addressed A (h_set A ''src'' (m_hostName ms) (weight_request A (m_hostName ms) (hf_host (m_hifs ms ! k)) ''max'')))
         (filter (\<lambda>h. hop_of (ms\<lparr>route := rt\<rparr>) h = Some j) (host_names ms)) rs)"

lemma onFail_sixth_returns:
  assumes "http_laws A" and "k < length (m_hifs ms)" and "fail_times (m_hifs ms ! k) = 5"
    and "getRoute (avoid ms k) = Inr rt" and "reaches_all (ms\<lparr>route := rt\<rparr>) (host_names ms)"
  obtains ms' out where "onFail A k ms = Inr (ms', out)"
    "unmoved ((set_fail_times k 6 ms)\<lparr>m_map := avoid ms k, route := rt\<rparr>) ms'" "max_weight_told A k rt ms ms' out"
proof -
  let ?ms = "(set_fail_times k 6 ms)\<lparr>m_map := avoid ms k, route := rt\<rparr>"
  let ?r = "weight_request A (m_hostName ms) (hf_host (m_hifs ms ! k)) ''max''"
  have "reaches_all ?ms (host_names ?ms)"
    using assms(5) unfolding reaches_all_def hop_of_route by (simp add: host_names_def)
  from broadcast_spec [OF assms(1) this, of ?r] obtain req' ms' out where
    o: "broadcast A (?r, ?ms) = Inr ((req', ms'), out)" "unmoved ?ms ms'"
    "\<forall>j. \<exists>rs. handed ?ms ms' out j rs \<and> list_all2 (addressed A (h_set A ''src'' (m_hostName ?ms) ?r))
      (filter (\<lambda>h. hop_of ?ms h = Some j) (host_names ?ms)) rs" by blast
  have onFail: "onFail A k ms = Inr (ms', out)" unfolding onFail_sixth [OF assms(2-4)] by (simp add: with_request_def o(1))
  have same: "handed ?ms ms' out j rs = handed ms ms' out j rs" for j rs by (simp only: handed_def queue_of_set)
  have names: "m_hostName ?ms = m_hostName ms" "host_names ?ms = host_names ms" by (simp_all add: host_names_def)
  have "max_weight_told A k rt ms ms' out" using o(3) unfolding same names hop_of_route .
  then show thesis by (rule that [OF onFail o(2)])
qed

lemma early_failures:
  assumes "k < length (m_hifs ms)" and "fail_times (m_hifs ms ! k) = 0" and "n \<le> 5"
  shows "for_each (\<lambda>_. onFail A k) (replicate n ()) ms = Inr (set_fail_times k (int n) ms, [])"
proof -
  have "for_each (\<lambda>_. onFail A k) (replicate n ()) ms = Inr (set_fail_times k (c + int n) ms, [])"
    if "fail_times (m_hifs ms ! k) = c" "c + int n \<le> 5" "k < length (m_hifs ms)" for c n
    using that
  proof (induction n arbitrary: ms c)
    case 0
    then show ?case by (simp add: skip_def set_fail_times_same)
  next
    case (Suc n)
    let ?ms = "set_fail_times k (c + 1) ms"
    have 1: "onFail A k ms = Inr (?ms, [])" using Suc.prems by (intro onFail_early) simp_all
    have "for_each (\<lambda>_. onFail A k) (replicate n ()) ?ms = Inr (set_fail_times k (c + 1 + int n) ?ms, [])"
      using Suc.prems by (intro Suc.IH) simp_all
    then show ?case using 1 Suc.prems by (simp add: and_then_def add.assoc)
  qed
  from this [of 0 n] assms show ?thesis by simp
qed

lemma late_failures:
  "5 < fail_times (m_hifs ms ! k) \<Longrightarrow> for_each (\<lambda>_. onFail A k) (replicate n ()) ms = Inr (ms, [])"
  by (induction n) (simp_all add: skip_def and_then_def onFail_late)

lemma for_each_append: "for_each f (xs @ ys) = and_then (for_each f xs) (for_each f ys)"
  by (induction xs) (auto simp: and_then_def skip_def fun_eq_iff split: sum.split)

lemma lost_route:
  assumes "http_laws A" and "k < length (m_hifs ms)" and "fail_times (m_hifs ms ! k) = 5"
    and "getRoute (avoid ms k) = Inr rt" and "h \<in> set (host_names ms)"
    and "hop_of (ms\<lparr>route := rt\<rparr>) h = None"
    and "\<And>h j. hop_of (ms\<lparr>route := rt\<rparr>) h = Some j \<Longrightarrow> j < length (m_hifs ms)"
  shows "onFail A k ms = Inl NullDeref"
proof -
  let ?ms = "(set_fail_times k 6 ms)\<lparr>m_map := avoid ms k, route := rt\<rparr>"
  have "h \<in> set (host_names ?ms)" using assms(5) by (simp add: host_names_def)
  moreover have "hop_of ?ms h = None" using assms(6) by (simp only: hop_of_route)
  moreover have "j < length (m_hifs ?ms)" if "hop_of ?ms g = Some j" for g j
    using that assms(7) by (simp only: hop_of_route) simp
  ultimately show ?thesis
    unfolding onFail_sixth [OF assms(2-4)] by (rule broadcast_fails [OF assms(1)])
qed


text \<open>Three hosts in a ring, seen from A.\<close>

definition ring_master :: "request master" where
  "ring_master = projr (im_init (\<lambda>_. (True, True))
     \<lparr>cf_hosts =
       [\<lparr>hc_name = ''A'', hc_interfaces = [\<lparr>ic_name = ''a1'', ic_type = ''tcp'', ic_segment = 1, ic_node_id = 0\<rparr>,
                                         \<lparr>ic_name = ''a3'', ic_type = ''tcp'', ic_segment = 3, ic_node_id = 0\<rparr>]\<rparr>,
        \<lparr>hc_name = ''B'', hc_interfaces = [\<lparr>ic_name = ''b1'', ic_type = ''tcp'', ic_segment = 1, ic_node_id = 0\<rparr>,
                                         \<lparr>ic_name = ''b2'', ic_type = ''tcp'', ic_segment = 2, ic_node_id = 0\<rparr>]\<rparr>,
        \<lparr>hc_name = ''C'', hc_interfaces = [\<lparr>ic_name = ''c2'', ic_type = ''tcp'', ic_segment = 2, ic_node_id = 0\<rparr>,
                                         \<lparr>ic_name = ''c3'', ic_type = ''tcp'', ic_segment = 3, ic_node_id = 0\<rparr>]\<rparr>],
      cf_map = [], cf_launch = []\<rparr> ''A'' new_master)"

definition ring_detour :: routes where
  "ring_detour = [(''B'', (''a3'', ''c3'')), (''C'', (''a3'', ''c3''))]"

lemma ring_facts:
  "um_at ([], []) (route ring_master) ''B'' = (''a1'', ''b1'')" "length (m_hifs ring_master) = 4"
  "fail_times (m_hifs ring_master ! 0) = 0" "hf_host (m_hifs ring_master ! 0) = ''B''"
  "getRoute (avoid ring_master 0) = Inr ring_detour" "host_names ring_master = [''B'', ''C'']"
  "hop_of (ring_master\<lparr>route := ring_detour\<rparr>) ''B'' = Some 3" "hop_of (ring_master\<lparr>route := ring_detour\<rparr>) ''C'' = Some 3"
  "um_at ([], []) ring_detour ''B'' = (''a3'', ''c3'')"
  by code_simp+

lemma ring_hops:
  assumes "hop_of (ring_master\<lparr>route := ring_detour\<rparr>) h = Some j"
  shows "j < length (m_hifs ring_master)"
proof -
  have none: "um_find (interfaceList ring_master) [] = None" by code_simp
  have "um_at ([], []) ring_detour h = ([], [])" if "h \<noteq> ''B''" "h \<noteq> ''C''"
    using that by (simp add: ring_detour_def um_at_def um_find_def)
  then have "hop_of (ring_master\<lparr>route := ring_detour\<rparr>) h = None" if "h \<noteq> ''B''" "h \<noteq> ''C''"
    using that none by (simp add: hop_of_def)
  then show ?thesis using assms ring_facts(2,7,8) by (cases "h = ''B'' \<or> h = ''C''") auto
qed


text \<open>
  A host that loses its only route takes the master down. When the sixth failure of a link leaves
  a known host without a route, \<open>onFail\<close> ends in a null dereference instead of returning: the
  broadcast of the new weight looks up the empty interface name. This is what happens to A on the
  chain A - B - C once the link to B has failed six times in a row.
\<close>

theorem lost_route_crashes:
  assumes "http_laws A" and "k < length (m_hifs ms)" and "fail_times (m_hifs ms ! k) = 5"
    and "getRoute (avoid ms k) = Inr rt" and "h \<in> set (host_names ms)"
    and "hop_of (ms\<lparr>route := rt\<rparr>) h = None"
    and "\<And>h j. hop_of (ms\<lparr>route := rt\<rparr>) h = Some j \<Longrightarrow> j < length (m_hifs ms)"
  shows "onFail A k ms = Inl NullDeref"
  using assms by (rule lost_route)

theorem lost_route_crashes_witness:
  "for_each (\<lambda>_. onFail list_http 0) (replicate 6 ()) chain_master = Inl NullDeref"
proof -
  let ?m5 = "set_fail_times 0 5 chain_master" and ?rt = "[(''B'', (''a1'', ''b1''))]"
  have k: "0 < length (m_hifs chain_master)" by (simp add: chain_master_sel(3))
  have e: "for_each (\<lambda>_. onFail list_http 0) (replicate 5 ()) chain_master = Inr (?m5, [])"
    using early_failures [OF k chain_master_sel(5), of 5 list_http] by simp
  have a: "avoid ?m5 0 = map_setMaxWeight ''A'' ''B'' chain_map"
    using k by (simp add: chain_master_sel(1,4,6))
  have rt: "getRoute (avoid ?m5 0) = Inr ?rt" unfolding a by code_simp
  have hop: "hop_of (?m5\<lparr>route := ?rt\<rparr>) h = (if h = ''B'' then Some 0 else None)" for h
  proof -
    have "hop_of (?m5\<lparr>route := ?rt\<rparr>) h = hop_of (chain_master\<lparr>route := ?rt\<rparr>) h"
      by (rule fun_cong, rule hop_of_cong) (simp_all add: set_fail_times_def)
    then show ?thesis by (simp add: chain_hop um_at_def um_find_def)
  qed
  have "onFail list_http 0 ?m5 = Inl NullDeref"
    by (rule lost_route_crashes [OF list_http_laws _ _ rt, of "''C''"])
      (use k in \<open>auto simp: hop chain_master_sel(2) split: if_splits\<close>)
  then have "for_each (\<lambda>_. onFail list_http 0) (replicate 5 () @ [()]) chain_master = Inl NullDeref"
    unfolding for_each_append by (simp add: and_then_def e)
  then show ?thesis by (simp add: numeral_eq_Suc)
qed

end
