(* ===== verification/Controllers.thy ===== *)
theory Controllers
  imports IfaceSend
begin

text \<open>
  The request handlers: \<open>src/Master/src/interface/controller/\<close> for the requests of other hosts behind
  \<open>InterfaceRouter\<close>, and \<open>src/Master/src/shm/controller/\<close> for those of the local nodes behind
  \<open>UdsRouter\<close>; then the messages that a publishing node announces through its eventfd.
\<close>

subsection \<open>Routers\<close>

type_synonym 'h router = "(string, (verb, 'h) umap) umap"

definition registerController :: "string \<Rightarrow> verb \<Rightarrow> 'h \<Rightarrow> 'h router \<Rightarrow> 'h router" where
  "registerController p verb func table =
     (let (inner, table) = um_index [] p table in um_put p (um_put verb func inner) table)"

definition find_controller :: "'h router \<Rightarrow> string \<Rightarrow> verb \<Rightarrow> 'h option" where
  "find_controller table target method =
     (case um_find table target of None \<Rightarrow> None | Some inner \<Rightarrow> um_find inner method)"

lemma find_registered [simp]:
  "find_controller (registerController p v f t) target method =
     (if target = p \<and> method = v then Some f else find_controller t target method)"
  by (auto simp: find_controller_def registerController_def case_prod_beta um_index_value um_find_index
      split: option.splits)

lemma find_in_empty [simp]: "find_controller [] target method = None"
  by (simp add: find_controller_def)

datatype iface_handler =
  New_Post | New_Put | Node_Post | Node_Delete | NodePub_Post | NodeSub_Post | Publish_Post | Weight_Post

definition iface_table :: "iface_handler router" where
  "iface_table =
     registerController ''/new'' v_put New_Put (registerController ''/new'' v_post New_Post
    (registerController ''/node'' v_delete Node_Delete (registerController ''/node'' v_post Node_Post
    (registerController ''/node/pub'' v_post NodePub_Post
    (registerController ''/node/sub'' v_post NodeSub_Post
    (registerController ''/publish'' v_post Publish_Post
    (registerController ''/weight'' v_post Weight_Post [])))))))"

datatype uds_handler =
  UdsNode_Post | UdsNode_Get | UdsNode_Delete | UdsNodePub_Post | UdsNodeSub_Post | UdsTopic_Get | UdsTopicInfo_Get

definition uds_table :: "uds_handler router" where
  "uds_table =
     registerController ''/node'' v_delete UdsNode_Delete (registerController ''/node'' v_get UdsNode_Get
    (registerController ''/node'' v_post UdsNode_Post
    (registerController ''/node/pub'' v_post UdsNodePub_Post
    (registerController ''/node/sub'' v_post UdsNodeSub_Post
    (registerController ''/topic'' v_get UdsTopic_Get
    (registerController ''/topic/info'' v_get UdsTopicInfo_Get []))))))"

subsection \<open>Requests of other hosts\<close>

text \<open>\<open>hostlist[host]\<close> of an unknown host is null, and every use of it here dereferences it.\<close>

definition on_host :: "string \<Rightarrow> (host_info \<Rightarrow> host_info) \<Rightarrow> 'r mop" where
  "on_host host f ms =
     (case um_find (hostlist ms) host of None \<Rightarrow> Inl NullDeref
      | Some h \<Rightarrow> Inr (ms\<lparr>hostlist := um_put host (f h) (hostlist ms)\<rparr>, []))"

definition t2h_insert :: "string \<Rightarrow> string \<Rightarrow> 'r mop" where
  "t2h_insert topic host ms =
     (let (s, t) = um_index [] topic (topic2host ms)
      in Inr (ms\<lparr>topic2host := um_put topic (us_insert host s) t\<rparr>, []))"

definition t2h_erase :: "string \<Rightarrow> string \<Rightarrow> 'r mop" where
  "t2h_erase topic host ms =
     (let (s, t) = um_index [] topic (topic2host ms)
      in Inr (ms\<lparr>topic2host := um_put topic (us_erase host s) t\<rparr>, []))"

text \<open>The loop over \<open>topic2host\<close> that both handlers of \<open>/new\<close> start with.\<close>

definition t2h_forget :: "string \<Rightarrow> 'r mop" where
  "t2h_forget host ms = Inr (ms\<lparr>topic2host := map (\<lambda>(topic, s). (topic, us_erase host s)) (topic2host ms)\<rparr>, [])"

definition learn_sub :: "string \<Rightarrow> string \<Rightarrow> string \<times> string \<Rightarrow> 'r mop" where
  "learn_sub host node sub =
     and_then (on_host host (host_addSub node (fst sub) (snd sub))) (t2h_insert (fst sub) host)"

definition learn_pub :: "string \<Rightarrow> string \<Rightarrow> string \<times> string \<Rightarrow> 'r mop" where
  "learn_pub host node pub = on_host host (host_addPub node (fst pub) (snd pub))"

definition learn_node :: "string \<Rightarrow> node_info \<Rightarrow> 'r mop" where
  "learn_node host n =
     and_then (on_host host (host_addNode (ni_name n)))
       (and_then (for_each (learn_sub host (ni_name n)) (ni_subtopics n))
         (for_each (learn_pub host (ni_name n)) (ni_pubtopics n)))"

definition learn_host :: "json_api \<Rightarrow> string \<Rightarrow> string \<Rightarrow> 'r mop" where
  "learn_host J host body =
     and_then (t2h_forget host) (and_then (on_host host host_clear) (for_each (learn_node host) (j_parse J body)))"

definition new_handlePost :: "'r http_api \<Rightarrow> json_api \<Rightarrow> 'r \<Rightarrow> 'r mop" where
  "new_handlePost A J req =
     (let host = h_get A req ''src'' in
      and_then (learn_host J host (h_body A req))
        (\<lambda>ms. case getAllNodeInfo J (m_mw ms) of Inl e \<Rightarrow> Inl e
         | Inr info \<Rightarrow>
             (let re = h_set A ''dest'' host (h_set A ''src'' (m_hostName ms) (h_set_body A info (h_make A v_put ''/new'')))
              in with_request re (transfer A host) ms)))"

definition new_handlePut :: "'r http_api \<Rightarrow> json_api \<Rightarrow> 'r \<Rightarrow> 'r mop" where
  "new_handlePut A J req = learn_host J (h_get A req ''src'') (h_body A req)"

definition node_handlePost :: "'r http_api \<Rightarrow> 'r \<Rightarrow> 'r mop" where
  "node_handlePost A req = on_host (h_get A req ''src'') (host_addNode (h_get A req ''node''))"

definition node_handleDelete :: "'r http_api \<Rightarrow> 'r \<Rightarrow> 'r mop" where
  "node_handleDelete A req ms =
     (let node = h_get A req ''node''; host = h_get A req ''src'' in
      case um_find (hostlist ms) host of None \<Rightarrow> Inl NullDeref
      | Some h \<Rightarrow>
          (let (h, removeTopics) = host_deleteNode node h
           in for_each (\<lambda>t. t2h_erase t host) removeTopics (ms\<lparr>hostlist := um_put host h (hostlist ms)\<rparr>)))"

definition nodePub_handlePost :: "'r http_api \<Rightarrow> 'r \<Rightarrow> 'r mop" where
  "nodePub_handlePost A req =
     on_host (h_get A req ''src'') (host_addPub (h_get A req ''node'') (h_get A req ''pub'') (h_get A req ''type''))"

definition nodeSub_handlePost :: "'r http_api \<Rightarrow> 'r \<Rightarrow> 'r mop" where
  "nodeSub_handlePost A req =
     (let host = h_get A req ''src''; sub = h_get A req ''sub'' in
      and_then (on_host host (host_addSub (h_get A req ''node'') sub (h_get A req ''type''))) (t2h_insert sub host))"

text \<open>The registry as a part of the master's state.\<close>

definition with_mw :: "(mw \<Rightarrow> mw \<times> mw_out list) \<Rightarrow> 'r mop" where
  "with_mw f ms = (let (m, out) = f (m_mw ms) in Inr (ms\<lparr>m_mw := m\<rparr>, map ShmOut out))"

definition publish_handlePost :: "'r http_api \<Rightarrow> 'r \<Rightarrow> 'r mop" where
  "publish_handlePost A req = with_mw (transferInnerMessage (h_get A req ''topic'') (h_body A req))"

definition weight_handlePost :: "'r http_api \<Rightarrow> 'r \<Rightarrow> 'r mop" where
  "weight_handlePost A req =
     (let host1 = h_get A req ''host1''; host2 = h_get A req ''host2''; type = h_get A req ''type'' in
      if type = ''max'' then setMaxWeight2 host1 host2
      else if type = ''init'' then setInitWeight2 host1 host2 else skip)"

fun iface_handle :: "'r http_api \<Rightarrow> json_api \<Rightarrow> iface_handler \<Rightarrow> 'r \<Rightarrow> 'r mop" where
  "iface_handle A J New_Post = new_handlePost A J"
| "iface_handle A J New_Put = new_handlePut A J"
| "iface_handle A J Node_Post = node_handlePost A"
| "iface_handle A J Node_Delete = node_handleDelete A"
| "iface_handle A J NodePub_Post = nodePub_handlePost A"
| "iface_handle A J NodeSub_Post = nodeSub_handlePost A"
| "iface_handle A J Publish_Post = publish_handlePost A"
| "iface_handle A J Weight_Post = weight_handlePost A"

definition router_handle :: "'r http_api \<Rightarrow> json_api \<Rightarrow> 'r \<Rightarrow> 'r mop" where
  "router_handle A J req ms =
     (let dest = h_get A req ''dest'' in
      if dest \<noteq> m_hostName ms then with_request req (transfer A dest) ms
      else
        (case find_controller iface_table (h_target A req) (h_method A req) of
           None \<Rightarrow> Inr (ms, [])
         | Some c \<Rightarrow> iface_handle A J c req ms))"

subsection \<open>Requests of local nodes\<close>

datatype status = status_ok | bad_request | not_found

text \<open>A JSON body as the document before \<open>writeString\<close>; the object of a host list is a map.\<close>

record topic_info =
  ti_topic :: string
  ti_type :: string
  ti_pubcount :: int
  ti_subcount :: int
  ti_pubnodes :: "string list"
  ti_subnodes :: "string list"

datatype body = NoBody | ByHost "(string, string list) umap" | TopicInfo topic_info

type_synonym 'r uds_result = "error + (status \<times> body) \<times> 'r master \<times> 'r mout list"

definition answer :: "status \<Rightarrow> 'r mop \<Rightarrow> 'r master \<Rightarrow> 'r uds_result" where
  "answer st f ms = (case f ms of Inl e \<Rightarrow> Inl e | Inr (ms, out) \<Rightarrow> Inr ((st, NoBody), ms, out))"

definition uds_node_handlePost :: "'r http_api \<Rightarrow> 'r \<Rightarrow> 'r master \<Rightarrow> 'r uds_result" where
  "uds_node_handlePost A req ms =
     (case stoi (h_get A req ''pid'') of None \<Rightarrow> Inl InvalidArg
      | Some pid \<Rightarrow>
          (case reg_addNode (h_get A req ''node'') pid (m_mw ms) of
             None \<Rightarrow> answer bad_request skip ms
           | Some m \<Rightarrow> answer status_ok (im_addNode A (h_get A req ''node'')) (ms\<lparr>m_mw := m\<rparr>)))"

definition uds_node_handleGet :: "'r master \<Rightarrow> 'r uds_result" where
  "uds_node_handleGet ms =
     (let root = um_put (m_hostName ms) (map fst (m_nodes (m_mw ms))) [];
          root = fold (\<lambda>(hostName, h). um_put hostName (nodelist h)) (hostlist ms) root
      in Inr ((status_ok, ByHost root), ms, []))"

definition uds_node_handleDelete :: "'r http_api \<Rightarrow> 'r \<Rightarrow> 'r master \<Rightarrow> 'r uds_result" where
  "uds_node_handleDelete A req ms =
     (let (found, m, out) = reg_deleteNode (h_get A req ''node'') (m_mw ms); ms = ms\<lparr>m_mw := m\<rparr> in
      if found then
        answer status_ok (and_then (\<lambda>ms. Inr (ms, map ShmOut out)) (im_deleteNode A (h_get A req ''node''))) ms
      else answer bad_request skip ms)"

definition uds_nodePub_handlePost :: "'r http_api \<Rightarrow> os_result \<Rightarrow> 'r \<Rightarrow> 'r master \<Rightarrow> 'r uds_result" where
  "uds_nodePub_handlePost A os req ms =
     (case stoi (h_get A req ''eventfd'') of None \<Rightarrow> Inl InvalidArg
      | Some fd \<Rightarrow>
          (let topic = h_get A req ''pub''; node = h_get A req ''node''; type = h_get A req ''type'' in
           case reg_addPublish os node topic type (m_mw ms) of Inl e \<Rightarrow> Inl e
           | Inr (added, m, out) \<Rightarrow>
               if added then
                 answer status_ok (and_then (\<lambda>ms. Inr (ms, map ShmOut out)) (im_addPub A node topic type)) (ms\<lparr>m_mw := m\<rparr>)
               else answer bad_request skip (ms\<lparr>m_mw := m\<rparr>)))"

definition uds_nodeSub_handlePost :: "'r http_api \<Rightarrow> os_result \<Rightarrow> 'r \<Rightarrow> 'r master \<Rightarrow> 'r uds_result" where
  "uds_nodeSub_handlePost A os req ms =
     (case stoi (h_get A req ''eventfd'') of None \<Rightarrow> Inl InvalidArg
      | Some fd \<Rightarrow>
          (let topic = h_get A req ''sub''; node = h_get A req ''node''; type = h_get A req ''type'' in
           case reg_addSubscribe os node topic type (m_mw ms) of Inl e \<Rightarrow> Inl e
           | Inr (added, m) \<Rightarrow>
               if added then answer status_ok (im_addSub A node topic type) (ms\<lparr>m_mw := m\<rparr>)
               else answer bad_request skip (ms\<lparr>m_mw := m\<rparr>)))"

definition topics_of :: "(string, topics) umap \<Rightarrow> string list" where
  "topics_of m = concat (map (\<lambda>(nodeName, topic2type). map fst topic2type) m)"

text \<open>\<open>topics\<close> is an \<open>unordered_set\<close>, filled by insertion.\<close>

definition as_set :: "'a list \<Rightarrow> 'a list" where
  "as_set xs = fold us_insert xs []"

definition uds_topic_handleGet :: "'r master \<Rightarrow> 'r uds_result" where
  "uds_topic_handleGet ms =
     (let local = as_set (map fst (m_publishes (m_mw ms)) @ map fst (m_subscribes (m_mw ms)));
          root = um_put (m_hostName ms) local [];
          root = fold (\<lambda>(hostName, h). um_put hostName (as_set (topics_of (node2sub h) @ topics_of (node2pub h))))
                   (hostlist ms) root
      in Inr ((status_ok, ByHost root), ms, []))"

text \<open>The entries of one topic in a host's map, as pairs of the node and the type.\<close>

definition entries_of :: "string \<Rightarrow> (string, topics) umap \<Rightarrow> (string \<times> string) list" where
  "entries_of topic_name m =
     concat (map (\<lambda>(nodeName, topic2type).
       map (\<lambda>(topic, type). (nodeName, type)) (filter (\<lambda>(topic, type). topic = topic_name) topic2type)) m)"

definition first_type :: "string list \<Rightarrow> string" where
  "first_type types = (case filter (\<lambda>t. t \<noteq> []) types of [] \<Rightarrow> [] | t # _ \<Rightarrow> t)"

definition uds_topicInfo_handleGet :: "'r http_api \<Rightarrow> 'r \<Rightarrow> 'r master \<Rightarrow> 'r uds_result" where
  "uds_topicInfo_handleGet A req ms =
     (let topic_name = h_get A req ''topic'';
          pubs = um_at [] (m_publishes (m_mw ms)) topic_name;
          subs = um_at [] (m_subscribes (m_mw ms)) topic_name;
          hsubs = map (\<lambda>(_, h). entries_of topic_name (node2sub h)) (hostlist ms);
          hpubs = map (\<lambda>(_, h). entries_of topic_name (node2pub h)) (hostlist ms);
          types = map ep_type pubs @ map ep_type subs @ concat (map (\<lambda>(s, p). map snd (s @ p)) (zip hsubs hpubs));
          pubnodes = map ep_node pubs @ map fst (concat hpubs);
          subnodes = map ep_node subs @ map fst (concat hsubs)
      in if pubnodes = [] \<and> subnodes = [] then answer bad_request skip ms
         else Inr ((status_ok, TopicInfo \<lparr>ti_topic = topic_name, ti_type = first_type types,
                ti_pubcount = int (length pubnodes), ti_subcount = int (length subnodes),
                ti_pubnodes = pubnodes, ti_subnodes = subnodes\<rparr>), ms, []))"

fun uds_dispatch :: "'r http_api \<Rightarrow> os_result \<Rightarrow> uds_handler \<Rightarrow> 'r \<Rightarrow> 'r master \<Rightarrow> 'r uds_result" where
  "uds_dispatch A os UdsNode_Post req = uds_node_handlePost A req"
| "uds_dispatch A os UdsNode_Get req = uds_node_handleGet"
| "uds_dispatch A os UdsNode_Delete req = uds_node_handleDelete A req"
| "uds_dispatch A os UdsNodePub_Post req = uds_nodePub_handlePost A os req"
| "uds_dispatch A os UdsNodeSub_Post req = uds_nodeSub_handlePost A os req"
| "uds_dispatch A os UdsTopic_Get req = uds_topic_handleGet"
| "uds_dispatch A os UdsTopicInfo_Get req = uds_topicInfo_handleGet A req"

definition uds_handle :: "'r http_api \<Rightarrow> os_result \<Rightarrow> 'r \<Rightarrow> 'r master \<Rightarrow> 'r uds_result" where
  "uds_handle A os req ms =
     (case find_controller uds_table (h_target A req) (h_method A req) of
        None \<Rightarrow> Inr ((not_found, NoBody), ms, [])
      | Some c \<Rightarrow> uds_dispatch A os c req ms)"

subsection \<open>Messages of local publishers\<close>

definition transferMessage :: "'r http_api \<Rightarrow> string \<Rightarrow> string \<Rightarrow> 'r mop" where
  "transferMessage A topic message =
     and_then (im_publish A topic message) (with_mw (transferInnerMessage topic message))"

text \<open>
  \<open>Publish::onEventfdRead\<close> of the publisher with identity \<open>i\<close>: \<open>value\<close> is what the eventfd counted, and
  \<open>ec\<close> tells that the read failed or was cancelled.
\<close>

definition pop_and_transfer :: "'r http_api \<Rightarrow> string \<Rightarrow> nat \<Rightarrow> 'r mop" where
  "pop_and_transfer A topic i ms =
     (let (message, m) = queue_pop i (m_mw ms) in transferMessage A topic message (ms\<lparr>m_mw := m\<rparr>))"

definition onEventfdRead :: "'r http_api \<Rightarrow> endpoint \<Rightarrow> bool \<Rightarrow> nat \<Rightarrow> 'r mop" where
  "onEventfdRead A e ec value =
     (if ec then skip
      else and_then (for_each (\<lambda>_. pop_and_transfer A (ep_topic e) (ep_id e)) (replicate value ()))
             (\<lambda>ms. Inr (ms, [ShmOut (EventfdRead (ep_id e))])))"

end
