(* ===== verification/MasterRun.thy ===== *)
theory MasterRun
  imports Controllers
begin

text \<open>
  Runs of a whole master: every request, callback and message changes the state by one of the
  handlers. The invariant says which hosts a publication can go to; the properties follow a
  subscription and a publication from one master to another.
\<close>

subsection \<open>What sending leaves alone\<close>

definition frame :: "'r master \<Rightarrow> 'r master \<Rightarrow> bool" where
  "frame ms ms' \<longleftrightarrow> um_at [] (topic2host ms') = um_at [] (topic2host ms) \<and> hostlist ms' = hostlist ms \<and>
     m_mw ms' = m_mw ms \<and> m_hostName ms' = m_hostName ms"

definition framed :: "'r mop \<Rightarrow> bool" where
  "framed f \<longleftrightarrow> (\<forall>ms0. preserves (frame ms0) f)"

definition framed_send :: "('r \<times> 'r master, 'r mout) op \<Rightarrow> bool" where
  "framed_send f \<longleftrightarrow> (\<forall>ms0. preserves (\<lambda>s. frame ms0 (snd s)) f)"

named_theorems frame_intros "operations that only send"

lemma frame_refl [simp]: "frame ms ms"
  by (simp add: frame_def)

lemma frame_trans: "frame a b \<Longrightarrow> frame b c \<Longrightarrow> frame a c"
  by (simp add: frame_def)

lemma framedD: "framed f \<Longrightarrow> f ms = Inr (ms', out) \<Longrightarrow> frame ms ms'"
  unfolding framed_def by (blast intro: frame_refl dest: preservesD)

lemma framed_sendD: "framed_send f \<Longrightarrow> f s = Inr (s', out) \<Longrightarrow> frame (snd s) (snd s')"
  unfolding framed_send_def using preservesD [of "\<lambda>s'. frame (snd s) (snd s')" f s] by fastforce

lemma framedI: "(\<And>ms ms' out. f ms = Inr (ms', out) \<Longrightarrow> frame ms ms') \<Longrightarrow> framed f"
  unfolding framed_def preserves_def by (blast intro: frame_trans)

lemma framed_sendI: "(\<And>r ms r' ms' out. f (r, ms) = Inr ((r', ms'), out) \<Longrightarrow> frame ms ms') \<Longrightarrow> framed_send f"
  unfolding framed_send_def preserves_def by (fastforce intro: frame_trans)

lemma framed_and_then [frame_intros]: "framed f \<Longrightarrow> framed g \<Longrightarrow> framed (and_then f g)"
  unfolding framed_def by (blast intro: preserves_and_then)

lemma framed_for_each [frame_intros]: "(\<And>x. x \<in> set xs \<Longrightarrow> framed (f x)) \<Longrightarrow> framed (for_each f xs)"
  unfolding framed_def by (blast intro: preserves_for_each)

lemma framed_send_for_each [frame_intros]:
  "(\<And>x. x \<in> set xs \<Longrightarrow> framed_send (f x)) \<Longrightarrow> framed_send (for_each f xs)"
  unfolding framed_send_def by (blast intro: preserves_for_each)

lemma framed_with_request [frame_intros]: "framed_send f \<Longrightarrow> framed (with_request r f)"
  by (rule framedI) (auto simp: with_request_def dest: framed_sendD split: sum.splits)

lemma framed_hif_send [frame_intros]: "framed_send (hif_send A k)"
  by (rule framed_sendI)
    (auto simp: hif_send_def frame_def Let_def split: host_link.splits option.splits prod.splits)

lemma framed_transfer [frame_intros]: "framed_send (transfer A dest)"
proof (rule framed_sendI)
  fix r r' :: 'a and ms ms' out
  assume t: "transfer A dest (r, ms) = Inr ((r', ms'), out)"
  show "frame ms ms'"
  proof (cases "hop_of ms dest")
    case None
    then show ?thesis using t by (simp add: transfer_no_hop)
  next
    case (Some k)
    then show ?thesis
      using framed_sendD [OF framed_hif_send t [unfolded transfer_hop [OF Some]]] by (simp add: frame_def)
  qed
qed

lemma framed_send_to [frame_intros]: "framed_send (send_to A host)"
  by (rule framed_sendI) (auto simp: send_to_def dest: framed_sendD [OF framed_transfer])

lemma framed_broadcast [frame_intros]: "framed_send (broadcast A)"
proof (rule framed_sendI)
  fix r r' :: 'a and ms ms' out
  assume "broadcast A (r, ms) = Inr ((r', ms'), out)"
  moreover have "framed_send (for_each (send_to A) (map fst (hostlist ms)))"
    by (intro framed_send_for_each framed_send_to)
  ultimately show "frame ms ms'"
    by (auto simp: broadcast_def dest: framed_sendD)
qed

lemma framed_notifications [frame_intros]:
  "framed (im_addNode A n)" "framed (im_deleteNode A n)" "framed (im_addSub A n t ty)" "framed (im_deleteSub A n t)"
  "framed (im_addPub A n t ty)" "framed (im_deletePub A n t)"
  unfolding im_addNode_def im_deleteNode_def im_addSub_def im_deleteSub_def im_addPub_def im_deletePub_def
  by (intro framed_with_request framed_broadcast)+

lemma framed_set_weight [frame_intros]: "framed (set_weight f)"
  by (rule framedI) (auto simp: set_weight_def frame_def split: sum.splits)

lemma framed_weights [frame_intros]:
  "framed (setMaxWeight A h)" "framed (setInitWeight A h)" "framed (setMaxWeight2 h1 h2)" "framed (setInitWeight2 h1 h2)"
proof -
  have b: "framed (and_then (set_weight f) (with_request r (broadcast A)))" for f and r :: 'a
    by (intro frame_intros)
  show "framed (setMaxWeight A h)" "framed (setInitWeight A h)"
    using framedD [OF b] by (auto intro!: framedI simp: setMaxWeight_def setInitWeight_def)
  show "framed (setMaxWeight2 h1 h2)" "framed (setInitWeight2 h1 h2)"
    unfolding setMaxWeight2_def setInitWeight2_def by (rule framed_set_weight)+
qed

lemma framed_fail_times [frame_intros]: "framed (\<lambda>ms. Inr (set_fail_times k n ms, []))"
  by (rule framedI) (auto simp: set_fail_times_def frame_def)

lemma framed_onNew [frame_intros]: "framed (onNew A J k)"
proof (rule framedI)
  fix ms ms' out
  assume n: "onNew A J k ms = Inr (ms', out)"
  then obtain info where i: "getAllNodeInfo J (m_mw ms) = Inr info" by (auto simp: onNew_def split: sum.splits)
  have "framed (and_then (with_request (h_set_body A info (h_make A v_post ''/new'')) (broadcast A))
      (and_then (setInitWeight A (hf_host (m_hifs ms ! k))) (\<lambda>ms. Inr (set_fail_times k 0 ms, []))))"
    by (intro frame_intros)
  from framedD [OF this] n i show "frame ms ms'" by (simp add: onNew_def)
qed

lemma framed_onFail [frame_intros]: "framed (onFail A k)"
proof (rule framedI)
  fix ms ms' out
  assume n: "onFail A k ms = Inr (ms', out)"
  let ?ms = "set_fail_times k (fail_times (m_hifs ms ! k) + 1) ms"
  have f: "frame ms ?ms" by (simp add: set_fail_times_def frame_def)
  consider "ms' = ms" | "ms' = ?ms" | "setMaxWeight A (hf_host (m_hifs ?ms ! k)) ?ms = Inr (ms', out)"
    using n by (auto simp: onFail_def Let_def split: if_splits)
  then show "frame ms ms'"
    using f frame_trans [OF f framedD [OF framed_weights(1)]] by cases auto
qed

lemma framed_on_link [frame_intros]: "framed (on_link k f)"
  by (rule framedI) (auto simp: on_link_def frame_def split: host_link.splits prod.splits)

lemma framed_link [frame_intros]: "framed (link_connected A J k ec)" "framed (link_written A k ec)"
  unfolding link_connected_def link_written_def onConnect_def onWrite_def
  by (cases ec; simp; intro frame_intros)+

lemma framed_publish [frame_intros]: "framed (im_publish A topic data)"
proof (rule framedI)
  fix ms ms' out
  assume "im_publish A topic data ms = Inr (ms', out)"
  moreover have "framed (with_request r (for_each (send_to A) hs))" for r :: 'a and hs
    by (intro frame_intros)
  ultimately have "frame (ms\<lparr>topic2host := snd (um_index [] topic (topic2host ms))\<rparr>) ms'"
    by (auto simp: im_publish_def case_prod_beta Let_def dest: framedD)
  then show "frame ms ms'" by (simp add: frame_def fun_eq_iff)
qed

subsection \<open>The invariant\<close>

definition listed :: "'r master \<Rightarrow> string \<Rightarrow> string set" where
  "listed ms topic = set (um_at [] (topic2host ms) topic)"

definition hosts_ok :: "'r master \<Rightarrow> bool" where
  "hosts_ok ms \<longleftrightarrow>
     (\<forall>topic h. h \<in> listed ms topic \<longrightarrow> (\<exists>info. um_find (hostlist ms) h = Some info \<and> topic \<in> sub_topics info)) \<and>
     (\<forall>h info. um_find (hostlist ms) h = Some info \<longrightarrow> subs_wf info)"

definition master_inv :: "'r master \<Rightarrow> bool" where
  "master_inv ms \<longleftrightarrow> hosts_ok ms \<and> mw_inv (m_mw ms)"

lemma frame_inv: "frame ms ms' \<Longrightarrow> master_inv ms \<Longrightarrow> master_inv ms'"
  by (simp add: master_inv_def hosts_ok_def listed_def frame_def)

lemma framed_inv: "framed f \<Longrightarrow> preserves master_inv f"
  unfolding preserves_def by (blast dest: framedD frame_inv)

lemma subs_wf_new [simp]: "subs_wf (new_host name)"
  by (simp add: subs_wf_def new_host_def)

lemma subs_wf_ops [simp]:
  "subs_wf h \<Longrightarrow> subs_wf (host_addNode n h)" "subs_wf h \<Longrightarrow> subs_wf (host_addPub n t ty h)"
  "subs_wf (host_clear h)" "subs_wf (host_setHostInterface i p h) = subs_wf h"
  by (simp_all add: subs_wf_def host_addNode_def host_addPub_def host_clear_def host_setHostInterface_def)

lemma subs_wf_addSub [simp]: "subs_wf h \<Longrightarrow> subs_wf (host_addSub n t ty h)"
  by (auto simp: subs_wf_def host_addSub_def put_topic_def case_prod_beta um_index_value um_find_index
      split: option.splits if_splits)

lemma subs_wf_deleteNode [simp]: "subs_wf h \<Longrightarrow> subs_wf (fst (host_deleteNode n h))"
  by (auto simp: subs_wf_def host_deleteNode_def Let_def split: if_splits)

lemma sub_topics_ops [simp]:
  "sub_topics (host_addNode n h) = sub_topics h" "sub_topics (host_addPub n t ty h) = sub_topics h"
  "sub_topics (host_addSub n t ty h) = insert t (sub_topics h)" "sub_topics (host_clear h) = {}"
  by (auto simp: sub_topics_def)

lemma on_host_Inr: "on_host host f ms = Inr (ms', out) \<longleftrightarrow>
    (\<exists>h. um_find (hostlist ms) host = Some h \<and> ms' = ms\<lparr>hostlist := um_put host (f h) (hostlist ms)\<rparr> \<and> out = [])"
  by (auto simp: on_host_def split: option.splits)

lemma listed_update [simp]: "listed (ms\<lparr>hostlist := h\<rparr>) = listed ms" "listed (ms\<lparr>m_mw := w\<rparr>) = listed ms"
  by (simp_all add: listed_def fun_eq_iff)

lemma on_host_inv:
  assumes "\<And>h. subs_wf h \<Longrightarrow> subs_wf (f h)" and "\<And>h. sub_topics h \<subseteq> sub_topics (f h)"
  shows "preserves master_inv (on_host host f)"
  unfolding preserves_def on_host_Inr
proof (intro allI impI, elim exE conjE)
  fix ms ms' h and out :: "'a mout list"
  assume m: "master_inv ms" "um_find (hostlist ms) host = Some h"
    "ms' = ms\<lparr>hostlist := um_put host (f h) (hostlist ms)\<rparr>"
  have "\<exists>info. um_find (hostlist ms') x = Some info \<and> t \<in> sub_topics info" if "x \<in> listed ms t" for t x
    using that m assms(2) by (force simp: master_inv_def hosts_ok_def)
  moreover have "um_find (hostlist ms') x = Some info \<Longrightarrow> subs_wf info" for x info
    using m assms(1) by (auto simp: master_inv_def hosts_ok_def split: if_splits)
  ultimately show "master_inv ms'" using m by (simp add: master_inv_def hosts_ok_def)
qed

lemma t2h_insert_spec: "t2h_insert topic host ms = Inr (ms\<lparr>topic2host := um_put topic (us_insert host (um_at [] (topic2host ms) topic))
    (snd (um_index [] topic (topic2host ms)))\<rparr>, [])"
  by (simp add: t2h_insert_def case_prod_beta um_index_at)

lemma t2h_erase_spec: "t2h_erase topic host ms = Inr (ms\<lparr>topic2host := um_put topic (us_erase host (um_at [] (topic2host ms) topic))
    (snd (um_index [] topic (topic2host ms)))\<rparr>, [])"
  by (simp add: t2h_erase_def case_prod_beta um_index_at)

lemma listed_insert [simp]:
  "listed (ms\<lparr>topic2host := um_put topic (us_insert host (um_at [] (topic2host ms) topic)) (snd (um_index [] topic (topic2host ms)))\<rparr>) t
     = (if t = topic then insert host (listed ms t) else listed ms t)"
  by (simp add: listed_def)

lemma listed_erase [simp]:
  "listed (ms\<lparr>topic2host := um_put topic (us_erase host (um_at [] (topic2host ms) topic)) (snd (um_index [] topic (topic2host ms)))\<rparr>) t
     = (if t = topic then listed ms t - {host} else listed ms t)"
  by (simp add: listed_def)

lemma add_sub_inv:
  "preserves master_inv (and_then (on_host host (host_addSub n t ty)) (t2h_insert t host))"
  unfolding preserves_def and_then_Inr on_host_Inr t2h_insert_spec
proof (intro allI impI, elim exE conjE)
  fix ms ms' ms1 out o1 o2 h
  assume m: "master_inv ms" and h: "um_find (hostlist ms) host = Some h"
    and 1: "ms1 = ms\<lparr>hostlist := um_put host (host_addSub n t ty h) (hostlist ms)\<rparr>"
    and 2: "Inr (ms1\<lparr>topic2host := um_put t (us_insert host (um_at [] (topic2host ms1) t)) (snd (um_index [] t (topic2host ms1)))\<rparr>, [])
      = (Inr (ms', o2) :: error + 'a master \<times> 'a mout list)"
  have i1: "master_inv ms1"
    using preservesD [OF on_host_inv m, of "host_addSub n t ty" host] h by (auto simp: on_host_Inr 1)
  have ms': "ms' = ms1\<lparr>topic2host := um_put t (us_insert host (um_at [] (topic2host ms1) t)) (snd (um_index [] t (topic2host ms1)))\<rparr>"
    using 2 by simp
  have l: "listed ms' x = (if x = t then insert host (listed ms1 x) else listed ms1 x)" for x
    unfolding ms' listed_insert ..
  have "um_find (hostlist ms') host = Some (host_addSub n t ty h)" by (simp add: ms' 1)
  then have "\<exists>info. um_find (hostlist ms') x = Some info \<and> u \<in> sub_topics info" if "x \<in> listed ms' u" for u x
    using that i1 unfolding l by (auto simp: master_inv_def hosts_ok_def ms' split: if_splits)
  then show "master_inv ms'" using i1 by (simp add: master_inv_def hosts_ok_def ms')
qed

lemma learn_node_inv: "preserves master_inv (learn_node host n)"
  unfolding learn_node_def learn_sub_def learn_pub_def
  by (intro preserves_and_then preserves_for_each add_sub_inv on_host_inv) simp_all

lemma forget_at: "um_at [] (map (\<lambda>(topic, s). (topic, us_erase host s)) t2h) t = us_erase host (um_at [] t2h t)"
  by (induction t2h) (auto simp: um_at_def um_find_def us_erase_def split: option.split)

lemma learn_host_start:
  assumes "master_inv ms" and "and_then (t2h_forget host) (on_host host host_clear) ms = Inr (ms', out)"
  shows "master_inv ms'" and "host \<notin> listed ms' t"
    and "\<exists>h. um_find (hostlist ms) host = Some h \<and> hostlist ms' = um_put host (host_clear h) (hostlist ms)"
    and "m_mw ms' = m_mw ms" and "m_hostName ms' = m_hostName ms" and "x \<noteq> host \<Longrightarrow> x \<in> listed ms' t \<longleftrightarrow> x \<in> listed ms t"
proof -
  let ?t = "map (\<lambda>(topic, s). (topic, us_erase host s)) (topic2host ms)"
  obtain h where h: "um_find (hostlist ms) host = Some h"
    and ms': "ms' = ms\<lparr>topic2host := ?t, hostlist := um_put host (host_clear h) (hostlist ms)\<rparr>"
    using assms(2) by (auto simp: and_then_Inr t2h_forget_def on_host_Inr)
  have l: "listed ms' t = listed ms t - {host}" for t by (simp add: listed_def ms' forget_at)
  show "host \<notin> listed ms' t" "x \<noteq> host \<Longrightarrow> x \<in> listed ms' t \<longleftrightarrow> x \<in> listed ms t" by (simp_all add: l)
  show "\<exists>h. um_find (hostlist ms) host = Some h \<and> hostlist ms' = um_put host (host_clear h) (hostlist ms)"
    "m_mw ms' = m_mw ms" "m_hostName ms' = m_hostName ms"
    using h by (simp_all add: ms')
  show "master_inv ms'"
    using assms(1) unfolding master_inv_def hosts_ok_def l by (auto simp: ms')
qed

lemma and_then_assoc: "and_then f (and_then g h) = and_then (and_then f g) h"
  by (rule ext) (auto simp: and_then_def split: sum.split)

lemma learn_host_inv: "preserves master_inv (learn_host J host body)"
proof -
  have "preserves master_inv (and_then (t2h_forget host) (on_host host host_clear))"
    using learn_host_start(1) unfolding preserves_def by blast
  from preserves_and_then [OF this preserves_for_each [OF learn_node_inv]] show ?thesis
    unfolding learn_host_def and_then_assoc .
qed

lemma new_handlePost_inv: "preserves master_inv (new_handlePost A J req)"
proof -
  have "preserves master_inv (\<lambda>ms. case getAllNodeInfo J (m_mw ms) of Inl e \<Rightarrow> Inl e
      | Inr info \<Rightarrow>
          (let re = h_set A ''dest'' host (h_set A ''src'' (m_hostName ms) (h_set_body A info (h_make A v_put ''/new'')))
           in with_request re (transfer A host) ms))" for host
    unfolding preserves_def Let_def
    by (auto split: sum.splits intro: frame_inv [OF framedD [OF framed_with_request [OF framed_transfer]]])
  then show ?thesis
    unfolding new_handlePost_def Let_def by (intro preserves_and_then learn_host_inv)
qed

lemma erase_all:
  assumes "for_each (\<lambda>t. t2h_erase t host) ts ms = Inr (ms', out)"
  shows "listed ms' t = (if t \<in> set ts then listed ms t - {host} else listed ms t)"
    and "hostlist ms' = hostlist ms" and "m_mw ms' = m_mw ms" and "m_hostName ms' = m_hostName ms"
    and "out = []" and "route ms' = route ms" and "interfaceList ms' = interfaceList ms"
proof -
  have "(\<forall>t. listed ms' t = (if t \<in> set ts then listed ms t - {host} else listed ms t)) \<and>
    hostlist ms' = hostlist ms \<and> m_mw ms' = m_mw ms \<and> m_hostName ms' = m_hostName ms \<and> out = [] \<and>
    route ms' = route ms \<and> interfaceList ms' = interfaceList ms"
    using assms
  proof (induction ts arbitrary: ms out)
    case (Cons x ts)
    let ?m = "ms\<lparr>topic2host := um_put x (us_erase host (um_at [] (topic2host ms) x)) (snd (um_index [] x (topic2host ms)))\<rparr>"
    obtain s1 o1 o2 where 1: "t2h_erase x host ms = Inr (s1, o1)"
      and 2: "for_each (\<lambda>t. t2h_erase t host) ts s1 = Inr (ms', o2)" "out = o1 @ o2"
      using Cons.prems unfolding for_each.simps and_then_Inr by blast
    have "s1 = ?m" "o1 = []" using 1 by (simp_all add: t2h_erase_spec)
    with 2 have "for_each (\<lambda>t. t2h_erase t host) ts ?m = Inr (ms', out)" by simp
    from Cons.IH [OF this] show ?case by (auto simp: listed_erase)
  qed auto
  then show "listed ms' t = (if t \<in> set ts then listed ms t - {host} else listed ms t)"
    "hostlist ms' = hostlist ms" "m_mw ms' = m_mw ms" "m_hostName ms' = m_hostName ms" "out = []"
    "route ms' = route ms" "interfaceList ms' = interfaceList ms" by blast+
qed

lemma erase_all_returns: "\<exists>ms'. for_each (\<lambda>t. t2h_erase t host) ts ms = Inr (ms', [])"
proof (induction ts arbitrary: ms)
  case (Cons x ts)
  obtain m where m: "t2h_erase x host ms = Inr (m, [])" by (simp add: t2h_erase_spec)
  obtain ms' where "for_each (\<lambda>t. t2h_erase t host) ts m = Inr (ms', [])" using Cons.IH by blast
  then have "for_each (\<lambda>t. t2h_erase t host) (x # ts) ms = Inr (ms', [])"
    unfolding for_each.simps and_then_Inr using m by blast
  then show ?case by blast
qed (simp add: skip_def)

text \<open>After \<open>DELETE /node\<close> no topic lists the host any more, whatever its other nodes subscribe to.\<close>

lemma delete_node_effect:
  assumes "master_inv ms" and "node_handleDelete A req ms = Inr (ms', out)"
  shows "h_get A req ''src'' \<notin> listed ms' t" and "master_inv ms'"
    and "x \<noteq> h_get A req ''src'' \<Longrightarrow> x \<in> listed ms' t \<longleftrightarrow> x \<in> listed ms t"
    and "\<exists>info info'. um_find (hostlist ms) (h_get A req ''src'') = Some info \<and>
      um_find (hostlist ms') (h_get A req ''src'') = Some info' \<and>
      (\<forall>n t. subscribes info' n t \<longleftrightarrow> n \<noteq> h_get A req ''node'' \<and> subscribes info n t)"
proof -
  let ?host = "h_get A req ''src''" and ?node = "h_get A req ''node''"
  obtain info where h: "um_find (hostlist ms) ?host = Some info"
    using assms(2) by (auto simp: node_handleDelete_def Let_def split: option.splits)
  let ?d = "host_deleteNode ?node info"
  let ?m = "ms\<lparr>hostlist := um_put ?host (fst ?d) (hostlist ms)\<rparr>"
  have e: "for_each (\<lambda>t. t2h_erase t ?host) (snd ?d) ?m = Inr (ms', out)"
    using assms(2) h by (simp add: node_handleDelete_def case_prod_beta Let_def)
  note E = erase_all [OF e]
  have w: "subs_wf info" and s: "\<And>x t. x \<in> listed ms t \<Longrightarrow> \<exists>i. um_find (hostlist ms) x = Some i \<and> t \<in> sub_topics i"
    using assms(1) h by (auto simp: master_inv_def hosts_ok_def)
  show gone: "?host \<notin> listed ms' t" for t
    using s [of ?host t] h unfolding E(1) deleteNode_topics [OF w] by auto
  show other: "x \<noteq> ?host \<Longrightarrow> x \<in> listed ms' t \<longleftrightarrow> x \<in> listed ms t" for x t
    unfolding E(1) by auto
  show "\<exists>info info'. um_find (hostlist ms) ?host = Some info \<and> um_find (hostlist ms') ?host = Some info' \<and>
      (\<forall>n t. subscribes info' n t \<longleftrightarrow> n \<noteq> ?node \<and> subscribes info n t)"
    using h by (auto simp: E(2))
  have "\<exists>i. um_find (hostlist ms') x = Some i \<and> t \<in> sub_topics i" if "x \<in> listed ms' t" for x t
  proof -
    have "x \<noteq> ?host" using that gone by blast
    then show ?thesis using s [of x t] that other by (auto simp: E(2))
  qed
  moreover have "um_find (hostlist ms') x = Some i \<Longrightarrow> subs_wf i" for x i
    using assms(1) w by (auto simp: E(2) master_inv_def hosts_ok_def split: if_splits)
  ultimately show "master_inv ms'"
    using assms(1) by (simp add: master_inv_def hosts_ok_def E(3))
qed

lemma mw_update_inv: "master_inv ms \<Longrightarrow> mw_inv w \<Longrightarrow> master_inv (ms\<lparr>m_mw := w\<rparr>)"
  by (simp add: master_inv_def hosts_ok_def)

lemma with_inner_inv: "preserves master_inv (with_mw (transferInnerMessage t message))"
  unfolding preserves_def
proof (intro allI impI)
  fix ms ms' out
  assume m: "master_inv ms" "with_mw (transferInnerMessage t message) ms = (Inr (ms', out) :: error + 'a master \<times> 'a mout list)"
  obtain q where q: "fst (transferInnerMessage t message (m_mw ms)) = (m_mw ms)\<lparr>mw_queues := q\<rparr>"
    using inner_queues by blast
  then have "ms' = ms\<lparr>m_mw := (m_mw ms)\<lparr>mw_queues := q\<rparr>\<rparr>"
    using m(2) by (simp add: with_mw_def case_prod_beta)
  then show "master_inv ms'" using m(1) by (simp add: mw_update_inv master_inv_def [of ms])
qed

lemma iface_handle_inv: "preserves master_inv (iface_handle A J c req)"
proof (cases c)
  case Node_Delete
  then show ?thesis using delete_node_effect(2) unfolding preserves_def by fastforce
next
  case Weight_Post
  then show ?thesis
    by (auto simp: weight_handlePost_def Let_def intro: framed_inv frame_intros)
qed (auto simp: new_handlePost_inv new_handlePut_def learn_host_inv node_handlePost_def nodePub_handlePost_def
    nodeSub_handlePost_def Let_def publish_handlePost_def with_inner_inv add_sub_inv intro: on_host_inv)

lemma router_inv: "preserves master_inv (router_handle A J req)"
  unfolding preserves_def router_handle_def Let_def
  by (auto split: if_splits option.splits intro: preservesD [OF iface_handle_inv]
      frame_inv [OF framedD [OF framed_with_request [OF framed_transfer]]])

lemma answer_Inr: "answer st f ms = Inr (r, ms', out) \<longleftrightarrow> r = (st, NoBody) \<and> f ms = Inr (ms', out)"
  by (auto simp: answer_def split: sum.splits)

lemma shm_out_framed [frame_intros]: "framed (\<lambda>ms. Inr (ms, map ShmOut out))"
  by (rule framedI) simp

lemma uds_inv:
  assumes "master_inv ms" and "uds_handle A os req ms = Inr (r, ms', out)"
  shows "master_inv ms'"
proof -
  have mw: "mw_inv (m_mw ms)" using assms(1) by (simp add: master_inv_def)
  have ans: "master_inv ms'" if "framed f" "mw_inv w" "answer st f (ms\<lparr>m_mw := w\<rparr>) = Inr (r, ms', out)" for st f w
    using frame_inv [OF framedD [OF that(1)] mw_update_inv [OF assms(1) that(2)]] that(3) by (simp add: answer_Inr)
  have skip: "master_inv ms'" if "mw_inv w" "answer st skip (ms\<lparr>m_mw := w\<rparr>) = Inr (r, ms', out)" for st w
    using that mw_update_inv [OF assms(1)] by (auto simp: answer_Inr)
  obtain c where c: "find_controller uds_table (h_target A req) (h_method A req) = None \<and> ms' = ms
      \<or> uds_dispatch A os c req ms = Inr (r, ms', out)"
    using assms(2) by (auto simp: uds_handle_def split: option.splits)
  show ?thesis
  proof (cases "ms' = ms")
    case False
    with c have d: "uds_dispatch A os c req ms = Inr (r, ms', out)" by blast
    show ?thesis
    proof (cases c)
      case UdsNode_Post
      then obtain pid w where w: "reg_addNode (h_get A req ''node'') pid (m_mw ms) = Some w"
        and o: "answer status_ok (im_addNode A (h_get A req ''node'')) (ms\<lparr>m_mw := w\<rparr>) = Inr (r, ms', out)"
        using d False by (auto simp: uds_node_handlePost_def answer_Inr split: option.splits)
      from ans [OF framed_notifications(1) addNode_inv [OF mw w] o] show ?thesis .
    next
      case UdsNode_Delete
      obtain found w o1 where w: "reg_deleteNode (h_get A req ''node'') (m_mw ms) = (found, w, o1)"
        by (cases "reg_deleteNode (h_get A req ''node'') (m_mw ms)")
      have "framed (and_then (\<lambda>ms. Inr (ms, map ShmOut o1)) (im_deleteNode A n))" for n by (intro frame_intros)
      from ans [OF this deleteNode_inv [OF mw w]] skip [OF deleteNode_inv [OF mw w]] show ?thesis
        using d UdsNode_Delete w by (auto simp: uds_node_handleDelete_def Let_def split: if_splits)
    next
      case UdsNodePub_Post
      then obtain node topic type ok w o1 where w: "reg_addPublish os node topic type (m_mw ms) = Inr (ok, w, o1)"
        and o: "(if ok then answer status_ok (and_then (\<lambda>ms. Inr (ms, map ShmOut o1)) (im_addPub A node topic type)) (ms\<lparr>m_mw := w\<rparr>)
          else answer bad_request skip (ms\<lparr>m_mw := w\<rparr>)) = Inr (r, ms', out)"
        using d by (auto simp: uds_nodePub_handlePost_def Let_def split: option.splits sum.splits)
      have "framed (and_then (\<lambda>ms. Inr (ms, map ShmOut o1)) (im_addPub A node topic type))" by (intro frame_intros)
      from ans [OF this addPublish_inv [OF mw w]] skip [OF addPublish_inv [OF mw w]] o show ?thesis
        by (simp split: if_splits)
    next
      case UdsNodeSub_Post
      then obtain node topic type ok w where w: "reg_addSubscribe os node topic type (m_mw ms) = Inr (ok, w)"
        and o: "(if ok then answer status_ok (im_addSub A node topic type) (ms\<lparr>m_mw := w\<rparr>)
          else answer bad_request skip (ms\<lparr>m_mw := w\<rparr>)) = Inr (r, ms', out)"
        using d by (auto simp: uds_nodeSub_handlePost_def Let_def split: option.splits sum.splits)
      from ans [OF framed_notifications(3) addSubscribe_inv [OF mw w]] skip [OF addSubscribe_inv [OF mw w]] o show ?thesis
        by (simp split: if_splits)
    qed (use d False in \<open>auto simp: uds_node_handleGet_def uds_topic_handleGet_def uds_topicInfo_handleGet_def
        Let_def answer_Inr split: if_splits\<close>)
  qed (use assms(1) in simp)
qed

lemma eventfd_inv: "preserves master_inv (onEventfdRead A e ec value)"
proof -
  have "preserves master_inv (pop_and_transfer A t i)" for t i
    unfolding preserves_def
  proof (intro allI impI)
    fix ms ms' out
    assume m: "master_inv ms" "pop_and_transfer A t i ms = Inr (ms', out)"
    obtain q where q: "snd (queue_pop i (m_mw ms)) = (m_mw ms)\<lparr>mw_queues := q\<rparr>" using pop_queues by blast
    have "master_inv (ms\<lparr>m_mw := (m_mw ms)\<lparr>mw_queues := q\<rparr>\<rparr>)"
      using m(1) by (simp add: mw_update_inv master_inv_def [of ms])
    moreover have "transferMessage A t (fst (queue_pop i (m_mw ms))) (ms\<lparr>m_mw := (m_mw ms)\<lparr>mw_queues := q\<rparr>\<rparr>) = Inr (ms', out)"
      using m(2) by (simp add: pop_and_transfer_def case_prod_beta q)
    moreover have "preserves master_inv (transferMessage A t x)" for x
      unfolding transferMessage_def by (intro preserves_and_then framed_inv framed_publish with_inner_inv)
    ultimately show "master_inv ms'" by (blast dest: preservesD)
  qed
  moreover have "preserves master_inv (\<lambda>ms. Inr (ms, [ShmOut (EventfdRead k)]))" for k
    by (simp add: preserves_def)
  ultimately have "preserves master_inv (and_then (for_each (\<lambda>_. pop_and_transfer A (ep_topic e) (ep_id e)) (replicate value ()))
      (\<lambda>ms. Inr (ms, [ShmOut (EventfdRead (ep_id e))])))"
    by (intro preserves_and_then preserves_for_each)
  then show ?thesis by (simp add: onEventfdRead_def)
qed

subsection \<open>Runs\<close>

text \<open>
  The steps of the master: a request of another host, a request of a local node, an eventfd read, the
  callbacks of the links, a step of a UWB handle (the requests it routes are steps of their own),
  the queue operations of the node processes, and the clock.
\<close>

inductive master_step :: "'r http_api \<Rightarrow> json_api \<Rightarrow> 'r master \<Rightarrow> 'r master \<Rightarrow> bool" for A J where
  peer: "router_handle A J req ms = Inr (ms', out) \<Longrightarrow> master_step A J ms ms'"
| uds: "uds_handle A os req ms = Inr (r, ms', out) \<Longrightarrow> master_step A J ms ms'"
| eventfd: "onEventfdRead A e ec value ms = Inr (ms', out) \<Longrightarrow> master_step A J ms ms'"
| connected: "link_connected A J k ec ms = Inr (ms', out) \<Longrightarrow> master_step A J ms ms'"
| wrote: "link_written A k ec ms = Inr (ms', out) \<Longrightarrow> master_step A J ms ms'"
| reconnect: "on_link k (onReconnectTimeout ec) ms = Inr (ms', out) \<Longrightarrow> master_step A J ms ms'"
| timeout: "on_link k (onTimeout ec) ms = Inr (ms', out) \<Longrightarrow> master_step A J ms ms'"
| uwb: "handle_step A inp (m_handles ms ! i) = (h', evs) \<Longrightarrow>
    master_step A J ms (ms\<lparr>m_handles := (m_handles ms)[i := h']\<rparr>)"
| node_push: "queue_push i message (m_mw ms) = (ok, w) \<Longrightarrow> master_step A J ms (ms\<lparr>m_mw := w\<rparr>)"
| node_pop: "queue_pop i (m_mw ms) = (message, w) \<Longrightarrow> master_step A J ms (ms\<lparr>m_mw := w\<rparr>)"
| clock: "master_step A J ms (ms\<lparr>m_now := now\<rparr>)"

inductive master_reach :: "'r http_api \<Rightarrow> json_api \<Rightarrow> 'r master \<Rightarrow> bool" for A J where
  start: "im_init serial cfg host new_master = Inr ms \<Longrightarrow> im_run ms = Inr (ms', out) \<Longrightarrow> master_reach A J ms'"
| step: "master_reach A J ms \<Longrightarrow> master_step A J ms ms' \<Longrightarrow> master_reach A J ms'"

lemma init_interfaces_frame:
  "topic2host (init_interfaces serial cs ms) = topic2host ms \<and> hostlist (init_interfaces serial cs ms) = hostlist ms \<and>
   m_mw (init_interfaces serial cs ms) = m_mw ms"
  by (induction cs arbitrary: ms) (simp_all add: Let_def)

lemma init_host_frame:
  "init_host hn cs h ms = Inr (h', ms') \<Longrightarrow> subs_wf h \<Longrightarrow>
   subs_wf h' \<and> topic2host ms' = topic2host ms \<and> hostlist ms' = hostlist ms \<and> m_mw ms' = m_mw ms"
proof (induction cs arbitrary: h ms)
  case (Cons c cs)
  have "\<exists>p m1. init_host hn cs (host_setHostInterface (ic_name c) p h) m1 = Inr (h', ms') \<and>
      topic2host m1 = topic2host ms \<and> hostlist m1 = hostlist ms \<and> m_mw m1 = m_mw ms"
    using Cons.prems(1) by (force simp: Let_def split: sum.splits if_splits)
  then obtain p m1 where "init_host hn cs (host_setHostInterface (ic_name c) p h) m1 = Inr (h', ms')"
    "topic2host m1 = topic2host ms" "hostlist m1 = hostlist ms" "m_mw m1 = m_mw ms" by blast
  with Cons.IH [OF this(1)] Cons.prems(2) show ?case by simp
qed simp

lemma init_hosts_inv:
  "init_hosts hs ms = Inr ms' \<Longrightarrow> topic2host ms = [] \<Longrightarrow> master_inv ms \<Longrightarrow> topic2host ms' = [] \<and> master_inv ms'"
proof (induction hs arbitrary: ms)
  case (Cons h hs)
  show ?case
  proof (cases "hc_name h = m_hostName ms")
    case False
    then obtain info m1 where 1: "init_host (hc_name h) (hc_interfaces h) (new_host (hc_name h)) ms = Inr (info, m1)"
      and 2: "init_hosts hs (m1\<lparr>hostlist := um_put (hc_name h) info (hostlist m1)\<rparr>) = Inr ms'"
      using Cons.prems(1) by (auto split: sum.splits)
    have f: "subs_wf info" "topic2host m1 = topic2host ms" "hostlist m1 = hostlist ms" "m_mw m1 = m_mw ms"
      using init_host_frame [OF 1] by simp_all
    have "master_inv (m1\<lparr>hostlist := um_put (hc_name h) info (hostlist m1)\<rparr>)"
      using Cons.prems(2,3) f by (simp add: master_inv_def hosts_ok_def listed_def um_at_def)
    with Cons.IH [OF 2] Cons.prems(2) f(2) show ?thesis by simp
  qed (use Cons in simp)
qed simp

lemma init_inv:
  fixes ms :: "'r master"
  assumes "im_init serial cfg host new_master = Inr ms"
  shows "master_inv ms"
proof -
  define m0 :: "'r master" where "m0 = (case find (\<lambda>h. hc_name h = host) (cf_hosts cfg) of None \<Rightarrow> new_master\<lparr>m_hostName := host\<rparr>
                | Some h \<Rightarrow> init_interfaces serial (hc_interfaces h) (new_master\<lparr>m_hostName := host\<rparr>))"
  have m0: "topic2host m0 = []" "hostlist m0 = []" "m_mw m0 = new_mw"
    unfolding m0_def by (simp_all add: init_interfaces_frame split: option.split) (simp_all add: new_master_def)
  then have i0: "master_inv m0" by (simp add: master_inv_def hosts_ok_def listed_def um_at_def)
  obtain m1 where m1: "init_hosts (cf_hosts cfg) m0 = Inr m1"
    using assms by (cases "init_hosts (cf_hosts cfg) m0") (simp_all add: im_init_def Let_def m0_def)
  have f: "topic2host ms = topic2host m1" "hostlist ms = hostlist m1" "m_mw ms = m_mw m1"
    using assms m1 by (auto simp: im_init_def Let_def m0_def split: sum.splits)
  from init_hosts_inv [OF m1 m0(1) i0] f show ?thesis by (simp add: master_inv_def hosts_ok_def listed_def)
qed

lemma run_framed: "framed im_run"
proof -
  have l: "framed (start_link p)" for p
    by (cases "snd p") (auto simp: start_link_def framed_on_link intro: framedI)
  have i: "framed (case i of None \<Rightarrow> (\<lambda>ms. Inl NullDeref) | Some i \<Rightarrow> for_each start_link (name2hostInterface i))" for i
    by (cases i) (auto intro: framedI framed_for_each l)
  have "framed (for_each (\<lambda>p. case snd p of None \<Rightarrow> (\<lambda>ms. Inl NullDeref) | Some i \<Rightarrow> for_each start_link (name2hostInterface i)) xs)"
    for xs :: "(string \<times> interface option) list"
    by (intro framed_for_each i)
  from framedD [OF this] show ?thesis by (auto intro!: framedI simp: im_run_def)
qed

lemma master_step_inv:
  assumes "master_step A J ms ms'" and "master_inv ms"
  shows "master_inv ms'"
  using assms(1)
proof cases
  case (uwb inp i h' evs)
  then show ?thesis using assms(2) by (simp add: master_inv_def hosts_ok_def listed_def)
next
  case (node_push i message ok w)
  then show ?thesis using push_queues [of i message "m_mw ms"] assms(2)
    by (auto simp: master_inv_def hosts_ok_def)
next
  case (node_pop i message w)
  then show ?thesis using pop_queues [of i "m_mw ms"] assms(2)
    by (auto simp: master_inv_def hosts_ok_def)
next
  case (clock now)
  then show ?thesis using assms(2) by (simp add: master_inv_def hosts_ok_def listed_def)
qed (use assms(2) in \<open>blast intro: preservesD [OF router_inv] uds_inv preservesD [OF eventfd_inv]
    frame_inv [OF framedD] framed_link framed_on_link\<close>)+

lemma reach_inv: "master_reach A J ms \<Longrightarrow> master_inv ms"
proof (induction rule: master_reach.induct)
  case (start serial cfg host ms ms' out)
  from frame_inv [OF framedD [OF run_framed start(2)] init_inv [OF start(1)]] show ?case .
qed (rule master_step_inv)

end
