(* ===== verification/PubSub.thy ===== *)
theory PubSub
  imports MasterRun
begin

text \<open>
  Publish and subscribe between masters: what a subscription and a publication on one host do on
  another, what a new connection exchanges, and what the deletion of a node loses.
\<close>

lemma router_local:
  assumes "h_get A req ''dest'' = m_hostName ms"
    and "find_controller iface_table (h_target A req) (h_method A req) = Some c"
  shows "router_handle A J req ms = iface_handle A J c req ms"
  using assms by (simp add: router_handle_def)

lemma iface_table_entries:
  "find_controller iface_table ''/node'' v_delete = Some Node_Delete"
  "find_controller iface_table ''/node/sub'' v_post = Some NodeSub_Post"
  "find_controller iface_table ''/publish'' v_post = Some Publish_Post"
  "find_controller iface_table ''/new'' v_post = Some New_Post"
  "find_controller iface_table ''/new'' v_put = Some New_Put"
  by (simp_all add: iface_table_def)

subsection \<open>A sample network\<close>

text \<open>Host B of the chain A - B - C after its start, and what it learns from A.\<close>

definition base_B :: "request master" where
  "base_B = projr (im_init (\<lambda>_. (True, True)) chain ''B'' new_master)"

definition run_B :: "request master" where
  "run_B = fst (projr (im_run base_B))"

definition sub_req :: "string \<Rightarrow> string \<Rightarrow> request" where
  "sub_req node topic = \<lparr>rq_method = v_post, rq_target = ''/node/sub'',
     rq_fields = [(''node'', node), (''sub'', topic), (''type'', ''str''), (''src'', ''A''), (''dest'', ''B'')], rq_body = []\<rparr>"

definition delete_req :: "string \<Rightarrow> request" where
  "delete_req node = \<lparr>rq_method = v_delete, rq_target = ''/node'',
     rq_fields = [(''node'', node), (''src'', ''A''), (''dest'', ''B'')], rq_body = []\<rparr>"

definition sub_B :: "request master" where
  "sub_B = fst (projr (router_handle list_http list_json (sub_req ''map'' ''pose'') run_B))"

definition sub2_B :: "request master" where
  "sub2_B = fst (projr (router_handle list_http list_json (sub_req ''gps'' ''fix'') sub_B))"

lemma init_B: "im_init (\<lambda>_. (True, True)) chain ''B'' new_master = Inr base_B"
  unfolding base_B_def by code_simp

lemma run_B_eq: "im_run base_B = Inr (run_B, snd (projr (im_run base_B)))"
  unfolding run_B_def by code_simp

lemma sub_B_eq: "router_handle list_http list_json (sub_req ''map'' ''pose'') run_B = Inr (sub_B, [])"
  unfolding sub_B_def by code_simp

lemma sub2_B_eq: "router_handle list_http list_json (sub_req ''gps'' ''fix'') sub_B = Inr (sub2_B, [])"
  unfolding sub2_B_def by code_simp

lemma run_B_reach: "master_reach list_http list_json run_B"
  by (rule master_reach.start [OF init_B run_B_eq])

lemma sub_B_reach: "master_reach list_http list_json sub_B"
  by (rule master_reach.step [OF run_B_reach master_step.peer [OF sub_B_eq]])

lemma sub2_B_reach: "master_reach list_http list_json sub2_B"
  by (rule master_reach.step [OF sub_B_reach master_step.peer [OF sub2_B_eq]])

subsection \<open>Who is told\<close>

text \<open>
  C10: In every run of a master, a host is listed for a topic only if it is known and one of its nodes
  subscribes to the topic: no publication goes to a host that does not want it.
\<close>

theorem listed_hosts_subscribe:
  assumes "master_reach A J ms" and "h \<in> set (um_at [] (topic2host ms) topic)"
  shows "\<exists>info node. um_find (hostlist ms) h = Some info \<and> subscribes info node topic"
  using reach_inv [OF assms(1)] assms(2)
  by (auto simp: master_inv_def hosts_ok_def listed_def sub_topics_def)

theorem listed_hosts_subscribe_witness:
  "\<exists>info node. um_find (hostlist sub_B) ''A'' = Some info \<and> subscribes info node ''pose''"
proof -
  have "''A'' \<in> set (um_at [] (topic2host sub_B) ''pose'')" by code_simp
  from listed_hosts_subscribe [OF sub_B_reach this] show ?thesis .
qed

text \<open>
  The deletion of one node cuts off its whole host. In every run, after \<open>DELETE /node\<close> from a known
  host no topic lists that host any more, although the subscriptions of its other nodes are still
  recorded: \<open>Host::deleteNode\<close> returns the topics of all its nodes.
\<close>

theorem delete_node_cuts_host:
  assumes "master_reach A J ms" and "h_get A req ''dest'' = m_hostName ms"
    and "h_target A req = ''/node''" and "h_method A req = v_delete"
    and "um_find (hostlist ms) (h_get A req ''src'') = Some info"
  shows "\<exists>ms' info'. router_handle A J req ms = Inr (ms', []) \<and>
    (\<forall>topic. h_get A req ''src'' \<notin> set (um_at [] (topic2host ms') topic)) \<and>
    um_find (hostlist ms') (h_get A req ''src'') = Some info' \<and>
    (\<forall>n t. subscribes info' n t \<longleftrightarrow> n \<noteq> h_get A req ''node'' \<and> subscribes info n t)"
proof -
  let ?host = "h_get A req ''src''" and ?d = "host_deleteNode (h_get A req ''node'') info"
  have r: "router_handle A J req ms = node_handleDelete A req ms"
    using assms(2-4) by (subst router_local [of _ _ _ Node_Delete]) (simp_all add: iface_table_entries)
  have "node_handleDelete A req ms =
      for_each (\<lambda>t. t2h_erase t ?host) (snd ?d) (ms\<lparr>hostlist := um_put ?host (fst ?d) (hostlist ms)\<rparr>)"
    using assms(5) by (simp add: node_handleDelete_def case_prod_beta Let_def)
  then obtain ms' where m: "node_handleDelete A req ms = Inr (ms', [])"
    using erase_all_returns [of ?host "snd ?d"] by metis
  note E = delete_node_effect [OF reach_inv [OF assms(1)] m]
  show ?thesis using E(1,4) r m assms(5) by (auto simp: listed_def)
qed

theorem delete_node_cuts_host_witness:
  "\<exists>ms' info'. router_handle list_http list_json (delete_req ''gps'') sub2_B = Inr (ms', []) \<and>
    ''A'' \<notin> set (um_at [] (topic2host ms') ''pose'') \<and>
    um_find (hostlist ms') ''A'' = Some info' \<and> subscribes info' ''map'' ''pose''"
proof -
  let ?info = "the (um_find (hostlist sub2_B) ''A'')"
  have h: "h_get list_http (delete_req ''gps'') ''dest'' = m_hostName sub2_B" by code_simp
  have s: "h_get list_http (delete_req ''gps'') ''src'' = ''A''" "h_get list_http (delete_req ''gps'') ''node'' = ''gps''"
    by code_simp+
  have f: "um_find (hostlist sub2_B) (h_get list_http (delete_req ''gps'') ''src'') = Some ?info" by code_simp
  have "um_find (node2sub ?info) ''map'' = Some [(''pose'', ''str'')]" by code_simp
  then have "subscribes ?info ''map'' ''pose''" by (simp add: subscribes_def um_find_def)
  moreover have "h_target list_http (delete_req ''gps'') = ''/node''" "h_method list_http (delete_req ''gps'') = v_delete"
    by code_simp+
  ultimately show ?thesis
    using delete_node_cuts_host [OF sub2_B_reach h _ _ f] unfolding s by auto
qed

subsection \<open>From one master to another\<close>

lemma filter_hop_mem:
  assumes "list_all2 P (filter (\<lambda>h. hop_of ms h = Some k) hosts) rs" and "h \<in> set hosts" and "hop_of ms h = Some k"
  obtains r where "r \<in> set rs" "P h r"
proof -
  have "h \<in> set (filter (\<lambda>h. hop_of ms h = Some k) hosts)" using assms(2,3) by simp
  then obtain i where "i < length (filter (\<lambda>h. hop_of ms h = Some k) hosts)" "filter (\<lambda>h. hop_of ms h = Some k) hosts ! i = h"
    unfolding in_set_conv_nth by blast
  then show ?thesis using assms(1) that by (metis list_all2_conv_all_nth nth_mem)
qed

text \<open>
  A subscription reaches the other hosts. When a node subscribes on one host, the announcement
  handed to the link towards a second host, handled there, records the subscription and lists the
  first host for the topic.
\<close>

theorem subscription_recorded:
  assumes "http_laws A" and "reaches_all ms1 (host_names ms1)" and "m_hostName ms2 \<in> set (host_names ms1)"
    and "hop_of ms1 (m_hostName ms2) = Some k" and "queue_of ms1 k = Some q"
    and "um_find (hostlist ms2) (m_hostName ms1) = Some info"
  shows "\<exists>ms1' out rs r ms2' info'. im_addSub A node topic type ms1 = Inr (ms1', out) \<and>
    handed ms1 ms1' out k rs \<and> r \<in> set rs \<and> router_handle A J r ms2 = Inr (ms2', []) \<and>
    m_hostName ms1 \<in> set (um_at [] (topic2host ms2') topic) \<and>
    um_find (hostlist ms2') (m_hostName ms1) = Some info' \<and> subscribes info' node topic"
proof -
  let ?q = "h_set A ''type'' type (h_set A ''sub'' topic (h_set A ''node'' node (h_make A v_post ''/node/sub'')))"
  obtain q' ms1' out where b: "broadcast A (?q, ms1) = Inr ((q', ms1'), out)"
    and "\<forall>k. \<exists>rs. handed ms1 ms1' out k rs \<and>
      list_all2 (addressed A (h_set A ''src'' (m_hostName ms1) ?q)) (filter (\<lambda>h. hop_of ms1 h = Some k) (host_names ms1)) rs"
    using broadcast_spec [OF assms(1,2), of ?q] by blast
  then obtain rs where rs: "handed ms1 ms1' out k rs" "list_all2 (addressed A (h_set A ''src'' (m_hostName ms1) ?q))
      (filter (\<lambda>h. hop_of ms1 h = Some k) (host_names ms1)) rs" by blast
  obtain r where r: "r \<in> set rs" "addressed A (h_set A ''src'' (m_hostName ms1) ?q) (m_hostName ms2) r"
    using filter_hop_mem [OF rs(2) assms(3,4)] .
  have d: "h_get A r ''dest'' = m_hostName ms2" "h_target A r = ''/node/sub''" "h_method A r = v_post"
    "h_get A r ''src'' = m_hostName ms1" "h_get A r ''node'' = node" "h_get A r ''sub'' = topic" "h_get A r ''type'' = type"
    using r(2) assms(1) by (simp_all add: addressed_def same_parts_def http_simps)
  let ?ms = "ms2\<lparr>hostlist := um_put (m_hostName ms1) (host_addSub node topic type info) (hostlist ms2)\<rparr>"
  let ?ms' = "?ms\<lparr>topic2host := um_put topic (us_insert (m_hostName ms1) (um_at [] (topic2host ?ms) topic))
      (snd (um_index [] topic (topic2host ?ms)))\<rparr>"
  have "router_handle A J r ms2 = nodeSub_handlePost A r ms2"
    using d(1) by (subst router_local [of _ _ _ NodeSub_Post]) (simp_all add: d(2,3) iface_table_entries)
  also have "\<dots> = Inr (?ms', [])"
    using assms(6) by (simp add: nodeSub_handlePost_def Let_def d(4-7) and_then_def on_host_def t2h_insert_spec)
  finally have h: "router_handle A J r ms2 = Inr (?ms', [])" .
  have "im_addSub A node topic type ms1 = Inr (ms1', out)"
    using b by (simp add: im_addSub_def with_request_def)
  moreover have "m_hostName ms1 \<in> set (um_at [] (topic2host ?ms') topic)" by simp
  moreover have "um_find (hostlist ?ms') (m_hostName ms1) = Some (host_addSub node topic type info)" by simp
  moreover have "subscribes (host_addSub node topic type info) node topic" by simp
  ultimately show ?thesis using rs(1) r(1) h by blast
qed

theorem subscription_recorded_witness:
  "\<exists>r ms2'. router_handle list_http list_json r run_B = Inr (ms2', []) \<and>
     ''A'' \<in> set (um_at [] (topic2host ms2') ''pose'')"
proof -
  have n: "m_hostName run_B = ''B''" by code_simp
  have m: "m_hostName run_B \<in> set (host_names chain_master)" unfolding n chain_master_sel(2) by simp
  have hop: "hop_of chain_master (m_hostName run_B) = Some 0" unfolding n by (rule chain_hops)
  have q: "queue_of chain_master 0 = Some []" by code_simp
  have f: "um_find (hostlist run_B) (m_hostName chain_master) = Some (the (um_find (hostlist run_B) ''A''))"
    unfolding chain_master_sel(1) by code_simp
  from subscription_recorded [OF list_http_laws chain_reaches m hop q f] show ?thesis
    unfolding chain_master_sel(1) by blast
qed

lemma publish_effect:
  assumes "http_laws A" and "mw_inv (m_mw ms)" and "h_get A r ''dest'' = m_hostName ms" and "h_method A r = v_post"
    and "h_target A r = ''/publish''" and "h_get A r ''topic'' = topic" and "h_body A r = data"
  shows "\<exists>ms' out. router_handle A J r ms = Inr (ms', out) \<and>
    (\<forall>n nd e. um_find (m_nodes (m_mw ms)) n = Some (Some nd) \<and> um_find (nd_subscribes nd) topic = Some e \<and>
       length (um_at [] (mw_queues (m_mw ms)) (ep_id e)) < QUEUE_SIZE \<longrightarrow>
       um_at [] (mw_queues (m_mw ms')) (ep_id e) = um_at [] (mw_queues (m_mw ms)) (ep_id e) @ [data] \<and>
       ShmOut (EventfdWrite (ep_id e)) \<in> set out)"
proof -
  let ?es = "um_at [] (m_subscribes (m_mw ms)) topic"
  let ?p = "publish_loop data ?es (m_mw ms)"
  note S = subscribers_of [OF assms(2), of topic]
  have d: "distinct (map ep_id ?es)" using S(1,4) by (simp add: distinct_map)
  note P = publish_loop_spec [OF d, of data "m_mw ms"]
  have h: "router_handle A J r ms = Inr (ms\<lparr>m_mw := fst ?p\<rparr>, map ShmOut (snd ?p))"
    using assms(3,6,7) by (subst router_local [of _ _ _ Publish_Post])
      (simp_all add: assms(4,5) iface_table_entries publish_handlePost_def with_mw_def inner_loop case_prod_beta)
  have f: "um_at [] (mw_queues (fst ?p)) (ep_id e) = um_at [] (mw_queues (m_mw ms)) (ep_id e) @ [data] \<and>
      ShmOut (EventfdWrite (ep_id e)) \<in> set (map ShmOut (snd ?p))"
    if "um_find (m_nodes (m_mw ms)) n = Some (Some nd)" "um_find (nd_subscribes nd) topic = Some e"
      "length (um_at [] (mw_queues (m_mw ms)) (ep_id e)) < QUEUE_SIZE" for n nd e
  proof -
    have e: "e \<in> set ?es" using that(1,2) unfolding S(2) by blast
    then show ?thesis using that(3) unfolding P by (simp add: gets_def)
  qed
  show ?thesis
    by (intro exI conjI, rule h, intro allI impI, elim conjE, drule (2) f, simp)
qed

text \<open>
  C9: A message crosses hosts. When a message is published on one host for a topic that lists a second
  host, the request handed to the link towards the second host, handled there, puts the message into
  the queue of every local subscriber of the topic that has room, and wakes it up.
\<close>

theorem remote_publish_delivered:
  assumes "http_laws A" and "reaches_all ms1 (um_at [] (topic2host ms1) topic)"
    and "m_hostName ms2 \<in> set (um_at [] (topic2host ms1) topic)"
    and "hop_of ms1 (m_hostName ms2) = Some k" and "queue_of ms1 k = Some q" and "master_reach A J ms2"
  shows "\<exists>ms1' out rs r ms2' out2. im_publish A topic data ms1 = Inr (ms1', out) \<and>
    handed ms1 ms1' out k rs \<and> r \<in> set rs \<and> router_handle A J r ms2 = Inr (ms2', out2) \<and>
    (\<forall>n nd e. um_find (m_nodes (m_mw ms2)) n = Some (Some nd) \<and> um_find (nd_subscribes nd) topic = Some e \<and>
       length (um_at [] (mw_queues (m_mw ms2)) (ep_id e)) < QUEUE_SIZE \<longrightarrow>
       um_at [] (mw_queues (m_mw ms2')) (ep_id e) = um_at [] (mw_queues (m_mw ms2)) (ep_id e) @ [data] \<and>
       ShmOut (EventfdWrite (ep_id e)) \<in> set out2)"
proof -
  obtain ms1' out rs where p: "im_publish A topic data ms1 = Inr (ms1', out)" "handed ms1 ms1' out k rs"
    "list_all2 (\<lambda>h r. h_method A r = v_post \<and> h_target A r = ''/publish'' \<and> h_get A r ''topic'' = topic \<and>
          h_body A r = data \<and> h_get A r ''src'' = m_hostName ms1 \<and> h_get A r ''dest'' = h)
        (filter (\<lambda>h. hop_of ms1 h = Some k) (um_at [] (topic2host ms1) topic)) rs"
    using publish_spec [OF assms(1,2), of data] by blast
  obtain r where r: "r \<in> set rs" "h_method A r = v_post" "h_target A r = ''/publish''" "h_get A r ''topic'' = topic"
    "h_body A r = data" "h_get A r ''dest'' = m_hostName ms2"
    using filter_hop_mem [OF p(3) assms(3,4)] by blast
  have "mw_inv (m_mw ms2)" using reach_inv [OF assms(6)] by (simp add: master_inv_def)
  from publish_effect [OF assms(1) this r(6,2,3,4,5), of J] p(1,2) r(1) show ?thesis by blast
qed

text \<open>
  What the link of a host interface gets of a request \<open>s\<close>. A TCP link writes it or queues it behind what waits;
  a radio that runs gets one more data frame at the end of its queue, from its own number to that of the
  host, with the printed request as payload, and expects its acknowledgement. A request that is too long,
  one for a radio that does not run and one for an interface without a radio leave everything as it was.
\<close>

definition link_gets :: "'r http_api \<Rightarrow> nat \<Rightarrow> 'r \<Rightarrow> 'r master \<Rightarrow> 'r master \<Rightarrow> 'r mout list \<Rightarrow> bool" where
  "link_gets A k s ms ms' out \<longleftrightarrow>
     (case hf_link (m_hifs ms ! k) of
        TcpHif l \<Rightarrow> m_handles ms' = m_handles ms \<and>
          (\<exists>q. queue_of ms' k = Some q \<and> written_to k out @ q = m_requestQueue l @ [s])
      | UwbHif None n \<Rightarrow> m_hifs ms' = m_hifs ms \<and> m_handles ms' = m_handles ms \<and> out = []
      | UwbHif (Some h) n \<Rightarrow> m_hifs ms' = m_hifs ms \<and> out = [] \<and> length (m_handles ms') = length (m_handles ms) \<and>
          (\<forall>i. i \<noteq> h \<longrightarrow> m_handles ms' ! i = m_handles ms ! i) \<and>
          (h < length (m_handles ms) \<longrightarrow>
            (let old = m_handles ms ! h; new = m_handles ms' ! h;
                 f = mk_frame_str (u_node_id old) n (u_next_seq old) DATA (serialize_http_request A s)
             in if u_running old \<and> length (serialize_http_request A s) \<le> 65535
                then u_send_queue new = u_send_queue old @ [f] \<and>
                  (n \<noteq> BROADCAST_ID \<longrightarrow> um_find (u_pending new) (u_next_seq old) \<noteq> None)
                else new = old)))"

lemma hif_send_link:
  assumes "k < length (m_hifs ms)" and "hif_send A k (req, ms) = Inr ((req', ms'), out)"
  shows "link_gets A k (h_prepare A req) ms ms' out"
proof (cases "hf_link (m_hifs ms ! k)")
  case (TcpHif l)
  obtain l' r' io where l': "tcp_send A req l = (l', r', io)" by (cases "tcp_send A req l")
  show ?thesis using assms tcp_send_queue [OF l'] l' TcpHif
    by (auto simp: link_gets_def hif_send_def queue_of_def)
next
  case (UwbHif p n)
  show ?thesis
  proof (cases p)
    case None
    then show ?thesis using assms UwbHif by (auto simp: link_gets_def hif_send_def)
  next
    case (Some h)
    obtain hd evs where hd: "send_http_reliable A (m_now ms) (h_prepare A req) n None (m_handles ms ! h) = (hd, evs)"
      by (cases "send_http_reliable A (m_now ms) (h_prepare A req) n None (m_handles ms ! h)")
    have r: "ms' = ms\<lparr>m_handles := (m_handles ms)[h := hd]\<rparr>" "out = map (UwbOut h) evs"
      using assms(2) UwbHif Some hd by (simp_all add: hif_send_def)
    let ?s = "serialize_http_request A (h_prepare A req)" and ?old = "m_handles ms ! h"
    have q: "evs = [] \<and> (if u_running ?old \<and> length ?s \<le> 65535
        then u_send_queue hd = u_send_queue ?old @ [mk_frame_str (u_node_id ?old) n (u_next_seq ?old) DATA ?s] \<and>
          (n \<noteq> BROADCAST_ID \<longrightarrow> um_find (u_pending hd) (u_next_seq ?old) \<noteq> None)
        else hd = ?old)"
      using hd by (auto simp: send_http_reliable_def Let_def notify_def inc_def split: if_splits)
    show ?thesis using q r UwbHif Some by (simp add: link_gets_def Let_def)
  qed
qed

lemma link_gets_route: "link_gets A k s (ms\<lparr>route := r\<rparr>) ms' out = link_gets A k s ms ms' out"
proof -
  have "m_hifs (ms\<lparr>route := r\<rparr>) = m_hifs ms" "m_handles (ms\<lparr>route := r\<rparr>) = m_handles ms" by simp_all
  then show ?thesis by (simp only: link_gets_def)
qed

text \<open>
  C11: A request for another host is passed on as it is: once, to the link that the route of its destination
  leads to, with the same destination, source, method, target, body and fields. A TCP link writes or
  queues it, a radio queues one data frame with it for that host, and no other link gets anything.
\<close>

theorem request_relayed:
  assumes "http_laws A" and "h_get A req ''dest'' \<noteq> m_hostName ms"
    and "hop_of ms (h_get A req ''dest'') = Some k" and "k < length (m_hifs ms)"
  shows "\<exists>ms' out. router_handle A J req ms = Inr (ms', out) \<and> unmoved ms ms' \<and>
    addressed A req (h_get A req ''dest'') (h_prepare A req) \<and> link_gets A k (h_prepare A req) ms ms' out \<and>
    (\<forall>j. handed ms ms' out j (if j = k then [h_prepare A req] else []))"
proof -
  let ?d = "h_get A req ''dest''"
  let ?ms = "ms\<lparr>route := snd (um_index ([], []) ?d (route ms))\<rparr>"
  have k: "k < length (m_hifs ?ms)" using assms(4) by simp
  obtain req' ms' out where o: "hif_send A k (req, ?ms) = Inr ((req', ms'), out)" "unmoved ?ms ms'"
    "\<forall>j. handed ?ms ms' out j (if j = k then [h_prepare A req] else [])"
    using hif_send_spec [OF k, of A req] by blast
  have "router_handle A J req ms = Inr (ms', out)"
    using assms(2) o(1) by (simp add: router_handle_def with_request_def transfer_hop [OF assms(3)])
  moreover have "unmoved ms ms'" by (rule unmoved_trans [OF unmoved_route o(2)])
  moreover have "addressed A req ?d (h_prepare A req)"
    using same_parts_prepare [OF assms(1)] assms(1) by (simp add: addressed_def http_simps)
  moreover have "link_gets A k (h_prepare A req) ms ms' out"
    using hif_send_link [OF k o(1)] by (simp only: link_gets_route)
  ultimately show ?thesis using o(3) by (simp only: handed_route) blast
qed

text \<open>B with a local node that subscribes, and A with B listed for the topic.\<close>

definition uds_req :: "verb \<Rightarrow> string \<Rightarrow> (string \<times> string) list \<Rightarrow> request" where
  "uds_req v t fs = \<lparr>rq_method = v, rq_target = t, rq_fields = fs, rq_body = []\<rparr>"

definition node_B :: "request master" where
  "node_B = fst (snd (projr (uds_handle list_http OsOk (uds_req v_post ''/node'' [(''node'', ''map''), (''pid'', ''7'')]) run_B)))"

definition local_B :: "request master" where
  "local_B = fst (snd (projr (uds_handle list_http OsOk (uds_req v_post ''/node/sub''
     [(''node'', ''map''), (''sub'', ''pose''), (''type'', ''str''), (''eventfd'', ''5'')]) node_B)))"

lemma uds_Inr:
  "isl x = False \<Longrightarrow> x = Inr (fst (projr x), fst (snd (projr x)), snd (snd (projr x)))"
  by (cases x) simp_all

lemma local_B_reach: "master_reach list_http list_json local_B"
proof -
  let ?r1 = "uds_req v_post ''/node'' [(''node'', ''map''), (''pid'', ''7'')]"
  let ?r2 = "uds_req v_post ''/node/sub'' [(''node'', ''map''), (''sub'', ''pose''), (''type'', ''str''), (''eventfd'', ''5'')]"
  have "isl (uds_handle list_http OsOk ?r1 run_B) = False" by code_simp
  from uds_Inr [OF this] have 1: "uds_handle list_http OsOk ?r1 run_B =
      Inr (fst (projr (uds_handle list_http OsOk ?r1 run_B)), node_B, snd (snd (projr (uds_handle list_http OsOk ?r1 run_B))))"
    by (simp add: node_B_def)
  have "isl (uds_handle list_http OsOk ?r2 node_B) = False" by code_simp
  from uds_Inr [OF this] have 2: "uds_handle list_http OsOk ?r2 node_B =
      Inr (fst (projr (uds_handle list_http OsOk ?r2 node_B)), local_B, snd (snd (projr (uds_handle list_http OsOk ?r2 node_B))))"
    by (simp add: local_B_def)
  show ?thesis
    by (rule master_reach.step [OF master_reach.step [OF run_B_reach master_step.uds [OF 1]] master_step.uds [OF 2]])
qed

lemma local_B_facts:
  "m_hostName local_B = ''B''"
  "um_find (m_nodes (m_mw local_B)) ''map'' = Some (Some \<lparr>nd_name = ''map'', nd_pid = 7, nd_publishes = [],
      nd_subscribes = [(''pose'', \<lparr>ep_id = 0, ep_topic = ''pose'', ep_type = ''str'', ep_node = ''map''\<rparr>)]\<rparr>)"
  "um_at [] (mw_queues (m_mw local_B)) 0 = []"
  by code_simp+

theorem remote_publish_delivered_witness:
  "\<exists>r ms2' out2. router_handle list_http list_json r local_B = Inr (ms2', out2) \<and>
     um_at [] (mw_queues (m_mw ms2')) 0 = [''1 2''] \<and> ShmOut (EventfdWrite 0) \<in> set out2"
proof -
  let ?ms = "chain_master\<lparr>topic2host := [(''pose'', [''B''])]\<rparr>"
  have t: "um_at [] (topic2host ?ms) ''pose'' = [''B'']" by (simp add: um_at_def um_find_def)
  have a: "reaches_all ?ms (um_at [] (topic2host ?ms) ''pose'')"
    unfolding t by (simp add: reaches_all_def chain_hops chain_master_sel)
  have b: "m_hostName local_B \<in> set (um_at [] (topic2host ?ms) ''pose'')"
    unfolding t local_B_facts(1) by simp
  have c: "hop_of ?ms (m_hostName local_B) = Some 0" unfolding local_B_facts(1) by (simp add: chain_hops)
  have d: "queue_of ?ms 0 = Some []" by code_simp
  obtain r ms2' out2 where r: "router_handle list_http list_json r local_B = Inr (ms2', out2)" and
    e: "\<And>n nd e. um_find (m_nodes (m_mw local_B)) n = Some (Some nd) \<Longrightarrow> um_find (nd_subscribes nd) ''pose'' = Some e \<Longrightarrow>
       length (um_at [] (mw_queues (m_mw local_B)) (ep_id e)) < QUEUE_SIZE \<Longrightarrow>
       um_at [] (mw_queues (m_mw ms2')) (ep_id e) = um_at [] (mw_queues (m_mw local_B)) (ep_id e) @ [''1 2''] \<and>
       ShmOut (EventfdWrite (ep_id e)) \<in> set out2"
    using remote_publish_delivered [OF list_http_laws a b c d local_B_reach, of "''1 2''"] by blast
  from e [OF local_B_facts(2), of "\<lparr>ep_id = 0, ep_topic = ''pose'', ep_type = ''str'', ep_node = ''map''\<rparr>"] r
  show ?thesis by (auto simp: um_find_def local_B_facts(3) QUEUE_SIZE_def)
qed

definition radio_B :: "request master" where
  "radio_B = run_B\<lparr>m_hifs := (m_hifs run_B)[1 := (m_hifs run_B ! 1)\<lparr>hf_link := UwbHif (Some 0) 3\<rparr>],
     m_handles := [(new_handle 2)\<lparr>u_running := True\<rparr>]\<rparr>"

theorem request_relayed_witness:
  "(\<exists>ms' out s. router_handle list_http list_json (sub_req ''map'' ''pose'' \<lparr>rq_fields := [(''dest'', ''C'')]\<rparr>) run_B = Inr (ms', out) \<and>
     handed run_B ms' out 1 [s] \<and> h_get list_http s ''dest'' = ''C'' \<and> h_target list_http s = ''/node/sub'') \<and>
   (\<exists>ms' out f. router_handle list_http list_json (sub_req ''map'' ''pose'' \<lparr>rq_fields := [(''dest'', ''C'')]\<rparr>) radio_B = Inr (ms', out) \<and>
     u_send_queue (m_handles ms' ! 0) = [f] \<and> dst_id f = 3)"
proof
  let ?r = "sub_req ''map'' ''pose'' \<lparr>rq_fields := [(''dest'', ''C'')]\<rparr>"
  have d: "h_get list_http ?r ''dest'' = ''C''" and t: "h_target list_http ?r = ''/node/sub''" by code_simp+
  have n: "h_get list_http ?r ''dest'' \<noteq> m_hostName run_B" by code_simp
  have h: "hop_of run_B (h_get list_http ?r ''dest'') = Some 1" by code_simp
  have k: "1 < length (m_hifs run_B)" by code_simp
  show "\<exists>ms' out s. router_handle list_http list_json ?r run_B = Inr (ms', out) \<and>
     handed run_B ms' out 1 [s] \<and> h_get list_http s ''dest'' = ''C'' \<and> h_target list_http s = ''/node/sub''"
  proof -
    obtain ms' out where o: "router_handle list_http list_json ?r run_B = Inr (ms', out)"
      "addressed list_http ?r (h_get list_http ?r ''dest'') (h_prepare list_http ?r)"
      "\<forall>j. handed run_B ms' out j (if j = 1 then [h_prepare list_http ?r] else [])"
      using request_relayed [OF list_http_laws n h k, of list_json] by blast
    have "handed run_B ms' out 1 [h_prepare list_http ?r]" using o(3) [rule_format, of 1] by simp
    moreover have "h_get list_http (h_prepare list_http ?r) ''dest'' = ''C''" "h_target list_http (h_prepare list_http ?r) = ''/node/sub''"
      using o(2) t d by (simp_all only: addressed_def same_parts_def)
    ultimately show ?thesis using o(1) by blast
  qed
  have n: "h_get list_http ?r ''dest'' \<noteq> m_hostName radio_B" by code_simp
  have h: "hop_of radio_B (h_get list_http ?r ''dest'') = Some 1" by code_simp
  have k: "1 < length (m_hifs radio_B)" by code_simp
  have l: "hf_link (m_hifs radio_B ! 1) = UwbHif (Some 0) 3" by code_simp
  have m: "m_handles radio_B = [(new_handle 2)\<lparr>u_running := True\<rparr>]" by (simp add: radio_B_def)
  obtain ms' out where o: "router_handle list_http list_json ?r radio_B = Inr (ms', out)"
    "link_gets list_http 1 (h_prepare list_http ?r) radio_B ms' out"
    using request_relayed [OF list_http_laws n h k, of list_json] by blast
  have "length (serialize_http_request list_http (h_prepare list_http ?r)) = 42" by code_simp
  then have "length (serialize_http_request list_http (h_prepare list_http ?r)) \<le> 65535" by simp
  with o(2) have "u_send_queue (m_handles ms' ! 0) = [mk_frame_str 2 3 1 DATA (serialize_http_request list_http (h_prepare list_http ?r))]"
    unfolding link_gets_def l m by (simp add: Let_def new_handle_def)
  with o(1) show "\<exists>ms' out f. router_handle list_http list_json ?r radio_B = Inr (ms', out) \<and>
     u_send_queue (m_handles ms' ! 0) = [f] \<and> dst_id f = 3"
    by (auto simp: mk_frame_str_def Let_def)
qed

subsection \<open>A new connection\<close>

text \<open>What learning from host \<open>host\<close> leaves alone, and what it has recorded.\<close>

definition rest_same :: "string \<Rightarrow> 'r master \<Rightarrow> 'r master \<Rightarrow> bool" where
  "rest_same host ms ms' \<longleftrightarrow> m_mw ms' = m_mw ms \<and> m_hostName ms' = m_hostName ms \<and> route ms' = route ms \<and>
     interfaceList ms' = interfaceList ms \<and> m_hifs ms' = m_hifs ms \<and>
     (\<forall>x. x \<noteq> host \<longrightarrow> um_find (hostlist ms') x = um_find (hostlist ms) x) \<and>
     (\<forall>x t. x \<noteq> host \<longrightarrow> x \<in> listed ms' t \<longleftrightarrow> x \<in> listed ms t)"

lemma rest_same_refl [simp]: "rest_same host ms ms"
  by (simp add: rest_same_def)

lemma rest_same_trans: "rest_same host a b \<Longrightarrow> rest_same host b c \<Longrightarrow> rest_same host a c"
  by (simp add: rest_same_def)

text \<open>\<open>records\<close>: the entry of the host gains the nodes \<open>N\<close> and the subscriptions \<open>S\<close>.\<close>

definition gains :: "string set \<Rightarrow> (string \<times> string) set \<Rightarrow> host_info \<Rightarrow> host_info \<Rightarrow> bool" where
  "gains N S h h' \<longleftrightarrow> set (nodelist h') = set (nodelist h) \<union> N \<and>
     (\<forall>n t. subscribes h' n t \<longleftrightarrow> subscribes h n t \<or> (n, t) \<in> S)"

definition records :: "string \<Rightarrow> string set \<Rightarrow> (string \<times> string) set \<Rightarrow> 'r master \<Rightarrow> 'r master \<Rightarrow> bool" where
  "records host N S ms ms' \<longleftrightarrow> rest_same host ms ms' \<and>
     (\<exists>h h'. um_find (hostlist ms) host = Some h \<and> um_find (hostlist ms') host = Some h' \<and> gains N S h h') \<and>
     (\<forall>t. host \<in> listed ms' t \<longleftrightarrow> host \<in> listed ms t \<or> t \<in> snd ` S)"

lemma recordsI:
  assumes "rest_same host ms ms'" and "um_find (hostlist ms) host = Some h" and "um_find (hostlist ms') host = Some h'"
    and "gains N S h h'" and "\<And>t. host \<in> listed ms' t \<longleftrightarrow> host \<in> listed ms t \<or> t \<in> snd ` S"
  shows "records host N S ms ms'"
  using assms unfolding records_def by blast

lemma recordsD:
  assumes "records host N S ms ms'"
  shows "rest_same host ms ms'" and "\<exists>h. um_find (hostlist ms') host = Some h"
    and "um_find (hostlist ms) host = Some h \<Longrightarrow> um_find (hostlist ms') host = Some h' \<Longrightarrow> gains N S h h'"
    and "\<exists>h. um_find (hostlist ms) host = Some h"
    and "host \<in> listed ms' t \<longleftrightarrow> host \<in> listed ms t \<or> t \<in> snd ` S"
  using assms unfolding records_def by auto

lemma gains_trans: "gains N1 S1 a b \<Longrightarrow> gains N2 S2 b c \<Longrightarrow> gains (N1 \<union> N2) (S1 \<union> S2) a c"
  by (auto simp: gains_def)

lemma records_trans:
  assumes "records host N1 S1 a b" and "records host N2 S2 b c"
  shows "records host (N1 \<union> N2) (S1 \<union> S2) a c"
proof -
  note 1 = recordsD [OF assms(1)] and 2 = recordsD [OF assms(2)]
  obtain h1 h2 h3 where h: "um_find (hostlist a) host = Some h1" "um_find (hostlist b) host = Some h2"
    "um_find (hostlist c) host = Some h3"
    using 1(4) 2(4) 2(2) by blast
  show ?thesis
  proof (rule recordsI [OF rest_same_trans [OF 1(1) 2(1)] h(1,3)])
    show "gains (N1 \<union> N2) (S1 \<union> S2) h1 h3" using gains_trans [OF 1(3) [OF h(1,2)] 2(3) [OF h(2,3)]] .
    show "host \<in> listed c t \<longleftrightarrow> host \<in> listed a t \<or> t \<in> snd ` (S1 \<union> S2)" for t
      using 1(5) [of t] 2(5) [of t] by (simp add: image_Un)
  qed
qed

text \<open>A step that returns and records, from whatever state knows the host.\<close>

definition recording :: "string \<Rightarrow> 'r mop \<Rightarrow> string set \<Rightarrow> (string \<times> string) set \<Rightarrow> bool" where
  "recording host f N S \<longleftrightarrow> (\<forall>ms h. um_find (hostlist ms) host = Some h \<longrightarrow>
     (\<exists>ms'. f ms = Inr (ms', []) \<and> records host N S ms ms'))"

lemma recordingD: "recording host f N S \<Longrightarrow> um_find (hostlist ms) host = Some h \<Longrightarrow>
    \<exists>ms'. f ms = Inr (ms', []) \<and> records host N S ms ms'"
  unfolding recording_def by blast

lemma recording_then:
  fixes f g :: "'r mop"
  assumes "recording host f N1 S1" and "recording host g N2 S2"
  shows "recording host (and_then f g) (N1 \<union> N2) (S1 \<union> S2)"
  unfolding recording_def
proof (intro allI impI)
  fix ms :: "'r master" and h
  assume "um_find (hostlist ms) host = Some h"
  from recordingD [OF assms(1) this] obtain m1 where 1: "f ms = Inr (m1, [])" "records host N1 S1 ms m1" by blast
  obtain h1 where "um_find (hostlist m1) host = Some h1" using recordsD(2) [OF 1(2)] by blast
  from recordingD [OF assms(2) this] obtain m2 where 2: "g m1 = Inr (m2, [])" "records host N2 S2 m1 m2" by blast
  show "\<exists>ms'. and_then f g ms = Inr (ms', []) \<and> records host (N1 \<union> N2) (S1 \<union> S2) ms ms'"
    using 1(1) 2(1) records_trans [OF 1(2) 2(2)] by (simp add: and_then_def)
qed

lemma recording_loop:
  assumes "\<And>x. recording host (f x) (N x) (S x)"
  shows "recording host (for_each f xs) (\<Union>x \<in> set xs. N x) (\<Union>x \<in> set xs. S x)"
proof (induction xs)
  case Nil
  show ?case by (auto simp: recording_def skip_def gains_def intro: recordsI)
next
  case (Cons x xs)
  then show ?case using recording_then [OF assms Cons.IH] by simp
qed

lemma recording_host:
  assumes "\<And>h. gains N {} h (f h)"
  shows "recording host (on_host host f :: 'r mop) N {}"
  unfolding recording_def
proof (intro allI impI)
  fix ms :: "'r master" and h
  assume h: "um_find (hostlist ms) host = Some h"
  let ?ms = "ms\<lparr>hostlist := um_put host (f h) (hostlist ms)\<rparr>"
  have "records host N {} ms ?ms"
    by (rule recordsI [OF _ h _ assms]) (simp_all add: rest_same_def)
  then show "\<exists>ms'. on_host host f ms = Inr (ms', []) \<and> records host N {} ms ms'"
    using h by (simp add: on_host_def)
qed

lemma recording_sub: "recording host (learn_sub host node sub :: 'r mop) {} {(node, fst sub)}"
  unfolding recording_def
proof (intro allI impI)
  fix ms :: "'r master" and h
  assume h: "um_find (hostlist ms) host = Some h"
  let ?h = "host_addSub node (fst sub) (snd sub) h"
  let ?m = "ms\<lparr>hostlist := um_put host ?h (hostlist ms)\<rparr>"
  let ?ms = "?m\<lparr>topic2host := um_put (fst sub) (us_insert host (um_at [] (topic2host ?m) (fst sub)))
      (snd (um_index [] (fst sub) (topic2host ?m)))\<rparr>"
  have l: "listed ?ms t = (if t = fst sub then insert host (listed ms t) else listed ms t)" for t
    unfolding listed_insert by simp
  have "records host {} {(node, fst sub)} ms ?ms"
  proof (rule recordsI [OF _ h])
    show "rest_same host ms ?ms" unfolding rest_same_def l by simp
    show "um_find (hostlist ?ms) host = Some ?h" by simp
    have "nodelist ?h = nodelist h" by (simp add: host_addSub_def)
    then show "gains {} {(node, fst sub)} h ?h" by (auto simp: gains_def)
    show "host \<in> listed ?ms t \<longleftrightarrow> host \<in> listed ms t \<or> t \<in> snd ` {(node, fst sub)}" for t
      unfolding l by simp
  qed
  moreover have "learn_sub host node sub ms = Inr (?ms, [])"
    using h by (simp add: learn_sub_def and_then_def on_host_def t2h_insert_spec)
  ultimately show "\<exists>ms'. learn_sub host node sub ms = Inr (ms', []) \<and> records host {} {(node, fst sub)} ms ms'"
    by blast
qed

lemma recording_pub: "recording host (learn_pub host node pub) {} {}"
  unfolding learn_pub_def by (rule recording_host) (simp add: gains_def host_addPub_def subscribes_def)

definition node_subs :: "node_info \<Rightarrow> (string \<times> string) set" where
  "node_subs n = Pair (ni_name n) ` fst ` set (ni_subtopics n)"

lemma recording_node: "recording host (learn_node host n) {ni_name n} (node_subs n)"
proof -
  have "recording host (on_host host (host_addNode (ni_name n))) {ni_name n} {}"
    by (rule recording_host) (simp add: gains_def host_addNode_def subscribes_def)
  from recording_then [OF this recording_then [OF recording_loop [OF recording_sub] recording_loop [OF recording_pub]]]
  have "recording host (learn_node host n) ({ni_name n} \<union> ((\<Union>x \<in> set (ni_subtopics n). {}) \<union> (\<Union>x \<in> set (ni_pubtopics n). {})))
      ({} \<union> ((\<Union>x \<in> set (ni_subtopics n). {(ni_name n, fst x)}) \<union> (\<Union>x \<in> set (ni_pubtopics n). {})))"
    unfolding learn_node_def .
  moreover have "(\<Union>x \<in> set (ni_subtopics n). {(ni_name n, fst x)}) = node_subs n" by (auto simp: node_subs_def)
  ultimately show ?thesis by simp
qed

lemma learn_host_effect:
  assumes "master_inv ms" and "um_find (hostlist ms) host = Some h0" and "json_laws J"
  shows "\<exists>ms' h. learn_host J host (j_write J ns) ms = Inr (ms', []) \<and> rest_same host ms ms' \<and>
    (\<forall>t. host \<in> listed ms' t \<longleftrightarrow> (\<exists>n \<in> set ns. t \<in> fst ` set (ni_subtopics n))) \<and>
    um_find (hostlist ms') host = Some h \<and> set (nodelist h) = ni_name ` set ns \<and>
    (\<forall>n t. subscribes h n t \<longleftrightarrow> (\<exists>i \<in> set ns. ni_name i = n \<and> t \<in> fst ` set (ni_subtopics i)))"
proof -
  obtain m1 where 1: "and_then (t2h_forget host) (on_host host host_clear) ms = Inr (m1, [])"
    and m1: "m1 = ms\<lparr>topic2host := map (\<lambda>(topic, s). (topic, us_erase host s)) (topic2host ms),
       hostlist := um_put host (host_clear h0) (hostlist ms)\<rparr>"
    using assms(2) by (simp add: and_then_def t2h_forget_def on_host_def)
  note L = learn_host_start [OF assms(1) 1]
  have r1: "rest_same host ms m1" using L(6) by (simp add: rest_same_def m1)
  have f1: "um_find (hostlist m1) host = Some (host_clear h0)" by (simp add: m1)
  from recordingD [OF recording_loop [of host "learn_node host" "\<lambda>x. {ni_name x}" node_subs, OF recording_node] f1] obtain m2 where
    2: "for_each (learn_node host) ns m1 = Inr (m2, [])"
      "records host (\<Union>x \<in> set ns. {ni_name x}) (\<Union>x \<in> set ns. node_subs x) m1 m2" by blast
  note R = recordsD [OF 2(2)]
  obtain h where h: "um_find (hostlist m2) host = Some h" using R(2) by blast
  have g: "gains (\<Union>x \<in> set ns. {ni_name x}) (\<Union>x \<in> set ns. node_subs x) (host_clear h0) h" by (rule R(3) [OF f1 h])
  have "host \<in> listed m2 t \<longleftrightarrow> (\<exists>n \<in> set ns. t \<in> fst ` set (ni_subtopics n))" for t
    using R(5) [of t] L(2) by (auto simp: node_subs_def image_iff)
  moreover have "learn_host J host (j_write J ns) ms = Inr (m2, [])"
    using assms(3) 2(1) 1 unfolding learn_host_def and_then_assoc by (simp add: and_then_def json_laws_def)
  moreover have "rest_same host ms m2" by (rule rest_same_trans [OF r1 R(1)])
  moreover have "set (nodelist h) = ni_name ` set ns" using g by (auto simp: gains_def host_clear_def)
  moreover have "subscribes h n t \<longleftrightarrow> (\<exists>i \<in> set ns. ni_name i = n \<and> t \<in> fst ` set (ni_subtopics i))" for n t
    using g by (auto simp: gains_def node_subs_def)
  ultimately show ?thesis using h by blast
qed

text \<open>
  A new connection synchronises the tables. \<open>POST /new\<close> from a known host replaces everything recorded
  about it by the nodes and subscriptions of the message: it is listed for exactly the topics its
  nodes subscribe to, other hosts keep their entries, and the answer \<open>PUT /new\<close> with the local nodes is
  handed to the link towards it.
\<close>

theorem new_host_synchronised:
  assumes "http_laws A" and "json_laws J" and "master_reach A J ms"
    and "h_get A req ''dest'' = m_hostName ms" and "h_target A req = ''/new''" and "h_method A req = v_post"
    and "h_body A req = j_write J ns" and "h_get A req ''src'' = host"
    and "um_find (hostlist ms) host = Some h0" and "hop_of ms host = Some k" and "k < length (m_hifs ms)"
    and "getAllNodeInfo J (m_mw ms) = Inr info"
  shows "\<exists>ms' out h r. router_handle A J req ms = Inr (ms', out) \<and>
    (\<forall>t. host \<in> set (um_at [] (topic2host ms') t) \<longleftrightarrow> (\<exists>n \<in> set ns. t \<in> fst ` set (ni_subtopics n))) \<and>
    (\<forall>x t. x \<noteq> host \<longrightarrow> x \<in> set (um_at [] (topic2host ms') t) \<longleftrightarrow> x \<in> set (um_at [] (topic2host ms) t)) \<and>
    um_find (hostlist ms') host = Some h \<and> set (nodelist h) = ni_name ` set ns \<and>
    (\<forall>n t. subscribes h n t \<longleftrightarrow> (\<exists>i \<in> set ns. ni_name i = n \<and> t \<in> fst ` set (ni_subtopics i))) \<and>
    handed ms ms' out k [r] \<and> h_method A r = v_put \<and> h_target A r = ''/new'' \<and> h_body A r = info \<and>
    h_get A r ''dest'' = host \<and> h_get A r ''src'' = m_hostName ms"
proof -
  obtain m1 h where 1: "learn_host J host (j_write J ns) ms = Inr (m1, [])" "rest_same host ms m1"
    "\<forall>t. host \<in> listed m1 t \<longleftrightarrow> (\<exists>n \<in> set ns. t \<in> fst ` set (ni_subtopics n))"
    "um_find (hostlist m1) host = Some h" "set (nodelist h) = ni_name ` set ns"
    "\<forall>n t. subscribes h n t \<longleftrightarrow> (\<exists>i \<in> set ns. ni_name i = n \<and> t \<in> fst ` set (ni_subtopics i))"
    using learn_host_effect [OF reach_inv [OF assms(3)] assms(9,2), of ns] by (elim exE conjE) (rule that)
  have same: "m_mw m1 = m_mw ms" "m_hostName m1 = m_hostName ms" "m_hifs m1 = m_hifs ms" "route m1 = route ms"
    "interfaceList m1 = interfaceList ms" "\<And>x t. x \<noteq> host \<Longrightarrow> x \<in> listed m1 t \<longleftrightarrow> x \<in> listed ms t"
    using 1(2) by (simp_all add: rest_same_def)
  have hop: "hop_of m1 host = Some k" using assms(10) hop_of_cong [of m1 ms] same by metis
  let ?re = "h_set A ''dest'' host (h_set A ''src'' (m_hostName ms) (h_set_body A info (h_make A v_put ''/new'')))"
  let ?m = "m1\<lparr>route := snd (um_index ([], []) host (route m1))\<rparr>"
  have k: "k < length (m_hifs ?m)" using assms(11) same(3) by simp
  obtain r' ms' out where 2: "hif_send A k (?re, ?m) = Inr ((r', ms'), out)" "unmoved ?m ms'"
    "\<forall>j. handed ?m ms' out j (if j = k then [h_prepare A ?re] else [])"
    using hif_send_spec [OF k, of A ?re] by blast
  have r: "router_handle A J req ms = Inr (ms', out)"
  proof -
    have "router_handle A J req ms = new_handlePost A J req ms"
      using assms(4) by (subst router_local [of _ _ _ New_Post]) (simp_all add: assms(5,6) iface_table_entries)
    also have "\<dots> = with_request ?re (transfer A host) m1"
      by (simp add: new_handlePost_def Let_def assms(7,8) and_then_def 1(1) same assms(12) split: sum.split)
    also have "\<dots> = Inr (ms', out)" using 2(1) by (simp add: with_request_def transfer_hop [OF hop])
    finally show ?thesis .
  qed
  have t: "topic2host ms' = topic2host m1" "hostlist ms' = hostlist m1" using unmoved_sel(2,3) [OF 2(2)] by simp_all
  have l: "listed ms' t = listed m1 t" for t by (simp add: listed_def t)
  have "handed m1 ms' out k [h_prepare A ?re]" using 2(3) [rule_format, of k] by (simp only: handed_route) simp
  then have hd: "handed ms ms' out k [h_prepare A ?re]"
    using same(3) by (simp add: handed_def queue_of_def)
  have re: "h_method A (h_prepare A ?re) = v_put" "h_target A (h_prepare A ?re) = ''/new''"
    "h_body A (h_prepare A ?re) = info" "h_get A (h_prepare A ?re) ''dest'' = host"
    "h_get A (h_prepare A ?re) ''src'' = m_hostName ms"
    using assms(1) by (simp_all add: http_simps)
  have l1: "\<forall>t. host \<in> set (um_at [] (topic2host ms') t) \<longleftrightarrow> (\<exists>n \<in> set ns. t \<in> fst ` set (ni_subtopics n))"
    using 1(3) unfolding l [symmetric] by (simp add: listed_def)
  have l2: "\<forall>x t. x \<noteq> host \<longrightarrow> x \<in> set (um_at [] (topic2host ms') t) \<longleftrightarrow> x \<in> set (um_at [] (topic2host ms) t)"
    using same(6) unfolding l [symmetric] by (simp add: listed_def)
  have f: "um_find (hostlist ms') host = Some h" using 1(4) by (simp add: t)
  show ?thesis
    by (intro exI conjI) (rule r l1 l2 f 1(5) 1(6) hd re)+
qed

definition new_req :: request where
  "new_req = \<lparr>rq_method = v_post, rq_target = ''/new'', rq_fields = [(''src'', ''A''), (''dest'', ''B'')],
     rq_body = j_write list_json [\<lparr>ni_name = ''map'', ni_pubtopics = [], ni_subtopics = [(''pose'', ''str'')]\<rparr>]\<rparr>"

theorem new_host_synchronised_witness:
  "\<exists>ms' out. router_handle list_http list_json new_req sub2_B = Inr (ms', out) \<and>
    ''A'' \<in> set (um_at [] (topic2host ms') ''pose'') \<and> ''A'' \<notin> set (um_at [] (topic2host ms') ''fix'')"
proof -
  let ?n = "\<lparr>ni_name = ''map'', ni_pubtopics = [], ni_subtopics = [(''pose'', ''str'')]\<rparr>"
  have a: "h_get list_http new_req ''dest'' = m_hostName sub2_B" "h_target list_http new_req = ''/new''"
    "h_method list_http new_req = v_post" "h_get list_http new_req ''src'' = ''A''"
    "hop_of sub2_B ''A'' = Some 0" "0 < length (m_hifs sub2_B)"
    "getAllNodeInfo list_json (m_mw sub2_B) = Inr (j_write list_json [])"
    "um_find (hostlist sub2_B) ''A'' = Some (the (um_find (hostlist sub2_B) ''A''))"
    by code_simp+
  have b: "h_body list_http new_req = j_write list_json [?n]" by (simp add: new_req_def list_http_def)
  from new_host_synchronised [OF list_http_laws list_json_laws sub2_B_reach a(1-3) b a(4,8,5,6,7)]
  obtain ms' out where "router_handle list_http list_json new_req sub2_B = Inr (ms', out)"
    "\<forall>t. ''A'' \<in> set (um_at [] (topic2host ms') t) \<longleftrightarrow> (\<exists>n \<in> set [?n]. t \<in> fst ` set (ni_subtopics n))"
    by (elim exE conjE) (rule that)
  then show ?thesis by (intro exI [of _ ms'] exI [of _ out]) simp
qed

end
