(* ===== verification/NtripAuth.thy ===== *)
theory NtripAuth
  imports CxxString
begin

text \<open>
  The credentials of the NTRIP client: \<open>encode\<close> in \<open>src/Dgps/src/ntripclient.cpp\<close> writes the
  base64 form of \<open>user:password\<close> into a buffer of a given size. The reference is base64 by
  arithmetic on the 24 bit number of three bytes, with its decoder.
\<close>

subsection \<open>The code\<close>

definition encodingTable :: string where
  "encodingTable = ''ABCDEFGHIJKLMNOPQRSTUVWXYZabcdefghijklmnopqrstuvwxyz0123456789+/''"

definition enc_char :: "u8 \<Rightarrow> char" where
  "enc_char w = encodingTable ! unat w"

text \<open>
  One round fills \<open>inbuf\<close>: up to three bytes of the user, the separator once there is room for it,
  then the password, then zeros, whose number is added to \<open>fill\<close>.
\<close>

definition fill_inbuf :: "string \<Rightarrow> string \<Rightarrow> bool \<Rightarrow> u8 list \<times> nat \<times> string \<times> string \<times> bool" where
  "fill_inbuf user pwd sep =
     (let a = take 3 user;
          b = (if length a < 3 \<and> \<not> sep then a @ '':'' else a);
          c = b @ take (3 - length b) pwd
      in (map byte_of_char c @ replicate (3 - length c) 0, 3 - length c,
          drop 3 user, drop (3 - length b) pwd, length a < 3 \<or> sep))"

text \<open>\<open>if(out-buf < size-1) *(out++) = c\<close>.\<close>

definition put_char :: "int \<Rightarrow> char \<Rightarrow> string \<Rightarrow> string" where
  "put_char sz c out = (if int (length out) < sz - 1 then out @ [c] else out)"

definition put_group :: "int \<Rightarrow> u8 list \<Rightarrow> nat \<Rightarrow> string \<Rightarrow> string" where
  "put_group sz inbuf fill out =
     (let b0 = inbuf ! 0; b1 = inbuf ! 1; b2 = inbuf ! 2;
          o1 = put_char sz (enc_char (drop_bit 2 (b0 AND 0xFC))) out;
          o2 = put_char sz (enc_char (push_bit 4 (b0 AND 0x03) OR drop_bit 4 (b1 AND 0xF0))) o1;
          o3 = put_char sz (if fill = 2 then CHR ''='' else
                 enc_char (push_bit 2 (b1 AND 0x0F) OR drop_bit 6 (b2 AND 0xC0))) o2
      in put_char sz (if 1 \<le> fill then CHR ''='' else enc_char (b2 AND 0x3F)) o3)"

lemma fill_inbuf_less:
  assumes "user \<noteq> [] \<or> pwd \<noteq> []" and "fill_inbuf user pwd sep = (inbuf, n, user', pwd', sep')"
  shows "length user' + length pwd' < length user + length pwd"
proof (cases "user = []")
  case True
  then have "user' = []" "pwd' = drop (3 - (if sep then 0 else 1)) pwd" "pwd \<noteq> []"
    using assms by (auto simp: fill_inbuf_def Let_def)
  then show ?thesis using True by simp
next
  case False
  from assms(2) have "user' = drop 3 user" "\<exists>k. pwd' = drop k pwd"
    unfolding fill_inbuf_def Let_def prod.inject by blast+
  then have "length user' < length user" "length pwd' \<le> length pwd"
    using False by (cases user; auto)+
  then show ?thesis by simp
qed

text \<open>
  The loop \<open>while(*user || *pwd)\<close>. The result is what is written from \<open>buf\<close> on, with the final zero
  when there is room for it, and the number of required bytes.
\<close>

function encode_loop :: "int \<Rightarrow> string \<Rightarrow> string \<Rightarrow> bool \<Rightarrow> nat \<Rightarrow> string \<Rightarrow> nat \<Rightarrow> string \<times> nat" where
  "encode_loop sz user pwd sep fill out bytes =
     (if user = [] \<and> pwd = [] then (out, bytes)
      else case fill_inbuf user pwd sep of (inbuf, n, user', pwd', sep') \<Rightarrow>
        encode_loop sz user' pwd' sep' (fill + n) (put_group sz inbuf (fill + n) out) (bytes + 4))"
  by pat_completeness auto

termination
proof (relation "measure (\<lambda>(sz, user, pwd, sep, fill, out, bytes). length user + length pwd)", goal_cases)
  case (2 sz user pwd sep fill out bytes)
  then show ?case by (auto dest: fill_inbuf_less [OF disjI1 sym] fill_inbuf_less [OF disjI2 sym])
qed simp

declare encode_loop.simps [simp del]

definition encode_login :: "int \<Rightarrow> string \<Rightarrow> string \<Rightarrow> string \<times> nat" where
  "encode_login sz user pwd =
     (case encode_loop sz user pwd False 0 [] 0 of (out, bytes) \<Rightarrow>
        (if int (length out) < sz then out @ [CHR 0x00] else out, bytes))"

subsection \<open>Base64\<close>

text \<open>The value of three bytes in base 64, and the digits by the alphabet.\<close>

definition b64_digit :: "nat \<Rightarrow> char" where
  "b64_digit n = encodingTable ! n"

fun base64 :: "u8 list \<Rightarrow> string" where
  "base64 [] = []"
| "base64 [a] = (let n = unat a * 16 in [b64_digit (n div 64 mod 64), b64_digit (n mod 64)] @ ''=='')"
| "base64 [a, b] = (let n = (unat a * 256 + unat b) * 4 in
     [b64_digit (n div 4096 mod 64), b64_digit (n div 64 mod 64), b64_digit (n mod 64)] @ ''='')"
| "base64 (a # b # c # bs) = (let n = (unat a * 256 + unat b) * 256 + unat c in
     [b64_digit (n div 262144), b64_digit (n div 4096 mod 64), b64_digit (n div 64 mod 64),
      b64_digit (n mod 64)] @ base64 bs)"

definition b64_value :: "char \<Rightarrow> nat option" where
  "b64_value c = (let k = length (takeWhile (\<lambda>x. x \<noteq> c) encodingTable) in if k < 64 then Some k else None)"

definition b64_byte :: "nat \<Rightarrow> u8" where
  "b64_byte n = of_nat n"

fun unbase64 :: "string \<Rightarrow> u8 list option" where
  "unbase64 [] = Some []"
| "unbase64 (p # q # r # s # cs) =
     (case (b64_value p, b64_value q) of
        (Some i, Some j) \<Rightarrow>
          if r = CHR ''='' \<and> s = CHR ''='' \<and> cs = [] then
            (if j mod 16 = 0 then Some [b64_byte (i * 4 + j div 16)] else None)
          else (case b64_value r of None \<Rightarrow> None | Some k \<Rightarrow>
            if s = CHR ''='' \<and> cs = [] then
              (if k mod 4 = 0 then Some [b64_byte (i * 4 + j div 16), b64_byte (j mod 16 * 16 + k div 4)] else None)
            else (case b64_value s of None \<Rightarrow> None | Some l \<Rightarrow>
              map_option (\<lambda>bs. b64_byte (i * 4 + j div 16) # b64_byte (j mod 16 * 16 + k div 4) #
                  b64_byte (k mod 4 * 64 + l) # bs) (unbase64 cs)))
      | _ \<Rightarrow> None)"
| "unbase64 _ = None"

lemma alphabet_length: "length encodingTable = 64"
  by (simp add: encodingTable_def)

lemma alphabet_distinct: "distinct encodingTable"
  by (simp add: encodingTable_def)

lemma equals_not_digit: "CHR ''='' \<notin> set encodingTable"
  by (simp add: encodingTable_def)

lemma takeWhile_nth_distinct:
  "distinct xs \<Longrightarrow> n < length xs \<Longrightarrow> length (takeWhile (\<lambda>x. x \<noteq> xs ! n) xs) = n"
proof (induction xs arbitrary: n)
  case (Cons x xs) then show ?case by (cases n) (auto simp: nth_mem)
qed simp

lemma b64_value_digit [simp]: "n < 64 \<Longrightarrow> b64_value (b64_digit n) = Some n"
  using takeWhile_nth_distinct [OF alphabet_distinct, of n]
  by (simp add: b64_value_def b64_digit_def alphabet_length)

lemma b64_digit_not_equals [simp]: "n < 64 \<Longrightarrow> b64_digit n \<noteq> CHR ''=''"
  using equals_not_digit by (metis b64_digit_def alphabet_length nth_mem)

lemma base64_length: "length (base64 bs) = 4 * ((length bs + 2) div 3)"
proof (induction bs rule: base64.induct)
  case (4 a b c bs)
  have "(length (a # b # c # bs) + 2) div 3 = Suc ((length bs + 2) div 3)" by simp
  then show ?case using 4 by (simp add: Let_def)
qed (simp_all add: Let_def)

lemma b64_byte_eq: "n = unat a \<Longrightarrow> b64_byte n = a"
  by (simp add: b64_byte_def)

lemma digits64:
  fixes p q r t n :: nat
  assumes "q < 64" "r < 64" "t < 64" and n: "n = ((p * 64 + q) * 64 + r) * 64 + t"
  shows "n div 262144 = p" "n div 4096 mod 64 = q" "n div 64 mod 64 = r" "n mod 64 = t"
proof -
  have d: "(x * 64 + y) div 64 = x" "(x * 64 + y) mod 64 = y" if "y < 64" for x y :: nat using that by simp_all
  have 1: "n div 64 = (p * 64 + q) * 64 + r" "n mod 64 = t" unfolding n using d assms(3) by blast+
  have 2: "n div 4096 = n div 64 div 64" "n div 262144 = n div 64 div 64 div 64"
    by (simp_all add: div_mult2_eq [symmetric])
  show "n div 262144 = p" "n div 4096 mod 64 = q" "n div 64 mod 64 = r" "n mod 64 = t"
    unfolding 2 1 d [OF assms(1)] d [OF assms(2)] by simp_all
qed

lemma join3_digits:
  fixes a b c :: nat
  assumes "a = 4 * a1 + a0" "b = 16 * b1 + b0" "c = 64 * c1 + c0"
  shows "((a1 * 64 + (a0 * 16 + b1)) * 64 + (b0 * 4 + c1)) * 64 + c0 = (a * 256 + b) * 256 + c"
  unfolding assms by simp

lemma join3:
  fixes a b c :: nat
  shows "((a div 4 * 64 + (a mod 4 * 16 + b div 16)) * 64 + (b mod 16 * 4 + c div 64)) * 64 + c mod 64
    = (a * 256 + b) * 256 + c"
  by (rule join3_digits) simp_all

lemma join2_digits:
  fixes a b :: nat
  assumes "a = 4 * a1 + a0" "b = 16 * b1 + b0"
  shows "((0 * 64 + a1) * 64 + (a0 * 16 + b1)) * 64 + b0 * 4 = (a * 256 + b) * 4"
  unfolding assms by simp

lemma join2:
  fixes a b :: nat
  shows "((0 * 64 + a div 4) * 64 + (a mod 4 * 16 + b div 16)) * 64 + b mod 16 * 4 = (a * 256 + b) * 4"
  by (rule join2_digits) simp_all

lemma join1_digits:
  fixes a :: nat
  assumes "a = 4 * a1 + a0"
  shows "((0 * 64 + 0) * 64 + a1) * 64 + a0 * 16 = a * 16"
  unfolding assms by simp

lemma join1:
  fixes a :: nat
  shows "((0 * 64 + 0) * 64 + a div 4) * 64 + a mod 4 * 16 = a * 16"
  by (rule join1_digits) simp

lemma sextet_bounds:
  "unat (a :: u8) div 4 < 64" "unat a mod 4 * 16 < 64" "unat a mod 4 * 16 + unat (b :: u8) div 16 < 64"
  "unat b mod 16 * 4 < 64" "unat b mod 16 * 4 + unat (c :: u8) div 64 < 64" "unat c mod 64 < 64"
  "unat b div 16 < 16" "unat c div 64 < 4"
  using mod_less_divisor [of 4 "unat a"] less_mult_imp_div_less [of "unat a" 64 4] unat_u8_less [of a]
    less_mult_imp_div_less [of "unat b" 16 16] unat_u8_less [of b]
    mod_less_divisor [of 16 "unat b"] less_mult_imp_div_less [of "unat c" 4 64] unat_u8_less [of c]
  by linarith+

lemmas sextets1 = digits64 [OF _ sextet_bounds(1,2) join1 [symmetric], simplified]
lemmas sextets2 = digits64 [OF sextet_bounds(1,3,4) join2 [symmetric], simplified]
lemmas sextets3 = digits64 [OF sextet_bounds(3,5,6) join3 [symmetric], simplified]

lemma unbase64_base64: "unbase64 (base64 bs) = Some bs"
proof (induction bs rule: base64.induct)
  case (2 a)
  then show ?case by (simp add: Let_def b64_byte_eq sextets1 sextet_bounds)
next
  case (3 a b)
  then show ?case by (simp add: Let_def b64_byte_eq sextets2 sextet_bounds)
next
  case (4 a b c bs)
  then show ?case by (simp add: Let_def b64_byte_eq sextets3 sextet_bounds)
qed simp

subsection \<open>The code writes base64\<close>

text \<open>The sextets the code takes with masks and shifts.\<close>

lemma sextet_masks:
  fixes a b c :: u8
  shows "unat (drop_bit 2 (a AND 0xFC)) = unat a div 4"
    and "unat (push_bit 4 (a AND 0x03) OR drop_bit 4 (b AND 0xF0)) = unat a mod 4 * 16 + unat b div 16"
    and "unat (push_bit 2 (b AND 0x0F) OR drop_bit 6 (c AND 0xC0)) = unat b mod 16 * 4 + unat c div 64"
    and "unat (c AND 0x3F) = unat c mod 64"
proof -
  have hi: "drop_bit 2 (a AND 0xFC) = drop_bit 2 a" "drop_bit 4 (b AND 0xF0) = drop_bit 4 b"
    "drop_bit 6 (c AND 0xC0) = drop_bit 6 c"
    by (rule bit_word_eqI; auto simp: bit_simps bit_numeral_rec less_Suc_eq numeral_eq_Suc dest: bit_imp_le_length)+
  have lo: "a AND 0x03 = take_bit 2 a" "b AND 0x0F = take_bit 4 b" "c AND 0x3F = take_bit 6 c"
    by (simp_all add: take_bit_eq_mask mask_eq_exp_minus_1)
  have m: "(push_bit 4 (take_bit 2 a) :: u8) OR drop_bit 4 b = push_bit 4 (take_bit 2 a) + drop_bit 4 b"
    "(push_bit 2 (take_bit 4 b) :: u8) OR drop_bit 6 c = push_bit 2 (take_bit 4 b) + drop_bit 6 c"
    by (subst disjunctive_add; auto simp: bit_simps dest: bit_imp_le_length)+
  show "unat (drop_bit 2 (a AND 0xFC)) = unat a div 4"
    unfolding hi unsigned_drop_bit_eq by (simp add: drop_bit_eq_div take_bit_nat_eq_self unat_u8_less)
  show "unat (c AND 0x3F) = unat c mod 64"
    unfolding lo unsigned_take_bit_eq by (simp add: take_bit_eq_mod)
  show "unat (push_bit 4 (a AND 0x03) OR drop_bit 4 (b AND 0xF0)) = unat a mod 4 * 16 + unat b div 16"
    unfolding hi lo m using sextet_bounds(2) [of a] sextet_bounds(3) [of a b] sextet_bounds(7) [of b]
    by (simp add: unat_word_ariths unsigned_drop_bit_eq drop_bit_eq_div unsigned_take_bit_eq
        take_bit_eq_mod push_bit_eq_mult unat_mod)
  show "unat (push_bit 2 (b AND 0x0F) OR drop_bit 6 (c AND 0xC0)) = unat b mod 16 * 4 + unat c div 64"
    unfolding hi lo m using sextet_bounds(4) [of b] sextet_bounds(5) [of b c] sextet_bounds(8) [of c]
    by (simp add: unat_word_ariths unsigned_drop_bit_eq drop_bit_eq_div unsigned_take_bit_eq
        take_bit_eq_mod push_bit_eq_mult unat_mod)
qed

text \<open>Writing while there is room keeps a prefix of what would be written.\<close>

lemma put_char_take: "put_char sz c (take (nat (sz - 1)) xs) = take (nat (sz - 1)) (xs @ [c])"
  by (auto simp: put_char_def min_def)

lemma enc_char_digit: "enc_char w = b64_digit (unat w)"
  by (simp add: enc_char_def b64_digit_def)

lemma put_group_take:
  "put_group sz [a, b, c] 0 (take (nat (sz - 1)) xs) = take (nat (sz - 1)) (xs @ base64 [a, b, c])"
  "put_group sz [a, b, 0] 1 (take (nat (sz - 1)) xs) = take (nat (sz - 1)) (xs @ base64 [a, b])"
  "put_group sz [a, 0, 0] 2 (take (nat (sz - 1)) xs) = take (nat (sz - 1)) (xs @ base64 [a])"
proof -
  have n: "[x, y, z] ! 0 = x" "[x, y, z] ! 1 = y" "[x, y, z] ! 2 = z" for x y z :: u8 by simp_all
  have G: "put_group sz [x, y, z] fill (take (nat (sz - 1)) xs) = take (nat (sz - 1)) (xs @
      [b64_digit (unat x div 4), b64_digit (unat x mod 4 * 16 + unat y div 16),
       if fill = 2 then CHR ''='' else b64_digit (unat y mod 16 * 4 + unat z div 64),
       if 1 \<le> fill then CHR ''='' else b64_digit (unat z mod 64)])" for x y z fill
    unfolding put_group_def Let_def n enc_char_digit sextet_masks put_char_take append_assoc append_Cons append_Nil
    by (rule refl)
  show "put_group sz [a, b, c] 0 (take (nat (sz - 1)) xs) = take (nat (sz - 1)) (xs @ base64 [a, b, c])"
    "put_group sz [a, b, 0] 1 (take (nat (sz - 1)) xs) = take (nat (sz - 1)) (xs @ base64 [a, b])"
    "put_group sz [a, 0, 0] 2 (take (nat (sz - 1)) xs) = take (nat (sz - 1)) (xs @ base64 [a])"
    unfolding G by (simp_all add: Let_def sextets1 sextets2 sextets3)
qed

lemma base64_group: "length g = 3 \<Longrightarrow> base64 (g @ bs) = base64 g @ base64 bs"
  by (cases g rule: base64.cases) (auto simp: Let_def)

text \<open>
  What the code encodes: the separator is only written when a round has room for it after the user,
  so it is lost when the password is empty and the user's length is a multiple of three.
\<close>

definition credentials :: "string \<Rightarrow> string \<Rightarrow> string" where
  "credentials user pwd = (if pwd = [] \<and> length user mod 3 = 0 then user else user @ '':'' @ pwd)"

definition left_over :: "string \<Rightarrow> string \<Rightarrow> bool \<Rightarrow> string" where
  "left_over user pwd sep = (if sep then pwd else credentials user pwd)"

lemma left_over_Nil: "sep \<longrightarrow> user = [] \<Longrightarrow> left_over user pwd sep = [] \<longleftrightarrow> user = [] \<and> pwd = []"
  by (auto simp: left_over_def credentials_def)

lemma fill_inbuf_left:
  assumes "sep \<longrightarrow> user = []" and "\<not> (user = [] \<and> pwd = [])"
    and "fill_inbuf user pwd sep = (inbuf, n, user', pwd', sep')"
  shows "inbuf = map byte_of_char (take 3 (left_over user pwd sep)) @ replicate n 0"
    and "n = 3 - length (left_over user pwd sep)"
    and "left_over user' pwd' sep' = drop 3 (left_over user pwd sep)" and "sep' \<longrightarrow> user' = []"
proof -
  let ?t = "left_over user pwd sep"
  have F: "inbuf = map byte_of_char (take 3 ?t) @ replicate n 0 \<and> n = 3 - length ?t \<and>
      left_over user' pwd' sep' = drop 3 ?t \<and> (sep' \<longrightarrow> user' = [])"
  proof (cases "3 \<le> length user")
    case True
    then have "fill_inbuf user pwd sep = (map byte_of_char (take 3 user), 0, drop 3 user, pwd, False)"
      using assms(1) by (auto simp: fill_inbuf_def Let_def)
    moreover have "(length user - 3) mod 3 = length user mod 3" using True by (simp add: mod_if)
    ultimately show ?thesis using assms(1,3) True by (auto simp: left_over_def credentials_def)
  next
    case False
    define b where "b = (if sep then user else user @ '':'')"
    have "sep \<or> length user mod 3 \<noteq> 0 \<or> pwd \<noteq> []" using False assms(2)
      by (cases "length user = 0") auto
    then have t: "?t = b @ pwd" using assms(1) by (auto simp: left_over_def credentials_def b_def)
    have b: "length b \<le> 3" using False by (simp add: b_def)
    have "fill_inbuf user pwd sep = (map byte_of_char (b @ take (3 - length b) pwd) @
        replicate (3 - length (b @ take (3 - length b) pwd)) 0, 3 - length (b @ take (3 - length b) pwd),
        [], drop (3 - length b) pwd, True)"
      using False by (simp add: fill_inbuf_def b_def Let_def)
    moreover have "take 3 ?t = b @ take (3 - length b) pwd" "drop 3 ?t = drop (3 - length b) pwd"
      "3 - length (b @ take (3 - length b) pwd) = 3 - length ?t"
      using b by (simp_all add: t)
    ultimately show ?thesis using assms(3) by (simp add: left_over_def)
  qed
  then show "inbuf = map byte_of_char (take 3 ?t) @ replicate n 0" "n = 3 - length ?t"
    "left_over user' pwd' sep' = drop 3 ?t" "sep' \<longrightarrow> user' = []" by blast+
qed

lemma encode_loop_base64:
  assumes "sep \<longrightarrow> user = []"
  shows "encode_loop sz user pwd sep 0 (take (nat (sz - 1)) xs) bytes =
     (take (nat (sz - 1)) (xs @ base64 (map byte_of_char (left_over user pwd sep))),
      bytes + length (base64 (map byte_of_char (left_over user pwd sep))))"
  using assms
proof (induction "length user + length pwd" arbitrary: user pwd sep xs bytes rule: less_induct)
  case less
  let ?t = "left_over user pwd sep" and ?N = "nat (sz - 1)"
  show ?case
  proof (cases "user = [] \<and> pwd = []")
    case True
    then show ?thesis by (simp add: left_over_Nil encode_loop.simps left_over_def credentials_def)
  next
    case False
    obtain inbuf n user' pwd' sep' where f: "fill_inbuf user pwd sep = (inbuf, n, user', pwd', sep')"
      by (metis prod_cases5)
    note L = fill_inbuf_left [OF less.prems False f]
    have step: "encode_loop sz user pwd sep 0 (take ?N xs) bytes =
        encode_loop sz user' pwd' sep' n (put_group sz inbuf n (take ?N xs)) (bytes + 4)"
      by (simp only: encode_loop.simps [of sz user pwd sep 0 "take ?N xs" bytes] f False if_False prod.case add_0)
    have pad: "replicate 2 (0 :: u8) = [0, 0]" "replicate 1 (0 :: u8) = [0]" by (simp_all add: numeral_2_eq_2)
    have t: "?t \<noteq> []" using False left_over_Nil less.prems by blast
    show ?thesis
    proof (cases "length ?t < 3")
      case True
      then have "user' = [] \<and> pwd' = []" using L(3,4) left_over_Nil by force
      moreover consider x where "?t = [x]" | x y where "?t = [x, y]"
        using True t by (cases ?t; cases "tl ?t") auto
      then have "put_group sz inbuf n (take ?N xs) = take ?N (xs @ base64 (map byte_of_char ?t))
          \<and> length (base64 (map byte_of_char ?t)) = 4"
        using L(1,2) pad by cases (simp_all add: put_group_take base64_length del: take_append base64.simps One_nat_def)
      ultimately show ?thesis unfolding step by (simp add: encode_loop.simps)
    next
      case False
      then have n: "n = 0" using L(2) by simp
      let ?g = "map byte_of_char (take 3 ?t)"
      have g: "length ?g = 3" using False by simp
      then obtain a b c where abc: "?g = [a, b, c]" by (cases ?g rule: base64.cases) simp_all
      have "inbuf = ?g" using L(1) unfolding n by simp
      then have "put_group sz inbuf n (take ?N xs) = take ?N (xs @ base64 ?g)"
        unfolding n abc using put_group_take(1) by blast
      moreover have "base64 (map byte_of_char ?t) = base64 ?g @ base64 (map byte_of_char (drop 3 ?t))"
        using base64_group [OF g, of "map byte_of_char (drop 3 ?t)"] by (simp flip: map_append)
      moreover have "length (base64 ?g) = 4" using g by (simp add: base64_length)
      moreover have "length user' + length pwd' < length user + length pwd"
        using fill_inbuf_less [OF _ f] \<open>\<not> (user = [] \<and> pwd = [])\<close> by blast
      note less.hyps [OF this L(4)]
      ultimately show ?thesis unfolding step n by (simp add: L(3) del: take_append)
    qed
  qed
qed

lemma encode_result:
  "encode_login sz user pwd =
     (let t = base64 (map byte_of_char (credentials user pwd))
      in (take (nat (sz - 1)) t @ (if 0 < sz then [CHR 0x00] else []), length t))"
  using encode_loop_base64 [of False user sz pwd "[]" 0]
  by (auto simp: encode_login_def left_over_def Let_def min_def)

text \<open>
  The credentials go out in base64: \<open>encode\<close> writes as much of the base64 text of the credentials
  as fits into \<open>sz - 1\<close> characters and a final zero, never a byte beyond the buffer, and returns the
  length of the whole text.
\<close>

theorem encode_base64:
  "encode_login sz user pwd =
     (let t = base64 (map byte_of_char (credentials user pwd))
      in (take (nat (sz - 1)) t @ (if 0 < sz then [CHR 0x00] else []), length t))"
  by (rule encode_result)

lemma encode_fits:
  assumes "int (snd (encode_login sz user pwd)) < sz"
  shows "unbase64 (butlast (fst (encode_login sz user pwd))) = Some (map byte_of_char (credentials user pwd))"
  using assms by (simp add: encode_result Let_def unbase64_base64)

text \<open>
  A caster that decodes a login which fitted into the buffer gets the user, a colon and the
  password back, unless the password is empty and the user's length is a multiple of three.
\<close>

theorem login_recovered:
  assumes "int (snd (encode_login sz user pwd)) < sz" and "pwd \<noteq> [] \<or> length user mod 3 \<noteq> 0"
  shows "unbase64 (butlast (fst (encode_login sz user pwd))) = Some (map byte_of_char (user @ '':'' @ pwd))"
  using encode_fits [OF assms(1)] assms(2) by (auto simp: credentials_def)

theorem login_recovered_witness:
  "unbase64 (butlast (fst (encode_login 40 ''hnu'' ''secret''))) = Some (map byte_of_char ''hnu:secret'')"
proof -
  have "int (snd (encode_login 40 ''hnu'' ''secret'')) < 40" by code_simp
  from login_recovered [OF this] show ?thesis by simp
qed

text \<open>
  In the remaining case no colon is sent: the caster sees a login without a password field.
\<close>

theorem empty_password_drops_colon:
  assumes "int (snd (encode_login sz user [])) < sz" and "length user mod 3 = 0"
  shows "unbase64 (butlast (fst (encode_login sz user []))) = Some (map byte_of_char user)"
  using encode_fits [OF assms(1)] assms(2) by (simp add: credentials_def)

end
