(* ===== verification/SerialPort.thy ===== *)
theory SerialPort
  imports CxxString
begin

text \<open>
  The serial port of the positioning node, \<open>src/Dgps/src/serial.h\<close> and \<open>serial.cpp\<close>. The numbers
  behind \<open>B9600\<close>, \<open>CS8\<close> and the other constants of \<open>termios.h\<close> are those of Linux. What a system
  call answers is an argument of the operation that makes it.
\<close>

subsection \<open>Settings\<close>

datatype SerialBaud = SPABAUD_50 | SPABAUD_110 | SPABAUD_300 | SPABAUD_600 | SPABAUD_1200
  | SPABAUD_2400 | SPABAUD_4800 | SPABAUD_9600 | SPABAUD_19200 | SPABAUD_38400
  | SPABAUD_57600 | SPABAUD_115200 | SPABAUD_460800

datatype SerialDatabits = SPADATABITS_5 | SPADATABITS_6 | SPADATABITS_7 | SPADATABITS_8

datatype SerialStopbits = SPASTOPBITS_1 | SPASTOPBITS_2

datatype SerialParity = SPAPARITY_NONE | SPAPARITY_ODD | SPAPARITY_EVEN

datatype SerialProtocol = SPAPROTOCOL_NONE | SPAPROTOCOL_RTS_CTS | SPAPROTOCOL_XON_XOFF

definition CBAUD :: u32 where "CBAUD = 0x100F"
definition CSIZE :: u32 where "CSIZE = 0x30"
definition CSTOPB :: u32 where "CSTOPB = 0x40"
definition CREAD :: u32 where "CREAD = 0x80"
definition PARENB :: u32 where "PARENB = 0x100"
definition PARODD :: u32 where "PARODD = 0x200"
definition CLOCAL :: u32 where "CLOCAL = 0x800"
definition CRTSCTS :: u32 where "CRTSCTS = 0x80000000"
definition IXON :: u32 where "IXON = 0x400"
definition IXOFF :: u32 where "IXOFF = 0x1000"

fun baud_value :: "SerialBaud \<Rightarrow> u32" where
  "baud_value SPABAUD_50 = 1"
| "baud_value SPABAUD_110 = 3"
| "baud_value SPABAUD_300 = 7"
| "baud_value SPABAUD_600 = 8"
| "baud_value SPABAUD_1200 = 9"
| "baud_value SPABAUD_2400 = 11"
| "baud_value SPABAUD_4800 = 12"
| "baud_value SPABAUD_9600 = 13"
| "baud_value SPABAUD_19200 = 14"
| "baud_value SPABAUD_38400 = 15"
| "baud_value SPABAUD_57600 = 0x1001"
| "baud_value SPABAUD_115200 = 0x1002"
| "baud_value SPABAUD_460800 = 0x1004"

fun databits_value :: "SerialDatabits \<Rightarrow> u32" where
  "databits_value SPADATABITS_5 = 0"
| "databits_value SPADATABITS_6 = 0x10"
| "databits_value SPADATABITS_7 = 0x20"
| "databits_value SPADATABITS_8 = 0x30"

fun stopbits_value :: "SerialStopbits \<Rightarrow> u32" where
  "stopbits_value SPASTOPBITS_1 = 0"
| "stopbits_value SPASTOPBITS_2 = CSTOPB"

fun parity_value :: "SerialParity \<Rightarrow> u32" where
  "parity_value SPAPARITY_NONE = 0"
| "parity_value SPAPARITY_ODD = PARODD OR PARENB"
| "parity_value SPAPARITY_EVEN = PARENB"

fun protocol_value :: "SerialProtocol \<Rightarrow> u32" where
  "protocol_value SPAPROTOCOL_NONE = 0"
| "protocol_value SPAPROTOCOL_RTS_CTS = 9999"
| "protocol_value SPAPROTOCOL_XON_XOFF = IXOFF OR IXON"

subsection \<open>Reading settings\<close>

definition to_lower :: "char \<Rightarrow> char" where
  "to_lower c = (let n = of_char c :: nat in if 65 \<le> n \<and> n \<le> 90 then char_of (n + 32) else c)"

text \<open>\<open>!strncasecmp(a, b, n)\<close> on strings without a zero byte.\<close>

definition same_word :: "string \<Rightarrow> string \<Rightarrow> nat \<Rightarrow> bool" where
  "same_word a b n \<longleftrightarrow> map to_lower (take n a) = map to_lower (take n b)"

text \<open>\<open>*buf\<close>: the first character, the final zero of an empty string.\<close>

definition first :: "string \<Rightarrow> char" where
  "first buf = (case buf of [] \<Rightarrow> CHR 0x00 | c # _ \<Rightarrow> c)"

definition SerialGetParity :: "string \<Rightarrow> SerialParity \<times> int" where
  "SerialGetParity buf =
     (if same_word buf ''none'' 4 then (SPAPARITY_NONE, 4)
      else if same_word buf ''no'' 2 then (SPAPARITY_NONE, 2)
      else if same_word buf ''odd'' 3 then (SPAPARITY_ODD, 3)
      else if same_word buf ''even'' 4 then (SPAPARITY_EVEN, 4)
      else if first buf = CHR ''N'' \<or> first buf = CHR ''n'' then (SPAPARITY_NONE, 1)
      else if first buf = CHR ''O'' \<or> first buf = CHR ''o'' then (SPAPARITY_ODD, 1)
      else if first buf = CHR ''E'' \<or> first buf = CHR ''e'' then (SPAPARITY_EVEN, 1)
      else (SPAPARITY_NONE, 0))"

definition SerialGetProtocol :: "string \<Rightarrow> SerialProtocol \<times> int" where
  "SerialGetProtocol buf =
     (if same_word ''xonxoff'' buf 7 then (SPAPROTOCOL_XON_XOFF, 7)
      else if same_word ''xon_xoff'' buf 8 then (SPAPROTOCOL_XON_XOFF, 8)
      else if same_word ''xon-xoff'' buf 8 then (SPAPROTOCOL_XON_XOFF, 8)
      else if same_word ''xon xoff'' buf 8 then (SPAPROTOCOL_XON_XOFF, 8)
      else if same_word ''xoff'' buf 4 then (SPAPROTOCOL_XON_XOFF, 4)
      else if same_word ''xon'' buf 3 then (SPAPROTOCOL_XON_XOFF, 3)
      else if first buf = CHR ''x'' \<or> first buf = CHR ''X'' then (SPAPROTOCOL_XON_XOFF, 1)
      else if same_word ''rtscts'' buf 6 then (SPAPROTOCOL_RTS_CTS, 6)
      else if same_word ''rts_cts'' buf 7 then (SPAPROTOCOL_RTS_CTS, 7)
      else if same_word ''rts-cts'' buf 7 then (SPAPROTOCOL_RTS_CTS, 7)
      else if same_word ''rts cts'' buf 7 then (SPAPROTOCOL_RTS_CTS, 7)
      else if same_word ''rts'' buf 3 then (SPAPROTOCOL_RTS_CTS, 3)
      else if same_word ''cts'' buf 3 then (SPAPROTOCOL_RTS_CTS, 3)
      else if first buf = CHR ''r'' \<or> first buf = CHR ''R'' \<or> first buf = CHR ''c'' \<or> first buf = CHR ''C''
        then (SPAPROTOCOL_RTS_CTS, 1)
      else if same_word ''none'' buf 4 then (SPAPROTOCOL_NONE, 4)
      else if same_word ''no'' buf 2 then (SPAPROTOCOL_NONE, 2)
      else if first buf = CHR ''n'' \<or> first buf = CHR ''N'' then (SPAPROTOCOL_NONE, 1)
      else (SPAPROTOCOL_NONE, 0))"

subsection \<open>The port\<close>

text \<open>
  The saved \<open>Termios\<close> is kept as its control flags. An event is a system call with its descriptor.
\<close>

record serial =
  Termios :: u32
  Stream :: int
  isOpen :: bool

datatype serial_call =
  SetAttr int u32
| CloseFd int

definition closed_port :: serial where
  "closed_port = \<lparr>Termios = 0, Stream = 0, isOpen = False\<rparr>"

definition control_flags :: "SerialBaud \<Rightarrow> SerialStopbits \<Rightarrow> SerialProtocol \<Rightarrow> SerialParity \<Rightarrow> SerialDatabits \<Rightarrow> u32" where
  "control_flags baud stopbits protocol parity databits =
     (let c = baud_value baud OR stopbits_value stopbits OR parity_value parity OR databits_value databits
          OR CLOCAL OR CREAD
      in if protocol = SPAPROTOCOL_RTS_CTS then c OR CRTSCTS else c OR protocol_value protocol)"

text \<open>\<open>fd\<close> is what \<open>open\<close> answers, \<open>old\<close> what \<open>tcgetattr\<close> reads.\<close>

definition SerialInit :: "SerialBaud \<Rightarrow> SerialStopbits \<Rightarrow> SerialProtocol \<Rightarrow> SerialParity \<Rightarrow> SerialDatabits
    \<Rightarrow> int \<Rightarrow> u32 \<Rightarrow> serial \<Rightarrow> string option \<times> serial \<times> serial_call list" where
  "SerialInit baud stopbits protocol parity databits fd old sn =
     (if fd < 0 then (Some ''could not open serial port'', sn\<lparr>Stream := fd, isOpen := False\<rparr>, [])
      else (None, sn\<lparr>Stream := fd, Termios := old, isOpen := True\<rparr>,
            [SetAttr fd (control_flags baud stopbits protocol parity databits)]))"

definition SerialFree :: "serial \<Rightarrow> serial \<times> serial_call list" where
  "SerialFree sn =
     (if Stream sn \<noteq> 0 then (sn\<lparr>Stream := 0\<rparr>, [SetAttr (Stream sn) (Termios sn), CloseFd (Stream sn)])
      else (sn, []))"

text \<open>What \<open>read\<close> and \<open>write\<close> answer: a number of bytes, or -1 with \<open>EAGAIN\<close> or another error.\<close>

datatype io_answer = Bytes nat | Again | Failed

definition io_result :: "io_answer \<Rightarrow> int" where
  "io_result r = (case r of Bytes n \<Rightarrow> int n | Again \<Rightarrow> 0 | Failed \<Rightarrow> -1)"

definition SerialRead :: "serial \<Rightarrow> io_answer \<Rightarrow> int" where
  "SerialRead sn r = (if \<not> isOpen sn then -110 else io_result r)"

definition SerialWrite :: "serial \<Rightarrow> io_answer \<Rightarrow> int" where
  "SerialWrite sn r = (if \<not> isOpen sn then -110 else io_result r)"

subsection \<open>What the device is told\<close>

lemmas flag_defs = CBAUD_def CSIZE_def CSTOPB_def CREAD_def PARENB_def PARODD_def CLOCAL_def
  CRTSCTS_def IXON_def IXOFF_def

text \<open>
  Without software flow control the port gets the speed, stop bits, parity and data bits that were
  asked for: each reads back from its field of the control flags.
\<close>

theorem line_settings:
  assumes "protocol \<noteq> SPAPROTOCOL_XON_XOFF"
  shows "control_flags baud stopbits protocol parity databits AND CBAUD = baud_value baud \<and>
    control_flags baud stopbits protocol parity databits AND CSTOPB = stopbits_value stopbits \<and>
    control_flags baud stopbits protocol parity databits AND (PARENB OR PARODD) = parity_value parity \<and>
    control_flags baud stopbits protocol parity databits AND CSIZE = databits_value databits"
  using assms
  by (cases baud; cases stopbits; cases parity; cases databits; cases protocol)
    (simp_all add: control_flags_def flag_defs Let_def)

theorem line_settings_witness:
  "control_flags SPABAUD_115200 SPASTOPBITS_1 SPAPROTOCOL_NONE SPAPARITY_NONE SPADATABITS_8 AND CBAUD = 0x1002"
  using line_settings [of SPAPROTOCOL_NONE SPABAUD_115200] by simp

text \<open>
  The flags of software flow control belong to the input flags, but the code sets them among the
  control flags, where one of them selects the high speeds: asking for \<open>xonxoff\<close> at 38400 baud or less
  sets another speed.
\<close>

theorem xonxoff_changes_speed:
  assumes "baud_value baud < 0x1000"
  shows "control_flags baud stopbits SPAPROTOCOL_XON_XOFF parity databits AND CBAUD = 0x1000 OR baud_value baud \<and>
    0x1000 OR baud_value baud \<noteq> baud_value baud"
  using assms
  by (cases baud; cases stopbits; cases parity; cases databits)
    (simp_all add: control_flags_def flag_defs Let_def)

theorem xonxoff_changes_speed_witness:
  "control_flags SPABAUD_9600 SPASTOPBITS_1 SPAPROTOCOL_XON_XOFF SPAPARITY_NONE SPADATABITS_8 AND CBAUD = 0x100D"
  using xonxoff_changes_speed [of SPABAUD_9600] by simp

text \<open>After \<open>SerialFree\<close> the port still counts as open, with descriptor 0, the standard input.\<close>

theorem freed_port_reads_stdin:
  "isOpen sn \<Longrightarrow> isOpen (fst (SerialFree sn)) \<and> Stream (fst (SerialFree sn)) = 0"
  by (simp add: SerialFree_def)

end
