(* ===== verification/NtripArgs.thy ===== *)
theory NtripArgs
  imports SerialPort
begin

text \<open>
  The options of the NTRIP client, \<open>src/Dgps/src/ntrip.h\<close> and the first part of
  \<open>src/Dgps/src/ntripclient.cpp\<close>: \<open>struct Args\<close>, the URL forms \<open>encodeurl\<close> and \<open>geturl\<close>, and the
  option loop of \<open>getargs\<close> over what \<open>getopt_long\<close> delivers. A C string is the list of its characters
  without the final zero, \<open>char\<close> is signed, a null pointer is \<open>None\<close>. The buffer that \<open>geturl\<close> fills is
  known by how many of its bytes are in use.
\<close>

subsection \<open>Args\<close>

record args =
  a_server :: string
  a_port :: string
  a_user :: string
  a_proxyhost :: "string option"
  a_proxyport :: string
  a_password :: string
  a_nmea :: "string option"
  a_data :: "string option"
  a_bitrate :: int
  a_mode :: int
  a_udpport :: int
  a_initudp :: int
  a_baud :: SerialBaud
  a_databits :: SerialDatabits
  a_stopbits :: SerialStopbits
  a_parity :: SerialParity
  a_protocol :: SerialProtocol
  a_serdevice :: "string option"
  a_serlogfile :: "string option"

definition HTTP :: int where "HTTP = 1"
definition RTSP :: int where "RTSP = 2"
definition NTRIP1 :: int where "NTRIP1 = 3"
definition AUTO :: int where "AUTO = 4"
definition UDP :: int where "UDP = 5"
definition END :: int where "END = 6"

lemmas mode_defs = HTTP_def RTSP_def NTRIP1_def AUTO_def UDP_def END_def

subsection \<open>Percent encoding\<close>

definition is_alnum :: "char \<Rightarrow> bool" where
  "is_alnum c \<longleftrightarrow> (let n = of_char c :: nat in 48 \<le> n \<and> n \<le> 57 \<or> 65 \<le> n \<and> n \<le> 90 \<or> 97 \<le> n \<and> n \<le> 122)"

definition is_plain :: "char \<Rightarrow> bool" where
  "is_plain c \<longleftrightarrow> is_alnum c \<or> c = CHR ''-'' \<or> c = CHR ''_'' \<or> c = CHR ''.''"

text \<open>
  What one character becomes. For a character beyond 127, negative as a \<open>char\<close>, \<open>h[*req >> 4]\<close> reads
  before the table.
\<close>

definition pct_char :: "char \<Rightarrow> error + string" where
  "pct_char c =
     (let n = of_char c :: nat in
      if 128 \<le> n then Inl OutOfBounds
      else if is_plain c then Inr [c]
      else Inr [CHR ''%'', ''0123456789abcdef'' ! (n div 16), ''0123456789abcdef'' ! (n mod 16)])"

text \<open>The loop of \<open>encodeurl\<close>: it goes on while at least three bytes of the 128 are free for text.\<close>

fun encodeurl_loop :: "string \<Rightarrow> string \<Rightarrow> error + string" where
  "encodeurl_loop [] buf = Inr buf"
| "encodeurl_loop (c # req) buf =
     (if length buf < 125 then
        (case pct_char c of Inl e \<Rightarrow> Inl e | Inr t \<Rightarrow> encodeurl_loop req (buf @ t))
      else Inr buf)"

definition encodeurl :: "string \<Rightarrow> error + string" where
  "encodeurl req = encodeurl_loop req []"

subsection \<open>The URL\<close>

definition BUFSIZE :: nat where "BUFSIZE = 1000"

text \<open>A stage fails with undefined behaviour, with the message it returns, or goes on.\<close>

datatype 'a parsed = Fault error | Bad string | Good 'a

fun p_bind :: "'a parsed \<Rightarrow> ('a \<Rightarrow> 'b parsed) \<Rightarrow> 'b parsed" where
  "p_bind (Fault e) f = Fault e"
| "p_bind (Bad m) f = Bad m"
| "p_bind (Good x) f = f x"

text \<open>
  \<open>while(*url && *url is none of the stops && Buffer != Bufend) *(Buffer++) = *(url++)\<close>: the text, what is
  left of the URL, and how much of the buffer is in use.
\<close>

fun copy_until :: "string \<Rightarrow> nat \<Rightarrow> string \<Rightarrow> string \<times> string \<times> nat" where
  "copy_until stops n [] = ([], [], n)"
| "copy_until stops n (c # url) =
     (if c \<in> set stops \<or> n = BUFSIZE then ([], c # url, n)
      else case copy_until stops (n + 1) url of (t, rest, k) \<Rightarrow> (c # t, rest, k))"

text \<open>A field that may not be empty, with the two checks after its loop.\<close>

definition url_field :: "string \<Rightarrow> string \<Rightarrow> nat \<Rightarrow> string \<Rightarrow> (string \<times> string \<times> nat) parsed" where
  "url_field stops msg n url =
     (case copy_until stops n url of (t, rest, k) \<Rightarrow>
        if t = [] then Bad msg
        else if BUFSIZE - 1 \<le> k then Bad ''Parsing buffer too short.''
        else Good (t, rest, k + 1))"

text \<open>The encoding loop for a source table filter: it only looks at \<open>Buffer != Bufend\<close>.\<close>

fun copy_encoded :: "nat \<Rightarrow> string \<Rightarrow> (string \<times> string \<times> nat) parsed" where
  "copy_encoded n [] = Good ([], [], n)"
| "copy_encoded n (c # url) =
     (if c = CHR ''@'' \<or> c = CHR ''/'' \<or> n = BUFSIZE then Good ([], c # url, n)
      else (case pct_char c of Inl e \<Rightarrow> Fault e
        | Inr t \<Rightarrow> if BUFSIZE < n + length t then Fault OutOfBounds
            else p_bind (copy_encoded (n + length t) url) (\<lambda>(t', rest, k). Good (t @ t', rest, k))))"

definition url_mountpoint :: "string \<times> args \<times> nat \<Rightarrow> (string \<times> args \<times> nat) parsed" where
  "url_mountpoint = (\<lambda>(url, args, n).
     if first url = CHR ''@'' \<or> first url = CHR ''/'' then Good (url, args, n)
     else p_bind
       (if first url \<noteq> CHR ''?'' then url_field ''@;/'' ''Mountpoint required.'' n url
        else p_bind (copy_encoded n url) (\<lambda>(t, rest, k).
          if t = [] then Bad ''Mountpoint required.''
          else if BUFSIZE - 1 \<le> k then Bad ''Parsing buffer too short.''
          else Good (t, rest, k + 1)))
       (\<lambda>(t, rest, k). Good (rest, args\<lparr>a_data := Some t\<rparr>, k)))"

definition url_login :: "string \<times> args \<times> nat \<Rightarrow> (string \<times> args \<times> nat) parsed" where
  "url_login = (\<lambda>(url, args, n).
     if first url = CHR ''/'' then
       p_bind (url_field ''@;:'' ''Username cannot be empty.'' n (tl url)) (\<lambda>(user, rest, k).
       p_bind (url_field ''@;'' ''Password cannot be empty.'' k
           (if first rest = CHR '':'' then tl rest else rest)) (\<lambda>(password, rest, k).
       Good (rest, args\<lparr>a_user := user, a_password := password\<rparr>, k)))
     else Good (url, args, n))"

definition url_server :: "string \<times> args \<times> nat \<Rightarrow> (string \<times> args \<times> nat) parsed" where
  "url_server = (\<lambda>(url, args, n).
     if first url \<noteq> CHR ''@'' \<and> first url \<noteq> CHR '':'' then
       p_bind (url_field ''@:;'' ''Servername cannot be empty.'' n url) (\<lambda>(server, rest, k).
       Good (rest, args\<lparr>a_server := server\<rparr>, k))
     else Good (url, args, n))"

definition url_port :: "string \<times> args \<times> nat \<Rightarrow> (string \<times> args \<times> nat) parsed" where
  "url_port = (\<lambda>(url, args, n).
     if first url = CHR '':'' then
       p_bind (url_field ''@;'' ''Port cannot be empty.'' n (tl url)) (\<lambda>(port, rest, k).
       Good (rest, args\<lparr>a_port := port\<rparr>, k))
     else Good (url, args, n))"

definition url_proxy :: "string \<times> args \<times> nat \<Rightarrow> (string \<times> args \<times> nat) parsed" where
  "url_proxy = (\<lambda>(url, args, n).
     if first url = CHR ''@'' then
       p_bind (url_field '':;'' ''Proxy servername cannot be empty.'' n (tl url)) (\<lambda>(proxyhost, rest, k).
       if first rest = CHR '':'' then
         p_bind (url_field '';'' ''Proxy port cannot be empty.'' k (tl rest)) (\<lambda>(proxyport, rest, k).
         Good (rest, args\<lparr>a_proxyhost := Some proxyhost, a_proxyport := proxyport\<rparr>, k))
       else Good (rest, args\<lparr>a_proxyhost := Some proxyhost\<rparr>, k))
     else Good (url, args, n))"

definition url_host :: "string \<times> args \<times> nat \<Rightarrow> (string \<times> args \<times> nat) parsed" where
  "url_host = (\<lambda>(url, args, n).
     if first url = CHR ''@'' then p_bind (p_bind (url_server (tl url, args, n)) url_port) url_proxy
     else Good (url, args, n))"

definition url_nmea :: "string \<times> args \<times> nat \<Rightarrow> (string \<times> args \<times> nat) parsed" where
  "url_nmea = (\<lambda>(url, args, n).
     if first url = CHR '';'' then Good ([], args\<lparr>a_nmea := Some (tl url)\<rparr>, n)
     else if url = [] then Good ([], args, n)
     else Bad ''Garbage at end of server string.'')"

text \<open>\<open>n\<close> bytes of the buffer are in use: it is static and never rewound.\<close>

definition geturl :: "string \<Rightarrow> args \<Rightarrow> nat \<Rightarrow> (args \<times> nat) parsed" where
  "geturl url args n =
     (if take 6 url \<noteq> ''ntrip:'' then Bad (''URL must start with '' @ [CHR 0x27] @ ''ntrip:'' @ [CHR 0x27, CHR ''.''])
      else p_bind (p_bind (p_bind (p_bind (url_mountpoint (drop 6 url, args, n)) url_login) url_host) url_nmea)
        (\<lambda>(_, args, n). Good (args, n)))"

subsection \<open>The option loop\<close>

text \<open>
  \<open>strtol\<close> with base 10 saturates at the bounds of \<open>long\<close> and gives 0 without digits; storing it in an
  \<open>int\<close> keeps the low 32 bits. \<open>atoi\<close> does the same.
\<close>

definition strtol10 :: "string \<Rightarrow> int" where
  "strtol10 s =
     (let (neg, s1) = strip_sign (dropWhile is_space s);
          v = int (dec_value (takeWhile is_digit s1))
      in max (- (2 ^ 63)) (min (2 ^ 63 - 1) (if neg then - v else v)))"

definition to_int32 :: "int \<Rightarrow> int" where
  "to_int32 v = (v + 2147483648) mod 4294967296 - 2147483648"

definition default_args :: args where
  "default_args = \<lparr>a_server = ''rtk.ntrip.qxwz.com'', a_port = ''8002'', a_user = [], a_proxyhost = None,
     a_proxyport = ''2101'', a_password = [], a_nmea = None, a_data = None, a_bitrate = 0, a_mode = AUTO,
     a_udpport = 0, a_initudp = 0, a_baud = SPABAUD_9600, a_databits = SPADATABITS_8,
     a_stopbits = SPASTOPBITS_1, a_parity = SPAPARITY_NONE, a_protocol = SPAPROTOCOL_NONE,
     a_serdevice = None, a_serlogfile = None\<rparr>"

definition baud_of :: "int \<Rightarrow> SerialBaud option" where
  "baud_of i =
     (if i = 50 then Some SPABAUD_50 else if i = 110 then Some SPABAUD_110
      else if i = 300 then Some SPABAUD_300 else if i = 600 then Some SPABAUD_600
      else if i = 1200 then Some SPABAUD_1200 else if i = 2400 then Some SPABAUD_2400
      else if i = 4800 then Some SPABAUD_4800 else if i = 9600 then Some SPABAUD_9600
      else if i = 19200 then Some SPABAUD_19200 else if i = 38400 then Some SPABAUD_38400
      else if i = 57600 then Some SPABAUD_57600 else if i = 115200 then Some SPABAUD_115200 else None)"

definition mode_of :: "string \<Rightarrow> int" where
  "mode_of s =
     (if s = ''n'' \<or> s = ''ntrip1'' then NTRIP1
      else if s = ''h'' \<or> s = ''http'' then HTTP
      else if s = ''r'' \<or> s = ''rtsp'' then RTSP
      else if s = ''u'' \<or> s = ''udp'' then UDP
      else if s = ''a'' \<or> s = ''auto'' then AUTO
      else to_int32 (strtol10 s))"

text \<open>
  What \<open>getopt_long\<close> returns: an option's letter with its argument (\<open>None\<close> for an option that takes
  none), 1 for an argument that is no option, \<open>?\<close> for what it does not know.
\<close>

record opt_state =
  os_args :: args
  os_res :: bool
  os_help :: bool
  os_used :: nat

definition set_arg :: "(args \<Rightarrow> args) \<Rightarrow> opt_state \<Rightarrow> error + opt_state" where
  "set_arg f st = Inr (st\<lparr>os_args := f (os_args st)\<rparr>)"

definition refuse :: "opt_state \<Rightarrow> error + opt_state" where
  "refuse st = Inr (st\<lparr>os_res := False\<rparr>)"

definition option_step :: "char \<times> string option \<Rightarrow> opt_state \<Rightarrow> error + opt_state" where
  "option_step o' st =
     (let c = fst o'; arg = (case snd o' of None \<Rightarrow> [] | Some a \<Rightarrow> a) in
      if c = CHR ''s'' then set_arg (\<lambda>a. a\<lparr>a_server := arg\<rparr>) st
      else if c = CHR ''u'' then set_arg (\<lambda>a. a\<lparr>a_user := arg\<rparr>) st
      else if c = CHR ''p'' then set_arg (\<lambda>a. a\<lparr>a_password := arg\<rparr>) st
      else if c = CHR ''d'' \<or> c = CHR ''m'' then
        (if first arg = CHR ''?'' then
           (case encodeurl arg of Inl e \<Rightarrow> Inl e | Inr t \<Rightarrow> set_arg (\<lambda>a. a\<lparr>a_data := Some t\<rparr>) st)
         else set_arg (\<lambda>a. a\<lparr>a_data := snd o'\<rparr>) st)
      else if c = CHR ''B'' then
        (case baud_of (to_int32 (strtol10 arg)) of None \<Rightarrow> refuse st
         | Some b \<Rightarrow> set_arg (\<lambda>a. a\<lparr>a_baud := b\<rparr>) st)
      else if c = CHR ''T'' then
        (if arg = ''1'' then set_arg (\<lambda>a. a\<lparr>a_stopbits := SPASTOPBITS_1\<rparr>) st
         else if arg = ''2'' then set_arg (\<lambda>a. a\<lparr>a_stopbits := SPASTOPBITS_2\<rparr>) st
         else refuse st)
      else if c = CHR ''A'' then
        (if arg = ''5'' then set_arg (\<lambda>a. a\<lparr>a_databits := SPADATABITS_5\<rparr>) st
         else if arg = ''6'' then set_arg (\<lambda>a. a\<lparr>a_databits := SPADATABITS_6\<rparr>) st
         else if arg = ''7'' then set_arg (\<lambda>a. a\<lparr>a_databits := SPADATABITS_7\<rparr>) st
         else if arg = ''8'' then set_arg (\<lambda>a. a\<lparr>a_databits := SPADATABITS_8\<rparr>) st
         else refuse st)
      else if c = CHR ''C'' then
        (case SerialGetProtocol arg of (q, i) \<Rightarrow>
           let st' = st\<lparr>os_args := (os_args st)\<lparr>a_protocol := q\<rparr>\<rparr> in if i = 0 then refuse st' else Inr st')
      else if c = CHR ''Y'' then
        (case SerialGetParity arg of (q, i) \<Rightarrow>
           let st' = st\<lparr>os_args := (os_args st)\<lparr>a_parity := q\<rparr>\<rparr> in if i = 0 then refuse st' else Inr st')
      else if c = CHR ''D'' then set_arg (\<lambda>a. a\<lparr>a_serdevice := snd o'\<rparr>) st
      else if c = CHR ''l'' then set_arg (\<lambda>a. a\<lparr>a_serlogfile := snd o'\<rparr>) st
      else if c = CHR ''I'' then set_arg (\<lambda>a. a\<lparr>a_initudp := 1\<rparr>) st
      else if c = CHR ''P'' then set_arg (\<lambda>a. a\<lparr>a_udpport := to_int32 (strtol10 arg)\<rparr>) st
      else if c = CHR ''n'' then set_arg (\<lambda>a. a\<lparr>a_nmea := snd o'\<rparr>) st
      else if c = CHR ''b'' then set_arg (\<lambda>a. a\<lparr>a_bitrate := 1\<rparr>) st
      else if c = CHR ''h'' then Inr (st\<lparr>os_help := True\<rparr>)
      else if c = CHR ''r'' then set_arg (\<lambda>a. a\<lparr>a_port := arg\<rparr>) st
      else if c = CHR ''S'' then set_arg (\<lambda>a. a\<lparr>a_proxyhost := snd o'\<rparr>) st
      else if c = CHR ''R'' then set_arg (\<lambda>a. a\<lparr>a_proxyport := arg\<rparr>) st
      else if c = CHR ''M'' then
        (let m = mode_of arg; st' = st\<lparr>os_args := (os_args st)\<lparr>a_mode := m\<rparr>\<rparr>
         in if m = 0 \<or> END \<le> m then refuse st' else Inr st')
      else if c = CHR 0x01 then
        (case geturl arg (os_args st) (os_used st) of
           Fault e \<Rightarrow> Inl e
         | Bad m \<Rightarrow> refuse st
         | Good (a, n) \<Rightarrow> Inr (st\<lparr>os_args := a, os_used := n\<rparr>))
      else Inr st)"

fun option_loop :: "(char \<times> string option) list \<Rightarrow> opt_state \<Rightarrow> error + opt_state" where
  "option_loop [] st = Inr st"
| "option_loop (o' # os) st =
     (case option_step o' st of Inl e \<Rightarrow> Inl e
      | Inr st' \<Rightarrow> if os_res st' then option_loop os st' else Inr st')"

text \<open>\<open>None\<close> is the help text and \<open>exit(1)\<close>.\<close>

definition getargs :: "(char \<times> string option) list \<Rightarrow> error + args option" where
  "getargs os =
     map_sum id (\<lambda>st. if \<not> os_res st \<or> os_help st then None else Some (os_args st))
       (option_loop os \<lparr>os_args = default_args, os_res = True, os_help = False, os_used = 0\<rparr>)"

subsection \<open>Encoding and decoding\<close>

fun pct_decode :: "string \<Rightarrow> string option" where
  "pct_decode [] = Some []"
| "pct_decode (c # cs) =
     (if c = CHR ''%'' then
        (case cs of h # l # rest \<Rightarrow>
           (case (hex_val h, hex_val l) of
              (Some a, Some b) \<Rightarrow> map_option ((#) (char_of (16 * a + b))) (pct_decode rest)
            | _ \<Rightarrow> None)
         | _ \<Rightarrow> None)
      else map_option ((#) c) (pct_decode cs))"

definition pct_text :: "string \<Rightarrow> string" where
  "pct_text s = concat (map (\<lambda>c. case pct_char c of Inl _ \<Rightarrow> [] | Inr t \<Rightarrow> t) s)"

lemma pct_char_ascii: "of_char c < (128 :: nat) \<Longrightarrow> \<exists>t. pct_char c = Inr t"
  by (simp add: pct_char_def Let_def)

lemma pct_char_length: "pct_char c = Inr t \<Longrightarrow> 1 \<le> length t \<and> length t \<le> 3"
  by (auto simp: pct_char_def Let_def split: if_splits)

lemma hex_val_lower: "n < 16 \<Longrightarrow> hex_val (''0123456789abcdef'' ! n) = Some n"
proof -
  have "list_all (\<lambda>n. hex_val (''0123456789abcdef'' ! n) = Some n) [0..<16]" by code_simp
  then show "n < 16 \<Longrightarrow> ?thesis" by (simp add: list_all_iff)
qed

lemma pct_decode_char:
  assumes "pct_char c = Inr t"
  shows "pct_decode (t @ rest) = map_option ((#) c) (pct_decode rest)"
proof -
  have "\<not> is_plain (CHR ''%'')" by (simp add: is_plain_def is_alnum_def)
  moreover have "of_char c < (128 :: nat)" using assms by (simp add: pct_char_def Let_def split: if_splits)
  ultimately show ?thesis using assms
    by (auto simp: pct_char_def Let_def hex_val_lower split: if_splits)
qed

lemma encodeurl_loop_text:
  assumes "\<forall>c \<in> set s. of_char c < (128 :: nat)" and "length buf + length (pct_text s) \<le> 125"
  shows "encodeurl_loop s buf = Inr (buf @ pct_text s)"
  using assms
proof (induction s arbitrary: buf)
  case (Cons c s)
  then obtain t where t: "pct_char c = Inr t" using pct_char_ascii [of c] by auto
  have "length buf < 125" "length (buf @ t) + length (pct_text s) \<le> 125"
    using Cons.prems(2) pct_char_length [OF t] by (auto simp: pct_text_def t)
  with Cons show ?case by (simp add: t) (simp add: pct_text_def t)
qed (simp add: pct_text_def)

lemma pct_decode_text:
  "\<forall>c \<in> set s. of_char c < (128 :: nat) \<Longrightarrow> pct_decode (pct_text s) = Some s"
proof (induction s)
  case (Cons c s)
  then obtain t where t: "pct_char c = Inr t" using pct_char_ascii [of c] by auto
  then have "pct_text (c # s) = t @ pct_text s" by (simp add: pct_text_def)
  with Cons pct_decode_char [OF t] show ?case by simp
qed (simp add: pct_text_def)

lemma encodeurl_loop_bound:
  "encodeurl_loop s buf = Inr t \<Longrightarrow> length buf \<le> 127 \<Longrightarrow> length t \<le> 127"
proof (induction s arbitrary: buf)
  case (Cons c s)
  then show ?case by (auto split: if_splits sum.splits dest!: pct_char_length Cons.IH)
qed simp

text \<open>
  \<open>encodeurl\<close> stays within its 128 bytes, final zero included, whatever it is given, and a plain
  ASCII filter that fits is recovered by decoding the result.
\<close>

theorem encodeurl_roundtrip:
  assumes "\<forall>c \<in> set s. of_char c < (128 :: nat)"
  shows "(\<forall>t. encodeurl s = Inr t \<longrightarrow> length t + 1 \<le> 128) \<and>
    (length (pct_text s) \<le> 125 \<longrightarrow> (\<exists>t. encodeurl s = Inr t \<and> pct_decode t = Some s))"
  using encodeurl_loop_bound [of s "[]"] encodeurl_loop_text [OF assms, of "[]"] pct_decode_text [OF assms]
  by (fastforce simp: encodeurl_def)

theorem encodeurl_roundtrip_witness:
  "\<exists>t. encodeurl ''?STR;;;DE'' = Inr t \<and> pct_decode t = Some ''?STR;;;DE''"
proof -
  have "\<forall>c \<in> set ''?STR;;;DE''. of_char c < (128 :: nat)" "length (pct_text ''?STR;;;DE'') \<le> 125" by code_simp+
  with encodeurl_roundtrip show ?thesis by blast
qed

subsection \<open>URLs written and read\<close>

record ntrip_url =
  u_mount :: string
  u_login :: "(string \<times> string) option"
  u_server :: "string option"
  u_port :: "string option"
  u_proxy :: "(string \<times> string option) option"
  u_nmea :: "string option"

definition opt_text :: "string \<Rightarrow> string option \<Rightarrow> string" where
  "opt_text mark x = (case x of None \<Rightarrow> [] | Some t \<Rightarrow> mark @ t)"

definition login_text :: "ntrip_url \<Rightarrow> string" where
  "login_text u = (case u_login u of None \<Rightarrow> [] | Some (user, password) \<Rightarrow> ''/'' @ user @ '':'' @ password)"

definition proxy_text :: "ntrip_url \<Rightarrow> string" where
  "proxy_text u = (case u_proxy u of None \<Rightarrow> [] | Some (h, p) \<Rightarrow> ''@'' @ h @ opt_text '':'' p)"

definition host_text :: "ntrip_url \<Rightarrow> string" where
  "host_text u =
     (if u_server u = None \<and> u_port u = None \<and> u_proxy u = None then []
      else ''@'' @ opt_text [] (u_server u) @ opt_text '':'' (u_port u) @ proxy_text u)"

definition url_text :: "ntrip_url \<Rightarrow> string" where
  "url_text u = ''ntrip:'' @ u_mount u @ login_text u @ host_text u @ opt_text '';'' (u_nmea u)"

text \<open>A field is not empty and has none of the characters that end it.\<close>

definition field_ok :: "string \<Rightarrow> string \<Rightarrow> bool" where
  "field_ok stops t \<longleftrightarrow> t \<noteq> [] \<and> set t \<inter> set stops = {}"

definition url_ok :: "ntrip_url \<Rightarrow> bool" where
  "url_ok u \<longleftrightarrow> field_ok ''@;/'' (u_mount u) \<and> first (u_mount u) \<noteq> CHR ''?'' \<and>
     (case u_login u of None \<Rightarrow> True | Some (user, password) \<Rightarrow> field_ok ''@;:'' user \<and> field_ok ''@;'' password) \<and>
     (case u_server u of None \<Rightarrow> True | Some h \<Rightarrow> field_ok ''@:;'' h) \<and>
     (case u_port u of None \<Rightarrow> True | Some p \<Rightarrow> field_ok ''@;'' p) \<and>
     (case u_proxy u of None \<Rightarrow> True | Some (h, p) \<Rightarrow> field_ok '':;'' h \<and>
       (case p of None \<Rightarrow> True | Some q \<Rightarrow> field_ok '';'' q))"

definition set_opt :: "('a \<Rightarrow> 'b \<Rightarrow> 'b) \<Rightarrow> 'a option \<Rightarrow> 'b \<Rightarrow> 'b" where
  "set_opt f x b = (case x of None \<Rightarrow> b | Some v \<Rightarrow> f v b)"

definition args_of_url :: "ntrip_url \<Rightarrow> args \<Rightarrow> args" where
  "args_of_url u a =
     set_opt (\<lambda>x a. a\<lparr>a_nmea := Some x\<rparr>) (u_nmea u)
     (set_opt (\<lambda>(h, p) a. set_opt (\<lambda>q a. a\<lparr>a_proxyport := q\<rparr>) p (a\<lparr>a_proxyhost := Some h\<rparr>)) (u_proxy u)
     (set_opt (\<lambda>p a. a\<lparr>a_port := p\<rparr>) (u_port u)
     (set_opt (\<lambda>h a. a\<lparr>a_server := h\<rparr>) (u_server u)
     (set_opt (\<lambda>(user, password) a. a\<lparr>a_user := user, a_password := password\<rparr>) (u_login u)
     (a\<lparr>a_data := Some (u_mount u)\<rparr>)))))"

text \<open>The rest of a URL after a field: empty or one of the characters that end the field.\<close>

definition ends :: "string \<Rightarrow> string \<Rightarrow> bool" where
  "ends stops rest \<longleftrightarrow> rest = [] \<or> (\<exists>c r. rest = c # r \<and> c \<in> set stops)"

lemma copy_until_field:
  "set t \<inter> set stops = {} \<Longrightarrow> ends stops rest \<Longrightarrow> n + length t < BUFSIZE \<Longrightarrow>
   copy_until stops n (t @ rest) = (t, rest, n + length t)"
proof (induction t arbitrary: n)
  case Nil
  then show ?case by (cases rest) (auto simp: ends_def)
qed auto

lemma url_field_ok:
  "field_ok stops t \<Longrightarrow> ends stops rest \<Longrightarrow> n + length t + 1 < BUFSIZE \<Longrightarrow>
   url_field stops msg n (t @ rest) = Good (t, rest, n + length t + 1)"
  by (auto simp: url_field_def field_ok_def copy_until_field BUFSIZE_def)

lemma first_simps [simp]: "first [] = CHR 0x00" "first (c # r) = c"
  by (simp_all add: first_def)

lemma first_field: "field_ok stops t \<Longrightarrow> c \<in> set stops \<Longrightarrow> first (t @ rest) \<noteq> c"
  by (cases t) (auto simp: field_ok_def)

lemma first_append: "t \<noteq> [] \<Longrightarrow> first (t @ rest) = first t"
  by (cases t) auto

lemma url_mountpoint_ok:
  assumes "field_ok ''@;/'' m" "first m \<noteq> CHR ''?''" "ends ''@;/'' rest" "n + length m + 1 < BUFSIZE"
  shows "url_mountpoint (m @ rest, a, n) = Good (rest, a\<lparr>a_data := Some m\<rparr>, n + length m + 1)"
  using assms first_field [OF assms(1), of "CHR ''@''" rest] first_field [OF assms(1), of "CHR ''/''" rest]
    url_field_ok [OF assms(1,3,4)]
  by (simp add: url_mountpoint_def first_append field_ok_def)

lemma url_login_ok:
  assumes "case u_login u of None \<Rightarrow> True | Some (user, password) \<Rightarrow> field_ok ''@;:'' user \<and> field_ok ''@;'' password"
    and "ends ''@;'' rest" and "n + length (login_text u) < BUFSIZE"
  shows "url_login (login_text u @ rest, a, n) =
    Good (rest, set_opt (\<lambda>(user, password) a. a\<lparr>a_user := user, a_password := password\<rparr>) (u_login u) a,
      n + length (login_text u))"
proof (cases "u_login u")
  case None
  then show ?thesis using assms(2) by (auto simp: url_login_def login_text_def set_opt_def ends_def)
next
  case (Some l)
  obtain user password where l: "l = (user, password)" by (cases l)
  have f: "field_ok ''@;:'' user" "field_ok ''@;'' password" using assms(1) by (simp_all add: Some l)
  have b: "n + length user + 1 < BUFSIZE" "(n + length user + 1) + length password + 1 < BUFSIZE"
    using assms(3) by (simp_all add: login_text_def Some l)
  have e: "ends ''@;:'' ('':'' @ password @ rest)" by (simp add: ends_def)
  show ?thesis
    using url_field_ok [OF f(1) e b(1)] url_field_ok [OF f(2) assms(2) b(2)]
    by (simp add: url_login_def login_text_def set_opt_def Some l)
qed

lemma url_server_ok:
  assumes "case h of None \<Rightarrow> True | Some s \<Rightarrow> field_ok ''@:;'' s" and "ends ''@:;'' rest"
    and "h = None \<Longrightarrow> first rest = CHR ''@'' \<or> first rest = CHR '':''"
    and "n + length (opt_text [] h) + 1 < BUFSIZE"
  shows "\<exists>k. k \<le> n + length (opt_text [] h) + 1 \<and> url_server (opt_text [] h @ rest, a, n) =
    Good (rest, set_opt (\<lambda>s a. a\<lparr>a_server := s\<rparr>) h a, k)"
proof (cases h)
  case None
  then show ?thesis using assms(3) by (auto simp: url_server_def opt_text_def set_opt_def)
next
  case (Some s)
  then have f: "field_ok ''@:;'' s" using assms(1) by simp
  have "n + length s + 1 < BUFSIZE" using assms(4) by (simp add: opt_text_def Some)
  from url_field_ok [OF f assms(2) this] show ?thesis
    using first_field [OF f, of "CHR ''@''" rest] first_field [OF f, of "CHR '':''" rest]
    by (simp add: url_server_def opt_text_def set_opt_def Some)
qed

lemma url_port_ok:
  assumes "case p of None \<Rightarrow> True | Some s \<Rightarrow> field_ok ''@;'' s" and "ends ''@;'' rest"
    and "n + length (opt_text '':'' p) < BUFSIZE"
  shows "url_port (opt_text '':'' p @ rest, a, n) =
    Good (rest, set_opt (\<lambda>s a. a\<lparr>a_port := s\<rparr>) p a, n + length (opt_text '':'' p))"
proof (cases p)
  case None
  then show ?thesis using assms(2) by (auto simp: url_port_def opt_text_def set_opt_def ends_def)
next
  case (Some s)
  then have f: "field_ok ''@;'' s" using assms(1) by simp
  have "n + length s + 1 < BUFSIZE" using assms(3) by (simp add: opt_text_def Some)
  from url_field_ok [OF f assms(2) this] show ?thesis
    by (simp add: url_port_def opt_text_def set_opt_def Some)
qed

lemma url_proxy_ok:
  assumes "case u_proxy u of None \<Rightarrow> True | Some (h, p) \<Rightarrow> field_ok '':;'' h \<and>
      (case p of None \<Rightarrow> True | Some q \<Rightarrow> field_ok '';'' q)"
    and "ends '';'' rest" and "n + length (proxy_text u) < BUFSIZE"
  shows "url_proxy (proxy_text u @ rest, a, n) =
    Good (rest, set_opt (\<lambda>(h, p) a. set_opt (\<lambda>q a. a\<lparr>a_proxyport := q\<rparr>) p (a\<lparr>a_proxyhost := Some h\<rparr>)) (u_proxy u) a,
      n + length (proxy_text u))"
proof (cases "u_proxy u")
  case None
  then show ?thesis using assms(2) by (auto simp: url_proxy_def proxy_text_def set_opt_def ends_def)
next
  case (Some l)
  obtain h p where l: "l = (h, p)" by (cases l)
  have f: "field_ok '':;'' h" and g: "case p of None \<Rightarrow> True | Some q \<Rightarrow> field_ok '';'' q"
    using assms(1) by (simp_all add: Some l)
  have b: "n + length h + 1 < BUFSIZE" using assms(3) by (simp add: proxy_text_def Some l)
  have e: "ends '':;'' (opt_text '':'' p @ rest)"
    using assms(2) by (cases p) (auto simp: opt_text_def ends_def)
  note H = url_field_ok [OF f e b]
  show ?thesis
  proof (cases p)
    case None
    then have "first rest \<noteq> CHR '':''" using assms(2) by (auto simp: ends_def)
    then show ?thesis using H by (simp add: url_proxy_def proxy_text_def set_opt_def opt_text_def Some l None)
  next
    case q: (Some q)
    have "n + length h + 1 + length q + 1 < BUFSIZE" using assms(3) by (simp add: proxy_text_def Some l q opt_text_def)
    from url_field_ok [OF _ assms(2) this] g show ?thesis
      using H by (simp add: url_proxy_def proxy_text_def set_opt_def opt_text_def Some l q)
  qed
qed

lemma url_host_ok:
  assumes u: "url_ok u" and "ends '';'' rest" and "n + length (host_text u) < BUFSIZE"
  shows "\<exists>k. k \<le> n + length (host_text u) \<and> url_host (host_text u @ rest, a, n) =
    Good (rest, set_opt (\<lambda>(h, p) a. set_opt (\<lambda>q a. a\<lparr>a_proxyport := q\<rparr>) p (a\<lparr>a_proxyhost := Some h\<rparr>)) (u_proxy u)
      (set_opt (\<lambda>p a. a\<lparr>a_port := p\<rparr>) (u_port u) (set_opt (\<lambda>h a. a\<lparr>a_server := h\<rparr>) (u_server u) a)), k)"
proof (cases "u_server u = None \<and> u_port u = None \<and> u_proxy u = None")
  case True
  then show ?thesis using assms(2) by (auto simp: url_host_def host_text_def set_opt_def ends_def)
next
  case False
  let ?p = "proxy_text u @ rest"
  have e1: "ends ''@;'' ?p" using assms(2) by (auto simp: proxy_text_def ends_def split: option.split)
  have e2: "ends ''@:;'' (opt_text '':'' (u_port u) @ ?p)"
    using e1 by (auto simp: opt_text_def ends_def split: option.split)
  have e3: "first (opt_text '':'' (u_port u) @ ?p) = CHR ''@'' \<or> first (opt_text '':'' (u_port u) @ ?p) = CHR '':''"
    if "u_server u = None"
    using that False by (cases "u_port u"; cases "u_proxy u") (auto simp: opt_text_def proxy_text_def)
  have len: "length (host_text u) = length (opt_text [] (u_server u)) + 1 + length (opt_text '':'' (u_port u)) +
      length (proxy_text u)"
    using False by (auto simp: host_text_def)
  have sv: "case u_server u of None \<Rightarrow> True | Some h \<Rightarrow> field_ok ''@:;'' h" using u by (simp add: url_ok_def)
  have b0: "n + length (opt_text [] (u_server u)) + 1 < BUFSIZE" using assms(3) len by simp
  obtain k where k: "k \<le> n + length (opt_text [] (u_server u)) + 1"
    "url_server (opt_text [] (u_server u) @ opt_text '':'' (u_port u) @ ?p, a, n) =
      Good (opt_text '':'' (u_port u) @ ?p, set_opt (\<lambda>s a. a\<lparr>a_server := s\<rparr>) (u_server u) a, k)"
    using url_server_ok [OF sv e2 e3 b0] by blast
  have b: "k + length (opt_text '':'' (u_port u)) < BUFSIZE"
    "k + length (opt_text '':'' (u_port u)) + length (proxy_text u) < BUFSIZE"
    using k(1) assms(3) len by simp_all
  have p: "case u_port u of None \<Rightarrow> True | Some s \<Rightarrow> field_ok ''@;'' s"
    and q: "case u_proxy u of None \<Rightarrow> True | Some (h, p) \<Rightarrow> field_ok '':;'' h \<and>
      (case p of None \<Rightarrow> True | Some q \<Rightarrow> field_ok '';'' q)"
    using u by (simp_all add: url_ok_def)
  show ?thesis
    using k url_port_ok [OF p e1 b(1)] url_proxy_ok [OF q assms(2) b(2)] len False
    by (auto simp: url_host_def host_text_def)
qed

lemma p_bind_Good: "x = Good y \<Longrightarrow> p_bind x f = f y"
  by simp

text \<open>
  C24: \<open>geturl\<close> reads back every NTRIP URL that fits into its buffer: mount point, login, server, port,
  proxy and NMEA sentence written as a URL come out in the fields of \<open>Args\<close>, the others stay as they were.
\<close>

theorem geturl_roundtrip:
  assumes "url_ok u" and "n + length (url_text u) < BUFSIZE"
  shows "\<exists>k. geturl (url_text u) a n = Good (args_of_url u a, k) \<and> k < BUFSIZE"
proof -
  define r1 where "r1 = opt_text '';'' (u_nmea u)"
  define r2 where "r2 = host_text u @ r1"
  define r3 where "r3 = login_text u @ r2"
  have len: "n + length (u_mount u) + 1 + length (login_text u) + length (host_text u) < BUFSIZE"
    using assms(2) by (simp add: url_text_def)
  have e1: "ends '';'' r1" by (auto simp: r1_def opt_text_def ends_def split: option.split)
  have e2: "ends ''@;'' r2" using e1 by (auto simp: r2_def host_text_def ends_def)
  have e3: "ends ''@;/'' r3" using e2 by (auto simp: r3_def login_text_def ends_def split: option.split)
  have m: "url_mountpoint (u_mount u @ r3, a, n) = Good (r3, a\<lparr>a_data := Some (u_mount u)\<rparr>, n + length (u_mount u) + 1)"
    using url_mountpoint_ok [OF _ _ e3] assms(1) len by (simp add: url_ok_def)
  note l = url_login_ok [OF _ e2, of u "n + length (u_mount u) + 1", folded r3_def]
  obtain k where k: "k \<le> n + length (u_mount u) + 1 + length (login_text u) + length (host_text u)"
    and h: "url_host (r2, b, n + length (u_mount u) + 1 + length (login_text u)) = Good (r1,
      set_opt (\<lambda>(h, p) a. set_opt (\<lambda>q a. a\<lparr>a_proxyport := q\<rparr>) p (a\<lparr>a_proxyhost := Some h\<rparr>)) (u_proxy u)
      (set_opt (\<lambda>p a. a\<lparr>a_port := p\<rparr>) (u_port u) (set_opt (\<lambda>h a. a\<lparr>a_server := h\<rparr>) (u_server u) b)), k)"
    if "b = set_opt (\<lambda>(user, password) a. a\<lparr>a_user := user, a_password := password\<rparr>) (u_login u)
      (a\<lparr>a_data := Some (u_mount u)\<rparr>)" for b
    using url_host_ok [OF assms(1) e1] len unfolding r2_def by blast
  have nm: "url_nmea (r1, b, k) = Good ([], set_opt (\<lambda>x a. a\<lparr>a_nmea := Some x\<rparr>) (u_nmea u) b, k)" for b
    by (auto simp: url_nmea_def r1_def opt_text_def set_opt_def split: option.split)
  have t: "url_text u = ''ntrip:'' @ u_mount u @ r3" by (simp add: url_text_def r1_def r2_def r3_def)
  have "geturl (url_text u) a n = Good (args_of_url u a, k)"
    using m l h nm assms(1) len by (simp add: geturl_def t args_of_url_def url_ok_def)
  moreover have "k < BUFSIZE" using k len by simp
  ultimately show ?thesis by blast
qed

definition sample_url :: ntrip_url where
  "sample_url = \<lparr>u_mount = ''RTCM33'', u_login = Some (''hnu'', ''secret''), u_server = Some ''caster'',
     u_port = Some ''2101'', u_proxy = Some (''proxy'', None), u_nmea = None\<rparr>"

theorem geturl_roundtrip_witness:
  "\<exists>k. geturl ''ntrip:RTCM33/hnu:secret@caster:2101@proxy'' default_args 0 = Good (args_of_url sample_url default_args, k)"
proof -
  have "url_ok sample_url" "0 + length (url_text sample_url) < BUFSIZE"
    "url_text sample_url = ''ntrip:RTCM33/hnu:secret@caster:2101@proxy''" by code_simp+
  with geturl_roundtrip [of sample_url 0 default_args] show ?thesis by auto
qed

lemma copy_encoded_plain:
  "\<forall>c \<in> set t. is_alnum c \<Longrightarrow> n + length t \<le> BUFSIZE \<Longrightarrow>
   copy_encoded n (t @ rest) = p_bind (copy_encoded (n + length t) rest) (\<lambda>(t', r, k). Good (t @ t', r, k))"
proof (induction t arbitrary: n)
  case Nil
  then show ?case by (cases "copy_encoded n rest") auto
next
  case (Cons c t)
  have "c \<noteq> CHR ''@''" "c \<noteq> CHR ''/''" "pct_char c = Inr [c]"
    using Cons.prems(1) by (auto simp: is_alnum_def pct_char_def is_plain_def Let_def)
  moreover have "n + 1 \<le> BUFSIZE" "n \<noteq> BUFSIZE" using Cons.prems(2) by auto
  ultimately show ?case
    using Cons by (cases "copy_encoded (n + 1 + length t) rest") (auto simp: p_bind.simps)
qed

text \<open>
  A source table filter is encoded into the same buffer with only a test for the exact end: when
  two bytes or fewer are left, a character that needs three is written beyond the buffer.
\<close>

theorem geturl_overflow:
  assumes "\<forall>c \<in> set t. is_alnum c" and "length t = 995 \<or> length t = 996"
    and "of_char c < (128 :: nat)" "\<not> is_plain c" "c \<noteq> CHR ''@''" "c \<noteq> CHR ''/''"
  shows "geturl (''ntrip:?'' @ t @ [c] @ rest) a 0 = Fault OutOfBounds"
proof -
  have q: "pct_char (CHR ''?'') = Inr ''%3f''" by code_simp
  obtain x where x: "pct_char c = Inr x" "length x = 3" using assms(3,4) by (auto simp: pct_char_def Let_def)
  have "copy_encoded 3 (t @ c # rest) = Fault OutOfBounds"
    using copy_encoded_plain [OF assms(1), of 3 "c # rest"] x assms(2,5,6) by (auto simp: BUFSIZE_def)
  then have "copy_encoded 0 (CHR ''?'' # t @ c # rest) = Fault OutOfBounds"
    by (simp add: q BUFSIZE_def numeral_eq_Suc)
  then show ?thesis by (simp add: geturl_def url_mountpoint_def del: copy_encoded.simps)
qed

theorem geturl_overflow_witness:
  "geturl (''ntrip:?'' @ replicate 996 (CHR ''a'') @ ''='' @ []) default_args 0 = Fault OutOfBounds"
  by (rule geturl_overflow) (auto simp: is_alnum_def is_plain_def)

subsection \<open>Accepted options\<close>

lemma p_bind_Good_iff: "p_bind x f = Good y \<longleftrightarrow> (\<exists>z. x = Good z \<and> f z = Good y)"
  by (cases x) auto

lemma url_stage_mode:
  "url_mountpoint (url, a, n) = Good (url', a', n') \<Longrightarrow> a_mode a' = a_mode a"
  "url_login (url, a, n) = Good (url', a', n') \<Longrightarrow> a_mode a' = a_mode a"
  "url_server (url, a, n) = Good (url', a', n') \<Longrightarrow> a_mode a' = a_mode a"
  "url_port (url, a, n) = Good (url', a', n') \<Longrightarrow> a_mode a' = a_mode a"
  "url_proxy (url, a, n) = Good (url', a', n') \<Longrightarrow> a_mode a' = a_mode a"
  "url_nmea (url, a, n) = Good (url', a', n') \<Longrightarrow> a_mode a' = a_mode a"
  by (auto simp: url_mountpoint_def url_login_def url_server_def url_port_def url_proxy_def url_nmea_def
      p_bind_Good_iff split: if_splits)

lemma url_host_mode: "url_host (url, a, n) = Good (url', a', n') \<Longrightarrow> a_mode a' = a_mode a"
  by (auto simp: url_host_def p_bind_Good_iff dest!: url_stage_mode split: if_splits)

lemma geturl_mode: "geturl url a n = Good (a', k) \<Longrightarrow> a_mode a' = a_mode a"
  by (auto simp: geturl_def p_bind_Good_iff dest!: url_stage_mode url_host_mode split: if_splits)

definition mode_ok :: "opt_state \<Rightarrow> bool" where
  "mode_ok st \<longleftrightarrow> a_mode (os_args st) \<noteq> 0 \<and> a_mode (os_args st) < END"

lemma set_arg_mode: "set_arg f st = Inr st' \<Longrightarrow> (\<And>a. a_mode (f a) = a_mode a) \<Longrightarrow> mode_ok st \<Longrightarrow> mode_ok st'"
  by (auto simp: set_arg_def mode_ok_def)

lemma option_step_mode:
  assumes "option_step o' st = Inr st'" and "mode_ok st" and "os_res st'"
  shows "mode_ok st'"
  using assms
  by (auto simp: option_step_def refuse_def Let_def mode_ok_def elim!: set_arg_mode [unfolded mode_ok_def]
      dest!: geturl_mode split: if_splits option.splits sum.splits parsed.splits prod.splits)

lemma option_loop_mode:
  "option_loop os st = Inr st' \<Longrightarrow> mode_ok st \<Longrightarrow> os_res st' \<Longrightarrow> mode_ok st'"
proof (induction os arbitrary: st)
  case (Cons o' os)
  then obtain st1 where st1: "option_step o' st = Inr st1" by (auto split: sum.splits)
  then have "os_res st1" using Cons.prems by (auto split: if_splits)
  with Cons st1 option_step_mode [OF st1] show ?case by simp
qed simp

text \<open>
  Whatever options it is given, \<open>getargs\<close> either prints the help text and exits or goes on with a mode
  other than 0 and below \<open>END\<close>.
\<close>

theorem getargs_mode:
  assumes "getargs os = Inr (Some a)"
  shows "a_mode a \<noteq> 0 \<and> a_mode a < END"
  using assms option_loop_mode [of os "\<lparr>os_args = default_args, os_res = True, os_help = False, os_used = 0\<rparr>"]
  by (auto simp: getargs_def mode_ok_def default_args_def mode_defs map_sum_def split: sum.splits if_splits)

theorem getargs_mode_witness:
  "a_mode (the (case getargs [(CHR ''M'', Some ''rtsp''), (CHR ''b'', None)] of Inr r \<Rightarrow> r)) < END"
proof -
  have "getargs [(CHR ''M'', Some ''rtsp''), (CHR ''b'', None)] =
    Inr (Some (default_args\<lparr>a_mode := RTSP, a_bitrate := 1\<rparr>))" by code_simp
  with getargs_mode [OF this] show ?thesis by simp
qed

text \<open>There is no lower bound: a negative mode is accepted.\<close>

theorem negative_mode_accepted:
  "getargs [(CHR ''M'', Some ''-3'')] = Inr (Some (default_args\<lparr>a_mode := -3\<rparr>))"
  by code_simp

end
