(* ===== verification/NtripRequest.thy ===== *)
theory NtripRequest
  imports NtripAuth NtripArgs
begin

text \<open>
  What \<open>ntrip_client\<close> in \<open>src/Dgps/src/ntripclient.cpp\<close> writes into its fixed buffers and how it searches
  the replies: \<open>snprintf\<close> and \<open>encode\<close> into a buffer, the requests for HTTP, UDP and RTSP with the checks
  the code makes, and the search loop for a header. A buffer is the list of its bytes; a write beyond it
  is \<open>OutOfBounds\<close>.
\<close>

subsection \<open>Buffers\<close>

definition MAXDATASIZE :: nat where "MAXDATASIZE = 1000"

definition RTPSIZE :: nat where "RTPSIZE = 1526"

definition put_mem :: "nat \<Rightarrow> string \<Rightarrow> string \<Rightarrow> error + string" where
  "put_mem pos xs buf =
     (if length buf < pos + length xs then Inl OutOfBounds
      else Inr (take pos buf @ xs @ drop (pos + length xs) buf))"

text \<open>\<open>snprintf(buf + pos, n, ...)\<close>: at most \<open>n - 1\<close> characters and a final zero; the result is the full length.\<close>

definition snprintf_at :: "nat \<Rightarrow> nat \<Rightarrow> string \<Rightarrow> string \<Rightarrow> error + nat \<times> string" where
  "snprintf_at pos n t buf =
     map_sum id (\<lambda>b. (length t, b)) (put_mem pos (if n = 0 then [] else take (n - 1) t @ [CHR 0x00]) buf)"

text \<open>\<open>encode(buf + pos, sz, user, pwd)\<close>; with no room nothing is written.\<close>

definition encode_at :: "nat \<Rightarrow> int \<Rightarrow> string \<Rightarrow> string \<Rightarrow> string \<Rightarrow> error + nat \<times> string" where
  "encode_at pos sz user pwd buf =
     (case encode_login sz user pwd of (out, n) \<Rightarrow>
        if out = [] then Inr (n, buf) else map_sum id (\<lambda>b. (n, b)) (put_mem pos out buf))"

definition CRLF :: string where "CRLF = [CHR 0x0D, CHR 0x0A]"

definition opt_str :: "string option \<Rightarrow> string" where
  "opt_str x = (case x of None \<Rightarrow> [] | Some t \<Rightarrow> t)"

definition AGENT :: string where
  "AGENT = ''NTRIP NtripClientPOSIX/$Revision: 1.51 $''"

definition has_login :: "args \<Rightarrow> bool" where
  "has_login a \<longleftrightarrow> a_user a \<noteq> [] \<or> a_password a \<noteq> []"

definition auth_line :: "args \<Rightarrow> string" where
  "auth_line a = (if has_login a then CRLF @ ''Authorization: Basic '' else [])"

definition gga_line :: "string option \<Rightarrow> string" where
  "gga_line nmea = (case nmea of None \<Rightarrow> [] | Some g \<Rightarrow> ''Ntrip-GGA: '' @ g @ CRLF)"

text \<open>The outcome: \<open>args->stop\<close>, the number of bytes to send and the buffer.\<close>

type_synonym request_result = "error + bool \<times> nat \<times> string"

subsection \<open>Requests\<close>

text \<open>\<open>proxy\<close> is \<open>proxyserver\<close> with \<open>proxyport\<close>, set when a proxy is used.\<close>

definition proxy_prefix :: "(string \<times> string) option \<Rightarrow> string" where
  "proxy_prefix proxy = (case proxy of None \<Rightarrow> [] | Some (h, p) \<Rightarrow> ''http://'' @ h @ '':'' @ p)"

definition version_line :: "args \<Rightarrow> string" where
  "version_line a = (if a_mode a = NTRIP1 then [] else ''Ntrip-Version: Ntrip/2.0'' @ CRLF)"

definition table_text :: "args \<Rightarrow> (string \<times> string) option \<Rightarrow> string" where
  "table_text a proxy = ''GET '' @ proxy_prefix proxy @ ''/ HTTP/1.1'' @ CRLF @ ''Host: '' @ a_server a @ CRLF @
     version_line a @ ''User-Agent: '' @ AGENT @ CRLF @ ''Connection: close'' @ CRLF @ CRLF"

definition http_get_text :: "args \<Rightarrow> (string \<times> string) option \<Rightarrow> string" where
  "http_get_text a proxy = ''GET '' @ proxy_prefix proxy @ ''/'' @ opt_str (a_data a) @ '' HTTP/1.1'' @ CRLF @
     ''Host: '' @ a_server a @ CRLF @ version_line a @ ''User-Agent: '' @ AGENT @ CRLF @
     gga_line (if a_mode a = HTTP then a_nmea a else None) @ ''Connection: close'' @ auth_line a"

definition http_request :: "args \<Rightarrow> (string \<times> string) option \<Rightarrow> string \<Rightarrow> request_result" where
  "http_request a proxy buf =
     (if a_data a = None then
        map_sum id (\<lambda>(i, b). (False, i, b)) (snprintf_at 0 MAXDATASIZE (table_text a proxy) buf)
      else (case snprintf_at 0 (MAXDATASIZE - 40) (http_get_text a proxy) buf of Inl e \<Rightarrow> Inl e
        | Inr (i, buf) \<Rightarrow>
          if MAXDATASIZE - 40 < i then Inr (True, i, buf)
          else (case encode_at i (int MAXDATASIZE - int i - 4) (a_user a) (a_password a) buf of Inl e \<Rightarrow> Inl e
            | Inr (n, buf) \<Rightarrow>
              if MAXDATASIZE - 4 < i + n then Inr (True, i + n, buf)
              else (case put_mem (i + n) (CRLF @ CRLF) buf of Inl e \<Rightarrow> Inl e
                | Inr buf \<Rightarrow>
                  let i = i + n + 4 in
                  if a_nmea a \<noteq> None \<and> a_mode a \<noteq> HTTP then
                    (case snprintf_at i (MAXDATASIZE - i) (opt_str (a_nmea a) @ CRLF) buf of Inl e \<Rightarrow> Inl e
                     | Inr (j, buf) \<Rightarrow>
                       if j < MAXDATASIZE - i then Inr (False, i + j, buf) else Inr (True, i, buf))
                  else Inr (False, i, buf)))))"

definition udp_text :: "args \<Rightarrow> string" where
  "udp_text a = ''GET /'' @ opt_str (a_data a) @ '' HTTP/1.1'' @ CRLF @ ''Host: '' @ a_server a @ CRLF @
     ''Ntrip-Version: Ntrip/2.0'' @ CRLF @ ''User-Agent: '' @ AGENT @ CRLF @
     gga_line (a_nmea a) @ ''Connection: close'' @ auth_line a"

text \<open>The 12 bytes of the RTP header: version 2, the type, then sequence, time and session.\<close>

definition byte_char :: "u32 \<Rightarrow> char" where
  "byte_char w = char_of (unat (w AND 0xFF))"

definition rtp_header :: "u32 \<Rightarrow> u32 \<Rightarrow> u32 \<Rightarrow> u32 \<Rightarrow> string" where
  "rtp_header kind sq tim session =
     [CHR 0x80, byte_char kind, byte_char (drop_bit 8 sq), byte_char sq,
      byte_char (drop_bit 24 tim), byte_char (drop_bit 16 tim), byte_char (drop_bit 8 tim), byte_char tim,
      byte_char (drop_bit 24 session), byte_char (drop_bit 16 session), byte_char (drop_bit 8 session),
      byte_char session]"

definition udp_request :: "args \<Rightarrow> u32 \<Rightarrow> u32 \<Rightarrow> u32 \<Rightarrow> string \<Rightarrow> request_result" where
  "udp_request a sq tim session buf =
     (case put_mem 0 (rtp_header 97 sq tim session) buf of Inl e \<Rightarrow> Inl e
      | Inr buf \<Rightarrow>
        (case snprintf_at 12 (RTPSIZE - 12 - 40) (udp_text a) buf of Inl e \<Rightarrow> Inl e
         | Inr (j, buf) \<Rightarrow>
           let i = 12 + j in
           if RTPSIZE - 40 < i then Inr (True, i, buf)
           else (case encode_at i (int RTPSIZE - int i - 4) (a_user a) (a_password a) buf of Inl e \<Rightarrow> Inl e
             | Inr (n, buf) \<Rightarrow>
               if RTPSIZE - 4 < i + n then Inr (True, i + n, buf)
               else map_sum id (\<lambda>b. (False, i + n + 4, b)) (put_mem (i + n) (CRLF @ CRLF) buf))))"

definition rtsp_target :: "args \<Rightarrow> bool \<Rightarrow> string" where
  "rtsp_target a proxied = '' rtsp://'' @ a_server a @ (if proxied then '':'' @ a_port a else []) @ ''/'' @
     opt_str (a_data a) @ '' RTSP/1.0'' @ CRLF"

definition setup_text :: "args \<Rightarrow> bool \<Rightarrow> nat \<Rightarrow> nat \<Rightarrow> string" where
  "setup_text a proxied cseq localport = ''SETUP'' @ rtsp_target a proxied @ ''CSeq: '' @ dec_str cseq @ CRLF @
     ''Ntrip-Version: Ntrip/2.0'' @ CRLF @ ''Ntrip-Component: Ntripclient'' @ CRLF @
     ''User-Agent: '' @ AGENT @ CRLF @ gga_line (a_nmea a) @
     ''Transport: RTP/GNSS;unicast;client_port='' @ dec_str localport @ auth_line a"

text \<open>Here a request that is too long sets \<open>stop\<close>, but the code goes on writing.\<close>

definition rtsp_setup :: "args \<Rightarrow> bool \<Rightarrow> nat \<Rightarrow> nat \<Rightarrow> string \<Rightarrow> request_result" where
  "rtsp_setup a proxied cseq localport buf =
     (case snprintf_at 0 (MAXDATASIZE - 40) (setup_text a proxied cseq localport) buf of Inl e \<Rightarrow> Inl e
      | Inr (i, buf) \<Rightarrow>
        (case encode_at i (int MAXDATASIZE - int i - 4) (a_user a) (a_password a) buf of Inl e \<Rightarrow> Inl e
         | Inr (n, buf) \<Rightarrow>
           map_sum id (\<lambda>b. (MAXDATASIZE - 40 < i \<or> MAXDATASIZE - 4 < i + n, i + n + 4, b))
             (put_mem (i + n) (CRLF @ CRLF) buf)))"

definition command_text :: "string \<Rightarrow> args \<Rightarrow> bool \<Rightarrow> nat \<Rightarrow> nat \<Rightarrow> string" where
  "command_text verb a proxied cseq session = verb @ rtsp_target a proxied @ ''CSeq: '' @ dec_str cseq @ CRLF @
     ''Session: '' @ dec_str session @ CRLF @ CRLF"

definition rtsp_command :: "string \<Rightarrow> args \<Rightarrow> bool \<Rightarrow> nat \<Rightarrow> nat \<Rightarrow> string \<Rightarrow> request_result" where
  "rtsp_command verb a proxied cseq session buf =
     map_sum id (\<lambda>(i, b). (MAXDATASIZE < i, i, b))
       (snprintf_at 0 MAXDATASIZE (command_text verb a proxied cseq session) buf)"

text \<open>\<open>send(sockfd, buf, i, 0)\<close> reads \<open>i\<close> bytes.\<close>

definition sent_bytes :: "nat \<Rightarrow> string \<Rightarrow> error + string" where
  "sent_bytes i buf = (if length buf < i then Inl OutOfBounds else Inr (take i buf))"

subsection \<open>Searching a reply\<close>

text \<open>
  \<open>for(i = start; j != l && i < numbytes-l; ++i)\<close> with \<open>l = strlen(pat)-1\<close>: after a match the index is one
  beyond it.
\<close>

function scan :: "(char \<Rightarrow> char) \<Rightarrow> string \<Rightarrow> string \<Rightarrow> nat \<Rightarrow> nat" where
  "scan f pat buf i =
     (let l = length pat - 1 in
      if length buf \<le> i + l then i
      else if map f (take l (drop i buf)) = take l pat then i + 1
      else scan f pat buf (i + 1))"
  by pat_completeness auto

termination
  by (relation "measure (\<lambda>(f, pat, buf, i). length buf - i)") auto

declare scan.simps [simp del]

text \<open>The test \<open>i != numbytes-l\<close> on \<open>int\<close>.\<close>

definition scan_found :: "(char \<Rightarrow> char) \<Rightarrow> string \<Rightarrow> string \<Rightarrow> nat \<Rightarrow> bool" where
  "scan_found f pat buf start \<longleftrightarrow> int (scan f pat buf start) \<noteq> int (length buf) - int (length pat - 1)"

text \<open>A decimal number at a position: its value, unbounded, and the position after it.\<close>

definition read_dec :: "string \<Rightarrow> nat \<Rightarrow> nat \<times> nat" where
  "read_dec buf i = (let ds = takeWhile is_digit (drop i buf) in (dec_value ds, i + length ds))"

subsection \<open>The loop finds headers\<close>

definition match_at :: "(char \<Rightarrow> char) \<Rightarrow> string \<Rightarrow> string \<Rightarrow> nat \<Rightarrow> bool" where
  "match_at f pat buf k \<longleftrightarrow> k + (length pat - 1) < length buf \<and>
     map f (take (length pat - 1) (drop k buf)) = take (length pat - 1) pat"

lemma scan_first:
  assumes "match_at f pat buf k" and "i \<le> k" and "\<forall>k'. i \<le> k' \<and> k' < k \<longrightarrow> \<not> match_at f pat buf k'"
  shows "scan f pat buf i = k + 1"
  using assms
proof (induction f pat buf i rule: scan.induct)
  case (1 f pat buf i)
  show ?case
  proof (cases "i = k")
    case True
    then show ?thesis using "1.prems"(1) by (subst scan.simps) (simp add: match_at_def Let_def)
  next
    case False
    then have "i < k" using "1.prems"(2) by simp
    then have "i + (length pat - 1) < length buf" "\<not> match_at f pat buf i"
      using "1.prems" by (auto simp: match_at_def)
    then show ?thesis
      using "1.IH" "1.prems" \<open>i < k\<close> by (subst scan.simps) (simp add: match_at_def Let_def)
  qed
qed

lemma scan_none:
  assumes "\<forall>k. i \<le> k \<longrightarrow> \<not> match_at f pat buf k"
  shows "scan f pat buf i = max i (length buf - (length pat - 1))"
  using assms
proof (induction f pat buf i rule: scan.induct)
  case (1 f pat buf i)
  show ?case
  proof (cases "length buf \<le> i + (length pat - 1)")
    case True
    then show ?thesis by (subst scan.simps) (simp add: Let_def)
  next
    case False
    then have "\<not> (map f (take (length pat - 1) (drop i buf)) = take (length pat - 1) pat)"
      using "1.prems" by (auto simp: match_at_def)
    then show ?thesis using "1.IH" "1.prems" False by (subst scan.simps) (simp add: Let_def)
  qed
qed

lemma scan_cases:
  obtains k where "i \<le> k" "match_at f pat buf k" "scan f pat buf i = k + 1"
  | "\<forall>k. i \<le> k \<longrightarrow> \<not> match_at f pat buf k" "scan f pat buf i = max i (length buf - (length pat - 1))"
proof (cases "\<exists>k. i \<le> k \<and> match_at f pat buf k")
  case True
  define k where "k = (LEAST k. i \<le> k \<and> match_at f pat buf k)"
  have k: "i \<le> k \<and> match_at f pat buf k" unfolding k_def by (rule LeastI_ex [OF True])
  have "\<not> match_at f pat buf k'" if "i \<le> k'" "k' < k" for k'
    using not_less_Least that unfolding k_def by blast
  then show ?thesis using that(1) k scan_first by blast
next
  case False
  then show ?thesis using that(2) scan_none by blast
qed

text \<open>
  The header test of the reply parsers, from a start that leaves room for the pattern, succeeds exactly
  when the reply holds the pattern without its last character at some place other than the very end.
\<close>

theorem header_found:
  assumes "start + (length pat - 1) \<le> length buf"
  shows "scan_found f pat buf start \<longleftrightarrow>
    (\<exists>k. start \<le> k \<and> k + 1 + (length pat - 1) < length buf \<and>
      map f (take (length pat - 1) (drop k buf)) = take (length pat - 1) pat)"
proof (rule scan_cases [of start f pat buf])
  fix k assume k: "start \<le> k" "match_at f pat buf k" "scan f pat buf start = k + 1"
  have "k + 1 + (length pat - 1) < length buf" if "scan_found f pat buf start"
    using that k(2,3) by (auto simp: scan_found_def match_at_def)
  moreover have "scan_found f pat buf start" if "start \<le> k'" "k' + 1 + (length pat - 1) < length buf" "match_at f pat buf k'" for k'
  proof (rule ccontr)
    assume n: "\<not> scan_found f pat buf start"
    then have "k' < k" using that(2) k(3) by (auto simp: scan_found_def)
    have "\<not> (\<forall>j. start \<le> j \<and> j < k \<longrightarrow> \<not> match_at f pat buf j)" using \<open>k' < k\<close> that by blast
    then obtain j where j: "start \<le> j" "j < k" "match_at f pat buf j"
      "\<forall>i. start \<le> i \<and> i < j \<longrightarrow> \<not> match_at f pat buf i"
      using exists_least_iff [of "\<lambda>j. start \<le> j \<and> j < k \<and> match_at f pat buf j"] by (metis order.strict_trans)
    from scan_first [OF j(3,1,4)] k(3) j(2) show False by simp
  qed
  moreover have "match_at f pat buf k' \<longleftrightarrow> map f (take (length pat - 1) (drop k' buf)) = take (length pat - 1) pat"
    if "k' + 1 + (length pat - 1) < length buf" for k'
    using that by (simp add: match_at_def)
  ultimately show ?thesis using k by (auto simp: match_at_def)
next
  assume n: "\<forall>k. start \<le> k \<longrightarrow> \<not> match_at f pat buf k"
    "scan f pat buf start = max start (length buf - (length pat - 1))"
  then have "\<not> scan_found f pat buf start" using assms by (simp add: scan_found_def)
  then show ?thesis using n(1) by (auto simp: match_at_def)
qed

definition DATACHECK :: string where
  "DATACHECK = ''Content-Type: gnss/data'' @ CRLF"

theorem header_found_witness:
  "scan_found id DATACHECK (''HTTP/1.1 200 OK'' @ CRLF @ ''Content-Type: gnss/data'' @ CRLF @ CRLF) 0"
proof -
  let ?b = "''HTTP/1.1 200 OK'' @ CRLF @ ''Content-Type: gnss/data'' @ CRLF @ CRLF"
  have "0 + (length DATACHECK - 1) \<le> length ?b" by code_simp
  moreover have "0 \<le> (17 :: nat) \<and> 17 + 1 + (length DATACHECK - 1) < length ?b \<and>
      map id (take (length DATACHECK - 1) (drop 17 ?b)) = take (length DATACHECK - 1) DATACHECK" by code_simp
  ultimately show ?thesis using header_found [of 0 DATACHECK ?b id] by blast
qed

text \<open>A reply shorter than the pattern passes the test without holding it.\<close>

theorem short_reply_passes:
  assumes "length buf < start + (length pat - 1)"
  shows "scan_found f pat buf start"
proof -
  have "scan f pat buf start = start" using assms by (subst scan.simps) (simp add: Let_def)
  then show ?thesis using assms by (auto simp: scan_found_def)
qed

subsection \<open>What is sent\<close>

lemma put_mem_ok: "pos + length xs \<le> length buf \<Longrightarrow> put_mem pos xs buf = Inr (take pos buf @ xs @ drop (pos + length xs) buf)"
  by (simp add: put_mem_def)

text \<open>The buffer starts with \<open>t\<close> and has its full length.\<close>

definition starts :: "nat \<Rightarrow> string \<Rightarrow> string \<Rightarrow> bool" where
  "starts n t buf \<longleftrightarrow> length buf = n \<and> length t \<le> n \<and> take (length t) buf = t"

lemma put_mem_starts:
  assumes "starts n t buf" and "length t + length xs \<le> n"
  shows "\<exists>b. put_mem (length t) xs buf = Inr b \<and> starts n (t @ xs) b"
  using assms by (auto simp: put_mem_def starts_def)

lemma starts_prefix: "starts n (t @ x) buf \<Longrightarrow> starts n t buf"
  by (auto simp: starts_def take_add)

lemma snprintf_starts:
  assumes "starts n pre buf" and "length pre + length t < n" and "length t < k" and "length pre + k \<le> n"
  shows "\<exists>b. snprintf_at (length pre) k t buf = Inr (length t, b) \<and> starts n (pre @ t) b"
proof -
  obtain b where "put_mem (length pre) (t @ [CHR 0x00]) buf = Inr b" "starts n (pre @ t @ [CHR 0x00]) b"
    using put_mem_starts [OF assms(1), of "t @ [CHR 0x00]"] assms(2) by auto
  then show ?thesis using assms(3) starts_prefix [of n "pre @ t" "[CHR 0x00]" b] by (simp add: snprintf_at_def)
qed

definition login_code :: "args \<Rightarrow> string" where
  "login_code a = base64 (map byte_of_char (credentials (a_user a) (a_password a)))"

lemma encode_starts:
  assumes "starts n pre buf" and "length pre + 4 \<le> n"
  shows "\<exists>b. encode_at (length pre) (int n - int (length pre) - 4) (a_user a) (a_password a) buf =
      Inr (length (login_code a), b) \<and> length b = n \<and>
    (length pre + length (login_code a) + 4 < n \<longrightarrow> starts n (pre @ login_code a) b)"
proof (cases "length pre + 4 = n")
  case True
  then show ?thesis using assms(1)
    by (simp add: encode_at_def encode_result Let_def login_code_def starts_def)
next
  case False
  let ?sz = "int n - int (length pre) - 4"
  let ?out = "take (nat (?sz - 1)) (login_code a) @ [CHR 0x00]"
  have sz: "0 < ?sz" using False assms(2) by simp
  have "length ?out \<le> nat ?sz" using sz by (simp add: min_def) linarith
  then have "length pre + length ?out \<le> n" using assms(2) by linarith
  then obtain b where b: "put_mem (length pre) ?out buf = Inr b" "starts n (pre @ ?out) b"
    using put_mem_starts [OF assms(1)] by blast
  have "starts n (pre @ login_code a) b" if "length pre + length (login_code a) + 4 < n"
    using b(2) starts_prefix [of n "pre @ login_code a" "[CHR 0x00]" b] that by simp
  then show ?thesis using b sz
    by (auto simp: encode_at_def encode_result Let_def login_code_def starts_def)
qed

lemma snprintf_total:
  assumes "length buf = n" and "pos + k \<le> n"
  shows "\<exists>b. snprintf_at pos k t buf = Inr (length t, b) \<and> length b = n"
proof -
  have "pos + length (if k = 0 then [] else take (k - 1) t @ [CHR 0x00]) \<le> length buf"
    using assms by (cases k) auto
  then show ?thesis using assms by (auto simp: snprintf_at_def put_mem_def)
qed

definition nmea_tail :: "args \<Rightarrow> string" where
  "nmea_tail a = (if a_nmea a \<noteq> None \<and> a_mode a \<noteq> HTTP then opt_str (a_nmea a) @ CRLF else [])"

lemma starts_Nil: "length buf = n \<Longrightarrow> starts n [] buf"
  by (simp add: starts_def)

lemma CRLF_length [simp]: "length CRLF = 2"
  by (simp add: CRLF_def)

lemma starts_sent: "starts n t buf \<Longrightarrow> sent_bytes (length t) buf = Inr t"
  by (simp add: starts_def sent_bytes_def)

text \<open>A request that fits: text, login and blank line are written one behind the other.\<close>

lemma request_fits:
  assumes "starts n pre buf" and "length t < k" and "length pre + k \<le> n"
    and "length pre + length t + length (login_code a) + 4 < n"
  shows "\<exists>b1 b2 b3. snprintf_at (length pre) k t buf = Inr (length t, b1) \<and>
    encode_at (length pre + length t) (int n - int (length pre + length t) - 4) (a_user a) (a_password a) b1 =
      Inr (length (login_code a), b2) \<and>
    put_mem (length pre + length t + length (login_code a)) (CRLF @ CRLF) b2 = Inr b3 \<and>
    starts n (pre @ t @ login_code a @ CRLF @ CRLF) b3"
proof -
  have "length pre + length t < n" using assms(4) by simp
  from snprintf_starts [OF assms(1) this assms(2,3)] obtain b1 where
    b1: "snprintf_at (length pre) k t buf = Inr (length t, b1)" "starts n (pre @ t) b1" by blast
  have "length (pre @ t) + 4 \<le> n" using assms(4) by simp
  from encode_starts [OF b1(2) this, of a] assms(4) obtain b2 where
    b2: "encode_at (length (pre @ t)) (int n - int (length (pre @ t)) - 4) (a_user a) (a_password a) b1 =
      Inr (length (login_code a), b2)" "starts n ((pre @ t) @ login_code a) b2" by auto
  have "length ((pre @ t) @ login_code a) + length (CRLF @ CRLF) \<le> n" using assms(4) by simp
  from put_mem_starts [OF b2(2) this] obtain b3 where
    b3: "put_mem (length ((pre @ t) @ login_code a)) (CRLF @ CRLF) b2 = Inr b3"
      "starts n (((pre @ t) @ login_code a) @ CRLF @ CRLF) b3" by blast
  show ?thesis using b1(1) b2(1) b3 by (intro exI conjI) (simp_all only: length_append append_assoc add.assoc)
qed

text \<open>The NMEA sentence behind a request of \<open>r\<close>.\<close>

lemma nmea_fits:
  assumes "starts n r b" and "length r < n"
  shows "\<exists>b'. snprintf_at (length r) (n - length r) t b = Inr (length t, b') \<and>
    (length t < n - length r \<longrightarrow> sent_bytes (length r + length t) b' = Inr (r @ t))"
proof -
  have n: "length b = n" "length r + (n - length r) \<le> n" using assms by (auto simp: starts_def)
  obtain b' where b': "snprintf_at (length r) (n - length r) t b = Inr (length t, b')"
    using snprintf_total [OF n] by blast
  have "sent_bytes (length r + length t) b' = Inr (r @ t)" if t: "length t < n - length r"
  proof -
    have "length r + length t < n" using t by linarith
    from snprintf_starts [OF assms(1) this t n(2)] b' have "starts n (r @ t) b'" by auto
    then show ?thesis using starts_sent [of n "r @ t" b'] by simp
  qed
  then show ?thesis using b' by blast
qed

text \<open>
  Away from two exact lengths the HTTP request is right: the code never writes beyond its buffer, and
  unless it stops because something is too long it sends the request line and headers, the base64 login,
  the blank line and, outside HTTP mode, the NMEA sentence, with nothing cut.
\<close>

theorem http_request_exact:
  assumes "length buf = MAXDATASIZE" and "a_data a \<noteq> None"
    and "length (http_get_text a proxy) \<noteq> 960" and "length (http_get_text a proxy) + length (login_code a) \<noteq> 996"
  shows "\<exists>stop i b. http_request a proxy buf = Inr (stop, i, b) \<and>
    (stop \<or> sent_bytes i b = Inr (http_get_text a proxy @ login_code a @ CRLF @ CRLF @ nmea_tail a))"
proof -
  let ?t = "http_get_text a proxy" and ?l = "login_code a"
  have buf: "length buf = 1000" using assms(1) by (simp add: MAXDATASIZE_def)
  obtain dt where dt: "a_data a = Some dt" using assms(2) by auto
  obtain b1 where b1: "snprintf_at 0 960 ?t buf = Inr (length ?t, b1)" "length b1 = 1000"
    using snprintf_total [OF buf, of 0 960 ?t] by auto
  consider (long_text) "960 < length ?t" | (long_login) "length ?t < 960" "996 < length ?t + length ?l"
    | (good) "length ?t < 960" "length ?t + length ?l + 4 < 1000" using assms(3,4) by linarith
  then show ?thesis
  proof cases
    case long_text
    then show ?thesis using assms(2) b1 by (auto simp: http_request_def MAXDATASIZE_def)
  next
    case long_login
    then have "starts 1000 ?t b1" using snprintf_starts [OF starts_Nil [OF buf], of ?t 960] b1 by auto
    from encode_starts [OF this, of a] long_login show ?thesis
      using assms(2) b1 by (auto simp: http_request_def MAXDATASIZE_def)
  next
    case good
    let ?r = "?t @ ?l @ CRLF @ CRLF" and ?n = "opt_str (a_nmea a) @ CRLF"
    have r: "length ?r = length ?t + length ?l + 4" by simp
    from request_fits [OF starts_Nil [OF buf], of ?t 960 a] good obtain c1 c2 c3 where
      c: "snprintf_at 0 960 ?t buf = Inr (length ?t, c1)"
        "encode_at (length ?t) (1000 - int (length ?t) - 4) (a_user a) (a_password a) c1 = Inr (length ?l, c2)"
        "put_mem (length ?t + length ?l) (CRLF @ CRLF) c2 = Inr c3" "starts 1000 ?r c3" by auto
    have s: "sent_bytes (length ?r) c3 = Inr ?r" by (rule starts_sent [OF c(4)])
    have "length ?r < 1000" using good r by linarith
    from nmea_fits [OF c(4) this, of ?n] obtain c4 where
      c4: "snprintf_at (length ?r) (1000 - length ?r) ?n c3 = Inr (length ?n, c4)"
        "length ?n < 1000 - length ?r \<Longrightarrow> sent_bytes (length ?r + length ?n) c4 = Inr (?r @ ?n)" by blast
    have q: "http_request a proxy buf =
       (if a_nmea a \<noteq> None \<and> a_mode a \<noteq> HTTP then
          (if length ?n < 1000 - length ?r then Inr (False, length ?r + length ?n, c4) else Inr (True, length ?r, c4))
        else Inr (False, length ?r, c3))"
      using c(1-3) c4(1) [unfolded r] good
      by (simp add: http_request_def MAXDATASIZE_def Let_def dt r del: length_append CRLF_length)
    show ?thesis
    proof (cases "a_nmea a \<noteq> None \<and> a_mode a \<noteq> HTTP")
      case False
      note e = if_not_P [OF False]
      show ?thesis using s unfolding q nmea_tail_def e append_Nil2 by blast
    next
      case True
      note e = if_P [OF True]
      show ?thesis unfolding q nmea_tail_def e using c4(2) by auto
    qed
  qed
qed

text \<open>The UDP request that fits goes out as header, text, login and blank line.\<close>

lemma udp_request_sent:
  assumes "length buf = RTPSIZE" and "length (udp_text a) < 1474" and "length (udp_text a) + length (login_code a) < 1510"
  shows "\<exists>i b. udp_request a sq tim session buf = Inr (False, i, b) \<and>
    sent_bytes i b = Inr (rtp_header 97 sq tim session @ udp_text a @ login_code a @ CRLF @ CRLF)"
proof -
  let ?h = "rtp_header 97 sq tim session"
  have h: "length ?h = 12" by (simp add: rtp_header_def)
  have buf: "length buf = 1526" using assms(1) by (simp add: RTPSIZE_def)
  from put_mem_starts [OF starts_Nil [OF buf], of ?h] h obtain b0 where
    b0: "put_mem 0 ?h buf = Inr b0" "starts 1526 ?h b0" by auto
  from request_fits [OF b0(2), of "udp_text a" 1474 a] assms h obtain b1 b2 b3 where
    b: "snprintf_at 12 1474 (udp_text a) b0 = Inr (length (udp_text a), b1)"
      "encode_at (12 + length (udp_text a)) (1526 - int (12 + length (udp_text a)) - 4) (a_user a) (a_password a) b1 =
        Inr (length (login_code a), b2)"
      "put_mem (12 + length (udp_text a) + length (login_code a)) (CRLF @ CRLF) b2 = Inr b3"
      "starts 1526 (?h @ udp_text a @ login_code a @ CRLF @ CRLF) b3" by auto
  have "udp_request a sq tim session buf =
      Inr (False, length (?h @ udp_text a @ login_code a @ CRLF @ CRLF), b3)"
    using b(1-3) b0(1) assms(2,3) h by (simp add: udp_request_def RTPSIZE_def Let_def)
  then show ?thesis using starts_sent [OF b(4)] by blast
qed

definition sample_args :: args where
  "sample_args = default_args\<lparr>a_data := Some ''RTCM33'', a_user := ''hnu'', a_password := ''pw'', a_mode := NTRIP1,
     a_nmea := Some ''$GPGGA,1''\<rparr>"

theorem http_request_exact_witness:
  "\<exists>stop i b. http_request sample_args None (replicate 1000 (CHR 0x00)) = Inr (stop, i, b) \<and>
    (stop \<or> sent_bytes i b = Inr (http_get_text sample_args None @ login_code sample_args @ CRLF @ CRLF @ ''$GPGGA,1'' @ CRLF))"
proof -
  have "length (http_get_text sample_args None) < 200" "length (login_code sample_args) < 20"
    "a_data sample_args \<noteq> None" "nmea_tail sample_args = ''$GPGGA,1'' @ CRLF"
    by (simp_all add: http_get_text_def sample_args_def default_args_def mode_defs gga_line_def auth_line_def has_login_def
        version_line_def proxy_prefix_def AGENT_def opt_str_def login_code_def base64_length credentials_def nmea_tail_def del: base64.simps)
  with http_request_exact [of "replicate 1000 (CHR 0x00)" sample_args None] show ?thesis
    by (simp add: MAXDATASIZE_def)
qed

text \<open>
  The length check is one too weak: a request of exactly 960 characters passes it although
  \<open>snprintf\<close> has replaced its last character by a zero byte, which is sent.
\<close>

theorem http_request_cut:
  assumes "length buf = MAXDATASIZE" and "a_data a \<noteq> None" "a_nmea a = None"
    and "length (http_get_text a proxy) = 960" and "length (login_code a) < 36"
  shows "\<exists>i b r. http_request a proxy buf = Inr (False, i, b) \<and> sent_bytes i b = Inr r \<and> r ! 959 = CHR 0x00"
proof -
  let ?t = "take 959 (http_get_text a proxy) @ [CHR 0x00]"
  have buf: "length buf = 1000" using assms(1) by (simp add: MAXDATASIZE_def)
  have l: "length ?t = 960" using assms(4) by simp
  obtain b1 where "put_mem 0 ?t buf = Inr b1" and s1: "starts 1000 ?t b1"
    using put_mem_starts [OF starts_Nil [OF buf], of ?t] l by auto
  then have b1: "snprintf_at 0 960 (http_get_text a proxy) buf = Inr (960, b1)" using assms(4) by (simp add: snprintf_at_def)
  obtain b2 where b2: "encode_at 960 36 (a_user a) (a_password a) b1 = Inr (length (login_code a), b2)"
    "starts 1000 (?t @ login_code a) b2"
    using encode_starts [OF s1, of a] l assms(5) by auto
  have len: "length (?t @ login_code a) + length (CRLF @ CRLF) \<le> 1000" using l assms(5) by simp
  obtain b3 where "put_mem (length (?t @ login_code a)) (CRLF @ CRLF) b2 = Inr b3"
    and b3: "starts 1000 ((?t @ login_code a) @ CRLF @ CRLF) b3"
    using put_mem_starts [OF b2(2) len] by blast
  then have "http_request a proxy buf = Inr (False, length ((?t @ login_code a) @ CRLF @ CRLF), b3)"
    using assms(2,3,5) b1 b2(1) l by (auto simp: http_request_def MAXDATASIZE_def assms(4))
  moreover have "((?t @ login_code a) @ CRLF @ CRLF) ! 959 = CHR 0x00" using l by (simp add: nth_append)
  ultimately show ?thesis using starts_sent [OF b3] by blast
qed

definition long_args :: args where
  "long_args = default_args\<lparr>a_data := Some (replicate 821 (CHR ''a''))\<rparr>"

lemma long_args_length: "length (http_get_text long_args None) = 960"
  by (simp add: http_get_text_def long_args_def default_args_def mode_defs gga_line_def auth_line_def has_login_def
      version_line_def proxy_prefix_def AGENT_def opt_str_def)

theorem http_request_cut_witness:
  "\<exists>i b r. http_request long_args None (replicate 1000 (CHR 0x00)) = Inr (False, i, b) \<and> sent_bytes i b = Inr r \<and>
    r ! 959 = CHR 0x00"
proof (rule http_request_cut)
  show "length (http_get_text long_args None) = 960" by (rule long_args_length)
qed (simp_all add: MAXDATASIZE_def long_args_def default_args_def login_code_def credentials_def)

text \<open>Without a mount point the length is not checked at all: a long server name sends bytes beyond the buffer.\<close>

theorem table_request_overreads:
  assumes "length buf = MAXDATASIZE" and "a_data a = None" and "MAXDATASIZE < length (table_text a proxy)"
  shows "\<exists>i b. http_request a proxy buf = Inr (False, i, b) \<and> sent_bytes i b = Inl OutOfBounds"
proof -
  obtain b where b: "snprintf_at 0 MAXDATASIZE (table_text a proxy) buf = Inr (length (table_text a proxy), b)"
    "length b = MAXDATASIZE"
    using snprintf_total [OF assms(1), of 0 MAXDATASIZE "table_text a proxy"] by auto
  then have "sent_bytes (length (table_text a proxy)) b = Inl OutOfBounds" using assms(3) by (simp add: sent_bytes_def)
  then show ?thesis using b(1) assms(2) by (auto simp: http_request_def)
qed

lemma encode_total:
  assumes "pos + nat sz \<le> length buf \<or> sz \<le> 0"
  shows "\<exists>b. encode_at pos sz (a_user a) (a_password a) buf = Inr (length (login_code a), b) \<and> length b = length buf"
proof (cases "0 < sz")
  case True
  then have "length (take (nat (sz - 1)) (login_code a) @ [CHR 0x00]) \<le> nat sz" by (simp add: min_def) linarith
  then show ?thesis using True assms
    by (auto simp: encode_at_def encode_result Let_def put_mem_def login_code_def)
next
  case False
  then show ?thesis by (simp add: encode_at_def encode_result Let_def login_code_def)
qed

text \<open>
  The RTSP set-up request has no such protection: when the request line, the headers and the login
  together need more than 996 bytes, \<open>stop\<close> is set but the final blank line is still written, beyond the
  buffer.
\<close>

theorem rtsp_setup_overflow:
  assumes "length buf = MAXDATASIZE"
    and "996 < length (setup_text a proxied cseq localport) + length (login_code a)"
  shows "rtsp_setup a proxied cseq localport buf = Inl OutOfBounds"
proof -
  let ?t = "setup_text a proxied cseq localport"
  obtain b1 where b1: "snprintf_at 0 (MAXDATASIZE - 40) ?t buf = Inr (length ?t, b1)" "length b1 = MAXDATASIZE"
    using snprintf_total [OF assms(1)] by force
  obtain b2 where "encode_at (length ?t) (int MAXDATASIZE - int (length ?t) - 4) (a_user a) (a_password a) b1 =
      Inr (length (login_code a), b2)" "length b2 = MAXDATASIZE"
    using encode_total [of "length ?t" "int MAXDATASIZE - int (length ?t) - 4" b1 a] b1(2) by force
  then show ?thesis using b1 assms(2) by (simp add: rtsp_setup_def put_mem_def MAXDATASIZE_def)
qed

theorem rtsp_setup_overflow_witness:
  "rtsp_setup (default_args\<lparr>a_data := Some (replicate 900 (CHR ''a''))\<rparr>) False 1 2101 (replicate 1000 (CHR 0x00)) =
     Inl OutOfBounds"
  by (rule rtsp_setup_overflow)
    (simp_all add: MAXDATASIZE_def setup_text_def rtsp_target_def default_args_def opt_str_def AGENT_def)

end
