(* ===== verification/NtripChunk.thy ===== *)
theory NtripChunk
  imports NtripArgs
begin

text \<open>
  Where the correction data goes in \<open>ntrip_client\<close> of \<open>src/Dgps/src/ntripclient.cpp\<close>: the loops that
  hand a block to the serial port or the standard output, and the decoder of the chunked transfer
  encoding. The reference is an automaton that reads one byte at a time.
\<close>

subsection \<open>Where the data goes\<close>

text \<open>
  The device side of one connection: the port, what \<open>write\<close> and \<open>open\<close> will answer to the next calls,
  the bytes the port took and the bytes on the standard output. A call without an answer has not
  returned.
\<close>

record dev =
  dv_port :: serial
  dv_writes :: "io_answer list"
  dv_opens :: "(int \<times> u32) list"
  dv_out :: string
  dv_stdout :: string

definition reopen :: "args \<Rightarrow> dev \<Rightarrow> error + dev" where
  "reopen a d =
     (case dv_opens d of [] \<Rightarrow> Inl NoReturn
      | (fd, old) # os \<Rightarrow>
          (case SerialInit (a_baud a) (a_stopbits a) (a_protocol a) (a_parity a) (a_databits a) fd old (dv_port d) of
             (_, port, _) \<Rightarrow> Inr (d\<lparr>dv_port := port, dv_opens := os\<rparr>)))"

text \<open>
  The loop around \<open>SerialWrite\<close>: a port that is not open is opened again and the rest of the block is
  dropped, a failed write sets \<open>args->stop\<close>, a short one goes on with the rest. The result tells
  whether \<open>stop\<close> was set.
\<close>

function serial_emit :: "args \<Rightarrow> string \<Rightarrow> dev \<Rightarrow> error + dev \<times> bool" where
  "serial_emit a xs d =
     (if xs = [] then Inr (d, False)
      else if \<not> isOpen (dv_port d) then map_sum id (\<lambda>d. (d, False)) (reopen a d)
      else (case dv_writes d of [] \<Rightarrow> Inl NoReturn
        | r # rs \<Rightarrow>
            let j = SerialWrite (dv_port d) r; d' = d\<lparr>dv_writes := rs\<rparr> in
            if j < 0 then Inr (d', True)
            else serial_emit a (drop (nat j) xs) (d'\<lparr>dv_out := dv_out d' @ take (nat j) xs\<rparr>)))"
  by pat_completeness auto

termination
  by (relation "measure (\<lambda>(a, xs, d). length (dv_writes d))") auto

declare serial_emit.simps [simp del]

text \<open>\<open>fwrite\<close> to the standard output.\<close>

definition stdout_emit :: "string \<Rightarrow> dev \<Rightarrow> error + dev \<times> bool" where
  "stdout_emit xs d = Inr (d\<lparr>dv_stdout := dv_stdout d @ xs\<rparr>, False)"

definition emit :: "args \<Rightarrow> string \<Rightarrow> dev \<Rightarrow> error + dev \<times> bool" where
  "emit a = (if a_serdevice a \<noteq> None then serial_emit a else stdout_emit)"

subsection \<open>The chunk decoder\<close>

definition schar :: "char \<Rightarrow> int" where
  "schar c = (if of_char c < (128 :: int) then of_char c else of_char c - 256)"

record chunk_state =
  chunkymode :: nat
  chunksize :: int
  totalbytes :: int
  ch_i :: int

text \<open>\<open>chunksize*16+i-'0'\<close> and its like: \<open>base\<close> is what the digit's character is reduced by.\<close>

definition next_size :: "int \<Rightarrow> int \<Rightarrow> int \<Rightarrow> error + int" where
  "next_size sz i base = (if INT_MAX < sz * 16 + i then Inl SignedOverflow else Inr (sz * 16 + i - base))"

text \<open>
  One round of \<open>while(!args->stop && !cstop && !error && pos < numbytes)\<close> on what is left of the
  packet: the rest, the state, the device, \<open>cstop\<close> and \<open>args->stop\<close>.
\<close>

definition size_step :: "char \<Rightarrow> chunk_state \<Rightarrow> error + chunk_state \<times> bool" where
  "size_step c st =
     (let i = schar c; st = st\<lparr>ch_i := i\<rparr>;
          digit = (\<lambda>base. map_sum id (\<lambda>s. (st\<lparr>chunksize := s\<rparr>, False)) (next_size (chunksize st) i base)) in
      if 48 \<le> i \<and> i \<le> 57 then digit 48
      else if 97 \<le> i \<and> i \<le> 102 then digit 87
      else if 65 \<le> i \<and> i \<le> 70 then digit 55
      else if i = 13 then Inr (st\<lparr>chunkymode := chunkymode st + 1\<rparr>, False)
      else if i = 59 then Inr (st\<lparr>chunkymode := 5\<rparr>, False)
      else Inr (st, True))"

definition data_step :: "(string \<Rightarrow> 'd \<Rightarrow> error + 'd \<times> bool) \<Rightarrow> string \<Rightarrow> chunk_state \<Rightarrow> 'd
    \<Rightarrow> error + string \<times> chunk_state \<times> 'd \<times> bool \<times> bool" where
  "data_step out buf st d =
     (let i = min (int (length buf)) (chunksize st); st = st\<lparr>ch_i := i\<rparr> in
      case out (take (nat i) buf) d of Inl e \<Rightarrow> Inl e
      | Inr (d', stop) \<Rightarrow>
          (case add_int (totalbytes st) i of Inl e \<Rightarrow> Inl e
           | Inr tot \<Rightarrow>
               let sz = chunksize st - i in
               Inr (drop (nat i) buf,
                 st\<lparr>totalbytes := tot, chunksize := sz, chunkymode := (if sz = 0 then 1 else chunkymode st)\<rparr>,
                 d', False, stop)))"

definition chunk_step :: "(string \<Rightarrow> 'd \<Rightarrow> error + 'd \<times> bool) \<Rightarrow> string \<Rightarrow> chunk_state \<Rightarrow> 'd
    \<Rightarrow> error + string \<times> chunk_state \<times> 'd \<times> bool \<times> bool" where
  "chunk_step out buf st d =
     (let m = chunkymode st in
      if m = 1 then map_sum id (\<lambda>(st, cstop). (tl buf, st, d, cstop, False))
          (size_step (hd buf) (st\<lparr>chunksize := 0, chunkymode := 2\<rparr>))
      else if m = 2 then map_sum id (\<lambda>(st, cstop). (tl buf, st, d, cstop, False)) (size_step (hd buf) st)
      else if m = 3 then
        (if hd buf = CHR 0x0A then Inr (tl buf, st\<lparr>chunkymode := (if chunksize st \<noteq> 0 then 4 else 1)\<rparr>, d, False, False)
         else Inr (tl buf, st, d, True, False))
      else if m = 4 then data_step out buf st d
      else if m = 5 then
        Inr (buf, if ch_i st = 13 then st\<lparr>chunkymode := 3\<rparr> else st, d, False, False)
      else Inr (buf, st, d, False, False))"

text \<open>The loop; a packet needs at most two rounds for each byte, unless it never ends.\<close>

fun chunk_loop :: "(string \<Rightarrow> 'd \<Rightarrow> error + 'd \<times> bool) \<Rightarrow> nat \<Rightarrow> string \<Rightarrow> chunk_state \<Rightarrow> 'd
    \<Rightarrow> error + chunk_state \<times> 'd \<times> bool \<times> bool" where
  "chunk_loop out fuel [] st d = Inr (st, d, False, False)"
| "chunk_loop out 0 (c # buf) st d = Inl NoReturn"
| "chunk_loop out (Suc fuel) (c # buf) st d =
     (case chunk_step out (c # buf) st d of Inl e \<Rightarrow> Inl e
      | Inr (rest, st', d', cstop, stop) \<Rightarrow>
          if cstop \<or> stop then Inr (st', d', cstop, stop) else chunk_loop out fuel rest st' d')"

definition chunk_fuel :: "string \<Rightarrow> nat" where
  "chunk_fuel buf = 2 * length buf"

text \<open>The packets of one connection, one after the other.\<close>

fun chunk_packets :: "(string \<Rightarrow> 'd \<Rightarrow> error + 'd \<times> bool) \<Rightarrow> string list \<Rightarrow> chunk_state \<Rightarrow> 'd
    \<Rightarrow> error + chunk_state \<times> 'd \<times> bool \<times> bool" where
  "chunk_packets out [] st d = Inr (st, d, False, False)"
| "chunk_packets out (p # ps) st d =
     (case chunk_loop out (chunk_fuel p) p st d of Inl e \<Rightarrow> Inl e
      | Inr (st', d', cstop, stop) \<Rightarrow>
          if cstop \<or> stop then Inr (st', d', cstop, stop) else chunk_packets out ps st' d')"

subsection \<open>Sinks\<close>

text \<open>
  A sink that has room for \<open>n\<close> more bytes: it takes a block that fits without stopping the client.
\<close>

locale sink =
  fixes out :: "string \<Rightarrow> 'd \<Rightarrow> error + 'd \<times> bool"
    and taken :: "'d \<Rightarrow> string"
    and room :: "nat \<Rightarrow> 'd \<Rightarrow> bool"
  assumes takes: "room n d \<Longrightarrow> length xs \<le> n \<Longrightarrow>
    \<exists>d'. out xs d = Inr (d', False) \<and> taken d' = taken d @ xs \<and> room (n - length xs) d'"

definition serial_room :: "nat \<Rightarrow> dev \<Rightarrow> bool" where
  "serial_room n d \<longleftrightarrow> isOpen (dv_port d) \<and> n \<le> length (dv_writes d) \<and>
     (\<forall>r \<in> set (dv_writes d). \<exists>k. r = Bytes (Suc k))"

lemma serial_emit_takes:
  "serial_room n d \<Longrightarrow> length xs \<le> n \<Longrightarrow>
   \<exists>d'. serial_emit a xs d = Inr (d', False) \<and> dv_out d' = dv_out d @ xs \<and> serial_room (n - length xs) d'"
proof (induction a xs d arbitrary: n rule: serial_emit.induct)
  case (1 a xs d)
  show ?case
  proof (cases "xs = []")
    case True
    then show ?thesis using "1.prems" by (simp add: serial_emit.simps)
  next
    case False
    then obtain r rs where w: "dv_writes d = r # rs"
      using "1.prems" by (cases "dv_writes d") (auto simp: serial_room_def)
    then obtain k where r: "r = Bytes (Suc k)" using "1.prems"(1) by (auto simp: serial_room_def)
    have op: "isOpen (dv_port d)" using "1.prems"(1) by (simp add: serial_room_def)
    have j: "SerialWrite (dv_port d) r = int (Suc k)" using op r by (simp add: SerialWrite_def io_result_def)
    define d2 where "d2 = d\<lparr>dv_writes := rs, dv_out := dv_out d @ take (Suc k) xs\<rparr>"
    have e: "serial_emit a xs d = serial_emit a (drop (Suc k) xs) d2"
      using False op w j by (subst serial_emit.simps) (simp add: d2_def Let_def nat_add_distrib)
    have "serial_room (n - 1) d2" using "1.prems"(1) w by (auto simp: serial_room_def d2_def)
    moreover have len: "length (drop (Suc k) xs) \<le> n - 1" using "1.prems"(2) by simp
    ultimately obtain d' where d': "serial_emit a (drop (Suc k) xs) d2 = Inr (d', False)"
      "dv_out d' = dv_out d2 @ drop (Suc k) xs" "serial_room (n - 1 - length (drop (Suc k) xs)) d'"
      using "1.IH" [of r rs "int (Suc k)" "d\<lparr>dv_writes := rs\<rparr>" "n - 1"] False op w j
      by (auto simp: d2_def nat_add_distrib)
    moreover have "serial_room (n - length xs) d'"
    proof -
      have "n - length xs \<le> n - 1 - length (drop (Suc k) xs)" using False by (cases xs) auto
      then show ?thesis using d'(3) unfolding serial_room_def by linarith
    qed
    ultimately show ?thesis by (simp add: e d2_def)
  qed
qed

interpretation serial: sink "serial_emit a" dv_out serial_room for a
  by unfold_locales (rule serial_emit_takes)

interpretation stdout: sink stdout_emit dv_stdout "\<lambda>n d. True"
  by unfold_locales (simp add: stdout_emit_def)

subsection \<open>One byte at a time\<close>

text \<open>
  The automaton: the mode and the size that is left, the next ones and the data byte it delivers. It has
  no step for a byte that the format does not allow there, for an extension and for a size that does
  not fit into an \<open>int\<close>.
\<close>

definition feed :: "char \<Rightarrow> nat \<times> int \<Rightarrow> ((nat \<times> int) \<times> string) option" where
  "feed c = (\<lambda>(m, sz).
     if m = 1 \<or> m = 2 then
       (let s0 = (if m = 1 then 0 else sz) in
        case hex_val c of
          Some v \<Rightarrow> if INT_MAX < s0 * 16 + schar c then None else Some ((2, s0 * 16 + int v), [])
        | None \<Rightarrow> if c = CHR 0x0D then Some ((3, s0), []) else None)
     else if m = 3 then (if c = CHR 0x0A then Some ((if sz = 0 then 1 else 4, sz), []) else None)
     else if m = 4 then Some ((if sz = 1 then 1 else 4, sz - 1), [c])
     else None)"

fun feeds :: "string \<Rightarrow> nat \<times> int \<Rightarrow> ((nat \<times> int) \<times> string) option" where
  "feeds [] s = Some (s, [])"
| "feeds (c # cs) s =
     (case feed c s of None \<Rightarrow> None
      | Some (s1, o1) \<Rightarrow> map_option (\<lambda>(s2, o2). (s2, o1 @ o2)) (feeds cs s1))"

lemma feeds_append:
  "feeds (xs @ ys) s = (case feeds xs s of None \<Rightarrow> None
     | Some (s1, o1) \<Rightarrow> map_option (\<lambda>(s2, o2). (s2, o1 @ o2)) (feeds ys s1))"
proof (induction xs arbitrary: s)
  case Nil
  then show ?case by (cases "feeds ys s") auto
next
  case (Cons x xs)
  then show ?case by (auto simp: map_option_case split: option.splits)
qed

definition feed_inv :: "nat \<times> int \<Rightarrow> bool" where
  "feed_inv s \<longleftrightarrow> 0 \<le> snd s \<and> (fst s = 4 \<longrightarrow> 0 < snd s)"

lemma feed_inv_step: "feed c s = Some (s', o1) \<Longrightarrow> feed_inv s \<Longrightarrow> feed_inv s'"
  by (cases s) (auto simp: feed_def feed_inv_def Let_def split: if_splits option.splits)

lemma feeds_inv: "feeds cs s = Some (s', o1) \<Longrightarrow> feed_inv s \<Longrightarrow> feed_inv s'"
  by (induction cs arbitrary: s o1) (auto split: option.splits dest: feed_inv_step)

lemma feeds_data:
  "xs \<noteq> [] \<Longrightarrow> int (length xs) \<le> sz \<Longrightarrow>
   feeds xs (4, sz) = Some ((if int (length xs) = sz then 1 else 4, sz - int (length xs)), xs)"
proof (induction xs arbitrary: sz)
  case (Cons x xs)
  then show ?case by (cases "xs = []") (auto simp: feed_def)
qed simp

lemma feed_length: "feed c s = Some (s', o1) \<Longrightarrow> length o1 \<le> 1"
  by (cases s) (auto simp: feed_def Let_def split: if_splits option.splits)

lemma feeds_length: "feeds cs s = Some (s', o1) \<Longrightarrow> length o1 \<le> length cs"
  by (induction cs arbitrary: s o1) (fastforce split: option.splits dest: feed_length)+

text \<open>The digits as the code reads them, by the signed value of the character.\<close>

lemma of_char_int: "(of_char c :: int) = int (of_char c)"
  by (simp add: of_nat_of_char)

lemma hex_val_Some:
  "hex_val c = Some v \<longleftrightarrow>
     (48 \<le> schar c \<and> schar c \<le> 57 \<and> int v = schar c - 48 \<or>
      97 \<le> schar c \<and> schar c \<le> 102 \<and> int v = schar c - 87 \<or>
      65 \<le> schar c \<and> schar c \<le> 70 \<and> int v = schar c - 55)"
proof -
  define n where "n = (of_char c :: nat)"
  have "n < 256" unfolding n_def by simp
  then show ?thesis unfolding hex_val_def schar_def of_char_int n_def [symmetric] by (auto simp: Let_def)
qed

lemma schar_eq: "schar c = schar c' \<longleftrightarrow> c = c'"
proof
  assume e: "schar c = schar c'"
  define n n' where "n = (of_char c :: nat)" and "n' = (of_char c' :: nat)"
  have "n < 256" "n' < 256" unfolding n_def n'_def by simp_all
  then have "n = n'"
    using e unfolding schar_def of_char_int n_def [symmetric] n'_def [symmetric] by (auto split: if_splits)
  then have "(of_char c :: nat) = of_char c'" unfolding n_def n'_def .
  then show "c = c'" by (metis char_of_char)
qed simp

lemma hex_val_schar: "hex_val c = Some v \<Longrightarrow> 0 \<le> schar c"
  unfolding hex_val_Some by auto

lemma size_step_digit:
  assumes "hex_val c = Some v" and "chunksize st * 16 + schar c \<le> INT_MAX"
  shows "size_step c st = Inr (st\<lparr>ch_i := schar c, chunksize := chunksize st * 16 + int v\<rparr>, False)"
  using assms unfolding hex_val_Some by (auto simp: size_step_def next_size_def Let_def)

lemma size_step_cr:
  "size_step (CHR 0x0D) st = Inr (st\<lparr>ch_i := 13, chunkymode := chunkymode st + 1\<rparr>, False)"
  by (simp add: size_step_def schar_def Let_def)

text \<open>The automaton step of a size byte is the step of the code.\<close>

lemma size_step_feed:
  assumes "feed c (m, sz) = Some ((m', sz'), o1)" and "m = 1 \<or> m = 2"
    and "chunkymode st = 2" and "chunksize st = (if m = 1 then 0 else sz)"
  shows "\<exists>i. size_step c st = Inr (st\<lparr>ch_i := i, chunkymode := m', chunksize := sz'\<rparr>, False) \<and> o1 = []"
proof (cases "hex_val c")
  case (Some v)
  then have "chunksize st * 16 + schar c \<le> INT_MAX" "m' = 2" "sz' = chunksize st * 16 + int v" "o1 = []"
    using assms(1,2,4) by (auto simp: feed_def Let_def split: if_splits)
  then show ?thesis using size_step_digit [OF Some] assms(3) by (metis chunk_state.surjective chunk_state.update_convs(1,2,4))
next
  case None
  then have "c = CHR 0x0D" "m' = 3" "sz' = chunksize st" "o1 = []"
    using assms(1,2,4) by (auto simp: feed_def Let_def split: if_splits)
  then show ?thesis using size_step_cr assms(3) by auto
qed

subsection \<open>The code follows the automaton\<close>

context sink
begin

lemma chunk_step_byte:
  assumes f: "feed c (chunkymode st, chunksize st) = Some ((m', sz'), o1)" and "chunkymode st \<noteq> 4"
  shows "\<exists>i. chunk_step out (c # buf) st d =
      Inr (buf, st\<lparr>ch_i := i, chunkymode := m', chunksize := sz'\<rparr>, d, False, False) \<and> o1 = []"
proof -
  have "chunkymode st = 1 \<or> chunkymode st = 2 \<or> chunkymode st = 3"
    using f assms(2) by (auto simp: feed_def split: if_splits)
  then consider "chunkymode st = 1" | "chunkymode st = 2" | "chunkymode st = 3" by blast
  then show ?thesis
  proof cases
    case 1
    obtain i where "size_step c (st\<lparr>chunksize := 0, chunkymode := 2\<rparr>) =
        Inr (st\<lparr>chunksize := 0, chunkymode := 2, ch_i := i, chunkymode := m', chunksize := sz'\<rparr>, False)" "o1 = []"
      using size_step_feed [of c "chunkymode st" "chunksize st" m' sz' o1 "st\<lparr>chunksize := 0, chunkymode := 2\<rparr>"] f 1
      by auto
    then show ?thesis using 1 by (auto simp: chunk_step_def)
  next
    case 2
    obtain i where "size_step c st = Inr (st\<lparr>ch_i := i, chunkymode := m', chunksize := sz'\<rparr>, False)" "o1 = []"
      using size_step_feed [OF f] 2 by auto
    then show ?thesis using 2 by (auto simp: chunk_step_def)
  next
    case 3
    then have "c = CHR 0x0A" "m' = (if chunksize st = 0 then 1 else 4)" "sz' = chunksize st" "o1 = []"
      using f by (auto simp: feed_def split: if_splits)
    then show ?thesis using 3 by (auto simp: chunk_step_def intro: exI [of _ "ch_i st"])
  qed
qed

text \<open>The block that one round of mode 4 takes.\<close>

lemma chunk_step_data:
  assumes "chunkymode st = 4" and "buf \<noteq> []" and "0 < chunksize st" and "room n d"
    and "i = min (length buf) (nat (chunksize st))" and "i \<le> n"
    and "INT_MIN \<le> totalbytes st" "totalbytes st + int i \<le> INT_MAX"
  shows "\<exists>d'. chunk_step out buf st d = Inr (drop i buf,
      st\<lparr>ch_i := int i, totalbytes := totalbytes st + int i, chunksize := chunksize st - int i,
        chunkymode := (if chunksize st = int i then 1 else 4)\<rparr>, d', False, False) \<and>
    taken d' = taken d @ take i buf \<and> room (n - i) d'"
proof -
  have i: "min (int (length buf)) (chunksize st) = int i" using assms(3) unfolding assms(5) by (simp add: of_nat_min)
  have "length (take i buf) = i" using assms(5) by simp
  then obtain d' where "out (take i buf) d = Inr (d', False)" "taken d' = taken d @ take i buf" "room (n - i) d'"
    using takes [OF assms(4), of "take i buf"] assms(6) by auto
  moreover have "add_int (totalbytes st) (int i) = Inr (totalbytes st + int i)"
    using assms(7,8) by (simp add: add_int_Inr)
  ultimately show ?thesis using assms(1) by (simp add: chunk_step_def data_step_def i Let_def)
qed

lemma chunk_loop_feeds:
  assumes "feeds buf (chunkymode st, chunksize st) = Some ((m', sz'), o1)"
    and "feed_inv (chunkymode st, chunksize st)" and "room n d" and "length o1 \<le> n"
    and "0 \<le> totalbytes st" "totalbytes st + int (length o1) \<le> INT_MAX" and "length buf \<le> fuel"
  shows "\<exists>st' d'. chunk_loop out fuel buf st d = Inr (st', d', False, False) \<and>
    chunkymode st' = m' \<and> chunksize st' = sz' \<and> totalbytes st' = totalbytes st + int (length o1) \<and>
    taken d' = taken d @ o1 \<and> room (n - length o1) d'"
  using assms
proof (induction fuel arbitrary: buf st d o1 n)
  case 0
  then show ?case by simp
next
  case (Suc fuel)
  show ?case
  proof (cases buf)
    case Nil
    then show ?thesis using Suc.prems by simp
  next
    case (Cons c cs)
    show ?thesis
    proof (cases "chunkymode st = 4")
      case False
      obtain m1 z1 e1 o2 where f: "feed c (chunkymode st, chunksize st) = Some ((m1, z1), e1)"
        and fs: "feeds cs (m1, z1) = Some ((m', sz'), o2)" and o1: "o1 = e1 @ o2"
        using Suc.prems(1) Cons by (auto split: option.splits)
      obtain i where st: "chunk_step out (c # cs) st d =
          Inr (cs, st\<lparr>ch_i := i, chunkymode := m1, chunksize := z1\<rparr>, d, False, False)" and e1: "e1 = []"
        using chunk_step_byte [OF f False] by blast
      have "feed_inv (m1, z1)" using feed_inv_step [OF f] Suc.prems(2) by simp
      then show ?thesis
        using Suc.IH [of cs "st\<lparr>ch_i := i, chunkymode := m1, chunksize := z1\<rparr>" o2 n d] fs Suc.prems(3-7) Cons
        by (simp add: st o1 e1)
    next
      case True
      define k where "k = min (length buf) (nat (chunksize st))"
      have sz: "0 < chunksize st" using Suc.prems(2) True by (simp add: feed_inv_def)
      have k0: "0 < k" and kl: "k \<le> length buf" "int k \<le> chunksize st" using sz Cons by (auto simp: k_def min_def)
      let ?s = "(if chunksize st = int k then 1 else 4 :: nat, chunksize st - int k)"
      have xs: "feeds (take k buf) (4, chunksize st) = Some (?s, take k buf)"
        using feeds_data [of "take k buf" "chunksize st"] k0 kl Cons by auto
      then obtain o2 where fs: "feeds (drop k buf) ?s = Some ((m', sz'), o2)" and o1: "o1 = take k buf @ o2"
        using Suc.prems(1) feeds_append [of "take k buf" "drop k buf" "(4, chunksize st)"] True
        by (cases "feeds (drop k buf) ?s") auto
      have lo: "length o1 = k + length o2" using kl by (simp add: o1)
      obtain d2 where st: "chunk_step out buf st d = Inr (drop k buf,
          st\<lparr>ch_i := int k, totalbytes := totalbytes st + int k, chunksize := chunksize st - int k,
            chunkymode := (if chunksize st = int k then 1 else 4)\<rparr>, d2, False, False)"
        and d2: "taken d2 = taken d @ take k buf" "room (n - k) d2"
        using chunk_step_data [OF True _ sz Suc.prems(3) k_def] Suc.prems(4-6) Cons lo
        by (auto simp: INT_MIN_def)
      define st2 where "st2 = st\<lparr>ch_i := int k, totalbytes := totalbytes st + int k,
          chunksize := chunksize st - int k, chunkymode := (if chunksize st = int k then 1 else 4)\<rparr>"
      have s2: "(chunkymode st2, chunksize st2) = ?s" "totalbytes st2 = totalbytes st + int k" by (simp_all add: st2_def)
      have "feed_inv ?s" using kl by (auto simp: feed_inv_def)
      moreover have "length (drop k buf) \<le> fuel" using Suc.prems(7) k0 by simp
      moreover have "length o2 \<le> n - k" "0 \<le> totalbytes st2" "totalbytes st2 + int (length o2) \<le> INT_MAX"
        using Suc.prems(4-6) lo s2(2) by simp_all
      ultimately obtain st' d' where "chunk_loop out fuel (drop k buf) st2 d2 = Inr (st', d', False, False)"
        "chunkymode st' = m'" "chunksize st' = sz'" "totalbytes st' = totalbytes st2 + int (length o2)"
        "taken d' = taken d2 @ o2" "room (n - k - length o2) d'"
        using Suc.IH [OF fs [folded s2(1)] _ d2(2)] unfolding s2(1) by blast
      moreover have "chunk_loop out (Suc fuel) buf st d = chunk_loop out fuel (drop k buf) st2 d2"
        using st unfolding Cons st2_def by simp
      ultimately show ?thesis using kl(1) by (simp add: o1 d2(1) s2(2) min_absorb2)
    qed
  qed
qed

text \<open>Packet after packet, each as it comes from \<open>recv\<close>.\<close>

lemma chunk_packets_feeds:
  assumes "feeds (concat ps) (chunkymode st, chunksize st) = Some ((m', sz'), o1)"
    and "feed_inv (chunkymode st, chunksize st)" and "room n d" and "length o1 \<le> n"
    and "0 \<le> totalbytes st" "totalbytes st + int (length o1) \<le> INT_MAX"
  shows "\<exists>st' d'. chunk_packets out ps st d = Inr (st', d', False, False) \<and>
    chunkymode st' = m' \<and> chunksize st' = sz' \<and> taken d' = taken d @ o1"
  using assms
proof (induction ps arbitrary: st d o1 n)
  case Nil
  then show ?case by simp
next
  case (Cons p ps)
  obtain m1 z1 e1 o2 where f: "feeds p (chunkymode st, chunksize st) = Some ((m1, z1), e1)"
    and fs: "feeds (concat ps) (m1, z1) = Some ((m', sz'), o2)" and o1: "o1 = e1 @ o2"
    using Cons.prems(1) feeds_append [of p "concat ps"] by (auto split: option.splits)
  have e: "length e1 \<le> n" "totalbytes st + int (length e1) \<le> INT_MAX" using Cons.prems(4,6) by (simp_all add: o1)
  obtain st1 d1 where c: "chunk_loop out (chunk_fuel p) p st d = Inr (st1, d1, False, False)"
    "chunkymode st1 = m1" "chunksize st1 = z1" "totalbytes st1 = totalbytes st + int (length e1)"
    "taken d1 = taken d @ e1" "room (n - length e1) d1"
    using chunk_loop_feeds [OF f Cons.prems(2,3) e(1) Cons.prems(5) e(2), of "chunk_fuel p"]
    by (auto simp: chunk_fuel_def)
  have "feed_inv (m1, z1)" using feeds_inv [OF f] Cons.prems(2) by simp
  then show ?case
    using Cons.IH [of st1 o2 "n - length e1" d1] c fs Cons.prems(4-6) by (simp add: o1)
qed

end

subsection \<open>Chunked messages\<close>

text \<open>A chunk is its size as a hexadecimal numeral and its data.\<close>

definition chunk_text :: "string \<times> string \<Rightarrow> string" where
  "chunk_text ch = fst ch @ [CHR 0x0D, CHR 0x0A] @ snd ch @ [CHR 0x0D, CHR 0x0A]"

definition chunk_ok :: "string \<times> string \<Rightarrow> bool" where
  "chunk_ok ch \<longleftrightarrow> fst ch \<noteq> [] \<and> list_all is_hex (fst ch) \<and> hex_value (fst ch) = length (snd ch) \<and>
     snd ch \<noteq> [] \<and> int (length (snd ch)) + 87 \<le> INT_MAX"

lemma feed_digit:
  assumes "hex_val c = Some v" and "m = 1 \<or> m = 2" and "(if m = 1 then 0 else sz) * 16 + int v + 87 \<le> INT_MAX"
  shows "feed c (m, sz) = Some ((2, (if m = 1 then 0 else sz) * 16 + int v), [])"
proof -
  have "schar c \<le> int v + 87" using assms(1) unfolding hex_val_Some by auto
  then show ?thesis using assms by (auto simp: feed_def Let_def)
qed

lemma feeds_hex:
  "h \<noteq> [] \<Longrightarrow> list_all is_hex h \<Longrightarrow> int (hex_value h) + 87 \<le> INT_MAX \<Longrightarrow>
   feeds h (1, z) = Some ((2, int (hex_value h)), [])"
proof (induction h rule: rev_induct)
  case (snoc c h)
  obtain v where v: "hex_val c = Some v" using snoc.prems(2) by (auto simp: is_hex_def)
  show ?case
  proof (cases "h = []")
    case True
    then show ?thesis using feed_digit [OF v, of 1 z] snoc.prems(3) v by (simp add: hex_value_def)
  next
    case False
    then have "feeds h (1, z) = Some ((2, int (hex_value h)), [])"
      using snoc v by simp
    then show ?thesis
      using feed_digit [OF v, of 2 "int (hex_value h)"] snoc.prems(3) v by (simp add: feeds_append mult.commute)
  qed
qed simp

lemma feeds_crlf: "feeds [CHR 0x0D, CHR 0x0A] (1, z) = Some ((1, 0), [])"
  "feeds [CHR 0x0D, CHR 0x0A] (2, z) = Some ((if z = 0 then 1 else 4, z), [])"
  by (simp_all add: feed_def hex_val_def)

lemma feeds_chunk:
  assumes "chunk_ok ch"
  shows "feeds (chunk_text ch) (1, z) = Some ((1, 0), snd ch)"
proof -
  let ?n = "int (length (snd ch))"
  have h: "feeds (fst ch) (1, z) = Some ((2, ?n), [])" using feeds_hex [of "fst ch" z] assms by (simp add: chunk_ok_def)
  have n: "?n \<noteq> 0" using assms by (simp add: chunk_ok_def)
  have x: "feeds (snd ch) (4, ?n) = Some ((1, 0), snd ch)" using feeds_data [of "snd ch" ?n] assms by (simp add: chunk_ok_def)
  show ?thesis using n unfolding chunk_text_def feeds_append h option.case prod.case
    by (simp add: feeds_append feeds_crlf x del: feeds.simps One_nat_def)
qed

lemma feeds_chunks:
  "\<forall>ch \<in> set chs. chunk_ok ch \<Longrightarrow> feeds (concat (map chunk_text chs)) (1, 0) = Some ((1, 0), concat (map snd chs))"
  by (induction chs) (simp_all add: feeds_append feeds_chunk del: One_nat_def)

text \<open>
  C23: However the network cuts a chunked message into packets, the serial port gets exactly the data of
  its chunks in order, with short writes completed, and the decoder is back at the start of a chunk.
\<close>

theorem chunked_stream_delivered:
  assumes "concat ps = concat (map chunk_text chs)" and "\<forall>ch \<in> set chs. chunk_ok ch"
    and "chunkymode st = 1" "chunksize st = 0" "0 \<le> totalbytes st"
    and "totalbytes st + int (length (concat (map snd chs))) \<le> INT_MAX"
    and "serial_room (length (concat (map snd chs))) d"
  shows "\<exists>st' d'. chunk_packets (serial_emit a) ps st d = Inr (st', d', False, False) \<and>
    dv_out d' = dv_out d @ concat (map snd chs) \<and> chunkymode st' = 1 \<and> chunksize st' = 0"
  using serial.chunk_packets_feeds [of ps st 1 0 "concat (map snd chs)" "length (concat (map snd chs))" d a]
    feeds_chunks [OF assms(2)] assms(1,3-7)
  by (auto simp: feed_inv_def)

definition sample_dev :: dev where
  "sample_dev = \<lparr>dv_port = \<lparr>Termios = 0, Stream = 3, isOpen = True\<rparr>,
     dv_writes = [Bytes 2, Bytes 1, Bytes 9, Bytes 1, Bytes 5], dv_opens = [], dv_out = [], dv_stdout = []\<rparr>"

theorem chunked_stream_delivered_witness:
  "\<exists>st' d'. chunk_packets (serial_emit default_args)
      [''3'' @ [CHR 0x0D], CHR 0x0A # ''ab'', ''c'' @ [CHR 0x0D, CHR 0x0A] @ ''02'', [CHR 0x0D, CHR 0x0A] @ ''de'' @ [CHR 0x0D, CHR 0x0A]]
      \<lparr>chunkymode = 1, chunksize = 0, totalbytes = 0, ch_i = 0\<rparr> sample_dev = Inr (st', d', False, False) \<and>
    dv_out d' = ''abcde''"
proof -
  let ?chs = "[(''3'', ''abc''), (''02'', ''de'')]"
  have "\<forall>ch \<in> set ?chs. chunk_ok ch" by code_simp
  moreover have "serial_room (length (concat (map snd ?chs))) sample_dev"
    by (simp add: serial_room_def sample_dev_def)
  ultimately show ?thesis
    using chunked_stream_delivered [of "[''3'' @ [CHR 0x0D], CHR 0x0A # ''ab'', ''c'' @ [CHR 0x0D, CHR 0x0A] @ ''02'',
        [CHR 0x0D, CHR 0x0A] @ ''de'' @ [CHR 0x0D, CHR 0x0A]]" ?chs
        "\<lparr>chunkymode = 1, chunksize = 0, totalbytes = 0, ch_i = 0\<rparr>" sample_dev default_args]
    by (auto simp: chunk_text_def INT_MAX_def sample_dev_def)
qed

text \<open>
  A chunk extension stops the client for good: after the semicolon the loop neither reads on nor
  leaves, however long it runs.
\<close>

theorem chunk_extension_hangs:
  assumes "chunkymode st = 1 \<or> chunkymode st = 2" and "rest \<noteq> []"
  shows "chunk_loop out fuel (CHR '';'' # rest) st d = Inl NoReturn"
proof -
  have hang: "chunk_loop out n buf s e = Inl NoReturn" if "chunkymode s = 5" "ch_i s = 59" "buf \<noteq> []" for n buf s e
    using that
  proof (induction n)
    case 0
    then show ?case by (cases buf) simp_all
  next
    case (Suc n)
    then show ?case by (cases buf) (simp_all add: chunk_step_def)
  qed
  have "size_step (CHR '';'') s = Inr (s\<lparr>ch_i := 59, chunkymode := 5\<rparr>, False)" for s
    by (simp add: size_step_def schar_def Let_def)
  then show ?thesis using assms by (cases fuel) (auto simp: chunk_step_def hang)
qed

theorem chunk_extension_hangs_witness:
  "chunk_loop stdout_emit 1000 ('';x=1'' @ [CHR 0x0D, CHR 0x0A])
     \<lparr>chunkymode = 2, chunksize = 3, totalbytes = 0, ch_i = 0\<rparr> sample_dev = Inl NoReturn"
  using chunk_extension_hangs [of "\<lparr>chunkymode = 2, chunksize = 3, totalbytes = 0, ch_i = 0\<rparr>" "''x=1'' @ [CHR 0x0D, CHR 0x0A]"]
  by simp

end
