(* ===== verification/NtripHttp.thy ===== *)
theory NtripHttp
  imports NtripRequest NtripChunk
begin

text \<open>
  The HTTP connection of \<open>ntrip_client\<close> in \<open>src/Dgps/src/ntripclient.cpp\<close>: what it does with the reply's
  header, with each further packet, and with the lines that the serial thread collects. \<open>sbuf\<close> and
  \<open>g_nmea\<close> are the two line buffers that \<open>ntrserial_client\<close> fills under their locks. An event is a
  packet that \<open>recv\<close> returned (at most \<open>MAXDATASIZE - 1\<close> bytes, never empty) or a block that the serial
  thread read; nobody else sets \<open>args->stop\<close> meanwhile. \<open>chunkymode\<close> is 0 for a plain reply.
\<close>

subsection \<open>State\<close>

record http_conn =
  hc_head :: bool
  hc_chunk :: chunk_state
  hc_sleep :: int
  hc_error :: bool
  hc_stop :: bool
  hc_dev :: dev
  hc_sbuf :: string
  hc_nmea :: string
  hc_sent :: "string list"

datatype http_event =
  Packet string
| SerialBlock string

definition new_conn :: "int \<Rightarrow> dev \<Rightarrow> string \<Rightarrow> string \<Rightarrow> http_conn" where
  "new_conn sleeptime d sbuf nmea = \<lparr>hc_head = False,
     hc_chunk = \<lparr>chunkymode = 0, chunksize = 0, totalbytes = 0, ch_i = 0\<rparr>, hc_sleep = sleeptime,
     hc_error = False, hc_stop = False, hc_dev = d, hc_sbuf = sbuf, hc_nmea = nmea, hc_sent = []\<rparr>"

subsection \<open>Lines of the serial port\<close>

text \<open>\<open>appendNMEA\<close> and \<open>sbuf.append\<close>.\<close>

definition appendNMEA :: "string \<Rightarrow> http_conn \<Rightarrow> http_conn" where
  "appendNMEA block c = c\<lparr>hc_nmea := hc_nmea c @ block\<rparr>"

definition serial_block :: "string \<Rightarrow> http_conn \<Rightarrow> http_conn" where
  "serial_block block c = (let c = appendNMEA block c in c\<lparr>hc_sbuf := hc_sbuf c @ block\<rparr>)"

definition has_line :: "string \<Rightarrow> bool" where
  "has_line s \<longleftrightarrow> CHR 0x0A \<in> set s"

text \<open>\<open>getNmea\<close>: the first line, or the empty string when there is none.\<close>

definition getNmea :: "string \<Rightarrow> string \<times> string" where
  "getNmea s = (if has_line s then getline s else ([], s))"

definition is_gga :: "string \<Rightarrow> bool" where
  "is_gga line \<longleftrightarrow> take 6 line \<in> {''$GPGGA'', ''$GNGGA'', ''$BDGGA''}"

lemma getline_shorter: "has_line s \<Longrightarrow> length (snd (getline s)) < length s"
  using length_dropWhile_le [of "\<lambda>c. c \<noteq> CHR 0x0A" s]
  by (cases "dropWhile (\<lambda>c. c \<noteq> CHR 0x0A) s") (auto simp: has_line_def getline_def dropWhile_eq_Nil_conv)

lemma getline_pair_shorter: "has_line s \<Longrightarrow> (l, r) = getline s \<Longrightarrow> length r < length s"
  using getline_shorter by (metis snd_conv)

text \<open>
  The loop \<open>while(doloop == 1)\<close>: lines are taken off \<open>sbuf\<close> until one is a GGA sentence, which is sent
  without its end, or none is left.
\<close>

function next_gga :: "string \<Rightarrow> string option \<times> string" where
  "next_gga s =
     (if \<not> has_line s then (None, s)
      else case getline s of (line, rest) \<Rightarrow> if is_gga line then (Some line, rest) else next_gga rest)"
  by pat_completeness auto

termination
  by (relation "measure length") (auto dest: getline_pair_shorter)

declare next_gga.simps [simp del]

definition send_gga :: "args \<Rightarrow> http_conn \<Rightarrow> http_conn" where
  "send_gga a c =
     (if a_serdevice a \<noteq> None \<and> \<not> hc_stop c then
        (case next_gga (hc_sbuf c) of (line, rest) \<Rightarrow>
           c\<lparr>hc_sbuf := rest, hc_sent := hc_sent c @ (case line of None \<Rightarrow> [] | Some l \<Rightarrow> [l])\<rparr>)
      else c)"

subsection \<open>The reply\<close>

definition cstr :: "string \<Rightarrow> string" where
  "cstr s = takeWhile (\<lambda>c. c \<noteq> CHR 0x00) s"

definition CHUNKYCHECK :: string where
  "CHUNKYCHECK = ''Transfer-Encoding: chunked'' @ CRLF"

definition ICY :: string where "ICY = ''ICY 200 OK''"

definition ok_line :: "string \<Rightarrow> bool" where
  "ok_line p \<longleftrightarrow> 17 < length p \<and> str_find ICY (cstr p) = None \<and>
     (take 17 p = ''HTTP/1.1 200 OK'' @ CRLF \<or> take 17 p = ''HTTP/1.0 200 OK'' @ CRLF)"

definition chunky_found :: "string \<Rightarrow> bool" where
  "chunky_found p \<longleftrightarrow> int (scan id CHUNKYCHECK p 0) < int (length p) - int (length CHUNKYCHECK - 1)"

text \<open>The first packet: the state after the checks and what follows the header, \<open>None\<close> for \<open>continue\<close>.\<close>

definition http_head :: "args \<Rightarrow> string \<Rightarrow> http_conn \<Rightarrow> http_conn \<times> string option" where
  "http_head a p c =
     (let c =
        (if ok_line p then
           c\<lparr>hc_error := hc_error c \<or> \<not> scan_found id DATACHECK p 0,
             hc_chunk := (if chunky_found p then (hc_chunk c)\<lparr>chunkymode := 1\<rparr> else hc_chunk c)\<rparr>
         else if str_find ICY (cstr p) = None then c\<lparr>hc_error := True\<rparr>
         else if a_mode a \<noteq> NTRIP1 then (if a_mode a = HTTP then c\<lparr>hc_stop := True\<rparr> else c)
         else c);
        c = c\<lparr>hc_head := True\<rparr>
      in if a_mode a = NTRIP1 then (c, None)
         else (case str_find (CRLF @ CRLF) (cstr p) of None \<Rightarrow> (c, None)
           | Some e \<Rightarrow> if e + 4 = length p then (c, None) else (c, Some (drop (e + 4) p))))"

text \<open>What follows: data, decoded or as it is, then the position goes to the caster.\<close>

definition plain_body :: "args \<Rightarrow> string \<Rightarrow> http_conn \<Rightarrow> error + http_conn" where
  "plain_body a p c =
     (case add_int (totalbytes (hc_chunk c)) (int (length p)) of Inl e \<Rightarrow> Inl e
      | Inr n \<Rightarrow>
          let c = c\<lparr>hc_chunk := (hc_chunk c)\<lparr>totalbytes := n\<rparr>\<rparr> in
          if a_serdevice a \<noteq> None \<and> hc_stop c then Inr c
          else (case emit a p (hc_dev c) of Inl e \<Rightarrow> Inl e
            | Inr (d, stop) \<Rightarrow> Inr (c\<lparr>hc_dev := d, hc_stop := hc_stop c \<or> stop\<rparr>)))"

definition chunked_body :: "args \<Rightarrow> string \<Rightarrow> http_conn \<Rightarrow> error + http_conn" where
  "chunked_body a p c =
     (if hc_stop c \<or> hc_error c then Inr c
      else (case chunk_loop (emit a) (chunk_fuel p) p (hc_chunk c) (hc_dev c) of Inl e \<Rightarrow> Inl e
        | Inr (st, d, cstop, stop) \<Rightarrow>
            Inr (c\<lparr>hc_chunk := st, hc_dev := d, hc_stop := stop, hc_error := cstop\<rparr>)))"

definition http_body :: "args \<Rightarrow> string \<Rightarrow> http_conn \<Rightarrow> error + http_conn" where
  "http_body a p c =
     (let c = c\<lparr>hc_sleep := 0\<rparr> in
      map_sum id (send_gga a)
        (if chunkymode (hc_chunk c) \<noteq> 0 then chunked_body a p c else plain_body a p c))"

definition http_packet :: "args \<Rightarrow> string \<Rightarrow> http_conn \<Rightarrow> error + http_conn" where
  "http_packet a p c =
     (if hc_head c then http_body a p c
      else (case http_head a p c of (c, None) \<Rightarrow> Inr c | (c, Some rest) \<Rightarrow> http_body a rest c))"

text \<open>The loop around \<open>recv\<close>, with the serial thread's blocks in between.\<close>

fun http_receive :: "args \<Rightarrow> http_event list \<Rightarrow> http_conn \<Rightarrow> error + http_conn" where
  "http_receive a [] c = Inr c"
| "http_receive a (SerialBlock b # es) c = http_receive a es (serial_block b c)"
| "http_receive a (Packet p # es) c =
     (if hc_stop c \<or> hc_error c then Inr c
      else (case http_packet a p c of Inl e \<Rightarrow> Inl e | Inr c' \<Rightarrow> http_receive a es c'))"

subsection \<open>Lines come out in order\<close>

text \<open>The serial thread appends and the timer takes lines, in any order.\<close>

datatype nmea_op =
  AppendBlock string
| TakeLine

fun nmea_run :: "nmea_op list \<Rightarrow> string \<Rightarrow> string list \<times> string" where
  "nmea_run [] s = ([], s)"
| "nmea_run (AppendBlock b # ops) s = nmea_run ops (s @ b)"
| "nmea_run (TakeLine # ops) s =
     (case getNmea s of (l, r) \<Rightarrow> (case nmea_run ops r of (ls, t) \<Rightarrow> (l # ls, t)))"

fun appended :: "nmea_op list \<Rightarrow> string" where
  "appended [] = []"
| "appended (AppendBlock b # ops) = b @ appended ops"
| "appended (TakeLine # ops) = appended ops"

fun lines_from :: "string \<Rightarrow> string \<Rightarrow> string list" where
  "lines_from acc [] = []"
| "lines_from acc (c # cs) = (if c = CHR 0x0A then acc # lines_from [] cs else lines_from (acc @ [c]) cs)"

definition complete_lines :: "string \<Rightarrow> string list" where
  "complete_lines s = lines_from [] s"

lemma lines_from_line: "CHR 0x0A \<notin> set l \<Longrightarrow> lines_from acc (l @ CHR 0x0A # r) = (acc @ l) # lines_from [] r"
  by (induction l arbitrary: acc) auto

lemma lines_from_none: "CHR 0x0A \<notin> set l \<Longrightarrow> lines_from acc l = []"
  by (induction l arbitrary: acc) auto

lemma getline_split: "has_line s \<Longrightarrow> fst (getline s) @ [CHR 0x0A] @ snd (getline s) = s"
proof -
  assume "has_line s"
  then have "dropWhile (\<lambda>c. c \<noteq> CHR 0x0A) s \<noteq> []" by (auto simp: has_line_def dropWhile_eq_Nil_conv)
  then obtain c r where r: "dropWhile (\<lambda>c. c \<noteq> CHR 0x0A) s = c # r" by (cases "dropWhile (\<lambda>c. c \<noteq> CHR 0x0A) s") auto
  then have "c = CHR 0x0A" using hd_dropWhile [of "\<lambda>c. c \<noteq> CHR 0x0A" s] by simp
  then show ?thesis using takeWhile_dropWhile_id [of "\<lambda>c. c \<noteq> CHR 0x0A" s] r by (simp add: getline_def)
qed

lemma next_gga_split:
  assumes "next_gga s = (x, rest)"
  shows "\<exists>ls. (\<forall>l \<in> set ls. \<not> is_gga l \<and> CHR 0x0A \<notin> set l) \<and>
    s = concat (map (\<lambda>l. l @ [CHR 0x0A]) ls) @ (case x of None \<Rightarrow> [] | Some g \<Rightarrow> g @ [CHR 0x0A]) @ rest \<and>
    (case x of None \<Rightarrow> \<not> has_line rest | Some g \<Rightarrow> is_gga g \<and> CHR 0x0A \<notin> set g)"
  using assms
proof (induction s rule: next_gga.induct)
  case (1 s)
  show ?case
  proof (cases "has_line s")
    case False
    then show ?thesis using "1.prems" by (auto simp: next_gga.simps [of s] intro: exI [of _ "[]"])
  next
    case True
    obtain line r where g: "getline s = (line, r)" by (cases "getline s")
    have s: "s = line @ [CHR 0x0A] @ r" using getline_split [OF True] g by simp
    have nl: "CHR 0x0A \<notin> set line" using g by (auto simp: getline_def dest: set_takeWhileD)
    show ?thesis
    proof (cases "is_gga line")
      case yes: True
      then have "x = Some line" "rest = r" using "1.prems" True g by (auto simp: next_gga.simps [of s])
      then show ?thesis using s yes nl by (auto intro: exI [of _ "[]"])
    next
      case False
      then have "next_gga r = (x, rest)" using "1.prems" True g by (auto simp: next_gga.simps [of s])
      then obtain ls where "\<forall>l \<in> set ls. \<not> is_gga l \<and> CHR 0x0A \<notin> set l"
        "r = concat (map (\<lambda>l. l @ [CHR 0x0A]) ls) @ (case x of None \<Rightarrow> [] | Some g \<Rightarrow> g @ [CHR 0x0A]) @ rest"
        "case x of None \<Rightarrow> \<not> has_line rest | Some g \<Rightarrow> is_gga g \<and> CHR 0x0A \<notin> set g"
        using "1.IH" [of line r] True g False by auto
      then show ?thesis using s False nl by (intro exI [of _ "line # ls"]) auto
    qed
  qed
qed

text \<open>
  Whatever the interleaving of the serial thread and the timer, the non-empty results of
  \<open>getNmea\<close> are the non-empty lines of the received text in order, each once, and the lines not yet
  taken are still in the buffer.
\<close>

theorem nmea_lines_in_order:
  assumes "nmea_run ops s = (ls, t)"
  shows "filter (\<lambda>l. l \<noteq> []) (complete_lines (s @ appended ops)) =
    filter (\<lambda>l. l \<noteq> []) ls @ filter (\<lambda>l. l \<noteq> []) (complete_lines t)"
  using assms
proof (induction ops s arbitrary: ls rule: nmea_run.induct)
  case (3 ops s)
  obtain l r where g: "getNmea s = (l, r)" by (cases "getNmea s")
  obtain ls' where r: "nmea_run ops r = (ls', t)" "ls = l # ls'" using "3.prems" g by (auto split: prod.splits)
  note IH = "3.IH" [OF g [symmetric] r(1)]
  show ?case
  proof (cases "has_line s")
    case True
    then have "getline s = (l, r)" using g by (simp add: getNmea_def)
    then have "s = l @ CHR 0x0A # r" "CHR 0x0A \<notin> set l"
      using getline_split [OF True] by (auto simp: getline_def dest: set_takeWhileD)
    then show ?thesis using IH r(2) by (simp add: complete_lines_def lines_from_line)
  next
    case False
    then show ?thesis using IH g r(2) by (simp add: getNmea_def)
  qed
qed simp_all

theorem nmea_lines_in_order_witness:
  "filter (\<lambda>l. l \<noteq> []) (complete_lines (''$GP'' @ ''GGA'' @ [CHR 0x0A] @ ''$G'')) = [''$GPGGA'']"
  using nmea_lines_in_order [of "[AppendBlock ''$GP'', TakeLine, AppendBlock (''GGA'' @ [CHR 0x0A] @ ''$G''), TakeLine]" "[]"]
  by (simp add: getNmea_def has_line_def getline_def complete_lines_def)

subsection \<open>Data reaches the receiver\<close>

lemma send_gga_sel [simp]:
  "hc_head (send_gga a c) = hc_head c" "hc_chunk (send_gga a c) = hc_chunk c" "hc_error (send_gga a c) = hc_error c"
  "hc_stop (send_gga a c) = hc_stop c" "hc_dev (send_gga a c) = hc_dev c" "hc_nmea (send_gga a c) = hc_nmea c"
  by (simp_all add: send_gga_def split: prod.splits)

lemma serial_block_sel [simp]:
  "hc_head (serial_block b c) = hc_head c" "hc_chunk (serial_block b c) = hc_chunk c"
  "hc_error (serial_block b c) = hc_error c" "hc_stop (serial_block b c) = hc_stop c"
  "hc_dev (serial_block b c) = hc_dev c"
  by (simp_all add: serial_block_def appendNMEA_def Let_def)

fun packets :: "http_event list \<Rightarrow> string" where
  "packets [] = []"
| "packets (Packet p # es) = p @ packets es"
| "packets (SerialBlock b # es) = packets es"

lemma feed_mode: "feed c s = Some (s', o1) \<Longrightarrow> fst s' \<noteq> 0"
  by (cases s) (auto simp: feed_def Let_def split: if_splits option.splits)

lemma feeds_mode: "feeds cs s = Some (s', o1) \<Longrightarrow> fst s \<noteq> 0 \<Longrightarrow> fst s' \<noteq> 0"
  by (induction cs arbitrary: s o1) (auto split: option.splits dest: feed_mode)

text \<open>A packet in chunked mode.\<close>

lemma chunked_packet:
  assumes "feeds p (chunkymode (hc_chunk c), chunksize (hc_chunk c)) = Some ((m1, z1), o1)"
    and "feed_inv (chunkymode (hc_chunk c), chunksize (hc_chunk c))" and "chunkymode (hc_chunk c) \<noteq> 0"
    and "a_serdevice a \<noteq> None" "\<not> hc_stop c" "\<not> hc_error c" and "serial_room n (hc_dev c)" "length o1 \<le> n"
    and "0 \<le> totalbytes (hc_chunk c)" "totalbytes (hc_chunk c) + int (length o1) \<le> INT_MAX"
  shows "\<exists>c'. http_body a p c = Inr c' \<and> hc_head c' = hc_head c \<and> \<not> hc_stop c' \<and> \<not> hc_error c' \<and>
    chunkymode (hc_chunk c') = m1 \<and> chunksize (hc_chunk c') = z1 \<and>
    totalbytes (hc_chunk c') = totalbytes (hc_chunk c) + int (length o1) \<and>
    dv_out (hc_dev c') = dv_out (hc_dev c) @ o1 \<and> serial_room (n - length o1) (hc_dev c')"
proof -
  obtain st d where L: "chunk_loop (serial_emit a) (chunk_fuel p) p (hc_chunk c) (hc_dev c) = Inr (st, d, False, False)"
    "chunkymode st = m1" "chunksize st = z1" "totalbytes st = totalbytes (hc_chunk c) + int (length o1)"
    "dv_out d = dv_out (hc_dev c) @ o1" "serial_room (n - length o1) d"
    using serial.chunk_loop_feeds [OF assms(1,2,7,8,9,10), of "chunk_fuel p" a] by (auto simp: chunk_fuel_def)
  have "emit a = serial_emit a" using assms(4) by (simp add: emit_def)
  then show ?thesis using L assms(3,5,6) by (simp add: http_body_def chunked_body_def Let_def)
qed

lemma chunked_receive:
  assumes "feeds (packets es) (chunkymode (hc_chunk c), chunksize (hc_chunk c)) = Some ((m', z'), o1)"
    and "feed_inv (chunkymode (hc_chunk c), chunksize (hc_chunk c))" and "chunkymode (hc_chunk c) \<noteq> 0"
    and "a_serdevice a \<noteq> None" "hc_head c" "\<not> hc_stop c" "\<not> hc_error c"
    and "serial_room n (hc_dev c)" "length o1 \<le> n"
    and "0 \<le> totalbytes (hc_chunk c)" "totalbytes (hc_chunk c) + int (length o1) \<le> INT_MAX"
  shows "\<exists>c'. http_receive a es c = Inr c' \<and> \<not> hc_stop c' \<and> \<not> hc_error c' \<and>
    dv_out (hc_dev c') = dv_out (hc_dev c) @ o1"
  using assms
proof (induction es arbitrary: c o1 n)
  case Nil
  then show ?case by simp
next
  case (Cons e es)
  show ?case
  proof (cases e)
    case (SerialBlock b)
    then show ?thesis using Cons.IH [of "serial_block b c" o1 n] Cons.prems by simp
  next
    case (Packet p)
    obtain m1 z1 e1 o2 where f: "feeds p (chunkymode (hc_chunk c), chunksize (hc_chunk c)) = Some ((m1, z1), e1)"
      and fs: "feeds (packets es) (m1, z1) = Some ((m', z'), o2)" and o1: "o1 = e1 @ o2"
      using Cons.prems(1) feeds_append [of p "packets es"] Packet by (auto split: option.splits)
    have e1: "length e1 \<le> n" "totalbytes (hc_chunk c) + int (length e1) \<le> INT_MAX"
      using Cons.prems(9,11) by (simp_all add: o1)
    obtain c1 where c1: "http_body a p c = Inr c1" "hc_head c1 = hc_head c" "\<not> hc_stop c1" "\<not> hc_error c1"
      "chunkymode (hc_chunk c1) = m1" "chunksize (hc_chunk c1) = z1"
      "totalbytes (hc_chunk c1) = totalbytes (hc_chunk c) + int (length e1)"
      "dv_out (hc_dev c1) = dv_out (hc_dev c) @ e1" "serial_room (n - length e1) (hc_dev c1)"
      using chunked_packet [OF f Cons.prems(2,3,4,6,7,8) e1(1) Cons.prems(10) e1(2)] by blast
    have m1: "feed_inv (m1, z1)" "m1 \<noteq> 0"
      using feeds_inv [OF f Cons.prems(2)] feeds_mode [OF f] Cons.prems(3) by simp_all
    have "length o2 \<le> n - length e1" "totalbytes (hc_chunk c1) + int (length o2) \<le> INT_MAX" "0 \<le> totalbytes (hc_chunk c1)"
      using Cons.prems(9-11) c1(7) by (simp_all add: o1)
    with Cons.IH [of c1 o2 "n - length e1"] fs m1 c1 Cons.prems(4,5)
    obtain c' where "http_receive a es c1 = Inr c'" "\<not> hc_stop c'" "\<not> hc_error c'"
      "dv_out (hc_dev c') = dv_out (hc_dev c1) @ o2" by auto
    then show ?thesis using c1(1,8) Cons.prems(5-7) Packet by (simp add: o1 http_packet_def)
  qed
qed

text \<open>
  C22: On an HTTP connection whose first packet is a good reply that announces chunked GNSS data, the
  receiver gets exactly the data of the chunks, in order and completely, however the stream is cut
  into packets and whatever the serial thread reads meanwhile.
\<close>

theorem http_stream_delivered:
  assumes "a_serdevice a \<noteq> None" and "a_mode a \<noteq> NTRIP1"
    and "ok_line p" "scan_found id DATACHECK p 0" "chunky_found p"
    and "str_find (CRLF @ CRLF) (cstr p) = Some e"
    and "drop (e + 4) p @ packets es = concat (map chunk_text chs)" and "\<forall>ch \<in> set chs. chunk_ok ch"
    and "int (length (concat (map snd chs))) \<le> INT_MAX"
    and "serial_room (length (concat (map snd chs))) d"
  shows "\<exists>c. http_receive a (Packet p # es) (new_conn sleeptime d sbuf nmea) = Inr c \<and>
    dv_out (hc_dev c) = dv_out d @ concat (map snd chs) \<and> \<not> hc_error c \<and> \<not> hc_stop c"
proof -
  let ?c = "new_conn sleeptime d sbuf nmea" and ?data = "concat (map snd chs)"
  define c1 where "c1 = ?c\<lparr>hc_chunk := (hc_chunk ?c)\<lparr>chunkymode := 1\<rparr>, hc_head := True\<rparr>"
  have c1: "hc_chunk c1 = \<lparr>chunkymode = 1, chunksize = 0, totalbytes = 0, ch_i = 0\<rparr>" "hc_head c1" "\<not> hc_stop c1"
    "\<not> hc_error c1" "hc_dev c1 = d" by (simp_all add: c1_def new_conn_def)
  have h: "http_head a p ?c = (c1, if e + 4 = length p then None else Some (drop (e + 4) p))"
    using assms(2-6) by (simp add: http_head_def c1_def new_conn_def Let_def)
  have F: "feeds (drop (e + 4) p @ packets es) (1, 0) = Some ((1, 0), ?data)"
    unfolding assms(7) by (rule feeds_chunks [OF assms(8)])
  show ?thesis
  proof (cases "e + 4 = length p")
    case True
    then have r: "http_receive a (Packet p # es) ?c = http_receive a es c1"
      using h by (simp add: http_packet_def new_conn_def)
    have "feeds (packets es) (1, 0) = Some ((1, 0), ?data)" using F True by simp
    then show ?thesis
      using chunked_receive [of es c1 1 0 ?data a "length ?data"] c1 assms(1,9,10) unfolding r
      by (auto simp: feed_inv_def)
  next
    case False
    then have r: "http_receive a (Packet p # es) ?c = http_receive a (Packet (drop (e + 4) p) # es) c1"
      using h c1 by (simp add: http_packet_def new_conn_def)
    have "feeds (packets (Packet (drop (e + 4) p) # es)) (1, 0) = Some ((1, 0), ?data)" using F by simp
    then show ?thesis
      using chunked_receive [of "Packet (drop (e + 4) p) # es" c1 1 0 ?data a "length ?data"] c1 assms(1,9,10)
      unfolding r by (auto simp: feed_inv_def)
  qed
qed

definition sample_reply :: string where
  "sample_reply = ''HTTP/1.1 200 OK'' @ CRLF @ ''Content-Type: gnss/data'' @ CRLF @
     ''Transfer-Encoding: chunked'' @ CRLF @ CRLF"

theorem http_stream_delivered_witness:
  "\<exists>c. http_receive (default_args\<lparr>a_serdevice := Some ''/dev/ttyUSB0''\<rparr>)
      [Packet (sample_reply @ ''3''), SerialBlock ''$GP'', Packet (CRLF @ ''ab''), Packet (''c'' @ CRLF)]
      (new_conn 1 sample_dev [] []) = Inr c \<and> dv_out (hc_dev c) = ''abc''"
proof -
  let ?p = "sample_reply @ ''3''" and ?chs = "[(''3'', ''abc'')]"
  let ?a = "default_args\<lparr>a_serdevice := Some ''/dev/ttyUSB0''\<rparr>"
  have a: "a_serdevice ?a \<noteq> None" "a_mode ?a \<noteq> NTRIP1" by (simp_all add: default_args_def mode_defs)
  have p: "ok_line ?p" "scan_found id DATACHECK ?p 0" "chunky_found ?p"
    "str_find (CRLF @ CRLF) (cstr ?p) = Some 68" by code_simp+
  have ch: "drop (68 + 4) ?p @ packets [SerialBlock ''$GP'', Packet (CRLF @ ''ab''), Packet (''c'' @ CRLF)] =
      concat (map chunk_text ?chs)" "\<forall>ch \<in> set ?chs. chunk_ok ch" by code_simp+
  have r: "int (length (concat (map snd ?chs))) \<le> INT_MAX" "serial_room (length (concat (map snd ?chs))) sample_dev"
    by (simp_all add: serial_room_def sample_dev_def INT_MAX_def)
  obtain c where "http_receive ?a [Packet ?p, SerialBlock ''$GP'', Packet (CRLF @ ''ab''), Packet (''c'' @ CRLF)]
      (new_conn 1 sample_dev [] []) = Inr c" "dv_out (hc_dev c) = dv_out sample_dev @ concat (map snd ?chs)"
    using http_stream_delivered [OF a p ch r, of 1 "[]" "[]"] by blast
  moreover have "dv_out sample_dev @ concat (map snd ?chs) = ''abc''" by (simp add: sample_dev_def)
  ultimately have "dv_out (hc_dev c) = ''abc''" by argo
  with \<open>http_receive ?a _ _ = Inr c\<close> show ?thesis by blast
qed

text \<open>
  After each packet, with a receiver attached, the first complete GGA sentence of the serial buffer
  goes to the caster and it and the lines before it leave the buffer; without one every complete line
  is dropped and nothing is sent.
\<close>

theorem position_sent:
  assumes "http_body a p c = Inr c'" and "a_serdevice a \<noteq> None" and "\<not> hc_stop c'"
  shows "\<exists>ls x. hc_sbuf c = concat (map (\<lambda>l. l @ [CHR 0x0A]) ls) @ (case x of None \<Rightarrow> [] | Some g \<Rightarrow> g @ [CHR 0x0A]) @ hc_sbuf c' \<and>
    (\<forall>l \<in> set ls. \<not> is_gga l) \<and>
    hc_sent c' = hc_sent c @ (case x of None \<Rightarrow> [] | Some g \<Rightarrow> [g]) \<and>
    (case x of None \<Rightarrow> \<not> has_line (hc_sbuf c') | Some g \<Rightarrow> is_gga g)"
proof -
  let ?r = "if chunkymode (hc_chunk c) \<noteq> 0 then chunked_body a p (c\<lparr>hc_sleep := 0\<rparr>) else plain_body a p (c\<lparr>hc_sleep := 0\<rparr>)"
  obtain c1 where c1: "?r = Inr c1" "c' = send_gga a c1" using assms(1) by (auto simp: http_body_def Let_def map_sum_def split: sum.splits if_splits)
  have st: "\<not> hc_stop c1" using assms(3) c1(2) by simp
  have k: "hc_sbuf c1 = hc_sbuf c" "hc_sent c1 = hc_sent c"
    using c1(1) by (auto simp: chunked_body_def plain_body_def Let_def split: if_splits sum.splits prod.splits)
  obtain x rest where n: "next_gga (hc_sbuf c) = (x, rest)" by (cases "next_gga (hc_sbuf c)")
  have "c' = c1\<lparr>hc_sbuf := rest, hc_sent := hc_sent c @ (case x of None \<Rightarrow> [] | Some l \<Rightarrow> [l])\<rparr>"
    using assms(2) c1(2) k n st by (simp add: send_gga_def)
  moreover obtain ls where "\<forall>l \<in> set ls. \<not> is_gga l \<and> CHR 0x0A \<notin> set l"
    "hc_sbuf c = concat (map (\<lambda>l. l @ [CHR 0x0A]) ls) @ (case x of None \<Rightarrow> [] | Some g \<Rightarrow> g @ [CHR 0x0A]) @ rest"
    "case x of None \<Rightarrow> \<not> has_line rest | Some g \<Rightarrow> is_gga g \<and> CHR 0x0A \<notin> set g"
    using next_gga_split [OF n] by blast
  ultimately show ?thesis by (intro exI [of _ ls] exI [of _ x]) (auto split: option.splits)
qed

theorem position_sent_witness:
  "\<exists>c. http_body (default_args\<lparr>a_serdevice := Some ''/dev/ttyUSB0''\<rparr>) ''x''
      (new_conn 1 sample_dev (''$GPFPD'' @ [CHR 0x0A] @ ''$GPGGA,1'' @ [CHR 0x0A] @ ''$GP'') []) = Inr c \<and>
    (\<exists>x. hc_sent c = (case x of None \<Rightarrow> [] | Some g \<Rightarrow> [g]) \<and> (case x of None \<Rightarrow> \<not> has_line (hc_sbuf c) | Some g \<Rightarrow> is_gga g))"
proof -
  let ?c = "new_conn 1 sample_dev (''$GPFPD'' @ [CHR 0x0A] @ ''$GPGGA,1'' @ [CHR 0x0A] @ ''$GP'') []"
  let ?a = "default_args\<lparr>a_serdevice := Some ''/dev/ttyUSB0''\<rparr>"
  have "serial_room 5 sample_dev" by (simp add: serial_room_def sample_dev_def)
  then obtain d where "emit ?a ''x'' sample_dev = Inr (d, False)"
    using serial.takes [of 5 sample_dev "''x''" ?a] by (auto simp: emit_def)
  then obtain c where c: "http_body ?a ''x'' ?c = Inr c" "\<not> hc_stop c"
    by (simp add: http_body_def plain_body_def new_conn_def add_int_def INT_MAX_def INT_MIN_def)
  show ?thesis using position_sent [OF c(1) _ c(2)] c(1) by (auto simp: new_conn_def default_args_def)
qed

text \<open>The body of a failed reply goes to the receiver as if it were correction data.\<close>

theorem error_body_forwarded:
  assumes "\<not> ok_line p" and "str_find ICY (cstr p) = None" and "a_mode a \<noteq> NTRIP1" "a_serdevice a \<noteq> None"
    and "str_find (CRLF @ CRLF) (cstr p) = Some e" and "e + 4 < length p"
    and "serial_room (length p) d" "int (length p) \<le> INT_MAX"
  shows "\<exists>c. http_receive a [Packet p] (new_conn sleeptime d sbuf nmea) = Inr c \<and> hc_error c \<and>
    dv_out (hc_dev c) = dv_out d @ drop (e + 4) p"
proof -
  let ?c = "new_conn sleeptime d sbuf nmea" and ?b = "drop (e + 4) p"
  have h: "http_head a p ?c = (?c\<lparr>hc_error := True, hc_head := True\<rparr>, Some ?b)"
    using assms(1-3,5,6) by (simp add: http_head_def Let_def)
  obtain d' where d': "serial_emit a ?b d = Inr (d', False)" "dv_out d' = dv_out d @ ?b"
    using serial.takes [OF assms(7), of ?b a] by auto
  have e: "emit a ?b d = Inr (d', False)" using assms(4) d'(1) by (simp add: emit_def)
  have "add_int 0 (int (length ?b)) = Inr (int (length ?b))" using assms(8) by (simp add: add_int_Inr INT_MIN_def)
  then show ?thesis using h e d'(2)
    by (simp add: http_packet_def http_body_def plain_body_def new_conn_def Let_def)
qed

end
