(* ===== verification/NtripRtp.thy ===== *)
theory NtripRtp
  imports NtripRequest NtripChunk
begin

text \<open>
  The datagram modes of \<open>ntrip_client\<close> in \<open>src/Dgps/src/ntripclient.cpp\<close>: the reply to the UDP request,
  the RTP packets of the UDP and the RTSP mode with their keep-alives, and the reply to the RTSP set-up.
  A packet comes with the time that \<open>time(0)\<close> gives when it is handled. \<open>seq\<close>, \<open>tim\<close> and
  \<open>session\<close> are kept as 32 bit words: what leaves the program are their bytes.
\<close>

subsection \<open>Packets\<close>

definition byte_at :: "string \<Rightarrow> nat \<Rightarrow> u32" where
  "byte_at p i = of_nat (of_char (p ! i))"

definition rtp_seq :: "string \<Rightarrow> int" where
  "rtp_seq p = uint (push_bit 8 (byte_at p 2) + byte_at p 3)"

definition rtp_word :: "string \<Rightarrow> nat \<Rightarrow> u32" where
  "rtp_word p i = push_bit 24 (byte_at p i) + push_bit 16 (byte_at p (i + 1)) + push_bit 8 (byte_at p (i + 2))
     + byte_at p (i + 3)"

definition rtp_time :: "string \<Rightarrow> int" where
  "rtp_time p = sint (rtp_word p 4)"

definition rtp_session :: "string \<Rightarrow> u32" where
  "rtp_session p = rtp_word p 8"

definition rtp_kind :: "string \<Rightarrow> nat" where
  "rtp_kind p = of_char (p ! 1)"

definition udp_header_ok :: "string \<Rightarrow> bool" where
  "udp_header_ok p \<longleftrightarrow> 12 \<le> length p \<and> p ! 0 = CHR 0x80 \<and> 96 \<le> rtp_kind p \<and> rtp_kind p \<le> 98"

subsection \<open>UDP mode\<close>

record udp_state =
  us_sn :: int
  us_ts :: int
  us_session :: u32
  us_init :: int
  us_tim :: u32
  us_seq :: u32
  us_out :: string
  us_sent :: "string list"
  us_error :: bool

text \<open>The keep-alive after a good packet: every 15 seconds a header of type 96.\<close>

definition udp_alive :: "int \<Rightarrow> udp_state \<Rightarrow> udp_state" where
  "udp_alive ct s =
     (if 15 < ct - us_init s then
        (let tim = us_tim s + of_int (int_quot ((ct - us_init s) * 1000000) 125) in
         s\<lparr>us_tim := tim, us_sent := us_sent s @ [rtp_header 96 (us_seq s) tim (us_session s)],
           us_seq := us_seq s + 1, us_init := ct\<rparr>)
      else s)"

definition udp_packet :: "string \<Rightarrow> int \<Rightarrow> udp_state \<Rightarrow> error + udp_state" where
  "udp_packet p ct s =
     (if udp_header_ok p then
        (let u = rtp_seq p; v = rtp_time p in
         if us_sn s = 0x10000 \<and> v = INT_MIN then Inl SignedOverflow
         else
           (let s1 = (if us_sn s = 0x10000 then s\<lparr>us_sn := u - 1, us_ts := v - 1\<rparr>
                  else if u < -30000 \<and> 30000 < us_sn s then s\<lparr>us_sn := us_sn s - 0xFFFF\<rparr> else s) in
            if us_session s1 \<noteq> rtp_session p \<or> v < us_ts s1 then Inr s1
            else if us_sn s1 < u \<and> rtp_kind p = 98 then Inr (s1\<lparr>us_error := True\<rparr>)
            else
              (let s2 = (if us_sn s1 < u \<and> rtp_kind p = 96 \<and> 12 < length p
                     then s1\<lparr>us_out := us_out s1 @ drop 12 p\<rparr> else s1)
               in Inr (udp_alive ct (s2\<lparr>us_sn := u, us_ts := v\<rparr>)))))
      else Inr s)"

fun udp_receive :: "(string \<times> int) list \<Rightarrow> udp_state \<Rightarrow> error + udp_state" where
  "udp_receive [] s = Inr s"
| "udp_receive ((p, ct) # ps) s =
     (if us_error s then Inr s
      else (case udp_packet p ct s of Inl e \<Rightarrow> Inl e | Inr s' \<Rightarrow> udp_receive ps s'))"

text \<open>The last packet, of type 98, closes the session.\<close>

definition udp_close :: "int \<Rightarrow> udp_state \<Rightarrow> string" where
  "udp_close ct s =
     rtp_header 98 (us_seq s) (us_tim s + of_int (int_quot ((ct - us_init s) * 1000000) 125)) (us_session s)"

text \<open>
  Digits into an \<open>int\<close> with overflow, and into the \<open>unsigned int\<close> \<open>session\<close> of the UDP mode.
\<close>

fun read_int :: "int \<Rightarrow> string \<Rightarrow> error + int" where
  "read_int n [] = Inr n"
| "read_int n (c # cs) =
     (if is_digit c then
        (if INT_MAX < n * 10 + of_char c then Inl SignedOverflow else read_int (n * 10 + of_char c - 48) cs)
      else Inr n)"

definition digits_at :: "string \<Rightarrow> nat \<Rightarrow> string" where
  "digits_at buf i = takeWhile is_digit (drop i buf)"

definition SESSION :: string where "SESSION = ''session: ''"

definition TABLECHECK :: string where
  "TABLECHECK = ''Content-Type: gnss/sourcetable'' @ CRLF"

definition LENGTHCHECK :: string where "LENGTHCHECK = ''Content-Length: ''"

text \<open>
  The source table in datagrams: \<open>stop\<close> is set when the announced length is reached exactly. The result
  tells whether it was, and what of the datagrams is left.
\<close>

fun table_loop :: "int \<Rightarrow> string \<Rightarrow> string list \<Rightarrow> string \<Rightarrow> string \<times> bool" where
  "table_loop contentlength p ps out =
     (let out = out @ drop 12 p; rest = contentlength - (int (length p) - 12) in
      if rest = 0 then (out, True)
      else (case ps of [] \<Rightarrow> (out, False)
        | q # qs \<Rightarrow> if 12 < length q then table_loop rest q qs out else (out, False)))"

record udp_reply =
  ur_session :: u32
  ur_out :: string
  ur_stop :: bool
  ur_error :: bool

definition udp_answer :: "u32 \<Rightarrow> string \<Rightarrow> string list \<Rightarrow> error + udp_reply" where
  "udp_answer session p ps =
     (let r = \<lparr>ur_session = session, ur_out = [], ur_stop = False, ur_error = False\<rparr>;
          end_at = (\<lambda>i. if i < length p then p ! i else CHR 0x00) in
      if 17 + 12 < length p \<and>
         (take 17 (drop 12 p) = ''HTTP/1.1 200 OK'' @ CRLF \<or> take 17 (drop 12 p) = ''HTTP/1.0 200 OK'' @ CRLF) then
        (if scan_found id DATACHECK p 12 then
           (if scan_found to_lower SESSION p 12 then
              (let i = scan to_lower SESSION p 12 + 8; ds = digits_at p i in
               Inr (r\<lparr>ur_session := of_nat (dec_value ds), ur_stop := end_at (i + length ds) \<noteq> CHR 0x0D\<rparr>))
            else Inr r)
         else if \<not> scan_found id TABLECHECK p 12 then Inr (r\<lparr>ur_error := True\<rparr>)
         else
           (let head = (if scan_found id (CRLF @ CRLF) p 12 then int (scan id (CRLF @ CRLF) p 12) + 3 - 12 else 0) in
            if scan_found id LENGTHCHECK p 12 then
              (let i = scan id LENGTHCHECK p 12 + 15; ds = digits_at p i in
               case read_int 0 ds of Inl e \<Rightarrow> Inl e
               | Inr n \<Rightarrow>
                 if end_at (i + length ds) = CHR 0x0D then
                   (case add_int n head of Inl e \<Rightarrow> Inl e
                    | Inr len \<Rightarrow> (case table_loop len p ps [] of (out, stop) \<Rightarrow>
                        Inr (r\<lparr>ur_out := out, ur_stop := stop\<rparr>)))
                 else Inr (r\<lparr>ur_stop := True\<rparr>))
            else Inr r))
      else Inr (r\<lparr>ur_error := True\<rparr>))"

definition udp_start :: "u32 \<Rightarrow> u32 \<Rightarrow> u32 \<Rightarrow> int \<Rightarrow> udp_state" where
  "udp_start session tim sq init = \<lparr>us_sn = 0x10000, us_ts = 0, us_session = session, us_init = init,
     us_tim = tim, us_seq = sq, us_out = [], us_sent = [], us_error = False\<rparr>"

subsection \<open>RTSP mode\<close>

record setup_reply =
  sr_port :: int
  sr_session :: int
  sr_stop :: bool

text \<open>
  The reply is \<open>numbytes\<close> long; the character after a number is read from the buffer, behind the reply
  what the request left there.
\<close>

definition setup_answer :: "string \<Rightarrow> nat \<Rightarrow> error + setup_reply" where
  "setup_answer buf numbytes =
     (let p = take numbytes buf; r = \<lparr>sr_port = 0, sr_session = 0, sr_stop = False\<rparr> in
      if \<not> scan_found to_lower ''server_port='' p 0 then Inr (r\<lparr>sr_stop := True\<rparr>)
      else
        (let i = scan to_lower ''server_port='' p 0 + 11; ds = digits_at p i in
         case read_int 0 ds of Inl e \<Rightarrow> Inl e
         | Inr port \<Rightarrow>
           let r = r\<lparr>sr_port := port\<rparr> in
           if length buf \<le> i + length ds then Inl OutOfBounds
           else if buf ! (i + length ds) \<noteq> CHR 0x0D \<and> buf ! (i + length ds) \<noteq> CHR '';'' then Inr (r\<lparr>sr_stop := True\<rparr>)
           else if \<not> scan_found to_lower SESSION p 0 then Inr (r\<lparr>sr_stop := True\<rparr>)
           else
             (let i = scan to_lower SESSION p 0 + 8; ds = digits_at p i in
              case read_int 0 ds of Inl e \<Rightarrow> Inl e
              | Inr session \<Rightarrow>
                let r = r\<lparr>sr_session := session\<rparr> in
                if length buf \<le> i + length ds then Inl OutOfBounds
                else Inr (r\<lparr>sr_stop := (buf ! (i + length ds) \<noteq> CHR 0x0D)\<rparr>))))"

record rtsp_state =
  ss_sn :: int
  ss_ts :: int
  ss_session :: int
  ss_init :: int
  ss_cseq :: nat
  ss_out :: string
  ss_sent :: "string list"
  ss_stop :: bool
  ss_error :: bool

text \<open>What \<open>recv\<close> on the control connection answers: data, nothing yet, the end, or an error.\<close>

datatype control = Reply | NothingYet | Ended | Broken

definition control_check :: "control \<Rightarrow> rtsp_state \<Rightarrow> rtsp_state" where
  "control_check r s = (if r = Ended \<or> r = Broken then s\<lparr>ss_error := True\<rparr> else s)"

definition rtsp_alive :: "args \<Rightarrow> bool \<Rightarrow> int \<Rightarrow> string \<Rightarrow> rtsp_state \<Rightarrow> error + rtsp_state" where
  "rtsp_alive a proxied ct buf s =
     (if 15 < ct - ss_init s then
        (case rtsp_command ''GET_PARAMETER'' a proxied (ss_cseq s) (nat (ss_session s)) buf of Inl e \<Rightarrow> Inl e
         | Inr (stop, i, b) \<Rightarrow>
           let s = s\<lparr>ss_cseq := ss_cseq s + 1, ss_init := ct\<rparr> in
           if stop then Inr (s\<lparr>ss_stop := True\<rparr>)
           else map_sum id (\<lambda>t. s\<lparr>ss_sent := ss_sent s @ [t]\<rparr>) (sent_bytes i b))
      else Inr s)"

definition rtsp_header_ok :: "string \<Rightarrow> bool" where
  "rtsp_header_ok p \<longleftrightarrow> 12 + 1 \<le> length p \<and> p ! 0 = CHR 0x80 \<and> rtp_kind p = 96"

text \<open>\<open>None\<close> is a round without a datagram. An unwanted datagram skips the look at the control connection.\<close>

definition rtsp_packet :: "args \<Rightarrow> bool \<Rightarrow> string \<Rightarrow> string \<Rightarrow> int \<Rightarrow> control \<Rightarrow> rtsp_state \<Rightarrow> error + rtsp_state" where
  "rtsp_packet a proxied buf p ct r s =
     (if rtsp_header_ok p then
        (let u = rtp_seq p; v = rtp_time p in
         if ss_init s \<noteq> 0 then
           (let s = (if u < -30000 \<and> 30000 < ss_sn s then s\<lparr>ss_sn := ss_sn s - 0xFFFF\<rparr> else s) in
            if ss_session s \<noteq> sint (rtp_session p) \<or> v < ss_ts s then Inr s
            else map_sum id (\<lambda>s. control_check r (s\<lparr>ss_sn := u, ss_ts := v\<rparr>))
              (rtsp_alive a proxied ct buf (if ss_sn s < u then s\<lparr>ss_out := ss_out s @ drop 12 p\<rparr> else s)))
         else Inr (control_check r (s\<lparr>ss_init := ct, ss_sn := u, ss_ts := v\<rparr>)))
      else Inr s)"

fun rtsp_receive :: "args \<Rightarrow> bool \<Rightarrow> string \<Rightarrow> (string option \<times> int \<times> control) list \<Rightarrow> rtsp_state \<Rightarrow> error + rtsp_state" where
  "rtsp_receive a proxied buf [] s = Inr s"
| "rtsp_receive a proxied buf ((p, ct, r) # ps) s =
     (if ss_stop s \<or> ss_error s then Inr s
      else (case (case p of None \<Rightarrow> Inr (control_check r s) | Some q \<Rightarrow> rtsp_packet a proxied buf q ct r s) of
          Inl e \<Rightarrow> Inl e
        | Inr s' \<Rightarrow> rtsp_receive a proxied buf ps s'))"

subsection \<open>Headers written and read\<close>

lemma low_byte: "unat (take_bit 8 (w :: u32)) < 256"
  unfolding unsigned_take_bit_eq by (simp add: take_bit_eq_mod)

lemma byte_at_char: "p ! i = byte_char w \<Longrightarrow> byte_at p i = take_bit 8 w"
proof -
  assume p: "p ! i = byte_char w"
  have m: "w AND 0xFF = take_bit 8 w" by (simp add: take_bit_eq_mask mask_eq_exp_minus_1)
  show ?thesis using low_byte [of w] by (simp add: byte_at_def byte_char_def p m)
qed

lemma join_bytes:
  "push_bit 24 (take_bit 8 (drop_bit 24 w)) + push_bit 16 (take_bit 8 (drop_bit 16 w)) +
   push_bit 8 (take_bit 8 (drop_bit 8 w)) + take_bit 8 w = (w :: u32)"
proof -
  have t: "take_bit 8 (drop_bit 24 w) = drop_bit 8 (drop_bit 16 w)"
    by (rule bit_word_eqI) (auto simp: bit_simps dest: bit_imp_le_length)
  have p: "push_bit 24 x + push_bit 16 y = push_bit 16 (push_bit 8 x + y)"
    "push_bit 16 x + push_bit 8 y = push_bit 8 (push_bit 8 x + y)" for x y :: u32
    by (simp_all add: push_bit_add)
  have "drop_bit 16 w = drop_bit 8 (drop_bit 8 w)" by simp
  then show ?thesis unfolding t p(1) bits_ident by (simp add: p(2) bits_ident del: drop_bit_drop_bit)
qed

text \<open>
  The header that the client writes reads back: its type, the low 16 bits of the sequence number, the
  time and the session come out of the bytes as the receiving code takes them apart.
\<close>

theorem rtp_header_roundtrip:
  assumes "p = rtp_header kind sq tim session @ data"
  shows "rtp_kind p = unat (take_bit 8 kind) \<and> rtp_seq p = uint (take_bit 16 sq) \<and> rtp_word p 4 = tim \<and>
    rtp_session p = session"
proof -
  have b: "byte_at p 2 = take_bit 8 (drop_bit 8 sq)" "byte_at p 3 = take_bit 8 sq"
    "byte_at p 4 = take_bit 8 (drop_bit 24 tim)" "byte_at p 5 = take_bit 8 (drop_bit 16 tim)"
    "byte_at p 6 = take_bit 8 (drop_bit 8 tim)" "byte_at p 7 = take_bit 8 tim"
    "byte_at p 8 = take_bit 8 (drop_bit 24 session)" "byte_at p 9 = take_bit 8 (drop_bit 16 session)"
    "byte_at p 10 = take_bit 8 (drop_bit 8 session)" "byte_at p 11 = take_bit 8 session"
    by (rule byte_at_char, simp add: assms rtp_header_def numeral_eq_Suc)+
  have "rtp_kind p = unat (take_bit 8 kind)"
  proof -
    have m: "kind AND 0xFF = take_bit 8 kind" by (simp add: take_bit_eq_mask mask_eq_exp_minus_1)
    show ?thesis using low_byte [of kind] by (simp add: rtp_kind_def assms rtp_header_def byte_char_def m)
  qed
  moreover have "push_bit 8 (take_bit 8 (drop_bit 8 sq)) + take_bit 8 sq = take_bit 16 sq"
  proof -
    have "take_bit 8 (drop_bit 8 sq) = drop_bit 8 (take_bit 16 sq)" "take_bit 8 sq = take_bit 8 (take_bit 16 sq)"
      by (rule bit_word_eqI; auto simp: bit_simps)+
    then show ?thesis by (simp only: bits_ident)
  qed
  ultimately show ?thesis
    by (simp add: rtp_seq_def rtp_session_def rtp_word_def b join_bytes)
qed

theorem rtp_header_roundtrip_witness:
  "rtp_session (rtp_header 96 70000 5 0xCAFE @ ''x'') = 0xCAFE"
  using rtp_header_roundtrip [OF refl, of 96 70000 5 "0xCAFE" "''x''"] by blast

subsection \<open>Order of packets\<close>

lemma rtp_seq_bounds: "0 \<le> rtp_seq p \<and> rtp_seq p < 0x10000"
proof -
  have b: "unat (byte_at p i) < 256" for i
  proof -
    define n where "n = (of_char (p ! i) :: nat)"
    have "n < 256" unfolding n_def by simp
    then show ?thesis unfolding byte_at_def n_def [symmetric] by (simp add: unat_of_nat)
  qed
  have "unat (x * 256 + y) = unat x * 256 + unat y" if "unat x < 256" "unat y < 256" for x y :: u32
    using that by (simp add: unat_word_ariths)
  from this [OF b [of 2] b [of 3]] have "unat (push_bit 8 (byte_at p 2) + byte_at p 3) < 0x10000"
    using b [of 2] b [of 3] by (simp add: push_bit_eq_mult mult.commute)
  then have "int (unat (push_bit 8 (byte_at p 2) + byte_at p 3)) < 0x10000" by linarith
  then show ?thesis unfolding rtp_seq_def uint_nat by simp
qed

definition data_packet :: "u32 \<Rightarrow> string \<Rightarrow> bool" where
  "data_packet session p \<longleftrightarrow> udp_header_ok p \<and> rtp_kind p = 96 \<and> 12 < length p \<and> rtp_session p = session"

lemma udp_alive_sel [simp]:
  "us_sn (udp_alive ct s) = us_sn s" "us_ts (udp_alive ct s) = us_ts s" "us_session (udp_alive ct s) = us_session s"
  "us_out (udp_alive ct s) = us_out s" "us_error (udp_alive ct s) = us_error s"
  by (simp_all add: udp_alive_def Let_def)

text \<open>A data packet with a larger number and no older time.\<close>

lemma udp_packet_next:
  assumes "data_packet (us_session s) p"
    and "us_sn s = 0x10000 \<and> INT_MIN < rtp_time p \<or> us_sn s \<noteq> 0x10000 \<and> us_sn s < rtp_seq p \<and> us_ts s \<le> rtp_time p"
  shows "\<exists>s'. udp_packet p ct s = Inr s' \<and> us_sn s' = rtp_seq p \<and> us_ts s' = rtp_time p \<and>
    us_session s' = us_session s \<and> us_error s' = us_error s \<and> us_out s' = us_out s @ drop 12 p"
  using assms rtp_seq_bounds [of p]
  by (auto simp: udp_packet_def data_packet_def Let_def)

fun ascending :: "int \<Rightarrow> int \<Rightarrow> (string \<times> int) list \<Rightarrow> bool" where
  "ascending sn ts [] = True"
| "ascending sn ts ((p, ct) # ps) = (sn < rtp_seq p \<and> ts \<le> rtp_time p \<and> ascending (rtp_seq p) (rtp_time p) ps)"

lemma udp_receive_ascending:
  assumes "\<forall>q \<in> set ps. data_packet (us_session s) (fst q)" and "\<not> us_error s" and "us_sn s \<noteq> 0x10000"
    and "ascending (us_sn s) (us_ts s) ps"
  shows "\<exists>s'. udp_receive ps s = Inr s' \<and> \<not> us_error s' \<and> us_out s' = us_out s @ concat (map (drop 12 \<circ> fst) ps)"
  using assms
proof (induction ps arbitrary: s)
  case (Cons q ps)
  obtain p ct where q: "q = (p, ct)" by (cases q)
  obtain s1 where s1: "udp_packet p ct s = Inr s1" "us_sn s1 = rtp_seq p" "us_ts s1 = rtp_time p"
    "us_session s1 = us_session s" "us_error s1 = us_error s" "us_out s1 = us_out s @ drop 12 p"
    using udp_packet_next [of s p ct] Cons.prems by (auto simp: q)
  have "us_sn s1 \<noteq> 0x10000" using rtp_seq_bounds [of p] s1(2) by simp
  then show ?case using Cons.IH [of s1] Cons.prems s1 by (auto simp: q)
qed simp

text \<open>
  In UDP mode data packets of the session that arrive with rising numbers and times that do not fall
  are all delivered, in order and without their headers.
\<close>

theorem udp_in_order:
  assumes "\<forall>q \<in> set ((p, ct) # ps). data_packet session (fst q)" and "INT_MIN < rtp_time p"
    and "ascending (rtp_seq p) (rtp_time p) ps"
  shows "\<exists>s. udp_receive ((p, ct) # ps) (udp_start session tim sq init) = Inr s \<and> \<not> us_error s \<and>
    us_out s = concat (map (drop 12 \<circ> fst) ((p, ct) # ps))"
proof -
  let ?s = "udp_start session tim sq init"
  obtain s1 where s1: "udp_packet p ct ?s = Inr s1" "us_sn s1 = rtp_seq p" "us_ts s1 = rtp_time p"
    "us_session s1 = session" "\<not> us_error s1" "us_out s1 = drop 12 p"
    using udp_packet_next [of ?s p ct] assms(1,2) by (auto simp: udp_start_def)
  have "us_sn s1 \<noteq> 0x10000" using rtp_seq_bounds [of p] s1(2) by simp
  then show ?thesis using udp_receive_ascending [of ps s1] assms s1 by (auto simp: udp_start_def)
qed

theorem udp_in_order_witness:
  "\<exists>s. udp_receive [(rtp_header 96 7 5 9 @ ''ab'', 0), (rtp_header 96 8 5 9 @ ''c'', 1)] (udp_start 9 0 0 0) = Inr s \<and>
    us_out s = ''abc''"
proof -
  have "\<forall>q \<in> set [(rtp_header 96 7 5 9 @ ''ab'', 0 :: int), (rtp_header 96 8 5 9 @ ''c'', 1)]. data_packet 9 (fst q)"
    "INT_MIN < rtp_time (rtp_header 96 7 5 9 @ ''ab'')"
    "ascending (rtp_seq (rtp_header 96 7 5 9 @ ''ab'')) (rtp_time (rtp_header 96 7 5 9 @ ''ab''))
      [(rtp_header 96 8 5 9 @ ''c'', 1)]" by code_simp+
  from udp_in_order [OF this, of 0 0 0] show ?thesis by (auto simp: rtp_header_def)
qed

text \<open>
  The wrap of the 16 bit number is not handled: the test for it asks for a negative number, which a
  packet never has, so the packet with number 0 that follows number 65535 is not delivered.
\<close>

theorem sequence_wrap_loses_packet:
  assumes "data_packet (us_session s) p" and "us_sn s = 65535" and "rtp_seq p = 0" and "us_ts s \<le> rtp_time p"
  shows "\<exists>s'. udp_packet p ct s = Inr s' \<and> us_out s' = us_out s \<and> us_sn s' = 0"
  using assms by (auto simp: udp_packet_def data_packet_def Let_def)

theorem sequence_wrap_loses_packet_witness:
  "\<exists>s. udp_receive [(rtp_header 96 65535 5 9 @ ''a'', 0), (rtp_header 96 65536 5 9 @ ''b'', 0)] (udp_start 9 0 0 0) = Inr s \<and>
    us_out s = ''a''"
proof -
  let ?p = "rtp_header 96 65535 5 9 @ ''a''" and ?q = "rtp_header 96 65536 5 9 @ ''b''"
  have d: "data_packet 9 ?p" "data_packet 9 ?q" "INT_MIN < rtp_time ?p" "rtp_seq ?p = 65535" "rtp_seq ?q = 0"
    "rtp_time ?p \<le> rtp_time ?q" "drop 12 ?p = ''a''" by code_simp+
  obtain s1 where s1: "udp_packet ?p 0 (udp_start 9 0 0 0) = Inr s1" "us_sn s1 = 65535" "us_ts s1 = rtp_time ?p"
    "us_session s1 = 9" "\<not> us_error s1" "us_out s1 = ''a''"
    using udp_packet_next [of "udp_start 9 0 0 0" ?p 0] d by (auto simp: udp_start_def)
  obtain s2 where "udp_packet ?q 0 s1 = Inr s2" "us_out s2 = us_out s1"
    using sequence_wrap_loses_packet [of s1 ?q 0] d s1 by auto
  then show ?thesis using s1 by (simp add: udp_start_def)
qed

text \<open>
  A time that is older than the last one is refused without changing anything, so after the wrap of the
  32 bit time every packet is refused until the times have caught up.
\<close>

theorem old_times_refused:
  assumes "us_sn s \<noteq> 0x10000" and "\<forall>q \<in> set ps. rtp_time (fst q) < us_ts s"
  shows "udp_receive ps s = Inr s"
  using assms(2)
proof (induction ps)
  case (Cons q ps)
  obtain p ct where q: "q = (p, ct)" by (cases q)
  have "udp_packet p ct s = Inr s"
    using assms(1) Cons.prems rtp_seq_bounds [of p] by (auto simp: q udp_packet_def Let_def)
  then show ?case using Cons by (simp add: q)
qed simp

text \<open>In RTSP mode the first packet only sets the number and the time: its data is lost.\<close>

theorem first_rtsp_packet_lost:
  assumes "rtsp_header_ok p" and "ss_init s = 0"
  shows "\<exists>s'. rtsp_packet a proxied buf p ct r s = Inr s' \<and> ss_out s' = ss_out s \<and> ss_sn s' = rtp_seq p"
  using assms by (auto simp: rtsp_packet_def control_check_def Let_def)

end
