(* ===== verification/NtripClient.thy ===== *)
theory NtripClient
  imports NtripHttp NtripRtp
begin

text \<open>
  The outer loop of \<open>ntrip_client\<close> in \<open>src/Dgps/src/ntripclient.cpp\<close> and the thread
  \<open>ntrserial_client\<close>: choosing server and port, one attempt in HTTP mode from the request to the end of
  the data, one in UDP and one in RTSP mode, the growing pause between attempts and the end of the loop. What the network
  answers in one attempt is an argument.
\<close>

subsection \<open>Server and port\<close>

text \<open>
  \<open>(i = strtol(port, &b, 10)) && (!b || !*b)\<close>, otherwise \<open>getservbyname\<close>; the result is a number or
  nothing.
\<close>

definition strtol_all :: "string \<Rightarrow> int option" where
  "strtol_all s =
     (let (neg, s1) = strip_sign (dropWhile is_space s); ds = takeWhile is_digit s1 in
      if ds \<noteq> [] \<and> dropWhile is_digit s1 = [] \<and> strtol10 s \<noteq> 0 then Some (strtol10 s) else None)"

definition port_number :: "(string \<Rightarrow> int option) \<Rightarrow> string \<Rightarrow> int option" where
  "port_number services port = (case strtol_all port of Some i \<Rightarrow> Some i | None \<Rightarrow> services port)"

text \<open>
  \<open>server\<close>, \<open>port\<close> and, behind a proxy, \<open>proxyserver\<close> with \<open>proxyport\<close> (at most five characters);
  \<open>None\<close> sets \<open>stop\<close>.
\<close>

definition choose_server :: "(string \<Rightarrow> int option) \<Rightarrow> args \<Rightarrow> (string \<times> string \<times> (string \<times> string) option) option" where
  "choose_server services a =
     (case a_proxyhost a of
        None \<Rightarrow> Some (a_server a, a_port a, None)
      | Some proxyhost \<Rightarrow>
          (case port_number services (a_port a) of
             None \<Rightarrow> None
           | Some p \<Rightarrow>
               let p = to_int32 p; text = (if p < 0 then CHR ''-'' # dec_str (nat (- p)) else dec_str (nat p)) in
               Some (proxyhost, a_proxyport a, Some (a_server a, take 5 text))))"

subsection \<open>One attempt\<close>

text \<open>
  What the network and the random numbers give in one attempt: for all modes, for HTTP, for UDP (the
  buffer before it is written, the first reply, the datagrams of a source table, the packets with their
  times, the time of the end) and for RTSP (the two replies and the rounds of the receive loop).
\<close>

record network =
  nt_services :: "string \<Rightarrow> int option"
  nt_host :: "string \<Rightarrow> bool"
  nt_socket :: bool
  nt_connect :: bool
  nt_send :: bool
  nt_events :: "http_event list"
  nt_bind :: bool
  nt_rtpbuf :: string
  nt_init :: int
  nt_session :: u32
  nt_tim :: u32
  nt_seq :: u32
  nt_reply :: "string option"
  nt_table :: "string list"
  nt_packets :: "(string \<times> int) list"
  nt_end :: int
  nt_udp_socket :: bool
  nt_port :: nat
  nt_setup :: "string option"
  nt_play :: "string option"
  nt_nonblock :: bool
  nt_rounds :: "(string option \<times> int \<times> control) list"

record client =
  cs_stop :: bool
  cs_sleep :: int
  cs_dev :: dev
  cs_sbuf :: string
  cs_nmea :: string
  cs_requests :: "string list"

text \<open>Whether there is a socket to use: an unknown port sets \<open>stop\<close>, an unknown host is an error.\<close>

definition reach_server :: "network \<Rightarrow> string \<Rightarrow> string \<Rightarrow> client \<Rightarrow> client \<times> bool" where
  "reach_server network server port cl =
     (case port_number (nt_services network) port of
        None \<Rightarrow> (cl\<lparr>cs_stop := True\<rparr>, False)
      | Some _ \<Rightarrow> (cl, nt_host network server \<and> nt_socket network))"

definition wants_data :: "args \<Rightarrow> bool" where
  "wants_data a \<longleftrightarrow> (case a_data a of None \<Rightarrow> False | Some t \<Rightarrow> first t \<noteq> CHR ''%'')"

text \<open>The source table is copied to the standard output.\<close>

definition copy_table :: "http_event list \<Rightarrow> client \<Rightarrow> client" where
  "copy_table es cl = cl\<lparr>cs_sleep := 0, cs_dev := (cs_dev cl)\<lparr>dv_stdout := dv_stdout (cs_dev cl) @ packets es\<rparr>\<rparr>"

definition attempt_http :: "args \<Rightarrow> (string \<times> string) option \<Rightarrow> string \<Rightarrow> network \<Rightarrow> client \<Rightarrow> error + client" where
  "attempt_http a proxy buf network cl =
     (if \<not> nt_connect network then Inr cl
      else (case http_request a proxy buf of Inl e \<Rightarrow> Inl e
        | Inr (stop, i, b) \<Rightarrow>
          if stop then Inr (cl\<lparr>cs_stop := True\<rparr>)
          else (case sent_bytes i b of Inl e \<Rightarrow> Inl e
            | Inr t \<Rightarrow>
              if \<not> nt_send network then Inr cl
              else
                (let cl = cl\<lparr>cs_requests := cs_requests cl @ [t]\<rparr> in
                 if wants_data a then
                   map_sum id (\<lambda>c. cl\<lparr>cs_stop := hc_stop c, cs_sleep := hc_sleep c, cs_dev := hc_dev c,
                       cs_sbuf := hc_sbuf c, cs_nmea := hc_nmea c\<rparr>)
                     (http_receive a (nt_events network) (new_conn (cs_sleep cl) (cs_dev cl) (cs_sbuf cl) (cs_nmea cl)))
                 else Inr (copy_table (nt_events network) cl)))))"

subsection \<open>One attempt in UDP mode\<close>

definition print :: "string \<Rightarrow> client \<Rightarrow> client" where
  "print t cl = cl\<lparr>cs_dev := (cs_dev cl)\<lparr>dv_stdout := dv_stdout (cs_dev cl) @ t\<rparr>\<rparr>"

definition note_sent :: "string list \<Rightarrow> client \<Rightarrow> client" where
  "note_sent ts cl = cl\<lparr>cs_requests := cs_requests cl @ ts\<rparr>"

text \<open>The session from the first reply on; the packet that closes it is always sent.\<close>

definition end_session :: "network \<Rightarrow> udp_state \<Rightarrow> client \<Rightarrow> client" where
  "end_session network s cl = note_sent (us_sent s @ [udp_close (nt_end network) s]) (print (us_out s) cl)"

definition udp_session :: "network \<Rightarrow> client \<Rightarrow> error + client" where
  "udp_session network cl =
     (let s0 = udp_start (nt_session network) (nt_tim network) (nt_seq network + 1) (nt_init network) in
      case nt_reply network of None \<Rightarrow> Inr (end_session network s0 cl)
      | Some p \<Rightarrow>
          (case udp_answer (nt_session network) p (nt_table network) of Inl e \<Rightarrow> Inl e
           | Inr r \<Rightarrow>
             let cl = print (ur_out r) cl; s1 = s0\<lparr>us_session := ur_session r, us_error := ur_error r\<rparr> in
             if ur_stop r then Inr (end_session network s1 (cl\<lparr>cs_stop := True\<rparr>))
             else map_sum id (\<lambda>s. end_session network s cl) (udp_receive (nt_packets network) s1)))"

definition attempt_udp :: "args \<Rightarrow> network \<Rightarrow> client \<Rightarrow> error + client" where
  "attempt_udp a network cl =
     (case udp_request a (nt_seq network) (nt_tim network) (nt_session network) (nt_rtpbuf network) of Inl e \<Rightarrow> Inl e
      | Inr (stop, i, b) \<Rightarrow>
          if stop then Inr (cl\<lparr>cs_stop := True\<rparr>)
          else if \<not> nt_bind network \<or> \<not> nt_connect network then Inr cl
          else (case sent_bytes i b of Inl e \<Rightarrow> Inl e
            | Inr t \<Rightarrow>
              if \<not> nt_send network then Inr (cl\<lparr>cs_stop := True\<rparr>) else udp_session network (note_sent [t] cl)))"

subsection \<open>One attempt in RTSP mode\<close>

definition rtsp_ok :: "string \<Rightarrow> bool" where
  "rtsp_ok p \<longleftrightarrow> take 17 p = ''RTSP/1.0 200 OK'' @ CRLF"

text \<open>
  From \<open>PLAY\<close> to \<open>TEARDOWN\<close>. Of \<open>buf\<close> only the length matters to the commands. The data stream runs
  only when \<open>PLAY\<close> was answered with 200.
\<close>

definition rtsp_stream :: "args \<Rightarrow> bool \<Rightarrow> network \<Rightarrow> string \<Rightarrow> rtsp_state \<Rightarrow> error + rtsp_state" where
  "rtsp_stream a proxied network buf s =
     (case rtsp_command ''PLAY'' a proxied (ss_cseq s) (nat (ss_session s)) buf of Inl e \<Rightarrow> Inl e
      | Inr (stop, i, b) \<Rightarrow>
          let s = s\<lparr>ss_cseq := ss_cseq s + 1\<rparr> in
          if stop then Inr (s\<lparr>ss_stop := True\<rparr>)
          else (case sent_bytes i b of Inl e \<Rightarrow> Inl e
            | Inr t \<Rightarrow>
              let s = s\<lparr>ss_sent := ss_sent s @ [t]\<rparr> in
              (case nt_play network of None \<Rightarrow> Inr (s\<lparr>ss_error := True\<rparr>)
               | Some p \<Rightarrow>
                 (case (if rtsp_ok p then rtsp_receive a proxied b (nt_rounds network) (s\<lparr>ss_error := \<not> nt_nonblock network\<rparr>)
                     else Inr s) of Inl e \<Rightarrow> Inl e
                  | Inr s \<Rightarrow>
                    (case rtsp_command ''TEARDOWN'' a proxied (ss_cseq s) (nat (ss_session s)) b of Inl e \<Rightarrow> Inl e
                     | Inr (stop, i, b) \<Rightarrow>
                         let s = s\<lparr>ss_cseq := ss_cseq s + 1\<rparr> in
                         if stop then Inr (s\<lparr>ss_stop := True\<rparr>)
                         else map_sum id (\<lambda>t. s\<lparr>ss_sent := ss_sent s @ [t]\<rparr>) (sent_bytes i b))))))"

text \<open>
  \<open>SETUP\<close>, its reply written over the start of the buffer, the first datagram with \<open>initudp\<close>, then the
  stream. The sends after \<open>SETUP\<close> are taken to succeed.
\<close>

definition attempt_rtsp :: "args \<Rightarrow> bool \<Rightarrow> string \<Rightarrow> network \<Rightarrow> client \<Rightarrow> error + client" where
  "attempt_rtsp a proxied buf network cl =
     (if \<not> nt_udp_socket network \<or> \<not> nt_bind network \<or> \<not> nt_connect network then Inr cl
      else (case rtsp_setup a proxied 1 (nt_port network) buf of Inl e \<Rightarrow> Inl e
        | Inr (stop, i, b) \<Rightarrow>
          if stop then Inr (cl\<lparr>cs_stop := True\<rparr>)
          else (case sent_bytes i b of Inl e \<Rightarrow> Inl e
            | Inr t \<Rightarrow>
              if \<not> nt_send network then Inr cl
              else (case nt_setup network of None \<Rightarrow> Inr (note_sent [t] cl)
                | Some p \<Rightarrow>
                  if rtsp_ok p then
                    (let buf = p @ drop (length p) b in
                     case setup_answer buf (length p) of Inl e \<Rightarrow> Inl e
                     | Inr r \<Rightarrow>
                       if sr_stop r then Inr ((note_sent [t] cl)\<lparr>cs_stop := True\<rparr>)
                       else
                         (let hello = (if a_initudp a = 0 then [] else [rtp_header 96 0 0 (of_int (sr_session r))]);
                              s = \<lparr>ss_sn = 0, ss_ts = 0, ss_session = sr_session r, ss_init = 0, ss_cseq = 2,
                                ss_out = [], ss_sent = t # hello, ss_stop = False, ss_error = False\<rparr> in
                          map_sum id (\<lambda>s. (print (ss_out s) (note_sent (ss_sent s) cl))\<lparr>cs_stop := ss_stop s\<rparr>)
                            (rtsp_stream a proxied network buf s)))
                  else Inr (note_sent [t] cl)))))"

subsection \<open>Attempts\<close>

text \<open>The pause before an attempt, then the attempt in the mode that is set, then ten seconds.\<close>

definition pause :: "client \<Rightarrow> int list \<times> client" where
  "pause cl = (if cs_sleep cl \<noteq> 0 then ([cs_sleep cl], cl\<lparr>cs_sleep := cs_sleep cl + 2\<rparr>)
     else ([], cl\<lparr>cs_sleep := 1\<rparr>))"

definition attempt_mode :: "args \<Rightarrow> (string \<times> string) option \<Rightarrow> string \<Rightarrow> network \<Rightarrow> client \<Rightarrow> error + client" where
  "attempt_mode a proxy buf network cl =
     (if a_mode a = UDP then attempt_udp a network cl
      else if wants_data a \<and> a_mode a = RTSP then attempt_rtsp a (proxy \<noteq> None) buf network cl
      else attempt_http a proxy buf network cl)"

definition attempt :: "args \<Rightarrow> string \<Rightarrow> network \<Rightarrow> client \<Rightarrow> error + client \<times> int list" where
  "attempt a buf network cl =
     (case pause cl of (sleeps, cl) \<Rightarrow>
        (case choose_server (nt_services network) a of
           None \<Rightarrow> Inr (cl\<lparr>cs_stop := True\<rparr>, sleeps @ [10])
         | Some (server, port, proxy) \<Rightarrow>
             (case reach_server network server port cl of (cl, ready) \<Rightarrow>
                if ready \<and> \<not> cs_stop cl then
                  map_sum id (\<lambda>cl. (cl, sleeps @ [10])) (attempt_mode a proxy buf network cl)
                else Inr (cl, sleeps @ [10]))))"

text \<open>
  \<open>do ... while(args->data && *args->data != '%' && !args->stop)\<close>, one network for each attempt.
\<close>

fun client_loop :: "args \<Rightarrow> string \<Rightarrow> network list \<Rightarrow> client \<Rightarrow> error + client \<times> int list" where
  "client_loop a buf [] cl = Inr (cl, [])"
| "client_loop a buf (network # nets) cl =
     (case attempt a buf network cl of Inl e \<Rightarrow> Inl e
      | Inr (cl', sleeps) \<Rightarrow>
          if wants_data a \<and> \<not> cs_stop cl' then
            map_sum id (\<lambda>(cl'', more). (cl'', sleeps @ more)) (client_loop a buf nets cl')
          else Inr (cl', sleeps))"

text \<open>
  \<open>ntrip_client\<close> from its start: with a serial device the port is opened and the thread
  \<open>ntrserial_client\<close> is started, which nothing joins or detaches; its handle is destroyed when the
  function returns, which ends the process. \<open>log_ok\<close> tells whether the log file could be opened. A
  result \<open>Inr\<close> of a client that wants data and is not stopped is a client that is still running after
  the given attempts.
\<close>

definition start_client :: "dev \<Rightarrow> client" where
  "start_client d = \<lparr>cs_stop = False, cs_sleep = 0, cs_dev = d, cs_sbuf = [], cs_nmea = [], cs_requests = []\<rparr>"

definition leave :: "args \<Rightarrow> client \<times> int list \<Rightarrow> error + client \<times> int list" where
  "leave a r = (case r of (cl, sleeps) \<Rightarrow>
     if wants_data a \<and> \<not> cs_stop cl then Inr (cl, sleeps)
     else if a_serdevice a = None then Inr (cl, sleeps) else Inl Terminated)"

definition ntrip_client :: "args \<Rightarrow> bool \<Rightarrow> string \<Rightarrow> network list \<Rightarrow> dev \<Rightarrow> error + client \<times> int list" where
  "ntrip_client a log_ok buf nets d =
     (case (if a_serdevice a = None then Inr d else reopen a d) of Inl e \<Rightarrow> Inl e
      | Inr d \<Rightarrow>
          if a_serdevice a \<noteq> None \<and> a_serlogfile a \<noteq> None \<and> \<not> log_ok then Inl Terminated
          else (case client_loop a buf nets (start_client d) of Inl e \<Rightarrow> Inl e | Inr r \<Rightarrow> leave a r))"

text \<open>With a serial device the client has no regular end: it is still running, or the process has ended.\<close>

lemma serial_client_never_returns:
  assumes "a_serdevice a \<noteq> None" and "ntrip_client a log_ok buf nets d = Inr (cl, sleeps)"
  shows "wants_data a \<and> \<not> cs_stop cl"
  using assms by (auto simp: ntrip_client_def leave_def split: sum.splits if_splits prod.splits)

subsection \<open>The serial thread\<close>

text \<open>
  One round of \<open>ntrserial_client\<close>: a port that is not open is opened again; what is read goes to
  \<open>g_nmea\<close> and \<open>sbuf\<close>.
\<close>

definition ntrserial_round :: "args \<Rightarrow> io_answer \<Rightarrow> string \<Rightarrow> http_conn \<Rightarrow> error + http_conn" where
  "ntrserial_round a r block c =
     (if \<not> isOpen (dv_port (hc_dev c)) then map_sum id (\<lambda>d. c\<lparr>hc_dev := d\<rparr>) (reopen a (hc_dev c))
      else (let i = SerialRead (dv_port (hc_dev c)) r in
        if 0 < i then Inr (serial_block (take (nat i) block) c) else Inr c))"

subsection \<open>Pauses\<close>

text \<open>An attempt that cannot reach its server.\<close>

definition unreachable :: "args \<Rightarrow> network \<Rightarrow> bool" where
  "unreachable a network \<longleftrightarrow> a_proxyhost a = None \<and> port_number (nt_services network) (a_port a) \<noteq> None \<and>
     (\<not> nt_host network (a_server a) \<or> \<not> nt_socket network \<or> (a_mode a \<noteq> UDP \<and> \<not> nt_connect network))"

lemma attempt_unreachable:
  assumes "unreachable a network" and "\<not> cs_stop cl"
  shows "attempt a buf network cl = Inr (snd (pause cl), fst (pause cl) @ [10])"
proof -
  obtain n where n: "port_number (nt_services network) (a_port a) = Some n" using assms(1) by (auto simp: unreachable_def)
  have "\<not> cs_stop (snd (pause cl))" using assms(2) by (simp add: pause_def)
  then show ?thesis using assms(1)
    by (auto simp: attempt_def choose_server_def reach_server_def unreachable_def attempt_mode_def attempt_rtsp_def attempt_http_def n split: prod.splits)
qed

text \<open>From the second attempt on the pause is odd.\<close>

lemma client_loop_unreachable:
  assumes "wants_data a" and "\<forall>network \<in> set nets. unreachable a network" and "\<not> cs_stop cl" and "cs_sleep cl = 2 * int k + 1"
  shows "\<exists>cl'. client_loop a buf nets cl = Inr (cl', concat (map (\<lambda>j. [2 * int j + 1, 10]) [k..<k + length nets])) \<and>
    \<not> cs_stop cl' \<and> cs_dev cl' = cs_dev cl"
  using assms(2-4)
proof (induction nets arbitrary: cl k)
  case (Cons network nets)
  have p: "pause cl = ([2 * int k + 1], cl\<lparr>cs_sleep := 2 * int k + 3\<rparr>)" using Cons.prems(3) by (simp add: pause_def)
  have a: "attempt a buf network cl = Inr (cl\<lparr>cs_sleep := 2 * int k + 3\<rparr>, [2 * int k + 1, 10])"
    using attempt_unreachable [of a network cl buf] Cons.prems(1,2) by (simp add: p)
  have u: "[k..<k + length (network # nets)] = k # [Suc k..<Suc k + length nets]" by (simp add: upt_rec)
  have ih: "\<exists>cl'. client_loop a buf nets (cl\<lparr>cs_sleep := 2 * int k + 3\<rparr>) =
      Inr (cl', concat (map (\<lambda>j. [2 * int j + 1, 10]) [Suc k..<Suc k + length nets])) \<and> \<not> cs_stop cl' \<and>
      cs_dev cl' = cs_dev (cl\<lparr>cs_sleep := 2 * int k + 3\<rparr>)"
    by (rule Cons.IH) (use Cons.prems in auto)
  then show ?case using assms(1) Cons.prems(2) unfolding u by (auto simp: a)
qed simp

text \<open>
  While the caster cannot be reached the client keeps trying, and waits longer each time: the second
  attempt comes after 10 and 1 seconds, the third after 10 and 3, then 10 and 5 and so on; the devices
  are left as they are.
\<close>

theorem retry_backoff:
  assumes "wants_data a" and "nets \<noteq> []" and "\<forall>network \<in> set nets. unreachable a network"
    and "\<not> cs_stop cl" and "cs_sleep cl = 0"
  shows "\<exists>cl'. client_loop a buf nets cl =
      Inr (cl', 10 # concat (map (\<lambda>j. [2 * int j + 1, 10]) [0..<length nets - 1])) \<and>
    \<not> cs_stop cl' \<and> cs_dev cl' = cs_dev cl"
proof -
  obtain network rest where n: "nets = network # rest" using assms(2) by (cases nets) auto
  have p: "pause cl = ([], cl\<lparr>cs_sleep := 1\<rparr>)" using assms(5) by (simp add: pause_def)
  have a: "attempt a buf network cl = Inr (cl\<lparr>cs_sleep := 1\<rparr>, [10])"
    using attempt_unreachable [of a network cl buf] assms(3,4) by (simp add: p n)
  have "\<exists>cl'. client_loop a buf rest (cl\<lparr>cs_sleep := 1\<rparr>) =
      Inr (cl', concat (map (\<lambda>j. [2 * int j + 1, 10]) [0..<0 + length rest])) \<and> \<not> cs_stop cl' \<and>
      cs_dev cl' = cs_dev (cl\<lparr>cs_sleep := 1\<rparr>)"
    by (rule client_loop_unreachable) (use assms n in auto)
  then show ?thesis using assms(1,4) unfolding n by (auto simp: a)
qed

definition demo_net :: network where
  "demo_net = \<lparr>nt_services = \<lambda>_. None, nt_host = \<lambda>_. False, nt_socket = True, nt_connect = True,
     nt_send = True, nt_events = [], nt_bind = True, nt_rtpbuf = replicate 1526 (CHR 0x00), nt_init = 0,
     nt_session = 0, nt_tim = 0, nt_seq = 0, nt_reply = None, nt_table = [], nt_packets = [], nt_end = 0,
     nt_udp_socket = True, nt_port = 2000, nt_setup = None, nt_play = None, nt_nonblock = True, nt_rounds = []\<rparr>"

definition demo_dev :: dev where
  "demo_dev = \<lparr>dv_port = closed_port, dv_writes = [], dv_opens = [], dv_out = [], dv_stdout = []\<rparr>"

definition demo_client :: client where
  "demo_client = start_client demo_dev"

lemma port_8002: "strtol_all ''8002'' = Some 8002"
  by (simp add: strtol_all_def strtol10_def strip_sign_def is_space_def is_digit_def dec_value_def)

theorem retry_backoff_witness:
  "\<exists>cl'. client_loop (default_args\<lparr>a_data := Some ''RTCM3''\<rparr>) [] [demo_net, demo_net, demo_net] demo_client =
      Inr (cl', [10, 1, 10, 3, 10]) \<and> \<not> cs_stop cl' \<and> cs_dev cl' = demo_dev"
proof -
  define a where "a = default_args\<lparr>a_data := Some ''RTCM3''\<rparr>"
  have w: "wants_data a" by (simp add: a_def wants_data_def default_args_def first_def)
  have u: "unreachable a demo_net"
    by (simp add: a_def unreachable_def default_args_def demo_net_def port_number_def port_8002)
  have l: "length [demo_net, demo_net, demo_net] - 1 = 2" by simp
  have k: "concat (map (\<lambda>j. [2 * int j + 1, 10]) [0..<2]) = [1, 10, 3, 10]" by (simp add: upt_rec)
  show ?thesis
    using retry_backoff [of a "[demo_net, demo_net, demo_net]" demo_client "[]"] w u
    unfolding l k a_def [symmetric] by (simp add: demo_client_def start_client_def)
qed

subsection \<open>Datagram sessions\<close>

lemma note_sent_simps [simp]:
  "cs_requests (note_sent ts cl) = cs_requests cl @ ts" "cs_stop (note_sent ts cl) = cs_stop cl"
  "cs_sleep (note_sent ts cl) = cs_sleep cl"
  by (simp_all add: note_sent_def)

lemma print_simps [simp]:
  "cs_requests (print t cl) = cs_requests cl" "cs_stop (print t cl) = cs_stop cl" "cs_sleep (print t cl) = cs_sleep cl"
  by (simp_all add: print_def)

lemma udp_session_end:
  "udp_session network cl = Inr cl' \<Longrightarrow>
   \<exists>s cl0. cl' = end_session network s cl0 \<and> cs_requests cl0 = cs_requests cl \<and> cs_sleep cl0 = cs_sleep cl"
proof (cases "nt_reply network")
  case (Some p)
  assume "udp_session network cl = Inr cl'"
  then obtain r where "udp_answer (nt_session network) p (nt_table network) = Inr r"
    and "(\<exists>s. cl' = end_session network s ((print (ur_out r) cl)\<lparr>cs_stop := True\<rparr>)) \<or>
      (\<exists>s. cl' = end_session network s (print (ur_out r) cl))"
    using Some by (auto simp: udp_session_def Let_def map_sum_Inr split: sum.splits if_splits)
  then show ?thesis by fastforce
qed (auto simp: udp_session_def Let_def)

lemma end_session_last:
  "\<exists>sq tim session. cs_requests (end_session network s cl) = cs_requests cl @ us_sent s @ [rtp_header 98 sq tim session]"
  by (auto simp: end_session_def udp_close_def)

lemma udp_session_last:
  assumes "udp_session network cl = Inr cl'"
  shows "\<exists>ts sq tim session. cs_requests cl' = cs_requests cl @ ts @ [rtp_header 98 sq tim session]"
proof -
  obtain s cl0 where e: "cl' = end_session network s cl0" "cs_requests cl0 = cs_requests cl"
    using udp_session_end [OF assms] by auto
  then show ?thesis using end_session_last [of network s cl0] by fastforce
qed

lemma udp_session_sleep: "udp_session network cl = Inr cl' \<Longrightarrow> cs_sleep cl' = cs_sleep cl"
  using udp_session_end [of network cl cl'] by (auto simp: end_session_def)

text \<open>
  In UDP mode every session that was opened is closed: whatever the caster answers, when a request has
  gone out the last thing the client sends is a packet of type 98.
\<close>

theorem udp_session_closed:
  assumes "attempt_udp a network cl = Inr cl'" and "cs_requests cl' \<noteq> cs_requests cl"
  shows "\<exists>ts sq tim session. cs_requests cl' = cs_requests cl @ ts @ [rtp_header 98 sq tim session]"
proof -
  obtain t where "udp_session network (note_sent [t] cl) = Inr cl'"
    using assms by (auto simp: attempt_udp_def split: sum.splits prod.splits if_splits)
  then obtain ts sq tim session
    where "cs_requests cl' = cs_requests cl @ (t # ts) @ [rtp_header 98 sq tim session]"
    using udp_session_last by fastforce
  then show ?thesis by blast
qed

definition udp_args :: args where
  "udp_args = default_args\<lparr>a_data := Some ''RTCM33'', a_mode := UDP\<rparr>"

lemma udp_args_request:
  assumes "length buf = RTPSIZE"
  shows "\<exists>i b t. udp_request udp_args sq tim session buf = Inr (False, i, b) \<and> sent_bytes i b = Inr t"
proof -
  have "length (udp_text udp_args) < 300" "length (login_code udp_args) < 20"
    by (simp_all add: udp_text_def udp_args_def default_args_def gga_line_def auth_line_def has_login_def AGENT_def
        opt_str_def login_code_def base64_length credentials_def del: base64.simps)
  then show ?thesis using udp_request_sent [OF assms, of udp_args sq tim session] by fastforce
qed

theorem udp_session_closed_witness:
  "\<exists>cl' ts sq tim session. attempt_udp udp_args demo_net demo_client = Inr cl' \<and> cs_requests cl' \<noteq> [] \<and>
    cs_requests cl' = ts @ [rtp_header 98 sq tim session]"
proof -
  have "length (nt_rtpbuf demo_net) = RTPSIZE" by (simp add: demo_net_def RTPSIZE_def)
  from udp_args_request [OF this] obtain i b t where
    r: "udp_request udp_args 0 0 0 (nt_rtpbuf demo_net) = Inr (False, i, b)" "sent_bytes i b = Inr t" by blast
  have n: "nt_seq demo_net = 0" "nt_tim demo_net = 0" "nt_session demo_net = 0" "nt_bind demo_net" "nt_connect demo_net"
    "nt_send demo_net" "nt_reply demo_net = None" by (simp_all add: demo_net_def)
  define cl' where "cl' = end_session demo_net (udp_start 0 0 1 (nt_init demo_net)) (note_sent [t] demo_client)"
  have a: "attempt_udp udp_args demo_net demo_client = Inr cl'"
    using r by (simp add: attempt_udp_def n udp_session_def cl'_def)
  have c: "cs_requests demo_client = []" by (simp add: demo_client_def start_client_def)
  have "cs_requests cl' \<noteq> []" using end_session_last [of demo_net] by (simp add: cl'_def end_session_def)
  then show ?thesis using udp_session_closed [OF a] a c by auto
qed

lemma attempt_udp_sleep: "attempt_udp a network cl = Inr cl' \<Longrightarrow> cs_sleep cl' = cs_sleep cl"
  by (auto simp: attempt_udp_def split: sum.splits prod.splits if_splits dest: udp_session_sleep)

lemma attempt_rtsp_sleep: "attempt_rtsp a proxied buf network cl = Inr cl' \<Longrightarrow> cs_sleep cl' = cs_sleep cl"
  by (auto simp: attempt_rtsp_def Let_def map_sum_Inr split: sum.splits prod.splits option.splits if_splits)

lemma attempt_datagram_sleep:
  assumes "attempt a buf network cl = Inr (cl', sleeps)" and "a_mode a = UDP \<or> (a_mode a = RTSP \<and> wants_data a)"
    and "0 \<le> cs_sleep cl"
  shows "cs_sleep cl < cs_sleep cl'"
proof -
  have p: "cs_sleep cl < cs_sleep (snd (pause cl))" using assms(3) by (simp add: pause_def)
  then show ?thesis using assms(1,2)
    by (auto simp: attempt_def attempt_mode_def reach_server_def map_sum_Inr split: prod.splits option.splits if_splits sum.splits
        dest!: attempt_udp_sleep attempt_rtsp_sleep)
qed

text \<open>
  Only the HTTP mode sets the pause back: in UDP and RTSP mode every attempt makes it longer, also
  after sessions that delivered data, so that after n attempts the client waits at least n seconds more.
\<close>

theorem datagram_pause_grows:
  assumes "client_loop a buf nets cl = Inr (cl', sleeps)" and "\<not> cs_stop cl'" and "wants_data a"
    and "a_mode a = UDP \<or> a_mode a = RTSP" and "0 \<le> cs_sleep cl"
  shows "cs_sleep cl + int (length nets) \<le> cs_sleep cl'"
  using assms
proof (induction nets arbitrary: cl sleeps)
  case (Cons network nets)
  from Cons.prems(1,3) obtain cl1 s1 where a: "attempt a buf network cl = Inr (cl1, s1)"
    and r: "cl' = cl1 \<and> cs_stop cl1 \<or> (\<exists>more. client_loop a buf nets cl1 = Inr (cl', more))"
    by (auto simp: map_sum_Inr split: sum.splits if_splits prod.splits)
  have g: "cs_sleep cl < cs_sleep cl1" using attempt_datagram_sleep [OF a] Cons.prems by blast
  show ?case using r Cons.IH [of cl1] Cons.prems(2-5) g by fastforce
qed simp

theorem datagram_pause_grows_witness:
  "\<exists>cl' sleeps. client_loop udp_args [] [demo_net, demo_net] demo_client = Inr (cl', sleeps) \<and> 2 \<le> cs_sleep cl'"
proof -
  have u: "unreachable udp_args demo_net" "wants_data udp_args" "a_mode udp_args = UDP"
    by (simp_all add: unreachable_def wants_data_def udp_args_def default_args_def demo_net_def port_number_def
        port_8002 first_def)
  define cl' where "cl' = demo_client\<lparr>cs_sleep := 3\<rparr>"
  have c: "client_loop udp_args [] [demo_net, demo_net] demo_client = Inr (cl', [10, 1, 10])"
    using attempt_unreachable [OF u(1)] u(2) by (simp add: pause_def demo_client_def start_client_def cl'_def)
  show ?thesis using datagram_pause_grows [OF c _ u(2)] u(3) c by (auto simp: demo_client_def start_client_def cl'_def)
qed

end
