(* ===== verification/NodeQueue.thy ===== *)
theory NodeQueue
  imports ShmRegistry
begin

text \<open>
  One direction of the transport between a node and the master: a queue in shared memory and an eventfd
  counter. The writer is \<open>Publisher::publish\<close> of \<open>src/Node/include/hmw/Publisher.hpp\<close> or
  \<open>Subscribe::publish2Node\<close> of the master; the reader is \<open>Subscriber::onRead\<close> of
  \<open>src/Node/include/hmw/Subscriber.hpp\<close> or \<open>Publish::onEventfdRead\<close> of the master. Writer and reader are
  different processes, so pushing, writing the eventfd, reading it and each pop are steps of their own.
\<close>

subsection \<open>The steps\<close>

text \<open>
  \<open>ch_counter\<close> is the eventfd, \<open>ch_writing\<close> a writer that has pushed and not yet written the eventfd,
  \<open>ch_left\<close> the rounds left in the loop of the reader. \<open>ch_sent\<close> and \<open>ch_got\<close> record the messages that
  entered the queue and those that were handed to the callback.
\<close>

record 'q chan =
  ch_queue :: 'q
  ch_counter :: nat
  ch_writing :: bool
  ch_left :: nat
  ch_sent :: "string list"
  ch_got :: "string list"

definition new_chan :: "'q \<Rightarrow> 'q chan" where
  "new_chan q = \<lparr>ch_queue = q, ch_counter = 0, ch_writing = False, ch_left = 0, ch_sent = [], ch_got = []\<rparr>"

datatype chan_act = Push string | Signal | Wake | Pop

text \<open>\<open>if (queue->write_available()) queue->push(message)\<close>; a full queue drops the message.\<close>

definition publish_push :: "(string \<Rightarrow> 'q \<Rightarrow> bool \<times> 'q) \<Rightarrow> string \<Rightarrow> 'q chan \<Rightarrow> 'q chan" where
  "publish_push push message c =
     (case push message (ch_queue c) of (ok, q) \<Rightarrow>
        if ok then c\<lparr>ch_queue := q, ch_writing := True, ch_sent := ch_sent c @ [message]\<rparr> else c)"

definition publish_signal :: "'q chan \<Rightarrow> 'q chan" where
  "publish_signal c = c\<lparr>ch_counter := ch_counter c + 1, ch_writing := False\<rparr>"

text \<open>The read of the eventfd gives its value and sets it to 0; then the loop runs that often.\<close>

definition on_wake :: "'q chan \<Rightarrow> 'q chan" where
  "on_wake c = c\<lparr>ch_left := ch_counter c, ch_counter := 0\<rparr>"

definition on_pop :: "('q \<Rightarrow> string option \<times> 'q) \<Rightarrow> 'q chan \<Rightarrow> 'q chan" where
  "on_pop pop c =
     (case pop (ch_queue c) of
        (Some message, q) \<Rightarrow> c\<lparr>ch_queue := q, ch_left := ch_left c - 1, ch_got := ch_got c @ [message]\<rparr>
      | (None, q) \<Rightarrow> c\<lparr>ch_queue := q, ch_left := ch_left c - 1\<rparr>)"

text \<open>\<open>None\<close> is a step that cannot happen: the read waits while the counter is 0.\<close>

fun chan_do :: "(string \<Rightarrow> 'q \<Rightarrow> bool \<times> 'q) \<Rightarrow> ('q \<Rightarrow> string option \<times> 'q) \<Rightarrow> chan_act \<Rightarrow> 'q chan \<Rightarrow> 'q chan option" where
  "chan_do push pop (Push m) c = (if ch_writing c then None else Some (publish_push push m c))"
| "chan_do push pop Signal c = (if ch_writing c then Some (publish_signal c) else None)"
| "chan_do push pop Wake c = (if ch_left c = 0 \<and> 0 < ch_counter c then Some (on_wake c) else None)"
| "chan_do push pop Pop c = (if 0 < ch_left c then Some (on_pop pop c) else None)"

fun chan_run :: "(string \<Rightarrow> 'q \<Rightarrow> bool \<times> 'q) \<Rightarrow> ('q \<Rightarrow> string option \<times> 'q) \<Rightarrow> chan_act list \<Rightarrow> 'q chan \<Rightarrow> 'q chan option" where
  "chan_run push pop [] c = Some c"
| "chan_run push pop (a # as) c = (case chan_do push pop a c of None \<Rightarrow> None | Some c' \<Rightarrow> chan_run push pop as c')"

lemma chan_run_append:
  "chan_run push pop (as @ bs) c = (case chan_run push pop as c of None \<Rightarrow> None | Some c' \<Rightarrow> chan_run push pop bs c')"
  by (induction as arbitrary: c) (auto split: option.splits)

subsection \<open>The specification\<close>

text \<open>A queue of bounded length between what was sent and what was received.\<close>

inductive fifo_step :: "nat \<Rightarrow> string list \<times> string list \<Rightarrow> string list \<times> string list \<Rightarrow> bool" for cap where
  accept: "length sent < length got + cap \<Longrightarrow> fifo_step cap (sent, got) (sent @ [m], got)"
| deliver: "length got < length sent \<Longrightarrow> fifo_step cap (sent, got) (sent, got @ [sent ! length got])"

text \<open>What the reader does once the writer is quiet: finish the loop, read the eventfd, run the loop.\<close>

definition drain :: "'q chan \<Rightarrow> chan_act list" where
  "drain c = replicate (ch_left c) Pop @ (if ch_counter c = 0 then [] else Wake # replicate (ch_counter c) Pop)"

subsection \<open>Queues\<close>

locale bounded_queue =
  fixes items :: "'q \<Rightarrow> string list" and push :: "string \<Rightarrow> 'q \<Rightarrow> bool \<times> 'q"
    and pop :: "'q \<Rightarrow> string option \<times> 'q" and cap :: nat
  assumes push_room: "length (items q) < cap \<Longrightarrow> \<exists>q'. push m q = (True, q') \<and> items q' = items q @ [m]"
    and push_full: "cap \<le> length (items q) \<Longrightarrow> push m q = (False, q)"
    and pop_item: "items q = m # ms \<Longrightarrow> \<exists>q'. pop q = (Some m, q') \<and> items q' = ms"
begin

text \<open>Every message in the queue has its round: counted, in progress, or about to be counted.\<close>

definition chan_inv :: "'q chan \<Rightarrow> bool" where
  "chan_inv c \<longleftrightarrow>
     length (items (ch_queue c)) = ch_counter c + ch_left c + (if ch_writing c then 1 else 0) \<and>
     ch_sent c = ch_got c @ items (ch_queue c) \<and> length (items (ch_queue c)) \<le> cap"

lemma inv_new: "items q = [] \<Longrightarrow> chan_inv (new_chan q)"
  by (simp add: chan_inv_def new_chan_def)

lemma pop_ready:
  assumes "chan_inv c" and "0 < ch_left c"
  shows "\<exists>m ms q. items (ch_queue c) = m # ms \<and> pop (ch_queue c) = (Some m, q) \<and> items q = ms"
proof -
  obtain m ms where "items (ch_queue c) = m # ms" using assms by (cases "items (ch_queue c)") (auto simp: chan_inv_def)
  then show ?thesis using pop_item [of "ch_queue c" m ms] by auto
qed

lemma inv_push:
  assumes "chan_inv c" and "\<not> ch_writing c"
  shows "chan_inv (publish_push push m c) \<and>
    (publish_push push m c = c \<or> length (ch_sent c) < length (ch_got c) + cap \<and>
     ch_sent (publish_push push m c) = ch_sent c @ [m] \<and> ch_got (publish_push push m c) = ch_got c)"
proof (cases "length (items (ch_queue c)) < cap")
  case True
  from push_room [OF this, of m] obtain q where "push m (ch_queue c) = (True, q)" "items q = items (ch_queue c) @ [m]" by blast
  then show ?thesis using assms True by (simp add: publish_push_def chan_inv_def)
next
  case False
  then show ?thesis using assms push_full [of "ch_queue c" m] by (simp add: publish_push_def)
qed

lemma inv_pop:
  assumes "chan_inv c" and "0 < ch_left c"
  shows "chan_inv (on_pop pop c)" "ch_sent (on_pop pop c) = ch_sent c" "length (ch_got c) < length (ch_sent c)"
    "ch_got (on_pop pop c) = ch_got c @ [ch_sent c ! length (ch_got c)]"
    "ch_left (on_pop pop c) = ch_left c - 1" "ch_counter (on_pop pop c) = ch_counter c"
    "ch_writing (on_pop pop c) = ch_writing c"
proof -
  obtain m ms q where i: "items (ch_queue c) = m # ms" and p: "pop (ch_queue c) = (Some m, q)" and q: "items q = ms"
    using pop_ready [OF assms] by blast
  show "chan_inv (on_pop pop c)" "ch_sent (on_pop pop c) = ch_sent c" "length (ch_got c) < length (ch_sent c)"
    "ch_got (on_pop pop c) = ch_got c @ [ch_sent c ! length (ch_got c)]"
    "ch_left (on_pop pop c) = ch_left c - 1" "ch_counter (on_pop pop c) = ch_counter c"
    "ch_writing (on_pop pop c) = ch_writing c"
    using assms i q by (auto simp: chan_inv_def on_pop_def p)
qed

lemma do_step:
  assumes "chan_do push pop a c = Some c'" and "chan_inv c"
  shows "chan_inv c' \<and> ((ch_sent c', ch_got c') = (ch_sent c, ch_got c) \<or>
    fifo_step cap (ch_sent c, ch_got c) (ch_sent c', ch_got c'))"
proof (cases a)
  case (Push m)
  then show ?thesis using assms inv_push [of c m] by (auto split: if_splits intro: fifo_step.accept)
next
  case Signal
  then show ?thesis using assms by (auto simp: publish_signal_def chan_inv_def split: if_splits)
next
  case Wake
  then show ?thesis using assms by (auto simp: on_wake_def chan_inv_def split: if_splits)
next
  case Pop
  then show ?thesis using assms inv_pop [of c] by (auto split: if_splits intro: fifo_step.deliver)
qed

lemma run_steps:
  assumes "chan_run push pop as c = Some c'" and "chan_inv c"
  shows "chan_inv c' \<and> (fifo_step cap)\<^sup>*\<^sup>* (ch_sent c, ch_got c) (ch_sent c', ch_got c')"
  using assms
proof (induction as arbitrary: c)
  case (Cons a as)
  from Cons.prems(1) obtain c1 where c1: "chan_do push pop a c = Some c1" "chan_run push pop as c1 = Some c'"
    by (auto split: option.splits)
  note s = do_step [OF c1(1) Cons.prems(2)]
  from Cons.IH [OF c1(2)] s have "(fifo_step cap)\<^sup>*\<^sup>* (ch_sent c1, ch_got c1) (ch_sent c', ch_got c')" "chan_inv c'" by auto
  then show ?case using s by (metis converse_rtranclp_into_rtranclp)
qed simp

lemma run_pops:
  assumes "chan_inv c" and "n \<le> ch_left c"
  shows "\<exists>c'. chan_run push pop (replicate n Pop) c = Some c' \<and> chan_inv c' \<and> ch_left c' = ch_left c - n \<and>
    ch_counter c' = ch_counter c \<and> ch_writing c' = ch_writing c \<and> ch_sent c' = ch_sent c"
  using assms
proof (induction n arbitrary: c)
  case (Suc n)
  then have p: "0 < ch_left c" by simp
  note i = inv_pop [OF Suc.prems(1) p]
  have "n \<le> ch_left (on_pop pop c)" using Suc.prems(2) i(5) by simp
  from Suc.IH [OF i(1) this] i(2,5-7) obtain c' where
    "chan_run push pop (replicate n Pop) (on_pop pop c) = Some c'" "chan_inv c'" "ch_left c' = ch_left c - Suc n"
    "ch_counter c' = ch_counter c" "ch_writing c' = ch_writing c" "ch_sent c' = ch_sent c" by auto
  then show ?case using p by auto
qed simp

lemma drained:
  assumes "chan_inv c" and "\<not> ch_writing c"
  shows "\<exists>c'. chan_run push pop (drain c) c = Some c' \<and> ch_sent c' = ch_sent c \<and> ch_got c' = ch_sent c"
proof -
  obtain c1 where c1: "chan_run push pop (replicate (ch_left c) Pop) c = Some c1" "chan_inv c1" "ch_left c1 = 0"
    "ch_counter c1 = ch_counter c" "\<not> ch_writing c1" "ch_sent c1 = ch_sent c"
    using run_pops [OF assms(1), of "ch_left c"] assms(2) by auto
  show ?thesis
  proof (cases "ch_counter c = 0")
    case True
    then show ?thesis using c1 by (auto simp: drain_def chan_inv_def)
  next
    case False
    have w: "chan_inv (on_wake c1)" "ch_left (on_wake c1) = ch_counter c" "ch_counter (on_wake c1) = 0"
      "\<not> ch_writing (on_wake c1)" "ch_sent (on_wake c1) = ch_sent c"
      using c1 by (auto simp: on_wake_def chan_inv_def)
    from run_pops [OF w(1), of "ch_counter c"] w obtain c2 where c2:
      "chan_run push pop (replicate (ch_counter c) Pop) (on_wake c1) = Some c2" "chan_inv c2" "ch_left c2 = 0"
      "ch_counter c2 = 0" "\<not> ch_writing c2" "ch_sent c2 = ch_sent c" by auto
    then have "chan_run push pop (drain c) c = Some c2"
      using c1 False by (simp add: drain_def chan_run_append)
    then show ?thesis using c2 by (auto simp: chan_inv_def)
  qed
qed

end

subsection \<open>The queues of the program\<close>

text \<open>The \<open>spsc_queue\<close> of a node.\<close>

definition list_push :: "string \<Rightarrow> string list \<Rightarrow> bool \<times> string list" where
  "list_push m q = (if length q < QUEUE_SIZE then (True, q @ [m]) else (False, q))"

definition list_pop :: "string list \<Rightarrow> string option \<times> string list" where
  "list_pop q = (case q of [] \<Rightarrow> (None, []) | m # ms \<Rightarrow> (Some m, ms))"

interpretation node_queue: bounded_queue "\<lambda>q. q" list_push list_pop QUEUE_SIZE
  by unfold_locales (auto simp: list_push_def list_pop_def)

text \<open>The queue of the endpoint \<open>i\<close> in the registry of the master.\<close>

definition mw_pop :: "nat \<Rightarrow> mw \<Rightarrow> string option \<times> mw" where
  "mw_pop i m = (if um_at [] (mw_queues m) i = [] then (None, m) else map_prod Some id (queue_pop i m))"

interpretation master_queue: bounded_queue "\<lambda>m. um_at [] (mw_queues m) i" "queue_push i" "mw_pop i" QUEUE_SIZE for i
  by unfold_locales (auto simp: queue_push_def mw_pop_def queue_pop_def)

subsection \<open>What the transport promises\<close>

text \<open>
  C19: However writer and reader interleave, the transport is a queue of at most ten messages: a message
  is accepted only while fewer than ten wait, and the callback gets the accepted messages in order, none
  lost and none twice.
\<close>

theorem transport_refines_fifo:
  assumes "chan_run list_push list_pop as (new_chan []) = Some c"
  shows "(fifo_step QUEUE_SIZE)\<^sup>*\<^sup>* ([], []) (ch_sent c, ch_got c)"
  using node_queue.run_steps [OF assms node_queue.inv_new] by (simp add: new_chan_def)

theorem transport_refines_fifo_witness:
  "(fifo_step QUEUE_SIZE)\<^sup>*\<^sup>* ([], []) ([''a'', ''b''], [''a''])"
proof -
  define c where "c = \<lparr>ch_queue = [''b''], ch_counter = 0, ch_writing = True, ch_left = 0, ch_sent = [''a'', ''b''],
      ch_got = [''a'']\<rparr>"
  have "chan_run list_push list_pop [Push ''a'', Signal, Wake, Push ''b'', Pop] (new_chan []) = Some c"
    by (simp add: c_def new_chan_def publish_push_def publish_signal_def on_wake_def on_pop_def list_push_def list_pop_def
        QUEUE_SIZE_def)
  from transport_refines_fifo [OF this] show ?thesis by (simp add: c_def)
qed

text \<open>
  A reader that is in its loop always finds a message: the counter never promises more than the queue
  holds, also while the writer is between pushing and signalling, and it never promises more than ten.
\<close>

theorem reader_finds_message:
  assumes "chan_run (queue_push i) (mw_pop i) as (new_chan m) = Some c" and "um_at [] (mw_queues m) i = []"
  shows "ch_counter c + ch_left c \<le> QUEUE_SIZE \<and> (ch_left c = 0 \<or> fst (mw_pop i (ch_queue c)) \<noteq> None)"
proof -
  have i: "master_queue.chan_inv i c" using master_queue.run_steps [OF assms(1) master_queue.inv_new [OF assms(2)]] by blast
  then have "ch_counter c + ch_left c \<le> QUEUE_SIZE" by (auto simp: master_queue.chan_inv_def)
  moreover have "fst (mw_pop i (ch_queue c)) \<noteq> None" if "0 < ch_left c"
    using master_queue.pop_ready [OF i that] by force
  ultimately show ?thesis by blast
qed

theorem reader_finds_message_witness:
  "\<exists>c. chan_run (queue_push 0) (mw_pop 0) [Push ''a'', Signal, Wake, Push ''b''] (new_chan new_mw) = Some c \<and>
    fst (mw_pop 0 (ch_queue c)) \<noteq> None"
proof -
  obtain c where c: "chan_run (queue_push 0) (mw_pop 0) [Push ''a'', Signal, Wake, Push ''b''] (new_chan new_mw) = Some c"
      "ch_left c = 1"
    by (simp add: new_chan_def publish_push_def publish_signal_def on_wake_def queue_push_def new_mw_def um_at_def
        QUEUE_SIZE_def)
  have "um_at [] (mw_queues new_mw) 0 = []" by (simp add: new_mw_def um_at_def)
  from reader_finds_message [OF c(1) this] c show ?thesis by auto
qed

text \<open>
  C20: No wake-up is lost: whenever the writer is not in the middle of a publication, finishing the loop,
  reading the eventfd and running the loop again hands over every accepted message.
\<close>

theorem no_lost_wakeup:
  assumes "chan_run list_push list_pop as (new_chan []) = Some c" and "\<not> ch_writing c"
  shows "\<exists>c'. chan_run list_push list_pop (drain c) c = Some c' \<and> ch_sent c' = ch_sent c \<and> ch_got c' = ch_sent c"
proof -
  have "node_queue.chan_inv c" using node_queue.run_steps [OF assms(1) node_queue.inv_new] by simp
  then show ?thesis using node_queue.drained assms(2) by blast
qed

theorem no_lost_wakeup_witness:
  "\<exists>c c'. chan_run list_push list_pop [Push ''a'', Signal, Wake, Push ''b'', Signal] (new_chan []) = Some c \<and>
    chan_run list_push list_pop (drain c) c = Some c' \<and> ch_got c' = [''a'', ''b'']"
proof -
  obtain c where c: "chan_run list_push list_pop [Push ''a'', Signal, Wake, Push ''b'', Signal] (new_chan []) = Some c"
      "\<not> ch_writing c" "ch_sent c = [''a'', ''b'']"
    by (simp add: new_chan_def publish_push_def publish_signal_def on_wake_def list_push_def QUEUE_SIZE_def)
  from no_lost_wakeup [OF c(1,2)] c show ?thesis by auto
qed

end
