(* ===== verification/NodeLib.thy ===== *)
theory NodeLib
  imports MasterRun NodeQueue
begin

text \<open>
  The library a node links, \<open>src/Node/\<close>: \<open>Node\<close> and \<open>NodeImpl\<close> with their tables of publishers and
  subscribers, and the set-up of \<open>Publisher\<close> and \<open>Subscriber\<close>. The socket \<open>/tmp/master\<close> is a function
  \<open>send\<close> that gives the answer to a request; the lemmas at the end put the model of the master there.
  What \<open>Publisher\<close> and \<open>Subscriber\<close> do with messages is in \<open>NodeQueue\<close>.
\<close>

subsection \<open>Requests\<close>

definition to_string :: "int \<Rightarrow> string" where
  "to_string v = (if v < 0 then CHR ''-'' # dec_str (nat (- v)) else dec_str (nat v))"

definition node_request :: "'r http_api \<Rightarrow> string \<Rightarrow> int \<Rightarrow> 'r" where
  "node_request A name pid =
     h_prepare A (h_set A ''pid'' (to_string pid) (h_set A ''node'' name (h_make A v_post ''/node'')))"

definition delete_request :: "'r http_api \<Rightarrow> string \<Rightarrow> 'r" where
  "delete_request A name = h_prepare A (h_set A ''node'' name (h_make A v_delete ''/node''))"

definition pub_request :: "'r http_api \<Rightarrow> string \<Rightarrow> string \<Rightarrow> string \<Rightarrow> int \<Rightarrow> 'r" where
  "pub_request A name topic type fd =
     h_prepare A (h_set A ''type'' type (h_set A ''eventfd'' (to_string fd) (h_set A ''node'' name
       (h_set A ''pub'' topic (h_make A v_post ''/node/pub'')))))"

definition sub_request :: "'r http_api \<Rightarrow> string \<Rightarrow> string \<Rightarrow> string \<Rightarrow> int \<Rightarrow> 'r" where
  "sub_request A name topic type fd =
     h_prepare A (h_set A ''type'' type (h_set A ''eventfd'' (to_string fd) (h_set A ''node'' name
       (h_set A ''sub'' topic (h_make A v_post ''/node/sub'')))))"

text \<open>How an exchange with the master ends. Any status but 400 counts as success.\<close>

datatype master_reply = ConnectError | WriteError | ReadError | Status status

text \<open>\<open>send\<close> answers a request in a state of the outside; what it does there may be undefined.\<close>

type_synonym ('r, 's) sender = "'r \<Rightarrow> 's \<Rightarrow> error + master_reply \<times> 's"

subsection \<open>Publisher and Subscriber\<close>

record publisher =
  pb_topic :: string
  pb_type :: string
  pb_fd :: int
  pb_queue :: "string option"

record 'c subscriber =
  sb_topic :: string
  sb_type :: string
  sb_fd :: int
  sb_queue :: "string option"
  sb_callback :: "'c option"

text \<open>
  \<open>run\<close>: \<open>fd\<close> is what \<open>eventfd(0,0)\<close> gives; \<open>shm\<close> tells of a segment whether it can be opened and
  whether the queue of the same name is in it.
\<close>

definition segment_found :: "(string \<Rightarrow> 's \<Rightarrow> bool option) \<Rightarrow> string \<Rightarrow> 's \<Rightarrow> bool" where
  "segment_found shm name s \<longleftrightarrow> (case shm name s of None \<Rightarrow> False | Some found \<Rightarrow> found)"

definition Publisher_run :: "'r http_api \<Rightarrow> ('r, 's) sender \<Rightarrow> (string \<Rightarrow> 's \<Rightarrow> bool option) \<Rightarrow> string \<Rightarrow> int \<Rightarrow>
    publisher \<Rightarrow> 's \<Rightarrow> error + (bool \<times> publisher) \<times> 's" where
  "Publisher_run A send shm node fd p s =
     (let p = p\<lparr>pb_fd := fd\<rparr> in
      if fd = -1 then Inr ((False, p), s)
      else (case send (pub_request A node (pb_topic p) (pb_type p) fd) s of Inl e \<Rightarrow> Inl e
        | Inr (r, s) \<Rightarrow>
          if r = ConnectError \<or> r = WriteError \<or> r = ReadError \<or> r = Status bad_request then Inr ((False, p), s)
          else
            (let shmName = ''pub.'' @ node @ ''.'' @ pb_topic p in
             if segment_found shm shmName s then Inr ((True, p\<lparr>pb_queue := Some shmName\<rparr>), s)
             else Inr ((False, p), s))))"

definition Subscriber_run :: "'r http_api \<Rightarrow> ('r, 's) sender \<Rightarrow> (string \<Rightarrow> 's \<Rightarrow> bool option) \<Rightarrow> string \<Rightarrow> int \<Rightarrow>
    'c \<Rightarrow> 'c subscriber \<Rightarrow> 's \<Rightarrow> error + (bool \<times> 'c subscriber) \<times> 's" where
  "Subscriber_run A send shm node fd callback p s =
     (let p = p\<lparr>sb_fd := fd\<rparr> in
      if fd = -1 then Inr ((False, p), s)
      else (case send (sub_request A node (sb_topic p) (sb_type p) fd) s of Inl e \<Rightarrow> Inl e
        | Inr (r, s) \<Rightarrow>
          if r = ConnectError \<or> r = WriteError \<or> r = ReadError \<or> r = Status bad_request then Inr ((False, p), s)
          else
            (let shmName = ''sub.'' @ node @ ''.'' @ sb_topic p in
             if segment_found shm shmName s
             then Inr ((True, p\<lparr>sb_queue := Some shmName, sb_callback := Some callback\<rparr>), s)
             else Inr ((False, p), s))))"

subsection \<open>NodeImpl\<close>

record 'c lib_node =
  ln_name :: string
  ln_pid :: int
  ln_publishes :: "(string, publisher option) umap"
  ln_subscribes :: "(string, 'c subscriber option) umap"

definition containsPublisher :: "string \<Rightarrow> 'c lib_node \<Rightarrow> bool" where
  "containsPublisher topic n \<longleftrightarrow> um_find (ln_publishes n) topic \<noteq> None"

definition containsSubscriber :: "string \<Rightarrow> 'c lib_node \<Rightarrow> bool" where
  "containsSubscriber topic n \<longleftrightarrow> um_find (ln_subscribes n) topic \<noteq> None"

definition addPublisher :: "string \<Rightarrow> publisher \<Rightarrow> 'c lib_node \<Rightarrow> 'c lib_node" where
  "addPublisher topic p n = n\<lparr>ln_publishes := um_put topic (Some p) (ln_publishes n)\<rparr>"

definition addSubscriber :: "string \<Rightarrow> 'c subscriber \<Rightarrow> 'c lib_node \<Rightarrow> 'c lib_node" where
  "addSubscriber topic p n = n\<lparr>ln_subscribes := um_put topic (Some p) (ln_subscribes n)\<rparr>"

text \<open>\<open>operator[]\<close>: an unknown topic gets a null entry.\<close>

definition getPublisher :: "string \<Rightarrow> 'c lib_node \<Rightarrow> publisher option \<times> 'c lib_node" where
  "getPublisher topic n =
     (let (p, t) = um_index None topic (ln_publishes n) in (p, n\<lparr>ln_publishes := t\<rparr>))"

definition getSubscriber :: "string \<Rightarrow> 'c lib_node \<Rightarrow> 'c subscriber option \<times> 'c lib_node" where
  "getSubscriber topic n =
     (let (p, t) = um_index None topic (ln_subscribes n) in (p, n\<lparr>ln_subscribes := t\<rparr>))"

text \<open>\<open>NodeImpl::run\<close>: the text of the exception it throws, if any.\<close>

definition NodeImpl_run :: "'r http_api \<Rightarrow> ('r, 's) sender \<Rightarrow> 'c lib_node \<Rightarrow> 's \<Rightarrow> error + string option \<times> 's" where
  "NodeImpl_run A send n s =
     (case send (node_request A (ln_name n) (ln_pid n)) s of Inl e \<Rightarrow> Inl e
      | Inr (r, s) \<Rightarrow>
          Inr (if r = ConnectError then Some ''connect error'' else if r = WriteError then Some ''write error''
            else if r = ReadError then Some ''read error''
            else if r = Status bad_request then Some ''error on server side'' else None, s))"

text \<open>The destructor: errors are ignored, then \<open>exit(0)\<close>.\<close>

definition NodeImpl_destroy :: "'r http_api \<Rightarrow> ('r, 's) sender \<Rightarrow> 'c lib_node \<Rightarrow> 's \<Rightarrow> error + 's" where
  "NodeImpl_destroy A send n s = map_sum id snd (send (delete_request A (ln_name n)) s)"

text \<open>\<open>onSignal\<close>: \<open>None\<close> is \<open>exit(0)\<close>, otherwise the exception, which nothing catches.\<close>

definition NodeImpl_onSignal :: "'r http_api \<Rightarrow> ('r, 's) sender \<Rightarrow> bool \<Rightarrow> 'c lib_node \<Rightarrow> 's \<Rightarrow> error + string option \<times> 's" where
  "NodeImpl_onSignal A send ec n s =
     (if ec then Inr (Some ''signal error'', s)
      else (case send (delete_request A (ln_name n)) s of Inl e \<Rightarrow> Inl e
        | Inr (r, s) \<Rightarrow>
            Inr (if r = ConnectError then Some ''connect error'' else if r = WriteError then Some ''write error''
              else if r = ReadError then Some ''read error'' else None, s)))"

subsection \<open>Node\<close>

text \<open>
  \<open>Node::Node\<close>: when \<open>m_impl.run()\<close> throws, the member \<open>m_impl\<close> is destroyed, so its destructor runs and
  ends the process; \<open>None\<close> is that end. The stack is taken to be unwound, which an implementation may leave
  out when nothing catches the exception.
\<close>

definition new_lib_node :: "string \<Rightarrow> int \<Rightarrow> 'c lib_node" where
  "new_lib_node name pid = \<lparr>ln_name = name, ln_pid = pid, ln_publishes = [], ln_subscribes = []\<rparr>"

definition Node_new :: "'r http_api \<Rightarrow> ('r, 's) sender \<Rightarrow> string \<Rightarrow> int \<Rightarrow> 's \<Rightarrow> error + 'c lib_node option \<times> 's" where
  "Node_new A send name pid s =
     (let n = new_lib_node name pid in
      case NodeImpl_run A send n s of Inl e \<Rightarrow> Inl e
      | Inr (None, s) \<Rightarrow> Inr (Some n, s)
      | Inr (Some what, s) \<Rightarrow> map_sum id (\<lambda>s. (None, s)) (NodeImpl_destroy A send n s))"

text \<open>
  \<open>createPublisher\<close> and \<open>createSubscriber\<close>; the overloads differ in where the type comes from. \<open>Inl\<close> in
  the result is the exception.
\<close>

definition createPublisher :: "'r http_api \<Rightarrow> ('r, 's) sender \<Rightarrow> (string \<Rightarrow> 's \<Rightarrow> bool option) \<Rightarrow> int \<Rightarrow> string \<Rightarrow> string \<Rightarrow>
    'c lib_node \<Rightarrow> 's \<Rightarrow> error + (string + publisher option) \<times> 'c lib_node \<times> 's" where
  "createPublisher A send shm fd topic type n s =
     (if containsPublisher topic n then (let (p, n) = getPublisher topic n in Inr (Inr p, n, s))
      else
        (case Publisher_run A send shm (ln_name n) fd \<lparr>pb_topic = topic, pb_type = type, pb_fd = 0, pb_queue = None\<rparr> s of
           Inl e \<Rightarrow> Inl e
         | Inr ((ok, p), s) \<Rightarrow>
             if \<not> ok then Inr (Inl ''error on create publish'', n, s)
             else Inr (Inr (Some p), addPublisher topic p n, s)))"

definition createSubscriber :: "'r http_api \<Rightarrow> ('r, 's) sender \<Rightarrow> (string \<Rightarrow> 's \<Rightarrow> bool option) \<Rightarrow> int \<Rightarrow> string \<Rightarrow> string \<Rightarrow>
    'c \<Rightarrow> 'c lib_node \<Rightarrow> 's \<Rightarrow> error + (string + 'c subscriber option) \<times> 'c lib_node \<times> 's" where
  "createSubscriber A send shm fd topic type callback n s =
     (if containsSubscriber topic n then (let (p, n) = getSubscriber topic n in Inr (Inr p, n, s))
      else
        (case Subscriber_run A send shm (ln_name n) fd callback
             \<lparr>sb_topic = topic, sb_type = type, sb_fd = 0, sb_queue = None, sb_callback = None\<rparr> s of
           Inl e \<Rightarrow> Inl e
         | Inr ((ok, p), s) \<Rightarrow>
             if \<not> ok then Inr (Inl ''error on create subscribe'', n, s)
             else Inr (Inr (Some p), addSubscriber topic p n, s)))"

subsection \<open>Numbers in fields\<close>

lemma is_digit_char: "(d :: nat) < 10 \<Longrightarrow> is_digit (char_of (48 + d))"
  by (simp add: is_digit_def)

lemma dec_str_digits: "dec_str n \<noteq> [] \<and> list_all is_digit (dec_str n)"
proof (induction n rule: dec_str.induct)
  case (1 n)
  then show ?case by (subst (1 2) dec_str.simps) (auto simp: is_digit_char)
qed

lemma dec_value_snoc: "dec_value (s @ [c]) = 10 * dec_value s + (of_char c - 48)"
  by (simp add: dec_value_def)

lemma dec_value_str: "dec_value (dec_str n) = n"
proof (induction n rule: dec_str.induct)
  case (1 n)
  then show ?case
    by (subst dec_str.simps) (simp add: dec_value_snoc, simp add: dec_value_def)
qed

lemma digit_no_space: "is_digit c \<Longrightarrow> \<not> is_space c \<and> c \<noteq> CHR ''-'' \<and> c \<noteq> CHR ''+''"
  by (auto simp: is_digit_def is_space_def)

lemma stoi_to_string: "0 \<le> v \<Longrightarrow> v \<le> INT_MAX \<Longrightarrow> stoi (to_string v) = Some v"
proof -
  assume v: "0 \<le> v" "v \<le> INT_MAX"
  obtain c cs where s: "dec_str (nat v) = c # cs" using dec_str_digits [of "nat v"] by (cases "dec_str (nat v)") auto
  have d: "list_all is_digit (c # cs)" using dec_str_digits [of "nat v"] s by simp
  then have c: "\<not> is_space c" "c \<noteq> CHR ''-''" "c \<noteq> CHR ''+''" using digit_no_space [of c] by auto
  have t: "takeWhile is_digit (c # cs) = c # cs" using d by (metis list_all_iff takeWhile_eq_all_conv)
  have val: "int (dec_value (c # cs)) = v" using dec_value_str [of "nat v"] v s by simp
  show ?thesis
    using v c by (simp add: stoi_def to_string_def s strip_sign_def t val Let_def INT_MIN_def del: takeWhile.simps)
qed

subsection \<open>The master at the other end\<close>

text \<open>The names under which the master puts the queues of its endpoints into shared memory.\<close>

definition pub_segment :: "endpoint \<Rightarrow> string" where
  "pub_segment e = ''pub.'' @ ep_node e @ ''.'' @ ep_topic e"

definition sub_segment :: "endpoint \<Rightarrow> string" where
  "sub_segment e = ''sub.'' @ ep_node e @ ''.'' @ ep_topic e"

definition node_segments :: "string \<times> node option \<Rightarrow> string list" where
  "node_segments x = (case snd x of None \<Rightarrow> []
     | Some nd \<Rightarrow> map (pub_segment \<circ> snd) (nd_publishes nd) @ map (sub_segment \<circ> snd) (nd_subscribes nd))"

definition segments :: "mw \<Rightarrow> string list" where
  "segments m = concat (map node_segments (m_nodes m))"

definition master_shm :: "string \<Rightarrow> 'r master \<times> 'r mout list \<Rightarrow> bool option" where
  "master_shm name s = (if name \<in> set (segments (m_mw (fst s))) then Some True else None)"

definition to_master :: "'r http_api \<Rightarrow> os_result \<Rightarrow> ('r, 'r master \<times> 'r mout list) sender" where
  "to_master A os req s =
     (case uds_handle A os req (fst s) of Inl e \<Rightarrow> Inl e
      | Inr ((st, _), ms, out) \<Rightarrow> Inr (Status st, (ms, snd s @ out)))"

lemma uds_routes:
  assumes "http_laws A"
  shows "find_controller uds_table (h_target A (node_request A name pid)) (h_method A (node_request A name pid)) = Some UdsNode_Post"
    and "find_controller uds_table (h_target A (delete_request A name)) (h_method A (delete_request A name)) = Some UdsNode_Delete"
    and "find_controller uds_table (h_target A (pub_request A name topic ty fd)) (h_method A (pub_request A name topic ty fd)) = Some UdsNodePub_Post"
    and "find_controller uds_table (h_target A (sub_request A name topic ty fd)) (h_method A (sub_request A name topic ty fd)) = Some UdsNodeSub_Post"
  using assms
  by (simp_all add: node_request_def delete_request_def pub_request_def sub_request_def http_simps
      uds_table_def)

lemma uds_node_request:
  assumes "http_laws A" and "0 \<le> pid" and "pid \<le> INT_MAX"
  shows "uds_handle A os (node_request A name pid) ms =
    (case reg_addNode name pid (m_mw ms) of None \<Rightarrow> answer bad_request skip ms
     | Some m \<Rightarrow> answer status_ok (im_addNode A name) (ms\<lparr>m_mw := m\<rparr>))"
proof -
  let ?r = "node_request A name pid"
  have g: "h_get A ?r ''pid'' = to_string pid" "h_get A ?r ''node'' = name"
    using assms(1) by (simp_all add: node_request_def http_simps)
  show ?thesis
    unfolding uds_handle_def uds_routes [OF assms(1)] uds_node_handlePost_def option.case uds_dispatch.simps g
      stoi_to_string [OF assms(2,3)] ..
qed

lemma uds_delete_request:
  assumes "http_laws A"
  shows "uds_handle A os (delete_request A name) ms =
    (case reg_deleteNode name (m_mw ms) of (found, m, out) \<Rightarrow>
       if found then answer status_ok (and_then (\<lambda>ms. Inr (ms, map ShmOut out)) (im_deleteNode A name)) (ms\<lparr>m_mw := m\<rparr>)
       else answer bad_request skip (ms\<lparr>m_mw := m\<rparr>))"
proof -
  have g: "h_get A (delete_request A name) ''node'' = name" using assms by (simp add: delete_request_def http_simps)
  show ?thesis
    unfolding uds_handle_def uds_routes [OF assms] uds_node_handleDelete_def option.case uds_dispatch.simps g Let_def ..
qed

lemma uds_pub_request:
  assumes "http_laws A" and "0 \<le> fd" and "fd \<le> INT_MAX"
  shows "uds_handle A os (pub_request A name topic ty fd) ms =
    (case reg_addPublish os name topic ty (m_mw ms) of Inl e \<Rightarrow> Inl e
     | Inr (added, m, out) \<Rightarrow>
         if added then answer status_ok (and_then (\<lambda>ms. Inr (ms, map ShmOut out)) (im_addPub A name topic ty)) (ms\<lparr>m_mw := m\<rparr>)
         else answer bad_request skip (ms\<lparr>m_mw := m\<rparr>))"
proof -
  let ?r = "pub_request A name topic ty fd"
  have g: "h_get A ?r ''pub'' = topic" "h_get A ?r ''node'' = name" "h_get A ?r ''type'' = ty"
    "h_get A ?r ''eventfd'' = to_string fd"
    using assms(1) by (simp_all add: pub_request_def http_simps)
  show ?thesis
    unfolding uds_handle_def uds_routes [OF assms(1)] uds_nodePub_handlePost_def option.case uds_dispatch.simps g
      stoi_to_string [OF assms(2,3)] Let_def ..
qed

lemma answer_frame:
  assumes "answer st f ms = Inr (x, ms', out)" and "framed f"
  shows "fst x = st \<and> m_mw ms' = m_mw ms"
  using assms framedD [OF assms(2)] by (auto simp: answer_def frame_def split: sum.splits)

lemma framed_out [frame_intros]: "framed (\<lambda>ms. Inr (ms, out))"
  by (rule framedI) (auto simp: frame_def)

lemma to_master_answer:
  assumes "to_master A os req s = Inr (r, s')"
  shows "\<exists>st b out. r = Status st \<and> uds_handle A os req (fst s) = Inr ((st, b), fst s', out)"
  using assms by (auto simp: to_master_def split: sum.splits prod.splits)

text \<open>
  A second process that starts under a name already in use removes the first one: its registration is
  refused, the exception destroys the half-built node, and the destructor deletes the node of that name
  at the master before it ends the process without an error.
\<close>

theorem taken_name_unregisters:
  fixes r :: "'c lib_node option"
  assumes "http_laws A" and "0 \<le> pid" and "pid \<le> INT_MAX"
    and "um_find (m_nodes (m_mw ms)) name = Some (Some nd)"
    and "Node_new A (to_master A os) name pid (ms, []) = Inr (r, (ms', out))"
  shows "r = None \<and> um_find (m_nodes (m_mw ms')) name = None"
proof -
  have n: "ln_name (new_lib_node name pid :: 'c lib_node) = name" "ln_pid (new_lib_node name pid :: 'c lib_node) = pid"
    by (simp_all add: new_lib_node_def)
  have "uds_handle A os (node_request A name pid) ms = Inr ((bad_request, NoBody), ms, [])"
    using assms(4) by (simp add: uds_node_request [OF assms(1-3)] reg_addNode_def answer_def skip_def)
  then have "NodeImpl_run A (to_master A os) (new_lib_node name pid :: 'c lib_node) (ms, []) =
      Inr (Some ''error on server side'', (ms, []))"
    by (simp add: NodeImpl_run_def n to_master_def)
  then have "map_sum id (\<lambda>s. (None, s)) (NodeImpl_destroy A (to_master A os) (new_lib_node name pid :: 'c lib_node) (ms, [])) =
      Inr (r, (ms', out))"
    using assms(5) by (simp add: Node_new_def Let_def)
  then have r: "r = None" and
    "NodeImpl_destroy A (to_master A os) (new_lib_node name pid :: 'c lib_node) (ms, []) = Inr (ms', out)"
    by (auto simp: map_sum_Inr)
  then obtain q where "to_master A os (delete_request A name) (ms, []) = Inr (q, (ms', out))"
    by (auto simp: NodeImpl_destroy_def n map_sum_Inr)
  then obtain x out' where u: "uds_handle A os (delete_request A name) ms = Inr (x, ms', out')"
    using to_master_answer by fastforce
  obtain m o' where g: "reg_deleteNode name (m_mw ms) = (True, m, o')" "um_find (m_nodes m) name = None"
    using assms(4) by (auto simp: reg_deleteNode_def Let_def case_prod_beta um_index_value um_find_index)
  have "m_mw ms' = m"
    using answer_frame [of status_ok "and_then (\<lambda>ms. Inr (ms, map ShmOut o')) (im_deleteNode A name)" "ms\<lparr>m_mw := m\<rparr>" x ms' out']
      u g by (simp add: uds_delete_request [OF assms(1)] frame_intros)
  then show ?thesis using r g(2) by simp
qed

text \<open>A host without links, for evaluating the model.\<close>

definition lone_master :: "mw \<Rightarrow> request master" where
  "lone_master m = chain_master\<lparr>hostlist := [], m_mw := m\<rparr>"

lemma lone_master_sends:
  "hostlist ms = [] \<Longrightarrow> im_deleteNode A n ms = Inr (ms, []) \<and> im_addPub A n t ty ms = Inr (ms, []) \<and>
   im_addNode A n ms = Inr (ms, [])"
  by (simp add: im_deleteNode_def im_addPub_def im_addNode_def with_request_def broadcast_def skip_def)

definition demo_mw :: mw where
  "demo_mw = new_mw\<lparr>m_nodes := [(''gps'', Some (new_node ''gps'' 100))]\<rparr>"

lemma demo_mw_node: "um_find (m_nodes demo_mw) ''gps'' = Some (Some (new_node ''gps'' 100))"
  by (simp add: demo_mw_def um_find_def)

theorem taken_name_unregisters_witness:
  "\<exists>ms' out. Node_new list_http (to_master list_http OsOk) ''gps'' 200 (lone_master demo_mw, []) =
      Inr (None :: unit lib_node option, (ms', out)) \<and> um_find (m_nodes (m_mw ms')) ''gps'' = None"
proof -
  let ?n = "new_lib_node ''gps'' 200 :: unit lib_node" and ?S = "to_master list_http OsOk" and ?ms = "lone_master demo_mw"
  have m: "m_mw ?ms = demo_mw" "hostlist ?ms = []" by (simp_all add: lone_master_def)
  have n: "ln_name ?n = ''gps''" "ln_pid ?n = 200" by (simp_all add: new_lib_node_def)
  obtain m o' where g: "reg_deleteNode ''gps'' demo_mw = (True, m, o')"
    using demo_mw_node by (auto simp: reg_deleteNode_def Let_def case_prod_beta um_index_value)
  have "uds_handle list_http OsOk (node_request list_http ''gps'' 200) ?ms = Inr ((bad_request, NoBody), ?ms, [])"
    using uds_node_request [OF list_http_laws, of 200 OsOk "''gps''" ?ms] demo_mw_node m
    by (simp add: reg_addNode_def answer_def skip_def INT_MAX_def)
  moreover have "uds_handle list_http OsOk (delete_request list_http ''gps'') ?ms =
      Inr ((status_ok, NoBody), ?ms\<lparr>m_mw := m\<rparr>, map ShmOut o')"
    using lone_master_sends [of "?ms\<lparr>m_mw := m\<rparr>"] m
    by (simp add: uds_delete_request [OF list_http_laws] g answer_def and_then_def)
  ultimately have "Node_new list_http ?S ''gps'' 200 (?ms, []) = Inr (None :: unit lib_node option, (?ms\<lparr>m_mw := m\<rparr>, map ShmOut o'))"
    by (simp add: Node_new_def NodeImpl_run_def NodeImpl_destroy_def n to_master_def)
  moreover from taken_name_unregisters [OF list_http_laws _ _ _ this] demo_mw_node m
  have "um_find (m_nodes m) ''gps'' = None" by (simp add: INT_MAX_def)
  ultimately show ?thesis by auto
qed

lemma segment_listed:
  assumes "um_find (m_nodes m) name = Some (Some nd)" and "um_find (nd_publishes nd) topic = Some e"
  shows "pub_segment e \<in> set (segments m)"
proof -
  have "(name, Some nd) \<in> set (m_nodes m)" "(topic, e) \<in> set (nd_publishes nd)"
    using assms by (blast dest: um_find_SomeD)+
  then have "pub_segment e \<in> set (node_segments (name, Some nd))" by (force simp: node_segments_def)
  then show ?thesis using \<open>(name, Some nd) \<in> set (m_nodes m)\<close> unfolding segments_def by auto
qed

lemma master_adds_publisher:
  assumes "mw_inv m" and "um_find (m_nodes m) name = Some (Some nd)" and "um_find (nd_publishes nd) topic = None"
  shows "\<exists>m' out nd' e. reg_addPublish OsOk name topic ty m = Inr (True, m', out) \<and>
    um_find (m_nodes m') name = Some (Some nd') \<and> um_find (nd_publishes nd') topic = Some e \<and>
    ep_type e = ty \<and> ep_node e = name \<and> ep_topic e = topic"
proof -
  have "nd_name nd = name" using mw_invD(1) [OF assms(1,2)] by (simp add: node_ok_def)
  then show ?thesis using assms(2,3)
    by (simp add: reg_addPublish_def containsPublish_def make_endpoint_def Publish_run_def addPublish_def Let_def)
qed

text \<open>
  C21: Library and master agree: on a node that is registered and does not publish the topic yet,
  createPublisher succeeds, unless the notification of the other hosts crashes the master; the master
  then has a publisher of that type under the topic, and the queue the library opened in shared memory is
  the one the master made for it.
\<close>

theorem publisher_connected:
  assumes "http_laws A" and "mw_inv (m_mw ms)" and "um_find (m_nodes (m_mw ms)) (ln_name n) = Some (Some nd)"
    and "um_find (nd_publishes nd) topic = None" and "um_find (ln_publishes n) topic = None"
    and "0 \<le> fd" and "fd \<le> INT_MAX"
    and "createPublisher A (to_master A OsOk) master_shm fd topic ty n (ms, []) = Inr (r, n', (ms', out))"
  shows "\<exists>p nd' e. r = Inr (Some p) \<and> um_find (m_nodes (m_mw ms')) (ln_name n) = Some (Some nd') \<and>
    um_find (nd_publishes nd') topic = Some e \<and> ep_type e = ty \<and> pb_queue p = Some (pub_segment e)"
proof -
  let ?ms = ms and ?req = "pub_request A (ln_name n) topic ty fd"
  let ?p = "\<lparr>pb_topic = topic, pb_type = ty, pb_fd = 0, pb_queue = None\<rparr>"
  obtain m o' nd' e where g: "reg_addPublish OsOk (ln_name n) topic ty (m_mw ms) = Inr (True, m, o')"
    and e: "um_find (m_nodes m) (ln_name n) = Some (Some nd')" "um_find (nd_publishes nd') topic = Some e"
      "ep_type e = ty" "ep_node e = ln_name n" "ep_topic e = topic"
    using master_adds_publisher [OF assms(2-4), of ty] by blast
  have u: "uds_handle A OsOk ?req ms =
      answer status_ok (and_then (\<lambda>ms. Inr (ms, map ShmOut o')) (im_addPub A (ln_name n) topic ty)) (ms\<lparr>m_mw := m\<rparr>)"
    by (simp add: uds_pub_request [OF assms(1,6,7)] g)
  have nc: "\<not> containsPublisher topic n" using assms(5) by (simp add: containsPublisher_def)
  then obtain q s1 where q: "to_master A OsOk ?req (ms, []) = Inr (q, s1)"
    using assms(6,8) by (auto simp: createPublisher_def Publisher_run_def Let_def split: sum.splits)
  from to_master_answer [OF q] obtain st b o2 where st: "q = Status st" "uds_handle A OsOk ?req ms = Inr ((st, b), fst s1, o2)"
    by auto
  have fr: "framed (and_then (\<lambda>ms. Inr (ms, map ShmOut o')) (im_addPub A (ln_name n) topic ty))" by (intro frame_intros)
  have s1: "st = status_ok" "m_mw (fst s1) = m"
    using answer_frame [OF _ fr, of status_ok "ms\<lparr>m_mw := m\<rparr>" "(st, b)" "fst s1" o2] st(2) u by simp_all
  have seg: "pub_segment e = ''pub.'' @ ln_name n @ ''.'' @ topic" using e by (simp add: pub_segment_def)
  have "segment_found master_shm (pub_segment e) s1"
    using segment_listed [OF e(1,2)] s1(2) by (simp add: segment_found_def master_shm_def)
  then have "Publisher_run A (to_master A OsOk) master_shm (ln_name n) fd ?p (ms, []) =
      Inr ((True, ?p\<lparr>pb_fd := fd, pb_queue := Some (pub_segment e)\<rparr>), s1)"
    using q st(1) s1(1) assms(6) by (simp add: Publisher_run_def seg)
  then have "r = Inr (Some (?p\<lparr>pb_fd := fd, pb_queue := Some (pub_segment e)\<rparr>))" "ms' = fst s1"
    using assms(8) nc by (auto simp: createPublisher_def)
  then show ?thesis using e s1(2) by auto
qed

theorem publisher_connected_witness:
  "\<exists>p n' s. createPublisher list_http (to_master list_http OsOk) master_shm 7 ''gps'' ''NavSatFix''
      (new_lib_node ''gps'' 100 :: unit lib_node) (lone_master demo_mw, []) = Inr (Inr (Some p), n', s) \<and>
    pb_queue p = Some ''pub.gps.gps''"
proof -
  let ?n = "new_lib_node ''gps'' 100 :: unit lib_node" and ?ms = "lone_master demo_mw"
  have m: "m_mw ?ms = demo_mw" "hostlist ?ms = []" by (simp_all add: lone_master_def)
  have n: "ln_name ?n = ''gps''" "um_find (ln_publishes ?n) ''gps'' = None" "\<not> containsPublisher ''gps'' ?n"
    by (simp_all add: new_lib_node_def um_find_def containsPublisher_def)
  have d: "reg_addNode ''gps'' 100 new_mw = Some demo_mw"
    by (simp add: reg_addNode_def new_mw_def demo_mw_def um_find_def um_put_def)
  have i: "mw_inv demo_mw" by (rule addNode_inv [OF mw_inv_new d])
  have nd: "um_find (nd_publishes (new_node ''gps'' 100)) ''gps'' = None" by (simp add: new_node_def um_find_def)
  obtain m o' nd' e where g: "reg_addPublish OsOk ''gps'' ''gps'' ''NavSatFix'' demo_mw = Inr (True, m, o')"
    and e: "um_find (m_nodes m) ''gps'' = Some (Some nd')" "um_find (nd_publishes nd') ''gps'' = Some e"
      "ep_node e = ''gps''" "ep_topic e = ''gps''"
    using master_adds_publisher [OF i demo_mw_node nd, of "''NavSatFix''"] by blast
  have q: "to_master list_http OsOk (pub_request list_http ''gps'' ''gps'' ''NavSatFix'' 7) (?ms, []) =
      Inr (Status status_ok, (?ms\<lparr>m_mw := m\<rparr>, map ShmOut o'))"
    using lone_master_sends [of "?ms\<lparr>m_mw := m\<rparr>"] m
    by (simp add: to_master_def uds_pub_request [OF list_http_laws] g answer_def and_then_def INT_MAX_def)
  have seg: "pub_segment e = ''pub.gps.gps''" using e by (simp add: pub_segment_def)
  obtain p n' s where c: "createPublisher list_http (to_master list_http OsOk) master_shm 7 ''gps'' ''NavSatFix'' ?n (?ms, []) =
      Inr (Inr (Some p), n', s)"
    using q n segment_listed [OF e(1,2)] seg
    by (auto simp: createPublisher_def Publisher_run_def segment_found_def master_shm_def)
  obtain ms' out where s: "s = (ms', out)" by (cases s)
  from publisher_connected [OF list_http_laws, of ?ms ?n "new_node ''gps'' 100" "''gps''" 7 "''NavSatFix''"] c [unfolded s]
    i m n demo_mw_node nd
  obtain nd1 e1 where "pb_queue p = Some (pub_segment e1)" "um_find (m_nodes (m_mw ms')) ''gps'' = Some (Some nd1)"
    "um_find (nd_publishes nd1) ''gps'' = Some e1" by (force simp: INT_MAX_def)
  have "pb_queue p = Some ''pub.gps.gps''"
    using c q n segment_listed [OF e(1,2)] seg
    by (auto simp: createPublisher_def Publisher_run_def segment_found_def master_shm_def)
  then show ?thesis using c by blast
qed

subsection \<open>The tables of the library\<close>

text \<open>
  The type of the two tables: every entry is an object, stored under its own topic and connected to the
  queue of that topic; subscribers have a callback.
\<close>

definition lib_ok :: "'c lib_node \<Rightarrow> bool" where
  "lib_ok n \<longleftrightarrow>
     (\<forall>t x. um_find (ln_publishes n) t = Some x \<longrightarrow>
        (\<exists>p. x = Some p \<and> pb_topic p = t \<and> pb_queue p = Some (''pub.'' @ ln_name n @ ''.'' @ t))) \<and>
     (\<forall>t x. um_find (ln_subscribes n) t = Some x \<longrightarrow>
        (\<exists>p. x = Some p \<and> sb_topic p = t \<and> sb_queue p = Some (''sub.'' @ ln_name n @ ''.'' @ t) \<and> sb_callback p \<noteq> None))"

datatype 'c lib_op = MakePublisher int string string | MakeSubscriber int string string 'c

text \<open>Calls of a program, which goes on after an exception that it caught.\<close>

fun lib_run :: "'r http_api \<Rightarrow> ('r, 's) sender \<Rightarrow> (string \<Rightarrow> 's \<Rightarrow> bool option) \<Rightarrow> 'c lib_op list \<Rightarrow>
    'c lib_node \<Rightarrow> 's \<Rightarrow> error + 'c lib_node \<times> 's" where
  "lib_run A send shm [] n s = Inr (n, s)"
| "lib_run A send shm (MakePublisher fd t ty # ops) n s =
     (case createPublisher A send shm fd t ty n s of Inl e \<Rightarrow> Inl e | Inr (_, n, s) \<Rightarrow> lib_run A send shm ops n s)"
| "lib_run A send shm (MakeSubscriber fd t ty cb # ops) n s =
     (case createSubscriber A send shm fd t ty cb n s of Inl e \<Rightarrow> Inl e | Inr (_, n, s) \<Rightarrow> lib_run A send shm ops n s)"

lemma Publisher_run_ok:
  "Publisher_run A send shm node fd p s = Inr ((True, p'), s') \<Longrightarrow>
   pb_topic p' = pb_topic p \<and> pb_queue p' = Some (''pub.'' @ node @ ''.'' @ pb_topic p)"
  by (auto simp: Publisher_run_def Let_def split: if_splits sum.splits)

lemma Subscriber_run_ok:
  "Subscriber_run A send shm node fd cb p s = Inr ((True, p'), s') \<Longrightarrow>
   sb_topic p' = sb_topic p \<and> sb_queue p' = Some (''sub.'' @ node @ ''.'' @ sb_topic p) \<and> sb_callback p' = Some cb"
  by (auto simp: Subscriber_run_def Let_def split: if_splits sum.splits)

lemma createPublisher_ok:
  assumes "createPublisher A send shm fd t ty n s = Inr (r, n', s')" and "lib_ok n"
  shows "lib_ok n' \<and> ln_name n' = ln_name n"
proof (cases "um_find (ln_publishes n) t")
  case (Some x)
  then show ?thesis using assms
    by (auto simp: createPublisher_def containsPublisher_def getPublisher_def um_index_known)
next
  case None
  then show ?thesis using assms
    by (auto simp: createPublisher_def containsPublisher_def addPublisher_def lib_ok_def
        split: sum.splits if_splits dest!: Publisher_run_ok)
qed

lemma createSubscriber_ok:
  assumes "createSubscriber A send shm fd t ty cb n s = Inr (r, n', s')" and "lib_ok n"
  shows "lib_ok n' \<and> ln_name n' = ln_name n"
proof (cases "um_find (ln_subscribes n) t")
  case (Some x)
  then show ?thesis using assms
    by (auto simp: createSubscriber_def containsSubscriber_def getSubscriber_def um_index_known)
next
  case None
  then show ?thesis using assms
    by (auto simp: createSubscriber_def containsSubscriber_def addSubscriber_def lib_ok_def
        split: sum.splits if_splits dest!: Subscriber_run_ok)
qed

text \<open>
  Whatever a program creates, and whatever the master and the shared memory answer, the tables of its
  node are well typed: no null entries, every object under its own topic with the queue of that topic, and
  every subscriber with a callback, so that operator[] and the callback are never used on nothing.
\<close>

theorem library_tables_typed:
  assumes "lib_run A send shm ops n s = Inr (n', s')" and "n = new_lib_node name pid"
  shows "lib_ok n' \<and> ln_name n' = name"
proof -
  have "lib_run A send shm ops n s = Inr (n', s') \<Longrightarrow> lib_ok n \<Longrightarrow> lib_ok n' \<and> ln_name n' = ln_name n" for n s
  proof (induction ops arbitrary: n s)
    case (Cons op ops)
    show ?case
    proof (cases op)
      case (MakePublisher fd t ty)
      then show ?thesis using Cons by (auto split: sum.splits dest!: createPublisher_ok)
    next
      case (MakeSubscriber fd t ty cb)
      then show ?thesis using Cons by (auto split: sum.splits dest!: createSubscriber_ok)
    qed
  qed simp
  moreover have "lib_ok n" "ln_name n = name" by (simp_all add: assms(2) lib_ok_def new_lib_node_def um_find_def)
  ultimately show ?thesis using assms(1) by blast
qed

definition yes_sender :: "(request, unit) sender" where
  "yes_sender = (\<lambda>req s. Inr (Status status_ok, s))"

theorem library_tables_typed_witness:
  "\<exists>n'. lib_run list_http yes_sender (\<lambda>_ _. Some True) [MakePublisher 3 ''a'' ''T'', MakeSubscriber 4 ''a'' ''T'' True]
      (new_lib_node ''n'' 9) () = Inr (n', ()) \<and> lib_ok n' \<and> containsPublisher ''a'' n' \<and> containsSubscriber ''a'' n'"
proof -
  obtain n' where n: "lib_run list_http yes_sender (\<lambda>_ _. Some True) [MakePublisher 3 ''a'' ''T'', MakeSubscriber 4 ''a'' ''T'' True]
      (new_lib_node ''n'' 9) () = Inr (n', ())" and c: "containsPublisher ''a'' n'" "containsSubscriber ''a'' n'"
    by (simp add: createPublisher_def createSubscriber_def containsPublisher_def containsSubscriber_def
        Publisher_run_def Subscriber_run_def yes_sender_def segment_found_def addPublisher_def addSubscriber_def
        new_lib_node_def um_find_def um_put_def)
  from library_tables_typed [OF n refl] c n show ?thesis by blast
qed

text \<open>
  A second subscriber for a topic is the first one: its callback is dropped without a word, and nothing is
  asked of the master.
\<close>

theorem second_callback_dropped:
  assumes "um_find (ln_subscribes n) topic = Some (Some p)"
  shows "createSubscriber A send shm fd topic ty callback n s = Inr (Inr (Some p), n, s)"
  using assms by (simp add: createSubscriber_def containsSubscriber_def getSubscriber_def um_index_known)

text \<open>
  Names with dots collide: a publisher of another node and topic can have the same segment, which
  \<open>Publish::run\<close> removes before it makes its own.
\<close>

theorem segments_collide:
  "\<exists>e e'. ep_node e \<noteq> ep_node e' \<and> ep_topic e \<noteq> ep_topic e' \<and> pub_segment e = pub_segment e'"
  by (rule exI [of _ "\<lparr>ep_id = 0, ep_topic = ''b.c'', ep_type = [], ep_node = ''a''\<rparr>"],
      rule exI [of _ "\<lparr>ep_id = 1, ep_topic = ''c'', ep_type = [], ep_node = ''a.b''\<rparr>"]) (simp add: pub_segment_def)

end
