(* ===== verification/DgpsNode.thy ===== *)
theory DgpsNode
  imports Complex_Main NtripHttp
begin

text \<open>
  \<open>DGpsHmw\<close> of \<open>src/Dgps/src/dgps_hmw_node.cpp\<close>: every 20 ms one line of the receiver is taken from
  \<open>g_nmea\<close>, matched against four regular expressions, converted and published. Arithmetic on \<open>double\<close> and
  \<open>std::stod\<close> are an argument of the model; a message keeps the numbers as they come out of it.
\<close>

subsection \<open>Configuration\<close>

text \<open>The values of \<open>dgps.yaml\<close> and the arguments that the constructor gives to \<open>ntrip_client\<close>.\<close>

record dgps_config =
  dc_serverName :: string
  dc_serverPort :: string
  dc_userName :: string
  dc_password :: string
  dc_serialPort :: string
  dc_topic :: string

definition node_args :: "dgps_config \<Rightarrow> args" where
  "node_args cfg = \<lparr>a_server = dc_serverName cfg, a_port = dc_serverPort cfg, a_user = dc_userName cfg,
     a_proxyhost = None, a_proxyport = ''2101'', a_password = dc_password cfg,
     a_nmea = Some ''$GPGGA,074745.00,2810.7222,N,11256.4403,E,1,11,63.4,54.76,M,-16.80,M,,*46'',
     a_data = Some ''RTCM33_GRCE'', a_bitrate = 0, a_mode = NTRIP1, a_udpport = 0, a_initudp = 0,
     a_baud = SPABAUD_115200, a_databits = SPADATABITS_8, a_stopbits = SPASTOPBITS_1, a_parity = SPAPARITY_NONE,
     a_protocol = SPAPROTOCOL_NONE, a_serdevice = (if dc_serialPort cfg = [] then None else Some (dc_serialPort cfg)),
     a_serlogfile = None\<rparr>"

subsection \<open>Regular expressions\<close>

text \<open>The expressions consist of characters, \<open>.*?\<close> and \<open>(.*?)\<close>; a dot is no end of line.\<close>

datatype tok = Ch char | Skip | Group

definition rx_dot :: "char \<Rightarrow> bool" where
  "rx_dot c \<longleftrightarrow> c \<noteq> CHR 0x0A \<and> c \<noteq> CHR 0x0D"

text \<open>A lazy repetition first tries to match nothing and then takes one character at a time.\<close>

fun rx_match :: "tok list \<Rightarrow> string \<Rightarrow> string list option" where
  "rx_match [] s = Some []"
| "rx_match (Ch c # ts) s = (case s of [] \<Rightarrow> None | d # r \<Rightarrow> if d = c then rx_match ts r else None)"
| "rx_match (Skip # ts) s =
     (case rx_match ts s of Some gs \<Rightarrow> Some gs
      | None \<Rightarrow> (case s of [] \<Rightarrow> None | d # r \<Rightarrow> if rx_dot d then rx_match (Skip # ts) r else None))"
| "rx_match (Group # ts) s =
     (case rx_match ts s of Some gs \<Rightarrow> Some ([] # gs)
      | None \<Rightarrow> (case s of [] \<Rightarrow> None
          | d # r \<Rightarrow> if rx_dot d then map_option (\<lambda>gs. (d # hd gs) # tl gs) (rx_match (Group # ts) r) else None))"

text \<open>\<open>regex_search\<close>: the first position where the expression matches; the result is \<open>m[1], m[2], ...\<close>.\<close>

fun rx_search :: "tok list \<Rightarrow> string \<Rightarrow> string list option" where
  "rx_search ts s =
     (case rx_match ts s of Some gs \<Rightarrow> Some gs
      | None \<Rightarrow> (case s of [] \<Rightarrow> None | d # r \<Rightarrow> rx_search ts r))"

declare rx_search.simps [simp del]

definition rx_fields :: "nat \<Rightarrow> tok list" where
  "rx_fields n = concat (replicate n [Group, Ch CHR '',''])"

definition e1 :: "tok list" where
  "e1 = Ch CHR ''$'' # Skip # map Ch ''GGA,'' @ rx_fields 9"

definition e2 :: "tok list" where
  "e2 = map Ch ''$GPFPD,'' @ rx_fields 14 @ [Group, Ch CHR ''*'']"

definition e3 :: "tok list" where
  "e3 = map Ch ''$GTIMU,'' @ rx_fields 8 @ [Group, Ch CHR ''*'']"

definition e4 :: "tok list" where
  "e4 = map Ch ''$GPVTG,'' @ rx_fields 8 @ [Group, Ch CHR ''*'']"

definition grp :: "string list \<Rightarrow> nat \<Rightarrow> string" where
  "grp gs i = gs ! (i - 1)"

subsection \<open>Numbers\<close>

text \<open>
  The \<open>double\<close> operations the node uses; \<open>d_stod\<close> is \<open>std::stod\<close>, \<open>None\<close> its exceptions. \<open>d_lit\<close> is the
  value of a literal, and \<open>d_u32\<close> the conversion to \<open>uint32\<close>, undefined when the value does not fit.
\<close>

record 'd arith =
  d_stod :: "string \<Rightarrow> 'd option"
  d_lit :: "rat \<Rightarrow> 'd"
  d_add :: "'d \<Rightarrow> 'd \<Rightarrow> 'd"
  d_sub :: "'d \<Rightarrow> 'd \<Rightarrow> 'd"
  d_mul :: "'d \<Rightarrow> 'd \<Rightarrow> 'd"
  d_div :: "'d \<Rightarrow> 'd \<Rightarrow> 'd"
  d_neg :: "'d \<Rightarrow> 'd"
  d_floor :: "'d \<Rightarrow> 'd"
  d_square :: "'d \<Rightarrow> 'd"
  d_u32 :: "'d \<Rightarrow> u32 option"

definition NMEA2float :: "'d arith \<Rightarrow> string \<Rightarrow> 'd option" where
  "NMEA2float F s =
     map_option (\<lambda>v. let d = d_div F v (d_lit F 100) in
       d_add F (d_floor F d) (d_div F (d_mul F (d_sub F d (d_floor F d)) (d_lit F 10)) (d_lit F 6))) (d_stod F s)"

text \<open>\<open>strtol(s, NULL, 16)\<close>, and the conversion to \<open>uint32\<close>.\<close>

definition strtol16 :: "string \<Rightarrow> int" where
  "strtol16 s =
     (let (neg, s1) = strip_sign (dropWhile is_space s);
          v = int (hex_value (takeWhile is_hex (strip_0x s1)))
      in max (- (2 ^ 63)) (min (2 ^ 63 - 1) (if neg then - v else v)))"

definition to_int8 :: "int \<Rightarrow> int" where
  "to_int8 v = (v + 128) mod 256 - 128"

subsection \<open>Messages\<close>

record 'd nav_fix =
  fx_frame :: string
  fx_stamp :: int
  fx_status :: int
  fx_service :: int
  fx_cov_type :: int
  fx_latitude :: 'd
  fx_longitude :: 'd
  fx_altitude :: 'd
  fx_covariance :: "'d list"

text \<open>
  A message \<open>Gpfpd\<close>, \<open>Gtimu\<close> or \<open>Gnvtg\<close>: the sentence, its \<open>double\<close> fields in the order in which the
  code sets them, the \<open>uint32\<close> fields and the status of \<open>Gnvtg\<close>.
\<close>

record 'd sentence =
  sn_frame :: string
  sn_stamp :: int
  sn_text :: string
  sn_values :: "'d list"
  sn_counts :: "u32 list"
  sn_status :: string

datatype 'd gps_msg = NoMsg | Fix "'d nav_fix" | Gpfpd "'d sentence" | Gtimu "'d sentence" | Gnvtg "'d sentence"

definition SERVICE_GPS :: int where "SERVICE_GPS = 0"
definition COVARIANCE_TYPE_UNKNOWN :: int where "COVARIANCE_TYPE_UNKNOWN = 0"
definition COVARIANCE_TYPE_APPROXIMATED :: int where "COVARIANCE_TYPE_APPROXIMATED = 1"

text \<open>Status, error estimate and kind of covariance by the quality field; \<open>None\<close> is the exception of \<open>stoi\<close>.\<close>

definition quality :: "'d arith \<Rightarrow> string \<Rightarrow> (int \<times> 'd \<times> int) option" where
  "quality F q =
     (if q = ''-1'' \<or> q = ''0'' then Some (-1, d_lit F 1000000, COVARIANCE_TYPE_UNKNOWN)
      else if q = ''1'' then Some (1, d_lit F 4, COVARIANCE_TYPE_APPROXIMATED)
      else if q = ''2'' then Some (2, d_lit F (1 / 10), COVARIANCE_TYPE_APPROXIMATED)
      else if q = ''4'' then Some (4, d_lit F (2 / 100), COVARIANCE_TYPE_APPROXIMATED)
      else if q = ''5'' then Some (5, d_lit F 4, COVARIANCE_TYPE_APPROXIMATED)
      else if q = ''9'' then Some (9, d_lit F 3, COVARIANCE_TYPE_APPROXIMATED)
      else map_option (\<lambda>v. (to_int8 v, d_lit F 1000000, COVARIANCE_TYPE_UNKNOWN)) (stoi q))"

definition covariance :: "'d arith \<Rightarrow> 'd list" where
  "covariance F = map (d_lit F) [1, 0, 0, 0, 1, 0, 0, 0, 1]"

definition hdop_covariance :: "'d arith \<Rightarrow> 'd \<Rightarrow> 'd \<Rightarrow> 'd list" where
  "hdop_covariance F hdop epe =
     (let h = d_square F (d_mul F hdop epe);
          v = d_square F (d_mul F (d_mul F (d_mul F (d_lit F 2) hdop) epe) (d_lit F 2))
      in (covariance F)[0 := h, 4 := h, 8 := v])"

definition empty_fix :: "'d arith \<Rightarrow> int \<Rightarrow> 'd nav_fix" where
  "empty_fix F now = \<lparr>fx_frame = ''gps'', fx_stamp = now, fx_status = 0, fx_service = 0, fx_cov_type = 0,
     fx_latitude = d_lit F 0, fx_longitude = d_lit F 0, fx_altitude = d_lit F 0, fx_covariance = []\<rparr>"

text \<open>A field that is empty leaves the default; \<open>None\<close> is an exception.\<close>

definition num :: "'d arith \<Rightarrow> string \<Rightarrow> 'd option" where
  "num F s = (if s = [] then Some (d_lit F 0) else d_stod F s)"

definition signed :: "'d arith \<Rightarrow> bool \<Rightarrow> 'd \<Rightarrow> 'd" where
  "signed F neg v = (if neg then d_neg F v else v)"

definition nmeaToFix :: "'d arith \<Rightarrow> int \<Rightarrow> string list \<Rightarrow> 'd nav_fix option" where
  "nmeaToFix F now m =
     (if grp m 2 = [] then Some (empty_fix F now)
      else
        Option.bind (quality F (grp m 6)) (\<lambda>(status, epe, cov_type).
        Option.bind (NMEA2float F (grp m 2)) (\<lambda>lat.
        Option.bind (if grp m 4 = [] then Some (d_lit F 0) else NMEA2float F (grp m 4)) (\<lambda>lon.
        Option.bind (num F (grp m 9)) (\<lambda>alt.
        Option.bind (if grp m 8 = [] then Some (covariance F)
            else map_option (\<lambda>hdop. hdop_covariance F hdop epe) (d_stod F (grp m 8))) (\<lambda>cov.
        Some ((empty_fix F now)\<lparr>fx_status := status, fx_service := SERVICE_GPS, fx_cov_type := cov_type,
          fx_latitude := signed F (grp m 3 = ''S'') lat, fx_longitude := signed F (grp m 5 = ''W'') lon,
          fx_altitude := alt, fx_covariance := cov\<rparr>)))))))"

fun nums :: "'d arith \<Rightarrow> string list \<Rightarrow> 'd list option" where
  "nums F [] = Some []"
| "nums F (s # ss) = Option.bind (num F s) (\<lambda>v. map_option ((#) v) (nums F ss))"

text \<open>A count is read as a \<open>double\<close>; \<open>Inr None\<close> is an exception, \<open>Inl\<close> a conversion that is undefined.\<close>

definition count_field :: "'d arith \<Rightarrow> string \<Rightarrow> error + u32 option" where
  "count_field F s =
     (if s = [] then Inr (Some 0)
      else (case d_stod F s of None \<Rightarrow> Inr None
        | Some v \<Rightarrow> (case d_u32 F v of None \<Rightarrow> Inl SignedOverflow | Some n \<Rightarrow> Inr (Some n))))"

definition new_sentence :: "string \<Rightarrow> int \<Rightarrow> string \<Rightarrow> 'd list \<Rightarrow> 'd sentence" where
  "new_sentence frame now line vs = \<lparr>sn_frame = frame, sn_stamp = now, sn_text = line, sn_values = vs,
     sn_counts = [], sn_status = []\<rparr>"

definition to_gpfpd :: "'d arith \<Rightarrow> int \<Rightarrow> string \<Rightarrow> string list \<Rightarrow> error + 'd gps_msg" where
  "to_gpfpd F now line m =
     (case nums F (map (grp m) [3..<13]) of None \<Rightarrow> Inr NoMsg
      | Some vs \<Rightarrow>
        (case count_field F (grp m 13) of Inl e \<Rightarrow> Inl e | Inr None \<Rightarrow> Inr NoMsg
         | Inr (Some nsv1) \<Rightarrow>
           (case count_field F (grp m 14) of Inl e \<Rightarrow> Inl e | Inr None \<Rightarrow> Inr NoMsg
            | Inr (Some nsv2) \<Rightarrow>
              Inr (Gpfpd ((new_sentence ''gpfpd'' now line vs)\<lparr>sn_counts :=
                [nsv1, nsv2, if grp m 15 = [] then 0 else of_int (strtol16 (grp m 15))]\<rparr>)))))"

definition to_gtimu :: "'d arith \<Rightarrow> int \<Rightarrow> string \<Rightarrow> string list \<Rightarrow> 'd gps_msg" where
  "to_gtimu F now line m =
     (case nums F (map (grp m) [3..<10]) of None \<Rightarrow> NoMsg | Some vs \<Rightarrow> Gtimu (new_sentence ''gtimu'' now line vs))"

definition to_gnvtg :: "'d arith \<Rightarrow> int \<Rightarrow> string \<Rightarrow> string list \<Rightarrow> 'd gps_msg" where
  "to_gnvtg F now line m =
     (case nums F (map (grp m) [1, 3, 5, 7]) of None \<Rightarrow> NoMsg
      | Some vs \<Rightarrow> Gnvtg ((new_sentence ''gnvtg'' now line vs)\<lparr>sn_status := grp m 8\<rparr>))"

text \<open>\<open>getGpsMsg\<close> for the line \<open>candidate\<close>; an exception is caught and nothing is returned.\<close>

definition getGpsMsg :: "'d arith \<Rightarrow> int \<Rightarrow> string \<Rightarrow> error + 'd gps_msg" where
  "getGpsMsg F now candidate =
     (if candidate = [] then Inr NoMsg
      else (case rx_search e1 candidate of
          Some m \<Rightarrow> Inr (case nmeaToFix F now m of None \<Rightarrow> NoMsg | Some x \<Rightarrow> Fix x)
        | None \<Rightarrow> (case rx_search e2 candidate of Some m \<Rightarrow> to_gpfpd F now candidate m
            | None \<Rightarrow> (case rx_search e3 candidate of Some m \<Rightarrow> Inr (to_gtimu F now candidate m)
                | None \<Rightarrow> (case rx_search e4 candidate of Some m \<Rightarrow> Inr (to_gnvtg F now candidate m)
                    | None \<Rightarrow> Inr NoMsg)))))"

text \<open>What is published, with its topic, and what is left of \<open>g_nmea\<close>.\<close>

definition timer_callback :: "'d arith \<Rightarrow> int \<Rightarrow> string \<Rightarrow> string \<Rightarrow> error + (string \<times> 'd gps_msg) list \<times> string" where
  "timer_callback F now topic nmea =
     (case getNmea nmea of (candidate, rest) \<Rightarrow>
        map_sum id (\<lambda>msg. (case msg of NoMsg \<Rightarrow> [] | Fix x \<Rightarrow> [(topic, msg)] | Gpfpd x \<Rightarrow> [(''_dgps_gpfpd'', msg)]
            | Gtimu x \<Rightarrow> [(''_dgps_gtimu'', msg)] | Gnvtg x \<Rightarrow> [(''_dgps_gnvtg'', msg)], rest))
          (getGpsMsg F now candidate))"

subsection \<open>Matching\<close>

lemma rx_chars: "rx_match (map Ch w @ ts) s = (if take (length w) s = w then rx_match ts (drop (length w) s) else None)"
proof (induction w arbitrary: s)
  case (Cons c w)
  show ?case
  proof (cases s)
    case (Cons d r)
    then show ?thesis using Cons.IH [of r] by (simp add: Cons)
  qed simp
qed simp

lemma rx_group:
  assumes "c \<notin> set f" and "\<forall>d \<in> set f. rx_dot d" and "rx_match ts rest = Some gs"
  shows "rx_match (Group # Ch c # ts) (f @ c # rest) = Some (f # gs)"
  using assms by (induction f) auto

text \<open>A field holds no comma and no end of line.\<close>

definition clean :: "string \<Rightarrow> bool" where
  "clean f \<longleftrightarrow> CHR '','' \<notin> set f \<and> (\<forall>d \<in> set f. rx_dot d)"

definition join_fields :: "string list \<Rightarrow> string" where
  "join_fields fs = concat (map (\<lambda>f. f @ [CHR '','']) fs)"

lemma rx_fields_Suc: "rx_fields (Suc n) = Group # Ch CHR '','' # rx_fields n"
  by (simp add: rx_fields_def)

lemma rx_fields_match:
  assumes "\<forall>f \<in> set fs. clean f" and "rx_match ts rest = Some gs"
  shows "rx_match (rx_fields (length fs) @ ts) (join_fields fs @ rest) = Some (fs @ gs)"
  using assms(1)
proof (induction fs)
  case Nil
  then show ?case using assms(2) by (simp add: rx_fields_def join_fields_def)
next
  case (Cons f fs)
  then have "rx_match (rx_fields (length fs) @ ts) (join_fields fs @ rest) = Some (fs @ gs)" by simp
  with rx_group [of "CHR '',''" f "rx_fields (length fs) @ ts"] Cons.prems show ?case
    by (simp add: rx_fields_Suc join_fields_def clean_def)
qed

text \<open>Before the comma of \<open>GGA,\<close> there is no other place to match it.\<close>

lemma no_early_gga:
  assumes "CHR '','' \<notin> set t" and "t \<noteq> []"
  shows "take (length ''GGA,'') (t @ ''GGA,'' @ x) \<noteq> ''GGA,''"
proof
  assume e: "take (length ''GGA,'') (t @ ''GGA,'' @ x) = ''GGA,''"
  have "(t @ ''GGA,'' @ x) ! 3 = take (length ''GGA,'') (t @ ''GGA,'' @ x) ! 3" by (simp del: take_append)
  then have c: "(t @ ''GGA,'' @ x) ! 3 = CHR '',''" unfolding e by simp
  have "0 < length t" using assms(2) by simp
  then have "3 < length t \<or> length t = 1 \<or> length t = 2 \<or> length t = 3" by linarith
  then consider "3 < length t" | "length t = 1" | "length t = 2" | "length t = 3" by blast
  then show False
  proof cases
    case 1
    then show ?thesis using c assms(1) nth_mem [of 3 t] by (auto simp: nth_append)
  qed (use c in \<open>auto simp: nth_append\<close>)
qed

lemma rx_skip_gga:
  assumes "CHR '','' \<notin> set t" and "\<forall>d \<in> set t. rx_dot d" and "rx_match ts x = Some gs"
  shows "rx_match (Skip # map Ch ''GGA,'' @ ts) (t @ ''GGA,'' @ x) = Some gs"
  using assms(1,2)
proof (induction t)
  case Nil
  then show ?case using assms(3) rx_chars [of "''GGA,''" ts "''GGA,'' @ x"] by simp
next
  case (Cons d t)
  have "rx_match (map Ch ''GGA,'' @ ts) ((d # t) @ ''GGA,'' @ x) = None"
    unfolding rx_chars using no_early_gga [of "d # t" x] Cons.prems(1) by (metis list.discI)
  then show ?case using Cons by simp
qed

text \<open>A GGA sentence as the receiver writes it: talker, nine fields that end with a comma, the rest.\<close>

definition gga_sentence :: "string \<Rightarrow> string list \<Rightarrow> string \<Rightarrow> string" where
  "gga_sentence talker fs tail = CHR ''$'' # talker @ ''GGA,'' @ join_fields fs @ tail"

lemma gga_search:
  assumes "clean talker" and "\<forall>f \<in> set fs. clean f" and "length fs = 9"
  shows "rx_search e1 (gga_sentence talker fs tail) = Some fs"
proof -
  have "rx_match (rx_fields 9) (join_fields fs @ tail) = Some fs"
    using rx_fields_match [OF assms(2), of "[]" tail "[]"] assms(3) by simp
  from rx_skip_gga [OF _ _ this] assms(1)
  have "rx_match (Skip # map Ch ''GGA,'' @ rx_fields 9) (talker @ ''GGA,'' @ join_fields fs @ tail) = Some fs"
    unfolding clean_def by blast
  then have "rx_match e1 (gga_sentence talker fs tail) = Some fs"
    unfolding gga_sentence_def e1_def rx_match.simps(2) list.case by simp
  then show ?thesis by (subst rx_search.simps) simp
qed

lemma getNmea_line: "CHR 0x0A \<notin> set line \<Longrightarrow> getNmea (line @ CHR 0x0A # rest) = (line, rest)"
  using getline_newline [of line rest] by (simp add: getNmea_def has_line_def)

lemma clean_no_newline: "clean f \<Longrightarrow> CHR 0x0A \<notin> set f"
  by (auto simp: clean_def rx_dot_def)

lemma gga_sentence_no_newline:
  "clean talker \<Longrightarrow> \<forall>f \<in> set fs. clean f \<Longrightarrow> CHR 0x0A \<notin> set tail \<Longrightarrow> CHR 0x0A \<notin> set (gga_sentence talker fs tail)"
  using clean_no_newline by (auto simp: gga_sentence_def join_fields_def)

text \<open>
  C25: The timer takes the next line off the buffer, and for a GGA sentence of any talker the lazy groups of
  the regular expression are exactly the fields between the commas: what is published, on the configured
  topic, is the position made of them, or nothing when one of them is no number.
\<close>

theorem gga_published:
  assumes "clean talker" and "\<forall>f \<in> set fs. clean f" and "length fs = 9" and "CHR 0x0A \<notin> set tail"
  shows "timer_callback F now topic (gga_sentence talker fs tail @ CHR 0x0A # rest) =
    Inr (case nmeaToFix F now fs of None \<Rightarrow> [] | Some x \<Rightarrow> [(topic, Fix x)], rest)"
proof -
  have "gga_sentence talker fs tail \<noteq> []" by (simp add: gga_sentence_def)
  then show ?thesis
    using getNmea_line [OF gga_sentence_no_newline [OF assms(1,2,4)], of rest] gga_search [OF assms(1-3), of tail]
    by (simp add: timer_callback_def getGpsMsg_def split: option.split)
qed

subsection \<open>Positions\<close>

text \<open>Exact arithmetic, with the numbers of the sentence given as rationals.\<close>

definition exact :: "(string \<Rightarrow> rat option) \<Rightarrow> rat arith" where
  "exact stod = \<lparr>d_stod = stod, d_lit = \<lambda>x. x, d_add = (+), d_sub = (-), d_mul = (*), d_div = (/), d_neg = uminus,
     d_floor = \<lambda>x. of_int \<lfloor>x\<rfloor>, d_square = \<lambda>x. x * x,
     d_u32 = \<lambda>x. if -1 < x \<and> x < 4294967296 then Some (of_int (if x < 0 then 0 else \<lfloor>x\<rfloor>)) else None\<rparr>"

lemma NMEA2float_exact:
  assumes "stod s = Some (100 * of_int deg + minutes)" and "0 \<le> minutes" and "minutes < 100"
  shows "NMEA2float (exact stod) s = Some (of_int deg + minutes / 60)"
proof -
  have "\<lfloor>(100 * of_int deg + minutes) / 100\<rfloor> = deg"
    using assms(2,3) by (simp add: floor_eq_iff field_simps)
  then show ?thesis using assms(1) by (simp add: NMEA2float_def exact_def Let_def field_simps)
qed

text \<open>
  Up to rounding the published coordinates are degrees: a latitude field of \<open>ddmm.mmm\<close> becomes degrees
  plus minutes over sixty, negative in the south, and the longitude likewise, negative in the west.
\<close>

theorem position_in_degrees:
  assumes "stod (grp m 2) = Some (100 * of_int lat + lat_min)" and "0 \<le> lat_min" and "lat_min < 60"
    and "stod (grp m 4) = Some (100 * of_int lon + lon_min)" and "0 \<le> lon_min" and "lon_min < 60"
    and "grp m 2 \<noteq> []" and "grp m 4 \<noteq> []" and "nmeaToFix (exact stod) now m = Some x"
  shows "fx_latitude x = (if grp m 3 = ''S'' then - 1 else 1) * (of_int lat + lat_min / 60) \<and>
    fx_longitude x = (if grp m 5 = ''W'' then - 1 else 1) * (of_int lon + lon_min / 60)"
proof -
  have a: "NMEA2float (exact stod) (grp m 2) = Some (of_int lat + lat_min / 60)"
    and o: "NMEA2float (exact stod) (grp m 4) = Some (of_int lon + lon_min / 60)"
    using assms(2,3,5,6) NMEA2float_exact [of stod "grp m 2" lat lat_min] NMEA2float_exact [of stod "grp m 4" lon lon_min]
      assms(1,4) by auto
  have "d_neg (exact stod) v = - v" for v by (simp add: exact_def)
  then show ?thesis using assms(7-9) a o
    by (auto simp: nmeaToFix_def signed_def Option.bind_eq_Some_conv)
qed

text \<open>
  A sentence that cannot be converted does no harm: when the quality of a position is no number, the
  exception is caught, nothing is published and the line is gone.
\<close>

theorem bad_quality_silent:
  assumes "clean talker" and "\<forall>f \<in> set fs. clean f" and "length fs = 9" and "CHR 0x0A \<notin> set tail"
    and "grp fs 2 \<noteq> []" and "\<not> is_digit (hd (grp fs 6 @ ''x''))" and "hd (grp fs 6 @ ''x'') \<notin> {CHR ''-'', CHR ''+''}"
    and "\<not> is_space (hd (grp fs 6 @ ''x''))"
  shows "timer_callback F now topic (gga_sentence talker fs tail @ CHR 0x0A # rest) = Inr ([], rest)"
proof -
  have "grp fs 6 \<noteq> ''-1''" "\<forall>c \<in> set ''012459''. grp fs 6 \<noteq> [c]" using assms(6,7) by (auto simp: is_digit_def)
  moreover have "stoi (grp fs 6) = None"
    using assms(6-8) by (cases "grp fs 6") (auto simp: stoi_def strip_sign_def Let_def)
  ultimately have "quality F (grp fs 6) = None" by (simp add: quality_def)
  then have n: "nmeaToFix F now fs = None" using assms(5) by (simp add: nmeaToFix_def)
  have "gga_sentence talker fs tail \<noteq> []" by (simp add: gga_sentence_def)
  then show ?thesis
    using getNmea_line [OF gga_sentence_no_newline [OF assms(1,2,4)], of rest] gga_search [OF assms(1-3), of tail] n
    by (simp add: timer_callback_def getGpsMsg_def)
qed

subsection \<open>Examples\<close>

definition sample_fields :: "string list" where
  "sample_fields = [''093310.80'', ''2810.7292'', ''N'', ''11256.4415'', ''E'', ''4'', ''13'', ''0.5'', ''61.31'']"

definition sample_stod :: "string \<Rightarrow> rat option" where
  "sample_stod = map_of [(''2810.7292'', 28107292 / 10000), (''11256.4415'', 112564415 / 10000), (''0.5'', 1 / 2),
     (''61.31'', 6131 / 100)]"

lemma sample_clean: "clean ''GP''" "\<forall>f \<in> set sample_fields. clean f" "length sample_fields = 9"
  by (simp_all add: clean_def sample_fields_def rx_dot_def)

lemma sample_fix: "\<exists>x. nmeaToFix (exact sample_stod) 7 sample_fields = Some x \<and> fx_status x = 4"
proof -
  have g: "grp sample_fields 2 = ''2810.7292''" "grp sample_fields 3 = ''N''" "grp sample_fields 4 = ''11256.4415''"
    "grp sample_fields 5 = ''E''" "grp sample_fields 6 = ''4''" "grp sample_fields 8 = ''0.5''" "grp sample_fields 9 = ''61.31''"
    by (simp_all add: grp_def sample_fields_def)
  have n: "\<exists>v. NMEA2float (exact sample_stod) ''2810.7292'' = Some v" "\<exists>v. NMEA2float (exact sample_stod) ''11256.4415'' = Some v"
    "num (exact sample_stod) ''61.31'' = Some (6131 / 100)" "d_stod (exact sample_stod) ''0.5'' = Some (1 / 2)"
    by (simp_all add: NMEA2float_def num_def exact_def sample_stod_def)
  then show ?thesis by (auto simp: nmeaToFix_def g quality_def)
qed

theorem gga_published_witness:
  "\<exists>x. timer_callback (exact sample_stod) 7 ''dgps''
      (gga_sentence ''GP'' sample_fields ''M,-16.80,M,,*49'' @ CHR 0x0A # ''$GP'') = Inr ([(''dgps'', Fix x)], ''$GP'') \<and>
    fx_status x = 4"
proof -
  have "CHR 0x0A \<notin> set ''M,-16.80,M,,*49''" by simp
  from gga_published [OF sample_clean this, of "exact sample_stod" 7 "''dgps''" "''$GP''"] sample_fix
  show ?thesis by (auto split: option.splits)
qed

theorem position_in_degrees_witness:
  "\<exists>x. nmeaToFix (exact sample_stod) 7 sample_fields = Some x \<and> fx_latitude x = 28 + 107292 / 600000 \<and>
    fx_longitude x = 112 + 564415 / 600000"
proof -
  obtain x where x: "nmeaToFix (exact sample_stod) 7 sample_fields = Some x" using sample_fix by blast
  have g: "grp sample_fields 2 = ''2810.7292''" "grp sample_fields 3 = ''N''" "grp sample_fields 4 = ''11256.4415''"
    "grp sample_fields 5 = ''E''" by (simp_all add: grp_def sample_fields_def)
  have "sample_stod ''2810.7292'' = Some (100 * of_int 28 + 107292 / 10000)"
    "sample_stod ''11256.4415'' = Some (100 * of_int 112 + 564415 / 10000)" by (simp_all add: sample_stod_def)
  from position_in_degrees [OF this(1) [folded g(1)] _ _ this(2) [folded g(3)] _ _ _ _ x] x
  show ?thesis by (simp add: g)
qed

definition bad_fields :: "string list" where
  "bad_fields = sample_fields[5 := ''x'']"

theorem bad_quality_silent_witness:
  "timer_callback (exact sample_stod) 7 ''dgps'' (gga_sentence ''GN'' bad_fields ''*49'' @ CHR 0x0A # ''$GP'') = Inr ([], ''$GP'')"
  by (rule bad_quality_silent)
    (simp_all add: clean_def rx_dot_def bad_fields_def sample_fields_def grp_def is_digit_def is_space_def)

text \<open>A position without a fix has no latitude; it is published all the same, at latitude and longitude 0.\<close>

theorem no_fix_published:
  "grp m 2 = [] \<Longrightarrow> nmeaToFix F now m = Some (empty_fix F now)"
  by (simp add: nmeaToFix_def)

text \<open>
  The status of a \<open>Gnvtg\<close> message is the eighth group, which is the unit of the speed and not the mode; and
  the sentence that the comment gives as example, with the talker \<open>GN\<close>, is not recognised.
\<close>

theorem vtg_status_is_unit:
  "\<exists>m. rx_search e4 ''$GPVTG,0.00,T,0.00,M,0.00,N,0.000,K,A*3D'' = Some m \<and>
    (\<forall>x. to_gnvtg F now line m = Gnvtg x \<longrightarrow> sn_status x = ''K'')"
proof -
  have "rx_search e4 ''$GPVTG,0.00,T,0.00,M,0.00,N,0.000,K,A*3D'' =
      Some [''0.00'', ''T'', ''0.00'', ''M'', ''0.00'', ''N'', ''0.000'', ''K'', ''A'']" by code_simp
  then show ?thesis by (auto simp: to_gnvtg_def grp_def split: option.splits)
qed

theorem gnvtg_ignored: "getGpsMsg F now ''$GNVTG,0.00,T,0.00,M,0.00,N,0.000,K,A*3D'' = Inr NoMsg"
proof -
  let ?l = "''$GNVTG,0.00,T,0.00,M,0.00,N,0.000,K,A*3D''"
  have "rx_search e1 ?l = None" by code_simp
  moreover have "rx_search e2 ?l = None" by code_simp
  moreover have "rx_search e3 ?l = None" by code_simp
  moreover have "rx_search e4 ?l = None" by code_simp
  ultimately show ?thesis by (simp add: getGpsMsg_def)
qed

end
