(* ===== verification/Floating.thy ===== *)
theory Floating
  imports Prelude Complex_Main
begin

text \<open>
  The floating point operations that the local planner and the local map use. The type of the values is a
  parameter, and so is every operation: a model that fixes an order of rounding, or a value for
  \<open>cos\<close>, would say more than the program does. \<open>float\<close> arithmetic is \<open>double\<close> arithmetic followed
  by \<open>fp_single\<close>, the rounding to \<open>float\<close>. What the proofs use of the comparison of numbers, not-a-number
  included, is the locale \<open>float_order\<close>; exact arithmetic on the rationals is its instance.
\<close>

record 'd fp =
  fp_lit :: "rat \<Rightarrow> 'd"
  fp_add :: "'d \<Rightarrow> 'd \<Rightarrow> 'd"
  fp_sub :: "'d \<Rightarrow> 'd \<Rightarrow> 'd"
  fp_mul :: "'d \<Rightarrow> 'd \<Rightarrow> 'd"
  fp_div :: "'d \<Rightarrow> 'd \<Rightarrow> 'd"
  fp_lt :: "'d \<Rightarrow> 'd \<Rightarrow> bool"
  fp_le :: "'d \<Rightarrow> 'd \<Rightarrow> bool"
  fp_eq :: "'d \<Rightarrow> 'd \<Rightarrow> bool"
  fp_abs :: "'d \<Rightarrow> 'd"
  fp_floor :: "'d \<Rightarrow> 'd"
  fp_pow2 :: "'d \<Rightarrow> 'd"
  fp_sqrt :: "'d \<Rightarrow> 'd"
  fp_cos :: "'d \<Rightarrow> 'd"
  fp_sin :: "'d \<Rightarrow> 'd"
  fp_hypot :: "'d \<Rightarrow> 'd \<Rightarrow> 'd"
  fp_atan2 :: "'d \<Rightarrow> 'd \<Rightarrow> 'd"
  fp_single :: "'d \<Rightarrow> 'd"
  fp_trunc :: "'d \<Rightarrow> int"

definition fp_int :: "'d fp \<Rightarrow> int \<Rightarrow> 'd" where
  "fp_int F n = fp_lit F (of_int n)"

text \<open>\<open>std::min\<close> and \<open>std::max\<close> return their first argument unless the other one is smaller (larger).\<close>

definition std_min :: "'d fp \<Rightarrow> 'd \<Rightarrow> 'd \<Rightarrow> 'd" where
  "std_min F a b = (if fp_lt F b a then b else a)"

definition std_max :: "'d fp \<Rightarrow> 'd \<Rightarrow> 'd \<Rightarrow> 'd" where
  "std_max F a b = (if fp_lt F a b then b else a)"

text \<open>The Euclidean norm of a vector of two doubles.\<close>

definition norm2 :: "'d fp \<Rightarrow> 'd \<Rightarrow> 'd \<Rightarrow> 'd" where
  "norm2 F x y = fp_sqrt F (fp_add F (fp_mul F x x) (fp_mul F y y))"

text \<open>
  The conversion of a \<open>double\<close> to \<open>int\<close> drops the fraction; a value that does not fit is undefined behaviour.
\<close>

definition to_int :: "'d fp \<Rightarrow> 'd \<Rightarrow> error + int" where
  "to_int F x = (let n = fp_trunc F x in if n < INT_MIN \<or> INT_MAX < n then Inl OutOfBounds else Inr n)"

text \<open>
  \<open>for (v = lo; v <= hi; v = next(v)) body\<close>: with not-a-number as bound the loop is not entered.
  The fuel bounds the number of rounds.
\<close>

fun for_loop :: "'d fp \<Rightarrow> ('d \<Rightarrow> 'd) \<Rightarrow> 'd \<Rightarrow> ('d \<Rightarrow> 's \<Rightarrow> error + 's) \<Rightarrow> nat \<Rightarrow> 'd \<Rightarrow> 's \<Rightarrow> error + 's" where
  "for_loop F nxt hi body 0 v s = (if fp_le F v hi then Inl NoReturn else Inr s)"
| "for_loop F nxt hi body (Suc n) v s =
     (if fp_le F v hi then
        (case body v s of Inl e \<Rightarrow> Inl e | Inr s \<Rightarrow> for_loop F nxt hi body n (nxt v) s)
      else Inr s)"

text \<open>The values that the loop visits.\<close>

fun visited_values :: "'d fp \<Rightarrow> ('d \<Rightarrow> 'd) \<Rightarrow> 'd \<Rightarrow> nat \<Rightarrow> 'd \<Rightarrow> 'd list" where
  "visited_values F nxt hi 0 v = []"
| "visited_values F nxt hi (Suc n) v = (if fp_le F v hi then v # visited_values F nxt hi n (nxt v) else [])"

fun fold_res :: "('a \<Rightarrow> 's \<Rightarrow> error + 's) \<Rightarrow> 'a list \<Rightarrow> 's \<Rightarrow> error + 's" where
  "fold_res body [] s = Inr s"
| "fold_res body (x # xs) s = (case body x s of Inl e \<Rightarrow> Inl e | Inr s \<Rightarrow> fold_res body xs s)"

lemma for_loop_fold:
  assumes "for_loop F nxt hi body n v s = Inr s'"
  shows "fold_res body (visited_values F nxt hi n v) s = Inr s'"
  using assms by (induction n arbitrary: v s) (auto split: if_splits sum.splits)

lemma fold_res_for_loop:
  assumes "fold_res body (visited_values F nxt hi n v) s = Inr s'" and "\<not> fp_le F ((nxt ^^ n) v) hi"
  shows "for_loop F nxt hi body n v s = Inr s'"
  using assms
proof (induction n arbitrary: v s)
  case (Suc n)
  have "(nxt ^^ Suc n) v = (nxt ^^ n) (nxt v)" by (metis funpow_Suc_right o_apply)
  then show ?case using Suc by (auto split: if_splits sum.splits)
qed simp

lemma fold_res_append:
  "fold_res f (xs @ ys) s = (case fold_res f xs s of Inl e \<Rightarrow> Inl e | Inr s \<Rightarrow> fold_res f ys s)"
  by (induction xs arbitrary: s) (auto split: sum.splits)

lemma fold_res_invariant:
  assumes "fold_res f xs s = Inr s'" and "P s" and "\<And>x s s'. x \<in> set xs \<Longrightarrow> P s \<Longrightarrow> f x s = Inr s' \<Longrightarrow> P s'"
  shows "P s'"
  using assms
proof (induction xs arbitrary: s)
  case (Cons x xs)
  obtain s1 where s1: "f x s = Inr s1" "fold_res f xs s1 = Inr s'" using Cons.prems(1) by (auto split: sum.splits)
  have "P s1" using Cons.prems(3) [of x s s1] Cons.prems(2) s1(1) by simp
  then show ?case using Cons.IH [of s1] s1(2) Cons.prems(3) by (meson list.set_intros(2))
qed simp

lemma fold_res_total:
  assumes "\<And>x s. x \<in> set xs \<Longrightarrow> \<exists>s'. f x s = Inr s'"
  shows "\<exists>s'. fold_res f xs s = Inr s'"
  using assms
proof (induction xs arbitrary: s)
  case (Cons x xs)
  obtain s1 where "f x s = Inr s1" using Cons.prems [of x s] by auto
  moreover obtain s' where "fold_res f xs s1 = Inr s'" using Cons.IH [of s1] Cons.prems by auto
  ultimately show ?case by simp
qed simp

lemma visited_le: "x \<in> set (visited_values F nxt hi n v) \<Longrightarrow> fp_le F x hi"
  by (induction n arbitrary: v) (auto split: if_splits)

lemma visited_length: "length (visited_values F nxt hi n v) \<le> n"
  by (induction n arbitrary: v) auto

subsection \<open>What the order of the numbers promises\<close>

text \<open>
  A value is a number if it is below itself. The laws hold of the IEEE comparisons, where every comparison
  with not-a-number is false, and of adding a step that is not negative, however the sum is rounded.
\<close>

locale float_order =
  fixes F :: "'d fp"
  assumes lt_irrefl: "\<not> fp_lt F x x"
    and lt_trans: "fp_lt F x y \<Longrightarrow> fp_lt F y z \<Longrightarrow> fp_lt F x z"
    and lt_le: "fp_lt F x y \<Longrightarrow> fp_le F x y"
    and le_trans: "fp_le F x y \<Longrightarrow> fp_le F y z \<Longrightarrow> fp_le F x z"
    and le_num: "fp_le F x y \<Longrightarrow> fp_le F x x \<and> fp_le F y y"
    and le_total: "fp_le F x x \<Longrightarrow> fp_le F y y \<Longrightarrow> fp_le F x y \<or> fp_lt F y x"
    and add_above: "fp_le F (fp_lit F 0) s \<Longrightarrow> fp_le F x x \<Longrightarrow> fp_le F (fp_add F x s) (fp_add F x s) \<Longrightarrow>
      fp_le F x (fp_add F x s)"
    and add_num: "fp_le F (fp_add F x s) (fp_add F x s) \<Longrightarrow> fp_le F s s"
    and eq_le: "fp_eq F x y \<longleftrightarrow> fp_le F x y \<and> fp_le F y x"
    and lit_le: "p \<le> q \<Longrightarrow> fp_le F (fp_lit F p) (fp_lit F q)"
begin

lemma lit_num: "fp_le F (fp_lit F p) (fp_lit F p)"
  by (rule lit_le) simp

lemma min_le1: "fp_le F v (std_min F a b) \<Longrightarrow> fp_le F v a"
  unfolding std_min_def using le_trans lt_le by (auto split: if_splits)

lemma min_le2: "fp_le F b b \<Longrightarrow> fp_le F v (std_min F a b) \<Longrightarrow> fp_le F v b"
  unfolding std_min_def using le_trans le_num le_total by (metis (full_types))

lemma max_ge2: "fp_le F b b \<Longrightarrow> fp_le F (std_max F a b) v \<Longrightarrow> fp_le F b v"
  unfolding std_max_def using le_trans le_num le_total by (metis (full_types))

lemma max_num2: "fp_le F b b \<Longrightarrow> fp_le F a a \<Longrightarrow> fp_le F (std_max F a b) (std_max F a b)"
  by (simp add: std_max_def)

lemma max_above2: "fp_le F b b \<Longrightarrow> fp_le F a a \<Longrightarrow> fp_le F b (std_max F a b)"
  using max_ge2 max_num2 by blast

lemma max_ge1: "fp_le F (std_max F a b) v \<Longrightarrow> fp_le F a v"
  unfolding std_max_def using le_trans [of a b v] lt_le [of a b] by (auto split: if_splits)

text \<open>The lower end of a window with the upper end \<open>hi\<close>: it is not below \<open>a\<close> or \<open>d\<close> unless these are above \<open>hi\<close>.\<close>

lemma window_low:
  assumes "fp_le F (std_min F (std_max F a d) hi) w"
  shows "fp_le F a w \<or> fp_lt F hi a" and "fp_le F d d \<Longrightarrow> fp_le F d w \<or> fp_lt F hi d"
proof -
  have above: "fp_le F x x \<Longrightarrow> fp_le F hi w \<Longrightarrow> fp_le F x w \<or> fp_lt F hi x" for x
    using le_total [of x hi] le_num [of hi w] le_trans [of x hi w] by blast
  have low: "fp_lt F hi (std_max F a d) \<Longrightarrow> fp_le F hi w" "\<not> fp_lt F hi (std_max F a d) \<Longrightarrow> fp_le F (std_max F a d) w"
    using assms by (simp_all add: std_min_def)
  have a: "fp_lt F hi (std_max F a d) \<Longrightarrow> \<not> fp_lt F hi a \<Longrightarrow> fp_le F a a"
    using lt_le le_num by (auto simp: std_max_def split: if_splits)
  show "fp_le F a w \<or> fp_lt F hi a"
    using above [of a] a low max_ge1 by blast
  show "fp_le F d w \<or> fp_lt F hi d" if "fp_le F d d"
    using above [of d] low max_ge2 that by blast
qed

text \<open>A running minimum has no smaller value behind it, and taking the same values again changes nothing.\<close>

lemma min_mono: "\<not> fp_lt F m a \<Longrightarrow> \<not> fp_lt F (std_min F m x) a \<or> fp_lt F x a"
  by (simp add: std_min_def)

lemma min_keeps: "\<not> fp_lt F x m \<Longrightarrow> std_min F m x = m"
  by (simp add: std_min_def)

lemma min_below: "\<not> fp_lt F x (std_min F m x)"
  by (simp add: std_min_def lt_irrefl)

lemma min_still: "\<not> fp_lt F x m \<Longrightarrow> \<not> fp_lt F x (std_min F m y)"
  using lt_trans by (auto simp: std_min_def)

text \<open>The values of an ascending loop are between its bounds.\<close>

lemma visited_ge:
  assumes "fp_le F s s \<Longrightarrow> fp_le F (fp_lit F 0) s" and "fp_le F lo v"
    and "x \<in> set (visited_values F (\<lambda>v. fp_add F v s) hi n v)"
  shows "fp_le F lo x"
  using assms(2,3)
proof (induction n arbitrary: v)
  case (Suc n)
  have v: "fp_le F v hi" using Suc.prems(2) by (auto split: if_splits)
  show ?case
  proof (cases "x = v")
    case True then show ?thesis using Suc.prems(1) by simp
  next
    case False
    then have x: "x \<in> set (visited_values F (\<lambda>v. fp_add F v s) hi n (fp_add F v s))" using Suc.prems(2) v by simp
    then have "fp_le F (fp_add F v s) hi" by (cases n) (auto split: if_splits)
    then have "fp_le F v (fp_add F v s)" using add_above assms(1) add_num le_num v by blast
    then show ?thesis using Suc.IH [OF _ x] le_trans Suc.prems(1) by blast
  qed
qed simp

end

subsection \<open>Exact arithmetic\<close>

text \<open>The rationals, with the functions that leave them as parameters.\<close>

definition exact_fp :: "(rat \<Rightarrow> rat) \<Rightarrow> (rat \<Rightarrow> rat) \<Rightarrow> (rat \<Rightarrow> rat) \<Rightarrow> (rat \<Rightarrow> rat \<Rightarrow> rat) \<Rightarrow> rat fp" where
  "exact_fp cs sn sq an =
     \<lparr>fp_lit = \<lambda>q. q, fp_add = (+), fp_sub = (-), fp_mul = (*), fp_div = (/), fp_lt = (<), fp_le = (\<le>), fp_eq = (=),
      fp_abs = abs, fp_floor = \<lambda>x. of_int \<lfloor>x\<rfloor>, fp_pow2 = \<lambda>x. x * x, fp_sqrt = sq, fp_cos = cs, fp_sin = sn,
      fp_hypot = \<lambda>x y. sq (x * x + y * y), fp_atan2 = an, fp_single = \<lambda>x. x,
      fp_trunc = \<lambda>x. if 0 \<le> x then \<lfloor>x\<rfloor> else \<lceil>x\<rceil>\<rparr>"

lemma exact_fp_simps [simp]:
  "fp_lit (exact_fp cs sn sq an) = (\<lambda>q. q)" "fp_add (exact_fp cs sn sq an) = (+)" "fp_sub (exact_fp cs sn sq an) = (-)"
  "fp_mul (exact_fp cs sn sq an) = (*)" "fp_div (exact_fp cs sn sq an) = (/)" "fp_lt (exact_fp cs sn sq an) = (<)"
  "fp_le (exact_fp cs sn sq an) = (\<le>)" "fp_eq (exact_fp cs sn sq an) = (=)" "fp_abs (exact_fp cs sn sq an) = abs"
  "fp_floor (exact_fp cs sn sq an) = (\<lambda>x. of_int \<lfloor>x\<rfloor>)" "fp_pow2 (exact_fp cs sn sq an) = (\<lambda>x. x * x)"
  "fp_sqrt (exact_fp cs sn sq an) = sq" "fp_cos (exact_fp cs sn sq an) = cs" "fp_sin (exact_fp cs sn sq an) = sn"
  "fp_hypot (exact_fp cs sn sq an) = (\<lambda>x y. sq (x * x + y * y))" "fp_atan2 (exact_fp cs sn sq an) = an"
  "fp_single (exact_fp cs sn sq an) = (\<lambda>x. x)"
  "fp_trunc (exact_fp cs sn sq an) = (\<lambda>x. if 0 \<le> x then \<lfloor>x\<rfloor> else \<lceil>x\<rceil>)"
  by (simp_all add: exact_fp_def)

interpretation exact: float_order "exact_fp cs sn sq an"
  by unfold_locales auto

lemma fp_int_exact [simp]: "fp_int (exact_fp cs sn sq an) n = of_int n"
  by (simp add: fp_int_def)

lemma std_min_exact [simp]: "std_min (exact_fp cs sn sq an) a b = min a b"
  by (simp add: std_min_def min_def)

lemma std_max_exact [simp]: "std_max (exact_fp cs sn sq an) a b = max a b"
  by (auto simp: std_max_def max_def)

text \<open>With exact sums a loop leaves its range after as many steps as the range holds.\<close>

lemma exact_iterate: "((\<lambda>v. v + s) ^^ n) v = v + of_nat n * (s :: rat)"
  by (induction n) (simp_all add: algebra_simps)

lemma exact_loop_leaves:
  assumes "hi - lo < of_nat n * (s :: rat)"
  shows "\<not> fp_le (exact_fp cs sn sq an) (((\<lambda>v. fp_add (exact_fp cs sn sq an) v s) ^^ n) lo) hi"
  using assms exact_iterate [of n s lo] by simp

lemma exact_loop_returns:
  assumes "hi - lo < of_nat n * (s :: rat)" and "\<And>v s1. \<exists>s2. body v s1 = Inr s2"
  shows "\<exists>s2. for_loop (exact_fp cs sn sq an) (\<lambda>v. fp_add (exact_fp cs sn sq an) v s) hi body n lo s1 = Inr s2"
proof -
  obtain s2 where "fold_res body (visited_values (exact_fp cs sn sq an) (\<lambda>v. fp_add (exact_fp cs sn sq an) v s) hi n lo) s1 = Inr s2"
    using fold_res_total [of _ body s1] assms(2) by blast
  from fold_res_for_loop [OF this exact_loop_leaves [OF assms(1)]] show ?thesis by blast
qed

end
