(* ===== verification/DwaTraj.thy ===== *)
theory DwaTraj
  imports Floating
begin

text \<open>
  The trajectories of the local planner, src/LocalPlanner: the motion of a state
  (MotionState.hpp), the distance of a point from a line (ApeLine.hpp), the costs of a trajectory
  (BaseScore.cpp) and the search through the sampled velocities (BaseGeneratePath.cpp).

  The states of a trajectory are shared pointers, so the search has an explicit heap of states: a trajectory
  is a list of addresses. A YAML file is what its look-ups return; one that fails throws and gives the defaults.
\<close>

subsection \<open>Configuration\<close>

text \<open>The readers \<open>as<double>\<close>, \<open>as<float>\<close>, \<open>as<int>\<close>, \<open>as<bool>\<close> and \<open>as<std::string>\<close> of a path of keys.\<close>

record 'd yaml =
  y_double :: "string list \<Rightarrow> 'd option"
  y_float :: "string list \<Rightarrow> 'd option"
  y_int :: "string list \<Rightarrow> int option"
  y_bool :: "string list \<Rightarrow> bool option"
  y_string :: "string list \<Rightarrow> string option"

text \<open>The members that \<open>BaseGeneratePath::readYaml\<close> sets; those for the y axis are never read.\<close>

record 'd gen_params =
  max_vel_x :: 'd
  min_vel_x :: 'd
  max_vel_y :: 'd
  min_vel_y :: 'd
  acc_lim_x :: 'd
  acc_lim_y :: 'd
  acc_lim_theta :: 'd
  deacc_lim_theta :: 'd
  deacc_lim_x :: 'd
  deacc_lim_y :: 'd
  min_vel_theta :: 'd
  max_vel_theta :: 'd
  num_samples_x :: int
  num_samples_theta :: int
  num_steps :: int
  sim_time :: 'd
  allow_pub :: bool

definition gen_readYaml :: "'d fp \<Rightarrow> 'd yaml \<Rightarrow> 'd gen_params" where
  "gen_readYaml F Y =
     (case do {
        a \<leftarrow> y_double Y [''kinematic'', ''max_vel'', ''max_vel_x''];
        b \<leftarrow> y_double Y [''kinematic'', ''min_vel'', ''min_vel_x''];
        c \<leftarrow> y_double Y [''kinematic'', ''max_vel'', ''max_vel_y''];
        d \<leftarrow> y_double Y [''kinematic'', ''min_vel'', ''min_vel_y''];
        e \<leftarrow> y_double Y [''kinematic'', ''max_acc'', ''max_acc_x''];
        f \<leftarrow> y_double Y [''kinematic'', ''max_acc'', ''max_acc_y''];
        g \<leftarrow> y_double Y [''kinematic'', ''acc_w''];
        h \<leftarrow> y_double Y [''kinematic'', ''deacc_w''];
        i \<leftarrow> y_double Y [''kinematic'', ''deacc_v'', ''deacc_v_x''];
        j \<leftarrow> y_double Y [''kinematic'', ''deacc_v'', ''deacc_v_y''];
        k \<leftarrow> y_double Y [''kinematic'', ''min_w''];
        l \<leftarrow> y_double Y [''kinematic'', ''max_w''];
        m \<leftarrow> y_int Y [''simulate'', ''num_vel''];
        n \<leftarrow> y_int Y [''simulate'', ''num_w''];
        p \<leftarrow> y_int Y [''simulate'', ''num_steps''];
        q \<leftarrow> y_double Y [''simulate'', ''sim_time''];
        r \<leftarrow> y_bool Y [''simulate'', ''allow_pub''];
        Some \<lparr>max_vel_x = a, min_vel_x = b, max_vel_y = c, min_vel_y = d, acc_lim_x = e, acc_lim_y = f,
          acc_lim_theta = g, deacc_lim_theta = h, deacc_lim_x = i, deacc_lim_y = j, min_vel_theta = k,
          max_vel_theta = l, num_samples_x = m, num_samples_theta = n, num_steps = p, sim_time = q, allow_pub = r\<rparr>
      } of
        Some P \<Rightarrow> P
      | None \<Rightarrow>
          \<lparr>max_vel_x = fp_lit F 1, min_vel_x = fp_lit F 0, max_vel_y = fp_lit F 0, min_vel_y = fp_lit F 0,
           acc_lim_x = fp_lit F (5 / 10), acc_lim_y = fp_lit F 0, acc_lim_theta = fp_lit F (25 / 100),
           deacc_lim_theta = fp_lit F (- 25 / 100), deacc_lim_x = fp_lit F (- 5 / 10), deacc_lim_y = fp_lit F 0,
           min_vel_theta = fp_lit F (- 1), max_vel_theta = fp_lit F 1, num_samples_x = 30, num_samples_theta = 20,
           num_steps = 30, sim_time = fp_lit F 4, allow_pub = False\<rparr>)"

subsection \<open>Motion and lines\<close>

record 'd State =
  st_x :: 'd
  st_y :: 'd
  st_yaw :: 'd
  st_velocity :: 'd
  st_yawrate :: 'd

definition state_motion :: "'d fp \<Rightarrow> 'd \<Rightarrow> 'd \<Rightarrow> 'd \<Rightarrow> 'd State \<Rightarrow> 'd State" where
  "state_motion F v w dt s =
     (let yaw = fp_add F (st_yaw s) (fp_mul F w dt) in
      \<lparr>st_x = fp_add F (st_x s) (fp_mul F (fp_mul F v (fp_cos F yaw)) dt),
       st_y = fp_add F (st_y s) (fp_mul F (fp_mul F v (fp_sin F yaw)) dt),
       st_yaw = yaw, st_velocity = v, st_yawrate = w\<rparr>)"

record 'd apeLine =
  line_a :: "'d \<times> 'd"
  line_b :: "'d \<times> 'd"
  line_ab :: 'd

definition distance :: "'d fp \<Rightarrow> 'd \<times> 'd \<Rightarrow> 'd \<times> 'd \<Rightarrow> 'd" where
  "distance F p q = norm2 F (fp_sub F (fst p) (fst q)) (fp_sub F (snd p) (snd q))"

definition mk_line :: "'d fp \<Rightarrow> 'd \<times> 'd \<Rightarrow> 'd \<times> 'd \<Rightarrow> 'd apeLine" where
  "mk_line F a b = \<lparr>line_a = a, line_b = b, line_ab = distance F b a\<rparr>"

definition DistanceOfPointToLine :: "'d fp \<Rightarrow> 'd apeLine \<Rightarrow> 'd \<times> 'd \<Rightarrow> 'd" where
  "DistanceOfPointToLine F l s =
     (let as = distance F (line_a l) s; bs = distance F s (line_b l); ab = line_ab l in
      if fp_eq F ab (fp_lit F 0) \<or> fp_eq F as (fp_lit F 0) then as
      else
        let cos_A = fp_div F (fp_sub F (fp_add F (fp_pow2 F as) (fp_pow2 F ab)) (fp_pow2 F bs))
                      (fp_mul F (fp_mul F (fp_lit F 2) ab) as);
            sin_A = fp_sqrt F (fp_sub F (fp_lit F 1) (fp_pow2 F cos_A))
        in fp_mul F as sin_A)"

subsection \<open>The costs of a trajectory\<close>

type_synonym 'd vec3 = "'d \<times> 'd \<times> 'd"

record 'd score =
  path_bias :: 'd
  goal_bias :: 'd
  obs_bias :: 'd
  speed_bias :: 'd
  min_obs_dist :: 'd
  target_velocity :: 'd
  thresh_vel :: 'd
  body_points :: "('d \<times> 'd) list"
  score_goal :: "'d vec3"
  obs_list :: "('d \<times> 'd) list option"
  goal_line :: "'d apeLine"

text \<open>The eight points of the hull, computed in single precision.\<close>

definition footprint :: "'d fp \<Rightarrow> 'd \<Rightarrow> 'd \<Rightarrow> ('d \<times> 'd) list" where
  "footprint F len wid =
     (let zero = fp_lit F 0; neg = (\<lambda>x. fp_sub F zero x) in
      [(len, wid), (len, neg wid), (len, zero), (neg len, wid), (neg len, neg wid), (neg len, zero),
       (zero, neg wid), (zero, wid)])"

definition score_readYaml :: "'d fp \<Rightarrow> 'd yaml \<Rightarrow> 'd vec3 \<Rightarrow> 'd vec3 \<Rightarrow> ('d \<times> 'd) list option \<Rightarrow> 'd score" where
  "score_readYaml F Y last_goal local_goal obs =
     (let line = mk_line F (fst local_goal, fst (snd local_goal)) (fst last_goal, fst (snd last_goal));
          half = (\<lambda>x. fp_single F (fp_div F x (fp_lit F 2)))
      in
      case do {
        a \<leftarrow> y_float Y [''evaluate'', ''path_bias''];
        b \<leftarrow> y_float Y [''evaluate'', ''goal_bias''];
        c \<leftarrow> y_float Y [''evaluate'', ''obs_bias''];
        d \<leftarrow> y_float Y [''evaluate'', ''speed_bias''];
        w \<leftarrow> y_float Y [''robot'', ''width''];
        l \<leftarrow> y_float Y [''robot'', ''length''];
        e \<leftarrow> y_float Y [''simulate'', ''min_obs_dist''];
        f \<leftarrow> y_float Y [''simulate'', ''target_vel''];
        g \<leftarrow> y_float Y [''simulate'', ''thresh_vel''];
        Some \<lparr>path_bias = a, goal_bias = b, obs_bias = c, speed_bias = d, min_obs_dist = e, target_velocity = f,
          thresh_vel = g, body_points = footprint F (half l) (half w), score_goal = local_goal, obs_list = obs, goal_line = line\<rparr>
      } of
        Some S \<Rightarrow> S
      | None \<Rightarrow>
          \<lparr>path_bias = fp_lit F 1, goal_bias = fp_lit F 1, obs_bias = fp_lit F 1, speed_bias = fp_lit F 1,
           min_obs_dist = fp_single F (fp_lit F (2 / 10)), target_velocity = fp_lit F 1, thresh_vel = fp_lit F 2,
           body_points = footprint F (fp_lit F (5 / 10)) (fp_lit F (5 / 10)), score_goal = local_goal, obs_list = obs,
           goal_line = line\<rparr>)"

definition COLLISION :: "'d fp \<Rightarrow> 'd" where
  "COLLISION F = fp_lit F 1000000"

definition calcGoalCost :: "'d fp \<Rightarrow> 'd score \<Rightarrow> 'd State \<Rightarrow> 'd" where
  "calcGoalCost F sc b =
     fp_single F (norm2 F (fp_sub F (st_x b) (fst (score_goal sc))) (fp_sub F (st_y b) (fst (snd (score_goal sc)))))"

definition calcSpeedCost :: "'d fp \<Rightarrow> 'd score \<Rightarrow> 'd State \<Rightarrow> 'd" where
  "calcSpeedCost F sc b =
     (if fp_le F (fp_lit F 0) (st_velocity b)
      then fp_single F (fp_abs F (fp_sub F (target_velocity sc) (st_velocity b)))
      else fp_single F (fp_mul F (fp_abs F (fp_sub F (st_velocity b) (target_velocity sc))) (fp_lit F (16 / 10))))"

definition calcPathCost :: "'d fp \<Rightarrow> 'd score \<Rightarrow> 'd State \<Rightarrow> 'd" where
  "calcPathCost F sc b = fp_single F (DistanceOfPointToLine F (goal_line sc) (st_x b, st_y b))"

text \<open>
  The distances that \<open>calcObsCost\<close> compares, for one state and one obstacle: from the centre, then from the
  points of the hull, which is taken twice as large above the threshold velocity.
\<close>

definition centre_dist :: "'d fp \<Rightarrow> 'd State \<Rightarrow> 'd \<times> 'd \<Rightarrow> 'd" where
  "centre_dist F s obs =
     fp_single F (fp_sqrt F (fp_add F (fp_pow2 F (fp_sub F (st_x s) (fst obs))) (fp_pow2 F (fp_sub F (st_y s) (snd obs)))))"

definition hull_dist :: "'d fp \<Rightarrow> 'd score \<Rightarrow> 'd State \<Rightarrow> 'd \<times> 'd \<Rightarrow> 'd \<times> 'd \<Rightarrow> 'd" where
  "hull_dist F sc s obs p =
     (let cos_th = fp_cos F (st_yaw s); sin_th = fp_sin F (st_yaw s);
          dx = fp_sub F (fp_mul F (fst p) cos_th) (fp_mul F (snd p) sin_th);
          dy = fp_add F (fp_mul F (fst p) sin_th) (fp_mul F (snd p) cos_th);
          scale = (\<lambda>d. if fp_lt F (thresh_vel sc) (st_velocity s) then fp_mul F (fp_lit F 2) d else d);
          x = fp_add F (st_x s) (scale dx); y = fp_add F (st_y s) (scale dy)
      in fp_single F (norm2 F (fp_sub F x (fst obs)) (fp_sub F y (snd obs))))"

definition state_dists :: "'d fp \<Rightarrow> 'd score \<Rightarrow> 'd State \<Rightarrow> 'd \<times> 'd \<Rightarrow> 'd list" where
  "state_dists F sc s obs = centre_dist F s obs # map (hull_dist F sc s obs) (body_points sc)"

text \<open>One comparison after the other; \<open>None\<close> is the early return with the collision cost.\<close>

fun dist_scan :: "'d fp \<Rightarrow> 'd \<Rightarrow> 'd list \<Rightarrow> 'd \<Rightarrow> 'd option" where
  "dist_scan F limit [] m = Some m"
| "dist_scan F limit (d # ds) m = (if fp_le F d limit then None else dist_scan F limit ds (std_min F m d))"

definition obs_dists :: "'d fp \<Rightarrow> 'd score \<Rightarrow> ('d \<times> 'd) list \<Rightarrow> 'd State list \<Rightarrow> 'd list" where
  "obs_dists F sc obs traj = concat (map (\<lambda>s. concat (map (state_dists F sc s) obs)) traj)"

definition calcObsCost :: "'d fp \<Rightarrow> 'd score \<Rightarrow> ('d \<times> 'd) list \<Rightarrow> 'd State list \<Rightarrow> 'd" where
  "calcObsCost F sc obs traj =
     (case dist_scan F (min_obs_dist sc) (obs_dists F sc obs traj) (fp_lit F 1000000) of
        None \<Rightarrow> COLLISION F
      | Some m \<Rightarrow> fp_single F (fp_div F (fp_lit F 1) m))"

text \<open>\<open>traj_.back()\<close> of an empty trajectory is undefined behaviour.\<close>

definition calculateCost :: "'d fp \<Rightarrow> 'd score \<Rightarrow> 'd State list \<Rightarrow> error + 'd" where
  "calculateCost F sc traj =
     (if traj = [] then Inl OutOfBounds
      else
        let b = last traj;
            goal_cost = calcGoalCost F sc b; speed_cost = calcSpeedCost F sc b; path_cost = calcPathCost F sc b;
            obs_cost = (case obs_list sc of None \<Rightarrow> fp_lit F 0 | Some obs \<Rightarrow> calcObsCost F sc obs traj);
            s = fp_single F
        in
        if fp_eq F obs_cost (COLLISION F) then Inr (fp_lit F (- 1))
        else if fp_eq F speed_cost (COLLISION F) then Inr (fp_lit F (- 1))
        else Inr (s (fp_add F (s (fp_add F (s (fp_add F (s (fp_mul F obs_cost (obs_bias sc)))
               (s (fp_mul F speed_cost (speed_bias sc))))) (s (fp_mul F (path_bias sc) path_cost))))
               (s (fp_mul F (goal_bias sc) goal_cost)))))"

subsection \<open>The search\<close>

text \<open>
  The ranges that \<open>generateTrajectory\<close> samples: from the current velocities, what can be reached in
  \<open>sim_time_\<close> within the limits, and the limit of the operator unless that is (almost) zero.
\<close>

record 'd ranges =
  rg_max_vel_x :: 'd
  rg_min_vel_x :: 'd
  rg_step_x :: 'd
  rg_max_vel_theta :: 'd
  rg_min_vel_theta :: 'd
  rg_step_theta :: 'd

definition sample_step :: "'d fp \<Rightarrow> 'd \<Rightarrow> 'd \<Rightarrow> int \<Rightarrow> 'd \<Rightarrow> 'd" where
  "sample_step F hi lo n least = std_max F (fp_div F (fp_sub F hi lo) (fp_int F (max 1 (n - 1)))) least"

definition sample_ranges :: "'d fp \<Rightarrow> 'd gen_params \<Rightarrow> 'd State \<Rightarrow> bool \<Rightarrow> 'd \<Rightarrow> 'd ranges" where
  "sample_ranges F P current allow_back max_velocity =
     (let vel_x = st_velocity current; vel_theta = st_yawrate current; zero = fp_lit F 0;
          max_x = std_min F (max_vel_x P) (fp_add F vel_x (fp_mul F (acc_lim_x P) (sim_time P)));
          max_x = (if fp_le F (fp_lit F (1 / 100000000)) (fp_abs F max_velocity) then std_min F max_x max_velocity else max_x);
          max_t = std_min F (max_vel_theta P) (fp_add F vel_theta (fp_mul F (acc_lim_theta P) (sim_time P)));
          min_x = std_min F (std_max F (min_vel_x P) (fp_add F vel_x (fp_mul F (deacc_lim_x P) (sim_time P)))) max_x;
          min_x = (if \<not> allow_back then std_max F min_x zero else min_x);
          min_t = std_min F (std_max F (min_vel_theta P) (fp_add F vel_theta (fp_mul F (deacc_lim_theta P) (sim_time P)))) max_t
      in \<lparr>rg_max_vel_x = max_x, rg_min_vel_x = min_x,
          rg_step_x = sample_step F max_x min_x (num_samples_x P) (fp_lit F (1 / 10)),
          rg_max_vel_theta = max_t, rg_min_vel_theta = min_t,
          rg_step_theta = sample_step F max_t min_t (num_samples_theta P) (fp_lit F (5 / 100))\<rparr>)"

type_synonym addr = nat

record 'd dwa_search =
  sr_heap :: "'d State list"
  sr_min_cost :: 'd
  sr_best :: "addr list"
  sr_best_index :: nat
  sr_count :: nat

text \<open>
  The inner loop: one object is moved on and its address is appended, \<open>num_steps_\<close> times.
\<close>

fun motion_loop :: "'d fp \<Rightarrow> 'd \<Rightarrow> 'd \<Rightarrow> 'd \<Rightarrow> nat \<Rightarrow> addr \<Rightarrow> 'd State list \<Rightarrow> addr list \<Rightarrow> 'd State list \<times> addr list" where
  "motion_loop F v k dt 0 a heap traj = (heap, traj)"
| "motion_loop F v k dt (Suc n) a heap traj =
     motion_loop F v k dt n a (heap[a := state_motion F v k dt (heap ! a)]) (traj @ [a])"

definition try_sample :: "'d fp \<Rightarrow> 'd gen_params \<Rightarrow> 'd score \<Rightarrow> 'd State \<Rightarrow> 'd \<Rightarrow> 'd \<Rightarrow> 'd dwa_search \<Rightarrow> error + 'd dwa_search" where
  "try_sample F P sc current v k s =
     (let s = s\<lparr>sr_count := sr_count s + 1\<rparr> in
      if allow_pub P then Inr s
      else
        let dt = fp_div F (sim_time P) (fp_int F (num_steps P));
            a = length (sr_heap s);
            (heap, traj) = motion_loop F v k dt (nat (num_steps P)) a (sr_heap s @ [current]) [];
            s = s\<lparr>sr_heap := heap\<rparr>
        in
        case calculateCost F sc (map ((!) heap) traj) of
          Inl e \<Rightarrow> Inl e
        | Inr final_cost \<Rightarrow>
            if fp_eq F final_cost (fp_lit F (- 1)) then Inr s
            else if fp_le F final_cost (sr_min_cost s) then
              Inr (s\<lparr>sr_min_cost := final_cost, sr_best := traj, sr_best_index := sr_count s\<rparr>)
            else Inr s)"

definition angle_loop :: "'d fp \<Rightarrow> nat \<Rightarrow> 'd gen_params \<Rightarrow> 'd score \<Rightarrow> 'd State \<Rightarrow> 'd ranges \<Rightarrow> 'd \<Rightarrow> 'd dwa_search \<Rightarrow> error + 'd dwa_search" where
  "angle_loop F fuel P sc current R v =
     for_loop F (\<lambda>k. fp_add F k (rg_step_theta R)) (rg_max_vel_theta R) (try_sample F P sc current v) fuel (rg_min_vel_theta R)"

definition search_loop :: "'d fp \<Rightarrow> nat \<Rightarrow> 'd gen_params \<Rightarrow> 'd score \<Rightarrow> 'd State \<Rightarrow> 'd ranges \<Rightarrow> 'd dwa_search \<Rightarrow> error + 'd dwa_search" where
  "search_loop F fuel P sc current R =
     for_loop F (\<lambda>v. fp_add F v (rg_step_x R)) (rg_max_vel_x R) (angle_loop F fuel P sc current R) fuel (rg_min_vel_x R)"

text \<open>The result is the heap and the trajectory that is best, or one stopped state when there is none.\<close>

definition generateTrajectory ::
  "'d fp \<Rightarrow> nat \<Rightarrow> 'd yaml \<Rightarrow> 'd gen_params \<Rightarrow> 'd State \<Rightarrow> 'd vec3 \<Rightarrow> 'd vec3 \<Rightarrow> bool \<Rightarrow> 'd \<Rightarrow>
   ('d \<times> 'd) list option \<Rightarrow> error + 'd State list \<times> addr list" where
  "generateTrajectory F fuel Y P current last_goal local_goal allow_back max_velocity obs =
     (let R = sample_ranges F P current allow_back max_velocity;
          sc = score_readYaml F Y last_goal local_goal obs in
      case search_loop F fuel P sc current R
             \<lparr>sr_heap = [], sr_min_cost = fp_lit F 1000000, sr_best = [], sr_best_index = 0, sr_count = 0\<rparr> of
        Inl e \<Rightarrow> Inl e
      | Inr s \<Rightarrow>
          if fp_eq F (sr_min_cost s) (fp_lit F 1000000) then
            Inr (sr_heap s @ [current\<lparr>st_velocity := fp_lit F 0, st_yawrate := fp_lit F 0\<rparr>], sr_best s @ [length (sr_heap s)])
          else Inr (sr_heap s, sr_best s))"

subsection \<open>Only the end of a trajectory is scored\<close>

lemma motion_loop_visited:
  assumes "a < length heap"
  shows "motion_loop F v k dt n a heap traj =
    (heap[a := (state_motion F v k dt ^^ n) (heap ! a)], traj @ replicate n a)"
  using assms
proof (induction n arbitrary: heap traj)
  case (Suc n)
  have "(state_motion F v k dt ^^ Suc n) s = (state_motion F v k dt ^^ n) (state_motion F v k dt s)" for s
    by (metis funpow_Suc_right o_apply)
  then show ?case using Suc by simp
qed simp

lemma dist_scan_append:
  "dist_scan F limit (xs @ ys) m = (case dist_scan F limit xs m of None \<Rightarrow> None | Some m \<Rightarrow> dist_scan F limit ys m)"
  by (induction xs arbitrary: m) auto

lemma dist_scan_clear: "dist_scan F limit xs m = Some m' \<Longrightarrow> x \<in> set xs \<Longrightarrow> \<not> fp_le F x limit"
  by (induction xs arbitrary: m) (auto split: if_splits)

lemma dist_scan_None: "dist_scan F limit xs m = None \<longleftrightarrow> (\<exists>x \<in> set xs. fp_le F x limit)"
  by (induction xs arbitrary: m) auto

context float_order
begin

lemma dist_scan_start: "dist_scan F limit xs m = Some m' \<Longrightarrow> \<not> fp_lt F a m \<Longrightarrow> \<not> fp_lt F a m'"
  by (induction xs arbitrary: m) (auto split: if_splits dest: min_still)

lemma dist_scan_least: "dist_scan F limit xs m = Some m' \<Longrightarrow> x \<in> set xs \<Longrightarrow> \<not> fp_lt F x m'"
  by (induction xs arbitrary: m) (auto split: if_splits dest: dist_scan_start [OF _ min_below])

lemma dist_scan_same:
  "(\<And>x. x \<in> set xs \<Longrightarrow> \<not> fp_le F x limit \<and> \<not> fp_lt F x m) \<Longrightarrow> dist_scan F limit xs m = Some m"
  by (induction xs) (auto simp: min_keeps)

lemma dist_scan_twice: "dist_scan F limit (xs @ xs) m = dist_scan F limit xs m"
proof (cases "dist_scan F limit xs m")
  case (Some m')
  then have "dist_scan F limit xs m' = Some m'" using dist_scan_clear dist_scan_least by (metis dist_scan_same)
  then show ?thesis using Some by (simp add: dist_scan_append)
qed (simp add: dist_scan_append)

lemma dist_scan_copies: "dist_scan F limit (concat (replicate (Suc n) xs)) m = dist_scan F limit xs m"
proof (induction n)
  case (Suc n)
  have "dist_scan F limit (xs @ xs @ concat (replicate n xs)) m = dist_scan F limit (xs @ concat (replicate n xs)) m"
    using dist_scan_append [of F limit "xs @ xs" "concat (replicate n xs)" m] dist_scan_twice [of limit xs m]
      dist_scan_append [of F limit xs "concat (replicate n xs)" m] by simp
  then show ?case using Suc by simp
qed simp

lemma cost_of_copies: "calculateCost F sc (replicate (Suc n) st) = calculateCost F sc [st]"
proof -
  have "obs_dists F sc obs (replicate (Suc n) st) = concat (replicate (Suc n) (obs_dists F sc obs [st]))" for obs
    by (simp add: obs_dists_def)
  then have "calcObsCost F sc obs (replicate (Suc n) st) = calcObsCost F sc obs [st]" for obs
    unfolding calcObsCost_def by (simp only: dist_scan_copies)
  moreover have "last (replicate (Suc n) st) = st" by (metis last_replicate nat.simps(3))
  ultimately show ?thesis by (cases "obs_list sc") (simp_all add: calculateCost_def del: replicate_Suc)
qed

end

lemma trajectory_cost:
  assumes "float_order F" and "motion_loop F v k dt (Suc n) (length heap) (heap @ [current]) [] = (heap', traj)"
  shows "calculateCost F sc (map ((!) heap') traj) = calculateCost F sc [(state_motion F v k dt ^^ Suc n) current]"
proof -
  have "heap' = heap @ [(state_motion F v k dt ^^ Suc n) current]" and t: "traj = replicate (Suc n) (length heap)"
    using assms(2) motion_loop_visited [of "length heap" "heap @ [current]" F v k dt "Suc n" "[]"] by simp_all
  then have "map ((!) heap') traj = replicate (Suc n) ((state_motion F v k dt ^^ Suc n) current)"
    by (simp only: map_replicate nth_append_length)
  then show ?thesis by (simp only: float_order.cost_of_copies [OF assms(1)])
qed

text \<open>
  Every entry of a trajectory is the same object. However many steps a trajectory has, its cost is the cost
  of its last state alone: obstacles that the robot meets on the way do not count.
\<close>

theorem only_end_state_scored:
  assumes "float_order F" and "motion_loop F v k dt (Suc n) (length heap) (heap @ [current]) [] = (heap', traj)"
  shows "calculateCost F sc (map ((!) heap') traj) = calculateCost F sc [(state_motion F v k dt ^^ Suc n) current]"
  using assms by (rule trajectory_cost)

subsection \<open>The candidates and the best of them\<close>

definition end_state :: "'d fp \<Rightarrow> 'd gen_params \<Rightarrow> 'd State \<Rightarrow> 'd \<times> 'd \<Rightarrow> 'd State" where
  "end_state F P current c =
     (state_motion F (fst c) (snd c) (fp_div F (sim_time P) (fp_int F (num_steps P))) ^^ nat (num_steps P)) current"

definition end_cost :: "'d fp \<Rightarrow> 'd gen_params \<Rightarrow> 'd score \<Rightarrow> 'd State \<Rightarrow> 'd \<times> 'd \<Rightarrow> 'd" where
  "end_cost F P sc current c = (case calculateCost F sc [end_state F P current c] of Inl e \<Rightarrow> fp_lit F 0 | Inr d \<Rightarrow> d)"

text \<open>A candidate can be chosen if it does not collide and its cost is at most the start value.\<close>

definition admissible :: "'d fp \<Rightarrow> 'd gen_params \<Rightarrow> 'd score \<Rightarrow> 'd State \<Rightarrow> 'd \<times> 'd \<Rightarrow> bool" where
  "admissible F P sc current c \<longleftrightarrow>
     \<not> fp_eq F (end_cost F P sc current c) (fp_lit F (- 1)) \<and> fp_le F (end_cost F P sc current c) (fp_lit F 1000000)"

definition speeds :: "'d fp \<Rightarrow> nat \<Rightarrow> 'd ranges \<Rightarrow> 'd list" where
  "speeds F fuel R = visited_values F (\<lambda>v. fp_add F v (rg_step_x R)) (rg_max_vel_x R) fuel (rg_min_vel_x R)"

definition turns :: "'d fp \<Rightarrow> nat \<Rightarrow> 'd ranges \<Rightarrow> 'd list" where
  "turns F fuel R = visited_values F (\<lambda>k. fp_add F k (rg_step_theta R)) (rg_max_vel_theta R) fuel (rg_min_vel_theta R)"

definition candidates :: "'d fp \<Rightarrow> nat \<Rightarrow> 'd ranges \<Rightarrow> ('d \<times> 'd) list" where
  "candidates F fuel R = List.product (speeds F fuel R) (turns F fuel R)"

lemma candidates_set: "c \<in> set (candidates F fuel R) \<longleftrightarrow> fst c \<in> set (speeds F fuel R) \<and> snd c \<in> set (turns F fuel R)"
  by (cases c) (simp add: candidates_def)

lemma state_motion_speeds: "st_velocity (state_motion F v k dt s) = v" "st_yawrate (state_motion F v k dt s) = k"
  by (simp_all add: state_motion_def Let_def)

lemma end_state_speeds:
  "0 < num_steps P \<Longrightarrow> st_velocity (end_state F P current c) = fst c"
  "0 < num_steps P \<Longrightarrow> st_yawrate (end_state F P current c) = snd c"
  by (cases "nat (num_steps P)"; simp add: end_state_def state_motion_speeds)+

lemma single_cost: "\<exists>d. calculateCost F sc [s] = Inr d"
  by (simp add: calculateCost_def Let_def)

lemma fold_res_product:
  assumes "fold_res (\<lambda>v. fold_res (f v) ks) vs s = Inr s'"
  shows "fold_res (\<lambda>c. f (fst c) (snd c)) (List.product vs ks) s = Inr s'"
proof -
  have pairs: "fold_res (\<lambda>c. f (fst c) (snd c)) (map (Pair v) ks) s = fold_res (f v) ks s" for v s
    by (induction ks arbitrary: s) (auto split: sum.splits)
  show ?thesis using assms
    by (induction vs arbitrary: s) (auto simp: fold_res_append pairs split: sum.splits)
qed

lemma fold_res_cong_Inr:
  assumes "fold_res f xs s = Inr s'" and "\<And>x s s'. x \<in> set xs \<Longrightarrow> f x s = Inr s' \<Longrightarrow> g x s = Inr s'"
  shows "fold_res g xs s = Inr s'"
  using assms
proof (induction xs arbitrary: s)
  case (Cons x xs)
  obtain s1 where "f x s = Inr s1" "fold_res f xs s1 = Inr s'" using Cons.prems(1) by (auto split: sum.splits)
  then show ?case using Cons.IH [of s1] Cons.prems(2) by simp
qed simp

lemma search_loop_candidates:
  assumes "search_loop F fuel P sc current R s = Inr s'"
  shows "fold_res (\<lambda>c. try_sample F P sc current (fst c) (snd c)) (candidates F fuel R) s = Inr s'"
  unfolding candidates_def
proof (rule fold_res_product)
  have "fold_res (angle_loop F fuel P sc current R) (speeds F fuel R) s = Inr s'"
    using for_loop_fold [OF assms [unfolded search_loop_def]] by (simp add: speeds_def)
  then show "fold_res (\<lambda>v. fold_res (try_sample F P sc current v) (turns F fuel R)) (speeds F fuel R) s = Inr s'"
    by (rule fold_res_cong_Inr) (auto simp: angle_loop_def turns_def dest: for_loop_fold)
qed

lemma try_sample_cost:
  assumes "float_order F" and "0 < num_steps P" and "\<not> allow_pub P"
  shows "try_sample F P sc current v k s =
    (let c = end_cost F P sc current (v, k);
         s1 = s\<lparr>sr_count := sr_count s + 1, sr_heap := sr_heap s @ [end_state F P current (v, k)]\<rparr> in
     Inr (if \<not> fp_eq F c (fp_lit F (- 1)) \<and> fp_le F c (sr_min_cost s)
          then s1\<lparr>sr_min_cost := c, sr_best := replicate (nat (num_steps P)) (length (sr_heap s)), sr_best_index := sr_count s + 1\<rparr>
          else s1))"
proof -
  obtain n where n: "nat (num_steps P) = Suc n" using assms(2) by (cases "nat (num_steps P)") auto
  define dt where "dt = fp_div F (sim_time P) (fp_int F (num_steps P))"
  have e: "end_state F P current (v, k) = (state_motion F v k dt ^^ Suc n) current" by (simp only: end_state_def n dt_def fst_conv snd_conv)
  have m: "motion_loop F v k dt (Suc n) (length (sr_heap s)) (sr_heap s @ [current]) [] =
    (sr_heap s @ [end_state F P current (v, k)], replicate (Suc n) (length (sr_heap s)))"
    unfolding e using motion_loop_visited [of "length (sr_heap s)" "sr_heap s @ [current]" F v k dt "Suc n" "[]"] by simp
  obtain d where d: "calculateCost F sc [end_state F P current (v, k)] = Inr d"
    using single_cost [of F sc "end_state F P current (v, k)"] by auto
  have c: "end_cost F P sc current (v, k) = d" by (simp add: end_cost_def d)
  have "calculateCost F sc (map ((!) (sr_heap s @ [end_state F P current (v, k)])) (replicate (Suc n) (length (sr_heap s)))) = Inr d"
    using trajectory_cost [OF assms(1) m, of sc] d e by simp
  then show ?thesis
    by (simp add: try_sample_def n m assms(3) c Let_def flip: dt_def del: replicate_Suc motion_loop.simps)
qed

text \<open>What the search holds after the candidates \<open>seen\<close>.\<close>

definition best_inv :: "'d fp \<Rightarrow> 'd gen_params \<Rightarrow> 'd score \<Rightarrow> 'd State \<Rightarrow> ('d \<times> 'd) list \<Rightarrow> 'd dwa_search \<Rightarrow> bool" where
  "best_inv F P sc current seen s \<longleftrightarrow>
     sr_heap s = map (end_state F P current) seen \<and> sr_count s = length seen \<and>
     (if sr_best s = [] then sr_min_cost s = fp_lit F 1000000 \<and> (\<forall>c \<in> set seen. \<not> admissible F P sc current c)
      else \<exists>i < length seen. sr_best s = replicate (nat (num_steps P)) i \<and>
             sr_min_cost s = end_cost F P sc current (seen ! i) \<and> admissible F P sc current (seen ! i) \<and>
             (\<forall>c \<in> set seen. admissible F P sc current c \<longrightarrow> fp_le F (sr_min_cost s) (end_cost F P sc current c)))"

lemma best_inv_step:
  assumes "float_order F" and "0 < num_steps P" and "\<not> allow_pub P" and "best_inv F P sc current seen s"
    and "try_sample F P sc current v k s = Inr s'"
  shows "best_inv F P sc current (seen @ [(v, k)]) s'"
proof -
  note lit_num = float_order.lit_num [OF assms(1)] and le_trans = float_order.le_trans [OF assms(1)] and le_num = float_order.le_num [OF assms(1)] and le_total = float_order.le_total [OF assms(1)]
    and lt_le = float_order.lt_le [OF assms(1)]
  define c where "c = end_cost F P sc current (v, k)"
  note inv = assms(4) [unfolded best_inv_def]
  have steps: "replicate (nat (num_steps P)) i \<noteq> []" for i :: nat using assms(2) by simp
  have s': "s' = (let s1 = s\<lparr>sr_count := sr_count s + 1, sr_heap := sr_heap s @ [end_state F P current (v, k)]\<rparr> in
      if \<not> fp_eq F c (fp_lit F (- 1)) \<and> fp_le F c (sr_min_cost s)
          then s1\<lparr>sr_min_cost := c, sr_best := replicate (nat (num_steps P)) (length (sr_heap s)), sr_best_index := sr_count s + 1\<rparr>
          else s1)"
    using assms(5) unfolding try_sample_cost [OF assms(1-3)] Let_def c_def by (simp only: sum.inject)
  show ?thesis
  proof (cases "\<not> fp_eq F c (fp_lit F (- 1)) \<and> fp_le F c (sr_min_cost s)")
    case True
    have top: "fp_le F (sr_min_cost s) (fp_lit F 1000000)" using inv lit_num by (auto simp: admissible_def split: if_splits)
    then have adm: "admissible F P sc current (v, k)" using True le_trans by (auto simp: admissible_def c_def)
    have "fp_le F c c" using True le_num by blast
    moreover have "fp_le F c (end_cost F P sc current d)" if "d \<in> set seen" "admissible F P sc current d" for d
      using inv that True le_trans by (auto split: if_splits)
    ultimately show ?thesis using True s' inv adm steps by (auto simp: best_inv_def c_def nth_append)
  next
    case False
    have new: "fp_le F (sr_min_cost s) c" if "sr_best s \<noteq> []" "admissible F P sc current (v, k)"
      using False that inv le_total le_num lt_le by (auto simp: admissible_def c_def split: if_splits) metis+
    have no: "\<not> admissible F P sc current (v, k)" if "sr_best s = []"
      using False that inv by (auto simp: admissible_def c_def)
    have s1: "s' = s\<lparr>sr_count := sr_count s + 1, sr_heap := sr_heap s @ [end_state F P current (v, k)]\<rparr>"
      unfolding s' Let_def if_not_P [OF False] ..
    show ?thesis
    proof (cases "sr_best s = []")
      case True
      then show ?thesis using s1 inv no by (auto simp: best_inv_def)
    next
      case best: False
      then obtain i where i: "i < length seen" "sr_best s = replicate (nat (num_steps P)) i"
        "sr_min_cost s = end_cost F P sc current (seen ! i)" "admissible F P sc current (seen ! i)"
        "\<forall>c \<in> set seen. admissible F P sc current c \<longrightarrow> fp_le F (sr_min_cost s) (end_cost F P sc current c)"
        using inv by auto
      then have "i < length (seen @ [(v, k)])" "(seen @ [(v, k)]) ! i = seen ! i" by (simp_all add: nth_append)
      then show ?thesis using best i inv s1 new [OF best] by (auto simp: best_inv_def c_def intro!: exI [of _ i])
    qed
  qed
qed

lemma best_inv_fold:
  assumes "float_order F" and "0 < num_steps P" and "\<not> allow_pub P" and "best_inv F P sc current seen s"
    and "fold_res (\<lambda>c. try_sample F P sc current (fst c) (snd c)) cs s = Inr s'"
  shows "best_inv F P sc current (seen @ cs) s'"
  using assms(4,5)
proof (induction cs arbitrary: seen s)
  case (Cons c cs)
  obtain s1 where s1: "try_sample F P sc current (fst c) (snd c) s = Inr s1"
    "fold_res (\<lambda>c. try_sample F P sc current (fst c) (snd c)) cs s1 = Inr s'"
    using Cons.prems(2) by (auto split: sum.splits)
  have "best_inv F P sc current (seen @ [(fst c, snd c)]) s1"
    by (rule best_inv_step [OF assms(1-3) Cons.prems(1) s1(1)])
  then show ?case using Cons.IH [OF _ s1(2)] by force
qed simp

definition stopped :: "'d fp \<Rightarrow> 'd State \<Rightarrow> 'd State" where
  "stopped F s = s\<lparr>st_velocity := fp_lit F 0, st_yawrate := fp_lit F 0\<rparr>"

lemma start_cost: "float_order F \<Longrightarrow> fp_eq F (fp_lit F q) (fp_lit F q)"
  by (simp add: float_order.eq_le float_order.lit_num)

lemma generate_cases:
  assumes "float_order F" and "0 < num_steps P" and "\<not> allow_pub P"
    and "generateTrajectory F fuel Y P current last_goal local_goal allow_back limit obs = Inr (heap, traj)"
  defines "sc \<equiv> score_readYaml F Y last_goal local_goal obs"
    and "cs \<equiv> candidates F fuel (sample_ranges F P current allow_back limit)"
  shows "traj \<noteq> [] \<and> hd traj < length heap \<and>
    ((\<forall>c \<in> set cs. \<not> admissible F P sc current c) \<and> heap ! hd traj = stopped F current \<or>
     (\<exists>c \<in> set cs. admissible F P sc current c \<and> heap ! hd traj = end_state F P current c \<and>
        (\<forall>d \<in> set cs. admissible F P sc current d \<longrightarrow> fp_le F (end_cost F P sc current c) (end_cost F P sc current d))))"
proof -
  define s0 where "s0 = \<lparr>sr_heap = [], sr_min_cost = fp_lit F 1000000, sr_best = [], sr_best_index = 0, sr_count = 0\<rparr>"
  obtain s where s: "search_loop F fuel P sc current (sample_ranges F P current allow_back limit) s0 = Inr s"
    and r: "(heap, traj) = (if fp_eq F (sr_min_cost s) (fp_lit F 1000000)
       then (sr_heap s @ [stopped F current], sr_best s @ [length (sr_heap s)]) else (sr_heap s, sr_best s))"
    using assms(4) by (auto simp: generateTrajectory_def Let_def sc_def s0_def stopped_def split: sum.splits if_splits)
  have "best_inv F P sc current [] s0" by (simp add: best_inv_def s0_def)
  from best_inv_fold [OF assms(1-3) this search_loop_candidates [OF s]]
  have inv: "best_inv F P sc current cs s" by (simp add: cs_def)
  have steps: "0 < nat (num_steps P)" using assms(2) by simp
  show ?thesis
  proof (cases "sr_best s = []")
    case True
    then show ?thesis using inv r start_cost [OF assms(1)] by (auto simp: best_inv_def nth_append)
  next
    case False
    then obtain i where i: "i < length cs" "sr_best s = replicate (nat (num_steps P)) i" "sr_heap s = map (end_state F P current) cs"
      "sr_min_cost s = end_cost F P sc current (cs ! i)" "admissible F P sc current (cs ! i)"
      "\<forall>c \<in> set cs. admissible F P sc current c \<longrightarrow> fp_le F (sr_min_cost s) (end_cost F P sc current c)"
      using inv by (auto simp: best_inv_def)
    have "traj \<noteq> []" "hd traj = i" "heap ! i = end_state F P current (cs ! i)" "i < length heap"
      using r i False steps by (auto simp: nth_append split: if_splits)
    then show ?thesis using i nth_mem [OF i(1)] by auto
  qed
qed

lemma generate_allow_pub:
  assumes "float_order F" and "allow_pub P"
    and "generateTrajectory F fuel Y P current last_goal local_goal allow_back limit obs = Inr (heap, traj)"
  shows "(heap, traj) = ([stopped F current], [0])"
proof -
  define s0 where "s0 = \<lparr>sr_heap = [], sr_min_cost = fp_lit F 1000000, sr_best = [], sr_best_index = 0, sr_count = 0\<rparr>"
  have step: "try_sample F P sc current v k s = Inr (s\<lparr>sr_count := sr_count s + 1\<rparr>)" for sc v k s
    using assms(2) by (simp add: try_sample_def)
  obtain s sc where s: "search_loop F fuel P sc current (sample_ranges F P current allow_back limit) s0 = Inr s"
    and r: "(heap, traj) = (if fp_eq F (sr_min_cost s) (fp_lit F 1000000)
       then (sr_heap s @ [stopped F current], sr_best s @ [length (sr_heap s)]) else (sr_heap s, sr_best s))"
    using assms(3) by (auto simp: generateTrajectory_def Let_def s0_def stopped_def split: sum.splits if_splits)
  have "sr_heap s = [] \<and> sr_best s = [] \<and> sr_min_cost s = fp_lit F 1000000"
    by (rule fold_res_invariant [OF search_loop_candidates [OF s]]) (auto simp: s0_def step)
  then show ?thesis using r start_cost [OF assms(1)] by simp
qed

lemma ranges_bounds:
  fixes F :: "'d fp" and P :: "'d gen_params" and current :: "'d State" and allow_back :: bool and limit :: 'd
  assumes "float_order F"
  defines "R \<equiv> sample_ranges F P current allow_back limit"
  shows "fp_le F v (rg_max_vel_x R) \<Longrightarrow> fp_le F v (max_vel_x P)"
    and "fp_le F v (rg_max_vel_x R) \<Longrightarrow> fp_le F (fp_lit F (1 / 100000000)) (fp_abs F limit) \<Longrightarrow> fp_le F limit limit \<Longrightarrow> fp_le F v limit"
    and "fp_le F (rg_min_vel_x R) v \<Longrightarrow> \<not> allow_back \<Longrightarrow> fp_le F (fp_lit F 0) v"
    and "fp_le F k (rg_max_vel_theta R) \<Longrightarrow> fp_le F k (max_vel_theta P)"
    and "fp_le F (rg_step_x R) (rg_step_x R) \<Longrightarrow> fp_le F (fp_lit F 0) (rg_step_x R)"
proof -
  note lit_num = float_order.lit_num [OF assms(1)] and le_trans = float_order.le_trans [OF assms(1)] and min_le1 = float_order.min_le1 [OF assms(1)] and min_le2 = float_order.min_le2 [OF assms(1)] and max_ge2 = float_order.max_ge2 [OF assms(1)]
    and lit_le = float_order.lit_le [OF assms(1)]
  show "fp_le F v (rg_max_vel_x R) \<Longrightarrow> fp_le F v (max_vel_x P)"
    by (auto simp: R_def sample_ranges_def Let_def split: if_splits dest: min_le1)
  show "fp_le F v (rg_max_vel_x R) \<Longrightarrow> fp_le F (fp_lit F (1 / 100000000)) (fp_abs F limit) \<Longrightarrow> fp_le F limit limit \<Longrightarrow> fp_le F v limit"
    by (auto simp: R_def sample_ranges_def Let_def dest: min_le2)
  show "fp_le F (rg_min_vel_x R) v \<Longrightarrow> \<not> allow_back \<Longrightarrow> fp_le F (fp_lit F 0) v"
    by (auto simp: R_def sample_ranges_def Let_def dest: max_ge2 [OF lit_num])
  show "fp_le F k (rg_max_vel_theta R) \<Longrightarrow> fp_le F k (max_vel_theta P)"
    by (auto simp: R_def sample_ranges_def Let_def dest: min_le1)
  have "fp_le F a a \<Longrightarrow> fp_le F (fp_lit F 0) (std_max F b (fp_lit F (1 / 10)))" if "a = std_max F b (fp_lit F (1 / 10))" for a b
    using that max_ge2 [OF lit_num, of b "1 / 10" a] le_trans [OF lit_le [of 0 "1 / 10"]] by simp
  then show "fp_le F (rg_step_x R) (rg_step_x R) \<Longrightarrow> fp_le F (fp_lit F 0) (rg_step_x R)"
    by (simp add: R_def sample_ranges_def Let_def sample_step_def)
qed

lemma speeds_bounds:
  assumes "float_order F" and "v \<in> set (speeds F fuel (sample_ranges F P current allow_back limit))"
  shows "fp_le F v (max_vel_x P)"
    and "fp_le F (fp_lit F (1 / 100000000)) (fp_abs F limit) \<Longrightarrow> fp_le F limit limit \<Longrightarrow> fp_le F v limit"
    and "\<not> allow_back \<Longrightarrow> fp_le F (fp_lit F 0) v"
proof -
  note le_num = float_order.le_num [OF assms(1)] and visited_ge = float_order.visited_ge [OF assms(1)]
  define R where "R = sample_ranges F P current allow_back limit"
  have v: "v \<in> set (visited_values F (\<lambda>v. fp_add F v (rg_step_x R)) (rg_max_vel_x R) fuel (rg_min_vel_x R))"
    using assms(2) by (simp add: speeds_def R_def)
  note up = visited_le [OF v]
  show "fp_le F v (max_vel_x P)" using ranges_bounds(1) [OF assms(1)] up by (auto simp: R_def)
  show "fp_le F (fp_lit F (1 / 100000000)) (fp_abs F limit) \<Longrightarrow> fp_le F limit limit \<Longrightarrow> fp_le F v limit"
    using ranges_bounds(2) [OF assms(1)] up by (auto simp: R_def)
  have "fp_le F (rg_min_vel_x R) (rg_min_vel_x R)" using v le_num by (cases fuel) (auto split: if_splits)
  from visited_ge [OF _ this v] ranges_bounds(5) [OF assms(1)]
  have "fp_le F (rg_min_vel_x R) v" by (auto simp: R_def)
  then show "\<not> allow_back \<Longrightarrow> fp_le F (fp_lit F 0) v" using ranges_bounds(3) [OF assms(1)] by (auto simp: R_def)
qed

lemma ranges_step_theta:
  fixes F :: "'d fp" and P :: "'d gen_params" and current :: "'d State" and allow_back :: bool and limit :: 'd
  assumes "float_order F"
  defines "R \<equiv> sample_ranges F P current allow_back limit"
  assumes "fp_le F (rg_step_theta R) (rg_step_theta R)"
  shows "fp_le F (fp_lit F 0) (rg_step_theta R)"
proof -
  have e: "rg_step_theta R = std_max F b (fp_lit F (5 / 100)) \<Longrightarrow> fp_le F (fp_lit F 0) (rg_step_theta R)" for b
    using assms(3) float_order.max_ge2 [OF assms(1) float_order.lit_num [OF assms(1)], of b "5 / 100" "rg_step_theta R"]
      float_order.le_trans [OF assms(1) float_order.lit_le [OF assms(1), of 0 "5 / 100"]] by simp
  show ?thesis by (rule e) (simp add: R_def sample_ranges_def Let_def sample_step_def)
qed


text \<open>
  The limits that a commanded pair of velocities keeps, given the measured velocities \<open>v0\<close> and \<open>w0\<close>: the
  configured maxima and minima, the limit of the operator, and what the configured accelerations reach in the
  simulated time. A lower limit binds unless it is above everything that may be commanded at all, because the operator
  asks for less or because the measured velocity is too far below it.
\<close>

definition top_speed :: "'d fp \<Rightarrow> 'd gen_params \<Rightarrow> 'd \<Rightarrow> 'd \<Rightarrow> 'd" where
  "top_speed F P limit v0 =
     (let m = std_min F (max_vel_x P) (fp_add F v0 (fp_mul F (acc_lim_x P) (sim_time P)))
      in if fp_le F (fp_lit F (1 / 100000000)) (fp_abs F limit) then std_min F m limit else m)"

definition top_turn :: "'d fp \<Rightarrow> 'd gen_params \<Rightarrow> 'd \<Rightarrow> 'd" where
  "top_turn F P w0 = std_min F (max_vel_theta P) (fp_add F w0 (fp_mul F (acc_lim_theta P) (sim_time P)))"

definition not_below :: "'d fp \<Rightarrow> 'd \<Rightarrow> 'd \<Rightarrow> 'd \<Rightarrow> bool" where
  "not_below F hi low x \<longleftrightarrow> fp_le F low x \<or> fp_lt F hi low"

definition is_number :: "'d fp \<Rightarrow> 'd \<Rightarrow> bool" where
  "is_number F x \<longleftrightarrow> fp_le F x x"

definition within_limits :: "'d fp \<Rightarrow> 'd gen_params \<Rightarrow> bool \<Rightarrow> 'd \<Rightarrow> 'd \<Rightarrow> 'd \<Rightarrow> 'd \<Rightarrow> 'd \<Rightarrow> bool" where
  "within_limits F P allow_back limit v0 w0 v w \<longleftrightarrow>
     v = fp_lit F 0 \<and> w = fp_lit F 0 \<or>
     fp_le F v (max_vel_x P) \<and> not_below F (top_speed F P limit v0) (min_vel_x P) v \<and>
     fp_le F w (max_vel_theta P) \<and> not_below F (top_turn F P w0) (min_vel_theta P) w \<and>
     (allow_back \<or> fp_le F (fp_lit F 0) v) \<and>
     (fp_le F (fp_lit F (1 / 100000000)) (fp_abs F limit) \<and> is_number F limit \<longrightarrow> fp_le F v limit) \<and>
     (let fastest = fp_add F v0 (fp_mul F (acc_lim_x P) (sim_time P));
          slowest = fp_add F v0 (fp_mul F (deacc_lim_x P) (sim_time P))
      in (is_number F fastest \<longrightarrow> fp_le F v fastest) \<and>
         (is_number F slowest \<longrightarrow> not_below F (top_speed F P limit v0) slowest v)) \<and>
     (let most = fp_add F w0 (fp_mul F (acc_lim_theta P) (sim_time P));
          least = fp_add F w0 (fp_mul F (deacc_lim_theta P) (sim_time P))
      in (is_number F most \<longrightarrow> fp_le F w most) \<and>
         (is_number F least \<longrightarrow> not_below F (top_turn F P w0) least w))"

text \<open>The ranges of the search are these.\<close>

lemma ranges_top:
  fixes F :: "'d fp" and P :: "'d gen_params" and current :: "'d State" and allow_back :: bool and limit :: 'd
  defines "R \<equiv> sample_ranges F P current allow_back limit"
  shows "rg_max_vel_x R = top_speed F P limit (st_velocity current)"
    and "rg_max_vel_theta R = top_turn F P (st_yawrate current)"
  by (simp_all add: R_def sample_ranges_def top_speed_def top_turn_def Let_def)

lemma turns_limits:
  assumes "float_order F" and "w \<in> set (turns F fuel (sample_ranges F P current allow_back limit))"
  defines "w0 \<equiv> st_yawrate current"
  shows "fp_le F w (max_vel_theta P)" and "not_below F (top_turn F P w0) (min_vel_theta P) w"
    and "is_number F (fp_add F w0 (fp_mul F (acc_lim_theta P) (sim_time P))) \<Longrightarrow>
      fp_le F w (fp_add F w0 (fp_mul F (acc_lim_theta P) (sim_time P)))"
    and "is_number F (fp_add F w0 (fp_mul F (deacc_lim_theta P) (sim_time P))) \<Longrightarrow>
      not_below F (top_turn F P w0) (fp_add F w0 (fp_mul F (deacc_lim_theta P) (sim_time P))) w"
proof -
  define R where "R = sample_ranges F P current allow_back limit"
  have v: "w \<in> set (visited_values F (\<lambda>v. fp_add F v (rg_step_theta R)) (rg_max_vel_theta R) fuel (rg_min_vel_theta R))"
    using assms(2) by (simp add: turns_def R_def)
  have up: "fp_le F w (top_turn F P w0)" using visited_le [OF v] by (simp add: R_def ranges_top w0_def)
  show "fp_le F w (max_vel_theta P)" using up float_order.min_le1 [OF assms(1)] by (auto simp: top_turn_def)
  show "is_number F (fp_add F w0 (fp_mul F (acc_lim_theta P) (sim_time P))) \<Longrightarrow>
      fp_le F w (fp_add F w0 (fp_mul F (acc_lim_theta P) (sim_time P)))"
    using up float_order.min_le2 [OF assms(1)] by (auto simp: top_turn_def is_number_def)
  have "fp_le F (rg_min_vel_theta R) (rg_min_vel_theta R)"
    using v float_order.le_num [OF assms(1)] by (cases fuel) (auto split: if_splits)
  from float_order.visited_ge [OF assms(1) _ this v]
  have "fp_le F (rg_min_vel_theta R) w" using ranges_step_theta [OF assms(1)] by (auto simp: R_def)
  then have low: "fp_le F (std_min F (std_max F (min_vel_theta P) (fp_add F w0 (fp_mul F (deacc_lim_theta P) (sim_time P)))) (top_turn F P w0)) w"
    by (simp add: R_def sample_ranges_def top_turn_def w0_def Let_def)
  note w = float_order.window_low [OF assms(1) low]
  show "not_below F (top_turn F P w0) (min_vel_theta P) w" using w(1) by (simp add: not_below_def)
  show "is_number F (fp_add F w0 (fp_mul F (deacc_lim_theta P) (sim_time P))) \<Longrightarrow>
      not_below F (top_turn F P w0) (fp_add F w0 (fp_mul F (deacc_lim_theta P) (sim_time P))) w"
    using w(2) by (simp add: not_below_def is_number_def)
qed

lemma speeds_limits:
  assumes "float_order F" and "v \<in> set (speeds F fuel (sample_ranges F P current allow_back limit))"
  defines "v0 \<equiv> st_velocity current"
  shows "not_below F (top_speed F P limit v0) (min_vel_x P) v"
    and "is_number F (fp_add F v0 (fp_mul F (acc_lim_x P) (sim_time P))) \<Longrightarrow>
      fp_le F v (fp_add F v0 (fp_mul F (acc_lim_x P) (sim_time P)))"
    and "is_number F (fp_add F v0 (fp_mul F (deacc_lim_x P) (sim_time P))) \<Longrightarrow>
      not_below F (top_speed F P limit v0) (fp_add F v0 (fp_mul F (deacc_lim_x P) (sim_time P))) v"
proof -
  define R where "R = sample_ranges F P current allow_back limit"
  have v: "v \<in> set (visited_values F (\<lambda>v. fp_add F v (rg_step_x R)) (rg_max_vel_x R) fuel (rg_min_vel_x R))"
    using assms(2) by (simp add: speeds_def R_def)
  have up: "fp_le F v (top_speed F P limit v0)" using visited_le [OF v] by (simp add: R_def ranges_top v0_def)
  then have "fp_le F v (std_min F (max_vel_x P) (fp_add F v0 (fp_mul F (acc_lim_x P) (sim_time P))))"
    using float_order.min_le1 [OF assms(1)] by (auto simp: top_speed_def Let_def split: if_splits)
  then show "is_number F (fp_add F v0 (fp_mul F (acc_lim_x P) (sim_time P))) \<Longrightarrow>
      fp_le F v (fp_add F v0 (fp_mul F (acc_lim_x P) (sim_time P)))"
    using float_order.min_le2 [OF assms(1)] by (auto simp: is_number_def)
  have "fp_le F (rg_min_vel_x R) (rg_min_vel_x R)"
    using v float_order.le_num [OF assms(1)] by (cases fuel) (auto split: if_splits)
  from float_order.visited_ge [OF assms(1) _ this v] ranges_bounds(5) [OF assms(1)]
  have "fp_le F (rg_min_vel_x R) v" by (auto simp: R_def)
  moreover have "rg_min_vel_x R =
    (let m = std_min F (std_max F (min_vel_x P) (fp_add F v0 (fp_mul F (deacc_lim_x P) (sim_time P)))) (top_speed F P limit v0)
     in if \<not> allow_back then std_max F m (fp_lit F 0) else m)"
    by (simp add: R_def sample_ranges_def top_speed_def v0_def Let_def)
  ultimately have low: "fp_le F (std_min F (std_max F (min_vel_x P) (fp_add F v0 (fp_mul F (deacc_lim_x P) (sim_time P)))) (top_speed F P limit v0)) v"
    using float_order.max_ge1 [OF assms(1)] by (auto simp: Let_def split: if_splits)
  note w = float_order.window_low [OF assms(1) low]
  show "not_below F (top_speed F P limit v0) (min_vel_x P) v" using w(1) by (simp add: not_below_def)
  show "is_number F (fp_add F v0 (fp_mul F (deacc_lim_x P) (sim_time P))) \<Longrightarrow>
      not_below F (top_speed F P limit v0) (fp_add F v0 (fp_mul F (deacc_lim_x P) (sim_time P))) v"
    using w(2) by (simp add: not_below_def is_number_def)
qed

lemma generate_within_limits:
  assumes "float_order F" and "0 < num_steps P"
    and "generateTrajectory F fuel Y P current last_goal local_goal allow_back limit obs = Inr (heap, traj)"
  shows "traj \<noteq> [] \<and> hd traj < length heap \<and>
    within_limits F P allow_back limit (st_velocity current) (st_yawrate current)
      (st_velocity (heap ! hd traj)) (st_yawrate (heap ! hd traj))"
proof (cases "allow_pub P")
  case True
  then show ?thesis using generate_allow_pub [OF assms(1) True assms(3)] by (simp add: within_limits_def stopped_def)
next
  case False
  define cs where "cs = candidates F fuel (sample_ranges F P current allow_back limit)"
  have ok: "within_limits F P allow_back limit (st_velocity current) (st_yawrate current) (fst c) (snd c)" if c: "c \<in> set cs" for c
  proof -
    have v: "fst c \<in> set (speeds F fuel (sample_ranges F P current allow_back limit))"
      and w: "snd c \<in> set (turns F fuel (sample_ranges F P current allow_back limit))"
      using c by (simp_all add: cs_def candidates_set)
    show ?thesis
      using speeds_bounds [OF assms(1) v] speeds_limits [OF assms(1) v] turns_limits [OF assms(1) w]
      unfolding within_limits_def Let_def is_number_def by blast
  qed
  have stop: "within_limits F P allow_back limit v0 w0 (fp_lit F 0) (fp_lit F 0)" for v0 w0 by (simp add: within_limits_def)
  show ?thesis
    using generate_cases [OF assms(1,2) False assms(3)] ok stop
    by (auto simp: stopped_def end_state_speeds [OF assms(2)] simp flip: cs_def)
qed

text \<open>
  What the search commands is to stop, or a pair of velocities within the limits of the configuration, of the operator
  and of the accelerations, and not backwards unless that is allowed.
\<close>

theorem commands_limited:
  assumes "float_order F" and "0 < num_steps P"
    and "generateTrajectory F fuel Y P current last_goal local_goal allow_back limit obs = Inr (heap, traj)"
  shows "traj \<noteq> [] \<and> hd traj < length heap \<and>
    within_limits F P allow_back limit (st_velocity current) (st_yawrate current)
      (st_velocity (heap ! hd traj)) (st_yawrate (heap ! hd traj))"
  using assms by (rule generate_within_limits)

text \<open>
  With the publication of trajectories switched on, as in BaseParam.yaml, no candidate is ever scored and the robot is told to stop.
\<close>

theorem published_search_stops:
  assumes "float_order F" and "allow_pub P"
    and "generateTrajectory F fuel Y P current last_goal local_goal allow_back limit obs = Inr (heap, traj)"
  shows "st_velocity (heap ! hd traj) = fp_lit F 0 \<and> st_yawrate (heap ! hd traj) = fp_lit F 0"
  using generate_allow_pub [OF assms] by (simp add: stopped_def)

subsection \<open>The search ends\<close>

lemma sample_step_covers:
  assumes "0 < (least :: rat)" and "max 2 n \<le> int fuel"
  shows "hi - lo < of_nat fuel * sample_step (exact_fp cs sn sq an) hi lo n least"
proof -
  define m where "m = max 1 (n - 1)"
  define s where "s = sample_step (exact_fp cs sn sq an) hi lo n least"
  have s: "s = max ((hi - lo) / of_int m) least" by (simp add: s_def sample_step_def m_def)
  have m: "0 < (of_int m :: rat)" "of_int m + 1 \<le> (of_nat fuel :: rat)"
  proof -
    have "m + 1 \<le> int fuel" using assms(2) unfolding m_def by arith
    then have "(of_int (m + 1) :: rat) \<le> of_int (int fuel)" by (simp only: of_int_le_iff)
    then show "of_int m + 1 \<le> (of_nat fuel :: rat)" by simp
  qed (simp add: m_def)
  have pos: "0 < s" using assms(1) s by (simp add: less_max_iff_disj)
  have "(hi - lo) / of_int m \<le> s" using s by simp
  then have "hi - lo \<le> of_int m * s" using m(1) by (simp add: pos_divide_le_eq mult.commute)
  also have "\<dots> < (of_int m + 1) * s" using pos by (simp add: algebra_simps)
  also have "\<dots> \<le> of_nat fuel * s" using m(2) pos by (intro mult_right_mono) auto
  finally show ?thesis by (simp add: s_def)
qed

lemma try_sample_returns: "float_order F \<Longrightarrow> 0 < num_steps P \<Longrightarrow> \<exists>s'. try_sample F P sc current v k s = Inr s'"
  by (cases "allow_pub P") (simp_all add: try_sample_cost Let_def, simp add: try_sample_def)

lemma generate_returns:
  assumes "0 < num_steps P" and "max 2 (num_samples_x P) \<le> int fuel" and "max 2 (num_samples_theta P) \<le> int fuel"
  shows "\<exists>r. generateTrajectory (exact_fp cs sn sq an) fuel Y P current last_goal local_goal allow_back limit obs = Inr r"
proof -
  let ?F = "exact_fp cs sn sq an"
  define R where "R = sample_ranges ?F P current allow_back limit"
  have "\<exists>s'. try_sample ?F P sc current v k s = Inr s'" for sc v k s
    by (rule try_sample_returns [OF exact.float_order_axioms assms(1)])
  moreover have "rg_max_vel_theta R - rg_min_vel_theta R < of_nat fuel * rg_step_theta R"
    using sample_step_covers [OF _ assms(3), of "5 / 100"] by (simp add: R_def sample_ranges_def Let_def)
  ultimately have "\<exists>s'. angle_loop ?F fuel P sc current R v s = Inr s'" for sc v s
    unfolding angle_loop_def by (rule exact_loop_returns [rotated])
  moreover have "rg_max_vel_x R - rg_min_vel_x R < of_nat fuel * rg_step_x R"
    using sample_step_covers [OF _ assms(2), of "1 / 10"] by (simp add: R_def sample_ranges_def Let_def)
  ultimately have "\<exists>s'. search_loop ?F fuel P sc current R s = Inr s'" for sc s
    unfolding search_loop_def by (rule exact_loop_returns [rotated])
  then obtain s' where "search_loop ?F fuel P (score_readYaml ?F Y last_goal local_goal obs) current R
    \<lparr>sr_heap = [], sr_min_cost = fp_lit ?F 1000000, sr_best = [], sr_best_index = 0, sr_count = 0\<rparr> = Inr s'" by blast
  then show ?thesis unfolding generateTrajectory_def Let_def R_def [symmetric] by simp
qed

text \<open>
  The search over the sampled velocities ends: with exact sums it visits no more speeds and no more turns than are
  configured, or two, so as many rounds of fuel are enough.
\<close>

theorem search_ends:
  assumes "0 < num_steps P" and "max 2 (num_samples_x P) \<le> int fuel" and "max 2 (num_samples_theta P) \<le> int fuel"
  shows "\<exists>heap traj. generateTrajectory (exact_fp cs sn sq an) fuel Y P current last_goal local_goal allow_back limit obs = Inr (heap, traj)"
  using generate_returns [OF assms] by fast

subsection \<open>A drive along a line\<close>

text \<open>
  A robot without extent drives along the x axis with speed two, in two steps of a second, to a goal four ahead; an obstacle
  lies in the middle. Only the square roots of small squares are needed.
\<close>

definition line_fp :: "rat fp" where
  "line_fp = exact_fp (\<lambda>x. 1) (\<lambda>x. 0) (\<lambda>q. if q = 4 then 2 else if q = 16 then 4 else q) (\<lambda>y x. 0)"

definition line_yaml :: "rat yaml" where
  "line_yaml =
     \<lparr>y_double = map_of [([''kinematic'', ''max_vel'', ''max_vel_x''], 2), ([''kinematic'', ''min_vel'', ''min_vel_x''], 0),
        ([''kinematic'', ''max_vel'', ''max_vel_y''], 0), ([''kinematic'', ''min_vel'', ''min_vel_y''], 0),
        ([''kinematic'', ''max_acc'', ''max_acc_x''], 0), ([''kinematic'', ''max_acc'', ''max_acc_y''], 0),
        ([''kinematic'', ''acc_w''], 0), ([''kinematic'', ''deacc_w''], 0), ([''kinematic'', ''deacc_v'', ''deacc_v_x''], 0),
        ([''kinematic'', ''deacc_v'', ''deacc_v_y''], 0), ([''kinematic'', ''min_w''], - 1), ([''kinematic'', ''max_w''], 1),
        ([''simulate'', ''sim_time''], 2)],
      y_float = map_of [([''evaluate'', ''path_bias''], 1), ([''evaluate'', ''goal_bias''], 1), ([''evaluate'', ''obs_bias''], 1),
        ([''evaluate'', ''speed_bias''], 1), ([''robot'', ''width''], 0), ([''robot'', ''length''], 0),
        ([''simulate'', ''min_obs_dist''], 1 / 2), ([''simulate'', ''target_vel''], 2), ([''simulate'', ''thresh_vel''], 3)],
      y_int = map_of [([''simulate'', ''num_vel''], 1), ([''simulate'', ''num_w''], 1), ([''simulate'', ''num_steps''], 2)],
      y_bool = map_of [([''simulate'', ''allow_pub''], False)], y_string = Map.empty\<rparr>"

definition line_start :: "rat State" where
  "line_start = \<lparr>st_x = 0, st_y = 0, st_yaw = 0, st_velocity = 2, st_yawrate = 0\<rparr>"

definition line_params :: "rat gen_params" where
  "line_params = gen_readYaml line_fp line_yaml"

lemma line_search:
  "generateTrajectory line_fp 2 line_yaml line_params line_start (0, 0, 0) (4, 0, 0) False 0 (Some [(2, 0)]) =
     Inr ([line_start\<lparr>st_x := 4\<rparr>], [0, 0])"
  by code_simp

lemma line_order: "float_order line_fp"
  unfolding line_fp_def by (rule exact.float_order_axioms)

lemma line_steps: "num_steps line_params = 2" "\<not> allow_pub line_params" "num_samples_x line_params = 1" "num_samples_theta line_params = 1"
  "max_vel_x line_params = 2"
  by code_simp+

text \<open>
  The obstacle in the middle does not stop the drive: the search commands full speed towards the goal, although the
  states that the robot passes through, scored as a trajectory, are a collision.
\<close>

theorem obstacle_on_the_way_missed:
  "\<exists>heap traj. generateTrajectory line_fp 2 line_yaml line_params line_start (0, 0, 0) (4, 0, 0) False 0 (Some [(2, 0)]) = Inr (heap, traj) \<and>
     st_velocity (heap ! hd traj) = 2 \<and>
     calculateCost line_fp (score_readYaml line_fp line_yaml (0, 0, 0) (4, 0, 0) (Some [(2, 0)]))
       [state_motion line_fp 2 0 1 line_start, state_motion line_fp 2 0 1 (state_motion line_fp 2 0 1 line_start)] = Inr (- 1)"
proof -
  have "calculateCost line_fp (score_readYaml line_fp line_yaml (0, 0, 0) (4, 0, 0) (Some [(2, 0)]))
       [state_motion line_fp 2 0 1 line_start, state_motion line_fp 2 0 1 (state_motion line_fp 2 0 1 line_start)] = Inr (- 1)"
    by code_simp
  then show ?thesis using line_search by (auto simp: line_start_def)
qed

theorem only_end_state_scored_witness:
  "\<exists>heap traj. motion_loop line_fp 2 0 1 (Suc 1) (length ([] :: rat State list)) ([] @ [line_start]) [] = (heap, traj) \<and>
     calculateCost line_fp (score_readYaml line_fp line_yaml (0, 0, 0) (4, 0, 0) (Some [(2, 0)])) (map ((!) heap) traj) =
     calculateCost line_fp (score_readYaml line_fp line_yaml (0, 0, 0) (4, 0, 0) (Some [(2, 0)]))
       [(state_motion line_fp 2 0 1 ^^ Suc 1) line_start]"
proof -
  obtain heap traj where m: "motion_loop line_fp 2 0 1 (Suc 1) (length ([] :: rat State list)) ([] @ [line_start]) [] = (heap, traj)" by fastforce
  from only_end_state_scored [OF line_order m] m show ?thesis by blast
qed


theorem commands_limited_witness:
  "\<exists>heap traj. generateTrajectory line_fp 2 line_yaml line_params line_start (0, 0, 0) (4, 0, 0) False 0 (Some [(2, 0)]) = Inr (heap, traj) \<and>
     within_limits line_fp line_params False 0 (st_velocity line_start) (st_yawrate line_start) (st_velocity (heap ! hd traj)) (st_yawrate (heap ! hd traj))"
  using commands_limited [OF line_order _ line_search] line_steps(1) line_search by fastforce

text \<open>
  The lower limit of the turn does not bind when the robot already turns faster than that: the only turn that is tried is
  then the slowest that the acceleration reaches, here $-4$ where the minimum is $-1$.
\<close>

theorem turn_below_minimum:
  "min_vel_theta line_params = - 1 \<and>
   generateTrajectory line_fp 2 line_yaml (line_params\<lparr>acc_lim_theta := 1, deacc_lim_theta := - 1, sim_time := 1\<rparr>)
     (line_start\<lparr>st_yawrate := - 5\<rparr>) (0, 0, 0) (4, 0, 0) False 0 None =
     Inr ([\<lparr>st_x = 2, st_y = 0, st_yaw = - 4, st_velocity = 2, st_yawrate = - 4\<rparr>], [0, 0])"
  by code_simp

theorem published_search_stops_witness:
  "\<exists>heap traj. generateTrajectory line_fp 2 line_yaml (line_params\<lparr>allow_pub := True\<rparr>) line_start (0, 0, 0) (4, 0, 0) False 0
       (Some [(2, 0)]) = Inr (heap, traj) \<and> st_velocity (heap ! hd traj) = 0"
proof -
  obtain heap traj where g: "generateTrajectory line_fp 2 line_yaml (line_params\<lparr>allow_pub := True\<rparr>) line_start (0, 0, 0) (4, 0, 0) False 0
       (Some [(2, 0)]) = Inr (heap, traj)"
    using generate_returns [of "line_params\<lparr>allow_pub := True\<rparr>" 2] line_steps unfolding line_fp_def by fastforce
  from published_search_stops [OF line_order _ g] g show ?thesis by (auto simp: line_fp_def)
qed

theorem search_ends_witness:
  "\<exists>heap traj. generateTrajectory (exact_fp (\<lambda>x. 1) (\<lambda>x. 0) (\<lambda>q. q) (\<lambda>y x. 0)) 2 line_yaml line_params line_start
     (0, 0, 0) (4, 0, 0) False 0 None = Inr (heap, traj)"
  by (rule search_ends) (simp_all add: line_steps)

end
