(* ===== verification/DwaPlanner.thy ===== *)
theory DwaPlanner
  imports DwaTraj
begin

text \<open>
  The node of the local planner, src/LocalPlanner: BaseDwaPlanner.cpp with what CarDwaPlanner.cpp
  overrides. The node is a record of the members that its callbacks, its timer and its planning thread share. A step is
  one callback, one expiry of the timer or one round of the planning loop; a run is any sequence of them, and its output
  is the sequence of published velocities. The planning thread runs beside the thread of the callbacks and takes no lock;
  here a round is one step.
\<close>

subsection \<open>Messages and state\<close>

record 'd Quaternion =
  q_x :: 'd
  q_y :: 'd
  q_z :: 'd
  q_w :: 'd

record 'd Pose =
  pos_x :: 'd
  pos_y :: 'd
  orientation :: "'d Quaternion"

record 'd Odometry =
  frame_id :: string
  linear_x :: 'd
  angular_z :: 'd

record 'd OccupancyGrid =
  grid_resolution :: 'd
  grid_width :: nat
  grid_height :: nat
  grid_data :: "u8 list"

record 'd Twist =
  tw_linear_x :: 'd
  tw_linear_y :: 'd
  tw_angular_z :: 'd

record 'd planner =
  odom_update :: bool
  goal_update :: bool
  pose_update :: bool
  map_update :: bool
  watch_cnt :: "int list"
  goal_points :: "'d Pose list"
  current_pose :: "'d Pose"
  odom_msg :: "'d Odometry"
  costmap :: "'d OccupancyGrid option"
  current_step :: nat
  back_allowed :: bool
  max_vel_from_global :: 'd
  last_goal :: "'d vec3"
  local_goal :: "'d vec3"

text \<open>What \<open>readYaml\<close> reads for the node; the topics only name the subscriptions.\<close>

record 'd planner_config =
  cf_topics :: "string list"
  cf_goal_tolerance :: 'd
  cf_allow_back :: bool

definition planner_readYaml :: "'d fp \<Rightarrow> 'd yaml \<Rightarrow> 'd planner_config" where
  "planner_readYaml F Y =
     (case do {
        goal \<leftarrow> y_string Y [''topic'', ''goal_topic''];
        odo \<leftarrow> y_string Y [''topic'', ''odom_topic''];
        pose \<leftarrow> y_string Y [''topic'', ''pose_topic''];
        grid \<leftarrow> y_string Y [''topic'', ''map_topic''];
        vel \<leftarrow> y_string Y [''topic'', ''speed_topic''];
        feedback \<leftarrow> y_string Y [''topic'', ''feedback_topic''];
        traj \<leftarrow> y_string Y [''topic'', ''local_traj_topic''];
        tol \<leftarrow> y_double Y [''dwa'', ''goal_tolerance_''];
        b \<leftarrow> y_bool Y [''kinematic'', ''allow_back''];
        Some \<lparr>cf_topics = [goal, odo, pose, grid, vel, feedback, traj], cf_goal_tolerance = tol, cf_allow_back = b\<rparr>
      } of
        Some C \<Rightarrow> C
      | None \<Rightarrow>
          \<lparr>cf_topics = [''/global_path'', ''/odom'',
             (case do { _ \<leftarrow> y_string Y [''topic'', ''goal_topic'']; _ \<leftarrow> y_string Y [''topic'', ''odom_topic''];
                        y_string Y [''topic'', ''pose_topic''] } of Some t \<Rightarrow> t | None \<Rightarrow> ''''),
             ''/gridMap'', ''/cmd_vel'', ''/global_path_plan_feedback'', ''local_traj''],
           cf_goal_tolerance = fp_lit F 1, cf_allow_back = False\<rparr>)"

definition zero_quaternion :: "'d fp \<Rightarrow> 'd Quaternion" where
  "zero_quaternion F = \<lparr>q_x = fp_lit F 0, q_y = fp_lit F 0, q_z = fp_lit F 0, q_w = fp_lit F 0\<rparr>"

text \<open>The two goals have no initial value; \<open>junk\<close> is whatever is there.\<close>

definition planner_init :: "'d fp \<Rightarrow> 'd planner_config \<Rightarrow> 'd vec3 \<times> 'd vec3 \<Rightarrow> 'd planner" where
  "planner_init F C junk =
     \<lparr>odom_update = False, goal_update = False, pose_update = False, map_update = False, watch_cnt = replicate 6 1000,
      goal_points = [], current_pose = \<lparr>pos_x = fp_lit F 0, pos_y = fp_lit F 0, orientation = zero_quaternion F\<rparr>,
      odom_msg = \<lparr>frame_id = '''', linear_x = fp_lit F 0, angular_z = fp_lit F 0\<rparr>, costmap = None, current_step = 0,
      back_allowed = cf_allow_back C, max_vel_from_global = fp_lit F 0, last_goal = fst junk, local_goal = snd junk\<rparr>"

subsection \<open>The watchdog and the callbacks\<close>

definition CNT_MAX :: int where "CNT_MAX = 20"

definition bump :: "int \<Rightarrow> int" where
  "bump c = (if 1000000 < c + 1 then CNT_MAX + 1 else c + 1)"

definition on_timer :: "'d planner \<Rightarrow> 'd planner" where
  "on_timer s =
     (let fresh = (\<lambda>i. watch_cnt s ! i < CNT_MAX) in
      s\<lparr>odom_update := fresh 0, pose_update := fresh 2, map_update := fresh 3,
        watch_cnt := map bump (take 4 (watch_cnt s)) @ drop 4 (watch_cnt s)\<rparr>)"

definition getYaw :: "'d fp \<Rightarrow> 'd Quaternion \<Rightarrow> 'd" where
  "getYaw F q =
     (let mul = fp_mul F; add = fp_add F; sub = fp_sub F; lit = fp_lit F;
          sqx = mul (q_x q) (q_x q); sqy = mul (q_y q) (q_y q); sqz = mul (q_z q) (q_z q); sqw = mul (q_w q) (q_w q);
          sarg = fp_div F (mul (lit (- 2)) (sub (mul (q_x q) (q_z q)) (mul (q_w q) (q_y q))))
                   (add (add (add sqx sqy) sqz) sqw)
      in if fp_le F sarg (lit (- 99999 / 100000)) then mul (lit (- 2)) (fp_atan2 F (q_y q) (q_x q))
         else if fp_le F (lit (99999 / 100000)) sarg then mul (lit 2) (fp_atan2 F (q_y q) (q_x q))
         else fp_atan2 F (mul (lit 2) (add (mul (q_x q) (q_y q)) (mul (q_w q) (q_z q)))) (sub (sub (add sqw sqx) sqy) sqz))"

definition pose_goal :: "'d fp \<Rightarrow> 'd Pose \<Rightarrow> 'd vec3" where
  "pose_goal F p = (pos_x p, pos_y p, getYaw F (orientation p))"

definition poseCallback :: "'d Pose \<Rightarrow> 'd planner \<Rightarrow> 'd planner" where
  "poseCallback p s = s\<lparr>current_pose := p, watch_cnt := (watch_cnt s)[2 := 0]\<rparr>"

definition odomCallback :: "'d Odometry \<Rightarrow> 'd planner \<Rightarrow> 'd planner" where
  "odomCallback m s = s\<lparr>watch_cnt := (watch_cnt s)[0 := 0], odom_msg := m\<lparr>frame_id := ''odom''\<rparr>\<rparr>"

definition mapCallback :: "'d OccupancyGrid \<Rightarrow> 'd planner \<Rightarrow> 'd planner" where
  "mapCallback g s = s\<lparr>costmap := Some g, watch_cnt := (watch_cnt s)[3 := 0]\<rparr>"

definition maxVelCallback :: "'d \<Rightarrow> 'd planner \<Rightarrow> 'd planner" where
  "maxVelCallback v s = s\<lparr>max_vel_from_global := v\<rparr>"

definition goalCallback :: "'d fp \<Rightarrow> 'd Pose list \<Rightarrow> bool \<Rightarrow> 'd planner \<Rightarrow> error + 'd planner" where
  "goalCallback F poses back_up s =
     (let s = s\<lparr>goal_points := goal_points s @ poses, back_allowed := back_up\<rparr> in
      if pose_update s then
        if goal_points s = [] then Inl OutOfBounds
        else Inr (s\<lparr>current_step := 0, last_goal := pose_goal F (current_pose s),
                    local_goal := pose_goal F (goal_points s ! 0), goal_update := True\<rparr>)
      else Inr s)"

definition stop_twist :: "'d fp \<Rightarrow> 'd Twist" where
  "stop_twist F = \<lparr>tw_linear_x = fp_lit F 0, tw_linear_y = fp_lit F 0, tw_angular_z = fp_lit F 0\<rparr>"

definition replanCallback :: "'d fp \<Rightarrow> 'd planner \<Rightarrow> 'd planner \<times> 'd Twist list" where
  "replanCallback F s = (s\<lparr>goal_update := False\<rparr>, [stop_twist F])"

subsection \<open>The next goal\<close>

text \<open>The next point of the base class: the one after the current one.\<close>

definition base_getLocalGoal :: "'d fp \<Rightarrow> 'd planner \<Rightarrow> error + bool \<times> 'd planner" where
  "base_getLocalGoal F s =
     (if length (goal_points s) \<le> current_step s then Inl OutOfBounds
      else
        let s = s\<lparr>last_goal := pose_goal F (goal_points s ! current_step s), current_step := current_step s + 1\<rparr> in
        if current_step s = length (goal_points s) then Inr (False, s)
        else Inr (True, s\<lparr>local_goal := pose_goal F (goal_points s ! current_step s)\<rparr>))"

text \<open>Half the size of the map, as \<open>float\<close>.\<close>

definition semi_costmap :: "'d fp \<Rightarrow> nat \<Rightarrow> 'd \<Rightarrow> 'd" where
  "semi_costmap F n resolution = fp_single F (fp_mul F (fp_mul F (fp_lit F (5 / 10)) (fp_int F (int n))) resolution)"

definition outside_map :: "'d fp \<Rightarrow> 'd OccupancyGrid \<Rightarrow> 'd Pose \<Rightarrow> 'd Pose \<Rightarrow> bool" where
  "outside_map F g cur p \<longleftrightarrow>
     fp_lt F (semi_costmap F (grid_height g) (grid_resolution g)) (fp_abs F (fp_sub F (pos_x cur) (pos_x p))) \<or>
     fp_lt F (semi_costmap F (grid_width g) (grid_resolution g)) (fp_abs F (fp_sub F (pos_y cur) (pos_y p)))"

text \<open>\<open>for (i = current_step_; i < forward; i++) if (outside) break;\<close> over the points from \<open>current_step_\<close> to \<open>forward\<close>.\<close>

fun ahead_loop :: "('p \<Rightarrow> bool) \<Rightarrow> 'p list \<Rightarrow> nat \<Rightarrow> nat" where
  "ahead_loop outside [] i = i"
| "ahead_loop outside (p # ps) i = (if outside p then i else ahead_loop outside ps (i + 1))"

text \<open>The car looks three points ahead, as far as the map reaches.\<close>

definition car_getLocalGoal :: "'d fp \<Rightarrow> 'd planner \<Rightarrow> error + bool \<times> 'd planner" where
  "car_getLocalGoal F s =
     (if current_step s = length (goal_points s) then Inr (False, s)
      else
        let forward = min (current_step s + 3) (length (goal_points s)) in
        case costmap s of
          None \<Rightarrow> Inl NullDeref
        | Some g \<Rightarrow>
            let i = ahead_loop (outside_map F g (current_pose s))
                      (drop (current_step s) (take forward (goal_points s))) (current_step s);
                s = s\<lparr>current_step := (if i = forward then i - 1 else i)\<rparr>
            in
            if current_step s = length (goal_points s) then Inr (False, s)
            else if length (goal_points s) < current_step s then Inl OutOfBounds
            else Inr (True, s\<lparr>last_goal := pose_goal F (current_pose s),
                              local_goal := pose_goal F (goal_points s ! current_step s)\<rparr>))"

definition goal_distance :: "'d fp \<Rightarrow> 'd planner \<Rightarrow> 'd" where
  "goal_distance F s =
     fp_hypot F (fp_sub F (fst (local_goal s)) (pos_x (current_pose s)))
       (fp_sub F (fst (snd (local_goal s))) (pos_y (current_pose s)))"

text \<open>\<open>points_.size() - 1\<close> wraps around for an empty path, so that no step reaches it.\<close>

definition at_last_point :: "'d planner \<Rightarrow> bool" where
  "at_last_point s \<longleftrightarrow> goal_points s \<noteq> [] \<and> length (goal_points s) - 1 \<le> current_step s"

definition goalReached ::
  "'d fp \<Rightarrow> 'd \<Rightarrow> ('d planner \<Rightarrow> error + bool \<times> 'd planner) \<Rightarrow> 'd planner \<Rightarrow> error + bool \<times> 'd planner" where
  "goalReached F tolerance next_goal s =
     (if at_last_point s then Inr (fp_lt F (goal_distance F s) tolerance, s)
      else if fp_lt F (goal_distance F s) (fp_mul F (fp_lit F (15 / 10)) tolerance) then
        (case next_goal (s\<lparr>goal_update := False\<rparr>) of
           Inl e \<Rightarrow> Inl e
         | Inr (_, s) \<Rightarrow> Inr (False, s\<lparr>goal_update := True\<rparr>))
      else Inr (False, s))"

subsection \<open>Looking for obstacles\<close>

text \<open>The base class sees nothing.\<close>

definition base_raycast :: "'d planner \<Rightarrow> error + ('d \<times> 'd) list" where
  "base_raycast s = Inr []"

definition M_PI :: rat where
  "M_PI = 314159265358979323846 / 100000000000000000000"

text \<open>\<open>data()[k]\<close> of a string: the terminating zero may be read, nothing beyond.\<close>

definition grid_at :: "'d OccupancyGrid \<Rightarrow> nat \<Rightarrow> error + u8" where
  "grid_at g k =
     (if k < length (grid_data g) then Inr (grid_data g ! k)
      else if k = length (grid_data g) then Inr 0 else Inl OutOfBounds)"

definition cell_index :: "'d fp \<Rightarrow> 'd \<Rightarrow> 'd \<Rightarrow> nat \<Rightarrow> error + int" where
  "cell_index F resolution x n =
     to_int F (fp_add F (fp_floor F (fp_add F (fp_div F x resolution) (fp_lit F (5 / 10))))
       (fp_mul F (fp_int F (int n)) (fp_lit F (5 / 10))))"

text \<open>One ray: the distance grows by a cell until the ray leaves the map or meets an obstacle.\<close>

fun ray_loop :: "'d fp \<Rightarrow> 'd OccupancyGrid \<Rightarrow> 'd \<times> 'd \<Rightarrow> 'd \<Rightarrow> 'd \<Rightarrow> nat \<Rightarrow> 'd \<Rightarrow> error + ('d \<times> 'd) option" where
  "ray_loop F g cur max_dist angle fuel d =
     (if \<not> fp_le F d max_dist then Inr None
      else case fuel of 0 \<Rightarrow> Inl NoReturn
      | Suc fuel \<Rightarrow>
          let x = fp_single F (fp_mul F d (fp_cos F angle)); y = fp_single F (fp_mul F d (fp_sin F angle)) in
          case cell_index F (grid_resolution g) x (grid_width g) of Inl e \<Rightarrow> Inl e
          | Inr i \<Rightarrow>
          (case cell_index F (grid_resolution g) y (grid_height g) of Inl e \<Rightarrow> Inl e
          | Inr j \<Rightarrow>
          if i < 0 \<or> int (grid_width g) \<le> i \<or> j < 0 \<or> int (grid_height g) \<le> j then Inr None
          else (case grid_at g (nat j * grid_width g + nat i) of Inl e \<Rightarrow> Inl e
          | Inr c \<Rightarrow>
          if c = 100 then Inr (Some (fp_single F (fp_add F x (fst cur)), fp_single F (fp_add F y (snd cur))))
          else ray_loop F g cur max_dist angle fuel (fp_single F (fp_add F d (grid_resolution g))))))"

declare ray_loop.simps [simp del]

definition car_raycast :: "'d fp \<Rightarrow> nat \<Rightarrow> 'd planner \<Rightarrow> error + ('d \<times> 'd) list" where
  "car_raycast F fuel s =
     (case costmap s of
        None \<Rightarrow> Inl NullDeref
      | Some g \<Rightarrow>
          let yaw = getYaw F (orientation (current_pose s));
              max_dist = fp_mul F (fp_int F (int (grid_width g))) (grid_resolution g);
              cur = (fp_single F (pos_x (current_pose s)), fp_single F (pos_y (current_pose s)));
              ray = (\<lambda>angle obs. case ray_loop F g cur max_dist angle fuel (fp_lit F 0) of
                        Inl e \<Rightarrow> Inl e | Inr None \<Rightarrow> Inr obs | Inr (Some p) \<Rightarrow> Inr (obs @ [p]))
          in for_loop F (\<lambda>a. fp_single F (fp_add F a (fp_lit F (2 / 10)))) (fp_add F yaw (fp_lit F M_PI)) ray fuel
               (fp_single F (fp_sub F yaw (fp_lit F M_PI))) [])"

subsection \<open>A round of the planning loop, and runs\<close>

text \<open>What stays fixed: the arithmetic, the fuel, the configuration file and what was read of it.\<close>

record 'd planning =
  su_fp :: "'d fp"
  su_fuel :: nat
  su_yaml :: "'d yaml"
  su_config :: "'d planner_config"
  su_params :: "'d gen_params"

definition plan_command :: "'d planning \<Rightarrow> 'd planner \<Rightarrow> error + 'd Twist" where
  "plan_command S s =
     (let F = su_fp S in
      case car_raycast F (su_fuel S) s of Inl e \<Rightarrow> Inl e
      | Inr seen \<Rightarrow>
        let current = \<lparr>st_x = pos_x (current_pose s), st_y = pos_y (current_pose s), st_yaw = getYaw F (orientation (current_pose s)),
                       st_velocity = linear_x (odom_msg s), st_yawrate = angular_z (odom_msg s)\<rparr> in
        (case generateTrajectory F (su_fuel S) (su_yaml S) (su_params S) current (last_goal s) (local_goal s) (back_allowed s)
                (max_vel_from_global s) (if seen = [] then None else Some seen) of Inl e \<Rightarrow> Inl e
         | Inr (heap, traj) \<Rightarrow>
             if traj = [] then Inl OutOfBounds
             else Inr \<lparr>tw_linear_x = st_velocity (heap ! hd traj), tw_linear_y = fp_lit F 0,
                       tw_angular_z = st_yawrate (heap ! hd traj)\<rparr>))"

definition plan_round :: "'d planning \<Rightarrow> ('d planner, 'd Twist) op" where
  "plan_round S s =
     (if goal_update s \<and> odom_update s \<and> pose_update s \<and> map_update s then
        (case goalReached (su_fp S) (cf_goal_tolerance (su_config S)) (car_getLocalGoal (su_fp S)) s of
           Inl e \<Rightarrow> Inl e
         | Inr (reached, s) \<Rightarrow>
             if reached then Inr (s\<lparr>goal_update := False\<rparr>, [stop_twist (su_fp S)])
             else (case plan_command S s of Inl e \<Rightarrow> Inl e | Inr t \<Rightarrow> Inr (s, [t])))
      else Inr (s, []))"

datatype 'd planner_event =
    OdomMsg "'d Odometry" | PoseMsg "'d Pose" | MapMsg "'d OccupancyGrid" | GoalMsg "'d Pose list" bool
  | MaxVelMsg 'd | ReplanMsg | TimerTick | PlanRound

fun planner_step :: "'d planning \<Rightarrow> 'd planner_event \<Rightarrow> ('d planner, 'd Twist) op" where
  "planner_step S (OdomMsg m) s = Inr (odomCallback m s, [])"
| "planner_step S (PoseMsg p) s = Inr (poseCallback p s, [])"
| "planner_step S (MapMsg g) s = Inr (mapCallback g s, [])"
| "planner_step S (GoalMsg ps b) s = (case goalCallback (su_fp S) ps b s of Inl e \<Rightarrow> Inl e | Inr s \<Rightarrow> Inr (s, []))"
| "planner_step S (MaxVelMsg v) s = Inr (maxVelCallback v s, [])"
| "planner_step S ReplanMsg s = Inr (replanCallback (su_fp S) s)"
| "planner_step S TimerTick s = Inr (on_timer s, [])"
| "planner_step S PlanRound s = plan_round S s"

definition planner_run :: "'d planning \<Rightarrow> 'd planner_event list \<Rightarrow> ('d planner, 'd Twist) op" where
  "planner_run S = for_each (planner_step S)"

subsection \<open>What a step leaves alone\<close>

lemma planner_run_Nil [simp]: "planner_run S [] s = Inr (s, [])"
  by (simp add: planner_run_def skip_def)

lemma planner_run_Cons:
  "planner_run S (e # es) s = Inr (s2, out) \<longleftrightarrow>
     (\<exists>s1 o1 o2. planner_step S e s = Inr (s1, o1) \<and> planner_run S es s1 = Inr (s2, o2) \<and> out = o1 @ o2)"
  by (simp add: planner_run_def and_then_Inr)

lemma planner_run_induct [consumes 1, case_names Nil Cons]:
  assumes "planner_run S es s = Inr (s', out)"
    and "\<And>s. P [] s s []"
    and "\<And>e es s s1 o1 s2 o2. planner_step S e s = Inr (s1, o1) \<Longrightarrow> planner_run S es s1 = Inr (s2, o2) \<Longrightarrow> P es s1 s2 o2 \<Longrightarrow>
      P (e # es) s s2 (o1 @ o2)"
  shows "P es s s' out"
  using assms(1)
proof (induction es arbitrary: s out)
  case (Cons e es)
  then obtain s1 o1 o2 where "planner_step S e s = Inr (s1, o1)" "planner_run S es s1 = Inr (s', o2)" "out = o1 @ o2"
    by (auto simp: planner_run_Cons)
  then show ?case using assms(3) Cons.IH by simp
qed (simp add: assms(2))

text \<open>The planning loop writes the goals, the step and its own flag, nothing else.\<close>

definition same_inputs :: "'d planner \<Rightarrow> 'd planner \<Rightarrow> bool" where
  "same_inputs s s' \<longleftrightarrow>
     odom_update s' = odom_update s \<and> pose_update s' = pose_update s \<and> map_update s' = map_update s \<and>
     watch_cnt s' = watch_cnt s \<and> goal_points s' = goal_points s \<and> current_pose s' = current_pose s \<and>
     odom_msg s' = odom_msg s \<and> costmap s' = costmap s \<and> back_allowed s' = back_allowed s \<and>
     max_vel_from_global s' = max_vel_from_global s"

lemma car_getLocalGoal_frame:
  "car_getLocalGoal F s = Inr (b, s') \<Longrightarrow> same_inputs s s' \<and> goal_update s' = goal_update s"
  by (auto simp: car_getLocalGoal_def same_inputs_def Let_def split: if_splits option.splits)

lemma goalReached_cases:
  assumes "goalReached F tol (car_getLocalGoal F) s = Inr (b, s')"
  obtains (stay) "s' = s"
    | (advance) c s1 where "\<not> at_last_point s" "car_getLocalGoal F (s\<lparr>goal_update := False\<rparr>) = Inr (c, s1)"
        "s' = s1\<lparr>goal_update := True\<rparr>" "\<not> b"
  using assms unfolding goalReached_def
  by (cases "at_last_point s"; cases "fp_lt F (goal_distance F s) (fp_mul F (fp_lit F (15 / 10)) tol)";
      cases "car_getLocalGoal F (s\<lparr>goal_update := False\<rparr>)") auto

lemma goalReached_frame:
  assumes "goalReached F tol (car_getLocalGoal F) s = Inr (b, s')" and "goal_update s"
  shows "same_inputs s s' \<and> goal_update s'"
  using assms(1)
proof (cases rule: goalReached_cases)
  case stay then show ?thesis using assms(2) by (simp add: same_inputs_def)
next
  case (advance c s1)
  then show ?thesis using car_getLocalGoal_frame [OF advance(2)] by (simp add: same_inputs_def)
qed

lemma plan_round_cases:
  assumes "plan_round S s = Inr (s', out)"
  obtains (idle) "s' = s" "out = []" "\<not> (goal_update s \<and> odom_update s \<and> pose_update s \<and> map_update s)"
    | (arrived) "same_inputs s s'" "\<not> goal_update s'" "out = [stop_twist (su_fp S)]"
    | (moving) t where "same_inputs s s'" "goal_update s'" "plan_command S s' = Inr t" "out = [t]" "goal_update s" "odom_update s"
        "pose_update s" "map_update s"
proof (cases "goal_update s \<and> odom_update s \<and> pose_update s \<and> map_update s")
  case True
  then obtain reached s1 where g: "goalReached (su_fp S) (cf_goal_tolerance (su_config S)) (car_getLocalGoal (su_fp S)) s = Inr (reached, s1)"
    and r: "(if reached then Inr (s1\<lparr>goal_update := False\<rparr>, [stop_twist (su_fp S)])
             else (case plan_command S s1 of Inl e \<Rightarrow> Inl e | Inr t \<Rightarrow> Inr (s1, [t]))) = Inr (s', out)"
    using assms by (auto simp: plan_round_def split: sum.splits)
  from goalReached_frame [OF g] True have f: "same_inputs s s1" "goal_update s1" by auto
  show thesis
  proof (cases reached)
    case True then show thesis using arrived r f by (auto simp: same_inputs_def)
  next
    case False then show thesis using moving r f \<open>goal_update s \<and> _\<close> by (auto split: sum.splits)
  qed
next
  case False
  then show thesis using idle assms unfolding plan_round_def if_not_P [OF False] by simp
qed

lemma plan_round_frame: "plan_round S s = Inr (s', out) \<Longrightarrow> same_inputs s s' \<and> (goal_update s' \<longrightarrow> goal_update s)"
  by (elim plan_round_cases) (auto simp: same_inputs_def)

subsection \<open>A sensor that falls silent\<close>

fun sensor_feeds :: "nat \<Rightarrow> 'd planner_event \<Rightarrow> bool" where
  "sensor_feeds n (OdomMsg m) = (n = 0)"
| "sensor_feeds n (PoseMsg p) = (n = 2)"
| "sensor_feeds n (MapMsg g) = (n = 3)"
| "sensor_feeds n _ = False"

definition fresh_flag :: "nat \<Rightarrow> 'd planner \<Rightarrow> bool" where
  "fresh_flag n s = (if n = 0 then odom_update s else if n = 2 then pose_update s else map_update s)"

definition ticks :: "'d planner_event list \<Rightarrow> nat" where
  "ticks es = length (filter (\<lambda>e. e = TimerTick) es)"

lemma ticks_Cons: "ticks (e # es) = (if e = TimerTick then 1 else 0) + ticks es"
  by (simp add: ticks_def)

text \<open>A counter counts the ticks since the last message, up to a bound; a set flag means that it has not passed the limit.\<close>

definition watch_wf :: "'d planner \<Rightarrow> bool" where
  "watch_wf s \<longleftrightarrow> length (watch_cnt s) = 6 \<and>
     (\<forall>n \<in> {0, 2, 3}. 0 \<le> watch_cnt s ! n \<and> (fresh_flag n s \<longrightarrow> watch_cnt s ! n \<le> CNT_MAX))"

lemma same_watch: "same_inputs s s' \<Longrightarrow> watch_cnt s' = watch_cnt s \<and> fresh_flag n s' = fresh_flag n s"
  by (simp add: same_inputs_def fresh_flag_def)

lemma on_timer_watch:
  assumes "length (watch_cnt s) = 6" and "n \<in> {0, 2, 3}"
  shows "watch_cnt (on_timer s) ! n = bump (watch_cnt s ! n)" and "fresh_flag n (on_timer s) \<longleftrightarrow> watch_cnt s ! n < CNT_MAX"
    and "length (watch_cnt (on_timer s)) = 6"
  using assms by (auto simp: on_timer_def Let_def fresh_flag_def nth_append)

text \<open>One step on the watchdog: a message resets its counter, a tick advances them, everything else leaves them.\<close>

lemma step_watch:
  assumes "planner_step S e s = Inr (s', out)" and "length (watch_cnt s) = 6" and "n \<in> {0, 2, 3}"
  shows "length (watch_cnt s') = 6"
    and "watch_cnt s' ! n = (if sensor_feeds n e then 0 else if e = TimerTick then bump (watch_cnt s ! n) else watch_cnt s ! n)"
    and "fresh_flag n s' = (if e = TimerTick then watch_cnt s ! n < CNT_MAX else fresh_flag n s)"
proof -
  have "length (watch_cnt s') = 6 \<and>
    watch_cnt s' ! n = (if sensor_feeds n e then 0 else if e = TimerTick then bump (watch_cnt s ! n) else watch_cnt s ! n) \<and>
    fresh_flag n s' = (if e = TimerTick then watch_cnt s ! n < CNT_MAX else fresh_flag n s)"
  proof (cases e)
    case TimerTick
    then show ?thesis using assms on_timer_watch [OF assms(2,3)] by auto
  next
    case PlanRound
    then show ?thesis using assms(1,2) plan_round_frame [of S s s' out] same_watch [of s s' n] by auto
  qed (use assms in \<open>auto simp: odomCallback_def poseCallback_def mapCallback_def maxVelCallback_def replanCallback_def goalCallback_def
       Let_def fresh_flag_def split: sum.splits if_splits\<close>)
  then show "length (watch_cnt s') = 6"
    and "watch_cnt s' ! n = (if sensor_feeds n e then 0 else if e = TimerTick then bump (watch_cnt s ! n) else watch_cnt s ! n)"
    and "fresh_flag n s' = (if e = TimerTick then watch_cnt s ! n < CNT_MAX else fresh_flag n s)" by auto
qed

lemma bump_bounds: "CNT_MAX + 1 \<le> bump c \<or> bump c = c + 1"
  by (simp add: bump_def)

lemma watch_wf_step:
  assumes "planner_step S e s = Inr (s', out)" and "watch_wf s"
  shows "watch_wf s'"
proof -
  have len: "length (watch_cnt s) = 6" using assms(2) by (simp add: watch_wf_def)
  have "0 \<le> watch_cnt s' ! n \<and> (fresh_flag n s' \<longrightarrow> watch_cnt s' ! n \<le> CNT_MAX)" if n: "n \<in> {0, 2, 3}" for n
  proof -
    have "0 \<le> watch_cnt s ! n \<and> (fresh_flag n s \<longrightarrow> watch_cnt s ! n \<le> CNT_MAX)" using assms(2) n by (auto simp: watch_wf_def)
    then show ?thesis using step_watch [OF assms(1) len n]
      by (auto simp: bump_def CNT_MAX_def split: if_splits)
  qed
  then show ?thesis using step_watch(1) [OF assms(1) len, of 0] by (auto simp: watch_wf_def)
qed

lemma watch_wf_run: "planner_run S es s = Inr (s', out) \<Longrightarrow> watch_wf s \<Longrightarrow> watch_wf s'"
  by (induction rule: planner_run_induct) (auto dest: watch_wf_step)

lemma silent_counter:
  assumes "planner_run S es s = Inr (s', out)" and "watch_wf s" and "n \<in> {0, 2, 3}" and "\<And>e. e \<in> set es \<Longrightarrow> \<not> sensor_feeds n e"
  shows "min (CNT_MAX + 1) (watch_cnt s ! n + int (ticks es)) \<le> watch_cnt s' ! n"
  using assms
proof (induction rule: planner_run_induct)
  case (Nil s)
  then show ?case by (simp add: ticks_def)
next
  case (Cons e es s s1 o1 s2 o2)
  have len: "length (watch_cnt s) = 6" using Cons.prems(1) by (simp add: watch_wf_def)
  have c: "watch_cnt s1 ! n = (if e = TimerTick then bump (watch_cnt s ! n) else watch_cnt s ! n)"
    using step_watch(2) [OF Cons.hyps(1) len Cons.prems(2)] Cons.prems(3) [of e] by simp
  have "min (CNT_MAX + 1) (watch_cnt s1 ! n + int (ticks es)) \<le> watch_cnt s2 ! n"
    using Cons.IH watch_wf_step [OF Cons.hyps(1) Cons.prems(1)] Cons.prems by simp
  then show ?case using c bump_bounds [of "watch_cnt s ! n"] by (auto simp: ticks_Cons)
qed

lemma watch_wf_init: "watch_wf (planner_init F C junk)"
  by (simp add: watch_wf_def planner_init_def fresh_flag_def)

lemma silent_round:
  assumes "planner_step S e s = Inr (s', out)" and "watch_wf s" and "n \<in> {0, 2, 3}" and "CNT_MAX < watch_cnt s ! n"
    and "e \<noteq> ReplanMsg"
  shows "out = []"
proof (cases e)
  case PlanRound
  have "\<not> fresh_flag n s" using assms(2,3,4) by (auto simp: watch_wf_def)
  then have "\<not> (goal_update s \<and> odom_update s \<and> pose_update s \<and> map_update s)" using assms(3) by (auto simp: fresh_flag_def split: if_splits)
  then show ?thesis using assms(1) unfolding PlanRound planner_step.simps plan_round_def by (simp only: if_not_P) simp
qed (use assms in \<open>auto split: sum.splits\<close>)

lemma silent_run:
  assumes "planner_run S es s = Inr (s', out)" and "watch_wf s" and "n \<in> {0, 2, 3}" and "CNT_MAX < watch_cnt s ! n"
    and "\<And>e. e \<in> set es \<Longrightarrow> \<not> sensor_feeds n e \<and> e \<noteq> ReplanMsg"
  shows "out = []"
  using assms
proof (induction rule: planner_run_induct)
  case (Cons e es s s1 o1 s2 o2)
  have "o1 = []" using silent_round [OF Cons.hyps(1) Cons.prems(1-3)] Cons.prems(4) [of e] by simp
  moreover have "CNT_MAX < watch_cnt s1 ! n"
    using step_watch(2) [OF Cons.hyps(1) _ Cons.prems(2)] Cons.prems(1,3) Cons.prems(4) [of e] bump_bounds [of "watch_cnt s ! n"]
    by (auto simp: watch_wf_def)
  ultimately show ?case using Cons.IH watch_wf_step [OF Cons.hyps(1) Cons.prems(1)] Cons.prems by simp
qed simp

text \<open>
  Once the odometry, the pose or the map has been silent for 21 ticks of the timer, the node publishes nothing, whatever
  else arrives, until that sensor is heard again or a replanning is asked for: no further command to move, and
  no command to stop either.
\<close>

theorem silent_sensor_blocks:
  assumes "planner_run S before (planner_init F C junk) = Inr (s0, out0)"
    and "planner_run S es s0 = Inr (s1, out1)" and "21 \<le> ticks es"
    and "planner_run S later s1 = Inr (s2, out2)"
    and "n \<in> {0, 2, 3}" and "\<forall>e \<in> set (es @ later). \<not> sensor_feeds n e" and "ReplanMsg \<notin> set later"
  shows "out2 = []"
proof (rule silent_run [OF assms(4) _ assms(5)])
  have wf: "watch_wf s0" by (rule watch_wf_run [OF assms(1) watch_wf_init])
  show "watch_wf s1" by (rule watch_wf_run [OF assms(2) wf])
  have "0 \<le> watch_cnt s0 ! n" using wf assms(5) by (auto simp: watch_wf_def)
  moreover have "min (CNT_MAX + 1) (watch_cnt s0 ! n + int (ticks es)) \<le> watch_cnt s1 ! n"
    using assms(6) by (intro silent_counter [OF assms(2) wf assms(5)]) auto
  ultimately show "CNT_MAX < watch_cnt s1 ! n" using assms(3) by (simp add: CNT_MAX_def)
qed (use assms(6,7) in auto)

subsection \<open>Stops and limits\<close>

fun is_goal :: "'d planner_event \<Rightarrow> bool" where
  "is_goal (GoalMsg ps b) = True"
| "is_goal _ = False"

lemma step_no_goal:
  assumes "planner_step S e s = Inr (s', out)" and "\<not> goal_update s" and "\<not> is_goal e"
  shows "\<not> goal_update s' \<and> set out \<subseteq> {stop_twist (su_fp S)}"
proof (cases e)
  case PlanRound
  have "plan_round S s = Inr (s', out)" using assms(1) PlanRound by simp
  then show ?thesis using assms(2) by (cases rule: plan_round_cases) auto
qed (use assms in \<open>auto simp: odomCallback_def poseCallback_def mapCallback_def maxVelCallback_def replanCallback_def on_timer_def Let_def\<close>)

lemma run_no_goal:
  assumes "planner_run S es s = Inr (s', out)" and "\<not> goal_update s" and "\<And>e. e \<in> set es \<Longrightarrow> \<not> is_goal e"
  shows "\<not> goal_update s' \<and> set out \<subseteq> {stop_twist (su_fp S)}"
  using assms
proof (induction rule: planner_run_induct)
  case (Cons e es s s1 o1 s2 o2)
  then show ?case using step_no_goal [OF Cons.hyps(1)] by auto
qed simp

text \<open>
  When the robot arrives, or a replanning is asked for, the node commands to stop, and until the next path
  is given it commands nothing else.
\<close>

theorem stop_is_final:
  assumes "planner_step S e s = Inr (s1, out1)" and "e = ReplanMsg \<or> e = PlanRound \<and> goal_update s \<and> \<not> goal_update s1"
    and "planner_run S es s1 = Inr (s2, out2)" and "\<forall>e \<in> set es. \<not> is_goal e"
  shows "out1 = [stop_twist (su_fp S)] \<and> set out2 \<subseteq> {stop_twist (su_fp S)}"
proof -
  have "out1 = [stop_twist (su_fp S)] \<and> \<not> goal_update s1" using assms(2)
  proof
    assume "e = ReplanMsg" then show ?thesis using assms(1) by (auto simp: replanCallback_def)
  next
    assume e: "e = PlanRound \<and> goal_update s \<and> \<not> goal_update s1"
    then have "plan_round S s = Inr (s1, out1)" using assms(1) by simp
    then show ?thesis using e by (cases rule: plan_round_cases) auto
  qed
  then show ?thesis using run_no_goal [OF assms(3)] assms(4) by blast
qed

lemma plan_command_limits:
  assumes "float_order (su_fp S)" and "0 < num_steps (su_params S)" and "plan_command S s = Inr t"
  shows "tw_linear_y t = fp_lit (su_fp S) 0 \<and>
    within_limits (su_fp S) (su_params S) (back_allowed s) (max_vel_from_global s) (linear_x (odom_msg s)) (angular_z (odom_msg s))
      (tw_linear_x t) (tw_angular_z t)"
  using assms(3)
  by (auto simp: plan_command_def Let_def split: sum.splits if_splits dest!: generate_within_limits [OF assms(1,2)])

text \<open>
  The velocities that the search may choose for a round, given the obstacles that the rays found: to stop, when trajectories
  are published or no candidate is admissible, and otherwise an admissible candidate that no other undercuts.
\<close>

definition best_command :: "'d planning \<Rightarrow> 'd planner \<Rightarrow> ('d \<times> 'd) list \<Rightarrow> 'd \<Rightarrow> 'd \<Rightarrow> bool" where
  "best_command S s seen v w \<longleftrightarrow>
     (let F = su_fp S; P = su_params S;
          current = \<lparr>st_x = pos_x (current_pose s), st_y = pos_y (current_pose s), st_yaw = getYaw F (orientation (current_pose s)),
                     st_velocity = linear_x (odom_msg s), st_yawrate = angular_z (odom_msg s)\<rparr>;
          sc = score_readYaml F (su_yaml S) (last_goal s) (local_goal s) (if seen = [] then None else Some seen);
          cs = candidates F (su_fuel S) (sample_ranges F P current (back_allowed s) (max_vel_from_global s));
          stop = (v = fp_lit F 0 \<and> w = fp_lit F 0)
      in if allow_pub P then stop
         else (\<forall>c \<in> set cs. \<not> admissible F P sc current c) \<and> stop \<or>
           (v, w) \<in> set cs \<and> admissible F P sc current (v, w) \<and>
           (\<forall>d \<in> set cs. admissible F P sc current d \<longrightarrow> fp_le F (end_cost F P sc current (v, w)) (end_cost F P sc current d)))"

lemma plan_command_best:
  assumes "float_order (su_fp S)" and "0 < num_steps (su_params S)" and "plan_command S s = Inr t"
  obtains seen where "car_raycast (su_fp S) (su_fuel S) s = Inr seen" "best_command S s seen (tw_linear_x t) (tw_angular_z t)"
proof -
  define current where "current = \<lparr>st_x = pos_x (current_pose s), st_y = pos_y (current_pose s),
    st_yaw = getYaw (su_fp S) (orientation (current_pose s)), st_velocity = linear_x (odom_msg s), st_yawrate = angular_z (odom_msg s)\<rparr>"
  obtain seen heap traj where r: "car_raycast (su_fp S) (su_fuel S) s = Inr seen"
    "generateTrajectory (su_fp S) (su_fuel S) (su_yaml S) (su_params S) current (last_goal s) (local_goal s) (back_allowed s)
      (max_vel_from_global s) (if seen = [] then None else Some seen) = Inr (heap, traj)"
    "tw_linear_x t = st_velocity (heap ! hd traj)" "tw_angular_z t = st_yawrate (heap ! hd traj)"
    using assms(3) by (auto simp: plan_command_def Let_def current_def split: sum.splits if_splits)
  have "best_command S s seen (tw_linear_x t) (tw_angular_z t)"
  proof (cases "allow_pub (su_params S)")
    case True
    from generate_allow_pub [OF assms(1) this r(2)] r(3,4) True show ?thesis by (simp add: best_command_def stopped_def Let_def)
  next
    case False
    define sc where "sc = score_readYaml (su_fp S) (su_yaml S) (last_goal s) (local_goal s) (if seen = [] then None else Some seen)"
    define cs where "cs = candidates (su_fp S) (su_fuel S)
      (sample_ranges (su_fp S) (su_params S) current (back_allowed s) (max_vel_from_global s))"
    let ?adm = "admissible (su_fp S) (su_params S) sc current" and ?cost = "end_cost (su_fp S) (su_params S) sc current"
    have "(\<forall>c \<in> set cs. \<not> ?adm c) \<and> heap ! hd traj = stopped (su_fp S) current \<or>
      (\<exists>c \<in> set cs. ?adm c \<and> heap ! hd traj = end_state (su_fp S) (su_params S) current c \<and>
         (\<forall>d \<in> set cs. ?adm d \<longrightarrow> fp_le (su_fp S) (?cost c) (?cost d)))"
      using generate_cases [OF assms(1,2) False r(2)] by (simp only: sc_def cs_def)
    then have "(\<forall>c \<in> set cs. \<not> ?adm c) \<and> tw_linear_x t = fp_lit (su_fp S) 0 \<and> tw_angular_z t = fp_lit (su_fp S) 0 \<or>
      (tw_linear_x t, tw_angular_z t) \<in> set cs \<and> ?adm (tw_linear_x t, tw_angular_z t) \<and>
      (\<forall>d \<in> set cs. ?adm d \<longrightarrow> fp_le (su_fp S) (?cost (tw_linear_x t, tw_angular_z t)) (?cost d))"
      using r(3,4) by (elim disjE bexE conjE) (simp_all add: stopped_def end_state_speeds [OF assms(2)])
    then show ?thesis
      using False unfolding best_command_def Let_def current_def [symmetric] sc_def [symmetric] cs_def [symmetric] by simp
  qed
  with r(1) show thesis by (rule that)
qed

lemma within_limits_mono:
  "within_limits F P b limit v0 w0 v w \<Longrightarrow> (b \<Longrightarrow> c) \<Longrightarrow> within_limits F P c limit v0 w0 v w"
  by (auto simp: within_limits_def)

text \<open>The state that a command depends on, as long as no message of the operator and no permission to go back arrives.\<close>

fun keeps_limits :: "bool \<Rightarrow> 'd planner_event \<Rightarrow> bool" where
  "keeps_limits c (GoalMsg ps b) = (b \<longrightarrow> c)"
| "keeps_limits c (MaxVelMsg v) = False"
| "keeps_limits c _ = True"

lemma step_limits:
  assumes "float_order (su_fp S)" and "0 < num_steps (su_params S)" and "planner_step S e s = Inr (s', out)"
    and "keeps_limits c e" and "back_allowed s \<longrightarrow> c"
  shows "max_vel_from_global s' = max_vel_from_global s \<and> (back_allowed s' \<longrightarrow> c) \<and>
    list_all (\<lambda>t. tw_linear_y t = fp_lit (su_fp S) 0 \<and>
      within_limits (su_fp S) (su_params S) c (max_vel_from_global s) (linear_x (odom_msg s)) (angular_z (odom_msg s))
        (tw_linear_x t) (tw_angular_z t)) out"
proof (cases e)
  case PlanRound
  have stop: "within_limits (su_fp S) (su_params S) c l v0 w0 (fp_lit (su_fp S) 0) (fp_lit (su_fp S) 0)" for l v0 w0
    by (simp add: within_limits_def)
  have "plan_round S s = Inr (s', out)" using assms(3) PlanRound by simp
  then show ?thesis
  proof (cases rule: plan_round_cases)
    case idle then show ?thesis using assms(5) by simp
  next
    case arrived then show ?thesis using assms(5) stop by (simp add: same_inputs_def stop_twist_def)
  next
    case (moving t)
    have same: "back_allowed s' = back_allowed s" "max_vel_from_global s' = max_vel_from_global s" "odom_msg s' = odom_msg s"
      using moving(1) by (simp_all add: same_inputs_def)
    note l = plan_command_limits [OF assms(1,2) moving(3), unfolded same]
    show ?thesis using l within_limits_mono [of _ _ "back_allowed s" _ _ _ _ _ c] assms(5) moving(4) same by auto
  qed
next
  case ReplanMsg
  then show ?thesis using assms by (auto simp: replanCallback_def stop_twist_def within_limits_def)
qed (use assms in \<open>auto simp: odomCallback_def poseCallback_def mapCallback_def maxVelCallback_def goalCallback_def
       Let_def on_timer_def split: sum.splits if_splits\<close>)

lemma run_limits:
  assumes "planner_run S es s = Inr (s', out)" and "float_order (su_fp S)" and "0 < num_steps (su_params S)"
    and "\<And>e. e \<in> set es \<Longrightarrow> keeps_limits c e" and "back_allowed s \<longrightarrow> c"
  shows "max_vel_from_global s' = max_vel_from_global s \<and> (back_allowed s' \<longrightarrow> c)"
  using assms
proof (induction rule: planner_run_induct)
  case (Cons e es s s1 o1 s2 o2)
  have "keeps_limits c e" using Cons.prems(3) by simp
  from step_limits [OF Cons.prems(1,2) Cons.hyps(1) this Cons.prems(4)] show ?case using Cons.IH Cons.prems by auto
qed simp


subsection \<open>The path is followed\<close>

lemma ahead_loop_bounds: "i \<le> ahead_loop f ps i \<and> ahead_loop f ps i \<le> i + length ps"
proof (induction ps arbitrary: i)
  case (Cons p ps)
  have "Suc i \<le> ahead_loop f ps (Suc i)" "ahead_loop f ps (Suc i) \<le> Suc i + length ps" using Cons.IH [of "Suc i"] by auto
  then show ?case by auto
qed simp

lemma ahead_loop_inside: "i \<le> k \<Longrightarrow> k < ahead_loop f ps i \<Longrightarrow> \<not> f (ps ! (k - i))"
proof (induction ps arbitrary: i)
  case (Cons p ps)
  show ?case
  proof (cases "k = i")
    case True then show ?thesis using Cons.prems by (auto split: if_splits)
  next
    case False
    then have "\<not> f (ps ! (k - (i + 1)))" using Cons.prems Cons.IH [of "i + 1"] by (auto split: if_splits)
    then show ?thesis using False Cons.prems(1) by (simp add: nth_Cons' diff_commute)
  qed
qed simp

lemma ahead_loop_stop: "ahead_loop f ps i < i + length ps \<Longrightarrow> f (ps ! (ahead_loop f ps i - i))"
proof (induction ps arbitrary: i)
  case (Cons p ps)
  then show ?case using Cons.IH [of "i + 1"] ahead_loop_bounds [of "i + 1" f ps] by (auto simp: nth_Cons' split: if_splits)
qed simp

text \<open>What the look-ahead of the car promises: a later point of the path, at most two further, with the map reaching all before it.\<close>

lemma car_getLocalGoal_spec:
  assumes "current_step s < length (goal_points s)" and "costmap s = Some g"
  obtains s' where "car_getLocalGoal F s = Inr (True, s')" "current_step s \<le> current_step s'" "current_step s' \<le> current_step s + 2"
    "current_step s' < length (goal_points s)" "local_goal s' = pose_goal F (goal_points s ! current_step s')"
    "\<forall>k. current_step s \<le> k \<and> k < current_step s' \<longrightarrow> \<not> outside_map F g (current_pose s) (goal_points s ! k)"
    "outside_map F g (current_pose s) (goal_points s ! current_step s') \<or>
       current_step s' + 1 = min (current_step s + 3) (length (goal_points s))"
proof -
  define n where "n = current_step s"
  define fwd where "fwd = min (n + 3) (length (goal_points s))"
  define ps where "ps = drop n (take fwd (goal_points s))"
  define i where "i = ahead_loop (outside_map F g (current_pose s)) ps n"
  define m where "m = (if i = fwd then i - 1 else i)"
  have n: "n < length (goal_points s)" using assms(1) by (simp add: n_def)
  then have fwd: "n < fwd" "fwd \<le> length (goal_points s)" "fwd \<le> n + 3" by (auto simp: fwd_def)
  have len: "length ps = fwd - n" using fwd by (simp add: ps_def)
  have psn: "ps ! (k - n) = goal_points s ! k" if "n \<le> k" "k < fwd" for k using that fwd by (simp add: ps_def)
  have i: "n \<le> i" "i \<le> fwd" using ahead_loop_bounds [of n "outside_map F g (current_pose s)" ps] len fwd by (auto simp: i_def)
  have m: "n \<le> m" "m < fwd" using i fwd by (auto simp: m_def)
  have r: "car_getLocalGoal F s = Inr (True, s\<lparr>current_step := m, last_goal := pose_goal F (current_pose s),
      local_goal := pose_goal F (goal_points s ! m)\<rparr>)"
    using assms m fwd(2)
    by (cases "i = fwd") (simp_all add: car_getLocalGoal_def Let_def m_def flip: n_def fwd_def ps_def i_def)
  show thesis
  proof (rule that [OF r])
    show "\<forall>k. current_step s \<le> k \<and> k < current_step (s\<lparr>current_step := m, last_goal := pose_goal F (current_pose s),
      local_goal := pose_goal F (goal_points s ! m)\<rparr>) \<longrightarrow> \<not> outside_map F g (current_pose s) (goal_points s ! k)"
    proof (intro allI impI)
      fix k assume k: "current_step s \<le> k \<and> k < current_step (s\<lparr>current_step := m, last_goal := pose_goal F (current_pose s),
        local_goal := pose_goal F (goal_points s ! m)\<rparr>)"
      then have "n \<le> k" "k < i" "k < fwd" using m i by (auto simp: n_def m_def split: if_splits)
      then show "\<not> outside_map F g (current_pose s) (goal_points s ! k)"
        using ahead_loop_inside [of n k "outside_map F g (current_pose s)" ps] psn [of k] by (simp add: i_def)
    qed
    have "outside_map F g (current_pose s) (goal_points s ! m) \<or> m + 1 = fwd"
    proof (cases "i = fwd")
      case True then show ?thesis using fwd by (simp add: m_def)
    next
      case False
      then have "outside_map F g (current_pose s) (ps ! (i - n))"
        using ahead_loop_stop [of "outside_map F g (current_pose s)" ps n] i len fwd by (simp add: i_def)
      then show ?thesis using False psn [OF i(1)] i by (simp add: m_def)
    qed
    then show "outside_map F g (current_pose s) (goal_points s ! current_step (s\<lparr>current_step := m, last_goal := pose_goal F (current_pose s),
      local_goal := pose_goal F (goal_points s ! m)\<rparr>)) \<or> current_step (s\<lparr>current_step := m, last_goal := pose_goal F (current_pose s),
      local_goal := pose_goal F (goal_points s ! m)\<rparr>) + 1 = min (current_step s + 3) (length (goal_points s))"
      by (simp add: fwd_def n_def)
  qed (use m fwd in \<open>auto simp: n_def\<close>)
qed

text \<open>
  In a round that comes close to a goal which is not the last point, the robot turns to a later point, at most two further: the
  map reaches every point before it, and it is outside the map itself or the last point of the look-ahead.
\<close>

theorem next_goal_chosen:
  assumes "\<not> at_last_point s" and "current_step s < length (goal_points s)" and "costmap s = Some g"
    and "fp_lt F (goal_distance F s) (fp_mul F (fp_lit F (15 / 10)) tol)"
    and "goalReached F tol (car_getLocalGoal F) s = r"
  shows "\<exists>s'. r = Inr (False, s') \<and> current_step s \<le> current_step s' \<and> current_step s' \<le> current_step s + 2 \<and>
    current_step s' < length (goal_points s) \<and> local_goal s' = pose_goal F (goal_points s ! current_step s') \<and>
    (\<forall>k. current_step s \<le> k \<and> k < current_step s' \<longrightarrow> \<not> outside_map F g (current_pose s) (goal_points s ! k)) \<and>
    (outside_map F g (current_pose s) (goal_points s ! current_step s') \<or>
       current_step s' + 1 = min (current_step s + 3) (length (goal_points s)))"
proof -
  obtain s' where s': "car_getLocalGoal F (s\<lparr>goal_update := False\<rparr>) = Inr (True, s')" "current_step s \<le> current_step s'"
    "current_step s' \<le> current_step s + 2" "current_step s' < length (goal_points s)"
    "local_goal s' = pose_goal F (goal_points s ! current_step s')"
    "\<forall>k. current_step s \<le> k \<and> k < current_step s' \<longrightarrow> \<not> outside_map F g (current_pose s) (goal_points s ! k)"
    "outside_map F g (current_pose s) (goal_points s ! current_step s') \<or>
       current_step s' + 1 = min (current_step s + 3) (length (goal_points s))"
    using assms(2,3) car_getLocalGoal_spec [of "s\<lparr>goal_update := False\<rparr>" g F] by auto
  have "r = Inr (False, s'\<lparr>goal_update := True\<rparr>)"
    using assms(1,4,5) s'(1) by (auto simp: goalReached_def)
  then show ?thesis using s'(2-7) by auto
qed

text \<open>
  A path that arrives while the pose is fresh starts a drive, but after the points of the paths before it: whatever the
  new path is, the robot heads for the first point it was ever given.
\<close>

theorem old_path_first:
  assumes "goal_points s = p # ps" and "pose_update s"
  shows "\<exists>s'. planner_step S (GoalMsg new b) s = Inr (s', []) \<and> goal_points s' = p # ps @ new \<and> current_step s' = 0 \<and>
    local_goal s' = pose_goal (su_fp S) p \<and> goal_update s'"
  using assms by (simp add: goalCallback_def Let_def)

subsection \<open>No run fails\<close>

definition map_ok :: "rat OccupancyGrid \<Rightarrow> bool" where
  "map_ok g \<longleftrightarrow> 0 < grid_resolution g \<and> grid_width g \<le> 100000000 \<and> grid_height g \<le> 100000000 \<and>
     grid_height g * grid_width g \<le> length (grid_data g)"

lemma to_int_exact:
  assumes "\<bar>x\<bar> \<le> of_int INT_MAX"
  shows "\<exists>n. to_int (exact_fp cs sn sq an) x = Inr n"
proof -
  have "x \<le> of_int INT_MAX" "- of_int INT_MAX \<le> x" using assms by linarith+
  then have "\<lfloor>x\<rfloor> \<le> INT_MAX" "\<lceil>x\<rceil> \<le> INT_MAX" "- INT_MAX \<le> \<lfloor>x\<rfloor>" "- INT_MAX \<le> \<lceil>x\<rceil>"
    by (simp_all add: floor_le_iff le_floor_iff ceiling_le_iff le_ceiling_iff)
  then show ?thesis by (auto simp: to_int_def Let_def INT_MAX_def INT_MIN_def)
qed

lemma cell_index_exact:
  assumes "\<bar>x\<bar> \<le> of_nat w * r" and "0 < r" and "w \<le> 100000000" and "n \<le> 100000000"
  shows "\<exists>i. cell_index (exact_fp cs sn sq an) r x n = Inr i"
  unfolding cell_index_def
proof (rule to_int_exact)
  define q where "q = x / r + 1 / 2"
  have "\<bar>x / r\<bar> \<le> of_nat w" using assms(1,2) by (simp add: abs_divide pos_divide_le_eq)
  then have xr: "x / r \<le> of_nat w" "- of_nat w \<le> x / r" by linarith+
  have wn: "(of_nat w :: rat) \<le> 100000000" "(of_nat n :: rat) \<le> 100000000"
    using assms(3,4) by (metis of_nat_le_iff of_nat_numeral)+
  have fl: "of_int \<lfloor>q\<rfloor> \<le> q" "q - 1 \<le> of_int \<lfloor>q\<rfloor>" by linarith+
  have n0: "(0 :: rat) \<le> of_nat n" by simp
  have q: "q \<le> 100000001" "- 100000000 \<le> q" using xr wn(1) unfolding q_def by linarith+
  have "of_int \<lfloor>q\<rfloor> + of_nat n * (1 / 2) \<le> (of_int INT_MAX :: rat)" "- of_int INT_MAX \<le> of_int \<lfloor>q\<rfloor> + of_nat n * (1 / 2 :: rat)"
    unfolding INT_MAX_def of_int_numeral using fl n0 q wn(2) by linarith+
  then have "\<bar>of_int \<lfloor>q\<rfloor> + of_nat n * (1 / 2)\<bar> \<le> (of_int INT_MAX :: rat)" by linarith
  then show "\<bar>fp_add (exact_fp cs sn sq an) (fp_floor (exact_fp cs sn sq an) (fp_add (exact_fp cs sn sq an)
      (fp_div (exact_fp cs sn sq an) x r) (fp_lit (exact_fp cs sn sq an) (5 / 10))))
      (fp_mul (exact_fp cs sn sq an) (fp_int (exact_fp cs sn sq an) (int n)) (fp_lit (exact_fp cs sn sq an) (5 / 10)))\<bar> \<le> of_int INT_MAX"
    by (simp add: q_def)
qed

lemma grid_at_ok:
  assumes "map_ok g" and "0 \<le> i" "i < int (grid_width g)" "0 \<le> j" "j < int (grid_height g)"
  shows "\<exists>c. grid_at g (nat j * grid_width g + nat i) = Inr c"
proof -
  have "nat j * grid_width g + nat i < (nat j + 1) * grid_width g" using assms(2,3) by simp
  also have "\<dots> \<le> grid_height g * grid_width g" using assms(4,5) by (intro mult_right_mono) auto
  also have "\<dots> \<le> length (grid_data g)" using assms(1) by (simp add: map_ok_def)
  finally show ?thesis by (simp add: grid_at_def)
qed

lemma ray_loop_returns:
  assumes "map_ok g" and "\<And>x. \<bar>cs x\<bar> \<le> 1 \<and> \<bar>sn x\<bar> \<le> 1" and "0 \<le> d"
    and "of_nat (grid_width g) * grid_resolution g - d < of_nat fuel * grid_resolution g"
  shows "\<exists>r. ray_loop (exact_fp cs sn sq an) g cur (of_nat (grid_width g) * grid_resolution g) angle fuel d = Inr r"
  using assms(3,4)
proof (induction fuel arbitrary: d)
  case 0
  then show ?case by (subst ray_loop.simps) simp
next
  case (Suc fuel)
  let ?F = "exact_fp cs sn sq an"
  show ?case
  proof (cases "d \<le> of_nat (grid_width g) * grid_resolution g")
    case True
    have b: "\<bar>d * c\<bar> \<le> of_nat (grid_width g) * grid_resolution g" if "\<bar>c\<bar> \<le> 1" for c
    proof -
      have "\<bar>d * c\<bar> \<le> d" using Suc.prems(1) that mult_left_mono [of "\<bar>c\<bar>" 1 d] by (simp add: abs_mult)
      then show ?thesis using True by linarith
    qed
    note ok = assms(1) [unfolded map_ok_def]
    obtain i where i: "cell_index ?F (grid_resolution g) (d * cs angle) (grid_width g) = Inr i"
      using cell_index_exact [OF b [of "cs angle"]] assms(2) ok by blast
    obtain j where j: "cell_index ?F (grid_resolution g) (d * sn angle) (grid_height g) = Inr j"
      using cell_index_exact [OF b [of "sn angle"]] assms(2) ok by blast
    have "\<exists>r. ray_loop ?F g cur (of_nat (grid_width g) * grid_resolution g) angle fuel (d + grid_resolution g) = Inr r"
      using Suc.IH [of "d + grid_resolution g"] Suc.prems ok by (simp add: algebra_simps)
    moreover have "\<exists>c. grid_at g (nat j * grid_width g + nat i) = Inr c"
      if "\<not> (i < 0 \<or> int (grid_width g) \<le> i \<or> j < 0 \<or> int (grid_height g) \<le> j)"
      using grid_at_ok [OF assms(1), of i j] that by auto
    ultimately show ?thesis
      by (cases "i < 0 \<or> int (grid_width g) \<le> i \<or> j < 0 \<or> int (grid_height g) \<le> j")
        (subst ray_loop.simps, use True i j in auto)+
  next
    case False
    then show ?thesis by (subst ray_loop.simps) simp
  qed
qed

lemma car_raycast_returns:
  assumes "costmap s = Some g" and "map_ok g" and "\<And>x. \<bar>cs x\<bar> \<le> 1 \<and> \<bar>sn x\<bar> \<le> 1" and "grid_width g < fuel" and "32 \<le> fuel"
  shows "\<exists>obs. car_raycast (exact_fp cs sn sq an) fuel s = Inr obs"
proof -
  let ?F = "exact_fp cs sn sq an"
  define yaw where "yaw = getYaw ?F (orientation (current_pose s))"
  have "of_nat (grid_width g) * grid_resolution g - 0 < of_nat fuel * grid_resolution g"
    using assms(2,4) by (simp add: map_ok_def)
  then have ray: "\<exists>r. ray_loop ?F g cur (of_nat (grid_width g) * grid_resolution g) angle fuel 0 = Inr r" for cur angle
    using ray_loop_returns [OF assms(2,3), of 0] by simp
  have "(yaw + M_PI) - (yaw - M_PI) < of_nat 32 * (2 / 10)" by (simp add: M_PI_def)
  also have "\<dots> \<le> of_nat fuel * (2 / 10)"
  proof (rule mult_right_mono)
    show "(of_nat 32 :: rat) \<le> of_nat fuel" using assms(5) by (simp only: of_nat_le_iff)
  qed simp
  finally have turn: "(yaw + M_PI) - (yaw - M_PI) < of_nat fuel * (2 / 10)" .
  have "\<exists>obs. for_loop ?F (\<lambda>v. fp_add ?F v (2 / 10)) (yaw + M_PI)
      (\<lambda>angle obs. case ray_loop ?F g (pos_x (current_pose s), pos_y (current_pose s)) (of_nat (grid_width g) * grid_resolution g) angle fuel 0 of
         Inl e \<Rightarrow> Inl e | Inr None \<Rightarrow> Inr obs | Inr (Some p) \<Rightarrow> Inr (obs @ [p])) fuel (yaw - M_PI) [] = Inr obs"
  proof (rule exact_loop_returns [OF turn])
    fix angle obs
    obtain r where "ray_loop ?F g (pos_x (current_pose s), pos_y (current_pose s)) (of_nat (grid_width g) * grid_resolution g) angle fuel 0 = Inr r"
      using ray by blast
    then show "\<exists>obs2. (case ray_loop ?F g (pos_x (current_pose s), pos_y (current_pose s)) (of_nat (grid_width g) * grid_resolution g) angle fuel 0 of
         Inl e \<Rightarrow> Inl e | Inr None \<Rightarrow> Inr obs | Inr (Some p) \<Rightarrow> Inr (obs @ [p])) = Inr obs2"
      by (cases r) auto
  qed
  then show ?thesis using assms(1) by (simp add: car_raycast_def Let_def flip: yaw_def)
qed

text \<open>What a state needs for the next round: a map behind its flag, and a current goal within the path.\<close>

definition plan_ready :: "nat \<Rightarrow> rat planner \<Rightarrow> bool" where
  "plan_ready fuel s \<longleftrightarrow> watch_wf s \<and> (watch_cnt s ! 3 \<le> CNT_MAX \<longrightarrow> costmap s \<noteq> None) \<and>
     (goal_update s \<longrightarrow> current_step s < length (goal_points s)) \<and>
     (\<forall>g. costmap s = Some g \<longrightarrow> map_ok g \<and> grid_width g < fuel)"

fun event_fits :: "nat \<Rightarrow> rat planner_event \<Rightarrow> bool" where
  "event_fits fuel (GoalMsg ps b) = (ps \<noteq> [])"
| "event_fits fuel (MapMsg g) = (map_ok g \<and> grid_width g < fuel)"
| "event_fits fuel _ = True"

definition planning_fits :: "rat planning \<Rightarrow> (rat \<Rightarrow> rat) \<Rightarrow> (rat \<Rightarrow> rat) \<Rightarrow> (rat \<Rightarrow> rat) \<Rightarrow> (rat \<Rightarrow> rat \<Rightarrow> rat) \<Rightarrow> bool" where
  "planning_fits S cs sn sq an \<longleftrightarrow> su_fp S = exact_fp cs sn sq an \<and> (\<forall>x. \<bar>cs x\<bar> \<le> 1 \<and> \<bar>sn x\<bar> \<le> 1) \<and>
     0 < num_steps (su_params S) \<and> max 2 (num_samples_x (su_params S)) \<le> int (su_fuel S) \<and>
     max 2 (num_samples_theta (su_params S)) \<le> int (su_fuel S) \<and> 32 \<le> su_fuel S"

lemma plan_command_returns:
  assumes "planning_fits S cs sn sq an" and "costmap s = Some g" and "map_ok g" and "grid_width g < su_fuel S"
  shows "\<exists>t. plan_command S s = Inr t"
proof -
  note fits = assms(1) [unfolded planning_fits_def]
  obtain obs where obs: "car_raycast (su_fp S) (su_fuel S) s = Inr obs"
    using car_raycast_returns [of s g cs sn "su_fuel S" sq an] fits assms(2-4) by auto
  define current where "current = \<lparr>st_x = pos_x (current_pose s), st_y = pos_y (current_pose s),
    st_yaw = getYaw (su_fp S) (orientation (current_pose s)), st_velocity = linear_x (odom_msg s), st_yawrate = angular_z (odom_msg s)\<rparr>"
  obtain r where r: "generateTrajectory (su_fp S) (su_fuel S) (su_yaml S) (su_params S) current (last_goal s) (local_goal s)
      (back_allowed s) (max_vel_from_global s) (if obs = [] then None else Some obs) = Inr r"
    using generate_returns [of "su_params S" "su_fuel S" cs sn sq an] fits by metis
  moreover obtain heap traj where "r = (heap, traj)" by (cases r)
  moreover have "traj \<noteq> []"
    using generate_within_limits [OF _ _ r [unfolded calculation(2)]] fits exact.float_order_axioms by metis
  ultimately show ?thesis using obs by (simp add: plan_command_def Let_def flip: current_def)
qed

lemma plan_round_returns:
  assumes "planning_fits S cs sn sq an" and "plan_ready (su_fuel S) s"
  shows "\<exists>s' out. plan_round S s = Inr (s', out) \<and> plan_ready (su_fuel S) s'"
proof (cases "goal_update s \<and> odom_update s \<and> pose_update s \<and> map_update s")
  case True
  note ready = assms(2) [unfolded plan_ready_def]
  have "watch_cnt s ! 3 \<le> CNT_MAX" using ready True by (auto simp: watch_wf_def fresh_flag_def)
  then obtain g where g: "costmap s = Some g" "map_ok g" "grid_width g < su_fuel S" using ready by auto
  have step: "current_step s < length (goal_points s)" using ready True by simp
  obtain c s1 where reached: "goalReached (su_fp S) (cf_goal_tolerance (su_config S)) (car_getLocalGoal (su_fp S)) s = Inr (c, s1)"
    and s1: "current_step s1 < length (goal_points s)"
  proof -
    obtain s2 where "car_getLocalGoal (su_fp S) (s\<lparr>goal_update := False\<rparr>) = Inr (True, s2)" "current_step s2 < length (goal_points s)"
      using car_getLocalGoal_spec [of "s\<lparr>goal_update := False\<rparr>" g "su_fp S"] step g(1) by auto
    then show thesis using that step
      by (cases "at_last_point s"; cases "fp_lt (su_fp S) (goal_distance (su_fp S) s)
        (fp_mul (su_fp S) (fp_lit (su_fp S) (15 / 10)) (cf_goal_tolerance (su_config S)))") (auto simp: goalReached_def)
  qed
  from goalReached_frame [OF reached] True have f: "same_inputs s s1" "goal_update s1" by auto
  then have r1: "plan_ready (su_fuel S) s1" "plan_ready (su_fuel S) (s1\<lparr>goal_update := False\<rparr>)"
    using ready s1 by (auto simp: plan_ready_def same_inputs_def watch_wf_def fresh_flag_def)
  obtain t where t: "plan_command S s1 = Inr t"
    using plan_command_returns [OF assms(1) _ g(2,3), of s1] f(1) g(1) by (auto simp: same_inputs_def)
  show ?thesis using True reached t r1 by (cases c) (auto simp: plan_round_def)
next
  case False
  then show ?thesis using assms(2) unfolding plan_round_def if_not_P [OF False] by blast
qed

lemma step_returns:
  assumes "planning_fits S cs sn sq an" and "plan_ready (su_fuel S) s" and "event_fits (su_fuel S) e"
  shows "\<exists>s' out. planner_step S e s = Inr (s', out) \<and> plan_ready (su_fuel S) s'"
proof -
  note ready = assms(2) [unfolded plan_ready_def]
  have wf: "length (watch_cnt s) = 6" using ready by (simp add: watch_wf_def)
  have ex: "\<exists>s' out. planner_step S e s = Inr (s', out)"
    using assms plan_round_returns [OF assms(1,2)]
    by (cases e) (auto simp: goalCallback_def Let_def replanCallback_def split: if_splits)
  then obtain s' out where s': "planner_step S e s = Inr (s', out)" by blast
  have "plan_ready (su_fuel S) s'"
  proof (cases e)
    case PlanRound then show ?thesis using plan_round_returns [OF assms(1,2)] s' by auto
  next
    case TimerTick
    have "costmap s \<noteq> None" if "bump (watch_cnt s ! 3) \<le> CNT_MAX" using that ready by (auto simp: bump_def split: if_splits)
    then show ?thesis using TimerTick s' ready watch_wf_step [OF s'] on_timer_watch(1) [OF wf, of 3]
      by (auto simp: plan_ready_def on_timer_def Let_def)
  qed (use s' ready assms(3) wf watch_wf_step [OF s'] in \<open>auto simp: plan_ready_def odomCallback_def poseCallback_def mapCallback_def
         maxVelCallback_def replanCallback_def goalCallback_def Let_def split: if_splits\<close>)
  then show ?thesis using s' by blast
qed

lemma run_ready:
  assumes "planning_fits S cs sn sq an" and "plan_ready (su_fuel S) s" and "\<And>e. e \<in> set es \<Longrightarrow> event_fits (su_fuel S) e"
  shows "\<exists>s' out. planner_run S es s = Inr (s', out) \<and> plan_ready (su_fuel S) s'"
  using assms(2,3)
proof (induction es arbitrary: s)
  case (Cons e es)
  obtain s1 o1 where s1: "planner_step S e s = Inr (s1, o1)" "plan_ready (su_fuel S) s1"
    using step_returns [OF assms(1) Cons.prems(1)] Cons.prems(2) by (metis list.set_intros(1))
  then obtain s2 o2 where "planner_run S es s1 = Inr (s2, o2)" "plan_ready (su_fuel S) s2"
    using Cons.IH [OF s1(2)] Cons.prems(2) by auto
  then show ?case using s1(1) by (auto simp: planner_run_Cons)
qed simp

lemma plan_ready_init: "plan_ready fuel (planner_init F C junk)"
  using watch_wf_init [of F C junk] by (simp add: plan_ready_def planner_init_def CNT_MAX_def)

text \<open>
  C26: However messages, ticks and rounds follow each other, the node goes on: as long as paths are not empty and maps hold their
  cells, no null pointer is followed, no index is out of range, and every loop ends.
\<close>

theorem planner_never_fails:
  assumes "planning_fits S cs sn sq an" and "\<forall>e \<in> set es. event_fits (su_fuel S) e"
  shows "\<exists>s' out. planner_run S es (planner_init (su_fp S) (su_config S) junk) = Inr (s', out)"
  using run_ready [OF assms(1) plan_ready_init] assms(2) by blast

subsection \<open>A drive\<close>

definition line_planning :: "rat planning" where
  "line_planning = \<lparr>su_fp = line_fp, su_fuel = 32, su_yaml = line_yaml, su_config = planner_readYaml line_fp line_yaml,
     su_params = line_params\<rparr>"

definition line_pose :: "rat \<Rightarrow> rat Pose" where
  "line_pose x = \<lparr>pos_x = x, pos_y = 0, orientation = \<lparr>q_x = 0, q_y = 0, q_z = 0, q_w = 1\<rparr>\<rparr>"

text \<open>The robot stands at the origin of an empty map and is told to go to a point four ahead.\<close>

definition drive_events :: "rat planner_event list" where
  "drive_events =
     [OdomMsg \<lparr>frame_id = '''', linear_x = 2, angular_z = 0\<rparr>, PoseMsg (line_pose 0),
      MapMsg \<lparr>grid_resolution = 1, grid_width = 2, grid_height = 2, grid_data = [0, 0, 0, 0]\<rparr>, TimerTick,
      GoalMsg [line_pose 4] False, PlanRound]"

abbreviation drive_start :: "rat planner" where
  "drive_start \<equiv> planner_init line_fp (su_config line_planning) ((0, 0, 0), (0, 0, 0))"

lemma line_planning_fits: "planning_fits line_planning (\<lambda>x. 1) (\<lambda>x. 0) (\<lambda>q. if q = 4 then 2 else if q = 16 then 4 else q) (\<lambda>y x. 0)"
  using line_steps by (simp add: planning_fits_def line_planning_def line_fp_def)

lemma line_config: "su_fp line_planning = line_fp" "su_fuel line_planning = 32" "su_params line_planning = line_params"
  by (simp_all add: line_planning_def)

lemma line_run:
  assumes "plan_ready 32 s" and "list_all (event_fits 32) es"
  obtains s' out where "planner_run line_planning es s = Inr (s', out)" "plan_ready 32 s'"
  using run_ready [OF line_planning_fits, of s es] assms by (auto simp: line_config list_all_iff)

lemma drive_sees: "event_fits 32 e" if "e \<in> set drive_events"
  using that by (auto simp: drive_events_def map_ok_def)

lemma drive_prefix:
  "\<exists>s. planner_run line_planning (take 5 drive_events) drive_start = Inr (s, []) \<and> goal_update s \<and> odom_update s \<and> pose_update s \<and>
     map_update s \<and> at_last_point s \<and> fst (local_goal s) = 4 \<and> fst (snd (local_goal s)) = 0 \<and> current_pose s = line_pose 0"
  by (simp add: planner_run_Cons drive_events_def planner_init_def odomCallback_def poseCallback_def mapCallback_def on_timer_def
    CNT_MAX_def bump_def goalCallback_def Let_def at_last_point_def pose_goal_def line_pose_def numeral_eq_Suc)

lemma planner_run_append:
  assumes "planner_run S es s = Inr (s1, o1)" and "planner_run S fs s1 = Inr (s2, o2)"
  shows "planner_run S (es @ fs) s = Inr (s2, o1 @ o2)"
  using assms
proof (induction rule: planner_run_induct)
  case (Cons e es s s1 o1 s2 o2)
  then show ?case by (fastforce simp: planner_run_Cons)
qed simp

text \<open>The first round publishes a command.\<close>

lemma drive_moves: "\<exists>s t. planner_run line_planning drive_events drive_start = Inr (s, [t])"
proof -
  obtain s where s: "planner_run line_planning (take 5 drive_events) drive_start = Inr (s, [])" "goal_update s" "odom_update s"
    "pose_update s" "map_update s" "at_last_point s" "fst (local_goal s) = 4" "fst (snd (local_goal s)) = 0" "current_pose s = line_pose 0"
    using drive_prefix by blast
  have ready: "plan_ready 32 s"
  proof -
    have "\<exists>s' out. planner_run line_planning (take 5 drive_events) drive_start = Inr (s', out) \<and> plan_ready 32 s'"
      using run_ready [OF line_planning_fits, of drive_start "take 5 drive_events"] plan_ready_init [of 32 line_fp]
        drive_sees in_set_takeD line_config by metis
    then show ?thesis using s(1) by auto
  qed
  then obtain s' out where r: "plan_round line_planning s = Inr (s', out)"
    using plan_round_returns [OF line_planning_fits] line_config(2) by metis
  from r have "\<exists>t. out = [t]"
    by (cases rule: plan_round_cases) (use s(2-5) in auto)
  then obtain t where "planner_run line_planning [PlanRound] s = Inr (s', [t])" using r by (auto simp: planner_run_Cons)
  from planner_run_append [OF s(1) this] show ?thesis by (auto simp: drive_events_def)
qed

theorem silent_sensor_blocks_witness:
  "\<exists>s0 t s1 out1 s2 out2. planner_run line_planning drive_events drive_start = Inr (s0, [t]) \<and>
     planner_run line_planning (replicate 21 TimerTick) s0 = Inr (s1, out1) \<and>
     planner_run line_planning [PoseMsg (line_pose 1), PlanRound] s1 = Inr (s2, out2) \<and> out2 = []"
proof -
  obtain s0 t where s0: "planner_run line_planning drive_events drive_start = Inr (s0, [t])" using drive_moves by blast
  have "\<exists>s out. planner_run line_planning drive_events drive_start = Inr (s, out) \<and> plan_ready 32 s"
    using run_ready [OF line_planning_fits, of drive_start drive_events] plan_ready_init [of 32 line_fp] drive_sees line_config by metis
  then have "plan_ready 32 s0" using s0 by auto
  then obtain s1 out1 where s1: "planner_run line_planning (replicate 21 TimerTick) s0 = Inr (s1, out1)" "plan_ready 32 s1"
    by (rule line_run [of s0 "replicate 21 TimerTick"]) (auto simp: list_all_iff)
  obtain s2 out2 where s2: "planner_run line_planning [PoseMsg (line_pose 1), PlanRound] s1 = Inr (s2, out2)"
    by (rule line_run [OF s1(2), of "[PoseMsg (line_pose 1), PlanRound]"]) auto
  have "out2 = []"
    by (rule silent_sensor_blocks [OF s0 s1(1) _ s2, of 0]) (auto simp: ticks_def)
  then show ?thesis using s0 s1(1) s2 by blast
qed

theorem stop_is_final_witness:
  "\<exists>s1 out1 s2 out2. planner_step line_planning ReplanMsg drive_start = Inr (s1, out1) \<and>
     planner_run line_planning [TimerTick, PlanRound] s1 = Inr (s2, out2) \<and> set out2 \<subseteq> {stop_twist line_fp}"
proof -
  obtain s1 out1 where s1: "planner_step line_planning ReplanMsg drive_start = Inr (s1, out1)" "plan_ready 32 s1"
    using step_returns [OF line_planning_fits, of drive_start ReplanMsg] plan_ready_init [of 32 line_fp] line_config(2) by auto
  obtain s2 out2 where s2: "planner_run line_planning [TimerTick, PlanRound] s1 = Inr (s2, out2)"
    by (rule line_run [OF s1(2), of "[TimerTick, PlanRound]"]) auto
  from stop_is_final [OF s1(1) _ s2] s1(1) s2 line_config(1) show ?thesis by fastforce
qed


theorem next_goal_chosen_witness:
  "\<exists>s'. goalReached line_fp 1 (car_getLocalGoal line_fp)
       (drive_start\<lparr>goal_points := map line_pose [0, 1, 2, 9], costmap :=
          Some \<lparr>grid_resolution = 1, grid_width = 4, grid_height = 4, grid_data = replicate 16 0\<rparr>\<rparr>) = Inr (False, s') \<and>
     current_step s' \<le> 2"
proof -
  let ?s = "drive_start\<lparr>goal_points := map line_pose [0, 1, 2, 9], costmap :=
          Some \<lparr>grid_resolution = 1, grid_width = 4, grid_height = 4, grid_data = replicate 16 0\<rparr>\<rparr>"
  have "\<not> at_last_point ?s" "current_step ?s < length (goal_points ?s)" "current_step ?s = 0"
    by (simp_all add: at_last_point_def planner_init_def)
  moreover have "fp_lt line_fp (goal_distance line_fp ?s) (fp_mul line_fp (fp_lit line_fp (15 / 10)) 1)"
    by (simp add: goal_distance_def planner_init_def line_fp_def)
  ultimately show ?thesis using next_goal_chosen [of ?s _ line_fp 1] by fastforce
qed

theorem old_path_first_witness:
  "\<exists>s'. planner_step line_planning (GoalMsg [line_pose 9] False) (drive_start\<lparr>goal_points := [line_pose 4], pose_update := True\<rparr>) =
     Inr (s', []) \<and> goal_points s' = [line_pose 4, line_pose 9] \<and> local_goal s' = pose_goal line_fp (line_pose 4)"
  using old_path_first [of "drive_start\<lparr>goal_points := [line_pose 4], pose_update := True\<rparr>" "line_pose 4" "[]" line_planning
    "[line_pose 9]" False] by (auto simp: line_config)

theorem planner_never_fails_witness:
  "\<exists>s' out. planner_run line_planning drive_events drive_start = Inr (s', out)"
  using planner_never_fails [OF line_planning_fits, of drive_events] drive_sees line_config by metis

end
