(* ===== verification/LocalGrid.thy ===== *)
theory LocalGrid
  imports DwaPlanner
begin

text \<open>
  The local map, src/LocalMap: the points of the lidar are cropped, turned into the orientation of the world and
  entered into a grid around the robot (PointHandle.cpp), the grid is made a message (GridFusion.cpp), and
  the node publishes it on a timer (GridNode.cpp). The conversion of a message to points, the crop box of PCL and the
  rotation by a quaternion of Eigen are parameters. The two classes share one array of cells through a pointer, so arrays have addresses.
\<close>

definition GRID_WIDTH :: nat where "GRID_WIDTH = 100"
definition GRID_HEIGHT :: nat where "GRID_HEIGHT = 100"

definition map_resolution :: "'d fp \<Rightarrow> 'd" where
  "map_resolution F = fp_lit F (2 / 10)"

definition actual_half_width :: "'d fp \<Rightarrow> 'd" where
  "actual_half_width F = fp_single F (fp_div F (fp_mul F (map_resolution F) (fp_int F (int GRID_WIDTH))) (fp_lit F 2))"

definition actual_half_height :: "'d fp \<Rightarrow> 'd" where
  "actual_half_height F = fp_single F (fp_div F (fp_mul F (map_resolution F) (fp_int F (int GRID_HEIGHT))) (fp_lit F 2))"

definition actual_width :: "'d fp \<Rightarrow> 'd" where
  "actual_width F = fp_single F (fp_mul F (map_resolution F) (fp_int F (int GRID_WIDTH)))"

definition actual_height :: "'d fp \<Rightarrow> 'd" where
  "actual_height F = fp_single F (fp_mul F (map_resolution F) (fp_int F (int GRID_WIDTH)))"

subsection \<open>From points to cells\<close>

type_synonym 'd point = "'d \<times> 'd \<times> 'd"

text \<open>\<open>'c\<close> is a point cloud message.\<close>

record ('c, 'd) pcl =
  from_cloud :: "'c \<Rightarrow> 'd point list"
  crop_box :: "'d point \<Rightarrow> 'd point \<Rightarrow> bool \<Rightarrow> 'd point list \<Rightarrow> 'd point list"
  rotate_by :: "'d Quaternion \<Rightarrow> 'd point \<Rightarrow> 'd point"

definition crop_cloud :: "'d fp \<Rightarrow> ('c, 'd) pcl \<Rightarrow> 'd point list \<Rightarrow> 'd point list" where
  "crop_cloud F L cloud =
     (let n = (\<lambda>q. fp_lit F q);
          cb_cloud1 = crop_box L (n (- 10), n (- 10), n (- 10)) (n 10, n 10, n 10) False cloud
      in crop_box L (n (- 10), n (- 10), n (- 3)) (n 10, n 10, n (- 1)) True cb_cloud1)"

definition rotate_cloud :: "'d fp \<Rightarrow> ('c, 'd) pcl \<Rightarrow> 'd Quaternion \<Rightarrow> 'd point list \<Rightarrow> 'd point list" where
  "rotate_cloud F L q cloud =
     map (\<lambda>p. case rotate_by L q p of (x, y, z) \<Rightarrow> (fp_single F x, fp_single F y, fp_single F z)) cloud"

type_synonym cells = "u8 list list"

definition set_cell :: "int \<Rightarrow> int \<Rightarrow> cells \<Rightarrow> error + cells" where
  "set_cell r c m =
     (if r < 0 \<or> int (length m) \<le> r then Inl OutOfBounds
      else if c < 0 \<or> int (length (m ! nat r)) \<le> c then Inl OutOfBounds
      else Inr (m[nat r := (m ! nat r)[nat c := 100]]))"

definition enter_point :: "'d fp \<Rightarrow> 'd point \<Rightarrow> cells \<Rightarrow> error + cells" where
  "enter_point F p m =
     (let x = fp_single F (fp_add F (fst p) (actual_half_width F));
          y = fp_single F (fp_add F (fst (snd p)) (actual_half_height F)); zero = fp_lit F 0 in
      if fp_le F zero x \<and> fp_lt F x (actual_width F) \<and> fp_le F zero y \<and> fp_lt F y (actual_height F) then
        (case to_int F (fp_div F y (map_resolution F)) of Inl e \<Rightarrow> Inl e
         | Inr r \<Rightarrow> (case to_int F (fp_div F x (map_resolution F)) of Inl e \<Rightarrow> Inl e
         | Inr c \<Rightarrow> set_cell r c m))
      else Inr m)"

definition zero_cells :: cells where
  "zero_cells = replicate GRID_HEIGHT (replicate GRID_WIDTH 0)"

text \<open>\<open>PointHandle::run\<close> on a cleared array: the points in the orientation of the world, one cell after the other.\<close>

definition world_points :: "'d fp \<Rightarrow> ('c, 'd) pcl \<Rightarrow> 'c \<Rightarrow> 'd Pose \<Rightarrow> 'd point list" where
  "world_points F L cloud pose = rotate_cloud F L (orientation pose) (crop_cloud F L (from_cloud L cloud))"

definition point_run :: "'d fp \<Rightarrow> ('c, 'd) pcl \<Rightarrow> 'c \<Rightarrow> 'd Pose \<Rightarrow> error + cells" where
  "point_run F L cloud pose = fold_res (enter_point F) (world_points F L cloud pose) zero_cells"

subsection \<open>The grid message\<close>

record 'd grid_msg =
  gm_frame :: string
  gm_origin :: "'d \<times> 'd \<times> 'd"
  gm_grid :: "'d OccupancyGrid"

record fusion =
  fu_map :: nat
  ph_map :: nat
  fu_heap :: "nat \<Rightarrow> cells"

definition new_fusion :: "(nat \<Rightarrow> cells) \<Rightarrow> fusion" where
  "new_fusion junk = \<lparr>fu_map = 0, ph_map = 1, fu_heap = junk\<rparr>"

definition setGrid :: "'d fp \<Rightarrow> 'd Pose \<Rightarrow> cells \<Rightarrow> 'd grid_msg" where
  "setGrid F pose m =
     \<lparr>gm_frame = ''map'',
      gm_origin = (fp_sub F (pos_x pose) (actual_half_width F), fp_sub F (pos_y pose) (actual_half_height F), fp_lit F 0),
      gm_grid = \<lparr>grid_resolution = fp_single F (map_resolution F), grid_width = GRID_WIDTH, grid_height = GRID_HEIGHT,
        grid_data = concat m\<rparr>\<rparr>"

text \<open>After the first run the pointer to the cells is that of the point handler; its own array is lost.\<close>

definition fusion_run :: "'d fp \<Rightarrow> ('c, 'd) pcl \<Rightarrow> 'c \<Rightarrow> 'd Pose \<Rightarrow> fusion \<Rightarrow> error + fusion \<times> 'd grid_msg" where
  "fusion_run F L cloud pose s =
     (let s = s\<lparr>fu_heap := (fu_heap s)(fu_map s := zero_cells)\<rparr> in
      case point_run F L cloud pose of Inl e \<Rightarrow> Inl e
      | Inr m \<Rightarrow>
          let s = s\<lparr>fu_heap := (fu_heap s)(ph_map s := m)\<rparr>; s = s\<lparr>fu_map := ph_map s\<rparr>
          in Inr (s, setGrid F pose (fu_heap s (fu_map s))))"

subsection \<open>The node\<close>

text \<open>A \<open>boost::circular_buffer\<close> of a hundred entries drops the oldest one.\<close>

definition ring_push :: "'a \<Rightarrow> 'a list \<Rightarrow> 'a list" where
  "ring_push x xs = (if length xs < 100 then xs @ [x] else tl xs @ [x])"

record ('c, 'd) grid_node =
  gn_points :: "'c list"
  gn_poses :: "'d Pose list"
  gn_fusion :: fusion
  gn_grid :: "'d grid_msg option"

text \<open>
  \<open>shared_from_this\<close> throws as long as no shared pointer owns the object, and \<open>make_shared\<close> takes ownership
  only when the constructor is done. Nothing catches the exception.
\<close>

definition GridNode_init :: "bool \<Rightarrow> 'c \<Rightarrow> 'd Pose \<Rightarrow> (nat \<Rightarrow> cells) \<Rightarrow> error + ('c, 'd) grid_node" where
  "GridNode_init owned cloud pose junk =
     (let s = \<lparr>gn_points = [cloud], gn_poses = [pose], gn_fusion = new_fusion junk, gn_grid = None\<rparr> in
      if owned then Inr s else Inl Terminated)"

definition local_map_main :: "'c \<Rightarrow> 'd Pose \<Rightarrow> (nat \<Rightarrow> cells) \<Rightarrow> error + ('c, 'd) grid_node" where
  "local_map_main cloud pose junk = GridNode_init False cloud pose junk"

definition onPointSub :: "'c \<Rightarrow> ('c, 'd) grid_node \<Rightarrow> ('c, 'd) grid_node" where
  "onPointSub cloud s = s\<lparr>gn_points := ring_push cloud (gn_points s)\<rparr>"

definition onPoseSub :: "'d Pose \<Rightarrow> ('c, 'd) grid_node \<Rightarrow> ('c, 'd) grid_node" where
  "onPoseSub pose s = s\<lparr>gn_poses := ring_push pose (gn_poses s)\<rparr>"

definition runFusion_round :: "'d fp \<Rightarrow> ('c, 'd) pcl \<Rightarrow> ('c, 'd) grid_node \<Rightarrow> error + ('c, 'd) grid_node" where
  "runFusion_round F L s =
     (if gn_poses s = [] \<or> gn_points s = [] then Inl OutOfBounds
      else case fusion_run F L (last (gn_points s)) (last (gn_poses s)) (gn_fusion s) of Inl e \<Rightarrow> Inl e
        | Inr (fu, g) \<Rightarrow> Inr (s\<lparr>gn_fusion := fu, gn_grid := Some g\<rparr>))"

definition onTime :: "('c, 'd) grid_node \<Rightarrow> 'd grid_msg list" where
  "onTime s = (case gn_grid s of None \<Rightarrow> [] | Some g \<Rightarrow> [g])"

datatype ('c, 'd) grid_event = CloudMsg 'c | GridPoseMsg "'d Pose" | FusionRound | GridTimer

fun grid_step :: "'d fp \<Rightarrow> ('c, 'd) pcl \<Rightarrow> ('c, 'd) grid_event \<Rightarrow> (('c, 'd) grid_node, 'd grid_msg) op" where
  "grid_step F L (CloudMsg c) s = Inr (onPointSub c s, [])"
| "grid_step F L (GridPoseMsg p) s = Inr (onPoseSub p s, [])"
| "grid_step F L FusionRound s = (case runFusion_round F L s of Inl e \<Rightarrow> Inl e | Inr s \<Rightarrow> Inr (s, []))"
| "grid_step F L GridTimer s = Inr (s, onTime s)"

definition grid_run :: "'d fp \<Rightarrow> ('c, 'd) pcl \<Rightarrow> ('c, 'd) grid_event list \<Rightarrow> (('c, 'd) grid_node, 'd grid_msg) op" where
  "grid_run F L = for_each (grid_step F L)"

subsection \<open>Every point in its cell\<close>

definition cells_wf :: "cells \<Rightarrow> bool" where
  "cells_wf m \<longleftrightarrow> length m = GRID_HEIGHT \<and> (\<forall>row \<in> set m. length row = GRID_WIDTH)"

text \<open>The square of row \<open>r\<close> and column \<open>c\<close>, relative to the robot.\<close>

definition in_cell :: "rat point \<Rightarrow> nat \<Rightarrow> nat \<Rightarrow> bool" where
  "in_cell p r c \<longleftrightarrow>
     of_nat c / 5 - 10 \<le> fst p \<and> fst p < (of_nat c + 1) / 5 - 10 \<and>
     of_nat r / 5 - 10 \<le> fst (snd p) \<and> fst (snd p) < (of_nat r + 1) / 5 - 10"

lemma sizes_exact:
  "actual_half_width (exact_fp cs sn sq an) = 10" "actual_half_height (exact_fp cs sn sq an) = 10"
  "actual_width (exact_fp cs sn sq an) = 20" "actual_height (exact_fp cs sn sq an) = 20"
  "map_resolution (exact_fp cs sn sq an) = 1 / 5"
  by (simp_all add: actual_half_width_def actual_half_height_def actual_width_def actual_height_def map_resolution_def
      GRID_WIDTH_def GRID_HEIGHT_def)

lemma zero_cells_wf: "cells_wf zero_cells"
  by (simp add: cells_wf_def zero_cells_def)

lemma cells_rows: "cells_wf m \<Longrightarrow> r < 100 \<Longrightarrow> r < length m \<and> length (m ! r) = 100"
  by (simp add: cells_wf_def GRID_WIDTH_def GRID_HEIGHT_def)

lemma set_cell_ok:
  assumes "cells_wf m" and "r < 100" and "c < 100"
  shows "\<exists>m'. set_cell (int r) (int c) m = Inr m' \<and> cells_wf m' \<and>
    (\<forall>i < 100. \<forall>j < 100. m' ! i ! j = (if i = r \<and> j = c then 100 else m ! i ! j))"
proof -
  have rows: "r < length m" "length (m ! r) = 100" using cells_rows [OF assms(1,2)] by auto
  have "cells_wf (m[r := (m ! r)[c := 100]])"
    using assms(1) rows set_update_subset_insert [of m r "(m ! r)[c := 100]"]
    by (auto simp: cells_wf_def GRID_WIDTH_def)
  moreover have "set_cell (int r) (int c) m = Inr (m[r := (m ! r)[c := 100]])"
    using rows assms(2,3) by (simp add: set_cell_def)
  moreover have "(m[r := (m ! r)[c := 100]]) ! i ! j = (if i = r \<and> j = c then 100 else m ! i ! j)" if "i < 100" "j < 100" for i j
    using rows assms(3) that by (auto simp: nth_list_update)
  ultimately show ?thesis by blast
qed

lemma cell_number:
  assumes "0 \<le> (x :: rat)" and "x < 20"
  shows "\<exists>c < 100. to_int (exact_fp cs sn sq an) (x / (1 / 5)) = Inr (int c) \<and> (\<forall>k. of_nat k / 5 \<le> x \<and> x < (of_nat k + 1) / 5 \<longleftrightarrow> k = c)"
proof -
  define c where "c = nat \<lfloor>5 * x\<rfloor>"
  have fl: "0 \<le> \<lfloor>5 * x\<rfloor>" "\<lfloor>5 * x\<rfloor> < 100" using assms by (simp_all add: floor_less_iff)
  then have "to_int (exact_fp cs sn sq an) (x / (1 / 5)) = Inr (int c)"
    using assms(1) by (simp add: to_int_def c_def INT_MIN_def INT_MAX_def mult.commute)
  moreover have "of_nat k / 5 \<le> x \<and> x < (of_nat k + 1) / 5 \<longleftrightarrow> k = c" for k
  proof -
    have "k = c \<longleftrightarrow> \<lfloor>5 * x\<rfloor> = int k" using fl(1) by (auto simp: c_def)
    also have "\<dots> \<longleftrightarrow> of_nat k \<le> 5 * x \<and> 5 * x < of_nat k + 1" by (simp add: floor_eq_iff)
    finally show ?thesis by (auto simp: field_simps)
  qed
  moreover have "c < 100" unfolding c_def using fl by linarith
  ultimately show ?thesis by blast
qed

lemma enter_point_exact:
  assumes "cells_wf m"
  shows "\<exists>m'. enter_point (exact_fp cs sn sq an) p m = Inr m' \<and> cells_wf m' \<and>
    (\<forall>r < 100. \<forall>c < 100. m' ! r ! c = (if in_cell p r c then 100 else m ! r ! c))"
proof -
  define x where "x = fst p + 10"
  define y where "y = fst (snd p) + 10"
  have cell: "in_cell p r c \<longleftrightarrow> (of_nat c / 5 \<le> x \<and> x < (of_nat c + 1) / 5) \<and> (of_nat r / 5 \<le> y \<and> y < (of_nat r + 1) / 5)" for r c
    unfolding in_cell_def x_def y_def diff_le_eq less_diff_eq by blast
  show ?thesis
  proof (cases "0 \<le> x \<and> x < 20 \<and> 0 \<le> y \<and> y < 20")
    case True
    then obtain c where c: "c < 100" "to_int (exact_fp cs sn sq an) (x / (1 / 5)) = Inr (int c)"
      "\<And>k. of_nat k / 5 \<le> x \<and> x < (of_nat k + 1) / 5 \<longleftrightarrow> k = c" using cell_number [of x] by blast
    obtain r where r: "r < 100" "to_int (exact_fp cs sn sq an) (y / (1 / 5)) = Inr (int r)"
      "\<And>k. of_nat k / 5 \<le> y \<and> y < (of_nat k + 1) / 5 \<longleftrightarrow> k = r" using cell_number [of y] True by blast
    have "enter_point (exact_fp cs sn sq an) p m = set_cell (int r) (int c) m"
      using True c(2) r(2) by (simp add: enter_point_def sizes_exact Let_def flip: x_def y_def)
    moreover have "in_cell p i j \<longleftrightarrow> i = r \<and> j = c" for i j using cell [of i j] c(3) [of j] r(3) [of i] by blast
    ultimately show ?thesis using set_cell_ok [OF assms r(1) c(1)] by simp
  next
    case False
    have "\<not> in_cell p r c" if rc: "r < 100" "c < 100" for r c
    proof
      assume i: "in_cell p r c"
      have "(of_nat (r + 1) :: rat) \<le> of_nat 100" "(of_nat (c + 1) :: rat) \<le> of_nat 100" using rc by (simp_all only: of_nat_le_iff)
      then have "(of_nat r + 1) / 5 \<le> (20 :: rat)" "(of_nat c + 1) / 5 \<le> (20 :: rat)" by simp_all
      moreover have "0 \<le> (of_nat r :: rat) / 5" "0 \<le> (of_nat c :: rat) / 5" by simp_all
      ultimately have "0 \<le> x \<and> x < 20 \<and> 0 \<le> y \<and> y < 20" using i unfolding cell by linarith
      then show False using False by blast
    qed
    moreover have "enter_point (exact_fp cs sn sq an) p m = Inr m"
      using False by (auto simp: enter_point_def sizes_exact Let_def simp flip: x_def y_def)
    ultimately show ?thesis using assms by simp
  qed
qed

lemma enter_points_exact:
  assumes "cells_wf m"
  shows "\<exists>m'. fold_res (enter_point (exact_fp cs sn sq an)) ps m = Inr m' \<and> cells_wf m' \<and>
    (\<forall>r < 100. \<forall>c < 100. m' ! r ! c = (if \<exists>p \<in> set ps. in_cell p r c then 100 else m ! r ! c))"
  using assms
proof (induction ps arbitrary: m)
  case (Cons p ps)
  obtain m1 where m1: "enter_point (exact_fp cs sn sq an) p m = Inr m1" "cells_wf m1"
    "\<forall>r < 100. \<forall>c < 100. m1 ! r ! c = (if in_cell p r c then 100 else m ! r ! c)"
    using enter_point_exact [OF Cons.prems] by blast
  obtain m2 where m2: "fold_res (enter_point (exact_fp cs sn sq an)) ps m1 = Inr m2" "cells_wf m2"
    "\<forall>r < 100. \<forall>c < 100. m2 ! r ! c = (if \<exists>p \<in> set ps. in_cell p r c then 100 else m1 ! r ! c)"
    using Cons.IH [OF m1(2)] by blast
  have "\<forall>r < 100. \<forall>c < 100. m2 ! r ! c = (if \<exists>q \<in> set (p # ps). in_cell q r c then 100 else m ! r ! c)"
    using m1(3) m2(3) by simp
  then show ?case using m1(1) m2(1,2) by simp
qed simp

lemma zero_cell: "r < 100 \<Longrightarrow> c < 100 \<Longrightarrow> zero_cells ! r ! c = 0"
  by (simp add: zero_cells_def GRID_WIDTH_def GRID_HEIGHT_def)

lemma point_run_exact:
  "\<exists>m. point_run (exact_fp cs sn sq an) L cloud pose = Inr m \<and> cells_wf m \<and>
    (\<forall>r < 100. \<forall>c < 100. m ! r ! c = (if \<exists>p \<in> set (world_points (exact_fp cs sn sq an) L cloud pose). in_cell p r c then 100 else 0))"
proof -
  obtain m where m: "point_run (exact_fp cs sn sq an) L cloud pose = Inr m" "cells_wf m"
    "\<forall>r < 100. \<forall>c < 100. m ! r ! c = (if \<exists>p \<in> set (world_points (exact_fp cs sn sq an) L cloud pose). in_cell p r c
       then 100 else zero_cells ! r ! c)"
    unfolding point_run_def using enter_points_exact [OF zero_cells_wf] by blast
  then show ?thesis using zero_cell by auto
qed

text \<open>
  The grid is the picture of the points: the run never writes outside the array, and a cell is marked exactly if
  one of the cropped and rotated points lies in its square.
\<close>

theorem grid_cells_exact:
  "\<exists>m. point_run (exact_fp cs sn sq an) L cloud pose = Inr m \<and> cells_wf m \<and>
    (\<forall>r < 100. \<forall>c < 100. m ! r ! c = (if \<exists>p \<in> set (world_points (exact_fp cs sn sq an) L cloud pose). in_cell p r c then 100 else 0))"
  by (rule point_run_exact)

subsection \<open>The published grid\<close>

lemma concat_rows:
  assumes "\<forall>row \<in> set m. length row = w" and "r < length m" and "c < w"
  shows "concat m ! (r * w + c) = m ! r ! c"
  using assms
proof (induction m arbitrary: r)
  case (Cons row m)
  then show ?case by (cases r) (auto simp: nth_append)
qed simp

lemma cells_data:
  assumes "cells_wf m"
  shows "length (concat m) = 10000" and "r < 100 \<Longrightarrow> c < 100 \<Longrightarrow> concat m ! (r * 100 + c) = m ! r ! c"
proof -
  have "sum_list (map length m) = sum_list (replicate (length m) 100)"
    using assms by (metis (mono_tags, lifting) GRID_WIDTH_def cells_wf_def map_eq_conv map_replicate_const)
  then show "length (concat m) = 10000" using assms by (simp add: length_concat sum_list_replicate cells_wf_def GRID_HEIGHT_def)
  show "r < 100 \<Longrightarrow> c < 100 \<Longrightarrow> concat m ! (r * 100 + c) = m ! r ! c"
    using concat_rows [of m 100 r c] assms by (simp add: cells_wf_def GRID_WIDTH_def GRID_HEIGHT_def)
qed

definition grid_fits :: "rat OccupancyGrid \<Rightarrow> bool" where
  "grid_fits g \<longleftrightarrow> grid_resolution g = 1 / 5 \<and> grid_width g = 100 \<and> grid_height g = 100 \<and> length (grid_data g) = 10000"

lemma setGrid_fits: "cells_wf m \<Longrightarrow> grid_fits (gm_grid (setGrid (exact_fp cs sn sq an) pose m))"
  by (simp add: setGrid_def grid_fits_def cells_data sizes_exact GRID_WIDTH_def GRID_HEIGHT_def)

definition grid_node_wf :: "('c, rat) grid_node \<Rightarrow> bool" where
  "grid_node_wf s \<longleftrightarrow> gn_points s \<noteq> [] \<and> gn_poses s \<noteq> [] \<and> (\<forall>g. gn_grid s = Some g \<longrightarrow> grid_fits (gm_grid g))"

lemma grid_step_fits:
  assumes "grid_node_wf s"
  shows "\<exists>s' out. grid_step (exact_fp cs sn sq an) L e s = Inr (s', out) \<and> grid_node_wf s' \<and> list_all (\<lambda>g. grid_fits (gm_grid g)) out"
proof (cases e)
  case FusionRound
  obtain m where "point_run (exact_fp cs sn sq an) L (last (gn_points s)) (last (gn_poses s)) = Inr m" "cells_wf m"
    using point_run_exact by metis
  then show ?thesis using assms setGrid_fits FusionRound by (auto simp: runFusion_round_def fusion_run_def Let_def grid_node_wf_def)
next
  case GridTimer
  then show ?thesis using assms by (auto simp: grid_node_wf_def onTime_def split: option.splits)
qed (use assms in \<open>auto simp: grid_node_wf_def onPointSub_def onPoseSub_def ring_push_def\<close>)

lemma grid_run_fits:
  assumes "grid_node_wf s"
  shows "\<exists>s' out. grid_run (exact_fp cs sn sq an) L es s = Inr (s', out) \<and> list_all (\<lambda>g. grid_fits (gm_grid g)) out"
  using assms
proof (induction es arbitrary: s)
  case Nil
  then show ?case by (simp add: grid_run_def skip_def)
next
  case (Cons e es)
  obtain s1 o1 where s1: "grid_step (exact_fp cs sn sq an) L e s = Inr (s1, o1)" "grid_node_wf s1" "list_all (\<lambda>g. grid_fits (gm_grid g)) o1"
    using grid_step_fits [OF Cons.prems] by blast
  obtain s2 o2 where "grid_run (exact_fp cs sn sq an) L es s1 = Inr (s2, o2)" "list_all (\<lambda>g. grid_fits (gm_grid g)) o2"
    using Cons.IH [OF s1(2)] by blast
  then show ?case using s1 by (simp add: grid_run_def and_then_Inr)
qed

text \<open>
  Whatever clouds, poses, rounds and ticks follow, a node of the local map that was set up never fails, and every grid that
  it publishes has all its cells and is one that the planner can use without leaving the data.
\<close>

theorem published_grids_usable:
  assumes "GridNode_init owned cloud pose junk = Inr s0" and "100 < fuel"
  shows "\<exists>s out. grid_run (exact_fp cs sn sq an) L es s0 = Inr (s, out) \<and>
    list_all (\<lambda>g. event_fits fuel (MapMsg (gm_grid g))) out"
proof -
  have "grid_node_wf s0" using assms(1) by (auto simp: GridNode_init_def Let_def grid_node_wf_def split: if_splits)
  then obtain s out where r: "grid_run (exact_fp cs sn sq an) L es s0 = Inr (s, out)" "list_all (\<lambda>g. grid_fits (gm_grid g)) out"
    using grid_run_fits by blast
  have "event_fits fuel (MapMsg g)" if "grid_fits g" for g using that assms(2) by (simp add: grid_fits_def map_ok_def)
  then show ?thesis using r by (auto simp: list_all_iff)
qed

subsection \<open>What the lidar sees, the planner sees\<close>

text \<open>
  The \<open>k\<close>-th sample of a ray whose angle has cosine \<open>c\<close> and sine \<open>s\<close> lies \<open>k\<close> cells away; the planner rounds it to
  a column and a row.
\<close>

definition ray_cell :: "rat \<Rightarrow> nat \<Rightarrow> int" where
  "ray_cell c k = \<lfloor>of_nat k * c + 1 / 2\<rfloor> + 50"

definition off_map :: "rat \<Rightarrow> rat \<Rightarrow> nat \<Rightarrow> bool" where
  "off_map c s k \<longleftrightarrow> ray_cell c k < 0 \<or> 100 \<le> ray_cell c k \<or> ray_cell s k < 0 \<or> 100 \<le> ray_cell s k"

text \<open>The sample at which a ray through the points of the lidar ends, if any, and what it reports.\<close>

definition ray_hit :: "rat point list \<Rightarrow> rat \<Rightarrow> rat \<Rightarrow> nat \<Rightarrow> bool" where
  "ray_hit ps c s k \<longleftrightarrow> (\<exists>p \<in> set ps. in_cell p (nat (ray_cell s k)) (nat (ray_cell c k)))"

definition ray_seen :: "rat point list \<Rightarrow> rat \<Rightarrow> rat \<Rightarrow> rat \<times> rat \<Rightarrow> nat list \<Rightarrow> (rat \<times> rat) option" where
  "ray_seen ps c s cur ks =
     (case List.find (\<lambda>k. off_map c s k \<or> ray_hit ps c s k) ks of
        None \<Rightarrow> None
      | Some k \<Rightarrow> if off_map c s k then None else Some (of_nat k / 5 * c + fst cur, of_nat k / 5 * s + snd cur))"

lemma cell_index_ray:
  assumes "\<bar>c\<bar> \<le> 1" and "k \<le> 100"
  shows "cell_index (exact_fp cs sn sq an) (1 / 5) (of_nat k / 5 * c) 100 = Inr (ray_cell c k)"
proof -
  have k: "(of_nat k :: rat) \<le> 100" using assms(2) of_nat_mono [of k 100, where 'a = rat] by simp
  have "\<bar>of_nat k * c\<bar> \<le> 100 * 1" unfolding abs_mult using assms(1) k by (intro mult_mono) auto
  then have b: "-100 \<le> of_nat k * c" "of_nat k * c \<le> 100" by (simp_all add: abs_le_iff)
  have q: "(of_nat k / 5 * c) / (1 / 5) + 5 / 10 = of_nat k * c + 1 / 2" by simp
  have "-101 \<le> \<lfloor>of_nat k * c + 1 / 2\<rfloor>" "\<lfloor>of_nat k * c + 1 / 2\<rfloor> \<le> 101" using b by (simp_all add: le_floor_iff floor_le_iff)
  then have z: "-51 \<le> ray_cell c k" "ray_cell c k \<le> 151" by (simp_all only: ray_cell_def)
  have "to_int (exact_fp cs sn sq an) (of_int (ray_cell c k)) = Inr (ray_cell c k)"
    using z by (simp add: to_int_def INT_MIN_def INT_MAX_def Let_def)
  moreover have "of_int \<lfloor>(of_nat k / 5 * c) / (1 / 5) + 5 / 10\<rfloor> + of_int 100 * (5 / 10) = (of_int (ray_cell c k) :: rat)"
    unfolding q ray_cell_def by simp
  ultimately show ?thesis by (simp add: cell_index_def)
qed

lemma on_map_index:
  assumes "\<not> off_map c s k"
  shows "nat (ray_cell s k) < 100" and "nat (ray_cell c k) < 100" and "nat (ray_cell s k) * 100 + nat (ray_cell c k) < 10000"
proof -
  show r: "nat (ray_cell s k) < 100" and c: "nat (ray_cell c k) < 100" using assms by (auto simp: off_map_def nat_less_iff)
  then show "nat (ray_cell s k) * 100 + nat (ray_cell c k) < 10000" by linarith
qed

text \<open>One sample of a ray: it is off the map, its cell is marked, or the ray goes on.\<close>

lemma ray_sample:
  assumes "grid_fits g" and "\<bar>cs angle\<bar> \<le> 1" and "\<bar>sn angle\<bar> \<le> 1" and "i \<le> 100"
  shows "ray_loop (exact_fp cs sn sq an) g cur 20 angle (Suc f) (of_nat i / 5) =
    (if off_map (cs angle) (sn angle) i then Inr None
     else if grid_data g ! (nat (ray_cell (sn angle) i) * 100 + nat (ray_cell (cs angle) i)) = 100
     then Inr (Some (of_nat i / 5 * cs angle + fst cur, of_nat i / 5 * sn angle + snd cur))
     else ray_loop (exact_fp cs sn sq an) g cur 20 angle f (of_nat (Suc i) / 5))"
proof -
  let ?k = "nat (ray_cell (sn angle) i) * 100 + nat (ray_cell (cs angle) i)"
  have g: "grid_resolution g = 1 / 5" "grid_width g = 100" "grid_height g = 100" "length (grid_data g) = 10000"
    using assms(1) by (simp_all add: grid_fits_def)
  have "(of_nat i :: rat) \<le> of_nat 100" using assms(4) by (simp only: of_nat_le_iff)
  then have near: "of_nat i / 5 \<le> (20 :: rat)" by simp
  have at: "\<not> off_map (cs angle) (sn angle) i \<Longrightarrow> grid_at g ?k = Inr (grid_data g ! ?k)"
    using on_map_index(3) g(4) by (simp add: grid_at_def)
  have next_d: "of_nat i / 5 + 1 / 5 = (of_nat (Suc i) / 5 :: rat)" by simp
  have i: "(ray_cell (cs angle) i < 0 \<or> int 100 \<le> ray_cell (cs angle) i \<or> ray_cell (sn angle) i < 0 \<or> int 100 \<le> ray_cell (sn angle) i)
      \<longleftrightarrow> off_map (cs angle) (sn angle) i" by (simp add: off_map_def)
  show ?thesis
  proof (cases "off_map (cs angle) (sn angle) i")
    case True
    show ?thesis
      by (subst ray_loop.simps) (simp only: exact_fp_simps Let_def g near cell_index_ray [OF assms(2,4)] cell_index_ray [OF assms(3,4)]
        i True not_True_eq_False if_False if_True nat.case sum.case)
  next
    case False
    show ?thesis
      by (subst ray_loop.simps) (simp only: exact_fp_simps Let_def g near cell_index_ray [OF assms(2,4)] cell_index_ray [OF assms(3,4)]
        i False at [OF False] next_d not_True_eq_False if_False nat.case sum.case)
  qed
qed

lemma ray_finds:
  assumes "grid_fits g" and "\<bar>cs angle\<bar> \<le> 1" and "\<bar>sn angle\<bar> \<le> 1"
    and "\<And>k. \<not> off_map (cs angle) (sn angle) k \<Longrightarrow>
      grid_data g ! (nat (ray_cell (sn angle) k) * 100 + nat (ray_cell (cs angle) k)) = 100 \<longleftrightarrow> ray_hit ps (cs angle) (sn angle) k"
    and "i \<le> 101" and "101 - i \<le> fuel"
  shows "ray_loop (exact_fp cs sn sq an) g cur 20 angle fuel (of_nat i / 5) = Inr (ray_seen ps (cs angle) (sn angle) cur [i..<101])"
  using assms(5,6)
proof (induction "101 - i" arbitrary: i fuel)
  case 0
  then have "i = 101" by simp
  then show ?case by (subst ray_loop.simps) (simp add: ray_seen_def)
next
  case (Suc n)
  obtain f where f: "fuel = Suc f" using Suc by (cases fuel) auto
  have i: "i \<le> 100" "[i..<101] = i # [Suc i..<101]" using Suc.hyps(2) by (simp_all add: upt_conv_Cons)
  have "ray_loop (exact_fp cs sn sq an) g cur 20 angle f (of_nat (Suc i) / 5) =
      Inr (ray_seen ps (cs angle) (sn angle) cur [Suc i..<101])"
    using Suc.hyps(2) Suc.prems f by (intro Suc.hyps(1)) auto
  then show ?case
    unfolding f ray_sample [of g cs angle sn, OF assms(1-3) i(1)] i(2) using assms(4) [of i] by (simp add: ray_seen_def)
qed


subsection \<open>A single point ahead\<close>

definition one_point :: "(unit, rat) pcl" where
  "one_point = \<lparr>from_cloud = \<lambda>_. [(1 / 2, 1 / 10, 0)], crop_box = \<lambda>lo hi negative ps. ps, rotate_by = \<lambda>q p. p\<rparr>"

lemma one_point_world: "world_points line_fp one_point c pose = [(1 / 2, 1 / 10, 0)]"
  by (simp add: world_points_def crop_cloud_def rotate_cloud_def one_point_def line_fp_def Let_def)

theorem grid_cells_exact_witness:
  "\<exists>m. point_run line_fp one_point () (line_pose 0) = Inr m \<and> m ! 50 ! 52 = 100 \<and> m ! 50 ! 51 = 0"
proof -
  obtain m where m: "point_run line_fp one_point () (line_pose 0) = Inr m"
    "\<forall>r < 100. \<forall>c < 100. m ! r ! c = (if \<exists>p \<in> set (world_points line_fp one_point () (line_pose 0)). in_cell p r c then 100 else 0)"
    unfolding line_fp_def by (meson grid_cells_exact)
  then have "m ! 50 ! 52 = 100" "m ! 50 ! 51 = 0" unfolding one_point_world by (simp_all add: in_cell_def)
  then show ?thesis using m(1) by blast
qed

theorem published_grids_usable_witness:
  "\<exists>s out. grid_run line_fp one_point [FusionRound, GridTimer]
      \<lparr>gn_points = [()], gn_poses = [line_pose 0], gn_fusion = new_fusion (\<lambda>_. []), gn_grid = None\<rparr> = Inr (s, out) \<and>
     list_all (\<lambda>g. event_fits 101 (MapMsg (gm_grid g))) out"
  unfolding line_fp_def by (rule published_grids_usable [of True]) (simp_all add: GridNode_init_def)


text \<open>
  A point can be missed although the ray goes through it: the grid has it in the cell that its coordinates are cut to, the
  planner looks in the cell that the sample is rounded to. Here the ray with cosine $4/5$ and sine $3/5$ meets the
  point $(6/25, 9/50)$, which is entered in the grid, and reports nothing.
\<close>

theorem point_on_ray_missed:
  "in_cell (6 / 25, 9 / 50, 0) 50 51 \<and> (6 / 25 :: rat) * (3 / 5) = 9 / 50 * (4 / 5) \<and>
   ray_seen [(6 / 25, 9 / 50, 0)] (4 / 5) (3 / 5) (0, 0) [0..<101] = None"
proof (intro conjI)
  show "in_cell (6 / 25, 9 / 50, 0) 50 51" by (simp add: in_cell_def)
  show "ray_seen [(6 / 25, 9 / 50, 0)] (4 / 5) (3 / 5) (0, 0) [0..<101] = None" by code_simp
qed simp

end
