(* ===== verification/UtilCli.thy ===== *)
theory UtilCli
  imports Controllers Floating
begin

text \<open>
  The command line tool, src/Util/src/main.cpp: the dispatch of the arguments, the listing and the echo
  requests to the master, the message built from JSON, and the recording of what is published with its replay.
  JSON text, the descriptors of protobuf and the printing of a \<open>double\<close> are parameters.
\<close>

text \<open>
  \<open>ue_json\<close> gives the members of an object with \<open>asString\<close> of each value, which throws (\<open>None\<close>) for an array or an object.
  \<open>ue_pool\<close> gives the fields of a message type, and whether a field is a single string.
\<close>

record 'd util_env =
  ue_fp :: "'d fp"
  ue_print :: "'d \<Rightarrow> string"
  ue_stod :: "string \<Rightarrow> 'd option"
  ue_json :: "string \<Rightarrow> (string \<times> string option) list option"
  ue_pool :: "string \<Rightarrow> (string \<times> bool) list option"

subsection \<open>A message from JSON\<close>

type_synonym message = "(string, string) umap"

text \<open>\<open>SetString\<close> on a field that is no single string is fatal in protobuf.\<close>

fun set_fields :: "(string \<times> bool) list \<Rightarrow> (string \<times> string option) list \<Rightarrow> message \<Rightarrow> error + message option" where
  "set_fields desc [] m = Inr (Some m)"
| "set_fields desc ((k, v) # ms) m =
     (case map_of desc k of
        None \<Rightarrow> Inr None
      | Some is_string \<Rightarrow>
          (case v of
             None \<Rightarrow> Inl Terminated
           | Some s \<Rightarrow> if is_string then set_fields desc ms (um_put k s m) else Inl Terminated))"

definition create_protobuf_message :: "'d util_env \<Rightarrow> string \<Rightarrow> string \<Rightarrow> error + message option" where
  "create_protobuf_message E message_type message_value =
     (case ue_pool E message_type of
        None \<Rightarrow> Inr None
      | Some desc \<Rightarrow>
          (case ue_json E message_value of None \<Rightarrow> Inr None | Some members \<Rightarrow> set_fields desc members []))"

subsection \<open>Recording\<close>

text \<open>The time of the first message of a log file is kept in a static map; one process writes one file.\<close>

record 'd recorder =
  rc_start :: "'d option"
  rc_log :: string

definition publish_message :: "'d util_env \<Rightarrow> string \<Rightarrow> 'd \<Rightarrow> 'd recorder \<Rightarrow> 'd recorder" where
  "publish_message E message_value now s =
     (let start = (case rc_start s of None \<Rightarrow> now | Some t \<Rightarrow> t);
          elapsed_sec = fp_sub (ue_fp E) now start
      in s\<lparr>rc_start := Some start, rc_log := rc_log s @ ue_print E elapsed_sec @ ''|'' @ message_value @ [CHR 0x0A]\<rparr>)"

text \<open>What a process that publishes at the given moments leaves in its file; with \<open>--once\<close> it is one time.\<close>

definition MESSAGE_TYPE :: string where "MESSAGE_TYPE = ''message_type: ''"

definition create_publisher :: "'d util_env \<Rightarrow> string \<Rightarrow> string \<Rightarrow> 'd list \<Rightarrow> string" where
  "create_publisher E message_type message_value moments =
     rc_log (fold (publish_message E message_value) moments
       \<lparr>rc_start = None, rc_log = MESSAGE_TYPE @ message_type @ [CHR 0x0A]\<rparr>)"

text \<open>The operator / of \<open>std::filesystem::path\<close>: an absolute path on the right replaces the left one.\<close>

definition path_join :: "string \<Rightarrow> string \<Rightarrow> string" where
  "path_join a b =
     (if b \<noteq> [] \<and> hd b = CHR ''/'' then b
      else if a = [] \<or> last a = CHR ''/'' then a @ b else a @ ''/'' @ b)"

definition topic_dir :: "string \<Rightarrow> string \<Rightarrow> string" where
  "topic_dir current_path topic_name = path_join (path_join (path_join current_path ''src'') ''Record'') topic_name"

definition log_file_dir :: "string \<Rightarrow> string \<Rightarrow> string \<Rightarrow> string" where
  "log_file_dir current_path topic_name timestamp = path_join (topic_dir current_path topic_name) (timestamp @ ''.txt'')"

subsection \<open>Replaying\<close>

definition before_last :: "char \<Rightarrow> string \<Rightarrow> string" where
  "before_last c s = rev (drop 1 (dropWhile (\<lambda>d. d \<noteq> c) (rev s)))"

definition after_last :: "char \<Rightarrow> string \<Rightarrow> string" where
  "after_last c s = rev (takeWhile (\<lambda>d. d \<noteq> c) (rev s))"

text \<open>\<open>parent_path().filename()\<close>.\<close>

definition bag_topic :: "string \<Rightarrow> string" where
  "bag_topic file_path = after_last (CHR ''/'') (before_last (CHR ''/'') file_path)"

text \<open>The lines that \<open>while (std::getline(infile, line))\<close> reads.\<close>

function text_lines :: "string \<Rightarrow> string list" where
  "text_lines s = (if s = [] then [] else fst (getline s) # text_lines (snd (getline s)))"
  by auto
termination
proof (relation "measure length")
  fix s :: string
  assume "s \<noteq> []"
  then have "0 < length s" by simp
  moreover have "length (dropWhile (\<lambda>c. c \<noteq> CHR 0x0A) s) \<le> length s" by (rule length_dropWhile_le)
  ultimately have "length (drop 1 (dropWhile (\<lambda>c. c \<noteq> CHR 0x0A) s)) < length s" unfolding length_drop by linarith
  then show "(snd (getline s), s) \<in> measure length" by (simp add: getline_def)
qed simp

declare text_lines.simps [simp del]

datatype 'd play = Sleep 'd | Republish message | Complain

fun play_loop :: "'d util_env \<Rightarrow> string \<Rightarrow> string list \<Rightarrow> 'd option \<Rightarrow> error + 'd play list" where
  "play_loop E message_type [] prev = Inr []"
| "play_loop E message_type (line # ls) prev =
     (case str_find ''|'' line of
        None \<Rightarrow> map_sum id (\<lambda>out. Complain # out) (play_loop E message_type ls prev)
      | Some delim_pos \<Rightarrow>
          (case ue_stod E (take delim_pos line) of
             None \<Rightarrow> Inl InvalidArg
           | Some current_time \<Rightarrow>
               let pause = (case prev of None \<Rightarrow> []
                            | Some prev_time \<Rightarrow>
                                let sleep_time = fp_sub (ue_fp E) current_time prev_time in
                                if fp_lt (ue_fp E) (fp_lit (ue_fp E) 0) sleep_time then [Sleep sleep_time] else [])
               in
               (case create_protobuf_message E message_type (drop (delim_pos + 1) line) of
                  Inl e \<Rightarrow> Inl e
                | Inr None \<Rightarrow> map_sum id (\<lambda>out. pause @ Complain # out) (play_loop E message_type ls (Some current_time))
                | Inr (Some m) \<Rightarrow> map_sum id (\<lambda>out. pause @ Republish m # out) (play_loop E message_type ls (Some current_time)))))"

text \<open>A file that cannot be opened is \<open>None\<close>.\<close>

definition bag_play :: "'d util_env \<Rightarrow> string option \<Rightarrow> error + 'd play list" where
  "bag_play E content =
     (case content of
        None \<Rightarrow> Inr [Complain]
      | Some text \<Rightarrow>
          let (line, rest) = getline text in
          if take (length MESSAGE_TYPE) line = MESSAGE_TYPE then play_loop E (drop (length MESSAGE_TYPE) line) (text_lines rest) None
          else Inr [Complain])"

subsection \<open>The command line\<close>

datatype command =
    ListNodes | ListTopics | Echo string | Publish string string string int bool | Play string | Usage | Invalid

text \<open>
  What \<open>main\<close> does with the arguments. \<open>tokens[1]\<close> is read whether it is there or not; the option \<open>--rate\<close> without a
  number complains and goes on.
\<close>

definition pub_command :: "string list \<Rightarrow> error + command list" where
  "pub_command tokens =
     (if 5 \<le> length tokens then
        if tokens ! 2 \<noteq> [] \<and> tokens ! 3 \<noteq> [] \<and> tokens ! 4 \<noteq> [] then
          let pub = (\<lambda>rate flag. Publish (tokens ! 2) (tokens ! 3) (tokens ! 4) rate flag) in
          if length tokens = 6 then
            if tokens ! 5 = ''--once'' then Inr [pub 100 False]
            else if tokens ! 5 = ''--rate'' then Inr [Invalid, pub 100 True]
            else Inr [pub 100 True]
          else if length tokens = 7 then
            if tokens ! 5 = ''--rate'' then
              (case stoi (tokens ! 6) of None \<Rightarrow> Inl InvalidArg | Some rate \<Rightarrow> Inr [pub rate True])
            else Inr [pub 100 True]
          else Inr [pub 100 True]
        else Inr [Invalid]
      else Inr [Invalid])"

definition util_main :: "string list \<Rightarrow> error + command list" where
  "util_main tokens =
     (if tokens = [] then Inl OutOfBounds
      else if tokens ! 0 = ''node'' then
        if length tokens < 2 then Inl OutOfBounds
        else if tokens ! 1 = ''list'' then Inr [if length tokens = 2 then ListNodes else Invalid]
        else Inr [Invalid]
      else if tokens ! 0 = ''topic'' then
        if length tokens < 2 then Inl OutOfBounds
        else if tokens ! 1 = ''echo'' then
          Inr [if length tokens = 3 then (if tokens ! 2 \<noteq> [] then Echo (tokens ! 2) else Invalid) else Invalid]
        else if tokens ! 1 = ''pub'' then pub_command tokens
        else if tokens ! 1 = ''list'' then Inr [if length tokens = 2 then ListTopics else Invalid]
        else Inr [Invalid]
      else if tokens ! 0 = ''bag'' then
        if length tokens < 2 then Inl OutOfBounds
        else if tokens ! 1 = ''play'' then Inr [if length tokens = 3 then Play (tokens ! 2) else Invalid]
        else Inr [Invalid]
      else if tokens ! 0 = ''-h'' \<or> tokens ! 0 = ''--help'' then Inr [Usage]
      else Inr [Invalid])"

subsection \<open>Asking the master\<close>

text \<open>
  The reply of the master, as \<open>json_list\<close> reads it: one list of names for every host, and the printed text,
  host by host in the order of a \<open>std::map\<close>.
\<close>

definition host_lists :: "body \<Rightarrow> (string \<times> string list) list" where
  "host_lists b = (case b of ByHost by_host \<Rightarrow> by_host | _ \<Rightarrow> [])"

fun comma_list :: "string list \<Rightarrow> string" where
  "comma_list [] = ''''"
| "comma_list [x] = x"
| "comma_list (x # xs) = x @ '', '' @ comma_list xs"

definition print_host :: "string \<times> string list \<Rightarrow> string" where
  "print_host h =
     fst h @ '': '' @ [CHR 0x0A]
     @ (if snd h \<noteq> [] then ''  '' @ comma_list (snd h) @ [CHR 0x0A] else '' '') @ [CHR 0x0A]"

definition byte_less :: "string \<Rightarrow> string \<Rightarrow> bool" where
  "byte_less s t \<longleftrightarrow> (s, t) \<in> lexord {(c, d). (of_char c :: nat) < of_char d}"

fun map_insert :: "string \<times> 'a \<Rightarrow> (string \<times> 'a) list \<Rightarrow> (string \<times> 'a) list" where
  "map_insert x [] = [x]"
| "map_insert x (y # ys) =
     (if fst x = fst y then x # ys else if byte_less (fst x) (fst y) then x # y # ys else y # map_insert x ys)"

definition send_list_http :: "'r uds_result \<Rightarrow> string" where
  "send_list_http r =
     (case r of Inl e \<Rightarrow> ''''
      | Inr ((st, b), ms, out) \<Rightarrow> concat (map print_host (fold map_insert (host_lists b) [])))"

definition send_echo_http :: "'r http_api \<Rightarrow> string \<Rightarrow> 'r master \<Rightarrow> string" where
  "send_echo_http A topic_name ms =
     (let req = h_set A ''topic'' topic_name (h_make A v_get ''/topic/info'') in
      case uds_topicInfo_handleGet A req ms of
        Inr ((st, TopicInfo ti), ms, out) \<Rightarrow> ti_type ti
      | _ \<Rightarrow> '''')"

text \<open>What \<open>topic echo\<close> subscribes to, if anything: the topic and its type.\<close>

definition showTopicEcho :: "'r http_api \<Rightarrow> (string \<Rightarrow> bool) \<Rightarrow> string \<Rightarrow> 'r master \<Rightarrow> (string \<times> string) option" where
  "showTopicEcho A known topic_name ms =
     (let type = send_echo_http A topic_name ms in
      if type = [] then None else if known type then Some (topic_name, type) else None)"

subsection \<open>A recording is replayed\<close>

fun expected_play :: "'d util_env \<Rightarrow> message \<Rightarrow> 'd \<Rightarrow> 'd list \<Rightarrow> 'd play list" where
  "expected_play E m prev [] = []"
| "expected_play E m prev (t # ts) =
     (if fp_lt (ue_fp E) (fp_lit (ue_fp E) 0) (fp_sub (ue_fp E) t prev) then [Sleep (fp_sub (ue_fp E) t prev)] else [])
     @ Republish m # expected_play E m t ts"

definition record_line :: "'d util_env \<Rightarrow> string \<Rightarrow> 'd \<Rightarrow> string" where
  "record_line E v t = ue_print E t @ ''|'' @ v"

lemma fold_publish:
  "rc_log (fold (publish_message E v) ts \<lparr>rc_start = Some t0, rc_log = l\<rparr>) =
     l @ concat (map (\<lambda>t. record_line E v (fp_sub (ue_fp E) t t0) @ [CHR 0x0A]) ts)"
  by (induction ts arbitrary: l) (simp_all add: publish_message_def record_line_def)

lemma lines_of_concat:
  assumes "\<And>l. l \<in> set ls \<Longrightarrow> CHR 0x0A \<notin> set l"
  shows "text_lines (concat (map (\<lambda>l. l @ [CHR 0x0A]) ls)) = ls"
  using assms
proof (induction ls)
  case Nil
  then show ?case by (simp add: text_lines.simps)
next
  case (Cons l ls)
  have "getline (l @ CHR 0x0A # concat (map (\<lambda>l. l @ [CHR 0x0A]) ls)) = (l, concat (map (\<lambda>l. l @ [CHR 0x0A]) ls))"
    using getline_newline [of l "concat (map (\<lambda>l. l @ [CHR 0x0A]) ls)"] Cons.prems by simp
  then show ?case using Cons by (subst text_lines.simps) simp
qed

lemma str_find_bar: "CHR ''|'' \<notin> set t \<Longrightarrow> str_find ''|'' (t @ CHR ''|'' # v) = Some (length t)"
  by (induction t) auto

text \<open>What the replay relies on: printed numbers are plain and are read back.\<close>

definition prints_well :: "'d util_env \<Rightarrow> ('d \<Rightarrow> 'd) \<Rightarrow> bool" where
  "prints_well E back_read \<longleftrightarrow>
     (\<forall>t. CHR ''|'' \<notin> set (ue_print E t) \<and> CHR 0x0A \<notin> set (ue_print E t) \<and> ue_stod E (ue_print E t) = Some (back_read t))"

lemma play_recorded:
  assumes "prints_well E rd" and "create_protobuf_message E ty v = Inr (Some m)"
  shows "play_loop E ty (map (record_line E v) ts) (Some p) = Inr (expected_play E m p (map rd ts))"
  using assms
  by (induction ts arbitrary: p) (simp_all add: record_line_def prints_well_def str_find_bar Let_def)

lemma replay_recording:
  assumes "prints_well E rd" and "CHR 0x0A \<notin> set v" and "CHR 0x0A \<notin> set ty"
    and "create_protobuf_message E ty v = Inr (Some m)"
  shows "bag_play E (Some (create_publisher E ty v (t0 # ts))) =
    Inr (Republish m # expected_play E m (rd (fp_sub (ue_fp E) t0 t0)) (map (\<lambda>t. rd (fp_sub (ue_fp E) t t0)) ts))"
proof -
  define es where "es = map (\<lambda>t. fp_sub (ue_fp E) t t0) (t0 # ts)"
  have content: "create_publisher E ty v (t0 # ts) =
      (MESSAGE_TYPE @ ty) @ [CHR 0x0A] @ concat (map (\<lambda>l. l @ [CHR 0x0A]) (map (record_line E v) es))"
    by (simp add: create_publisher_def publish_message_def fold_publish es_def record_line_def comp_def)
  have "CHR 0x0A \<notin> set (MESSAGE_TYPE @ ty)" using assms(3) by (simp add: MESSAGE_TYPE_def)
  note g = getline_newline [OF this, of "concat (map (\<lambda>l. l @ [CHR 0x0A]) (map (record_line E v) es))"]
  have "CHR 0x0A \<notin> set l" if "l \<in> set (map (record_line E v) es)" for l
    using that assms(1,2) by (auto simp: record_line_def prints_well_def)
  then have ls: "text_lines (concat (map (\<lambda>l. l @ [CHR 0x0A]) (map (record_line E v) es))) = map (record_line E v) es"
    by (rule lines_of_concat)
  have "bag_play E (Some (create_publisher E ty v (t0 # ts))) = play_loop E ty (map (record_line E v) es) None"
    unfolding content bag_play_def by (simp only: option.case g Let_def case_prod_conv ls) simp
  also have "\<dots> = Inr (Republish m # expected_play E m (rd (fp_sub (ue_fp E) t0 t0)) (map (\<lambda>t. rd (fp_sub (ue_fp E) t t0)) ts))"
    using assms(1,4) play_recorded [OF assms(1,4), of "map (\<lambda>t. fp_sub (ue_fp E) t t0) ts"]
    by (simp add: es_def record_line_def prints_well_def str_find_bar Let_def comp_def)
  finally show ?thesis .
qed

text \<open>
  C30: Replaying the file of a recording publishes the recorded message as often as it was published, in pauses that are the
  differences of the recorded times as they were printed.
\<close>

theorem recording_replayed:
  assumes "prints_well E rd" and "CHR 0x0A \<notin> set v" and "CHR 0x0A \<notin> set ty"
    and "create_protobuf_message E ty v = Inr (Some m)"
  shows "bag_play E (Some (create_publisher E ty v (t0 # ts))) =
    Inr (Republish m # expected_play E m (rd (fp_sub (ue_fp E) t0 t0)) (map (\<lambda>t. rd (fp_sub (ue_fp E) t t0)) ts))"
  using assms by (rule replay_recording)

subsection \<open>Files and topics\<close>

lemma takeWhile_stop: "c \<notin> set xs \<Longrightarrow> takeWhile (\<lambda>d. d \<noteq> c) (xs @ c # ys) = xs"
  by (induction xs) auto

lemma dropWhile_stop: "c \<notin> set xs \<Longrightarrow> dropWhile (\<lambda>d. d \<noteq> c) (xs @ c # ys) = c # ys"
  by (induction xs) auto

lemma last_component: "c \<notin> set b \<Longrightarrow> before_last c (a @ c # b) = a \<and> after_last c (a @ c # b) = b"
  using takeWhile_stop [of c "rev b" "rev a"] dropWhile_stop [of c "rev b" "rev a"] by (simp add: before_last_def after_last_def)

lemma after_last_whole: "c \<notin> set b \<Longrightarrow> after_last c b = b"
proof -
  assume "c \<notin> set b"
  then have "takeWhile (\<lambda>d. d \<noteq> c) (rev b) = rev b" by (intro takeWhile_eq_all_conv [THEN iffD2]) auto
  then show ?thesis by (simp only: after_last_def rev_rev_ident)
qed

text \<open>
  A topic without a slash has its recordings in its own directory under \<open>Record\<close>, and the replay of such a file publishes on this topic.
\<close>

theorem recorded_topic_recovered:
  assumes "CHR ''/'' \<notin> set topic" and "CHR ''/'' \<notin> set stamp" and "topic \<noteq> []" and "current_path \<noteq> []" and "last current_path \<noteq> CHR ''/''"
  shows "bag_topic (topic @ ''/'' @ stamp @ ''.txt'') = topic \<and>
    log_file_dir current_path topic stamp = current_path @ ''/src/Record/'' @ topic @ ''/'' @ stamp @ ''.txt''"
proof -
  have "CHR ''/'' \<notin> set (stamp @ ''.txt'')" using assms(2) by simp
  from last_component [OF this, of topic] have "bag_topic (topic @ ''/'' @ stamp @ ''.txt'') = topic"
    using after_last_whole [OF assms(1)] by (simp add: bag_topic_def)
  moreover have h: "hd topic \<noteq> CHR ''/''" "last topic \<noteq> CHR ''/''" using assms(1,3) by (metis hd_in_set, metis last_in_set)
  moreover have "stamp @ ''.txt'' = [] \<or> hd (stamp @ ''.txt'') \<noteq> CHR ''/''" using assms(2) by (cases stamp) auto
  ultimately show ?thesis using assms(3-5) by (simp add: log_file_dir_def topic_dir_def path_join_def)
qed

text \<open>A topic that starts with a slash is an absolute path: its files are outside the records, in the root of the file system.\<close>

lemma absolute_topic_escapes: "topic_dir current_path (CHR ''/'' # topic) = CHR ''/'' # topic"
  by (simp add: topic_dir_def path_join_def)

text \<open>A field that is not a string ends the process, whatever the value.\<close>

lemma number_field_fatal:
  "map_of desc k = Some False \<Longrightarrow> create_protobuf_message (E\<lparr>ue_pool := \<lambda>_. Some desc, ue_json := \<lambda>_. Some ((k, v) # ms)\<rparr>) ty s = Inl Terminated"
  by (cases v) (simp_all add: create_protobuf_message_def)

subsection \<open>Errors of the command line\<close>

text \<open>
  The tool reads beyond its arguments exactly if there is none, or a single one that needs a second; it ends in the
  exception of \<open>std::stoi\<close> exactly if \<open>--rate\<close> of a publication is no number; nothing else goes wrong.
\<close>

theorem command_line_errors:
  "util_main tokens = Inl e \<longleftrightarrow>
     e = OutOfBounds \<and> tokens \<in> {[], [''node''], [''topic''], [''bag'']} \<or>
     e = InvalidArg \<and> (\<exists>t ty v r. tokens = [''topic'', ''pub'', t, ty, v, ''--rate'', r] \<and> t \<noteq> [] \<and> ty \<noteq> [] \<and> v \<noteq> [] \<and> stoi r = None)"
proof (cases "tokens = [] \<or> length tokens < 2")
  case True
  then consider "tokens = []" | a where "tokens = [a]" by (cases tokens) (auto simp: less_Suc_eq)
  then show ?thesis by cases (auto simp: util_main_def)
next
  case False
  have pub: "pub_command tokens = Inl e \<longleftrightarrow> e = InvalidArg \<and> length tokens = 7 \<and> tokens ! 5 = ''--rate'' \<and> tokens ! 2 \<noteq> [] \<and>
      tokens ! 3 \<noteq> [] \<and> tokens ! 4 \<noteq> [] \<and> stoi (tokens ! 6) = None"
    by (auto simp: pub_command_def Let_def split: option.splits)
  have seven: "(\<exists>t ty v r. tokens = [''topic'', ''pub'', t, ty, v, ''--rate'', r] \<and> t \<noteq> [] \<and> ty \<noteq> [] \<and> v \<noteq> [] \<and> stoi r = None) \<longleftrightarrow>
      length tokens = 7 \<and> tokens ! 0 = ''topic'' \<and> tokens ! 1 = ''pub'' \<and> tokens ! 5 = ''--rate'' \<and> tokens ! 2 \<noteq> [] \<and>
      tokens ! 3 \<noteq> [] \<and> tokens ! 4 \<noteq> [] \<and> stoi (tokens ! 6) = None" (is "?L \<longleftrightarrow> ?R")
  proof
    assume ?R
    then have "tokens = [tokens ! 0, tokens ! 1, tokens ! 2, tokens ! 3, tokens ! 4, tokens ! 5, tokens ! 6]"
      by (intro nth_equalityI) (auto simp: less_Suc_eq numeral_eq_Suc)
    then show ?L using \<open>?R\<close> by metis
  qed auto
  have "util_main tokens = Inl e \<longleftrightarrow> tokens ! 0 = ''topic'' \<and> tokens ! 1 = ''pub'' \<and> pub_command tokens = Inl e"
    using False by (auto simp: util_main_def)
  then show ?thesis unfolding pub seven using False by auto
qed

text \<open>The missing number of \<open>--rate\<close> is reported, and the message published all the same.\<close>

lemma rate_missing_publishes:
  "t \<noteq> [] \<Longrightarrow> ty \<noteq> [] \<Longrightarrow> v \<noteq> [] \<Longrightarrow> util_main [''topic'', ''pub'', t, ty, v, ''--rate''] = Inr [Invalid, Publish t ty v 100 True]"
  by (simp add: util_main_def pub_command_def)

subsection \<open>What the master knows of a topic\<close>

text \<open>
  Echoing a topic with a local publisher subscribes to it with the type of its first publisher, when the tool knows the type.
\<close>

theorem echo_type_of_publisher:
  assumes "http_laws A" and "um_at [] (m_publishes (m_mw ms)) topic = ep # eps" and "ep_type ep \<noteq> []"
  shows "showTopicEcho A known topic ms = (if known (ep_type ep) then Some (topic, ep_type ep) else None)"
proof -
  have "h_get A (h_set A ''topic'' topic (h_make A v_get ''/topic/info'')) ''topic'' = topic"
    using assms(1) by (simp add: http_laws_def app_fields_def)
  then have "send_echo_http A topic ms = ep_type ep"
    using assms(2,3) by (simp add: send_echo_http_def uds_topicInfo_handleGet_def Let_def first_type_def)
  then show ?thesis using assms(3) by (simp add: showTopicEcho_def)
qed

subsection \<open>A recording of two messages\<close>

definition sample_env :: "rat util_env" where
  "sample_env =
     \<lparr>ue_fp = exact_fp (\<lambda>x. x) (\<lambda>x. x) (\<lambda>x. x) (\<lambda>y x. x), ue_print = \<lambda>t. if t = 0 then ''0'' else ''1.5'',
      ue_stod = \<lambda>s. if s = ''0'' then Some 0 else Some (3 / 2), ue_json = \<lambda>s. Some [(''data'', Some s)],
      ue_pool = \<lambda>t. if t = ''Std.String'' then Some [(''data'', True)] else None\<rparr>"

theorem recording_replayed_witness:
  "bag_play sample_env (Some (create_publisher sample_env ''Std.String'' ''a|b'' [10, 23 / 2])) =
     Inr [Republish [(''data'', ''a|b'')], Sleep (3 / 2), Republish [(''data'', ''a|b'')]]"
proof -
  have "prints_well sample_env (\<lambda>t. if t = 0 then 0 else 3 / 2)" by (auto simp: prints_well_def sample_env_def)
  from recording_replayed [OF this, of "''a|b''" "''Std.String''" "[(''data'', ''a|b'')]" 10 "[23 / 2]"]
  show ?thesis by (simp add: sample_env_def create_protobuf_message_def um_put_def)
qed

theorem recorded_topic_recovered_witness:
  "bag_topic (''odom'' @ ''/'' @ ''2025-04-07-10-00-00'' @ ''.txt'') = ''odom''"
  using recorded_topic_recovered [of "''odom''" "''2025-04-07-10-00-00''" "''/home''"] by simp

text \<open>The master of a chain of hosts, with one local publisher.\<close>

definition echo_master :: "request master" where
  "echo_master = chain_master\<lparr>m_mw := new_mw\<lparr>m_publishes :=
     [(''odom'', [\<lparr>ep_id = 0, ep_topic = ''odom'', ep_type = ''Nav.Odometry'', ep_node = ''base''\<rparr>])]\<rparr>\<rparr>"

theorem echo_type_of_publisher_witness:
  "showTopicEcho list_http (\<lambda>t. True) ''odom'' echo_master = Some (''odom'', ''Nav.Odometry'')"
  using echo_type_of_publisher [OF list_http_laws, of echo_master "''odom''"
    "\<lparr>ep_id = 0, ep_topic = ''odom'', ep_type = ''Nav.Odometry'', ep_node = ''base''\<rparr>" "[]" "\<lambda>t. True"]
  by (simp add: echo_master_def um_at_def um_find_def)

end
