(* ===== verification/Services.thy ===== *)
theory Services
  imports Prelude
begin

text \<open>
  What keeps the processes going: the timer of a node (src/Node/src/Timer.cpp), the connections and acceptors
  of the master (src/Master/src/shm/Server.cpp, src/Master/src/tcp/Server.cpp and the two
  Acceptor.cpp), and the processes that the master starts and restarts (ProcessManager.cpp). Asio calls a handler
  once for every wait that was started: a step of the model is such a call, and a wait is a flag that the step consumes.
\<close>

subsection \<open>The timer\<close>

text \<open>Times are milliseconds; \<open>tm_deadline\<close> is the wait that is pending.\<close>

record timer =
  tm_interval :: nat
  tm_deadline :: "nat option"

definition timer_run :: "nat \<Rightarrow> nat \<Rightarrow> timer" where
  "timer_run interval now = \<lparr>tm_interval = interval, tm_deadline = Some (now + interval)\<rparr>"

text \<open>
  The handler runs at \<open>now\<close>; the callback takes \<open>busy\<close>, and the next wait is counted from its end. A cancelled wait
  calls the handler with an error. The result says whether the callback ran.
\<close>

definition timer_onTime :: "bool \<Rightarrow> nat \<Rightarrow> nat \<Rightarrow> timer \<Rightarrow> bool \<times> timer" where
  "timer_onTime error now busy t =
     (if error then (False, t\<lparr>tm_deadline := None\<rparr>)
      else (True, t\<lparr>tm_deadline := Some (now + busy + tm_interval t)\<rparr>))"

datatype timer_event = Expire nat nat | Cancel

text \<open>\<open>Expire now busy\<close> can happen at or after the deadline; what does not fit the state is \<open>None\<close>.\<close>

fun timer_steps :: "timer_event list \<Rightarrow> timer \<Rightarrow> (nat list \<times> timer) option" where
  "timer_steps [] t = Some ([], t)"
| "timer_steps (Expire now busy # es) t =
     (case tm_deadline t of
        None \<Rightarrow> None
      | Some d \<Rightarrow>
          if now < d then None
          else map_option (\<lambda>(calls, t). (now # calls, t)) (timer_steps es (snd (timer_onTime False now busy t))))"
| "timer_steps (Cancel # es) t =
     (case tm_deadline t of
        None \<Rightarrow> timer_steps es t
      | Some d \<Rightarrow> timer_steps es (snd (timer_onTime True 0 0 t)))"

lemma timer_calls_spaced:
  assumes "timer_steps es t = Some (calls, t')" and "tm_deadline t = None \<or> tm_deadline t = Some (start + tm_interval t)"
    and "i < length calls"
  shows "start + (i + 1) * tm_interval t \<le> calls ! i"
  using assms
proof (induction es t arbitrary: calls start i rule: timer_steps.induct)
  case (2 now busy es t)
  then obtain rest where d: "tm_deadline t = Some (start + tm_interval t)" "start + tm_interval t \<le> now"
    and rest: "timer_steps es (snd (timer_onTime False now busy t)) = Some (rest, t')" "calls = now # rest"
    by (auto split: option.splits if_splits)
  show ?case
  proof (cases i)
    case 0 then show ?thesis using d rest by simp
  next
    case (Suc j)
    have "(now + busy) + (j + 1) * tm_interval t \<le> rest ! j"
      using "2.IH" [OF d(1) _ rest(1), of "now + busy" j] d(2) rest(2) "2.prems"(3) Suc by (simp add: timer_onTime_def)
    then show ?thesis using d(2) rest(2) Suc by (simp add: algebra_simps)
  qed
next
  case (3 es t)
  then show ?case by (cases "tm_deadline t") (auto simp: timer_onTime_def)
qed simp

lemma timer_no_deadline: "tm_deadline t = None \<Longrightarrow> timer_steps es t = Some (calls, t') \<Longrightarrow> calls = []"
  by (induction es t arbitrary: calls rule: timer_steps.induct) auto

text \<open>
  The calls of a timer are at least one interval apart from the start and from each other, however long the callbacks take,
  and after a cancellation there is none.
\<close>

theorem timer_calls:
  assumes "timer_steps (es @ Cancel # fs) (timer_run interval start) = Some (calls, t')"
  shows "(\<forall>i < length calls. start + (i + 1) * interval \<le> calls ! i) \<and> length calls \<le> length es"
proof -
  have "timer_steps (es @ Cancel # fs) t = Some (calls, t') \<Longrightarrow> length calls \<le> length es" for t calls
  proof (induction es t arbitrary: calls rule: timer_steps.induct)
    case (1 t)
    have "calls = []"
      using 1 timer_no_deadline [of "snd (timer_onTime True 0 0 t)" fs calls t'] timer_no_deadline [of t fs calls t']
      by (cases "tm_deadline t") (auto simp: timer_onTime_def)
    then show ?case by simp
  next
    case (2 now busy es t)
    then show ?case by (fastforce split: option.splits if_splits)
  next
    case (3 es t)
    then show ?case by (auto split: option.splits intro: le_SucI)
  qed
  then show ?thesis using timer_calls_spaced [OF assms, of start] assms by (simp add: timer_run_def)
qed

theorem timer_calls_witness:
  "\<exists>t'. timer_steps ([Expire 50 7, Expire 110 0] @ Cancel # [Cancel]) (timer_run 50 0) = Some ([50, 110], t') \<and>
     length [50, 110 :: nat] \<le> length [Expire 50 7, Expire 110 0]"
proof -
  obtain t' where t': "timer_steps ([Expire 50 7, Expire 110 0] @ Cancel # [Cancel]) (timer_run 50 0) = Some ([50, 110], t')"
    by (simp add: timer_run_def timer_onTime_def)
  from timer_calls [OF this] t' show ?thesis by blast
qed

subsection \<open>Connections\<close>

text \<open>
  A connection of the local socket reads one request, answers it and is done: nothing is started after the write. A
  connection of a TCP interface reads one request after the other and never answers.
\<close>

datatype conn = Reading | Writing | Done

datatype 'r conn_event = ReadDone bool 'r | WriteDone bool

text \<open>The requests that are handed to the router, and the next wait.\<close>

fun uds_conn :: "'r conn_event \<Rightarrow> conn \<Rightarrow> (conn \<times> 'r list) option" where
  "uds_conn (ReadDone ec req) Reading = (if ec then Some (Done, []) else Some (Writing, [req]))"
| "uds_conn (WriteDone ec) Writing = Some (Done, [])"
| "uds_conn _ _ = None"

fun tcp_conn :: "'r conn_event \<Rightarrow> conn \<Rightarrow> (conn \<times> 'r list) option" where
  "tcp_conn (ReadDone ec req) Reading = (if ec then Some (Done, []) else Some (Reading, [req]))"
| "tcp_conn (WriteDone ec) Writing = (if ec then Some (Done, []) else Some (Reading, []))"
| "tcp_conn _ _ = None"

fun conn_run :: "('r conn_event \<Rightarrow> conn \<Rightarrow> (conn \<times> 'r list) option) \<Rightarrow> 'r conn_event list \<Rightarrow> conn \<Rightarrow> (conn \<times> 'r list) option" where
  "conn_run step [] c = Some (c, [])"
| "conn_run step (e # es) c =
     (case step e c of None \<Rightarrow> None
      | Some (c, handled) \<Rightarrow> map_option (\<lambda>(c, rest). (c, handled @ rest)) (conn_run step es c))"

lemma uds_done: "conn_run uds_conn es Done = Some (c, handled) \<Longrightarrow> handled = []"
  by (cases es) (auto split: option.splits)

lemma uds_writing: "conn_run uds_conn es Writing = Some (c, handled) \<Longrightarrow> handled = []"
  by (cases es; cases "hd es") (auto split: option.splits dest: uds_done)

lemma uds_one_request: "conn_run uds_conn es Reading = Some (c, handled) \<Longrightarrow> length handled \<le> 1"
  by (cases es; cases "hd es") (auto split: option.splits if_splits dest: uds_writing uds_done)

fun requests_read :: "'r conn_event list \<Rightarrow> 'r list" where
  "requests_read (ReadDone ec req # es) = (if ec then [] else req # requests_read es)"
| "requests_read _ = []"

lemma tcp_all_requests: "conn_run tcp_conn es Reading = Some (c, handled) \<Longrightarrow> handled = requests_read es"
proof (induction es arbitrary: c handled)
  case (Cons e es)
  have "conn_run tcp_conn es Done = Some (c', h) \<Longrightarrow> h = []" for c' h by (cases es) (auto split: option.splits)
  then show ?case using Cons by (cases e) (auto split: if_splits)
qed simp

text \<open>
  An acceptor starts the next accept before it looks at the error of this one: it always waits for one more connection, and each one
  that came without an error is served.
\<close>

definition onAccept :: "bool \<Rightarrow> nat \<Rightarrow> nat list \<Rightarrow> nat \<times> nat list" where
  "onAccept ec waiting served = (waiting + 1, if ec then served else served @ [waiting])"

subsection \<open>The processes of the master\<close>

text \<open>
  \<open>pm_running\<close> says of every started process whether it still runs; \<open>pm_waiting\<close> is the one wait for a signal that
  \<open>run\<close> starts, \<open>pm_signals\<close> the signals that came and were not handled.
\<close>

datatype signal = SigInt | SigChld

record procs =
  pm_execs :: "string list"
  pm_running :: "bool list"
  pm_waiting :: bool
  pm_signals :: "signal list"
  pm_exited :: bool

definition new_procs :: procs where
  "new_procs = \<lparr>pm_execs = [], pm_running = [], pm_waiting = False, pm_signals = [], pm_exited = False\<rparr>"

text \<open>\<open>starts path\<close>: the process runs after it was created. Otherwise a \<open>std::runtime_error\<close> ends the master.\<close>

fun launch_all :: "(string \<Rightarrow> bool) \<Rightarrow> string \<Rightarrow> string list \<Rightarrow> procs \<Rightarrow> error + procs" where
  "launch_all starts dir [] s = Inr s"
| "launch_all starts dir (name # names) s =
     (let path = dir @ ''/'' @ name in
      if \<not> starts path then Inl Terminated
      else launch_all starts dir names (s\<lparr>pm_execs := pm_execs s @ [path], pm_running := pm_running s @ [True]\<rparr>))"

definition pm_run :: "(string \<Rightarrow> bool) \<Rightarrow> string \<Rightarrow> string list \<Rightarrow> procs \<Rightarrow> error + procs" where
  "pm_run starts dir launch s =
     (case launch_all starts dir launch s of Inl e \<Rightarrow> Inl e | Inr s \<Rightarrow> Inr (s\<lparr>pm_waiting := True\<rparr>))"

fun restart_all :: "(string \<Rightarrow> bool) \<Rightarrow> string list \<Rightarrow> bool list \<Rightarrow> error + bool list" where
  "restart_all starts (p # ps) (r # rs) =
     (if r then map_sum id (\<lambda>rs. True # rs) (restart_all starts ps rs)
      else if starts p then map_sum id (\<lambda>rs. True # rs) (restart_all starts ps rs)
      else Inl Terminated)"
| "restart_all starts ps rs = Inr rs"

text \<open>The handler starts no new wait.\<close>

definition onSignal :: "(string \<Rightarrow> bool) \<Rightarrow> bool \<Rightarrow> signal \<Rightarrow> procs \<Rightarrow> error + procs" where
  "onSignal starts e sig s =
     (if e \<or> sig = SigInt then Inr (s\<lparr>pm_running := map (\<lambda>_. False) (pm_running s), pm_exited := True\<rparr>)
      else (case restart_all starts (pm_execs s) (pm_running s) of
              Inl err \<Rightarrow> Inl err | Inr rs \<Rightarrow> Inr (s\<lparr>pm_running := rs\<rparr>)))"

datatype pm_event = ChildExit nat | Interrupt | Deliver

text \<open>A signal is queued when it comes; it is delivered to a wait if there is one.\<close>

fun pm_step :: "(string \<Rightarrow> bool) \<Rightarrow> pm_event \<Rightarrow> procs \<Rightarrow> error + procs" where
  "pm_step starts (ChildExit i) s = Inr (s\<lparr>pm_running := (pm_running s)[i := False], pm_signals := pm_signals s @ [SigChld]\<rparr>)"
| "pm_step starts Interrupt s = Inr (s\<lparr>pm_signals := pm_signals s @ [SigInt]\<rparr>)"
| "pm_step starts Deliver s =
     (case pm_signals s of
        [] \<Rightarrow> Inr s
      | sig # rest \<Rightarrow> if pm_waiting s then onSignal starts False sig (s\<lparr>pm_waiting := False, pm_signals := rest\<rparr>) else Inr s)"

definition pm_events :: "(string \<Rightarrow> bool) \<Rightarrow> pm_event list \<Rightarrow> procs \<Rightarrow> error + procs" where
  "pm_events starts es s = foldl (\<lambda>r e. case r of Inl err \<Rightarrow> Inl err | Inr s \<Rightarrow> pm_step starts e s) (Inr s) es"

lemma pm_events_Nil [simp]: "pm_events starts [] s = Inr s"
  by (simp add: pm_events_def)

lemma pm_events_Cons: "pm_events starts (e # es) s = (case pm_step starts e s of Inl err \<Rightarrow> Inl err | Inr s \<Rightarrow> pm_events starts es s)"
proof -
  have "foldl (\<lambda>r e. case r of Inl err \<Rightarrow> Inl err | Inr s \<Rightarrow> pm_step starts e s) (Inl err) es = Inl err" for err
    by (induction es) auto
  then show ?thesis by (simp add: pm_events_def split: sum.splits)
qed

lemma restart_all_running:
  "length ps = length rs \<Longrightarrow> (\<And>p. p \<in> set ps \<Longrightarrow> starts p) \<Longrightarrow> restart_all starts ps rs = Inr (map (\<lambda>_. True) rs)"
  by (induction starts ps rs rule: restart_all.induct) auto

lemma launch_all_ok:
  "(\<And>n. n \<in> set names \<Longrightarrow> starts (dir @ ''/'' @ n)) \<Longrightarrow> length (pm_execs s) = length (pm_running s) \<Longrightarrow>
   \<exists>s'. launch_all starts dir names s = Inr s' \<and> pm_execs s' = pm_execs s @ map (\<lambda>n. dir @ ''/'' @ n) names \<and>
     pm_running s' = pm_running s @ map (\<lambda>_. True) names \<and> pm_signals s' = pm_signals s \<and> pm_exited s' = pm_exited s"
proof (induction names arbitrary: s)
  case (Cons n names)
  let ?s = "s\<lparr>pm_execs := pm_execs s @ [dir @ ''/'' @ n], pm_running := pm_running s @ [True]\<rparr>"
  from Cons.prems have len: "length (pm_execs ?s) = length (pm_running ?s)" and ok: "starts (dir @ ''/'' @ n)" by auto
  from Cons.IH [OF Cons.prems(1) len] obtain s' where "launch_all starts dir names ?s = Inr s'"
    "pm_execs s' = pm_execs ?s @ map (\<lambda>n. dir @ ''/'' @ n) names" "pm_running s' = pm_running ?s @ map (\<lambda>_. True) names"
    "pm_signals s' = pm_signals ?s" "pm_exited s' = pm_exited ?s" by auto
  with ok show ?case by (intro exI [of _ s']) (simp add: Let_def)
qed simp

text \<open>Without a wait nothing is started again: a process that does not run stays so.\<close>

lemma no_wait_step:
  assumes "pm_step starts e s = Inr s'" and "\<not> pm_waiting s"
  shows "\<not> pm_waiting s' \<and> pm_exited s' = pm_exited s \<and> length (pm_running s') = length (pm_running s) \<and>
    (i < length (pm_running s) \<longrightarrow> pm_running s' ! i \<longrightarrow> pm_running s ! i)"
proof (cases e)
  case (ChildExit k)
  with assms show ?thesis by (cases "k = i") auto
next
  case Deliver
  with assms show ?thesis by (cases "pm_signals s") auto
qed (use assms in auto)

lemma no_wait_run:
  assumes "pm_events starts es s = Inr s'" and "\<not> pm_waiting s" and "i < length (pm_running s)"
  shows "pm_exited s' = pm_exited s \<and> (pm_running s' ! i \<longrightarrow> pm_running s ! i)"
  using assms
proof (induction es arbitrary: s)
  case (Cons e es)
  then obtain s1 where s1: "pm_step starts e s = Inr s1" "pm_events starts es s1 = Inr s'"
    by (auto simp: pm_events_Cons split: sum.splits)
  from no_wait_step [OF s1(1) Cons.prems(2), of i] Cons.prems(3) Cons.IH [OF s1(2)] show ?case by simp
qed simp

text \<open>
  C31: The master restarts its processes once. When a process dies the first time it is started again; the wait for signals is not
  renewed, so that a process that dies after that stays dead whatever else happens, and an interrupt does not end the master any more.
\<close>

theorem only_first_crash_restarted:
  assumes "\<forall>n \<in> set launch. starts (dir @ ''/'' @ n)" and "pm_run starts dir launch new_procs = Inr s0" and "i < length launch"
    and "j < length launch" and "pm_events starts (ChildExit j # es) s1 = Inr s2"
    and "pm_events starts [ChildExit i, Deliver] s0 = Inr s1"
  shows "pm_running s1 = replicate (length launch) True \<and> \<not> pm_running s2 ! j \<and> \<not> pm_exited s2"
proof -
  obtain s where s: "launch_all starts dir launch new_procs = Inr s" "pm_execs s = map (\<lambda>n. dir @ ''/'' @ n) launch"
    "pm_running s = map (\<lambda>_. True) launch" "pm_signals s = []" "\<not> pm_exited s"
    using launch_all_ok [of launch starts dir new_procs] assms(1) by (auto simp: new_procs_def)
  then have s0: "s0 = s\<lparr>pm_waiting := True\<rparr>" using assms(2) by (simp add: pm_run_def)
  have re: "restart_all starts (map (\<lambda>n. dir @ ''/'' @ n) launch) ((map (\<lambda>_. True) launch)[i := False]) = Inr (replicate (length launch) True)"
    using restart_all_running [of "map (\<lambda>n. dir @ ''/'' @ n) launch" "(map (\<lambda>_. True) launch)[i := False]" starts] assms(1)
    by (auto simp: map_replicate_const)
  have s1: "pm_running s1 = replicate (length launch) True" "\<not> pm_waiting s1" "\<not> pm_exited s1"
    using assms(6) s re unfolding s0 by (auto simp: pm_events_Cons onSignal_def)
  have "pm_events starts es (s1\<lparr>pm_running := (pm_running s1)[j := False], pm_signals := pm_signals s1 @ [SigChld]\<rparr>) = Inr s2"
    using assms(5) by (simp add: pm_events_Cons)
  from no_wait_run [OF this, of j] s1 assms(4) show ?thesis by simp
qed

theorem only_first_crash_restarted_witness:
  "\<exists>s0 s1 s2. pm_run (\<lambda>p. True) ''/opt'' [''car_planner'', ''local_map''] new_procs = Inr s0 \<and>
     pm_events (\<lambda>p. True) [ChildExit 0, Deliver] s0 = Inr s1 \<and>
     pm_events (\<lambda>p. True) (ChildExit 0 # [Deliver, Deliver, Interrupt, Deliver]) s1 = Inr s2 \<and> \<not> pm_running s2 ! 0 \<and> \<not> pm_exited s2"
proof -
  obtain s0 s1 s2 where r: "pm_run (\<lambda>p. True) ''/opt'' [''car_planner'', ''local_map''] new_procs = Inr s0"
    "pm_events (\<lambda>p. True) [ChildExit 0, Deliver] s0 = Inr s1"
    "pm_events (\<lambda>p. True) (ChildExit 0 # [Deliver, Deliver, Interrupt, Deliver]) s1 = Inr s2"
    by (simp add: pm_run_def new_procs_def pm_events_Cons onSignal_def)
  from only_first_crash_restarted [OF _ r(1) _ _ r(3,2)] r show ?thesis by fastforce
qed

end
