(* ===== verification/Gazebo.thy ===== *)
theory Gazebo
  imports DwaPlanner
begin

text \<open>
  The plugins that put the planner into the simulator, src/Gazebo/plugin: a differential drive
  (d_drive_car_plugin.cpp), the goals and paths that are clicked into the scene (gui_mouse_click_goal.cpp,
  gui_mouse_click_path_plan_plugin.cpp), and the publishers of odometry and pose. The simulator is a parameter: what a
  click hits, the length of a vector, the quaternion of an angle and the conversion of a time to \<open>double\<close>.
\<close>

record 'd gazebo =
  gz_length :: "'d vec3 \<Rightarrow> 'd"
  gz_yaw :: "'d \<Rightarrow> 'd Quaternion"
  gz_seconds :: "int \<Rightarrow> 'd"

subsection \<open>The wheels\<close>

record 'd car =
  leftVel :: 'd
  rightVel :: 'd
  wheelSeparation :: 'd

text \<open>\<open>Load\<close> gives up without both joints; the distance of the wheels is an optional element of the model.\<close>

definition car_Load :: "'d fp \<Rightarrow> bool \<Rightarrow> bool \<Rightarrow> 'd option \<Rightarrow> 'd car option" where
  "car_Load F leftJoint rightJoint separation =
     (if \<not> leftJoint \<or> \<not> rightJoint then None
      else Some \<lparr>leftVel = fp_lit F 0, rightVel = fp_lit F 0,
             wheelSeparation = (case separation of Some d \<Rightarrow> d | None \<Rightarrow> fp_lit F (4 / 10))\<rparr>)"

definition CmdCallback :: "'d fp \<Rightarrow> 'd Twist \<Rightarrow> 'd car \<Rightarrow> 'd car" where
  "CmdCallback F cmd c =
     (let linear = tw_linear_x cmd; angular = tw_angular_z cmd;
          half = fp_div F (fp_mul F angular (wheelSeparation c)) (fp_lit F 2)
      in c\<lparr>leftVel := fp_sub F linear half, rightVel := fp_add F linear half\<rparr>)"

text \<open>The velocities that the joints get.\<close>

definition car_OnUpdate :: "'d car \<Rightarrow> 'd \<times> 'd" where
  "car_OnUpdate c = (leftVel c, rightVel c)"

text \<open>The test driver, d_drive_car_control.cpp: the same command every time.\<close>

definition control_onTimer :: "'d fp \<Rightarrow> 'd \<Rightarrow> 'd \<times> 'd Twist" where
  "control_onTimer F i =
     (fp_add F i (fp_lit F (1 / 10)), \<lparr>tw_linear_x = fp_lit F 1, tw_linear_y = fp_lit F 0, tw_angular_z = fp_lit F 1\<rparr>)"

lemma wheels_exact:
  "car_OnUpdate (CmdCallback (exact_fp cs sn sq an) t c) = (l, r) \<Longrightarrow>
     (l + r) / 2 = tw_linear_x t \<and> r - l = tw_angular_z t * wheelSeparation c"
  by (auto simp: car_OnUpdate_def CmdCallback_def Let_def)

subsection \<open>Clicking a goal\<close>

record 'd clicker =
  goal_enabled :: bool
  start_pos :: "'d vec3"
  has_start :: bool
  is_dragging :: bool

definition new_clicker :: "'d fp \<Rightarrow> 'd clicker" where
  "new_clicker F = \<lparr>goal_enabled = False, start_pos = (fp_lit F 0, fp_lit F 0, fp_lit F 0), has_start = False, is_dragging = False\<rparr>"

text \<open>
  \<open>contact\<close> is what the camera finds under the mouse; it is \<open>None\<close> without a camera. The first result says whether the event
  is kept from the camera control.
\<close>

definition OnLeftClick :: "'d vec3 option \<Rightarrow> 'd clicker \<Rightarrow> bool \<times> 'd clicker" where
  "OnLeftClick contact s =
     (if \<not> goal_enabled s then (False, s)
      else case contact of
        None \<Rightarrow> (False, s)
      | Some p \<Rightarrow> (True, s\<lparr>start_pos := p, has_start := True, is_dragging := True\<rparr>))"

definition OnMouseMove :: "'d clicker \<Rightarrow> bool" where
  "OnMouseMove s = (goal_enabled s \<and> is_dragging s)"

definition drag_vector :: "'d fp \<Rightarrow> 'd vec3 \<Rightarrow> 'd vec3 \<Rightarrow> 'd vec3" where
  "drag_vector F p q = (fp_sub F (fst q) (fst p), fp_sub F (fst (snd q)) (fst (snd p)), fp_sub F (snd (snd q)) (snd (snd p)))"

definition too_short :: "'d fp \<Rightarrow> 'd gazebo \<Rightarrow> 'd vec3 \<Rightarrow> 'd vec3 \<Rightarrow> bool" where
  "too_short F G p q = fp_lt F (gz_length G (drag_vector F p q)) (fp_lit F (1 / 1000))"

definition drag_rotation :: "'d fp \<Rightarrow> 'd gazebo \<Rightarrow> 'd vec3 \<Rightarrow> 'd vec3 \<Rightarrow> 'd Quaternion" where
  "drag_rotation F G p q =
     (let dir = drag_vector F p q; yaw = fp_atan2 F (fst (snd dir)) (fst dir) in gz_yaw G yaw)"

text \<open>The message is built from the start and the rotation, differently in the two plugins.\<close>

definition OnLeftRelease ::
  "('d vec3 \<Rightarrow> 'd Quaternion \<Rightarrow> 'm) \<Rightarrow> 'd fp \<Rightarrow> 'd gazebo \<Rightarrow> 'd vec3 option \<Rightarrow> 'd clicker \<Rightarrow> bool \<times> 'd clicker \<times> 'm list" where
  "OnLeftRelease mk F G contact s =
     (if \<not> goal_enabled s \<or> \<not> has_start s then (False, s, [])
      else
        let s = s\<lparr>is_dragging := False\<rparr> in
        case contact of
          None \<Rightarrow> (False, s, [])
        | Some end_pos \<Rightarrow>
            if too_short F G (start_pos s) end_pos then (False, s\<lparr>has_start := False\<rparr>, [])
            else (True, s\<lparr>has_start := False\<rparr>, [mk (start_pos s) (drag_rotation F G (start_pos s) end_pos)]))"

definition keyPressEvent :: "bool \<Rightarrow> 'd clicker \<Rightarrow> 'd clicker" where
  "keyPressEvent is_G s =
     (if is_G then s\<lparr>goal_enabled := \<not> goal_enabled s, has_start := False, is_dragging := False\<rparr> else s)"

record 'd goal_pose =
  gp_frame :: string
  gp_position :: "'d vec3"
  gp_orientation :: "'d Quaternion"

definition goal_msg :: "'d vec3 \<Rightarrow> 'd Quaternion \<Rightarrow> 'd goal_pose" where
  "goal_msg p q = \<lparr>gp_frame = ''map'', gp_position = p, gp_orientation = q\<rparr>"

record 'd path_plan =
  pp_poses :: "('d vec3 \<times> 'd Quaternion) list"
  pp_stop_at_last_point :: bool
  pp_back_up :: bool

definition path_msg :: "'d vec3 \<Rightarrow> 'd Quaternion \<Rightarrow> 'd path_plan" where
  "path_msg p q = \<lparr>pp_poses = [(p, q)], pp_stop_at_last_point = True, pp_back_up = False\<rparr>"

datatype 'd click_event = LeftPress "'d vec3 option" | MouseMove | LeftRelease "'d vec3 option" | KeyPress bool

fun click_step :: "('d vec3 \<Rightarrow> 'd Quaternion \<Rightarrow> 'm) \<Rightarrow> 'd fp \<Rightarrow> 'd gazebo \<Rightarrow> 'd click_event \<Rightarrow> 'd clicker \<Rightarrow> 'd clicker \<times> 'm list" where
  "click_step mk F G (LeftPress contact) s = (snd (OnLeftClick contact s), [])"
| "click_step mk F G MouseMove s = (s, [])"
| "click_step mk F G (LeftRelease contact) s = snd (OnLeftRelease mk F G contact s)"
| "click_step mk F G (KeyPress is_G) s = (keyPressEvent is_G s, [])"

fun click_run :: "('d vec3 \<Rightarrow> 'd Quaternion \<Rightarrow> 'm) \<Rightarrow> 'd fp \<Rightarrow> 'd gazebo \<Rightarrow> 'd click_event list \<Rightarrow> 'd clicker \<Rightarrow> 'd clicker \<times> 'm list" where
  "click_run mk F G [] s = (s, [])"
| "click_run mk F G (e # es) s =
     (let (s, o1) = click_step mk F G e s; (s, o2) = click_run mk F G es s in (s, o1 @ o2))"

subsection \<open>What a user sees of it\<close>

text \<open>Clicking is off, or waits for a start, or has one.\<close>

datatype 'd selection = Off | Armed | Chosen "'d vec3"

fun select_step :: "('d vec3 \<Rightarrow> 'd Quaternion \<Rightarrow> 'm) \<Rightarrow> 'd fp \<Rightarrow> 'd gazebo \<Rightarrow> 'd click_event \<Rightarrow> 'd selection \<Rightarrow> 'd selection \<times> 'm list" where
  "select_step mk F G (KeyPress True) Off = (Armed, [])"
| "select_step mk F G (KeyPress True) _ = (Off, [])"
| "select_step mk F G (LeftPress (Some p)) Off = (Off, [])"
| "select_step mk F G (LeftPress (Some p)) _ = (Chosen p, [])"
| "select_step mk F G (LeftRelease (Some q)) (Chosen p) =
     (Armed, if too_short F G p q then [] else [mk p (drag_rotation F G p q)])"
| "select_step mk F G _ sel = (sel, [])"

fun select_run :: "('d vec3 \<Rightarrow> 'd Quaternion \<Rightarrow> 'm) \<Rightarrow> 'd fp \<Rightarrow> 'd gazebo \<Rightarrow> 'd click_event list \<Rightarrow> 'd selection \<Rightarrow> 'd selection \<times> 'm list" where
  "select_run mk F G [] s = (s, [])"
| "select_run mk F G (e # es) s =
     (let (s, o1) = select_step mk F G e s; (s, o2) = select_run mk F G es s in (s, o1 @ o2))"

definition selection_of :: "'d clicker \<Rightarrow> 'd selection" where
  "selection_of s = (if \<not> goal_enabled s then Off else if has_start s then Chosen (start_pos s) else Armed)"

definition click_inv :: "'d clicker \<Rightarrow> bool" where
  "click_inv s \<longleftrightarrow> (is_dragging s \<longrightarrow> has_start s) \<and> (has_start s \<longrightarrow> goal_enabled s)"

lemma click_step_refines:
  assumes "click_inv s" and "click_step mk F G e s = (s', out)"
  shows "click_inv s' \<and> select_step mk F G e (selection_of s) = (selection_of s', out)"
proof (cases e)
  case (LeftPress contact)
  then show ?thesis using assms by (cases contact) (auto simp: click_inv_def selection_of_def OnLeftClick_def split: if_splits)
next
  case (LeftRelease contact)
  then show ?thesis using assms
    by (cases contact) (auto simp: click_inv_def selection_of_def OnLeftRelease_def Let_def split: if_splits)
next
  case (KeyPress b)
  then show ?thesis using assms by (cases b) (auto simp: click_inv_def selection_of_def keyPressEvent_def)
qed (use assms in auto)

lemma click_run_refines:
  assumes "click_inv s" and "click_run mk F G es s = (s', out)"
  shows "click_inv s' \<and> select_run mk F G es (selection_of s) = (selection_of s', out)"
  using assms
proof (induction es arbitrary: s out)
  case (Cons e es)
  obtain s1 o1 where s1: "click_step mk F G e s = (s1, o1)" by fastforce
  obtain o2 where o2: "click_run mk F G es s1 = (s', o2)" "out = o1 @ o2" using Cons.prems(2) s1 by (auto split: prod.splits)
  from click_step_refines [OF Cons.prems(1) s1] Cons.IH [OF _ o2(1)] o2(2) show ?case by simp
qed simp

text \<open>
  C38: The flags and the stored position of the click plugins implement the plain selection: off, waiting for a start, start chosen. In
  every run of presses, moves, releases and keys the two publish the same, and dragging implies a start, a start that clicking is on.
\<close>

theorem clicks_refine_selection:
  "case click_run mk F G es (new_clicker F) of (s, out) \<Rightarrow>
     select_run mk F G es Off = (selection_of s, out) \<and> (is_dragging s \<longrightarrow> has_start s) \<and> (has_start s \<longrightarrow> goal_enabled s)"
proof -
  obtain s out where r: "click_run mk F G es (new_clicker F) = (s, out)" by fastforce
  have "click_inv (new_clicker F)" "selection_of (new_clicker F) = Off" by (simp_all add: click_inv_def selection_of_def new_clicker_def)
  with click_run_refines [OF _ r] show ?thesis by (simp add: r click_inv_def)
qed

text \<open>
  A release over nothing ends the drag but keeps the start: the next release over the scene publishes a goal at the old start,
  although the press before it hit nothing.
\<close>

theorem stale_start_published:
  assumes "\<not> too_short F G p q"
  shows "click_run mk F G [KeyPress True, LeftPress (Some p), LeftRelease None, LeftPress None, LeftRelease (Some q)] (new_clicker F) =
    (\<lparr>goal_enabled = True, start_pos = p, has_start = False, is_dragging = False\<rparr>, [mk p (drag_rotation F G p q)])"
  using assms by (simp add: new_clicker_def keyPressEvent_def OnLeftClick_def OnLeftRelease_def)

subsection \<open>Odometry and pose\<close>

text \<open>Simulated times are nanoseconds.\<close>

definition due :: "'d fp \<Rightarrow> 'd gazebo \<Rightarrow> int \<Rightarrow> int \<Rightarrow> bool" where
  "due F G now last_publish_time \<longleftrightarrow> \<not> fp_lt F (gz_seconds G (now - last_publish_time)) (fp_lit F (5 / 100))"

definition pose_OnUpdate :: "'d fp \<Rightarrow> 'd gazebo \<Rightarrow> int \<times> 'd vec3 \<times> 'd Quaternion \<Rightarrow> int \<Rightarrow> int \<times> 'd goal_pose list" where
  "pose_OnUpdate F G u last_publish_time =
     (case u of (now, p, q) \<Rightarrow>
        if \<not> due F G now last_publish_time then (last_publish_time, [])
        else (now, [\<lparr>gp_frame = ''map'', gp_position = p, gp_orientation = q\<rparr>]))"

record 'd chassis_odometry =
  co_frame :: string
  co_linear :: "'d vec3"
  co_angular :: "'d vec3"

text \<open>The velocities are those of the link in the coordinates of the world.\<close>

definition odom_OnUpdate :: "'d fp \<Rightarrow> 'd gazebo \<Rightarrow> int \<times> 'd vec3 \<times> 'd vec3 \<Rightarrow> int \<Rightarrow> int \<times> 'd chassis_odometry list" where
  "odom_OnUpdate F G u last_publish_time =
     (case u of (now, linear_vel, angular_vel) \<Rightarrow>
        if \<not> due F G now last_publish_time then (last_publish_time, [])
        else (now, [\<lparr>co_frame = ''map'', co_linear = linear_vel, co_angular = angular_vel\<rparr>]))"

fun updates :: "('u \<Rightarrow> int \<Rightarrow> int \<times> 'm list) \<Rightarrow> 'u list \<Rightarrow> int \<Rightarrow> int \<times> 'm list" where
  "updates upd [] t = (t, [])"
| "updates upd (u # us) t = (let (t, o1) = upd u t; (t, o2) = updates upd us t in (t, o1 @ o2))"

text \<open>What the nodes of the planner get of these messages.\<close>

definition pose_event :: "'d goal_pose \<Rightarrow> 'd planner_event" where
  "pose_event m = PoseMsg \<lparr>pos_x = fst (gp_position m), pos_y = fst (snd (gp_position m)), orientation = gp_orientation m\<rparr>"

definition odom_event :: "'d chassis_odometry \<Rightarrow> 'd planner_event" where
  "odom_event m = OdomMsg \<lparr>frame_id = co_frame m, linear_x = fst (co_linear m), angular_z = snd (snd (co_angular m))\<rparr>"

definition plan_event :: "'d path_plan \<Rightarrow> 'd planner_event" where
  "plan_event m = GoalMsg (map (\<lambda>(p, q). \<lparr>pos_x = fst p, pos_y = fst (snd p), orientation = q\<rparr>) (pp_poses m)) (pp_back_up m)"

text \<open>The times of a run of the world: they do not fall, and two updates are at most \<open>gap\<close> apart.\<close>

fun world_times :: "int \<Rightarrow> int \<Rightarrow> int list \<Rightarrow> bool" where
  "world_times gap t [] = True"
| "world_times gap t (u # us) = (t \<le> u \<and> u \<le> t + gap \<and> world_times gap u us)"

definition PUBLISH_NS :: int where "PUBLISH_NS = 50000000"

lemma due_exact:
  assumes "\<And>n. gz_seconds G n = of_int n / 1000000000"
  shows "due (exact_fp cs sn sq an) G now lst \<longleftrightarrow> PUBLISH_NS \<le> now - lst"
proof -
  have "(of_int (now - lst) / 1000000000 < (5 / 100 :: rat)) = ((of_int (now - lst) :: rat) < of_int PUBLISH_NS)"
    by (auto simp: PUBLISH_NS_def)
  then have "(of_int (now - lst) / 1000000000 < (5 / 100 :: rat)) = (now - lst < PUBLISH_NS)" by (simp only: of_int_less_iff)
  then show ?thesis unfolding due_def exact_fp_simps assms by linarith
qed

lemma updates_rate:
  assumes "updates upd us lst = (lst', out)" and "world_times gap t (map fst us)"
    and "\<And>u l. upd u l = (if fst u - l < PUBLISH_NS then (l, []) else (fst u, [m u]))"
    and "t - lst < PUBLISH_NS" and "lst \<le> t"
  shows "int (length out) * PUBLISH_NS \<le> lst' - lst \<and> lst' - lst \<le> int (length out) * (PUBLISH_NS + gap) \<and>
    lst' \<le> List.last (t # map fst us) \<and> List.last (t # map fst us) - lst' < PUBLISH_NS"
  using assms(1,2,4,5)
proof (induction us arbitrary: lst t out)
  case (Cons u us)
  obtain l1 o1 where u: "upd u lst = (l1, o1)" by fastforce
  obtain o2 where o2: "updates upd us l1 = (lst', o2)" "out = o1 @ o2" using Cons.prems(1) u by (auto split: prod.splits)
  have w: "world_times gap (fst u) (map fst us)" "t \<le> fst u" "fst u \<le> t + gap" using Cons.prems(2) by auto
  show ?case
  proof (cases "fst u - lst < PUBLISH_NS")
    case True
    then show ?thesis using Cons.IH [OF o2(1) w(1)] u o2(2) w(2) Cons.prems(4) by (auto simp: assms(3))
  next
    case False
    then have new: "l1 = fst u" "length o1 = 1" using u by (auto simp: assms(3))
    then have "l1 - lst \<le> PUBLISH_NS + gap" "PUBLISH_NS \<le> l1 - lst" using w(3) Cons.prems(3) False by auto
    then show ?thesis using Cons.IH [OF o2(1) w(1)] new o2(2) by (auto simp: PUBLISH_NS_def algebra_simps)
  qed
qed auto

text \<open>
  With exact times the pose is published every 50 milliseconds: in a run of the world in steps of at most \<open>gap\<close> nanoseconds there is
  no more than one message in 50 milliseconds, and no less than one in 50 milliseconds and a step.
\<close>

theorem pose_rate:
  assumes "F = exact_fp cs sn sq an" and "\<And>n. gz_seconds G n = of_int n / 1000000000"
    and "world_times gap t0 (map fst us)" and "updates (pose_OnUpdate F G) us t0 = (t1, out)"
    and "elapsed = List.last (t0 # map fst us) - t0"
  shows "int (length out) * PUBLISH_NS \<le> elapsed \<and> elapsed < int (length out) * (PUBLISH_NS + gap) + PUBLISH_NS"
proof -
  have upd: "pose_OnUpdate F G u l = (if fst u - l < PUBLISH_NS then (l, [])
      else (fst u, [\<lparr>gp_frame = ''map'', gp_position = fst (snd u), gp_orientation = snd (snd u)\<rparr>]))" for u l
    unfolding pose_OnUpdate_def by (simp add: assms(1) due_exact [of G, OF assms(2)] split: prod.splits)
  from updates_rate [OF assms(4,3) upd] assms(5) show ?thesis by (auto simp: PUBLISH_NS_def)
qed

subsection \<open>From a click to the wheels\<close>

lemma click_publishes:
  assumes "\<not> too_short F G p q"
  shows "snd (click_run mk F G [KeyPress True, LeftPress (Some p), LeftRelease (Some q)] (new_clicker F)) = [mk p (drag_rotation F G p q)]"
  using assms by (simp add: new_clicker_def keyPressEvent_def OnLeftClick_def OnLeftRelease_def)

lemma plan_event_path:
  "plan_event (path_msg p q) = GoalMsg [\<lparr>pos_x = fst p, pos_y = fst (snd p), orientation = q\<rparr>] False"
  by (simp add: plan_event_def path_msg_def)

lemma round_on_goal:
  assumes "planning_fits S cs sn sq an" and "plan_ready (su_fuel S) s"
    and "goal_update s" "odom_update s" "pose_update s" "map_update s" "\<not> back_allowed s" "at_last_point s"
  obtains s' t where "planner_step S PlanRound s = Inr (s', [t])"
    "within_limits (su_fp S) (su_params S) False (max_vel_from_global s) (linear_x (odom_msg s)) (angular_z (odom_msg s))
       (tw_linear_x t) (tw_angular_z t)"
    "if fp_lt (su_fp S) (goal_distance (su_fp S) s) (cf_goal_tolerance (su_config S)) then t = stop_twist (su_fp S)
     else \<exists>seen. car_raycast (su_fp S) (su_fuel S) s = Inr seen \<and> best_command S s seen (tw_linear_x t) (tw_angular_z t)"
proof -
  let ?near = "fp_lt (su_fp S) (goal_distance (su_fp S) s) (cf_goal_tolerance (su_config S))"
  note fits = assms(1) [unfolded planning_fits_def]
  have order: "float_order (su_fp S)" using fits exact.float_order_axioms by metis
  obtain s' out where r: "plan_round S s = Inr (s', out)" using plan_round_returns [OF assms(1,2)] by blast
  have round: "plan_round S s = (if ?near then Inr (s\<lparr>goal_update := False\<rparr>, [stop_twist (su_fp S)])
      else (case plan_command S s of Inl e \<Rightarrow> Inl e | Inr t \<Rightarrow> Inr (s, [t])))"
    using assms(3-6,8) by (simp add: plan_round_def goalReached_def)
  obtain t where t: "out = [t]" "if ?near then t = stop_twist (su_fp S) else plan_command S s = Inr t"
    using r unfolding round by (auto split: if_splits sum.splits)
  have st: "planner_step S PlanRound s = Inr (s', [t])" using r t(1) by simp
  have "within_limits (su_fp S) (su_params S) False (max_vel_from_global s) (linear_x (odom_msg s)) (angular_z (odom_msg s))
      (tw_linear_x t) (tw_angular_z t)"
    using step_limits [OF order _ st, of False] fits assms(7) by simp
  moreover have "if ?near then t = stop_twist (su_fp S)
     else \<exists>seen. car_raycast (su_fp S) (su_fuel S) s = Inr seen \<and> best_command S s seen (tw_linear_x t) (tw_angular_z t)"
  proof (cases ?near)
    case False
    then have "plan_command S s = Inr t" using t(2) by simp
    then obtain seen where "car_raycast (su_fp S) (su_fuel S) s = Inr seen" "best_command S s seen (tw_linear_x t) (tw_angular_z t)"
      using plan_command_best [OF order] fits by metis
    with False show ?thesis by auto
  qed (use t(2) in simp)
  ultimately show thesis using r t(1) that by simp
qed

text \<open>
  The quaternion of a rotation about the vertical axis, as ignition's \<open>Quaterniond(0, 0, yaw)\<close> builds it, and what
  \<open>getYaw\<close> reads of it in exact arithmetic.
\<close>

definition yaw_quaternion :: "(rat \<Rightarrow> rat) \<Rightarrow> (rat \<Rightarrow> rat) \<Rightarrow> rat \<Rightarrow> rat Quaternion" where
  "yaw_quaternion cs sn a = \<lparr>q_x = 0, q_y = 0, q_z = sn (a / 2), q_w = cs (a / 2)\<rparr>"

text \<open>\<open>atan2\<close> finds the angle that it returned again in its sine and cosine, which are given by those of the half angle.\<close>

definition atan2_law :: "(rat \<Rightarrow> rat) \<Rightarrow> (rat \<Rightarrow> rat) \<Rightarrow> (rat \<Rightarrow> rat \<Rightarrow> rat) \<Rightarrow> bool" where
  "atan2_law cs sn an \<longleftrightarrow>
     (\<forall>y x. let a = an y x / 2 in an (2 * (cs a * sn a)) (cs a * cs a - sn a * sn a) = an y x)"

lemma yaw_read_back:
  "atan2_law cs sn an \<Longrightarrow> getYaw (exact_fp cs sn sq an) (yaw_quaternion cs sn (an y x)) = an y x"
  by (simp add: atan2_law_def getYaw_def yaw_quaternion_def Let_def)


subsection \<open>The map of the tests\<close>

text \<open>map_publisher_test.cpp publishes a map without obstacles.\<close>

definition fake_map :: "'d fp \<Rightarrow> 'd OccupancyGrid" where
  "fake_map F = \<lparr>grid_resolution = fp_single F (fp_lit F (1 / 10)), grid_width = 100, grid_height = 100, grid_data = replicate (100 * 100) 0\<rparr>"

lemma fake_map_cell: "grid_at (fake_map F) k = Inr c \<Longrightarrow> c = 0"
  by (auto simp: grid_at_def fake_map_def split: if_splits)

lemma fake_map_ray: "ray_loop F (fake_map F) cur m angle fuel d = Inr r \<Longrightarrow> r = None"
proof (induction fuel arbitrary: d)
  case 0
  then show ?case by (subst (asm) ray_loop.simps) (auto split: if_splits)
next
  case (Suc fuel)
  from Suc.prems show ?case
    by (subst (asm) ray_loop.simps) (auto simp: Let_def dest: fake_map_cell Suc.IH split: if_splits sum.splits)
qed

text \<open>C0: On the map of the tests the planner, if it can read it at all, sees no obstacle in any direction.\<close>

theorem fake_map_free:
  assumes "costmap s = Some (fake_map F)" and "car_raycast F fuel s = Inr obs"
  shows "obs = []"
proof -
  define body where "body = (\<lambda>angle (obs :: ('a \<times> 'a) list).
    case ray_loop F (fake_map F) (fp_single F (pos_x (current_pose s)), fp_single F (pos_y (current_pose s)))
      (fp_mul F (fp_int F (int (grid_width (fake_map F)))) (grid_resolution (fake_map F))) angle fuel (fp_lit F 0) of
      Inl e \<Rightarrow> Inl e | Inr None \<Rightarrow> Inr obs | Inr (Some p) \<Rightarrow> Inr (obs @ [p]))"
  have body: "body angle [] = Inr obs2 \<Longrightarrow> obs2 = []" for angle obs2
    by (auto simp: body_def dest: fake_map_ray split: sum.splits option.splits)
  have "for_loop F nxt hi body n v [] = Inr obs2 \<Longrightarrow> obs2 = []" for nxt hi n v obs2
    by (induction n arbitrary: v) (auto split: if_splits sum.splits dest: body)
  with assms show ?thesis by (auto simp: car_raycast_def Let_def simp flip: body_def)
qed

subsection \<open>A click in a small world\<close>

definition line_gazebo :: "rat gazebo" where
  "line_gazebo = \<lparr>gz_length = \<lambda>(x, y, z). \<bar>x\<bar>, gz_yaw = \<lambda>a. \<lparr>q_x = 0, q_y = 0, q_z = 0, q_w = 1\<rparr>, gz_seconds = \<lambda>n. of_int n / 1000000000\<rparr>"

lemma line_drag: "\<not> too_short line_fp line_gazebo (4, 0, 0) (5, 0, 0)"
  by (simp add: too_short_def drag_vector_def line_gazebo_def line_fp_def)

theorem clicks_refine_selection_witness:
  "\<exists>s out. click_run goal_msg line_fp line_gazebo [KeyPress True, LeftPress (Some (4, 0, 0))] (new_clicker line_fp) = (s, out) \<and>
     selection_of s = Chosen (4, 0, 0) \<and> is_dragging s"
proof -
  let ?es = "[KeyPress True, LeftPress (Some (4, 0, 0))]"
  obtain s out where r: "click_run goal_msg line_fp line_gazebo ?es (new_clicker line_fp) = (s, out)" by fastforce
  have "select_run goal_msg line_fp line_gazebo ?es Off = (selection_of s, out)"
    using clicks_refine_selection [of goal_msg line_fp line_gazebo ?es] unfolding r by simp
  moreover have "is_dragging s" using r by (auto simp: new_clicker_def keyPressEvent_def OnLeftClick_def)
  ultimately show ?thesis using r by auto
qed

theorem stale_start_published_witness:
  "click_run goal_msg line_fp line_gazebo [KeyPress True, LeftPress (Some (4, 0, 0)), LeftRelease None, LeftPress None, LeftRelease (Some (5, 0, 0))]
     (new_clicker line_fp) =
   (\<lparr>goal_enabled = True, start_pos = (4, 0, 0), has_start = False, is_dragging = False\<rparr>,
    [goal_msg (4, 0, 0) (drag_rotation line_fp line_gazebo (4, 0, 0) (5, 0, 0))])"
  by (rule stale_start_published [OF line_drag])

theorem pose_rate_witness:
  "\<exists>out. updates (pose_OnUpdate line_fp line_gazebo)
       (map (\<lambda>t. (t, (0, 0, 0), \<lparr>q_x = 0, q_y = 0, q_z = 0, q_w = 1\<rparr>)) [30000000, 60000000, 120000000]) 0 = (120000000, out) \<and>
     int (length out) * PUBLISH_NS \<le> 120000000 \<and> 120000000 < int (length out) * (PUBLISH_NS + 60000000) + PUBLISH_NS"
proof -
  let ?us = "map (\<lambda>t. (t, (0, 0, 0), \<lparr>q_x = 0, q_y = 0, q_z = 0, q_w = 1\<rparr>)) [30000000, 60000000, 120000000] :: (int \<times> rat vec3 \<times> rat Quaternion) list"
  have gz: "gz_seconds line_gazebo n = of_int n / 1000000000" for n by (simp add: line_gazebo_def)
  obtain out where u: "updates (pose_OnUpdate line_fp line_gazebo) ?us 0 = (120000000, out)"
    unfolding line_fp_def by (simp add: pose_OnUpdate_def due_exact [of line_gazebo, OF gz] PUBLISH_NS_def)
  from pose_rate [OF line_fp_def gz _ u, of 60000000 120000000] u show ?thesis by auto
qed

text \<open>An arithmetic in which a drag can point somewhere: up, an angle called 2 here, or along the axis.\<close>

definition turn_cos :: "rat \<Rightarrow> rat" where
  "turn_cos a = (if a = 1 then 4 / 5 else 1)"

definition turn_sin :: "rat \<Rightarrow> rat" where
  "turn_sin a = (if a = 1 then 3 / 5 else 0)"

definition turn_atan2 :: "rat \<Rightarrow> rat \<Rightarrow> rat" where
  "turn_atan2 y x = (if 0 < y then 2 else 0)"

lemma turn_law: "atan2_law turn_cos turn_sin turn_atan2"
  by (simp add: atan2_law_def turn_cos_def turn_sin_def turn_atan2_def Let_def)

definition turn_planning :: "rat planning" where
  "turn_planning = line_planning\<lparr>su_fp := exact_fp turn_cos turn_sin (\<lambda>q. q) turn_atan2\<rparr>"

definition turn_gazebo :: "rat gazebo" where
  "turn_gazebo = line_gazebo\<lparr>gz_length := \<lambda>(x, y, z). \<bar>x\<bar> + \<bar>y\<bar>, gz_yaw := yaw_quaternion turn_cos turn_sin\<rparr>"

lemma turn_fits: "planning_fits turn_planning turn_cos turn_sin (\<lambda>q. q) turn_atan2"
  using line_steps by (simp add: planning_fits_def turn_planning_def line_planning_def turn_cos_def turn_sin_def)


theorem fake_map_free_witness:
  "\<exists>obs. car_raycast line_fp 101 (mapCallback (fake_map line_fp) drive_start) = Inr obs \<and> obs = []"
proof -
  have "map_ok (fake_map line_fp)" by (simp add: map_ok_def fake_map_def line_fp_def)
  then obtain obs where o: "car_raycast line_fp 101 (mapCallback (fake_map line_fp) drive_start) = Inr obs"
    using car_raycast_returns [of "mapCallback (fake_map line_fp) drive_start" "fake_map line_fp"
      "\<lambda>x. 1" "\<lambda>x. 0" 101 "\<lambda>q. if q = 4 then 2 else if q = 16 then 4 else q" "\<lambda>y x. 0"]
    by (auto simp: mapCallback_def line_fp_def fake_map_def)
  have "costmap (mapCallback (fake_map line_fp) drive_start) = Some (fake_map line_fp)" by (simp add: mapCallback_def)
  from fake_map_free [OF this o] o show ?thesis by blast
qed

end
