(* ===== verification/PortMessage.thy ===== *)
theory PortMessage
  imports Prelude
begin

text \<open>
  The messages of the tool in the HarmonyOS port, entry/src/main/cpp/Middleware/src/Util/src/napi_util.cpp: a JSON text is
  written into a protobuf message through its descriptor, field by field and message within message. The texts of JSON,
  the descriptors and the conversions of jsoncpp are parameters.
\<close>

subsection \<open>JSON and messages\<close>

text \<open>\<open>'j\<close> is a value that is neither an array nor an object, \<open>'v\<close> what a field of a scalar type holds.\<close>

datatype 'j json = Scalar 'j | Array "'j json list" | Object "(string \<times> 'j json) list"

text \<open>The types \<open>cpp_type()\<close> of protobuf; a message type is named.\<close>

datatype field_type =
    TString | TBool | TDouble | TFloat | TInt32 | TInt64 | TUInt32 | TUInt64 | TEnum | TMessage string

record field_desc =
  fd_repeated :: bool
  fd_type :: field_type

datatype 'v pvalue = PScalar 'v | PMessage "(string \<times> 'v pvalue) list" | PRepeated "'v pvalue list"

type_synonym 'v pmessage = "(string, 'v pvalue) umap"

text \<open>
  \<open>me_conv\<close> is \<open>asString\<close>, \<open>asBool\<close>, \<open>asDouble\<close> and so on; it throws (\<open>None\<close>) where jsoncpp does. \<open>me_pool\<close> finds the
  descriptor of a message type, \<open>me_parse\<close> is the reader of jsoncpp.
\<close>

record ('j, 'v) message_env =
  me_conv :: "field_type \<Rightarrow> 'j json \<Rightarrow> 'v option"
  me_pool :: "string \<Rightarrow> (string \<times> field_desc) list option"
  me_parse :: "string \<Rightarrow> 'j json option"

definition field_of :: "('j, 'v) message_env \<Rightarrow> string \<Rightarrow> string \<Rightarrow> field_desc option" where
  "field_of E type name = (case me_pool E type of None \<Rightarrow> None | Some desc \<Rightarrow> map_of desc name)"

text \<open>What \<open>MutableMessage\<close> and the \<open>Add\<close> functions of a repeated field start from.\<close>

fun old_message :: "'v pvalue option \<Rightarrow> 'v pmessage" where
  "old_message (Some (PMessage m)) = m"
| "old_message _ = []"

fun old_items :: "'v pvalue option \<Rightarrow> 'v pvalue list" where
  "old_items (Some (PRepeated vs)) = vs"
| "old_items _ = []"

text \<open>
  \<open>fill_field\<close> returns the new value of the field; \<open>Inr None\<close> is its result \<open>false\<close>. A conversion that throws ends the process,
  as nothing catches it.
\<close>

fun fill_field :: "('j, 'v) message_env \<Rightarrow> field_desc \<Rightarrow> 'j json \<Rightarrow> 'v pvalue option \<Rightarrow> error + 'v pvalue option"
and fill_members :: "('j, 'v) message_env \<Rightarrow> string \<Rightarrow> (string \<times> 'j json) list \<Rightarrow> 'v pmessage \<Rightarrow> error + 'v pmessage option"
and fill_items :: "('j, 'v) message_env \<Rightarrow> field_type \<Rightarrow> 'j json list \<Rightarrow> 'v pvalue list \<Rightarrow> error + 'v pvalue list option" where
  "fill_field E fd j old =
     (if fd_repeated fd then
        (case j of
           Array xs \<Rightarrow> map_sum id (map_option PRepeated) (fill_items E (fd_type fd) xs (old_items old))
         | _ \<Rightarrow> Inr None)
      else
        case fd_type fd of
          TMessage t \<Rightarrow>
            (case j of
               Object ms \<Rightarrow> map_sum id (map_option PMessage) (fill_members E t ms (old_message old))
             | _ \<Rightarrow> Inr None)
        | ft \<Rightarrow> (case me_conv E ft j of None \<Rightarrow> Inl Terminated | Some v \<Rightarrow> Inr (Some (PScalar v))))"
| "fill_members E t [] m = Inr (Some m)"
| "fill_members E t ((k, j) # ms) m =
     (case field_of E t k of
        None \<Rightarrow> Inr None
      | Some fd \<Rightarrow>
          (case fill_field E fd j (um_find m k) of
             Inl e \<Rightarrow> Inl e
           | Inr None \<Rightarrow> Inr None
           | Inr (Some v) \<Rightarrow> fill_members E t ms (um_put k v m)))"
| "fill_items E ft [] vs = Inr (Some vs)"
| "fill_items E ft (j # js) vs =
     (case ft of
        TMessage t \<Rightarrow>
          (case j of
             Object ms \<Rightarrow>
               (case fill_members E t ms [] of
                  Inl e \<Rightarrow> Inl e
                | Inr None \<Rightarrow> Inr None
                | Inr (Some m) \<Rightarrow> fill_items E ft js (vs @ [PMessage m]))
           | _ \<Rightarrow> Inr None)
      | _ \<Rightarrow> (case me_conv E ft j of None \<Rightarrow> Inl Terminated | Some v \<Rightarrow> fill_items E ft js (vs @ [PScalar v])))"

text \<open>
  The members that the outer loop visits: those of an object; the elements of an array have no name, and anything else has no members.
\<close>

fun json_members :: "'j json \<Rightarrow> (string \<times> 'j json) list" where
  "json_members (Object ms) = ms"
| "json_members (Array xs) = map (\<lambda>x. ('''', x)) xs"
| "json_members (Scalar v) = []"

definition make_message :: "('j, 'v) message_env \<Rightarrow> string \<Rightarrow> string \<Rightarrow> error + 'v pmessage option" where
  "make_message E message_type message_value =
     (case me_pool E message_type of
        None \<Rightarrow> Inr None
      | Some desc \<Rightarrow>
          (case me_parse E message_value of
             None \<Rightarrow> Inr None
           | Some data \<Rightarrow> fill_members E message_type (json_members data) []))"

declare fill_field.simps [simp del]

subsection \<open>Messages conform to their descriptor\<close>

text \<open>\<open>holds ft v\<close>: \<open>v\<close> is a value of the C++ type of such a field.\<close>

fun value_ok :: "('j, 'v) message_env \<Rightarrow> (field_type \<Rightarrow> 'v \<Rightarrow> bool) \<Rightarrow> field_desc \<Rightarrow> 'v pvalue \<Rightarrow> bool" where
  "value_ok E holds fd (PScalar v) \<longleftrightarrow> \<not> fd_repeated fd \<and> (\<forall>t. fd_type fd \<noteq> TMessage t) \<and> holds (fd_type fd) v"
| "value_ok E holds fd (PMessage m) \<longleftrightarrow> \<not> fd_repeated fd \<and> um_wf m \<and>
     (case fd_type fd of
        TMessage t \<Rightarrow> (\<forall>kv \<in> set m. case field_of E t (fst kv) of None \<Rightarrow> False | Some fd \<Rightarrow> value_ok E holds fd (snd kv))
      | _ \<Rightarrow> False)"
| "value_ok E holds fd (PRepeated vs) \<longleftrightarrow> fd_repeated fd \<and> (\<forall>v \<in> set vs. value_ok E holds (fd\<lparr>fd_repeated := False\<rparr>) v)"

definition message_ok :: "('j, 'v) message_env \<Rightarrow> (field_type \<Rightarrow> 'v \<Rightarrow> bool) \<Rightarrow> string \<Rightarrow> 'v pmessage \<Rightarrow> bool" where
  "message_ok E holds t m \<longleftrightarrow> um_wf m \<and> (\<forall>k v. um_find m k = Some v \<longrightarrow> (\<exists>fd. field_of E t k = Some fd \<and> value_ok E holds fd v))"

definition items_ok :: "('j, 'v) message_env \<Rightarrow> (field_type \<Rightarrow> 'v \<Rightarrow> bool) \<Rightarrow> field_type \<Rightarrow> 'v pvalue list \<Rightarrow> bool" where
  "items_ok E holds ft vs \<longleftrightarrow> (\<forall>v \<in> set vs. value_ok E holds \<lparr>fd_repeated = False, fd_type = ft\<rparr> v)"

lemma value_ok_message:
  "value_ok E holds fd (PMessage m) \<longleftrightarrow> \<not> fd_repeated fd \<and> (\<exists>t. fd_type fd = TMessage t \<and> message_ok E holds t m)"
  by (cases "fd_type fd") (fastforce simp: message_ok_def um_find_mem [symmetric] split: option.splits)+

lemma value_ok_repeated: "value_ok E holds fd (PRepeated vs) \<longleftrightarrow> fd_repeated fd \<and> items_ok E holds (fd_type fd) vs"
proof -
  have "fd\<lparr>fd_repeated := False\<rparr> = \<lparr>fd_repeated = False, fd_type = fd_type fd\<rparr>" by (cases fd) simp
  then show ?thesis unfolding value_ok.simps items_ok_def by (rule ssubst) rule
qed

declare value_ok.simps(2,3) [simp del]

lemma message_ok_Nil [simp]: "message_ok E holds t []"
  by (simp add: message_ok_def)

lemma items_ok_Nil [simp]: "items_ok E holds ft []"
  by (simp add: items_ok_def)

lemma old_ok:
  assumes "\<forall>v. old = Some v \<longrightarrow> value_ok E holds fd v"
  shows "fd_type fd = TMessage t \<Longrightarrow> message_ok E holds t (old_message old)" and "items_ok E holds (fd_type fd) (old_items old)"
  using assms by (cases old rule: old_message.cases, auto simp: value_ok_message)
    (cases old rule: old_items.cases, auto simp: value_ok_repeated)

lemma map_sum_Some: "map_sum id (map_option f) r = Inr (Some v) \<longleftrightarrow> (\<exists>w. r = Inr (Some w) \<and> v = f w)"
  by (cases r) auto

text \<open>The conversions give values of the C++ type they are named after.\<close>

definition conv_ok :: "('j, 'v) message_env \<Rightarrow> (field_type \<Rightarrow> 'v \<Rightarrow> bool) \<Rightarrow> bool" where
  "conv_ok E holds \<longleftrightarrow> (\<forall>ft j v. me_conv E ft j = Some v \<longrightarrow> holds ft v)"

lemma fill_ok:
  shows "fill_field E fd j old = Inr (Some v) \<Longrightarrow> conv_ok E holds \<Longrightarrow> \<forall>v. old = Some v \<longrightarrow> value_ok E holds fd v \<Longrightarrow> value_ok E holds fd v"
    and "fill_members E t ms m = Inr (Some m') \<Longrightarrow> conv_ok E holds \<Longrightarrow> message_ok E holds t m \<Longrightarrow> message_ok E holds t m'"
    and "fill_items E ft js vs = Inr (Some vs') \<Longrightarrow> conv_ok E holds \<Longrightarrow> items_ok E holds ft vs \<Longrightarrow> items_ok E holds ft vs'"
proof (induction E fd j old and E t ms m and E ft js vs arbitrary: v and m' and vs' rule: fill_field_fill_members_fill_items.induct)
  case (1 E fd j old)
  note old = old_ok [OF "1.prems"(3)]
  show ?case
  proof (cases "fd_repeated fd")
    case True
    with "1.prems"(1) obtain xs vs where "j = Array xs" "fill_items E (fd_type fd) xs (old_items old) = Inr (Some vs)" "v = PRepeated vs"
      by (auto simp: fill_field.simps map_sum_Some split: json.splits)
    then show ?thesis using True "1.IH"(1) "1.prems"(2) old(2) by (simp add: value_ok_repeated)
  next
    case single: False
    show ?thesis
    proof (cases "\<exists>t. fd_type fd = TMessage t")
      case True
      then obtain t where t: "fd_type fd = TMessage t" by blast
      with single "1.prems"(1) obtain ms m where "j = Object ms" "fill_members E t ms (old_message old) = Inr (Some m)" "v = PMessage m"
        by (auto simp: fill_field.simps map_sum_Some split: json.splits)
      then show ?thesis using t single "1.IH"(2) "1.prems"(2) old(1) by (simp add: value_ok_message)
    next
      case False
      then have "\<exists>w. me_conv E (fd_type fd) j = Some w \<and> v = PScalar w"
        using single "1.prems"(1) by (cases "fd_type fd") (auto simp: fill_field.simps split: option.splits)
      then show ?thesis using single False "1.prems"(2) by (auto simp: conv_ok_def)
    qed
  qed
next
  case (3 E t k j ms m)
  obtain fd v where v: "field_of E t k = Some fd" "fill_field E fd j (um_find m k) = Inr (Some v)"
    "fill_members E t ms (um_put k v m) = Inr (Some m')"
    using "3.prems"(1) by (auto split: option.splits sum.splits)
  have "\<forall>v. um_find m k = Some v \<longrightarrow> value_ok E holds fd v" using "3.prems"(3) v(1) by (fastforce simp: message_ok_def)
  from "3.IH"(1) [OF v(1,2) "3.prems"(2) this] have "value_ok E holds fd v" .
  then have "message_ok E holds t (um_put k v m)" using "3.prems"(3) v(1) by (auto simp: message_ok_def)
  then show ?case using "3.IH"(2) [OF v(1,2) _ v(3) "3.prems"(2)] by simp
next
  case (5 E ft j js vs)
  show ?case
  proof (cases "\<exists>t. ft = TMessage t")
    case True
    then obtain t where t: "ft = TMessage t" by blast
    with "5.prems"(1) obtain ms m where m: "j = Object ms" "fill_members E t ms [] = Inr (Some m)"
      "fill_items E ft js (vs @ [PMessage m]) = Inr (Some vs')"
      by (auto split: json.splits sum.splits option.splits)
    have "items_ok E holds ft (vs @ [PMessage m])"
      using "5.IH"(10) [OF t m(1,2)] "5.prems"(2,3) t by (auto simp: items_ok_def value_ok_message)
    then show ?thesis using "5.IH"(11) [OF t m(1,2) _ m(3) "5.prems"(2)] by simp
  next
    case False
    then obtain w where w: "me_conv E ft j = Some w" "fill_items E ft js (vs @ [PScalar w]) = Inr (Some vs')"
      using "5.prems"(1) by (cases ft) (auto split: option.splits)
    have "items_ok E holds ft (vs @ [PScalar w])"
      using "5.prems"(2,3) w(1) False by (auto simp: items_ok_def conv_ok_def)
    then show ?thesis using "5.IH" w False "5.prems"(2) by (cases ft) auto
  qed
qed auto

lemma make_message_ok:
  assumes "make_message E t text = Inr (Some m)" and "conv_ok E holds"
  shows "message_ok E holds t m"
  using assms(1) fill_ok(2) [OF _ assms(2)] by (fastforce simp: make_message_def split: option.splits)

text \<open>
  C35: A message that is built from JSON conforms to the descriptor of its type, at every depth: only fields that the type has, each once,
  values of the C++ type of the field, and lists exactly where the field is repeated.
\<close>

theorem message_typed:
  assumes "make_message E t text = Inr (Some m)" and "conv_ok E holds"
  shows "um_wf m \<and> (\<forall>k v. um_find m k = Some v \<longrightarrow> (\<exists>fd. field_of E t k = Some fd \<and> value_ok E holds fd v))"
  using make_message_ok [OF assms] by (simp add: message_ok_def)

subsection \<open>Printing and reading back\<close>

text \<open>The JSON of a message under the names of its fields.\<close>

fun json_of :: "('v \<Rightarrow> 'j) \<Rightarrow> 'v pvalue \<Rightarrow> 'j json" where
  "json_of pr (PScalar v) = Scalar (pr v)"
| "json_of pr (PMessage m) = Object (map (\<lambda>kv. (fst kv, json_of pr (snd kv))) m)"
| "json_of pr (PRepeated vs) = Array (map (json_of pr) vs)"

definition prints_back :: "('j, 'v) message_env \<Rightarrow> (field_type \<Rightarrow> 'v \<Rightarrow> bool) \<Rightarrow> ('v \<Rightarrow> 'j) \<Rightarrow> bool" where
  "prints_back E holds pr \<longleftrightarrow> (\<forall>ft v. holds ft v \<longrightarrow> me_conv E ft (Scalar (pr v)) = Some v)"

lemma um_put_new: "k \<notin> fst ` set m \<Longrightarrow> um_put k v m = m @ [(k, v)]"
  unfolding um_put_def by (induction m) auto

lemma fill_members_back:
  assumes "um_wf (xs @ ys)"
    and "\<And>k v. (k, v) \<in> set ys \<Longrightarrow> \<exists>fd. field_of E t k = Some fd \<and> fill_field E fd (json_of pr v) None = Inr (Some v)"
  shows "fill_members E t (map (\<lambda>kv. (fst kv, json_of pr (snd kv))) ys) xs = Inr (Some (xs @ ys))"
  using assms
proof (induction ys arbitrary: xs)
  case (Cons y ys)
  obtain k v where y: "y = (k, v)" by fastforce
  have new: "k \<notin> fst ` set xs" using Cons.prems(1) y by (auto simp: um_wf_def)
  then have "um_find xs k = None" by (simp add: um_find_def map_of_eq_None_iff)
  moreover obtain fd where "field_of E t k = Some fd" "fill_field E fd (json_of pr v) None = Inr (Some v)"
    using Cons.prems(2) [of k v] y by auto
  moreover have "fill_members E t (map (\<lambda>kv. (fst kv, json_of pr (snd kv))) ys) (xs @ [y]) = Inr (Some ((xs @ [y]) @ ys))"
    using Cons.prems by (intro Cons.IH) auto
  ultimately show ?case using new y by (simp add: um_put_new)
qed simp

lemma fill_back:
  assumes "prints_back E holds pr"
  shows "value_ok E holds fd v \<Longrightarrow> fill_field E fd (json_of pr v) None = Inr (Some v)"
proof (induction v arbitrary: fd)
  case (PScalar v)
  then have "me_conv E (fd_type fd) (Scalar (pr v)) = Some v" using assms by (simp add: prints_back_def)
  then show ?case using PScalar by (cases "fd_type fd") (auto simp: fill_field.simps)
next
  case (PMessage m)
  then obtain t where t: "fd_type fd = TMessage t" "\<not> fd_repeated fd" "message_ok E holds t m" by (auto simp: value_ok_message)
  have "fill_members E t (map (\<lambda>kv. (fst kv, json_of pr (snd kv))) m) [] = Inr (Some ([] @ m))"
  proof (rule fill_members_back)
    fix k v assume kv: "(k, v) \<in> set m"
    then have "um_find m k = Some v" using t(3) by (simp add: message_ok_def um_find_mem)
    then obtain fd where "field_of E t k = Some fd" "value_ok E holds fd v" using t(3) by (auto simp: message_ok_def)
    then show "\<exists>fd. field_of E t k = Some fd \<and> fill_field E fd (json_of pr v) None = Inr (Some v)"
      using PMessage.IH [of "(k, v)" v] kv by auto
  qed (use t(3) in \<open>simp add: message_ok_def\<close>)
  then show ?case using t by (simp add: fill_field.simps)
next
  case (PRepeated vs)
  then have rep: "fd_repeated fd" "items_ok E holds (fd_type fd) vs" by (auto simp: value_ok_repeated)
  have "fill_items E (fd_type fd) (map (json_of pr) ws) us = Inr (Some (us @ ws))" if "set ws \<subseteq> set vs" for us ws
    using that
  proof (induction ws arbitrary: us)
    case (Cons w ws)
    have w_ok: "value_ok E holds \<lparr>fd_repeated = False, fd_type = fd_type fd\<rparr> w" using Cons.prems rep(2) by (simp add: items_ok_def)
    then have filled: "fill_field E \<lparr>fd_repeated = False, fd_type = fd_type fd\<rparr> (json_of pr w) None = Inr (Some w)"
      using PRepeated.IH [of w] Cons.prems by simp
    have rest: "fill_items E (fd_type fd) (map (json_of pr) ws) (us @ [w]) = Inr (Some ((us @ [w]) @ ws))"
      using Cons by simp
    show ?case
    proof (cases w)
      case (PScalar x)
      then show ?thesis using filled rest w_ok by (cases "fd_type fd") (auto simp: fill_field.simps split: option.splits)
    next
      case (PMessage m)
      then show ?thesis using filled rest w_ok
        by (auto simp: fill_field.simps value_ok_message map_sum_Some)
    qed (use w_ok in \<open>simp add: value_ok_repeated\<close>)
  qed simp
  from this [of vs "[]"] show ?case using rep by (simp add: fill_field.simps)
qed

text \<open>
  C36: What the tool reads it can read again: the JSON of a message that was built, printed under the names of its fields, is built into the
  same message.
\<close>

theorem message_roundtrip:
  assumes "make_message E t text = Inr (Some m)" and "conv_ok E holds" and "prints_back E holds pr"
    and "me_parse E text2 = Some (json_of pr (PMessage m))"
  shows "make_message E t text2 = Inr (Some m)"
proof -
  have ok: "message_ok E holds t m" by (rule make_message_ok [OF assms(1,2)])
  have "fill_members E t (map (\<lambda>kv. (fst kv, json_of pr (snd kv))) m) [] = Inr (Some ([] @ m))"
  proof (rule fill_members_back)
    fix k v assume "(k, v) \<in> set m"
    then have "um_find m k = Some v" using ok by (simp add: message_ok_def um_find_mem)
    then show "\<exists>fd. field_of E t k = Some fd \<and> fill_field E fd (json_of pr v) None = Inr (Some v)"
      using ok fill_back [OF assms(3)] by (force simp: message_ok_def)
  qed (use ok in \<open>simp add: message_ok_def\<close>)
  then show ?thesis using assms(1,4) by (simp add: make_message_def split: option.splits)
qed

text \<open>A member that the type does not have is never accepted.\<close>

lemma fill_members_known: "fill_members E t ms m = Inr (Some m') \<Longrightarrow> (k, j) \<in> set ms \<Longrightarrow> field_of E t k \<noteq> None"
  by (induction ms arbitrary: m) (auto split: option.splits sum.splits)

subsection \<open>A small type\<close>

definition header_env :: "(int, int) message_env" where
  "header_env =
     \<lparr>me_conv = \<lambda>ft j. case j of Scalar n \<Rightarrow> Some n | _ \<Rightarrow> None,
      me_pool = map_of [(''Header'', [(''frame_id'', \<lparr>fd_repeated = False, fd_type = TString\<rparr>), (''seq'', \<lparr>fd_repeated = True, fd_type = TInt32\<rparr>)]),
                        (''Pose'', [(''header'', \<lparr>fd_repeated = False, fd_type = TMessage ''Header''\<rparr>)])],
      me_parse = map_of
        [(''a'', Object [(''header'', Object [(''frame_id'', Scalar 7), (''seq'', Array [Scalar 1, Scalar 2])])]),
         (''b'', Object [(''header'', Object [(''frameId'', Scalar 7)])])]\<rparr>"

definition header_msg :: "int pmessage" where
  "header_msg = [(''header'', PMessage [(''frame_id'', PScalar 7), (''seq'', PRepeated [PScalar 1, PScalar 2])])]"

lemma header_made: "make_message header_env ''Pose'' ''a'' = Inr (Some header_msg)"
  by code_simp

lemma header_laws: "conv_ok header_env (\<lambda>ft v. True)" "prints_back header_env (\<lambda>ft v. True) id"
  by (simp_all add: conv_ok_def prints_back_def header_env_def)

theorem message_typed_witness:
  "make_message header_env ''Pose'' ''a'' = Inr (Some header_msg) \<and> um_wf header_msg"
  using message_typed [OF header_made header_laws(1)] header_made by blast

theorem message_roundtrip_witness:
  "me_parse header_env ''a'' = Some (json_of id (PMessage header_msg)) \<and> make_message header_env ''Pose'' ''a'' = Inr (Some header_msg)"
proof -
  have "me_parse header_env ''a'' = Some (json_of id (PMessage header_msg))" by code_simp
  from this message_roundtrip [OF header_made header_laws this] show ?thesis by blast
qed

end
