(* ===== verification/PortTool.thy ===== *)
theory PortTool
  imports PortMessage UtilCli
begin

text \<open>
  The tool of the HarmonyOS port, entry/src/main/cpp: the commands that the user interface sends (napi_init.cpp), the nodes and
  threads that they start (Middleware/src/Util/src/napi_util.cpp), and the request that stops a node
  (Middleware/src/Master/src/shm/controller/NodeStopController.cpp). The tool keeps its nodes in two tables by name; the
  local master is in the state, as the name of a node must be new there. What the nodes of the library do in the process is an output.
\<close>

subsection \<open>The words of a command\<close>

text \<open>\<open>while (iss >> token)\<close>.\<close>

function split_words :: "string \<Rightarrow> string list" where
  "split_words s =
     (let s = dropWhile is_space s in
      if s = [] then [] else takeWhile (\<lambda>c. \<not> is_space c) s # split_words (dropWhile (\<lambda>c. \<not> is_space c) s))"
  by auto
termination
proof (relation "measure length")
  fix s t :: string
  assume "t = dropWhile is_space s" "t \<noteq> []"
  then obtain c u where t: "t = c # u" "\<not> is_space c" by (metis hd_dropWhile list.exhaust_sel)
  then have "length (dropWhile (\<lambda>c. \<not> is_space c) t) \<le> length u" using length_dropWhile_le by auto
  moreover have "length t \<le> length s" using \<open>t = dropWhile is_space s\<close> length_dropWhile_le by auto
  ultimately show "(dropWhile (\<lambda>c. \<not> is_space c) t, s) \<in> measure length" using t(1) by simp
qed simp

declare split_words.simps [simp del]

text \<open>
  The regular expression of \<open>RunCommand\<close>: a brace behind a quotation mark, anything but an end of line, as little as possible, and a
  brace before a quotation mark. \<open>json_end\<close> finds the end from behind the first brace, \<open>find_json\<close> the first place where that succeeds:
  the text before the mark, the JSON, and the text behind the second mark.
\<close>

fun json_end :: "string \<Rightarrow> (string \<times> string) option" where
  "json_end (c # d # s) =
     (if c = CHR ''}'' \<and> d = CHR 0x22 then Some ([c], s)
      else if c = CHR 0x0A \<or> c = CHR 0x0D then None
      else map_option (\<lambda>(j, rest). (c # j, rest)) (json_end (d # s)))"
| "json_end _ = None"

fun find_json :: "string \<Rightarrow> (string \<times> string \<times> string) option" where
  "find_json [] = None"
| "find_json (c # s) =
     (let later = map_option (\<lambda>(front, rest). (c # front, rest)) (find_json s) in
      if c = CHR 0x22 \<and> s \<noteq> [] \<and> hd s = CHR ''{'' then
        (case json_end (tl s) of Some (j, rest) \<Rightarrow> Some ([], CHR ''{'' # j, rest) | None \<Rightarrow> later)
      else later)"

text \<open>\<open>record_path\<close> is the second argument of the call, if there is one.\<close>

definition command_tokens :: "string \<Rightarrow> string option \<Rightarrow> string list" where
  "command_tokens input record_path =
     (let tokens = (case find_json input of
            Some (front, json, behind) \<Rightarrow> split_words front @ [json] @ split_words behind
          | None \<Rightarrow> split_words input)
      in if 2 \<le> length tokens \<and> tokens ! 0 = ''bag'' \<and> (tokens ! 1 = ''record'' \<or> tokens ! 1 = ''play'') then
           (case record_path of Some p \<Rightarrow> tokens @ [p] | None \<Rightarrow> tokens)
         else tokens)"

datatype port_command =
    PortNodes | PortTopics | PortEcho string | PortPublish string string string int bool
  | PortRecord string string | PortPlay string string | PortUsage | PortInvalid

definition port_pub :: "string list \<Rightarrow> error + port_command" where
  "port_pub tokens =
     (if 5 \<le> length tokens then
        if tokens ! 2 \<noteq> [] \<and> tokens ! 3 \<noteq> [] \<and> tokens ! 4 \<noteq> [] then
          let pub = PortPublish (tokens ! 2) (tokens ! 3) (tokens ! 4) in
          if length tokens = 6 \<and> tokens ! 5 = ''--once'' then Inr (pub 10 False)
          else if length tokens = 7 \<and> tokens ! 5 = ''--rate'' then
            (case stoi (tokens ! 6) of None \<Rightarrow> Inl InvalidArg | Some rate \<Rightarrow> Inr (pub rate True))
          else Inr (pub 10 True)
        else Inr PortInvalid
      else Inr PortInvalid)"

definition port_parse :: "string list \<Rightarrow> error + port_command" where
  "port_parse tokens =
     (if tokens = [] then Inl OutOfBounds
      else if tokens ! 0 = ''node'' then
        if length tokens < 2 then Inl OutOfBounds
        else Inr (if tokens ! 1 = ''list'' \<and> length tokens = 2 then PortNodes else PortInvalid)
      else if tokens ! 0 = ''topic'' then
        if length tokens < 2 then Inl OutOfBounds
        else if tokens ! 1 = ''echo'' then
          Inr (if length tokens = 3 \<and> tokens ! 2 \<noteq> [] then PortEcho (tokens ! 2) else PortInvalid)
        else if tokens ! 1 = ''pub'' then port_pub tokens
        else Inr (if tokens ! 1 = ''list'' \<and> length tokens = 2 then PortTopics else PortInvalid)
      else if tokens ! 0 = ''bag'' then
        if length tokens < 2 then Inl OutOfBounds
        else if tokens ! 1 = ''record'' then
          Inr (if length tokens = 4 then PortRecord (tokens ! 2) (tokens ! 3) else PortInvalid)
        else if tokens ! 1 = ''play'' then
          Inr (if length tokens = 4 then PortPlay (tokens ! 3) (tokens ! 2) else PortInvalid)
        else Inr PortInvalid
      else if tokens ! 0 = ''-h'' \<or> tokens ! 0 = ''--help'' then Inr PortUsage
      else Inr PortInvalid)"

text \<open>The listing, which differs from that of the tool on Linux.\<close>

definition port_print_host :: "string \<times> string list \<Rightarrow> string" where
  "port_print_host h = fst h @ '': '' @ (if snd h \<noteq> [] then comma_list (snd h) else ''(empty)'') @ [CHR 0x0A]"

definition port_list :: "(string \<times> string list) list \<Rightarrow> string" where
  "port_list by_host = concat (map port_print_host (fold map_insert by_host []))"

subsection \<open>Nodes and threads\<close>

text \<open>
  What a node does: all but \<open>Idle\<close> hold the index of their window, \<open>Recording\<close> the file; \<open>Publishing\<close> and
  \<open>Playing\<close> have a timer and say whether they have got their publisher, \<open>Playing\<close> the texts and the number of those played; \<open>Idle\<close>
  has published its one message.
\<close>

datatype 'v job =
    Echoing int | Recording string int | Publishing string string int "'v pmessage" bool
  | Playing string string "string list" nat int bool | Idle

text \<open>
  A callback that captures the node is kept by the node: such a node is never destroyed. The destructor of any other one deletes the
  node at the master and ends the process.
\<close>

fun holds_itself :: "'v job \<Rightarrow> bool" where
  "holds_itself Idle = False"
| "holds_itself _ = True"

record ('v, 'd) port =
  pt_nodes :: "(string, 'v job) umap"
  pt_threads :: "string list"
  pt_mw :: mw
  pt_files :: "(string, string) umap"
  pt_starts :: "(string, 'd) umap"

record ('j, 'v, 'd) tool =
  tl_msg :: "('j, 'v) message_env"
  tl_json :: "'v pmessage \<Rightarrow> string option"
  tl_fp :: "'d fp"
  tl_print :: "'d \<Rightarrow> string"
  tl_stod :: "string \<Rightarrow> 'd option"
  tl_node :: "string \<Rightarrow> string option"
  tl_pid :: int
  tl_os :: os_result
  tl_unwinds :: bool

text \<open>The process goes on, or it has ended, which leaves the master, or it has failed.\<close>

datatype 's fate = Alive 's | Exited mw | Crashed error

fun bind_fate :: "'a fate \<Rightarrow> ('a \<Rightarrow> 'b fate) \<Rightarrow> 'b fate" where
  "bind_fate (Alive s) f = f s"
| "bind_fate (Exited m) f = Exited m"
| "bind_fate (Crashed e) f = Crashed e"

datatype ('v, 'd) tool_out =
    Publishes string string "'v pmessage" | SetsTimer string int | Shows int "'v pmessage" | Lists string

text \<open>
  The destructor of a node deletes the name at the master and calls \<open>std::exit\<close>. Nothing catches what the set-up throws: the implementation
  decides whether the stack is unwound, with this destructor, before \<open>std::terminate\<close>.
\<close>

definition lose_node :: "string \<Rightarrow> mw \<Rightarrow> 's fate" where
  "lose_node name m = Exited (fst (snd (reg_deleteNode name m)))"

definition thrown_out :: "('j, 'v, 'd) tool \<Rightarrow> string \<Rightarrow> mw \<Rightarrow> 's fate" where
  "thrown_out T name m = (if tl_unwinds T then lose_node name m else Crashed Terminated)"

text \<open>\<open>std::make_shared<Node>(name)\<close>: the constructor registers the node and throws when the master refuses the name.\<close>

definition make_node :: "('j, 'v, 'd) tool \<Rightarrow> string \<Rightarrow> ('v, 'd) port \<Rightarrow> ('v, 'd) port fate" where
  "make_node T name s =
     (case reg_addNode name (tl_pid T) (pt_mw s) of
        None \<Rightarrow> thrown_out T name (pt_mw s)
      | Some m \<Rightarrow> Alive (s\<lparr>pt_mw := m\<rparr>))"

text \<open>
  A subscriber and a publisher are registered too. A refusal throws; for a publisher the library catches this itself and the result is a null pointer.
\<close>

definition attach_sub :: "('j, 'v, 'd) tool \<Rightarrow> string \<Rightarrow> string \<Rightarrow> string \<Rightarrow> ('v, 'd) port \<Rightarrow> ('v, 'd) port fate" where
  "attach_sub T name topic type s =
     (case reg_addSubscribe (tl_os T) name topic type (pt_mw s) of
        Inl e \<Rightarrow> Crashed e
      | Inr (added, m) \<Rightarrow> if added then Alive (s\<lparr>pt_mw := m\<rparr>) else thrown_out T name m)"

definition attach_pub :: "('j, 'v, 'd) tool \<Rightarrow> string \<Rightarrow> string \<Rightarrow> string \<Rightarrow> ('v, 'd) port \<Rightarrow> (('v, 'd) port \<times> bool) fate" where
  "attach_pub T name topic type s =
     (case reg_addPublish (tl_os T) name topic type (pt_mw s) of
        Inl e \<Rightarrow> Crashed e
      | Inr (added, m, out) \<Rightarrow> Alive (s\<lparr>pt_mw := m\<rparr>, added))"

text \<open>\<open>publish_message\<close> uses the pointer unchecked. Its publisher is created once and then found in the node.\<close>

definition port_publish ::
  "('j, 'v, 'd) tool \<Rightarrow> string \<Rightarrow> string \<Rightarrow> string \<Rightarrow> int \<Rightarrow> 'v pmessage \<Rightarrow> ('v, 'd) port \<Rightarrow> (('v, 'd) port \<times> ('v, 'd) tool_out list) fate" where
  "port_publish T name topic type index m s =
     bind_fate (attach_pub T name topic type s) (\<lambda>(s, pub).
       if pub then Alive (s, [Publishes name topic m, Shows index m]) else Crashed NullDeref)"

text \<open>Both \<open>emplace\<close> and the assignment destroy a thread that still runs when the name is taken: \<open>std::terminate\<close>.\<close>

definition keep_node :: "string \<Rightarrow> 'v job \<Rightarrow> ('v, 'd) port \<Rightarrow> ('v, 'd) port fate" where
  "keep_node name job s =
     (let s = s\<lparr>pt_nodes := um_put name job (pt_nodes s)\<rparr> in
      if name \<in> set (pt_threads s) then Crashed Terminated else Alive (s\<lparr>pt_threads := pt_threads s @ [name]\<rparr>))"

definition node_name :: "string \<Rightarrow> string \<Rightarrow> string" where
  "node_name op topic = op @ ''_node_'' @ topic"

definition subscribe_and_echo ::
  "('j, 'v, 'd) tool \<Rightarrow> string \<Rightarrow> string \<Rightarrow> int \<Rightarrow> ('v, 'd) port \<Rightarrow> (('v, 'd) port \<times> ('v, 'd) tool_out list) fate" where
  "subscribe_and_echo T topic type index s =
     (if me_pool (tl_msg T) type = None then Alive (s, [])
      else
        let name = node_name ''echo'' topic in
        bind_fate (make_node T name s) (\<lambda>s.
          bind_fate (attach_sub T name topic type s) (\<lambda>s.
          bind_fate (keep_node name (Echoing index) s) (\<lambda>s. Alive (s, [])))))"

definition record_file :: "string \<Rightarrow> string \<Rightarrow> string \<Rightarrow> string" where
  "record_file dir topic timestamp = path_join dir topic @ ''_'' @ timestamp @ ''.txt''"

definition subscribe_and_record ::
  "('j, 'v, 'd) tool \<Rightarrow> string \<Rightarrow> string \<Rightarrow> string \<Rightarrow> string \<Rightarrow> int \<Rightarrow> ('v, 'd) port \<Rightarrow> (('v, 'd) port \<times> ('v, 'd) tool_out list) fate" where
  "subscribe_and_record T topic dir type timestamp index s =
     (if me_pool (tl_msg T) type = None then Alive (s, [])
      else
        let log_file_dir = record_file dir topic timestamp;
            s = s\<lparr>pt_files := um_put log_file_dir (MESSAGE_TYPE @ type @ [CHR 0x0A]) (pt_files s)\<rparr>;
            name = node_name ''record'' topic
        in
        bind_fate (make_node T name s) (\<lambda>s.
          bind_fate (attach_sub T name topic type s) (\<lambda>s.
          bind_fate (keep_node name (Recording log_file_dir index) s) (\<lambda>s. Alive (s, [])))))"

text \<open>The interval is \<open>1000.0 / rate\<close> cut to \<open>size_t\<close>, undefined for a negative value and for infinity.\<close>

definition rate_interval :: "int \<Rightarrow> error + int" where
  "rate_interval rate =
     (if rate = 0 then Inl OutOfBounds
      else let ms = int_quot 1000 rate in if ms < 0 then Inl OutOfBounds else Inr ms)"

definition port_publisher ::
  "('j, 'v, 'd) tool \<Rightarrow> string \<Rightarrow> string \<Rightarrow> 'v pmessage \<Rightarrow> int \<Rightarrow> bool \<Rightarrow> int \<Rightarrow> ('v, 'd) port \<Rightarrow> (('v, 'd) port \<times> ('v, 'd) tool_out list) fate" where
  "port_publisher T topic type m rate rate_flag index s =
     (let name = node_name ''pub'' topic in
      bind_fate (make_node T name s) (\<lambda>s.
        if \<not> rate_flag then
          bind_fate (port_publish T name topic type index m s) (\<lambda>(s, out).
            bind_fate (keep_node name Idle s) (\<lambda>s. Alive (s, out)))
        else
          (case rate_interval rate of
             Inl e \<Rightarrow> Crashed e
           | Inr ms \<Rightarrow>
               bind_fate (keep_node name (Publishing topic type index m False) s) (\<lambda>s. Alive (s, [SetsTimer name ms])))))"

text \<open>The lines of a recording with a delimiter: time and text. A time that is no number throws.\<close>

fun bag_messages :: "('j, 'v, 'd) tool \<Rightarrow> string list \<Rightarrow> error + ('d \<times> string) list" where
  "bag_messages T [] = Inr []"
| "bag_messages T (line # ls) =
     (case str_find ''|'' line of
        None \<Rightarrow> bag_messages T ls
      | Some delim_pos \<Rightarrow>
          (case tl_stod T (take delim_pos line) of
             None \<Rightarrow> Inl InvalidArg
           | Some t \<Rightarrow> map_sum id (\<lambda>ms. (t, drop (delim_pos + 1) line) # ms) (bag_messages T ls)))"

definition file_topic :: "string \<Rightarrow> string" where
  "file_topic file_name = takeWhile (\<lambda>c. c \<noteq> CHR ''_'') file_name"

text \<open>One message: the node publishes it and writes about it. Neither the message nor the publisher is checked.\<close>

definition republish ::
  "('j, 'v, 'd) tool \<Rightarrow> bool \<Rightarrow> string \<Rightarrow> string \<Rightarrow> string \<Rightarrow> string \<Rightarrow> int \<Rightarrow> error + ('v, 'd) tool_out list" where
  "republish T pub name topic type json_str index =
     (case make_message (tl_msg T) type json_str of
        Inl e \<Rightarrow> Inl e
      | Inr None \<Rightarrow> Inl NullDeref
      | Inr (Some m) \<Rightarrow> if pub then Inr [Publishes name topic m, Shows index m] else Inl NullDeref)"

definition play_interval :: "'d fp \<Rightarrow> ('d \<times> string) list \<Rightarrow> error + int" where
  "play_interval F ms =
     (if 1 < length ms then to_int F (fp_mul F (fp_sub F (fst (ms ! 1)) (fst (ms ! 0))) (fp_lit F 1000)) else Inr 0)"

text \<open>A recording of one message is published at once, a longer one by the timer.\<close>

definition play_node ::
  "('j, 'v, 'd) tool \<Rightarrow> string \<Rightarrow> string \<Rightarrow> ('d \<times> string) list \<Rightarrow> int \<Rightarrow> int \<Rightarrow> ('v, 'd) port \<Rightarrow> (('v, 'd) port \<times> ('v, 'd) tool_out list) fate" where
  "play_node T topic type ms interval index s =
     (let name = node_name ''play'' topic in
      bind_fate (make_node T name s) (\<lambda>s. bind_fate (attach_pub T name topic type s) (\<lambda>(s, pub).
        if length ms = 1 then
          (case republish T pub name topic type (snd (ms ! 0)) index of Inl e \<Rightarrow> Crashed e
           | Inr out \<Rightarrow> bind_fate (keep_node name Idle s) (\<lambda>s. Alive (s, out)))
        else
          bind_fate (keep_node name (Playing topic type (map snd ms) 0 index pub) s) (\<lambda>s. Alive (s, [SetsTimer name interval])))))"

definition port_play ::
  "('j, 'v, 'd) tool \<Rightarrow> string \<Rightarrow> string \<Rightarrow> int \<Rightarrow> ('v, 'd) port \<Rightarrow> (('v, 'd) port \<times> ('v, 'd) tool_out list) fate" where
  "port_play T file_path file_name index s =
     (case um_find (pt_files s) (path_join file_path file_name) of
        None \<Rightarrow> Alive (s, [])
      | Some content \<Rightarrow>
          let topic = file_topic file_name; (line, rest) = getline content in
          if take (length MESSAGE_TYPE) line \<noteq> MESSAGE_TYPE then Alive (s, [])
          else
            (case bag_messages T (text_lines rest) of Inl e \<Rightarrow> Crashed e
             | Inr ms \<Rightarrow>
                 if ms = [] then Alive (s, [])
                 else
                   (case play_interval (tl_fp T) ms of Inl e \<Rightarrow> Crashed e
                    | Inr interval \<Rightarrow> play_node T topic (drop (length MESSAGE_TYPE) line) ms interval index s)))"

text \<open>A message arrives at a subscriber, a timer of a node expires.\<close>

definition on_message ::
  "('j, 'v, 'd) tool \<Rightarrow> string \<Rightarrow> 'v pmessage \<Rightarrow> 'd \<Rightarrow> ('v, 'd) port \<Rightarrow> (('v, 'd) port \<times> ('v, 'd) tool_out list) fate" where
  "on_message T name m now s =
     (case um_find (pt_nodes s) name of
        Some (Echoing index) \<Rightarrow> Alive (s, [Shows index m])
      | Some (Recording file_name index) \<Rightarrow>
          (case tl_json T m of
             None \<Rightarrow> Alive (s, [])
           | Some json \<Rightarrow>
               let start = um_at now (pt_starts s) file_name;
                   elapsed_sec = fp_sub (tl_fp T) now start;
                   line = tl_print T elapsed_sec @ ''|'' @ json @ [CHR 0x0A]
               in Alive (s\<lparr>pt_starts := um_put file_name start (pt_starts s),
                           pt_files := um_put file_name (um_at [] (pt_files s) file_name @ line) (pt_files s)\<rparr>, [Shows index m]))
      | _ \<Rightarrow> Alive (s, []))"

definition on_tick ::
  "('j, 'v, 'd) tool \<Rightarrow> string \<Rightarrow> ('v, 'd) port \<Rightarrow> (('v, 'd) port \<times> ('v, 'd) tool_out list) fate" where
  "on_tick T name s =
     (case um_find (pt_nodes s) name of
        Some (Publishing topic type index m pub) \<Rightarrow>
          if pub then Alive (s, [Publishes name topic m, Shows index m])
          else
            bind_fate (port_publish T name topic type index m s) (\<lambda>(s, out).
              Alive (s\<lparr>pt_nodes := um_put name (Publishing topic type index m True) (pt_nodes s)\<rparr>, out))
      | Some (Playing topic type texts idx index pub) \<Rightarrow>
          if length texts \<le> idx then Alive (s, [])
          else (case republish T pub name topic type (texts ! idx) index of Inl e \<Rightarrow> Crashed e
                | Inr out \<Rightarrow> Alive (s\<lparr>pt_nodes := um_put name (Playing topic type texts (idx + 1) index pub) (pt_nodes s)\<rparr>, out))
      | _ \<Rightarrow> Alive (s, []))"

subsection \<open>Commands\<close>

text \<open>
  What \<open>runCommand\<close> does. \<open>by_host\<close> is the reply of the master to a listing, \<open>type\<close> the one to a question for the type of a topic, empty for
  a topic that nobody has. Nothing catches what is thrown.
\<close>

definition run_command ::
  "('j, 'v, 'd) tool \<Rightarrow> (string \<times> string list) list \<Rightarrow> string \<Rightarrow> string \<Rightarrow> string list \<Rightarrow> int \<Rightarrow> ('v, 'd) port \<Rightarrow>
   (('v, 'd) port \<times> ('v, 'd) tool_out list) fate" where
  "run_command T by_host type timestamp tokens index s =
     (case port_parse tokens of
        Inl e \<Rightarrow> Crashed e
      | Inr PortNodes \<Rightarrow> Alive (s, [Lists (port_list by_host)])
      | Inr PortTopics \<Rightarrow> Alive (s, [Lists (port_list by_host)])
      | Inr (PortEcho topic) \<Rightarrow> if type = [] then Alive (s, []) else subscribe_and_echo T topic type index s
      | Inr (PortPublish topic mtype text rate flag) \<Rightarrow>
          (case make_message (tl_msg T) mtype text of
             Inl e \<Rightarrow> Crashed e
           | Inr None \<Rightarrow> Alive (s, [])
           | Inr (Some m) \<Rightarrow> port_publisher T topic mtype m rate flag index s)
      | Inr (PortRecord topic dir) \<Rightarrow> if type = [] then Alive (s, []) else subscribe_and_record T topic dir type timestamp index s
      | Inr (PortPlay dir file_name) \<Rightarrow> port_play T dir file_name index s
      | Inr PortUsage \<Rightarrow> Alive (s, [])
      | Inr PortInvalid \<Rightarrow> Alive (s, []))"

subsection \<open>Stopping\<close>

text \<open>
  \<open>NodeStopController::handlePost\<close>: unlike the request that deletes a node it looks the name up without inserting it. \<open>tl_node\<close> reads the
  member \<open>node\<close> of a body. That the interfaces are told of the deletion afterwards is left out, as everywhere in this registry.
\<close>

definition reg_stopNode :: "string \<Rightarrow> mw \<Rightarrow> error + bool \<times> mw" where
  "reg_stopNode name m =
     (case um_find (m_nodes m) name of
        None \<Rightarrow> Inr (False, m)
      | Some None \<Rightarrow> Inl NullDeref
      | Some (Some nd) \<Rightarrow>
          let (nd, subs) = removeAllSubscribe nd;
              m = m\<lparr>m_subscribes := fold drop_endpoint subs (m_subscribes m)\<rparr>;
              (nd, pubs) = removeAllPublish nd;
              m = m\<lparr>m_publishes := fold drop_endpoint pubs (m_publishes m)\<rparr>
          in Inr (True, m\<lparr>m_nodes := um_erase name (m_nodes m)\<rparr>))"

definition stop_request :: "('j, 'v, 'd) tool \<Rightarrow> string \<Rightarrow> mw \<Rightarrow> error + bool \<times> mw" where
  "stop_request T body m = (case tl_node T body of None \<Rightarrow> Inr (False, m) | Some name \<Rightarrow> reg_stopNode name m)"

definition stop_body :: "string \<Rightarrow> string" where
  "stop_body name = ''{'' @ [CHR 0x22] @ ''node'' @ [CHR 0x22] @ '':'' @ [CHR 0x22] @ name @ [CHR 0x22] @ ''}''"

definition stop_name :: "string \<Rightarrow> string \<Rightarrow> string" where
  "stop_name op topic = (if op = ''play'' then node_name op (file_topic topic) else node_name op topic)"

text \<open>
  \<open>stopCommand\<close> takes node and thread out of the tables, stops and joins, and asks the master to forget the node. At its end the last pointer to
  a node that nothing else holds is gone: the destructor deletes the node at the master, where it is not known any more, and ends the process.
  A request that takes the master down ends the model of both here, although the tool itself would catch the failed request.
\<close>

definition stopCommand :: "('j, 'v, 'd) tool \<Rightarrow> string \<Rightarrow> string \<Rightarrow> ('v, 'd) port \<Rightarrow> ('v, 'd) port fate" where
  "stopCommand T op topic s =
     (let name = stop_name op topic; job = um_find (pt_nodes s) name;
          s = s\<lparr>pt_nodes := um_erase name (pt_nodes s), pt_threads := removeAll name (pt_threads s)\<rparr>
      in
      case stop_request T (stop_body name) (pt_mw s) of
        Inl e \<Rightarrow> Crashed e
      | Inr (found, m) \<Rightarrow>
          (case job of
             Some j \<Rightarrow> if holds_itself j then Alive (s\<lparr>pt_mw := m\<rparr>) else lose_node name m
           | None \<Rightarrow> Alive (s\<lparr>pt_mw := m\<rparr>)))"

text \<open>\<open>StopRuncommand\<close>: the same text as that of the command; \<open>tokens[1]\<close> and \<open>tokens[2]\<close> are read unchecked.\<close>

definition stop_run_command :: "('j, 'v, 'd) tool \<Rightarrow> string \<Rightarrow> ('v, 'd) port \<Rightarrow> ('v, 'd) port fate" where
  "stop_run_command T input s =
     (let tokens = split_words input in
      if length tokens < 2 then Crashed OutOfBounds
      else if tokens ! 1 = ''list'' then Alive s
      else if length tokens < 3 then Crashed OutOfBounds
      else stopCommand T (tokens ! 1) (tokens ! 2) s)"

text \<open>A run of the process: commands, stops, messages and timers in any order.\<close>

datatype ('v, 'd) port_event =
    RunCmd "(string \<times> string list) list" string string "string list" int | StopCmd string | Arrives string "'v pmessage" 'd | Ticks string

fun port_step :: "('j, 'v, 'd) tool \<Rightarrow> ('v, 'd) port_event \<Rightarrow> ('v, 'd) port \<Rightarrow> (('v, 'd) port \<times> ('v, 'd) tool_out list) fate" where
  "port_step T (RunCmd by_host type timestamp tokens index) s = run_command T by_host type timestamp tokens index s"
| "port_step T (StopCmd input) s = bind_fate (stop_run_command T input s) (\<lambda>s. Alive (s, []))"
| "port_step T (Arrives name m now) s = on_message T name m now s"
| "port_step T (Ticks name) s = on_tick T name s"

fun port_run :: "('j, 'v, 'd) tool \<Rightarrow> ('v, 'd) port_event list \<Rightarrow> ('v, 'd) port \<Rightarrow> (('v, 'd) port \<times> ('v, 'd) tool_out list) fate" where
  "port_run T [] s = Alive (s, [])"
| "port_run T (e # es) s =
     bind_fate (port_step T e s) (\<lambda>(s, o1). bind_fate (port_run T es s) (\<lambda>(s, o2). Alive (s, o1 @ o2)))"

subsection \<open>The tables agree\<close>

text \<open>
  A node that the tool keeps has a thread and is known at the master: one of them alone would be lost, or a second node would get its name.
\<close>

definition known_node :: "mw \<Rightarrow> string \<Rightarrow> bool" where
  "known_node m name \<longleftrightarrow> (\<exists>nd. um_find (m_nodes m) name = Some (Some nd))"

definition port_wf :: "('v, 'd) port \<Rightarrow> bool" where
  "port_wf s \<longleftrightarrow> distinct (pt_threads s) \<and> set (pt_threads s) = um_keys (pt_nodes s) \<and>
     um_keys (pt_nodes s) \<subseteq> Collect (known_node (pt_mw s)) \<and> reg_reach (pt_mw s)"

text \<open>What a step of the set-up does to the master: it registers more, and the tables of the tool stay.\<close>

definition registers :: "('v, 'd) port \<Rightarrow> ('v, 'd) port \<Rightarrow> bool" where
  "registers s s' \<longleftrightarrow> s' = s\<lparr>pt_mw := pt_mw s'\<rparr> \<and> Collect (known_node (pt_mw s)) \<subseteq> Collect (known_node (pt_mw s')) \<and>
     (reg_reach (pt_mw s) \<longrightarrow> reg_reach (pt_mw s'))"

lemma registers_refl: "registers s s"
  by (simp add: registers_def)

lemma registers_trans: "registers s t \<Longrightarrow> registers t u \<Longrightarrow> registers s u"
  unfolding registers_def by (metis (no_types, lifting) port.surjective port.update_convs(3) subset_trans)

lemma bind_Alive: "bind_fate f g = Alive r \<longleftrightarrow> (\<exists>s. f = Alive s \<and> g s = Alive r)"
  by (cases f) auto

lemma bind_Crashed: "bind_fate f g = Crashed e \<longleftrightarrow> f = Crashed e \<or> (\<exists>s. f = Alive s \<and> g s = Crashed e)"
  by (cases f) auto

lemma stop_deletes: "reg_stopNode name m = Inr (found, m') \<Longrightarrow> found \<Longrightarrow> \<exists>out. reg_deleteNode name m = (True, m', out)"
  by (auto simp: reg_stopNode_def reg_deleteNode_def um_index_def Let_def split: option.splits prod.splits)

lemma stop_unknown: "reg_stopNode name m = Inr (found, m') \<Longrightarrow> \<not> found \<Longrightarrow> m' = m \<and> um_find (m_nodes m) name = None"
  by (auto simp: reg_stopNode_def Let_def split: option.splits prod.splits)

lemma make_node_registers:
  assumes "make_node T name s = Alive s'"
  shows "registers s s'" and "known_node (pt_mw s') name" and "um_find (m_nodes (pt_mw s)) name = None"
  using assms reg_step.addNode [of name "tl_pid T" "pt_mw s"]
  by (auto simp: make_node_def registers_def reg_addNode_def known_node_def thrown_out_def lose_node_def intro: reg_reach.step
      split: option.splits if_splits)

lemma attach_sub_registers:
  assumes "attach_sub T name topic type s = Alive s'"
  shows "registers s s'"
proof -
  obtain m where m: "reg_addSubscribe (tl_os T) name topic type (pt_mw s) = Inr (True, m)" "s' = s\<lparr>pt_mw := m\<rparr>"
    using assms by (auto simp: attach_sub_def thrown_out_def lose_node_def split: sum.splits if_splits)
  show ?thesis
    using reg_addSubscribe_cases [OF m(1)] reg_reach.step [OF _ reg_step.addSubscribe [OF m(1)]]
    by (auto simp: registers_def known_node_def m(2))
qed

lemma attach_pub_registers:
  assumes "attach_pub T name topic type s = Alive (s', pub)"
  shows "registers s s'"
proof -
  obtain m out where m: "reg_addPublish (tl_os T) name topic type (pt_mw s) = Inr (pub, m, out)" "s' = s\<lparr>pt_mw := m\<rparr>"
    using assms by (auto simp: attach_pub_def split: sum.splits)
  show ?thesis
    using reg_addPublish_cases [OF m(1)] reg_reach.step [OF _ reg_step.addPublish [OF m(1)]]
    by (auto simp: registers_def known_node_def m(2))
qed

lemma port_publish_Alive:
  assumes "port_publish T name topic type index m s = Alive (s', out)"
  shows "registers s s'"
proof -
  have "attach_pub T name topic type s = Alive (s', True)"
    using assms by (cases "attach_pub T name topic type s") (auto simp: port_publish_def split: if_splits)
  then show ?thesis by (rule attach_pub_registers)
qed

lemma keep_node_fresh:
  assumes "port_wf s" and "um_find (m_nodes (pt_mw s)) name = None" and "registers s t" and "known_node (pt_mw t) name"
  shows "keep_node name job t = Alive (t\<lparr>pt_nodes := um_put name job (pt_nodes t), pt_threads := pt_threads t @ [name]\<rparr>)"
    and "port_wf (t\<lparr>pt_nodes := um_put name job (pt_nodes t), pt_threads := pt_threads t @ [name]\<rparr>)"
proof -
  have t: "t = s\<lparr>pt_mw := pt_mw t\<rparr>" using assms(3) by (simp add: registers_def)
  then have same: "pt_nodes t = pt_nodes s" "pt_threads t = pt_threads s" by (metis port.select_convs port.surjective port.update_convs(3))+
  have new: "name \<notin> set (pt_threads s)" using assms(1,2) by (auto simp: port_wf_def known_node_def)
  then show "keep_node name job t = Alive (t\<lparr>pt_nodes := um_put name job (pt_nodes t), pt_threads := pt_threads t @ [name]\<rparr>)"
    by (simp add: keep_node_def same)
  show "port_wf (t\<lparr>pt_nodes := um_put name job (pt_nodes t), pt_threads := pt_threads t @ [name]\<rparr>)"
    using assms new by (auto simp: port_wf_def registers_def same)
qed

definition started :: "string \<Rightarrow> 'v job \<Rightarrow> ('v, 'd) port \<Rightarrow> ('v, 'd) port \<Rightarrow> bool" where
  "started name job s s' \<longleftrightarrow> port_wf s' \<and> um_find (pt_nodes s) name = None \<and> name \<notin> set (pt_threads s) \<and>
     pt_nodes s' = um_put name job (pt_nodes s) \<and> pt_threads s' = pt_threads s @ [name] \<and> known_node (pt_mw s') name"

lemma port_wf_unknown:
  assumes "port_wf s" and "um_find (m_nodes (pt_mw s)) name = None"
  shows "um_find (pt_nodes s) name = None" and "name \<notin> set (pt_threads s)"
proof -
  have "name \<notin> um_keys (pt_nodes s)" using assms by (auto simp: port_wf_def known_node_def)
  then show "um_find (pt_nodes s) name = None" "name \<notin> set (pt_threads s)"
    using assms(1) by (simp_all add: um_find_None_keys port_wf_def)
qed

lemma start_node:
  assumes "port_wf s" and "make_node T name s = Alive s1" and "registers s1 s2" and "keep_node name job s2 = Alive s'"
  shows "started name job s s'"
proof -
  note M = make_node_registers [OF assms(2)]
  have r: "registers s s2" using M(1) assms(3) by (rule registers_trans)
  then have t: "s2 = s\<lparr>pt_mw := pt_mw s2\<rparr>" by (simp add: registers_def)
  then have same: "pt_nodes s2 = pt_nodes s" "pt_threads s2 = pt_threads s" by (metis port.select_convs port.surjective port.update_convs(3))+
  have k: "known_node (pt_mw s2) name" using M(2) assms(3) by (auto simp: registers_def)
  note K = keep_node_fresh [OF assms(1) M(3) r k, of job]
  show ?thesis
    using K assms(4) port_wf_unknown [OF assms(1) M(3)] k by (auto simp: started_def same)
qed

lemma port_wf_files [simp]: "port_wf (s\<lparr>pt_files := f\<rparr>) = port_wf s"
  by (simp add: port_wf_def)

lemma started_files [simp]: "started name job (s\<lparr>pt_files := f\<rparr>) s' = started name job s s'"
  by (simp add: started_def)

lemma echo_starts:
  assumes "port_wf s" and "subscribe_and_echo T topic type index s = Alive (s', out)"
  shows "s' = s \<or> started (node_name ''echo'' topic) (Echoing index) s s'"
proof (cases "me_pool (tl_msg T) type = None")
  case False
  then obtain s1 s2 where "make_node T (node_name ''echo'' topic) s = Alive s1"
    "attach_sub T (node_name ''echo'' topic) topic type s1 = Alive s2"
    "keep_node (node_name ''echo'' topic) (Echoing index) s2 = Alive s'"
    using assms(2) by (auto simp: subscribe_and_echo_def bind_Alive Let_def)
  with start_node [OF assms(1)] attach_sub_registers show ?thesis by blast
qed (use assms(2) in \<open>simp add: subscribe_and_echo_def\<close>)

lemma record_starts:
  assumes "port_wf s" and "subscribe_and_record T topic dir type ts index s = Alive (s', out)"
  shows "s' = s \<or> started (node_name ''record'' topic) (Recording (record_file dir topic ts) index) s s'"
proof (cases "me_pool (tl_msg T) type = None")
  case False
  define t where "t = s\<lparr>pt_files := um_put (record_file dir topic ts) (MESSAGE_TYPE @ type @ [CHR 0x0A]) (pt_files s)\<rparr>"
  have "port_wf t" using assms(1) by (simp add: t_def)
  moreover obtain s1 s2 where "make_node T (node_name ''record'' topic) t = Alive s1"
    "attach_sub T (node_name ''record'' topic) topic type s1 = Alive s2"
    "keep_node (node_name ''record'' topic) (Recording (record_file dir topic ts) index) s2 = Alive s'"
    using assms(2) False by (auto simp: subscribe_and_record_def bind_Alive Let_def t_def)
  ultimately have "started (node_name ''record'' topic) (Recording (record_file dir topic ts) index) t s'"
    using start_node attach_sub_registers by blast
  then show ?thesis by (simp add: t_def)
qed (use assms(2) in \<open>simp add: subscribe_and_record_def\<close>)

lemma publish_starts:
  assumes "port_wf s" and "port_publisher T topic type m rate flag index s = Alive (s', out)"
  shows "\<exists>job. started (node_name ''pub'' topic) job s s' \<and> (holds_itself job \<longleftrightarrow> flag)"
proof (cases flag)
  case True
  then obtain s1 where "make_node T (node_name ''pub'' topic) s = Alive s1"
    "keep_node (node_name ''pub'' topic) (Publishing topic type index m False) s1 = Alive s'"
    using assms(2) by (cases "rate_interval rate") (auto simp: port_publisher_def bind_Alive Let_def)
  with start_node [OF assms(1) _ registers_refl] True show ?thesis by fastforce
next
  case False
  then obtain s1 s2 out2 where "make_node T (node_name ''pub'' topic) s = Alive s1"
    "port_publish T (node_name ''pub'' topic) topic type index m s1 = Alive (s2, out2)"
    "keep_node (node_name ''pub'' topic) Idle s2 = Alive s'"
    using assms(2) by (auto simp: port_publisher_def bind_Alive Let_def)
  with start_node [OF assms(1)] port_publish_Alive False show ?thesis
    by (metis holds_itself.simps(1))
qed

lemma play_node_starts:
  fixes s :: "('v, 'd) port"
  assumes "port_wf s" and "play_node T topic type ms interval index s = Alive (s', out)"
  shows "\<exists>job. started (node_name ''play'' topic) job s s' \<and> (holds_itself job \<longleftrightarrow> length ms \<noteq> 1)"
proof -
  let ?name = "node_name ''play'' topic"
  obtain s1 s2 pub where s: "make_node T ?name s = Alive s1" "attach_pub T ?name topic type s1 = Alive (s2, pub)"
    "keep_node ?name (if length ms = 1 then Idle else Playing topic type (map snd ms) 0 index pub) s2 = Alive s'"
    using assms(2) by (auto simp: play_node_def bind_Alive Let_def split: if_split_asm sum.split_asm)
  from start_node [OF assms(1) s(1) attach_pub_registers [OF s(2)] s(3)] show ?thesis by auto
qed

lemma play_starts:
  assumes "port_wf s" and "port_play T dir file_name index s = Alive (s', out)"
  shows "s' = s \<or> (\<exists>job. started (node_name ''play'' (file_topic file_name)) job s s')"
  using assms(2) play_node_starts [OF assms(1)] unfolding port_play_def Let_def
  by (fastforce split: option.split_asm prod.split_asm sum.split_asm if_split_asm)

lemma run_command_starts:
  assumes "port_wf s" and "run_command T by_host type ts tokens index s = Alive (s', out)"
  shows "s' = s \<or> (\<exists>job. started (stop_name (tokens ! 1) (tokens ! 2)) job s s')"
proof -
  obtain c where c: "port_parse tokens = Inr c" using assms(2) by (cases "port_parse tokens") (auto simp: run_command_def)
  show ?thesis
  proof (cases c)
    case (PortEcho topic)
    then have "tokens ! 1 = ''echo''" "tokens ! 2 = topic"
      using c by (auto simp: port_parse_def port_pub_def Let_def split: if_splits option.splits)
    then show ?thesis
      using assms(2) echo_starts [OF assms(1)] by (fastforce simp: run_command_def c PortEcho stop_name_def split: if_splits)
  next
    case (PortPublish topic mtype json rate flag)
    then have "tokens ! 1 = ''pub''" "tokens ! 2 = topic"
      using c by (auto simp: port_parse_def port_pub_def Let_def split: if_splits option.splits)
    then show ?thesis
      using assms(2) publish_starts [OF assms(1)]
      by (fastforce simp: run_command_def c PortPublish stop_name_def split: sum.splits option.splits)
  next
    case (PortRecord topic dir)
    then have "tokens ! 1 = ''record''" "tokens ! 2 = topic"
      using c by (auto simp: port_parse_def port_pub_def Let_def split: if_splits option.splits)
    then show ?thesis
      using assms(2) record_starts [OF assms(1)] by (fastforce simp: run_command_def c PortRecord stop_name_def split: if_splits)
  next
    case (PortPlay dir file_name)
    then have "tokens ! 1 = ''play''" "tokens ! 2 = file_name"
      using c by (auto simp: port_parse_def port_pub_def Let_def split: if_splits option.splits)
    then show ?thesis
      using assms(2) play_starts [OF assms(1)] by (fastforce simp: run_command_def c PortPlay stop_name_def)
  qed (use assms(2) in \<open>auto simp: run_command_def c\<close>)
qed

subsection \<open>Stopping a node\<close>

text \<open>The body of the request quotes the name as it is; a reader of JSON gives it back when nothing in it has to be escaped.\<close>

definition plain_name :: "string \<Rightarrow> bool" where
  "plain_name n \<longleftrightarrow> (\<forall>c \<in> set n. c \<noteq> CHR 0x22 \<and> c \<noteq> CHR 0x5C \<and> CHR 0x20 \<le> c)"

definition reads_names :: "('j, 'v, 'd) tool \<Rightarrow> bool" where
  "reads_names T \<longleftrightarrow> (\<forall>n. plain_name n \<longrightarrow> tl_node T (stop_body n) = Some n)"

lemma plain_stop_name: "plain_name op \<Longrightarrow> plain_name topic \<Longrightarrow> plain_name (stop_name op topic)"
  using set_takeWhileD by (fastforce simp: plain_name_def stop_name_def node_name_def file_topic_def)

lemma stop_found:
  assumes "reads_names T" and "plain_name name" and "known_node (pt_mw s) name"
  obtains m out where "stop_request T (stop_body name) (pt_mw s) = Inr (True, m)" and "reg_deleteNode name (pt_mw s) = (True, m, out)"
proof -
  obtain nd where nd: "um_find (m_nodes (pt_mw s)) name = Some (Some nd)" using assms(3) by (auto simp: known_node_def)
  then obtain m where "reg_stopNode name (pt_mw s) = Inr (True, m)" by (auto simp: reg_stopNode_def removeAllSubscribe_def removeAllPublish_def)
  moreover from this obtain out where "reg_deleteNode name (pt_mw s) = (True, m, out)" using stop_deletes by blast
  ultimately show ?thesis using that assms(1,2) by (simp add: stop_request_def reads_names_def)
qed

lemma deleted_known:
  assumes "reg_deleteNode name m = (ok, m', out)"
  shows "known_node m' n \<longleftrightarrow> n \<noteq> name \<and> known_node m n" and "reg_reach m \<Longrightarrow> reg_reach m'"
proof -
  show "known_node m' n \<longleftrightarrow> n \<noteq> name \<and> known_node m n"
    using assms by (auto simp: reg_deleteNode_def known_node_def um_index_def removeAllSubscribe_def removeAllPublish_def
      split: option.splits if_splits)
  show "reg_reach m \<Longrightarrow> reg_reach m'" by (rule reg_reach.step [OF _ reg_step.deleteNode [OF assms]])
qed

lemma stop_keeps_wf:
  assumes "port_wf s" and "reads_names T" and "plain_name op" and "plain_name topic" and "stopCommand T op topic s = Alive s'"
  shows "port_wf s'"
proof -
  let ?n = "stop_name op topic"
  obtain found m where r: "stop_request T (stop_body ?n) (pt_mw s) = Inr (found, m)"
    using assms(5) by (auto simp: stopCommand_def Let_def split: sum.splits)
  then have s': "s' = s\<lparr>pt_nodes := um_erase ?n (pt_nodes s), pt_threads := removeAll ?n (pt_threads s), pt_mw := m\<rparr>"
    using assms(5) by (auto simp: stopCommand_def Let_def lose_node_def split: option.splits if_splits)
  have n: "tl_node T (stop_body ?n) = Some ?n" using assms(2) plain_stop_name [OF assms(3,4)] by (simp add: reads_names_def)
  have m: "reg_reach m \<and> (\<forall>n. n \<noteq> ?n \<longrightarrow> known_node (pt_mw s) n \<longrightarrow> known_node m n)"
  proof (cases found)
    case True
    then obtain out where "reg_deleteNode ?n (pt_mw s) = (True, m, out)" using stop_deletes r n by (fastforce simp: stop_request_def)
    from deleted_known [OF this] show ?thesis using assms(1) by (simp add: port_wf_def)
  next
    case False
    then have "m = pt_mw s" using stop_unknown r n by (fastforce simp: stop_request_def)
    then show ?thesis using assms(1) by (simp add: port_wf_def)
  qed
  show ?thesis using assms(1) m by (auto simp: s' port_wf_def distinct_removeAll)
qed

lemma kept_known: "port_wf s \<Longrightarrow> um_find (pt_nodes s) n = Some j \<Longrightarrow> known_node (pt_mw s) n"
  unfolding port_wf_def by (metis mem_Collect_eq subsetD um_keys_find)

text \<open>What a stop of a node that the tool has leaves.\<close>

lemma stop_effect:
  assumes "port_wf s" and "reads_names T" and "plain_name (stop_name op topic)" and "um_find (pt_nodes s) (stop_name op topic) = Some job"
  obtains m out where "reg_deleteNode (stop_name op topic) (pt_mw s) = (True, m, out)"
    and "stopCommand T op topic s =
      (if holds_itself job then
         Alive (s\<lparr>pt_nodes := um_erase (stop_name op topic) (pt_nodes s), pt_threads := removeAll (stop_name op topic) (pt_threads s), pt_mw := m\<rparr>)
       else lose_node (stop_name op topic) m)"
proof -
  from stop_found [OF assms(2,3) kept_known [OF assms(1,4)]] obtain m out
    where "stop_request T (stop_body (stop_name op topic)) (pt_mw s) = Inr (True, m)" "reg_deleteNode (stop_name op topic) (pt_mw s) = (True, m, out)" .
  with that assms(4) show ?thesis by (simp add: stopCommand_def Let_def)
qed

subsection \<open>Every run\<close>

lemma message_keeps_wf:
  assumes "port_wf s" and "on_message T name m now s = Alive (s', out)"
  shows "port_wf s'"
  using assms by (auto simp: on_message_def Let_def port_wf_def split: option.splits job.splits)

lemma tick_keeps_wf:
  assumes "port_wf s" and "on_tick T name s = Alive (s', out)"
  shows "port_wf s'"
proof (cases "um_find (pt_nodes s) name")
  case (Some job)
  then have kept: "name \<in> um_keys (pt_nodes s)" by (auto simp: um_keys_find)
  show ?thesis
  proof (cases job)
    case (Publishing topic type index m pub)
    show ?thesis
    proof (cases pub)
      case False
      then obtain s1 where p: "port_publish T name topic type index m s = Alive (s1, out)"
        and s': "s' = s1\<lparr>pt_nodes := um_put name (Publishing topic type index m True) (pt_nodes s1)\<rparr>"
        using assms(2) Some Publishing by (auto simp: on_tick_def bind_Alive)
      note r = port_publish_Alive [OF p]
      then have "s1 = s\<lparr>pt_mw := pt_mw s1\<rparr>" by (simp add: registers_def)
      then have "pt_nodes s1 = pt_nodes s" "pt_threads s1 = pt_threads s" by (metis port.select_convs port.surjective port.update_convs(3))+
      with r assms(1) show ?thesis using kept by (auto simp: port_wf_def registers_def s' insert_absorb)
    qed (use assms Some Publishing in \<open>simp add: on_tick_def\<close>)
  next
    case (Playing topic type texts idx index pub)
    then show ?thesis
      using assms Some kept by (auto simp: on_tick_def port_wf_def insert_absorb split: sum.splits if_splits)
  qed (use assms Some in \<open>auto simp: on_tick_def\<close>)
qed (use assms in \<open>simp add: on_tick_def\<close>)

text \<open>The words that name the node of a stop.\<close>

fun plain_event :: "('v, 'd) port_event \<Rightarrow> bool" where
  "plain_event (StopCmd input) \<longleftrightarrow> (\<forall>w \<in> set (take 3 (split_words input)). plain_name w)"
| "plain_event _ \<longleftrightarrow> True"

lemma step_keeps_wf:
  assumes "port_wf s" and "reads_names T" and "plain_event e" and "port_step T e s = Alive (s', out)"
  shows "port_wf s'"
proof (cases e)
  case (RunCmd by_host type ts tokens index)
  then show ?thesis using assms(1,4) run_command_starts [OF assms(1)] by (fastforce simp: started_def)
next
  case (StopCmd input)
  have stop: "stop_run_command T input s = Alive s'" using assms(4) StopCmd by (auto simp: bind_Alive)
  show ?thesis
  proof (cases "s' = s")
    case False
    have n: "3 \<le> length (split_words input)" and c: "stopCommand T (split_words input ! 1) (split_words input ! 2) s = Alive s'"
      using stop False by (auto simp: stop_run_command_def Let_def split: if_splits)
    have "split_words input ! 1 \<in> set (take 3 (split_words input))" "split_words input ! 2 \<in> set (take 3 (split_words input))"
      using n by (auto simp: in_set_conv_nth min_def intro: exI [of _ 1] exI [of _ 2])
    then show ?thesis using stop_keeps_wf [OF assms(1,2) _ _ c] assms(3) StopCmd by simp
  qed (use assms(1) in simp)
next
  case (Arrives name m now)
  then show ?thesis using assms(1,4) message_keeps_wf by simp
next
  case (Ticks name)
  then show ?thesis using assms(1,4) tick_keeps_wf by simp
qed

definition new_port :: "mw \<Rightarrow> ('v, 'd) port" where
  "new_port m = \<lparr>pt_nodes = [], pt_threads = [], pt_mw = m, pt_files = [], pt_starts = []\<rparr>"

lemma new_port_wf: "reg_reach m \<Longrightarrow> port_wf (new_port m)"
  by (simp add: new_port_def port_wf_def um_keys_def)

lemma run_keeps_wf:
  assumes "reads_names T" and "\<forall>e \<in> set es. plain_event e"
  shows "port_wf s \<Longrightarrow> port_run T es s = Alive (s', out) \<Longrightarrow> port_wf s'"
  using assms(2)
proof (induction es arbitrary: s s' out)
  case (Cons e es)
  obtain s1 o1 o2 where e: "port_step T e s = Alive (s1, o1)" and es: "port_run T es s1 = Alive (s', o2)"
    using Cons.prems(2) by (auto simp: bind_Alive)
  have "port_wf s1" using step_keeps_wf [OF Cons.prems(1) assms(1) _ e] Cons.prems(3) by simp
  from Cons.IH [OF this es] Cons.prems(3) show ?case by simp
qed simp

text \<open>
  C32: In every run of the tool, whatever commands, stops, messages and timers come, each node that it keeps has exactly one thread and is
  registered at the master, and there is no thread without its node; no table entry ever replaces a thread that runs.
\<close>

theorem port_tables_agree:
  assumes "reads_names T" and "\<forall>e \<in> set es. plain_event e" and "reg_reach m" and "port_run T es (new_port m) = Alive (s, out)"
  shows "distinct (pt_threads s) \<and> set (pt_threads s) = um_keys (pt_nodes s) \<and> um_keys (pt_nodes s) \<subseteq> Collect (known_node (pt_mw s))"
  using run_keeps_wf [OF assms(1,2) new_port_wf [OF assms(3)] assms(4)] by (simp add: port_wf_def)

text \<open>
  C33: A stop undoes a start: when a command has started a node and the same words are stopped, the tables of the tool are what they were before
  the command, the master does not know the node any more, and no topic lists an endpoint of it. The node is one that keeps itself, as all
  do but the publisher of a single message.
\<close>

theorem stop_undoes_start:
  assumes "port_wf s" and "reads_names T" and "plain_name (stop_name (tokens ! 1) (tokens ! 2))"
    and "run_command T by_host type ts tokens index s = Alive (s1, out)" and "pt_threads s1 \<noteq> pt_threads s"
    and "um_find (pt_nodes s1) (stop_name (tokens ! 1) (tokens ! 2)) = Some job" and "holds_itself job"
  shows "\<exists>s2. stopCommand T (tokens ! 1) (tokens ! 2) s1 = Alive s2 \<and> pt_threads s2 = pt_threads s \<and>
    um_find (pt_nodes s2) = um_find (pt_nodes s) \<and>
    um_find (m_nodes (pt_mw s2)) (stop_name (tokens ! 1) (tokens ! 2)) = None \<and>
    (\<forall>t. \<forall>e \<in> set (um_at [] (m_publishes (pt_mw s2)) t) \<union> set (um_at [] (m_subscribes (pt_mw s2)) t).
       ep_node e \<noteq> stop_name (tokens ! 1) (tokens ! 2))"
proof -
  let ?n = "stop_name (tokens ! 1) (tokens ! 2)"
  obtain j where st: "started ?n j s s1" using run_command_starts [OF assms(1,4)] assms(5) by blast
  then have wf: "port_wf s1" and known: "known_node (pt_mw s1) ?n" by (simp_all add: started_def)
  from stop_effect [OF wf assms(2,3,6)] obtain m out where del: "reg_deleteNode ?n (pt_mw s1) = (True, m, out)"
    and stop: "stopCommand T (tokens ! 1) (tokens ! 2) s1 =
      Alive (s1\<lparr>pt_nodes := um_erase ?n (pt_nodes s1), pt_threads := removeAll ?n (pt_threads s1), pt_mw := m\<rparr>)"
    using assms(7) by auto
  obtain nd where "um_find (m_nodes (pt_mw s1)) ?n = Some (Some nd)" using known by (auto simp: known_node_def)
  from deleted_node_gone [OF _ this del] wf have gone: "m_nodes m = um_erase ?n (m_nodes (pt_mw s1))"
    "um_at [] (m_publishes m) t = filter (\<lambda>e. ep_node e \<noteq> ?n) (um_at [] (m_publishes (pt_mw s1)) t)"
    "um_at [] (m_subscribes m) t = filter (\<lambda>e. ep_node e \<noteq> ?n) (um_at [] (m_subscribes (pt_mw s1)) t)" for t
    by (simp_all add: port_wf_def)
  have "um_find (um_erase ?n (pt_nodes s1)) = um_find (pt_nodes s)" "removeAll ?n (pt_threads s1) = pt_threads s"
    using st by (auto simp: started_def fun_eq_iff)
  with stop gone show ?thesis by auto
qed

lemma lost_null:
  assumes "reg_deleteNode name m = (True, m', out)"
  shows "lose_node name m' = Exited (m'\<lparr>m_nodes := um_put name None (m_nodes m')\<rparr>)"
proof -
  have "um_find (m_nodes m') name = None"
    using assms by (auto simp: reg_deleteNode_def um_index_def removeAllSubscribe_def removeAllPublish_def split: option.splits)
  then show ?thesis using deleteNode_unknown [of m' name] by (simp add: lose_node_def um_index_def)
qed

text \<open>
  C40: A publisher of one message does not keep itself. Stopping it destroys its node after the master has forgotten it, so that the tool ends, and
  the deletion that the destructor sends leaves a null entry at the master, on which the next listing of the nodes fails.
\<close>

theorem stop_of_once_ends:
  assumes "port_wf s" and "reads_names T" and "plain_name (stop_name op topic)"
    and "um_find (pt_nodes s) (stop_name op topic) = Some Idle"
  shows "\<exists>m. stopCommand T op topic s = Exited m \<and> um_find (m_nodes m) (stop_name op topic) = Some None \<and>
    getAllNodeInfo J m = Inl NullDeref"
proof -
  from stop_effect [OF assms] obtain m out where del: "reg_deleteNode (stop_name op topic) (pt_mw s) = (True, m, out)"
    and stop: "stopCommand T op topic s = lose_node (stop_name op topic) m" by auto
  let ?m = "m\<lparr>m_nodes := um_put (stop_name op topic) None (m_nodes m)\<rparr>"
  have found: "um_find (m_nodes ?m) (stop_name op topic) = Some None" by simp
  have info: "getAllNodeInfo J ?m = Inl NullDeref"
    by (simp add: getAllNodeInfo_def node_infos_null [OF um_find_SomeD [OF found, simplified]])
  show ?thesis by (rule exI [of _ ?m]) (use info in \<open>simp add: stop lost_null [OF del]\<close>)
qed

text \<open>
  Echoing a topic a second time ends the tool: the name of the node is taken and the constructor throws. If the stack is unwound then, the destructor of
  what is built deletes at the master the node that runs.
\<close>

theorem second_echo_ends:
  assumes "port_wf s" and "tokens = [''topic'', ''echo'', topic]" and "topic \<noteq> []" and "type \<noteq> []" and "me_pool (tl_msg T) type \<noteq> None"
    and "um_find (pt_nodes s) (node_name ''echo'' topic) = Some job"
  shows "if tl_unwinds T
    then \<exists>m. run_command T by_host type ts tokens index s = Exited m \<and> um_find (m_nodes m) (node_name ''echo'' topic) = None \<and>
      (\<forall>e \<in> set (um_at [] (m_subscribes m) topic). ep_node e \<noteq> node_name ''echo'' topic)
    else run_command T by_host type ts tokens index s = Crashed Terminated"
proof -
  let ?n = "node_name ''echo'' topic"
  from kept_known [OF assms(1,6)] obtain nd where nd: "um_find (m_nodes (pt_mw s)) ?n = Some (Some nd)" by (auto simp: known_node_def)
  then have "make_node T ?n s = thrown_out T ?n (pt_mw s)" by (simp add: make_node_def reg_addNode_def)
  moreover obtain m out where del: "reg_deleteNode ?n (pt_mw s) = (True, m, out)" using deleteNode_known [OF nd] by blast
  ultimately have "run_command T by_host type ts tokens index s = (if tl_unwinds T then Exited m else Crashed Terminated)"
    using assms(2-5) by (simp add: run_command_def port_parse_def subscribe_and_echo_def Let_def thrown_out_def lose_node_def)
  moreover from deleted_node_gone [OF _ nd del, of topic] assms(1) have "um_find (m_nodes m) ?n = None"
    "um_at [] (m_subscribes m) topic = filter (\<lambda>e. ep_node e \<noteq> ?n) (um_at [] (m_subscribes (pt_mw s)) topic)"
    by (simp_all add: port_wf_def)
  ultimately show ?thesis by auto
qed

subsection \<open>Recording and playing\<close>

text \<open>The times as they are printed can be read, \<open>rd\<close> is what the rounding of the printing makes of them.\<close>

definition reads_times :: "('j, 'v, 'd) tool \<Rightarrow> ('d \<Rightarrow> 'd) \<Rightarrow> bool" where
  "reads_times T rd \<longleftrightarrow>
     (\<forall>t. CHR ''|'' \<notin> set (tl_print T t) \<and> CHR 0x0A \<notin> set (tl_print T t) \<and> tl_stod T (tl_print T t) = Some (rd t))"

definition file_lines :: "('j, 'v, 'd) tool \<Rightarrow> ('d \<times> string) list \<Rightarrow> string" where
  "file_lines T tjs = concat (map (\<lambda>(t, j). (tl_print T t @ ''|'' @ j) @ [CHR 0x0A]) tjs)"

text \<open>What a recording node writes of what it gets: a message that cannot be printed as JSON leaves no line.\<close>

definition recorded :: "('j, 'v, 'd) tool \<Rightarrow> ('v pmessage \<times> 'd) list \<Rightarrow> string list" where
  "recorded T ms = List.map_filter (\<lambda>(m, now). tl_json T m) ms"

lemma record_content:
  assumes "um_find (pt_nodes s) name = Some (Recording f i)"
    and "port_run T (map (\<lambda>(m, now). Arrives name m now) ms) s = Alive (s', out)"
    and "um_find (pt_files s) f = Some c"
  shows "\<exists>tjs. map snd tjs = recorded T ms \<and> um_find (pt_files s') f = Some (c @ file_lines T tjs)"
  using assms
proof (induction ms arbitrary: s c out)
  case Nil
  then show ?case by (simp add: file_lines_def recorded_def map_filter_simps)
next
  case (Cons mn ms)
  obtain m now where mn: "mn = (m, now)" by fastforce
  obtain s1 o1 o2 where e: "on_message T name m now s = Alive (s1, o1)"
    and es: "port_run T (map (\<lambda>(m, now). Arrives name m now) ms) s1 = Alive (s', o2)"
    using Cons.prems(2) by (auto simp: mn bind_Alive)
  show ?case
  proof (cases "tl_json T m")
    case None
    then have "s1 = s" using e Cons.prems(1) by (simp add: on_message_def)
    from Cons.IH [OF Cons.prems(1) es [unfolded this] Cons.prems(3)] None
    show ?thesis by (simp add: mn recorded_def map_filter_simps)
  next
    case (Some j)
    define t where "t = fp_sub (tl_fp T) now (um_at now (pt_starts s) f)"
    have s1: "pt_nodes s1 = pt_nodes s" "um_find (pt_files s1) f = Some (c @ tl_print T t @ ''|'' @ j @ [CHR 0x0A])"
      using e Cons.prems(1,3) Some by (auto simp: on_message_def Let_def um_at_def t_def)
    from Cons.IH [OF _ es s1(2)] Cons.prems(1) s1(1) obtain tjs where
      "map snd tjs = recorded T ms" "um_find (pt_files s') f = Some ((c @ tl_print T t @ ''|'' @ j @ [CHR 0x0A]) @ file_lines T tjs)" by auto
    then show ?thesis by (intro exI [of _ "(t, j) # tjs"]) (simp add: mn Some recorded_def map_filter_simps file_lines_def)
  qed
qed

lemma bag_read_back:
  assumes "reads_times T rd"
  shows "bag_messages T (map (\<lambda>(t, j). tl_print T t @ ''|'' @ j) tjs) = Inr (map (\<lambda>(t, j). (rd t, j)) tjs)"
  using assms by (induction tjs) (auto simp: reads_times_def str_find_bar)

lemma file_read_back:
  assumes "reads_times T rd" and "\<And>t j. (t, j) \<in> set tjs \<Longrightarrow> CHR 0x0A \<notin> set j" and "CHR 0x0A \<notin> set type"
  shows "getline (MESSAGE_TYPE @ type @ [CHR 0x0A] @ file_lines T tjs) = (MESSAGE_TYPE @ type, file_lines T tjs)"
    and "bag_messages T (text_lines (file_lines T tjs)) = Inr (map (\<lambda>(t, j). (rd t, j)) tjs)"
proof -
  have "CHR 0x0A \<notin> set (MESSAGE_TYPE @ type)" using assms(3) by (simp add: MESSAGE_TYPE_def)
  from getline_newline [OF this] show "getline (MESSAGE_TYPE @ type @ [CHR 0x0A] @ file_lines T tjs) = (MESSAGE_TYPE @ type, file_lines T tjs)"
    by (metis append.assoc)
  have "file_lines T tjs = concat (map (\<lambda>l. l @ [CHR 0x0A]) (map (\<lambda>(t, j). tl_print T t @ ''|'' @ j) tjs))"
    unfolding file_lines_def by (induction tjs) auto
  moreover have "CHR 0x0A \<notin> set l" if "l \<in> set (map (\<lambda>(t, j). tl_print T t @ ''|'' @ j) tjs)" for l
    using that assms(1,2) by (force simp: reads_times_def)
  ultimately have "text_lines (file_lines T tjs) = map (\<lambda>(t, j). tl_print T t @ ''|'' @ j) tjs" using lines_of_concat by metis
  then show "bag_messages T (text_lines (file_lines T tjs)) = Inr (map (\<lambda>(t, j). (rd t, j)) tjs)" using bag_read_back [OF assms(1)] by simp
qed

text \<open>
  What recorded texts come to when they are played: each is published as the message that it describes, and the first that
  describes none ends the tool.
\<close>

fun replay :: "('j, 'v, 'd) tool \<Rightarrow> string \<Rightarrow> string \<Rightarrow> string \<Rightarrow> int \<Rightarrow> string list \<Rightarrow> error + ('v, 'd) tool_out list" where
  "replay T name topic type index [] = Inr []"
| "replay T name topic type index (j # js) =
     (case make_message (tl_msg T) type j of
        Inl e \<Rightarrow> Inl e
      | Inr None \<Rightarrow> Inl NullDeref
      | Inr (Some m) \<Rightarrow> map_sum id (\<lambda>out. Publishes name topic m # Shows index m # out) (replay T name topic type index js))"

lemma replay_faithful:
  "map (make_message (tl_msg T) type) js = map (\<lambda>m. Inr (Some m)) ms \<Longrightarrow>
     replay T name topic type index js = Inr (concat (map (\<lambda>m. [Publishes name topic m, Shows index m]) ms))"
proof (induction js arbitrary: ms)
  case (Cons j js)
  then show ?case by (cases ms) simp_all
qed simp

lemma ticks_play:
  assumes "um_find (pt_nodes s) name = Some (Playing topic type texts idx index True)"
  shows "case replay T name topic type index (take n (drop idx texts)) of
      Inl e \<Rightarrow> port_run T (replicate n (Ticks name)) s = Crashed e
    | Inr out \<Rightarrow> \<exists>s'. port_run T (replicate n (Ticks name)) s = Alive (s', out)"
  using assms
proof (induction n arbitrary: s idx)
  case (Suc n)
  show ?case
  proof (cases "length texts \<le> idx")
    case True
    then have "on_tick T name s = Alive (s, [])" using Suc.prems by (simp add: on_tick_def)
    then show ?thesis using Suc.IH [OF Suc.prems] True by (auto simp: bind_Alive)
  next
    case False
    then have d: "drop idx texts = texts ! idx # drop (idx + 1) texts" by (simp add: Cons_nth_drop_Suc)
    define s1 where "s1 = s\<lparr>pt_nodes := um_put name (Playing topic type texts (idx + 1) index True) (pt_nodes s)\<rparr>"
    have "um_find (pt_nodes s1) name = Some (Playing topic type texts (idx + 1) index True)" by (simp add: s1_def)
    note IH = Suc.IH [OF this]
    have tick: "on_tick T name s = (case make_message (tl_msg T) type (texts ! idx) of
        Inl e \<Rightarrow> Crashed e | Inr None \<Rightarrow> Crashed NullDeref
      | Inr (Some m) \<Rightarrow> Alive (s1, [Publishes name topic m, Shows index m]))"
      using Suc.prems False by (simp add: on_tick_def republish_def s1_def split: sum.split option.split)
    show ?thesis
      using IH unfolding d by (auto simp: tick split: sum.splits option.splits)
  qed
qed simp

lemma path_join_append: "topic \<noteq> [] \<Longrightarrow> path_join dir (topic @ r) = path_join dir topic @ r"
  by (simp add: path_join_def)

lemma file_topic_recorded: "file_topic (topic @ ''_'' @ stamp @ ''.txt'') = takeWhile (\<lambda>c. c \<noteq> CHR ''_'') topic"
  unfolding file_topic_def by (induction topic) auto

text \<open>A node that is new gets its publisher, unless the system refuses the eventfd or the shared memory.\<close>

lemma fresh_attached:
  assumes "make_node T name s = Alive s1" and "tl_os T = OsOk" and "attach_pub T name topic type s1 = Alive (s2, pub)"
  shows pub
proof -
  have "um_find (m_nodes (pt_mw s1)) name = Some (Some (new_node name (tl_pid T)))"
    using assms(1) by (auto simp: make_node_def reg_addNode_def thrown_out_def lose_node_def split: option.splits if_splits)
  then show ?thesis using assms(2,3)
    by (auto simp: attach_pub_def reg_addPublish_def containsPublish_def new_node_def make_endpoint_def Publish_run_def)
qed

lemma play_started:
  assumes "port_play T dir file_name index s = Alive (s', out)" and "um_find (pt_files s) (path_join dir file_name) = Some content"
    and "getline content = (MESSAGE_TYPE @ type, rest)" and "bag_messages T (text_lines rest) = Inr ms" and "tl_os T = OsOk"
  defines "topic \<equiv> file_topic file_name" and "name \<equiv> node_name ''play'' (file_topic file_name)"
  shows "if ms = [] then s' = s \<and> out = []
    else if length ms = 1 then replay T name topic type index (map snd ms) = Inr out
    else um_find (pt_nodes s') name = Some (Playing topic type (map snd ms) 0 index True)"
proof (cases "ms = []")
  case True
  then show ?thesis using assms(1-4) by (simp add: port_play_def Let_def)
next
  case False
  have n: "node_name ''play'' topic = name" by (simp add: name_def topic_def)
  obtain interval where "play_node T topic type ms interval index s = Alive (s', out)"
    using assms(1-4) False by (cases "play_interval (tl_fp T) ms") (auto simp: port_play_def Let_def topic_def)
  then obtain s1 s2 pub where s: "make_node T name s = Alive s1" "attach_pub T name topic type s1 = Alive (s2, pub)"
    "(if length ms = 1 then
        (case republish T pub name topic type (snd (ms ! 0)) index of Inl e \<Rightarrow> Crashed e
         | Inr out \<Rightarrow> bind_fate (keep_node name Idle s2) (\<lambda>s. Alive (s, out)))
      else bind_fate (keep_node name (Playing topic type (map snd ms) 0 index pub) s2) (\<lambda>s. Alive (s, [SetsTimer name interval]))) =
      Alive (s', out)"
    by (auto simp: play_node_def Let_def bind_Alive n)
  have pub: "pub = True" using fresh_attached [OF s(1) assms(5) s(2)] by simp
  show ?thesis
  proof (cases "length ms = 1")
    case True
    then obtain m where "ms = [m]" by (auto simp: length_Suc_conv)
    then show ?thesis using s(3) pub by (auto simp: republish_def bind_Alive split: sum.splits option.splits)
  next
    case two: False
    then have "keep_node name (Playing topic type (map snd ms) 0 index True) s2 = Alive s'" using s(3) pub by (auto simp: bind_Alive)
    then show ?thesis using False two by (auto simp: keep_node_def Let_def split: if_splits)
  qed
qed


text \<open>
  The name of a recording starts with the topic up to its first underscore only: a recording is played on its topic just when the name of the
  topic has no underscore. Those of the vehicle, such as \<open>cmd_vel\<close>, have one.
\<close>

theorem topic_cut_at_underscore:
  "file_topic (topic @ ''_'' @ stamp @ ''.txt'') = topic \<longleftrightarrow> CHR ''_'' \<notin> set topic"
  unfolding file_topic_recorded takeWhile_eq_all_conv by auto

text \<open>
  A recorded text with a member that the type does not have, such as the name in lower camel case that the printer makes of a name with an
  underscore, ends the tool: no message is built, and the playing node uses it.
\<close>

theorem renamed_member_crashes:
  assumes "um_find (pt_nodes s) name = Some (Playing topic type texts idx index pub)" and "idx < length texts"
    and "me_parse (tl_msg T) (texts ! idx) = Some (Object ms)" and "(k, j) \<in> set ms" and "field_of (tl_msg T) type k = None"
  shows "\<exists>e. on_tick T name s = Crashed e"
proof -
  have "make_message (tl_msg T) type (texts ! idx) \<noteq> Inr (Some m)" for m
  proof
    assume "make_message (tl_msg T) type (texts ! idx) = Inr (Some m)"
    then have "fill_members (tl_msg T) type ms [] = Inr (Some m)" using assms(3) by (auto simp: make_message_def split: option.splits)
    from fill_members_known [OF this assms(4)] assms(5) show False by simp
  qed
  then have "\<exists>e. republish T pub name topic type (texts ! idx) index = Inl e"
    by (auto simp: republish_def split: sum.splits option.splits)
  then show ?thesis using assms(1,2) by (auto simp: on_tick_def)
qed

subsection \<open>The words of a command\<close>

definition is_word :: "string \<Rightarrow> bool" where
  "is_word w \<longleftrightarrow> w \<noteq> [] \<and> (\<forall>c \<in> set w. \<not> is_space c \<and> c \<noteq> CHR 0x22)"

lemma split_words_space: "is_space c \<Longrightarrow> split_words (c # s) = split_words s"
  by (subst (1 2) split_words.simps) simp

lemma split_words_word:
  assumes "is_word w" and "s = [] \<or> is_space (hd s)"
  shows "split_words (w @ s) = w # split_words s"
proof -
  obtain c u where w: "w = c # u" using assms(1) by (cases w) (auto simp: is_word_def)
  have n: "\<forall>c \<in> set w. \<not> is_space c" using assms(1) by (simp add: is_word_def)
  have d: "dropWhile is_space (w @ s) = w @ s" using n w by simp
  have t: "takeWhile (\<lambda>c. \<not> is_space c) (w @ s) = w" "dropWhile (\<lambda>c. \<not> is_space c) (w @ s) = s"
    using n assms(2) by (cases s; simp)+
  have "w @ s \<noteq> []" using w by simp
  then show ?thesis by (subst split_words.simps) (simp add: d t Let_def)
qed

lemma split_words_nil: "split_words [] = []"
  by (simp add: split_words.simps)

lemma split_front: "\<forall>w \<in> set ws. is_word w \<Longrightarrow> split_words (concat (map (\<lambda>w. w @ '' '') ws) @ r) = ws @ split_words r"
proof (induction ws)
  case (Cons w ws)
  have sp: "is_space (CHR '' '')" by code_simp
  have "split_words (w @ '' '' @ concat (map (\<lambda>w. w @ '' '') ws) @ r) = w # split_words ('' '' @ concat (map (\<lambda>w. w @ '' '') ws) @ r)"
    by (rule split_words_word) (use Cons.prems sp in auto)
  then show ?case using Cons split_words_space [OF sp] by simp
qed simp

lemma split_behind: "\<forall>w \<in> set ws. is_word w \<Longrightarrow> split_words (concat (map (\<lambda>w. '' '' @ w) ws)) = ws"
proof (induction ws)
  case (Cons w ws)
  have sp: "is_space (CHR '' '')" by code_simp
  have "split_words (w @ concat (map (\<lambda>w. '' '' @ w) ws)) = w # split_words (concat (map (\<lambda>w. '' '' @ w) ws))"
    by (rule split_words_word) (use Cons.prems sp in \<open>cases ws; simp\<close>)+
  then show ?case using Cons split_words_space [OF sp] by simp
qed (simp add: split_words_nil)

lemma json_end_found:
  assumes "\<forall>u v. b \<noteq> u @ ''}'' @ [CHR 0x22] @ v" and "CHR 0x0A \<notin> set b" and "CHR 0x0D \<notin> set b"
  shows "json_end (b @ ''}'' @ [CHR 0x22] @ r) = Some (b @ ''}'', r)"
  using assms
proof (induction b)
  case (Cons c b)
  have IH: "json_end (b @ ''}'' @ [CHR 0x22] @ r) = Some (b @ ''}'', r)"
  proof (rule Cons.IH)
    show "\<forall>u v. b \<noteq> u @ ''}'' @ [CHR 0x22] @ v" using Cons.prems(1) by (metis append_Cons)
  qed (use Cons.prems(2,3) in auto)
  show ?case
  proof (cases b)
    case Nil
    then show ?thesis using Cons.prems(2,3) by simp
  next
    case (Cons d b')
    have "\<not> (c = CHR ''}'' \<and> d = CHR 0x22)" using Cons.prems(1) Cons by (metis append_Cons append_Nil)
    then show ?thesis using IH Cons Cons.prems(2,3) by auto
  qed
qed simp

lemma find_json_found:
  assumes "CHR 0x22 \<notin> set front" and "json_end (j @ r) = Some (j, r')"
  shows "find_json (front @ [CHR 0x22, CHR ''{''] @ j @ r) = Some (front, CHR ''{'' # j, r')"
  using assms by (induction front) auto

definition typed_command :: "string list \<Rightarrow> string \<Rightarrow> string list \<Rightarrow> string" where
  "typed_command front b behind =
     concat (map (\<lambda>w. w @ '' '') front) @ [CHR 0x22] @ ''{'' @ b @ ''}'' @ [CHR 0x22] @ concat (map (\<lambda>w. '' '' @ w) behind)"

text \<open>
  The words of a command come back whole: when words, a JSON object in quotation marks and more words make up the text of a command, its tokens
  are these words and the object, spaces and quotation marks within it included; and the request that stops it finds the same first three words. The
  object is on one line and has no brace before a quotation mark inside.
\<close>

theorem command_words:
  assumes "\<forall>w \<in> set front \<union> set behind. is_word w" and "3 \<le> length front"
    and "\<forall>u v. b \<noteq> u @ ''}'' @ [CHR 0x22] @ v" and "CHR 0x0A \<notin> set b" and "CHR 0x0D \<notin> set b"
  shows "command_tokens (typed_command front b behind) None = front @ [''{'' @ b @ ''}''] @ behind \<and>
    take 3 (split_words (typed_command front b behind)) = take 3 front"
proof
  let ?front = "concat (map (\<lambda>w. w @ '' '') front)" and ?behind = "concat (map (\<lambda>w. '' '' @ w) behind)"
  have "CHR 0x22 \<notin> set ?front" using assms(1) by (auto simp: is_word_def)
  moreover have "json_end ((b @ ''}'') @ [CHR 0x22] @ ?behind) = Some (b @ ''}'', ?behind)"
    using json_end_found [OF assms(3-5), of ?behind] by simp
  ultimately have "find_json (?front @ [CHR 0x22, CHR ''{''] @ (b @ ''}'') @ [CHR 0x22] @ ?behind) = Some (?front, CHR ''{'' # b @ ''}'', ?behind)"
    by (rule find_json_found)
  then have found: "find_json (typed_command front b behind) = Some (?front, CHR ''{'' # b @ ''}'', ?behind)"
    by (simp add: typed_command_def)
  have "split_words ?front = front" "split_words ?behind = behind"
    using split_front [of front "[]"] split_behind [of behind] assms(1) by (simp_all add: split_words_nil)
  with found show "command_tokens (typed_command front b behind) None = front @ [''{'' @ b @ ''}''] @ behind"
    by (simp add: command_tokens_def Let_def)
  have "split_words (typed_command front b behind) = front @ split_words ([CHR 0x22] @ ''{'' @ b @ ''}'' @ [CHR 0x22] @ ?behind)"
    unfolding typed_command_def by (rule split_front) (use assms(1) in blast)
  then show "take 3 (split_words (typed_command front b behind)) = take 3 front" using assms(2) by simp
qed

text \<open>
  A publisher that the master refuses is a null pointer, which the tool uses: the first tick of the timer ends it.
\<close>

theorem refused_publisher_crashes:
  assumes "port_wf s" and "um_find (pt_nodes s) name = Some (Publishing topic type index m False)" and "tl_os T \<noteq> OsOk"
  shows "on_tick T name s = Crashed NullDeref"
proof -
  obtain nd where "um_find (m_nodes (pt_mw s)) name = Some (Some nd)" using kept_known [OF assms(1,2)] by (auto simp: known_node_def)
  then have "\<exists>m1 out. reg_addPublish (tl_os T) name topic type (pt_mw s) = Inr (False, m1, out)"
    using assms(3) by (cases "containsPublish topic nd"; cases "tl_os T") (simp_all add: reg_addPublish_def make_endpoint_def Publish_run_def)
  then obtain m1 out where "reg_addPublish (tl_os T) name topic type (pt_mw s) = Inr (False, m1, out)" by blast
  then show ?thesis using assms(2) by (simp add: on_tick_def port_publish_def attach_pub_def)
qed

text \<open>
  A rate of zero is undefined behaviour as soon as the publisher is made, and so is a negative one that leaves a pause of a millisecond or more;
  the node is registered by then.
\<close>

theorem rate_not_checked:
  assumes "make_node T (node_name ''pub'' topic) s = Alive s1" and "rate = 0 \<or> - 1000 \<le> rate \<and> rate < 0"
  shows "port_publisher T topic type m rate True index s = Crashed OutOfBounds \<and> known_node (pt_mw s1) (node_name ''pub'' topic)"
proof -
  have "rate_interval rate = Inl OutOfBounds"
  proof (cases "rate = 0")
    case False
    then have "0 < - rate" "- rate \<le> 1000" using assms(2) by auto
    then have "1 \<le> 1000 div (- rate)" using zdiv_mono2 [of 1000 "- rate" 1000] by simp
    then show ?thesis using assms(2) False by (simp add: rate_interval_def int_quot_def Let_def)
  qed (simp add: rate_interval_def)
  then show ?thesis using assms(1) make_node_registers(2) [OF assms(1)] by (simp add: port_publisher_def Let_def)
qed

subsection \<open>A small tool\<close>

definition sample_tool :: "(int, int, rat) tool" where
  "sample_tool =
     \<lparr>tl_msg = header_env, tl_json = \<lambda>_. Some ''a'', tl_fp = exact_fp (\<lambda>x. x) (\<lambda>x. x) (\<lambda>x. x) (\<lambda>x y. x),
      tl_print = \<lambda>_. ''0'', tl_stod = \<lambda>_. Some 0,
      tl_node = \<lambda>body. Some (take (length body - 11) (drop 9 body)), tl_pid = 9, tl_os = OsOk, tl_unwinds = True\<rparr>"

lemma sample_reads: "reads_names sample_tool" "reads_times sample_tool (\<lambda>_. 0)"
  by (simp_all add: reads_names_def reads_times_def sample_tool_def stop_body_def)

definition echo_port :: "(int, rat) port" where
  "echo_port =
     (let e = \<lparr>ep_id = 0, ep_topic = ''pose'', ep_type = ''Pose'', ep_node = ''echo_node_pose''\<rparr> in
      \<lparr>pt_nodes = [(''echo_node_pose'', Echoing 1)], pt_threads = [''echo_node_pose''],
       pt_mw = \<lparr>m_nodes = [(''echo_node_pose'', Some \<lparr>nd_name = ''echo_node_pose'', nd_pid = 9, nd_publishes = [],
                  nd_subscribes = [(''pose'', e)]\<rparr>)],
                m_publishes = [], m_subscribes = [(''pose'', [e])], mw_queues = [(0, [])], mw_next_id = 1\<rparr>,
       pt_files = [], pt_starts = []\<rparr>)"

lemma echo_runs: "run_command sample_tool [] ''Pose'' ''1'' [''topic'', ''echo'', ''pose''] 1 (new_port new_mw) = Alive (echo_port, [])"
  by code_simp

lemma echo_port_wf: "port_wf echo_port"
proof (rule step_keeps_wf [OF new_port_wf [OF reg_reach.start] sample_reads(1)])
  show "port_step sample_tool (RunCmd [] ''Pose'' ''1'' [''topic'', ''echo'', ''pose''] 1) (new_port new_mw) = Alive (echo_port, [])"
    using echo_runs by simp
qed simp

theorem port_tables_agree_witness:
  "pt_threads echo_port = [''echo_node_pose''] \<and> known_node (pt_mw echo_port) ''echo_node_pose''"
proof -
  let ?es = "[RunCmd [] ''Pose'' ''1'' [''topic'', ''echo'', ''pose''] 1]"
  have "port_run sample_tool ?es (new_port new_mw) = Alive (echo_port, [])" using echo_runs by simp
  moreover have "\<forall>e \<in> set ?es. plain_event e" by simp
  ultimately have "um_keys (pt_nodes echo_port) \<subseteq> Collect (known_node (pt_mw echo_port))"
    using port_tables_agree [OF sample_reads(1) _ reg_reach.start] by blast
  then show ?thesis by (simp add: echo_port_def um_keys_def Let_def)
qed

theorem stop_undoes_start_witness:
  "\<exists>s2. stopCommand sample_tool ''echo'' ''pose'' echo_port = Alive s2 \<and> pt_threads s2 = [] \<and>
    um_find (m_nodes (pt_mw s2)) ''echo_node_pose'' = None"
proof -
  have n: "stop_name ([''topic'', ''echo'', ''pose''] ! 1) ([''topic'', ''echo'', ''pose''] ! 2) = ''echo_node_pose''" by code_simp
  have p: "plain_name ''echo_node_pose''" and f: "um_find (pt_nodes echo_port) ''echo_node_pose'' = Some (Echoing 1)" by code_simp+
  have t: "pt_threads echo_port \<noteq> pt_threads (new_port new_mw :: (int, rat) port)" by code_simp
  from stop_undoes_start [OF new_port_wf [OF reg_reach.start] sample_reads(1) _ echo_runs t, unfolded n, OF p f] show ?thesis
    by (auto simp: new_port_def)
qed

theorem second_echo_ends_witness:
  "\<exists>m. run_command sample_tool [] ''Pose'' ''1'' [''topic'', ''echo'', ''pose''] 2 echo_port = Exited m \<and>
    um_find (m_nodes m) ''echo_node_pose'' = None"
proof -
  have n: "node_name ''echo'' ''pose'' = ''echo_node_pose''" by code_simp
  have "me_pool (tl_msg sample_tool) ''Pose'' \<noteq> None" "um_find (pt_nodes echo_port) ''echo_node_pose'' = Some (Echoing 1)" by code_simp+
  note laws = this
  have unwinds: "tl_unwinds sample_tool = True" by (simp add: sample_tool_def)
  have "um_find (pt_nodes echo_port) (node_name ''echo'' ''pose'') = Some (Echoing 1)" unfolding n by (rule laws(2))
  from second_echo_ends [OF echo_port_wf refl _ _ laws(1) this, of "[]" "''1''" 2] show ?thesis unfolding n unwinds if_True by blast
qed

definition once_port :: "(int, rat) port" where
  "once_port =
     (let e = \<lparr>ep_id = 0, ep_topic = ''pose'', ep_type = ''Pose'', ep_node = ''pub_node_pose''\<rparr> in
      \<lparr>pt_nodes = [(''pub_node_pose'', Idle)], pt_threads = [''pub_node_pose''],
       pt_mw = \<lparr>m_nodes = [(''pub_node_pose'', Some \<lparr>nd_name = ''pub_node_pose'', nd_pid = 9, nd_publishes = [(''pose'', e)],
                  nd_subscribes = []\<rparr>)],
                m_publishes = [(''pose'', [e])], m_subscribes = [], mw_queues = [(0, [])], mw_next_id = 1\<rparr>,
       pt_files = [], pt_starts = []\<rparr>)"

lemma once_runs:
  "run_command sample_tool [] [] ''1'' [''topic'', ''pub'', ''pose'', ''Pose'', ''a'', ''--once''] 1 (new_port new_mw) =
     Alive (once_port, [Publishes ''pub_node_pose'' ''pose'' header_msg, Shows 1 header_msg])"
  by code_simp

lemma once_port_wf: "port_wf once_port"
proof (rule step_keeps_wf [OF new_port_wf [OF reg_reach.start] sample_reads(1)])
  show "port_step sample_tool (RunCmd [] [] ''1'' [''topic'', ''pub'', ''pose'', ''Pose'', ''a'', ''--once''] 1) (new_port new_mw) =
    Alive (once_port, [Publishes ''pub_node_pose'' ''pose'' header_msg, Shows 1 header_msg])"
    using once_runs by simp
qed simp

theorem stop_of_once_ends_witness:
  "\<exists>m. stopCommand sample_tool ''pub'' ''pose'' once_port = Exited m \<and> getAllNodeInfo list_json m = Inl NullDeref"
proof -
  have "plain_name (stop_name ''pub'' ''pose'')" "um_find (pt_nodes once_port) (stop_name ''pub'' ''pose'') = Some Idle" by code_simp+
  from stop_of_once_ends [OF once_port_wf sample_reads(1) this, of list_json] show ?thesis by blast
qed

definition recording_port :: "(int, rat) port" where
  "recording_port = (new_port new_mw)
     \<lparr>pt_nodes := [(''record_node_pose'', Recording ''bags/pose_1.txt'' 1)],
      pt_files := [(''bags/pose_1.txt'', ''message_type: Pose'' @ [CHR 0x0A])]\<rparr>"

definition two_messages :: "(int pmessage \<times> rat) list" where
  "two_messages = [(header_msg, 0), (header_msg, 1)]"


theorem renamed_member_crashes_witness:
  "\<exists>e. on_tick (sample_tool\<lparr>tl_msg := header_env\<lparr>me_parse := \<lambda>_. Some (Object [(''frameId'', Scalar 7)])\<rparr>\<rparr>) ''p''
     ((new_port new_mw)\<lparr>pt_nodes := [(''p'', Playing ''pose'' ''Header'' [''x''] 0 1 True)]\<rparr>) = Crashed e"
  by (rule renamed_member_crashes [of _ _ "''pose''" "''Header''" "[''x'']" 0 1 True _ "[(''frameId'', Scalar 7)]" "''frameId''" "Scalar 7"])
    (simp_all add: um_find_def field_of_def header_env_def)

theorem refused_publisher_crashes_witness:
  "on_tick (sample_tool\<lparr>tl_os := ShmError\<rparr>) ''echo_node_pose''
     (echo_port\<lparr>pt_nodes := [(''echo_node_pose'', Publishing ''pose'' ''Pose'' 1 header_msg False)]\<rparr>) = Crashed NullDeref"
proof (rule refused_publisher_crashes)
  show "port_wf (echo_port\<lparr>pt_nodes := [(''echo_node_pose'', Publishing ''pose'' ''Pose'' 1 header_msg False)]\<rparr>)"
    using echo_port_wf by (simp add: port_wf_def echo_port_def Let_def um_keys_def)
qed (simp_all add: um_find_def)

theorem command_words_witness:
  "command_tokens (typed_command [''topic'', ''pub'', ''pose'', ''Pose''] [] [''--once'']) None =
     [''topic'', ''pub'', ''pose'', ''Pose'', ''{}'', ''--once'']"
proof -
  have "\<forall>w \<in> set [''topic'', ''pub'', ''pose'', ''Pose''] \<union> set [''--once'']. is_word w" by code_simp
  from command_words [OF this, of "[]"] show ?thesis by simp
qed

theorem rate_not_checked_witness:
  "port_publisher sample_tool ''pose'' ''Pose'' header_msg 0 True 1 (new_port new_mw) = Crashed OutOfBounds"
proof -
  obtain s1 where "make_node sample_tool (node_name ''pub'' ''pose'') (new_port new_mw) = Alive s1"
    by (auto simp: make_node_def reg_addNode_def new_port_def new_mw_def)
  from rate_not_checked [OF this] show ?thesis by blast
qed

end
