(* ===== verification/PortBridge.thy ===== *)
theory PortBridge
  imports NodeLib PortTool
begin

text \<open>
  The bridge of the HarmonyOS port between the threads of the tool and the user interface, entry/src/main/cpp/napi_init.cpp: any thread puts
  lines into a queue and wakes the event loop, the event loop hands them to the function that the user interface has registered.
\<close>

subsection \<open>The state\<close>

text \<open>
  \<open>g_state\<close>. A function of the user interface is a number. \<open>br_wake\<close> says that the event loop has been woken and has not called back yet: libuv
  combines several calls of \<open>uv_async_send\<close> into one.
\<close>

record bridge =
  br_env :: bool
  br_callback :: "nat option"
  br_init :: bool
  br_queue :: "string list"
  br_wake :: bool

definition new_bridge :: bridge where
  "new_bridge = \<lparr>br_env = False, br_callback = None, br_init = False, br_queue = [], br_wake = False\<rparr>"

definition bridge_line :: "int \<Rightarrow> string \<Rightarrow> string" where
  "bridge_line index message = to_string index @ ''|'' @ message"

definition SendToArkTS :: "int \<Rightarrow> string \<Rightarrow> bridge \<Rightarrow> bridge" where
  "SendToArkTS index message b =
     (if \<not> br_env b \<or> br_callback b = None then b
      else b\<lparr>br_queue := br_queue b @ [bridge_line index message], br_wake := True\<rparr>)"

text \<open>The argument is a function or something else, for which a type error is thrown.\<close>

definition RegisterMessageCallback :: "nat option \<Rightarrow> bridge \<Rightarrow> bridge" where
  "RegisterMessageCallback arg b =
     (case arg of
        None \<Rightarrow> b
      | Some f \<Rightarrow> (let b = b\<lparr>br_env := True, br_callback := Some f\<rparr> in if br_init b then b else b\<lparr>br_init := True\<rparr>))"

text \<open>What happens to the bridge, in the order in which the mutex is taken; \<open>Wakes\<close> is a round of the event loop.\<close>

datatype bridge_event = Sends int string | Registers "nat option" | Wakes

text \<open>The calls that lock the mutex.\<close>

fun locks :: "bridge_event \<Rightarrow> bool" where
  "locks (Sends index message) = True"
| "locks (Registers arg) = (arg \<noteq> None)"
| "locks Wakes = False"

text \<open>
  The functions of the user interface run while the mutex is held: \<open>js f line\<close> lists the calls into the bridge that the function \<open>f\<close> makes for a
  line. One that locks never returns, as the mutex is not recursive.
\<close>

fun hand_over :: "(nat \<Rightarrow> string \<Rightarrow> bridge_event list) \<Rightarrow> nat \<Rightarrow> string list \<Rightarrow> error + (nat \<times> string) list" where
  "hand_over js f [] = Inr []"
| "hand_over js f (line # lines) =
     (if list_ex locks (js f line) then Inl NoReturn
      else map_sum id (\<lambda>out. (f, line) # out) (hand_over js f lines))"

definition OnAsyncMessage :: "(nat \<Rightarrow> string \<Rightarrow> bridge_event list) \<Rightarrow> bridge \<Rightarrow> error + bridge \<times> (nat \<times> string) list" where
  "OnAsyncMessage js b =
     (case (br_env b, br_callback b) of
        (True, Some f) \<Rightarrow> map_sum id (\<lambda>out. (b\<lparr>br_queue := []\<rparr>, out)) (hand_over js f (br_queue b))
      | _ \<Rightarrow> Inr (b, []))"

fun bridge_step :: "(nat \<Rightarrow> string \<Rightarrow> bridge_event list) \<Rightarrow> bridge_event \<Rightarrow> bridge \<Rightarrow> error + bridge \<times> (nat \<times> string) list" where
  "bridge_step js (Sends index message) b = Inr (SendToArkTS index message b, [])"
| "bridge_step js (Registers arg) b = Inr (RegisterMessageCallback arg b, [])"
| "bridge_step js Wakes b = (if br_wake b then OnAsyncMessage js (b\<lparr>br_wake := False\<rparr>) else Inr (b, []))"

fun bridge_run :: "(nat \<Rightarrow> string \<Rightarrow> bridge_event list) \<Rightarrow> bridge_event list \<Rightarrow> bridge \<Rightarrow> error + bridge \<times> (nat \<times> string) list" where
  "bridge_run js [] b = Inr (b, [])"
| "bridge_run js (e # es) b =
     (case bridge_step js e b of Inl err \<Rightarrow> Inl err
      | Inr (b, o1) \<Rightarrow> map_sum id (\<lambda>(b, o2). (b, o1 @ o2)) (bridge_run js es b))"

subsection \<open>What the bridge promises\<close>

text \<open>
  The lines that count are those sent when a function is registered, and each goes to the function that is registered last when the loop hands it
  over. \<open>due_lines r f w es\<close>: \<open>w\<close> waits, \<open>f\<close> is registered.
\<close>

fun due_lines :: "nat option \<Rightarrow> string list \<Rightarrow> bridge_event list \<Rightarrow> (nat \<times> string) list" where
  "due_lines f w [] = []"
| "due_lines f w (Sends index message # es) = due_lines f (if f = None then w else w @ [bridge_line index message]) es"
| "due_lines f w (Registers arg # es) = due_lines (if arg = None then f else arg) w es"
| "due_lines f w (Wakes # es) = (case f of None \<Rightarrow> due_lines f w es | Some g \<Rightarrow> map (Pair g) w @ due_lines f [] es)"

fun accepted_lines :: "bool \<Rightarrow> bridge_event list \<Rightarrow> string list" where
  "accepted_lines r [] = []"
| "accepted_lines r (Sends index message # es) = (if r then [bridge_line index message] else []) @ accepted_lines r es"
| "accepted_lines r (Registers arg # es) = accepted_lines (r \<or> arg \<noteq> None) es"
| "accepted_lines r (Wakes # es) = accepted_lines r es"

text \<open>The invariant: what waits has its wake-up under way, and a loop is only woken that has been set up.\<close>

definition bridge_ok :: "bridge \<Rightarrow> bool" where
  "bridge_ok b \<longleftrightarrow> (br_queue b \<noteq> [] \<longrightarrow> br_wake b) \<and> (br_wake b \<longrightarrow> br_init b) \<and> (br_env b \<longleftrightarrow> br_callback b \<noteq> None) \<and>
     (br_init b \<longleftrightarrow> br_callback b \<noteq> None)"

lemma new_bridge_ok: "bridge_ok new_bridge"
  by (simp add: bridge_ok_def new_bridge_def)

lemma hand_over_all: "\<forall>line \<in> set lines. \<not> list_ex locks (js f line) \<Longrightarrow> hand_over js f lines = Inr (map (Pair f) lines)"
  by (induction lines) auto

definition calm :: "(nat \<Rightarrow> string \<Rightarrow> bridge_event list) \<Rightarrow> bool" where
  "calm js \<longleftrightarrow> (\<forall>f line. \<not> list_ex locks (js f line))"

lemma bridge_step_spec:
  assumes "calm js" and "bridge_ok b"
  shows "\<exists>b1 o1. bridge_step js e b = Inr (b1, o1) \<and> bridge_ok b1 \<and> (e = Wakes \<longrightarrow> br_queue b1 = []) \<and>
    (\<forall>es. due_lines (br_callback b) (br_queue b) (e # es) = o1 @ due_lines (br_callback b1) (br_queue b1) es) \<and>
    (\<forall>es. br_queue b @ accepted_lines (br_callback b \<noteq> None) (e # es) =
       map snd o1 @ br_queue b1 @ accepted_lines (br_callback b1 \<noteq> None) es)"
proof (cases e)
  case (Sends index message)
  then show ?thesis using assms(2) by (auto simp: SendToArkTS_def bridge_ok_def)
next
  case (Registers arg)
  then show ?thesis using assms(2) by (auto simp: RegisterMessageCallback_def bridge_ok_def Let_def split: option.split)
next
  case Wakes
  show ?thesis
  proof (cases "br_wake b")
    case True
    then obtain f where f: "br_callback b = Some f" "br_env b" using assms(2) by (auto simp: bridge_ok_def)
    have "hand_over js f (br_queue b) = Inr (map (Pair f) (br_queue b))"
      by (rule hand_over_all) (use assms(1) in \<open>simp add: calm_def\<close>)
    then show ?thesis using assms(2) f Wakes True by (auto simp: OnAsyncMessage_def bridge_ok_def comp_def)
  next
    case False
    then have "br_queue b = []" using assms(2) by (auto simp: bridge_ok_def)
    then show ?thesis using assms(2) Wakes False by (auto split: option.split)
  qed
qed

lemma bridge_run_spec:
  assumes "calm js"
  shows "bridge_ok b \<Longrightarrow> \<exists>b1 out. bridge_run js es b = Inr (b1, out) \<and> bridge_ok b1 \<and>
    (es \<noteq> [] \<longrightarrow> last es = Wakes \<longrightarrow> br_queue b1 = []) \<and> out = due_lines (br_callback b) (br_queue b) es \<and>
    br_queue b @ accepted_lines (br_callback b \<noteq> None) es = map snd out @ br_queue b1"
proof (induction es arbitrary: b)
  case (Cons e es)
  from bridge_step_spec [OF assms Cons.prems, of e] obtain b1 o1 where s: "bridge_step js e b = Inr (b1, o1)" "bridge_ok b1" "e = Wakes \<longrightarrow> br_queue b1 = []"
    "due_lines (br_callback b) (br_queue b) (e # es) = o1 @ due_lines (br_callback b1) (br_queue b1) es"
    "br_queue b @ accepted_lines (br_callback b \<noteq> None) (e # es) = map snd o1 @ br_queue b1 @ accepted_lines (br_callback b1 \<noteq> None) es"
    by blast
  from Cons.IH [OF s(2)] obtain b2 o2 where r: "bridge_run js es b1 = Inr (b2, o2)" "bridge_ok b2" "es \<noteq> [] \<longrightarrow> last es = Wakes \<longrightarrow> br_queue b2 = []"
    "o2 = due_lines (br_callback b1) (br_queue b1) es"
    "br_queue b1 @ accepted_lines (br_callback b1 \<noteq> None) es = map snd o2 @ br_queue b2" by blast
  have l: "e # es \<noteq> [] \<longrightarrow> last (e # es) = Wakes \<longrightarrow> br_queue b2 = []" using s(3) r(1,3) by (cases es) auto
  show ?case
  proof (intro exI conjI)
    show "bridge_run js (e # es) b = Inr (b2, o1 @ o2)" using s(1) r(1) by simp
    show "e # es \<noteq> [] \<longrightarrow> last (e # es) = Wakes \<longrightarrow> br_queue b2 = []" by (rule l)
  qed (simp_all only: s(4,5) r(2,4,5) map_append append_assoc)
qed simp

lemma accepted_snoc: "accepted_lines r (es @ [Wakes]) = accepted_lines r es"
  by (induction r es rule: accepted_lines.induct) auto

text \<open>
  C37: No line is lost on the way to the user interface, and no wake-up either: whatever threads send and however often the loop turns, the next round of the loop
  leaves an empty queue, and the lines handed over are those sent since a function was registered first, each once and in the order in which they
  were sent. The functions of the user interface do not call back into the bridge.
\<close>

theorem bridge_in_order:
  assumes "calm js"
  shows "\<exists>b out. bridge_run js (es @ [Wakes]) new_bridge = Inr (b, out) \<and> br_queue b = [] \<and> map snd out = accepted_lines False es"
proof -
  from bridge_run_spec [OF assms new_bridge_ok, of "es @ [Wakes]"] obtain b out where
    "bridge_run js (es @ [Wakes]) new_bridge = Inr (b, out)" "br_queue b = []"
    "br_queue new_bridge @ accepted_lines (br_callback new_bridge \<noteq> None) (es @ [Wakes]) = map snd out @ br_queue b" by auto
  then show ?thesis by (simp add: new_bridge_def accepted_snoc)
qed

text \<open>
  Each line goes to the function that is registered when it is handed over: a line that was sent for an earlier function goes to the later one.
\<close>

theorem bridge_to_latest:
  assumes "calm js" and "bridge_run js es new_bridge = Inr (b, out)"
  shows "out = due_lines None [] es"
  using bridge_run_spec [OF assms(1) new_bridge_ok, of es] assms(2) by (auto simp: new_bridge_def)

lemma hand_over_stuck: "line \<in> set lines \<Longrightarrow> list_ex locks (js f line) \<Longrightarrow> hand_over js f lines = Inl NoReturn"
  by (induction lines) auto

text \<open>
  A function of the user interface that sends itself, as starting a publisher of one message does, or that registers another function, hangs the event
  loop: it is called under the mutex that these calls take.
\<close>

theorem reentrant_callback_hangs:
  assumes "bridge_ok b" and "br_callback b = Some f" and "line \<in> set (br_queue b)" and "list_ex locks (js f line)"
  shows "bridge_step js Wakes b = Inl NoReturn"
proof -
  have "br_wake b" "br_env b" using assms(1-3) by (auto simp: bridge_ok_def)
  then show ?thesis using assms(2) hand_over_stuck [of line "br_queue b" js f, OF assms(3,4)] by (simp add: OnAsyncMessage_def)
qed

lemma dec_str_no_bar: "CHR ''|'' \<notin> set (dec_str n)"
  using dec_str_digits [of n] by (auto simp: list_all_iff is_digit_def)

text \<open>
  The user interface can take a line apart again: in front of the first bar stands the index of the window, behind it the message, which may have bars itself.
\<close>

theorem line_addressed:
  assumes "0 \<le> index" and "index \<le> INT_MAX"
  shows "\<exists>sep. str_find ''|'' (bridge_line index message) = Some sep \<and> stoi (take sep (bridge_line index message)) = Some index \<and>
    drop (sep + 1) (bridge_line index message) = message"
proof -
  have "CHR ''|'' \<notin> set (to_string index)" using dec_str_no_bar assms(1) by (simp add: to_string_def)
  from str_find_bar [OF this] show ?thesis using stoi_to_string [OF assms] by (simp add: bridge_line_def)
qed

theorem bridge_in_order_witness:
  "\<exists>b out. bridge_run (\<lambda>f line. []) [Sends 1 ''a'', Registers (Some 7), Sends 1 ''b'', Sends 2 ''c'', Wakes] new_bridge = Inr (b, out) \<and>
    map snd out = [''1|b'', ''2|c'']"
proof -
  have "accepted_lines False [Sends 1 ''a'', Registers (Some 7), Sends 1 ''b'', Sends 2 ''c''] = [''1|b'', ''2|c'']" by code_simp
  moreover have "calm (\<lambda>f line. [])" by (simp add: calm_def)
  moreover have "[Sends 1 ''a'', Registers (Some 7), Sends 1 ''b'', Sends 2 ''c'', Wakes] =
    [Sends 1 ''a'', Registers (Some 7), Sends 1 ''b'', Sends 2 ''c''] @ [Wakes]" by simp
  ultimately show ?thesis
    using bridge_in_order [of "\<lambda>f line. []" "[Sends 1 ''a'', Registers (Some 7), Sends 1 ''b'', Sends 2 ''c'']"] by metis
qed

theorem bridge_to_latest_witness:
  "map_sum id snd (bridge_run (\<lambda>f line. []) [Registers (Some 7), Sends 1 ''b'', Registers (Some 8), Wakes] new_bridge) = Inr [(8, ''1|b'')]"
proof -
  let ?es = "[Registers (Some 7), Sends 1 ''b'', Registers (Some 8), Wakes]"
  have c: "calm (\<lambda>f line. [])" by (simp add: calm_def)
  from bridge_run_spec [OF c new_bridge_ok, of ?es] obtain b out where r: "bridge_run (\<lambda>f line. []) ?es new_bridge = Inr (b, out)" by blast
  have "due_lines None [] ?es = [(8, ''1|b'')]" by code_simp
  with bridge_to_latest [OF c r] r show ?thesis by simp
qed

theorem reentrant_callback_hangs_witness:
  "bridge_step (\<lambda>f line. [Sends 1 ''again'']) Wakes (SendToArkTS 1 ''x'' (RegisterMessageCallback (Some 7) new_bridge)) = Inl NoReturn"
proof (rule reentrant_callback_hangs [of _ 7 "''1|x''"])
  show "bridge_ok (SendToArkTS 1 ''x'' (RegisterMessageCallback (Some 7) new_bridge))"
    by (simp add: bridge_ok_def SendToArkTS_def RegisterMessageCallback_def new_bridge_def)
  show "br_callback (SendToArkTS 1 ''x'' (RegisterMessageCallback (Some 7) new_bridge)) = Some 7" by code_simp
  show "''1|x'' \<in> set (br_queue (SendToArkTS 1 ''x'' (RegisterMessageCallback (Some 7) new_bridge)))" by code_simp
qed simp

theorem line_addressed_witness:
  "\<exists>sep. str_find ''|'' (bridge_line 12 ''a|b'') = Some sep \<and> drop (sep + 1) (bridge_line 12 ''a|b'') = ''a|b''"
  using line_addressed [of 12 "''a|b''"] by (auto simp: INT_MAX_def)

end
