(* ===== verification/RouteConfig.thy ===== *)
theory RouteConfig
  imports RouteInit
begin

text \<open>
  From the configuration to the routes: what \<open>Map::init\<close> makes of the segments of the interfaces, and
  which hosts therefore have a route, over which interfaces.
\<close>

definition segments :: "host_cfg \<Rightarrow> int set" where
  "segments h = ic_segment ` set (hc_interfaces h)"

definition share :: "host_cfg \<Rightarrow> host_cfg \<Rightarrow> bool" where
  "share g h \<longleftrightarrow> (\<exists>i \<in> set (hc_interfaces g). \<exists>j \<in> set (hc_interfaces h). ic_segment i = ic_segment j)"

text \<open>
  The weight of the link of two hosts: one when they share a segment, none otherwise, unless the \<open>map\<close> section names
  the pair in either order; its last entry for the pair decides.
\<close>

definition config_weight :: "config \<Rightarrow> host_cfg \<Rightarrow> host_cfg \<Rightarrow> int" where
  "config_weight cfg g h =
     fold (\<lambda>(s, d, w) v. if s = hc_name g \<and> d = hc_name h \<or> s = hc_name h \<and> d = hc_name g then w else v) (cf_map cfg)
       (if share g h then 1 else 0)"

text \<open>A chain of hosts with links of positive weight, and their total weight.\<close>

inductive chained :: "config \<Rightarrow> host_cfg \<Rightarrow> host_cfg \<Rightarrow> int \<Rightarrow> bool" for cfg g where
  self: "chained cfg g g 0"
| next_host: "chained cfg g h x \<Longrightarrow> h' \<in> set (cf_hosts cfg) \<Longrightarrow> h \<noteq> h' \<Longrightarrow> 0 < config_weight cfg h h' \<Longrightarrow>
    chained cfg g h' (x + config_weight cfg h h')"

text \<open>The hosts in the order of their numbers.\<close>

definition numbered :: "string \<Rightarrow> host_cfg list \<Rightarrow> host_cfg list" where
  "numbered l hs = filter (\<lambda>h. hc_name h = l) hs @ filter (\<lambda>h. hc_name h \<noteq> l) hs"

lemma set_numbered [simp]: "set (numbered l hs) = set hs"
  by (auto simp: numbered_def)

lemma length_numbered [simp]: "length (numbered l hs) = length hs"
  by (simp add: numbered_def sum_length_filter_compl)

lemma distinct_numbered: "distinct (map hc_name hs) \<Longrightarrow> distinct (map hc_name (numbered l hs))"
  by (auto simp: numbered_def distinct_map intro: inj_on_subset)

lemma numbered_local:
  assumes "distinct (map hc_name hs)" and "h \<in> set hs"
  shows "numbered (hc_name h) hs ! 0 = h" and "filter (\<lambda>g. hc_name g = hc_name h) hs = [h]"
proof -
  show f: "filter (\<lambda>g. hc_name g = hc_name h) hs = [h]"
    using assms
  proof (induction hs)
    case (Cons g gs)
    show ?case
    proof (cases "g = h")
      case True
      have "filter (\<lambda>x. hc_name x = hc_name h) gs = []"
        using Cons.prems(1) True by (auto simp: filter_empty_conv image_iff)
      then show ?thesis using True by simp
    next
      case False
      then have "h \<in> set gs" "hc_name g \<noteq> hc_name h" using Cons.prems by (auto simp: image_iff)
      then show ?thesis using Cons by simp
    qed
  qed simp
  show "numbered (hc_name h) hs ! 0 = h" by (simp add: numbered_def f)
qed

subsection \<open>The matrix\<close>

lemma interfaces_keep_links: "links (snd (add_interfaces k is s2i m)) = links m"
  by (induction "is" arbitrary: s2i m) simp_all

lemma host_keeps_links: "links (add_host k h m) = links m"
  using interfaces_keep_links [of k "hc_interfaces h" "[]"] by (simp add: add_host_def Let_def case_prod_beta)

lemma local_keeps_links: "links (init_local l hs m) = links m"
  by (induction hs) (simp_all add: host_keeps_links)

lemma others_keep_links: "links (snd (init_others l hs i m)) = links m"
  by (induction hs arbitrary: i m) (simp_all add: host_keeps_links)

lemma square_connect_all: "square n L \<Longrightarrow> square n (connect_all seg as L)"
proof (induction as arbitrary: L)
  case (Cons a as)
  have "square n M \<Longrightarrow> square n (fold (\<lambda>b. connect seg a b) bs M)" for bs M
    by (induction bs arbitrary: M) (simp_all add: connect_def)
  then show ?case using Cons by simp
qed simp

lemma square_segments: "square n L \<Longrightarrow> square n (fold (\<lambda>(seg, value) L. connect_all seg value L) svs L)"
  by (induction svs arbitrary: L) (auto simp: square_connect_all)

subsection \<open>What the two loops over the hosts build\<close>

definition members :: "(int, nat list) umap \<Rightarrow> int \<Rightarrow> nat set" where
  "members M s = set (um_at [] M s)"

lemma members_push: "members (push_node k seg M) s = members M s \<union> (if s = seg then {k} else {})"
  by (auto simp: members_def push_node_def um_index_def um_at_def split: option.splits)

lemma push_node_wf: "um_wf M \<Longrightarrow> um_wf (push_node k seg M)"
  by (simp add: push_node_def um_index_def split: option.split)

definition names_of :: "iface_cfg list \<Rightarrow> (int, string) umap \<Rightarrow> bool" where
  "names_of is t \<longleftrightarrow> (\<forall>s a. um_find t s = Some a \<longrightarrow> (\<exists>i \<in> set is. ic_segment i = s \<and> ic_name i = a)) \<and>
     (\<forall>i \<in> set is. um_find t (ic_segment i) \<noteq> None)"

lemma interfaces_members:
  assumes "add_interfaces k is s2i m = (t, m')"
  shows "members (segment2node m') s = members (segment2node m) s \<union> (if s \<in> ic_segment ` set is then {k} else {})"
    and "um_wf (segment2node m) \<Longrightarrow> um_wf (segment2node m')"
    and "key2node m' = key2node m" and "segment2interface m' = segment2interface m"
    and "names_of js s2i \<Longrightarrow> names_of (js @ is) t"
proof -
  have "members (segment2node m') s = members (segment2node m) s \<union> (if s \<in> ic_segment ` set is then {k} else {}) \<and>
    (um_wf (segment2node m) \<longrightarrow> um_wf (segment2node m')) \<and> key2node m' = key2node m \<and>
    segment2interface m' = segment2interface m \<and> (names_of js s2i \<longrightarrow> names_of (js @ is) t)"
    using assms
  proof (induction "is" arbitrary: s2i m js)
    case (Cons i "is")
    have n: "names_of js s2i \<longrightarrow> names_of (js @ [i]) (um_put (ic_segment i) (ic_name i) s2i)"
      by (auto simp: names_of_def)
    from Cons.IH [of _ _ "js @ [i]"] Cons.prems n show ?case
      by (auto simp: members_push push_node_wf)
  qed simp
  then show "members (segment2node m') s = members (segment2node m) s \<union> (if s \<in> ic_segment ` set is then {k} else {})"
    "um_wf (segment2node m) \<Longrightarrow> um_wf (segment2node m')" "key2node m' = key2node m"
    "segment2interface m' = segment2interface m" "names_of js s2i \<Longrightarrow> names_of (js @ is) t" by blast+
qed

text \<open>The tables describe the hosts of a list, numbered by their positions.\<close>

definition describes :: "host_cfg list \<Rightarrow> route_map \<Rightarrow> bool" where
  "describes hs m \<longleftrightarrow> um_wf (segment2node m) \<and>
     (\<forall>s k. k \<in> members (segment2node m) s \<longleftrightarrow> k < length hs \<and> s \<in> segments (hs ! k)) \<and>
     (\<forall>k < length hs. um_find (key2node m) k = Some (hc_name (hs ! k))) \<and>
     length (segment2interface m) = length hs \<and>
     (\<forall>k < length hs. names_of (hc_interfaces (hs ! k)) (segment2interface m ! k)) \<and> links m = []"

lemma describes_add:
  assumes "describes hs m"
  shows "describes (hs @ [h]) (add_host (length hs) h m)"
proof -
  let ?m = "m\<lparr>key2node := um_put (length hs) (hc_name h) (key2node m),
              node2key := um_put (hc_name h) (length hs) (node2key m)\<rparr>"
  obtain t m' where a: "add_interfaces (length hs) (hc_interfaces h) [] ?m = (t, m')" by fastforce
  have l: "links m' = links m" using interfaces_keep_links [of "length hs" "hc_interfaces h" "[]" ?m] a by simp
  have e: "add_host (length hs) h m = m'\<lparr>segment2interface := segment2interface m' @ [t]\<rparr>"
    using a by (simp add: add_host_def Let_def)
  have t: "names_of (hc_interfaces h) t" using interfaces_members(5) [OF a, of "[]"] by (simp add: names_of_def)
  note i = interfaces_members(1-4) [OF a]
  show ?thesis
    using assms t i(2) l unfolding describes_def e
    by (auto simp: i(1,3,4) segments_def nth_append less_Suc_eq split: if_splits)
qed

lemma describes_local:
  assumes "distinct (map hc_name hs)" and "h \<in> set hs"
  shows "describes [h] (init_local (hc_name h) hs empty_map)"
  using assms
proof (induction hs)
  case (Cons g gs)
  have "describes [] empty_map" by (simp add: describes_def empty_map_def members_def um_at_def)
  then have "describes [g] (add_host 0 g empty_map)" using describes_add [of "[]" empty_map g] by simp
  moreover have "g = h" if "hc_name g = hc_name h" using Cons.prems that by (auto simp: image_iff)
  ultimately show ?case using Cons by auto
qed simp

lemma describes_others:
  assumes "describes gs m" and "length gs = Suc i" and "init_others l hs i m = (i', m')"
  shows "describes (gs @ filter (\<lambda>h. hc_name h \<noteq> l) hs) m' \<and> Suc i' = length (gs @ filter (\<lambda>h. hc_name h \<noteq> l) hs)"
  using assms
proof (induction hs arbitrary: gs i m)
  case (Cons h hs)
  show ?case
  proof (cases "hc_name h = l")
    case False
    then show ?thesis
      using Cons.IH [of "gs @ [h]" "add_host (Suc i) h m" "Suc i"] Cons.prems describes_add [OF Cons.prems(1), of h] by simp
  qed (use Cons in simp)
qed simp

subsection \<open>The links\<close>

definition seg_link :: "int \<Rightarrow> link" where
  "seg_link s = \<lparr>segment = s, weight = 1, initWeight = 1\<rparr>"

lemma get_connect:
  assumes "square n L" and "a < n" and "b < n"
  shows "get_link (connect seg a b L) x y =
    (if x = a \<and> y = b \<or> x = b \<and> y = a then seg_link seg else get_link L x y)"
  unfolding connect_def get_upd_link [OF square_upd [OF assms(1)] assms(3,2)] get_upd_link [OF assms]
  by (auto simp only: seg_link_def split: if_splits)

lemma square_connect: "square n L \<Longrightarrow> square n (connect seg a b L)"
  by (simp add: connect_def)

lemma get_connects:
  assumes "square n L" and "a < n" and "\<forall>b \<in> set bs. b < n"
  shows "get_link (fold (\<lambda>b. connect seg a b) bs L) x y =
    (if x = a \<and> y \<in> set bs \<or> x \<in> set bs \<and> y = a then seg_link seg else get_link L x y)"
  using assms by (induction bs arbitrary: L) (auto simp: get_connect [of n] square_connect)

lemma get_connect_all:
  assumes "square n L" and "\<forall>b \<in> set as. b < n" and "x \<noteq> y"
  shows "get_link (connect_all seg as L) x y =
    (if x \<in> set as \<and> y \<in> set as then seg_link seg else get_link L x y)"
  using assms
proof (induction as arbitrary: L)
  case (Cons a as)
  have "square n (fold (\<lambda>b. connect seg a b) as L)"
    using Cons.prems(1) by (induction as arbitrary: L) (simp_all add: square_connect)
  then show ?case using Cons.IH Cons.prems get_connects [OF Cons.prems(1), of a as seg x y] by auto
qed simp

lemma get_segments:
  assumes "square n L" and "\<forall>sv \<in> set svs. \<forall>b \<in> set (snd sv). b < n" and "x \<noteq> y"
    and "L' = fold (\<lambda>(seg, value) L. connect_all seg value L) svs L"
  shows "if \<exists>(s, v) \<in> set svs. x \<in> set v \<and> y \<in> set v
    then \<exists>(s, v) \<in> set svs. x \<in> set v \<and> y \<in> set v \<and> get_link L' x y = seg_link s
    else get_link L' x y = get_link L x y"
  using assms(1,2,4)
proof (induction svs arbitrary: L)
  case (Cons sv svs)
  obtain s v where sv: "sv = (s, v)" by (cases sv)
  let ?L = "connect_all s v L"
  have "if \<exists>(s, v) \<in> set svs. x \<in> set v \<and> y \<in> set v
    then \<exists>(s, v) \<in> set svs. x \<in> set v \<and> y \<in> set v \<and> get_link L' x y = seg_link s
    else get_link L' x y = get_link ?L x y"
    by (rule Cons.IH) (use Cons.prems sv square_connect_all in auto)
  then show ?case
    using get_connect_all [OF Cons.prems(1) _ assms(3), of v s] Cons.prems(2) sv
    by (auto split: if_splits)
qed simp

text \<open>The diagonal aside, a link is there exactly for two hosts with a common segment, and names one.\<close>

lemma weights01_connect_all:
  assumes "square n L" and "\<forall>b \<in> set as. b < n" and "\<forall>x y. x < n \<longrightarrow> y < n \<longrightarrow> wt L x y \<in> {0, 1}"
  shows "\<forall>x y. x < n \<longrightarrow> y < n \<longrightarrow> wt (connect_all seg as L) x y \<in> {0, 1}"
  using assms
proof (induction as arbitrary: L)
  case (Cons a as)
  have "square n (fold (\<lambda>b. connect seg a b) as L)"
    using Cons.prems(1) by (induction as arbitrary: L) (simp_all add: square_connect)
  moreover have "\<forall>x y. x < n \<longrightarrow> y < n \<longrightarrow> wt (fold (\<lambda>b. connect seg a b) as L) x y \<in> {0, 1}"
    using Cons.prems by (auto simp: get_connects [OF Cons.prems(1)] seg_link_def)
  ultimately show ?case using Cons.IH Cons.prems(2) by simp
qed simp

lemma weights01_segments:
  assumes "square n L" and "\<forall>sv \<in> set svs. \<forall>b \<in> set (snd sv). b < n" and "\<forall>x y. x < n \<longrightarrow> y < n \<longrightarrow> wt L x y \<in> {0, 1}"
  shows "\<forall>x y. x < n \<longrightarrow> y < n \<longrightarrow> wt (fold (\<lambda>(seg, value) L. connect_all seg value L) svs L) x y \<in> {0, 1}"
  using assms
proof (induction svs arbitrary: L)
  case (Cons sv svs)
  then show ?case
    using weights01_connect_all [of n L "snd sv" "fst sv"] square_connect_all [of n L "fst sv" "snd sv"]
    by (cases sv) simp
qed simp

lemma share_segments: "share g h \<longleftrightarrow> segments g \<inter> segments h \<noteq> {}"
  by (auto simp: share_def segments_def)

lemma members_entry:
  assumes "um_wf M"
  shows "(\<exists>(s, v) \<in> set M. x \<in> set v \<and> y \<in> set v \<and> P s) \<longleftrightarrow> (\<exists>s. x \<in> members M s \<and> y \<in> members M s \<and> P s)"
proof -
  have "x \<in> members M s \<longleftrightarrow> (\<exists>v. (s, v) \<in> set M \<and> x \<in> set v)" for x s
    using um_find_mem [OF assms, of s] by (cases "um_find M s") (auto simp: members_def um_at_def)
  moreover have "v = w" if "(s, v) \<in> set M" "(s, w) \<in> set M" for s v w
    using that um_find_mem [OF assms, of s] by simp
  ultimately show ?thesis by blast
qed

definition matches :: "host_cfg list \<Rightarrow> route_map \<Rightarrow> bool" where
  "matches ns m \<longleftrightarrow> length (links m) = length ns \<and>
     (\<forall>x < length ns. \<forall>y < length ns. wt (links m) x y \<in> {0, 1}) \<and>
     (\<forall>x < length ns. \<forall>y < length ns. x \<noteq> y \<longrightarrow>
        (if share (ns ! x) (ns ! y)
         then wt (links m) x y = 1 \<and> segment (get_link (links m) x y) \<in> segments (ns ! x) \<inter> segments (ns ! y)
         else wt (links m) x y = 0)) \<and>
     (\<forall>k < length ns. host_name m k = hc_name (ns ! k) \<and> names_of (hc_interfaces (ns ! k)) (segment2interface m ! k))"

lemma describes_matches:
  assumes "describes ns m" and "L0 = replicate (length ns) (replicate (length ns) no_link)"
    and "L = fold (\<lambda>(seg, value) L. connect_all seg value L) (segment2node m) L0"
  shows "matches ns (m\<lparr>links := L\<rparr>)"
proof -
  let ?n = "length ns"
  have wf: "um_wf (segment2node m)" and mem: "\<And>s k. k \<in> members (segment2node m) s \<longleftrightarrow> k < ?n \<and> s \<in> segments (ns ! k)"
    using assms(1) by (simp_all add: describes_def)
  have sq: "square ?n L0" using assms(2) by (auto simp: square_def)
  have z: "get_link L0 x y = no_link" if "x < ?n" "y < ?n" for x y
    using that assms(2) by (simp add: get_link_def)
  have bound: "\<forall>sv \<in> set (segment2node m). \<forall>b \<in> set (snd sv). b < ?n"
  proof (intro ballI)
    fix sv b assume "sv \<in> set (segment2node m)" "b \<in> set (snd sv)"
    then have "\<exists>(s, v) \<in> set (segment2node m). b \<in> set v \<and> b \<in> set v \<and> True"
      by (intro bexI [of _ sv]) (auto simp: case_prod_beta)
    then show "b < ?n" using members_entry [OF wf, of b b "\<lambda>_. True"] mem by auto
  qed
  have "square ?n L" unfolding assms(3) by (rule square_segments [OF sq])
  moreover have "\<forall>x y. x < ?n \<longrightarrow> y < ?n \<longrightarrow> wt L x y \<in> {0, 1}"
    unfolding assms(3) by (rule weights01_segments [OF sq bound]) (simp add: z no_link_def)
  moreover have "\<forall>x < ?n. \<forall>y < ?n. x \<noteq> y \<longrightarrow> (if share (ns ! x) (ns ! y)
      then wt L x y = 1 \<and> segment (get_link L x y) \<in> segments (ns ! x) \<inter> segments (ns ! y)
      else wt L x y = 0)"
  proof (intro allI impI)
    fix x y assume xy: "x < ?n" "y < ?n" "x \<noteq> y"
    have s: "share (ns ! x) (ns ! y) \<longleftrightarrow> (\<exists>s. x \<in> members (segment2node m) s \<and> y \<in> members (segment2node m) s)"
      using xy mem by (auto simp: share_segments)
    note g = get_segments [OF sq bound xy(3) assms(3)]
    show "if share (ns ! x) (ns ! y)
      then wt L x y = 1 \<and> segment (get_link L x y) \<in> segments (ns ! x) \<inter> segments (ns ! y)
      else wt L x y = 0"
    proof (cases "share (ns ! x) (ns ! y)")
      case True
      then have "\<exists>(s, v) \<in> set (segment2node m). x \<in> set v \<and> y \<in> set v"
        using s members_entry [OF wf, of x y "\<lambda>_. True"] by auto
      then have "\<exists>(s, v) \<in> set (segment2node m). x \<in> set v \<and> y \<in> set v \<and> get_link L x y = seg_link s"
        using g by simp
      then obtain s where "x \<in> members (segment2node m) s" "y \<in> members (segment2node m) s" "get_link L x y = seg_link s"
        using members_entry [OF wf, of x y "\<lambda>s. get_link L x y = seg_link s"] by blast
      then show ?thesis using True mem by (simp add: seg_link_def)
    next
      case False
      then have "\<not> (\<exists>(s, v) \<in> set (segment2node m). x \<in> set v \<and> y \<in> set v)"
        using s members_entry [OF wf, of x y "\<lambda>_. True"] by auto
      then show ?thesis using g z [OF xy(1,2)] False by (simp add: no_link_def)
    qed
  qed
  moreover have l: "links (m\<lparr>links := L\<rparr>) = L" by simp
  ultimately show ?thesis
    using assms(1) unfolding matches_def describes_def square_def l
    by (intro conjI) (simp_all add: host_name_def um_at_def split del: if_split)
qed

subsection \<open>The map section\<close>

lemma get_set_both_idem:
  assumes "square n L" and "a < n" and "b < n" and "\<And>l. f (f l) = f l"
  shows "get_link (set_both f a b L) x y =
    (if x = a \<and> y = b \<or> x = b \<and> y = a then f (get_link L x y) else get_link L x y)"
proof (cases "a = b")
  case True
  have s: "square n (upd_link f a a L)" by (rule square_upd [OF assms(1)])
  show ?thesis
    unfolding set_both_def True [symmetric] get_upd_link [OF s assms(2,2)] get_upd_link [OF assms(1,2,2)]
    by (auto simp: assms(4))
qed (rule get_set_both [OF assms(1-3)])

definition named_pair :: "(string \<Rightarrow> nat) \<Rightarrow> string \<Rightarrow> string \<Rightarrow> nat \<Rightarrow> nat \<Rightarrow> bool" where
  "named_pair key s d x y \<longleftrightarrow> key s = x \<and> key d = y \<or> key d = x \<and> key s = y"

text \<open>The section changes weights only: those of the pairs that it names, and nothing else of the table.\<close>

lemma apply_map_links:
  assumes "square n (links m)"
    and "\<forall>(s, d, w) \<in> set es. \<exists>a < n. \<exists>b < n. um_find (node2key m) s = Some a \<and> um_find (node2key m) d = Some b"
  shows "square n (links (apply_map es m)) \<and>
    key2node (apply_map es m) = key2node m \<and> segment2interface (apply_map es m) = segment2interface m \<and>
    segment (get_link (links (apply_map es m)) x y) = segment (get_link (links m) x y) \<and>
    wt (links (apply_map es m)) x y =
      fold (\<lambda>(s, d, w) v. if named_pair (um_at 0 (node2key m)) s d x y then w else v) es (wt (links m) x y)"
  using assms
proof (induction es arbitrary: m)
  case (Cons e es)
  obtain s d w where e: "e = (s, d, w)" by (cases e)
  obtain a b where ab: "a < n" "b < n" "um_find (node2key m) s = Some a" "um_find (node2key m) d = Some b"
    using Cons.prems(2) by (auto simp: e)
  define f :: "link \<Rightarrow> link" where "f = (\<lambda>l. l\<lparr>weight := w, initWeight := w\<rparr>)"
  define m1 where "m1 = m\<lparr>links := set_both f a b (links m)\<rparr>"
  have m1: "apply_map (e # es) m = apply_map es m1"
    by (simp add: e um_index_known [OF ab(3)] um_index_known [OF ab(4)] m1_def f_def)
  have sel: "node2key m1 = node2key m" "key2node m1 = key2node m" "segment2interface m1 = segment2interface m"
    "links m1 = set_both f a b (links m)" by (simp_all add: m1_def)
  have sq: "square n (links m1)" unfolding sel by (rule square_set_both [OF Cons.prems(1)])
  have g: "get_link (links m1) x y = (if x = a \<and> y = b \<or> x = b \<and> y = a then f (get_link (links m) x y) else get_link (links m) x y)"
    unfolding sel by (rule get_set_both_idem [OF Cons.prems(1) ab(1,2)]) (simp add: f_def)
  have "wt (links m1) x y = (if named_pair (um_at 0 (node2key m)) s d x y then w else wt (links m) x y)"
    "segment (get_link (links m1) x y) = segment (get_link (links m) x y)"
    using g ab(3,4) by (auto simp: named_pair_def um_at_def f_def)
  moreover have "\<forall>(s, d, w) \<in> set es. \<exists>a < n. \<exists>b < n. um_find (node2key m1) s = Some a \<and> um_find (node2key m1) d = Some b"
    unfolding sel using Cons.prems(2) by simp
  ultimately show ?case
    using Cons.IH [OF sq] unfolding m1 by (simp add: sel e)
qed simp

text \<open>The table of a configuration, with the hosts numbered as in the list.\<close>

definition weighted :: "config \<Rightarrow> host_cfg list \<Rightarrow> route_map \<Rightarrow> bool" where
  "weighted cfg ns m \<longleftrightarrow> length (links m) = length ns \<and>
     (\<forall>x < length ns. \<forall>y < length ns. x \<noteq> y \<longrightarrow>
        wt (links m) x y = config_weight cfg (ns ! x) (ns ! y) \<and>
        (share (ns ! x) (ns ! y) \<longrightarrow> segment (get_link (links m) x y) \<in> segments (ns ! x) \<inter> segments (ns ! y))) \<and>
     (\<forall>k < length ns. host_name m k = hc_name (ns ! k) \<and> names_of (hc_interfaces (ns ! k)) (segment2interface m ! k))"

text \<open>The configurations considered: the \<open>map\<close> section names hosts, joins only such as share a segment, and its weights fit.\<close>

definition config_fits :: "config \<Rightarrow> bool" where
  "config_fits cfg \<longleftrightarrow> distinct (map hc_name (cf_hosts cfg)) \<and> int (length (cf_hosts cfg)) + 1 < INT_MAX \<and>
     (\<forall>(s, d, w) \<in> set (cf_map cfg). s \<in> hc_name ` set (cf_hosts cfg) \<and> d \<in> hc_name ` set (cf_hosts cfg) \<and>
        (int (length (cf_hosts cfg)) + 1) * w < INT_MAX) \<and>
     (\<forall>g \<in> set (cf_hosts cfg). \<forall>h \<in> set (cf_hosts cfg). g \<noteq> h \<longrightarrow> 0 < config_weight cfg g h \<longrightarrow> share g h)"

lemma init_weighted:
  assumes "config_fits cfg" and "loc \<in> set (cf_hosts cfg)"
  shows "weighted cfg (numbered (hc_name loc) (cf_hosts cfg)) (map_init cfg (hc_name loc) empty_map)"
    and "weights_fit (links (map_init cfg (hc_name loc) empty_map))"
proof -
  let ?l = "hc_name loc" and ?hs = "cf_hosts cfg" and ?m = "map_init cfg (hc_name loc) empty_map"
  define ns where "ns = numbered ?l ?hs"
  let ?n = "length ns"
  have dist: "distinct (map hc_name ?hs)" using assms(1) by (simp add: config_fits_def)
  obtain i m' where o: "init_others ?l ?hs 0 (init_local ?l ?hs empty_map) = (i, m')" by fastforce
  have "ns = [loc] @ filter (\<lambda>h. hc_name h \<noteq> ?l) ?hs"
    using numbered_local(2) [OF dist assms(2)] by (simp add: ns_def numbered_def)
  then have d: "describes ns m'" "Suc i = ?n"
    using describes_others [OF describes_local [OF dist assms(2)] _ o] by simp_all
  have "built (Suc i) m'"
    using init_others_built [of 0 "init_local ?l ?hs empty_map" ?hs ?l] init_local_built [of ?l ?hs] dist assms(2) o by simp
  then have key: "um_find (node2key m') h = Some v \<longleftrightarrow> um_find (key2node m') v = Some h" for h v by (simp add: built_def)
  define L where "L = fold (\<lambda>(seg, value) L. connect_all seg value L) (segment2node m') (replicate ?n (replicate ?n no_link))"
  define m1 where "m1 = m'\<lparr>links := L\<rparr>"
  have r: "map (resize no_link (i + 1)) (resize [] (i + 1) (links m')) = replicate ?n (replicate ?n no_link)"
    using d by (simp add: describes_def resize_def)
  have m: "?m = apply_map (cf_map cfg) m1"
    unfolding map_init_def Let_def o split_conv r L_def m1_def by simp
  have b: "matches ns m1" unfolding m1_def by (rule describes_matches [OF d(1) refl L_def])
  have "square ?n (replicate ?n (replicate ?n no_link))" by (auto simp: square_def)
  from square_segments [OF this] have sq: "square ?n (links m1)" by (simp add: m1_def L_def)
  have name: "um_find (key2node m1) k = Some (hc_name (ns ! k))" if "k < ?n" for k
    using d(1) that by (simp add: describes_def m1_def)
  have node: "\<exists>a < ?n. um_find (node2key m1) h = Some a" if h: "h \<in> hc_name ` set ?hs" for h
  proof -
    obtain g where "g \<in> set ns" "hc_name g = h" using h by (auto simp: ns_def)
    then obtain a where a: "a < ?n" "hc_name (ns ! a) = h" by (auto simp: in_set_conv_nth)
    then have "um_find (node2key m1) h = Some a" using name [OF a(1)] key by (simp add: m1_def)
    then show ?thesis using a(1) by blast
  qed
  have entry: "\<exists>a < ?n. \<exists>b < ?n. um_find (node2key m1) s = Some a \<and> um_find (node2key m1) t = Some b"
    if "(s, t, w) \<in> set (cf_map cfg)" for s t w
  proof -
    have "s \<in> hc_name ` set ?hs" "t \<in> hc_name ` set ?hs" using assms(1) that by (auto simp: config_fits_def)
    from this [THEN node] show ?thesis by blast
  qed
  then have known: "\<forall>(s, t, w) \<in> set (cf_map cfg). \<exists>a < ?n. \<exists>b < ?n. um_find (node2key m1) s = Some a \<and> um_find (node2key m1) t = Some b"
    by blast
  note links = apply_map_links [OF sq known, folded m]
  have is_name: "um_at 0 (node2key m1) s = x \<longleftrightarrow> s = hc_name (ns ! x)" if "x < ?n" "um_find (node2key m1) s = Some a" for s x a
  proof -
    have key1: "um_find (node2key m1) g = Some v \<longleftrightarrow> um_find (key2node m1) v = Some g" for g v using key by (simp add: m1_def)
    have "um_at 0 (node2key m1) s = a" using that(2) by (simp add: um_at_def)
    moreover have "a = x \<longleftrightarrow> s = hc_name (ns ! x)"
      using that(2) name [OF that(1)] key1 [of s a] key1 [of "hc_name (ns ! x)" x] by auto
    ultimately show ?thesis by simp
  qed
  have w: "wt (links ?m) x y = config_weight cfg (ns ! x) (ns ! y)" if xy: "x < ?n" "y < ?n" "x \<noteq> y" for x y
  proof -
    have base: "wt (links m1) x y = (if share (ns ! x) (ns ! y) then 1 else 0)"
      using b xy unfolding matches_def by (metis (full_types))
    have pair: "named_pair (um_at 0 (node2key m1)) s t x y \<longleftrightarrow>
        s = hc_name (ns ! x) \<and> t = hc_name (ns ! y) \<or> s = hc_name (ns ! y) \<and> t = hc_name (ns ! x)"
      if "(s, t, w) \<in> set (cf_map cfg)" for s t w
      using entry [OF that] is_name [OF xy(1)] is_name [OF xy(2)] unfolding named_pair_def by blast
    show ?thesis
      using links [of x y] unfolding config_weight_def base
      by (auto intro!: fold_cong simp: pair)
  qed
  moreover have "host_name ?m k = hc_name (ns ! k) \<and> names_of (hc_interfaces (ns ! k)) (segment2interface ?m ! k)" if "k < ?n" for k
    using b links that by (simp add: matches_def host_name_def)
  moreover have "segment (get_link (links ?m) x y) \<in> segments (ns ! x) \<inter> segments (ns ! y)"
    if "x < ?n" "y < ?n" "x \<noteq> y" "share (ns ! x) (ns ! y)" for x y
    using b that links [of x y] unfolding matches_def by (metis (full_types))
  moreover have "length (links ?m) = ?n" using links by (simp add: square_def)
  ultimately show "weighted cfg (numbered ?l ?hs) ?m" unfolding weighted_def ns_def by blast
  have range: "fold (\<lambda>(s, t, w) v. if named_pair key s t x y then w else v) es v \<in> insert v ((\<lambda>(s, t, w). w) ` set es)" for key x y es v
    by (induction es arbitrary: v) (force split: if_splits)+
  have "(int ?n + 1) * wt (links ?m) x y < INT_MAX" if "x < ?n" "y < ?n" for x y
  proof -
    have "wt (links ?m) x y \<in> insert (wt (links m1) x y) ((\<lambda>(s, t, w). w) ` set (cf_map cfg))"
      using links [of x y] range by metis
    moreover have "wt (links m1) x y \<in> {0, 1}" using b that by (simp add: matches_def)
    ultimately show ?thesis
      using assms(1) by (auto simp: config_fits_def ns_def INT_MAX_def)
  qed
  then show "weights_fit (links ?m)" using links by (simp add: weights_fit_def square_def)
qed

subsection \<open>Chains of hosts are paths\<close>

lemma path_chained:
  assumes "weighted cfg ns m" and "set ns = set (cf_hosts cfg)" and "path (wt (links m)) (length ns) c i x"
  shows "\<exists>y \<le> x. chained cfg (ns ! c) (ns ! i) y"
  using assms(3)
proof (induction rule: path.induct)
  case here
  show ?case by (rule exI [of _ 0]) (simp add: chained.self)
next
  case (link v x v')
  obtain y where y: "y \<le> x" "chained cfg (ns ! c) (ns ! v) y" using link(4) by blast
  have v: "v < length ns" by (rule path_bound [OF link(1)])
  show ?case
  proof (cases "ns ! v = ns ! v'")
    case True
    then show ?thesis using y link(3) by (intro exI [of _ y]) simp
  next
    case False
    then have w: "wt (links m) v v' = config_weight cfg (ns ! v) (ns ! v')" using assms(1) v link(2) by (auto simp: weighted_def)
    have "ns ! v' \<in> set (cf_hosts cfg)" using nth_mem [OF link(2)] assms(2) by simp
    from chained.next_host [OF y(2) this False] link(3) y(1) show ?thesis unfolding w by (intro exI conjI) simp_all
  qed
qed

lemma chained_path:
  assumes "weighted cfg ns m" and "set ns = set (cf_hosts cfg)" and "c < length ns" and "chained cfg (ns ! c) h x"
  shows "\<exists>i < length ns. ns ! i = h \<and> path (wt (links m)) (length ns) c i x"
  using assms(4)
proof (induction rule: chained.induct)
  case self
  then show ?case using path.here [of c "length ns"] assms(3) by blast
next
  case (next_host h x h')
  then obtain i where i: "i < length ns" "ns ! i = h" "path (wt (links m)) (length ns) c i x" by blast
  obtain j where j: "j < length ns" "ns ! j = h'" using next_host(2) assms(2) by (metis in_set_conv_nth)
  have "wt (links m) i j = config_weight cfg h h'" using assms(1) i j next_host(3) by (auto simp: weighted_def)
  with path.link [OF i(3) j(1)] next_host(4) j show ?case by auto
qed

text \<open>An entry names an interface of the local host and one of a neighbour, on one segment.\<close>

lemma hop_interfaces:
  assumes "weighted cfg ns m" and "0 < c" and "c < length ns" and "share (ns ! 0) (ns ! c)"
  shows "\<exists>i \<in> set (hc_interfaces (ns ! 0)). \<exists>j \<in> set (hc_interfaces (ns ! c)).
    ic_segment i = ic_segment j \<and> hop m c = (ic_name i, ic_name j)"
proof -
  let ?s = "segment (get_link (links m) 0 c)"
  have len: "0 < length ns" using assms(2,3) by linarith
  have s: "?s \<in> segments (ns ! 0)" "?s \<in> segments (ns ! c)"
    using assms len unfolding weighted_def by blast+
  have n: "\<exists>i \<in> set (hc_interfaces (ns ! k)). ic_segment i = s \<and> um_at [] (segment2interface m ! k) s = ic_name i"
    if "k < length ns" "s \<in> segments (ns ! k)" for k s
  proof -
    have "names_of (hc_interfaces (ns ! k)) (segment2interface m ! k)" using assms(1) that(1) by (simp add: weighted_def)
    then show ?thesis using that(2) by (fastforce simp: names_of_def segments_def um_at_def split: option.split)
  qed
  obtain i j where "i \<in> set (hc_interfaces (ns ! 0))" "ic_segment i = ?s" "um_at [] (segment2interface m ! 0) ?s = ic_name i"
    "j \<in> set (hc_interfaces (ns ! c))" "ic_segment j = ?s" "um_at [] (segment2interface m ! c) ?s = ic_name j"
    using n [OF len s(1)] n [OF assms(3) s(2)] by blast
  then show ?thesis by (intro bexI [of _ i] bexI [of _ j]) (simp_all add: hop_def)
qed

lemma index_unique: "distinct (map f xs) \<Longrightarrow> i < length xs \<Longrightarrow> j < length xs \<Longrightarrow> xs ! i = xs ! j \<Longrightarrow> i = j"
  using nth_eq_iff_index_eq [of xs i j] by (simp add: distinct_map)

lemma entry_of_index:
  assumes "weighted cfg ns m" and "map_wf m" and "getRoute m = Inr route" and "distinct (map hc_name ns)"
    and "set ns = set (cf_hosts cfg)"
    and "\<forall>i. 0 < i \<longrightarrow> i < length (links m) \<longrightarrow> (\<exists>x. reachable m i x) \<longrightarrow> um_find route (host_name m i) \<noteq> None"
    and "0 < k" and "k < length ns"
  shows "if \<exists>x. chained cfg (ns ! 0) (ns ! k) x
    then \<exists>c y. 0 < c \<and> c < length ns \<and> 0 < wt (links m) 0 c \<and> chained cfg (ns ! c) (ns ! k) y \<and>
      (\<forall>x. chained cfg (ns ! 0) (ns ! k) x \<longrightarrow> wt (links m) 0 c + y \<le> x) \<and> um_find route (hc_name (ns ! k)) = Some (hop m c)
    else um_find route (hc_name (ns ! k)) = None"
proof -
  have len: "length (links m) = length ns" and name: "host_name m k = hc_name (ns ! k)"
    using assms(1,8) by (simp_all add: weighted_def)
  have k: "k < length (links m)" and zero: "0 < length ns" using assms(8) len by auto
  note e = getRoute_entry [OF assms(2,3,7) k]
  have reach: "reachable m k x" if c: "chained cfg (ns ! 0) (ns ! k) x" for x
  proof -
    obtain i where i: "i < length ns" "ns ! i = ns ! k" "path (wt (links m)) (length ns) 0 i x"
      using chained_path [OF assms(1,5) zero c] by blast
    have "i = k" by (rule index_unique [OF assms(4) i(1) assms(8) i(2)])
    then show ?thesis using i(3) len by (simp add: reachable_def)
  qed
  show ?thesis
  proof (cases "\<exists>x. chained cfg (ns ! 0) (ns ! k) x")
    case True
    then have "\<exists>x. reachable m k x" using reach by blast
    then have "um_find route (host_name m k) \<noteq> None" using assms(6,7) k by blast
    then have "\<exists>y < INT_MAX. reachable m k y" using e(2) by metis
    then obtain z where "z < INT_MAX" "reachable m k z" by blast
    from e(1) [OF this(2,1)] obtain c y where c: "0 < c" "c < length ns" "0 < wt (links m) 0 c" "path (wt (links m)) (length ns) c k y"
      "\<forall>z. reachable m k z \<longrightarrow> wt (links m) 0 c + y \<le> z" "um_find route (hc_name (ns ! k)) = Some (hop m c)"
      unfolding len name by blast
    obtain y' where "y' \<le> y" "chained cfg (ns ! c) (ns ! k) y'" using path_chained [OF assms(1,5) c(4)] by blast
    then show ?thesis unfolding if_P [OF True] using c reach by (fastforce intro!: exI [of _ c] exI [of _ y'])
  next
    case False
    then have "\<not> reachable m k x" for x
      using path_chained [OF assms(1,5), of 0 k x] len by (auto simp: reachable_def)
    then show ?thesis using e(2) False name by auto
  qed
qed

text \<open>
  C14: The routes are those of the configuration. Hosts have different names; the \<open>map\<close> section names known hosts,
  joins only hosts that share a segment, and its weights are small enough not to overflow. Then \<open>getRoute\<close> after \<open>init\<close>
  returns, and it has an entry for exactly those other hosts that a chain of links of positive weight joins to the local one,
  a link weighing one where two hosts share a segment or what the \<open>map\<close> section says. The entry names an interface of the
  local host and one of a neighbour on the same segment, and a chain of the least total weight goes through this neighbour.
\<close>

theorem routes_of_configuration:
  assumes "config_fits cfg" and "loc \<in> set (cf_hosts cfg)"
  shows "\<exists>route. getRoute (map_init cfg (hc_name loc) empty_map) = Inr route \<and>
    (\<forall>h \<in> set (cf_hosts cfg). h \<noteq> loc \<longrightarrow>
      (if \<exists>x. chained cfg loc h x
       then \<exists>g \<in> set (cf_hosts cfg). \<exists>i \<in> set (hc_interfaces loc). \<exists>j \<in> set (hc_interfaces g). \<exists>y.
         g \<noteq> loc \<and> ic_segment i = ic_segment j \<and> um_find route (hc_name h) = Some (ic_name i, ic_name j) \<and>
         0 < config_weight cfg loc g \<and> chained cfg g h y \<and> (\<forall>x. chained cfg loc h x \<longrightarrow> config_weight cfg loc g + y \<le> x)
       else um_find route (hc_name h) = None))"
proof -
  let ?hs = "cf_hosts cfg" and ?m = "map_init cfg (hc_name loc) empty_map"
  have dist: "distinct (map hc_name ?hs)" using assms(1) by (simp add: config_fits_def)
  define ns where "ns = numbered (hc_name loc) ?hs"
  have ns: "set ns = set ?hs" "distinct (map hc_name ns)" "ns ! 0 = loc" "length ns = length ?hs"
    unfolding ns_def by (rule set_numbered distinct_numbered [OF dist] numbered_local(1) [OF dist assms(2)] length_numbered)+
  have m: "weighted cfg ns ?m" unfolding ns_def by (rule init_weighted(1) [OF assms])
  have wf: "map_wf ?m" using map_init_wf(1) [OF dist, of "hc_name loc"] assms(2) by simp
  obtain route where r: "getRoute ?m = Inr route"
    "\<forall>i. 0 < i \<longrightarrow> i < length (links ?m) \<longrightarrow> (\<exists>x. reachable ?m i x) \<longrightarrow> um_find route (host_name ?m i) \<noteq> None"
    using getRoute_fits [OF wf init_weighted(2) [OF assms]] by auto
  have "if \<exists>x. chained cfg loc h x
       then \<exists>g \<in> set ?hs. \<exists>i \<in> set (hc_interfaces loc). \<exists>j \<in> set (hc_interfaces g). \<exists>y.
         g \<noteq> loc \<and> ic_segment i = ic_segment j \<and> um_find route (hc_name h) = Some (ic_name i, ic_name j) \<and>
         0 < config_weight cfg loc g \<and> chained cfg g h y \<and> (\<forall>x. chained cfg loc h x \<longrightarrow> config_weight cfg loc g + y \<le> x)
       else um_find route (hc_name h) = None" if h: "h \<in> set ?hs" "h \<noteq> loc" for h
  proof -
    obtain k where k: "k < length ns" "ns ! k = h" using h(1) ns(1) by (metis in_set_conv_nth)
    then have "0 < k" using h(2) ns(3) by (cases k) auto
    note e = entry_of_index [OF m wf r(1) ns(2,1) r(2) this k(1), unfolded k(2) ns(3)]
    show ?thesis
    proof (cases "\<exists>x. chained cfg loc h x")
      case True
      obtain c y where c: "0 < c" "c < length ns" "0 < wt (links ?m) 0 c" "chained cfg (ns ! c) h y"
        "\<forall>x. chained cfg loc h x \<longrightarrow> wt (links ?m) 0 c + y \<le> x" "um_find route (hc_name h) = Some (hop ?m c)"
        using e [unfolded if_P [OF True]] by blast
      have g: "ns ! c \<in> set ?hs" using nth_mem [OF c(2)] unfolding ns(1) .
      have ne: "ns ! c \<noteq> loc"
        using index_unique [OF ns(2) c(2), of 0] c(1,2) unfolding ns(3) by fastforce
      have w: "wt (links ?m) 0 c = config_weight cfg loc (ns ! c)"
      proof -
        have "0 < length ns" "0 \<noteq> c" using c(1,2) by linarith+
        with m c(2) have "wt (links ?m) 0 c = config_weight cfg (ns ! 0) (ns ! c)" unfolding weighted_def by blast
        then show ?thesis unfolding ns(3) .
      qed
      have "\<forall>g \<in> set ?hs. \<forall>h \<in> set ?hs. g \<noteq> h \<longrightarrow> 0 < config_weight cfg g h \<longrightarrow> share g h"
        using assms(1) by (simp add: config_fits_def)
      from this [rule_format, OF assms(2) g] ne c(3) w have "share loc (ns ! c)" by simp
      from hop_interfaces [OF m c(1,2), unfolded ns(3), OF this] obtain i j where
        ij: "i \<in> set (hc_interfaces loc)" "j \<in> set (hc_interfaces (ns ! c))" "ic_segment i = ic_segment j" "hop ?m c = (ic_name i, ic_name j)"
        by blast
      show ?thesis unfolding if_P [OF True]
        by (intro bexI [OF _ g] bexI [OF _ ij(1)] bexI [OF _ ij(2)] exI [of _ y] conjI)
          (use ne ij c(3-6) in \<open>simp_all add: w\<close>)
    next
      case False
      then show ?thesis using e by (simp only: if_False)
    qed
  qed
  then show ?thesis using r(1) by blast
qed

text \<open>
  The configuration that is shipped, config/masterconfig.json: three hosts on one segment, and a \<open>map\<close> section that makes the direct
  link of the first and the third heavier than the way round.
\<close>

definition shipped_host :: "string \<Rightarrow> string \<Rightarrow> host_cfg" where
  "shipped_host name iface =
     \<lparr>hc_name = name, hc_interfaces = [\<lparr>ic_name = iface, ic_type = ''tcp'', ic_segment = 1, ic_node_id = 0\<rparr>]\<rparr>"

definition masterconfig :: config where
  "masterconfig =
     \<lparr>cf_hosts = [shipped_host ''host1'' ''interface1'', shipped_host ''host2'' ''interface2'', shipped_host ''host3'' ''interface3''],
      cf_map = [(''host1'', ''host2'', 1), (''host2'', ''host3'', 1), (''host1'', ''host3'', 3)], cf_launch = []\<rparr>"

lemma masterconfig_fits: "config_fits masterconfig"
  by (simp add: config_fits_def masterconfig_def shipped_host_def INT_MAX_def share_def)

lemma masterconfig_chain:
  "chained masterconfig (shipped_host ''host1'' ''interface1'') (shipped_host ''host3'' ''interface3'') 2"
proof -
  let ?h = "\<lambda>n i. shipped_host n i"
  have "chained masterconfig (?h ''host1'' ''interface1'') (?h ''host2'' ''interface2'')
      (0 + config_weight masterconfig (?h ''host1'' ''interface1'') (?h ''host2'' ''interface2''))"
    by (rule chained.next_host [OF chained.self]) (simp_all add: masterconfig_def shipped_host_def config_weight_def)
  from chained.next_host [OF this, of "?h ''host3'' ''interface3''"] show ?thesis
    by (simp add: masterconfig_def shipped_host_def config_weight_def)
qed

lemma chained_nonneg: "chained cfg g h x \<Longrightarrow> 0 \<le> x"
  by (induction rule: chained.induct) simp_all

theorem routes_of_configuration_witness:
  "\<exists>route. getRoute (map_init masterconfig ''host1'' empty_map) = Inr route \<and>
     um_find route ''host3'' = Some (''interface1'', ''interface2'')"
proof -
  let ?h1 = "shipped_host ''host1'' ''interface1''" and ?h2 = "shipped_host ''host2'' ''interface2''" and ?h3 = "shipped_host ''host3'' ''interface3''"
  have hosts: "set (cf_hosts masterconfig) = {?h1, ?h2, ?h3}" and names: "hc_name ?h1 = ''host1''" "hc_name ?h3 = ''host3''"
    and ne: "?h3 \<noteq> ?h1" and h1: "?h1 \<in> set (cf_hosts masterconfig)" and h3: "?h3 \<in> set (cf_hosts masterconfig)"
    by (simp_all add: masterconfig_def shipped_host_def)
  have far: "config_weight masterconfig ?h1 ?h3 = 3" by code_simp
  have chain: "\<exists>x. chained masterconfig ?h1 ?h3 x" using masterconfig_chain by blast
  show ?thesis
    using routes_of_configuration [OF masterconfig_fits h1, unfolded names]
  proof (elim exE conjE, goal_cases)
    case (1 route)
    note e = mp [OF bspec [OF 1(2) h3] ne, unfolded if_P [OF chain] names(2) hosts]
    then obtain g i j y where g: "g \<in> {?h1, ?h2, ?h3}" "i \<in> set (hc_interfaces ?h1)" "j \<in> set (hc_interfaces g)" "g \<noteq> ?h1"
      "um_find route ''host3'' = Some (ic_name i, ic_name j)" "chained masterconfig g ?h3 y" "config_weight masterconfig ?h1 g + y \<le> 2"
      using masterconfig_chain by (elim bexE exE conjE) blast
    have "g \<noteq> ?h3" using g(6,7) far chained_nonneg [OF g(6)] by auto
    then have "g = ?h2" using g(1,4) by blast
    then show ?case using 1(1) g(2,3,5) by (auto simp: shipped_host_def)
  qed
qed

end
