(* ===== verification/PortRoute.thy ===== *)
theory PortRoute
  imports RouteConfig
begin

text \<open>
  The routing table of the port, \<open>Map\<close> of
  \<open>entry/src/main/cpp/Middleware/src/Master/src/interface/Map.cpp\<close>: a link is a segment and a weight, there is
  no numbering by name, and the weights of the configuration are not read. With the proof that forgetting
  what the port leaves out takes the table of \<open>RouteMap\<close> to this one, operation by operation.
\<close>

subsection \<open>State\<close>

record port_link =
  pl_segment :: int
  pl_weight :: int

definition port_no_link :: port_link where
  "port_no_link = \<lparr>pl_segment = - 1, pl_weight = 0\<rparr>"

record port_map =
  pm_key2node :: "(nat, string) umap"
  pm_segment2node :: "(int, nat list) umap"
  pm_links :: "port_link list list"
  pm_segment2interface :: "(int, string) umap list"

definition empty_port_map :: port_map where
  "empty_port_map = \<lparr>pm_key2node = [], pm_segment2node = [], pm_links = [], pm_segment2interface = []\<rparr>"

subsection \<open>Initialisation\<close>

fun port_add_interfaces ::
  "nat \<Rightarrow> iface_cfg list \<Rightarrow> (int, string) umap \<Rightarrow> port_map \<Rightarrow> (int, string) umap \<times> port_map" where
  "port_add_interfaces k [] s2i m = (s2i, m)"
| "port_add_interfaces k (i # is) s2i m =
     port_add_interfaces k is (um_put (ic_segment i) (ic_name i) s2i)
       (m\<lparr>pm_segment2node := push_node k (ic_segment i) (pm_segment2node m)\<rparr>)"

definition port_add_host :: "nat \<Rightarrow> host_cfg \<Rightarrow> port_map \<Rightarrow> port_map" where
  "port_add_host k h m =
     (let m = m\<lparr>pm_key2node := um_put k (hc_name h) (pm_key2node m)\<rparr>;
          (s2i, m) = port_add_interfaces k (hc_interfaces h) [] m
      in m\<lparr>pm_segment2interface := pm_segment2interface m @ [s2i]\<rparr>)"

fun port_init_local :: "string \<Rightarrow> host_cfg list \<Rightarrow> port_map \<Rightarrow> port_map" where
  "port_init_local localhost [] m = m"
| "port_init_local localhost (h # hs) m =
     (if hc_name h = localhost then port_add_host 0 h m else port_init_local localhost hs m)"

fun port_init_others :: "string \<Rightarrow> host_cfg list \<Rightarrow> nat \<Rightarrow> port_map \<Rightarrow> nat \<times> port_map" where
  "port_init_others localhost [] i m = (i, m)"
| "port_init_others localhost (h # hs) i m =
     (if hc_name h \<noteq> localhost then port_init_others localhost hs (Suc i) (port_add_host (Suc i) h m)
      else port_init_others localhost hs i m)"

definition set_port_link :: "port_link \<Rightarrow> nat \<Rightarrow> nat \<Rightarrow> port_link list list \<Rightarrow> port_link list list" where
  "set_port_link l a b L = L[a := (L ! a)[b := l]]"

definition port_connect :: "int \<Rightarrow> nat \<Rightarrow> nat \<Rightarrow> port_link list list \<Rightarrow> port_link list list" where
  "port_connect seg a b L =
     (let l = \<lparr>pl_segment = seg, pl_weight = 1\<rparr> in set_port_link l b a (set_port_link l a b L))"

fun port_connect_all :: "int \<Rightarrow> nat list \<Rightarrow> port_link list list \<Rightarrow> port_link list list" where
  "port_connect_all seg [] L = L"
| "port_connect_all seg (a # as) L = port_connect_all seg as (fold (port_connect seg a) as L)"

text \<open>\<open>init\<close> gets the hosts of the configuration only.\<close>

definition port_map_init :: "host_cfg list \<Rightarrow> string \<Rightarrow> port_map \<Rightarrow> port_map" where
  "port_map_init hosts localhost m =
     (let m = port_init_local localhost hosts m;
          (i, m) = port_init_others localhost hosts 0 m;
          L = map (resize port_no_link (i + 1)) (resize [] (i + 1) (pm_links m))
      in m\<lparr>pm_links := fold (\<lambda>(seg, value) L. port_connect_all seg value L) (pm_segment2node m) L\<rparr>)"

subsection \<open>Routes\<close>

fun port_pick :: "bool list \<Rightarrow> int list \<Rightarrow> nat list \<Rightarrow> int \<Rightarrow> nat option \<Rightarrow> nat option" where
  "port_pick visited distance [] minDistance minIndex = minIndex"
| "port_pick visited distance (i # is) minDistance minIndex =
     (if \<not> visited ! i \<and> distance ! i < minDistance
      then port_pick visited distance is (distance ! i) (Some i)
      else port_pick visited distance is minDistance minIndex)"

lemma port_pick: "port_pick V d is x k = pick V d is x k"
  by (induction "is" arbitrary: x k) simp_all

fun port_relax :: "port_link list list \<Rightarrow> nat \<Rightarrow> bool list \<Rightarrow> nat list \<Rightarrow> int list \<Rightarrow> nat option list \<Rightarrow>
    error + int list \<times> nat option list" where
  "port_relax L u visited [] distance parent = Inr (distance, parent)"
| "port_relax L u visited (i # is) distance parent =
     (if \<not> visited ! i \<and> 0 < pl_weight (L ! u ! i) then
        (case add_int (distance ! u) (pl_weight (L ! u ! i)) of
           Inl e \<Rightarrow> Inl e
         | Inr d \<Rightarrow>
             if d < distance ! i then port_relax L u visited is (distance[i := d]) (parent[i := Some u])
             else port_relax L u visited is distance parent)
      else port_relax L u visited is distance parent)"

function (sequential) port_search :: "port_link list list \<Rightarrow> bool list \<Rightarrow> int list \<Rightarrow> nat option list \<Rightarrow>
    error + bool list \<times> int list \<times> nat option list" where
  "port_search L visited distance parent =
     (case port_pick visited distance [0..<length visited] INT_MAX None of
        None \<Rightarrow> Inr (visited, distance, parent)
      | Some u \<Rightarrow>
          (case port_relax L u (visited[u := True]) [0..<length visited] distance parent of
             Inl e \<Rightarrow> Inl e
           | Inr (distance, parent) \<Rightarrow> port_search L (visited[u := True]) distance parent))"
  by pat_completeness auto

termination port_search
proof (relation "measure (\<lambda>(L, V, d, p). length (filter Not V))")
  fix L :: "port_link list list" and V :: "bool list" and d p u x y z
  assume "port_pick V d [0..<length V] INT_MAX None = Some u"
  then have "u < length V" "\<not> V ! u" using pick_Some by (fastforce simp: port_pick)+
  then show "((L, V[u := True], y, z), L, V, d, p) \<in> measure (\<lambda>(L, V, d, p). length (filter Not V))"
    using unvisited_decreases by simp
qed simp

declare port_search.simps [simp del]

fun port_walk_back ::
  "port_map \<Rightarrow> nat option list \<Rightarrow> nat \<Rightarrow> nat \<Rightarrow> nat \<Rightarrow> nat option \<Rightarrow> routes \<Rightarrow> error + routes" where
  "port_walk_back m parent fuel i cur None route = Inr route"
| "port_walk_back m parent 0 i cur (Some par) route = Inl NoReturn"
| "port_walk_back m parent (Suc fuel) i cur (Some par) route =
     (if par = 0 then
        (if length (pm_segment2interface m) \<le> par \<or> length (pm_segment2interface m) \<le> cur then Inl OutOfBounds
         else
           let seg = pl_segment (pm_links m ! par ! cur);
               entry = (um_at [] (pm_segment2interface m ! par) seg, um_at [] (pm_segment2interface m ! cur) seg)
           in port_walk_back m parent fuel i par (parent ! par) (um_put (um_at [] (pm_key2node m) i) entry route))
      else port_walk_back m parent fuel i par (parent ! par) route)"

fun port_collect :: "port_map \<Rightarrow> bool list \<Rightarrow> nat option list \<Rightarrow> nat list \<Rightarrow> routes \<Rightarrow> error + routes" where
  "port_collect m visited parent [] route = Inr route"
| "port_collect m visited parent (i # is) route =
     (if visited ! i then
        (case port_walk_back m parent (length (pm_links m)) i i (parent ! i) route of
           Inl e \<Rightarrow> Inl e
         | Inr route \<Rightarrow> port_collect m visited parent is route)
      else port_collect m visited parent is route)"

definition port_getRoute :: "port_map \<Rightarrow> error + routes" where
  "port_getRoute m =
     (let n = length (pm_links m) in
      if n = 0 then Inl OutOfBounds
      else
        (case port_search (pm_links m) (replicate n False) ((replicate n INT_MAX)[0 := 0]) (replicate n None) of
           Inl e \<Rightarrow> Inl e
         | Inr (visited, distance, parent) \<Rightarrow> port_collect m visited parent [1..<n] []))"

subsection \<open>Forgetting what the port leaves out\<close>

definition forget_link :: "link \<Rightarrow> port_link" where
  "forget_link l = \<lparr>pl_segment = segment l, pl_weight = weight l\<rparr>"

abbreviation forget_links :: "link list list \<Rightarrow> port_link list list" where
  "forget_links \<equiv> map (map forget_link)"

definition forget :: "route_map \<Rightarrow> port_map" where
  "forget m = \<lparr>pm_key2node = key2node m, pm_segment2node = segment2node m, pm_links = forget_links (links m),
     pm_segment2interface = segment2interface m\<rparr>"

lemma forget_sel [simp]:
  "pm_key2node (forget m) = key2node m" "pm_segment2node (forget m) = segment2node m"
  "pm_links (forget m) = forget_links (links m)" "pm_segment2interface (forget m) = segment2interface m"
  by (simp_all add: forget_def)

lemma forget_get [simp]:
  assumes "square n L" and "u < n" and "i < n"
  shows "forget_links L ! u ! i = forget_link (get_link L u i)"
  using assms by (auto simp: square_def get_link_def)

lemma forget_link_sel [simp]:
  "pl_segment (forget_link l) = segment l" "pl_weight (forget_link l) = weight l"
  by (simp_all add: forget_link_def)

lemma forget_interfaces:
  "port_add_interfaces k is s2i (forget m) = map_prod id forget (add_interfaces k is s2i m)"
proof (induction "is" arbitrary: s2i m)
  case (Cons i "is")
  show ?case
    using Cons.IH [of _ "m\<lparr>segment2node := push_node k (ic_segment i) (segment2node m)\<rparr>"]
    by (simp add: forget_def)
qed simp

lemma forget_host: "port_add_host k h (forget m) = forget (add_host k h m)"
proof -
  let ?m = "m\<lparr>key2node := um_put k (hc_name h) (key2node m), node2key := um_put (hc_name h) k (node2key m)\<rparr>"
  have f: "(forget m)\<lparr>pm_key2node := um_put k (hc_name h) (key2node m)\<rparr> = forget ?m"
    by (simp add: forget_def)
  obtain t m' where "add_interfaces k (hc_interfaces h) [] ?m = (t, m')" by fastforce
  then show ?thesis
    unfolding port_add_host_def add_host_def forget_sel f forget_interfaces Let_def by (simp add: forget_def)
qed

lemma forget_local: "port_init_local l hs (forget m) = forget (init_local l hs m)"
  by (induction hs) (simp_all add: forget_host)

lemma forget_others: "port_init_others l hs i (forget m) = map_prod id forget (init_others l hs i m)"
  by (induction hs arbitrary: i m) (simp_all add: forget_host)

lemma forget_set:
  "set_port_link (forget_link l) a b (forget_links L) = forget_links (upd_link (\<lambda>_. l) a b L)"
  by (cases "a < length L") (simp_all add: set_port_link_def upd_link_def map_update list_update_beyond)

lemma forget_connect: "port_connect seg a b (forget_links L) = forget_links (connect seg a b L)"
  using forget_set [of "\<lparr>segment = seg, weight = 1, initWeight = 1\<rparr>"]
  by (simp add: port_connect_def connect_def forget_link_def Let_def)

lemma forget_connect_all: "port_connect_all seg as (forget_links L) = forget_links (connect_all seg as L)"
proof (induction as arbitrary: L)
  case (Cons a as)
  have "fold (port_connect seg a) bs (forget_links L) = forget_links (fold (\<lambda>b. connect seg a b) bs L)" for bs
    by (induction bs arbitrary: L) (simp_all add: forget_connect)
  then show ?case using Cons.IH by simp
qed simp

lemma forget_segments:
  "fold (\<lambda>(seg, value) L. port_connect_all seg value L) svs (forget_links L) =
   forget_links (fold (\<lambda>(seg, value) L. connect_all seg value L) svs L)"
  by (induction svs arbitrary: L) (auto simp: forget_connect_all)

lemma forget_resize: "map f (resize d n xs) = resize (f d) n (map f xs)"
  by (simp add: resize_def take_map)

lemma forget_matrix:
  "map (resize port_no_link n) (resize [] n (forget_links L)) = forget_links (map (resize no_link n) (resize [] n L))"
proof -
  have "forget_link no_link = port_no_link" by (simp add: forget_link_def no_link_def port_no_link_def)
  then show ?thesis using forget_resize [of "map forget_link" "[]" n L] by (simp add: forget_resize o_def)
qed

lemma forget_put_links: "(forget m)\<lparr>pm_links := forget_links L\<rparr> = forget (m\<lparr>links := L\<rparr>)"
  by (simp add: forget_def)

lemma forget_init:
  "port_map_init (cf_hosts cfg) l (forget m) = forget (map_init (cfg\<lparr>cf_map := []\<rparr>) l m)"
proof -
  obtain i m' where o: "init_others l (cf_hosts cfg) 0 (init_local l (cf_hosts cfg) m) = (i, m')" by fastforce
  show ?thesis
    unfolding port_map_init_def map_init_def Let_def forget_local forget_others o map_prod_simp split_conv
      forget_sel forget_matrix forget_segments forget_put_links id_apply by (simp add: o)
qed

subsection \<open>The search\<close>

lemma forget_relax:
  assumes "square n L" and "u < n" and "\<forall>i \<in> set is. i < n"
  shows "port_relax (forget_links L) u V is d p = relax L u V is d p"
  using assms by (induction "is" arbitrary: d p) (simp_all add: forget_get [of n] split: sum.split)

lemma forget_search:
  assumes "square n L" and "length V = n"
  shows "port_search (forget_links L) V d p = search L V d p"
  using assms
proof (induction L V d p rule: search.induct)
  case (1 L V d p)
  show ?case
  proof (cases "pick V d [0..<length V] INT_MAX None")
    case None
    then show ?thesis by (simp add: port_search.simps [of _ V] search.simps [of _ V] port_pick)
  next
    case (Some u)
    then have "u < n" using pick_Some [OF Some] 1(3) by auto
    then have "port_relax (forget_links L) u (V[u := True]) [0..<length V] d p = relax L u (V[u := True]) [0..<length V] d p"
      using 1(2,3) by (intro forget_relax) auto
    then show ?thesis using 1 Some
      by (auto simp: port_search.simps [of _ V] search.simps [of _ V] port_pick split: sum.split)
  qed
qed

definition parents_in :: "nat \<Rightarrow> nat option list \<Rightarrow> bool" where
  "parents_in n p \<longleftrightarrow> (\<forall>v < n. \<forall>u. p ! v = Some u \<longrightarrow> u < n)"

lemma forget_walk_back:
  assumes "square (length (links m)) (links m)" and "parents_in (length (links m)) p" and "cur < length (links m)"
    and "\<forall>u. par = Some u \<longrightarrow> u < length (links m)"
  shows "port_walk_back (forget m) p fuel i cur par route = walk_back m p fuel i cur par route"
  using assms(3,4)
proof (induction fuel arbitrary: cur par route)
  case (Suc fuel)
  show ?case
  proof (cases par)
    case (Some u)
    then have u: "u < length (links m)" "\<forall>w. p ! u = Some w \<longrightarrow> w < length (links m)"
      using Suc.prems(2) assms(2) by (auto simp: parents_in_def)
    have "pl_segment (forget_links (links m) ! u ! cur) = segment (get_link (links m) u cur)"
      using forget_get [OF assms(1), of u cur] Suc.prems(1) u(1) by simp
    then show ?thesis
      using Suc Some u by (cases "u = 0") (simp_all add: Let_def)
  qed simp
next
  case 0
  then show ?case by (cases par) simp_all
qed

lemma forget_collect:
  assumes "square (length (links m)) (links m)" and "parents_in (length (links m)) p" and "\<forall>i \<in> set is. i < length (links m)"
  shows "port_collect (forget m) V p is route = collect m V p is route"
  using assms(3)
proof (induction "is" arbitrary: route)
  case (Cons i "is")
  have "\<forall>u. p ! i = Some u \<longrightarrow> u < length (links m)" using Cons.prems assms(2) unfolding parents_in_def by auto
  then show ?case
    using Cons forget_walk_back [OF assms(1,2), of i "p ! i" "length (links m)" i route]
    by (simp split: sum.split)
qed simp

lemma forget_getRoute:
  assumes "square (length (links m)) (links m)"
  shows "port_getRoute (forget m) = getRoute m"
proof (cases "length (links m) = 0")
  case False
  let ?n = "length (links m)"
  have s: "port_search (forget_links (links m)) (replicate ?n False) ((replicate ?n INT_MAX)[0 := 0]) (replicate ?n None) =
      search (links m) (replicate ?n False) ((replicate ?n INT_MAX)[0 := 0]) (replicate ?n None)"
    by (rule forget_search [OF assms]) simp
  show ?thesis
  proof (cases "search (links m) (replicate ?n False) ((replicate ?n INT_MAX)[0 := 0]) (replicate ?n None)")
    case (Inl e)
    then show ?thesis using False s by (simp add: port_getRoute_def getRoute_def Let_def)
  next
    case (Inr r)
    obtain V d p where r: "r = (V, d, p)" by (cases r)
    have "search_inv (links m) ?n V d p"
      using search_spec [OF search_inv_init [of ?n "links m"] Inr [unfolded r]] False by simp
    then have "parents_in ?n p" by (simp add: search_inv_def parents_in_def)
    then have "port_collect (forget m) V p [1..<?n] [] = collect m V p [1..<?n] []"
      by (intro forget_collect [OF assms]) auto
    then show ?thesis using False s Inr r by (simp add: port_getRoute_def getRoute_def Let_def)
  qed
qed (simp add: port_getRoute_def getRoute_def)

subsection \<open>The properties of the table\<close>

lemma init_square:
  fixes cfg l
  defines "m \<equiv> map_init (cfg\<lparr>cf_map := []\<rparr>) l empty_map"
  shows "square (length (links m)) (links m)"
proof -
  obtain i m' where o: "init_others l (cf_hosts cfg) 0 (init_local l (cf_hosts cfg) empty_map) = (i, m')" by fastforce
  have "links m' = []"
    using others_keep_links [of l "cf_hosts cfg" 0 "init_local l (cf_hosts cfg) empty_map"]
    by (simp add: o local_keeps_links) (simp add: empty_map_def)
  then have "map (resize no_link (i + 1)) (resize [] (i + 1) (links m')) = replicate (i + 1) (replicate (i + 1) no_link)"
    by (simp add: resize_def)
  moreover have "square (i + 1) (replicate (i + 1) (replicate (i + 1) no_link))"
    by (auto simp: square_def simp del: replicate.simps)
  ultimately have "square (i + 1) (links m)"
    unfolding m_def map_init_def Let_def by (simp add: o square_segments del: replicate.simps)
  then show ?thesis by (simp add: square_def)
qed

text \<open>
  C15: The port routes as the program on Linux does without weights: for every list of hosts, the local
  one among them or not, \<open>getRoute\<close> of the port returns the table, or fails, exactly as \<open>getRoute\<close> for
  a configuration of the same hosts whose \<open>map\<close> section is empty.
\<close>

theorem port_routes_agree:
  "port_getRoute (port_map_init (cf_hosts cfg) localhost empty_port_map) =
   getRoute (map_init (cfg\<lparr>cf_map := []\<rparr>) localhost empty_map)"
proof -
  have "empty_port_map = forget empty_map"
    by (simp add: empty_port_map_def forget_def empty_map_def)
  then show ?thesis using forget_init [of cfg localhost empty_map] forget_getRoute [OF init_square] by simp
qed

end
