(* ===== verification/PortLink.thy ===== *)
theory PortLink
  imports TcpHost
begin

text \<open>
  The TCP link of the port, \<open>TcpHostInterface\<close> of
  \<open>entry/src/main/cpp/Middleware/src/Master/src/tcp/TcpHostInterface.cpp\<close>: the same flags and queue as in
  \<open>TcpHost\<close>, but no timers, no reconnection by itself and no report of failures.
\<close>

definition port_doConnect :: "'r tcp_link \<Rightarrow> 'r tcp_link \<times> 'r tcp_io list" where
  "port_doConnect s =
     (if isConnecting s then (s, [])
      else (s\<lparr>isConnected := False, isConnecting := True\<rparr>, [AsyncConnect]))"

definition port_link_run :: "'r tcp_link \<Rightarrow> 'r tcp_link \<times> 'r tcp_io list" where
  "port_link_run s = port_doConnect s"

definition port_doWrite :: "'r tcp_link \<Rightarrow> 'r tcp_link \<times> 'r tcp_io list" where
  "port_doWrite s =
     (if isReady s \<and> isConnected s \<and> m_requestQueue s \<noteq> [] then
        (s\<lparr>isReady := False, m_requestQueue := tl (m_requestQueue s)\<rparr>, [AsyncWrite (hd (m_requestQueue s))])
      else (s, []))"

text \<open>\<open>onNew\<close> broadcasts, which may come back to this link: it is the argument \<open>new\<close>.\<close>

definition port_onConnect ::
  "(('r tcp_link \<Rightarrow> 'r tcp_link \<times> 'r tcp_io list) \<Rightarrow> ('s, 'o) op) \<Rightarrow> ('s, 'o) op \<Rightarrow> bool \<Rightarrow> ('s, 'o) op" where
  "port_onConnect on_link new ec =
     and_then (on_link (\<lambda>l. (l\<lparr>isConnecting := False\<rparr>, [])))
       (if ec then on_link (\<lambda>l. (l, [CloseStream]))
        else and_then (on_link (\<lambda>l. port_doWrite (l\<lparr>isConnected := True\<rparr>))) new)"

definition port_tcp_send :: "'r http_api \<Rightarrow> 'r \<Rightarrow> 'r tcp_link \<Rightarrow> 'r tcp_link \<times> 'r \<times> 'r tcp_io list" where
  "port_tcp_send A req s =
     (let req = h_prepare A req;
          s = s\<lparr>m_requestQueue := m_requestQueue s @ [req]\<rparr>;
          (s, io) = (if \<not> isConnected s then port_doConnect s else port_doWrite s)
      in (s, req, io))"

definition port_onWrite :: "bool \<Rightarrow> 'r tcp_link \<Rightarrow> 'r tcp_link \<times> 'r tcp_io list" where
  "port_onWrite ec s =
     (let s = s\<lparr>isReady := True\<rparr> in
      if ec then let (s, io) = port_doConnect s in (s, CloseStream # io)
      else port_doWrite s)"

interpretation ptcp: queued_link "h_prepare A" "port_tcp_send A" for A :: "'r http_api"
  by unfold_locales
    (auto simp: link_defs port_tcp_send_def port_doConnect_def port_doWrite_def Let_def split: if_splits prod.splits)

subsection \<open>Runs\<close>

abbreviation port_sends :: "'r http_api \<Rightarrow> 'r list \<Rightarrow> ('r tcp_link, 'r tcp_io) op" where
  "port_sends A \<equiv> sends_by (port_tcp_send A)"

inductive port_link_step :: "'r http_api \<Rightarrow> 'r tcp_world \<Rightarrow> 'r tcp_world \<Rightarrow> bool" for A where
  send: "port_tcp_send A r (tw_link w) = (s, r', io) \<Longrightarrow>
    port_link_step A w ((after s io w)\<lparr>tw_sent := tw_sent w @ [r']\<rparr>)"
| connected: "0 < tw_connects w \<Longrightarrow> port_onConnect on_self (port_sends A rs) ec (tw_link w) = Inr (s, io) \<Longrightarrow>
    port_link_step A w ((after s io (w\<lparr>tw_connects := tw_connects w - 1\<rparr>))\<lparr>tw_sent := tw_sent w @
      (if ec then [] else map (h_prepare A) rs)\<rparr>)"
| wrote: "0 < tw_writes w \<Longrightarrow> port_onWrite ec (tw_link w) = (s, io) \<Longrightarrow>
    port_link_step A w (after s io (w\<lparr>tw_writes := tw_writes w - 1\<rparr>))"

inductive port_link_reach :: "'r http_api \<Rightarrow> 'r tcp_world \<Rightarrow> bool" for A where
  start: "port_link_run new_tcp_link = (s, io) \<Longrightarrow>
    port_link_reach A (after s io \<lparr>tw_link = new_tcp_link, tw_connects = 0, tw_writes = 0, tw_sent = [], tw_written = []\<rparr>)"
| step: "port_link_reach A w \<Longrightarrow> port_link_step A w w' \<Longrightarrow> port_link_reach A w'"

inductive_cases port_link_stepE: "port_link_step A w w'"

text \<open>The invariant of \<open>TcpHost\<close>, and: a write is under way on a connection only.\<close>

definition writes_connected :: "'r tcp_link \<Rightarrow> bool" where
  "writes_connected l \<longleftrightarrow> (isReady l \<or> isConnected l)"

definition port_link_inv :: "'r tcp_world \<Rightarrow> bool" where
  "port_link_inv w \<longleftrightarrow> tcp_inv w \<and> writes_connected (tw_link w)"

lemma port_doWrite_ok:
  assumes "link_base l c k sent written" and "port_doWrite l = (l', io)"
  shows "link_ok l' (c + connects_of io) (k + length (writes_of io)) sent (written @ writes_of io)"
  using assms by (auto simp: link_defs port_doWrite_def split: if_splits)

lemma port_doWrite_connected: "port_doWrite l = (l', io) \<Longrightarrow> writes_connected l \<Longrightarrow> writes_connected l'"
  by (auto simp: writes_connected_def port_doWrite_def split: if_splits)

lemma port_send_connected: "port_tcp_send A r l = (l', r', io) \<Longrightarrow> writes_connected l \<Longrightarrow> writes_connected l'"
  by (auto simp: writes_connected_def port_tcp_send_def port_doWrite_def port_doConnect_def Let_def split: if_splits)

lemma port_sends_connected: "port_sends A rs l = Inr (l', io) \<Longrightarrow> writes_connected l \<Longrightarrow> writes_connected l'"
  by (induction rs arbitrary: l io) (auto simp: and_then_Inr split: prod.splits dest: port_send_connected)

lemma port_connect_keeps:
  assumes "link_ok l c k sent written" and "writes_connected l" and "0 < c"
    and "port_onConnect on_self (port_sends A rs) ec l = Inr (l', io)"
  shows "link_ok l' (c - 1 + connects_of io) (k + length (writes_of io))
      (sent @ (if ec then [] else map (h_prepare A) rs)) (written @ writes_of io) \<and> writes_connected l'"
proof (cases ec)
  case True
  then show ?thesis
    using assms by (auto simp: port_onConnect_def and_then_Inr on_self_def link_defs writes_connected_def split: if_splits)
next
  case False
  let ?l = "l\<lparr>isConnecting := False, isConnected := True\<rparr>"
  obtain l1 o1 o2 where o: "port_doWrite ?l = (l1, o1)" "port_sends A rs l1 = Inr (l', o2)" "io = o1 @ o2"
    using assms(4) False by (auto simp: port_onConnect_def and_then_Inr on_self_def)
  have "link_base ?l (c - 1) k sent written"
    using assms(1,3) by (auto simp: link_defs split: if_splits)
  from ptcp.puts_ok [OF port_doWrite_ok [OF this o(1)] o(2)]
  have "link_ok l' (c - 1 + connects_of io) (k + length (writes_of io)) (sent @ map (h_prepare A) rs) (written @ writes_of io)"
    by (simp add: o(3) add.assoc)
  moreover have "writes_connected l'"
    using port_sends_connected [OF o(2)] port_doWrite_connected [OF o(1)] by (simp add: writes_connected_def)
  ultimately show ?thesis using False by simp
qed

lemma port_write_keeps:
  assumes "link_ok l c k sent written" and "writes_connected l" and "0 < k" and "port_onWrite ec l = (l', io)"
  shows "link_ok l' (c + connects_of io) (k - 1 + length (writes_of io)) sent (written @ writes_of io) \<and> writes_connected l'"
proof (cases ec)
  case True
  then show ?thesis
    using assms by (auto simp: port_onWrite_def port_doConnect_def link_defs writes_connected_def Let_def split: if_splits)
next
  case False
  then have w: "port_doWrite (l\<lparr>isReady := True\<rparr>) = (l', io)" using assms(4) by (simp add: port_onWrite_def)
  have "link_base (l\<lparr>isReady := True\<rparr>) c (k - 1) sent written"
    using assms(1,3) by (auto simp: link_defs split: if_splits)
  from port_doWrite_ok [OF this w] port_doWrite_connected [OF w] show ?thesis by (simp add: writes_connected_def)
qed

lemma port_link_step_inv:
  assumes "port_link_step A w w'" and "port_link_inv w"
  shows "port_link_inv w'"
  using assms(1)
proof cases
  case (send r s r' io)
  then show ?thesis
    using ptcp.put_ok [OF _ send(2)] port_send_connected [OF send(2)] assms(2)
    unfolding port_link_inv_def send(1) after_inv by (simp add: tcp_inv_def after_def)
next
  case (connected rs ec s io)
  have l: "link_ok (tw_link w) (tw_connects w) (tw_writes w) (tw_sent w) (tw_written w)" "writes_connected (tw_link w)"
    using assms(2) by (simp_all add: port_link_inv_def tcp_inv_def)
  show ?thesis
    using port_connect_keeps [OF l connected(2,3)]
    unfolding port_link_inv_def connected(1) after_inv by (simp add: after_def)
next
  case (wrote ec s io)
  have "after s io (w\<lparr>tw_writes := tw_writes w - 1\<rparr>) =
      (after s io (w\<lparr>tw_writes := tw_writes w - 1\<rparr>))\<lparr>tw_sent := tw_sent w\<rparr>" by (simp add: after_def)
  then have e: "w' = (after s io (w\<lparr>tw_writes := tw_writes w - 1\<rparr>))\<lparr>tw_sent := tw_sent w\<rparr>" using wrote(1) by simp
  have l: "link_ok (tw_link w) (tw_connects w) (tw_writes w) (tw_sent w) (tw_written w)" "writes_connected (tw_link w)"
    using assms(2) by (simp_all add: port_link_inv_def tcp_inv_def)
  show ?thesis
    using port_write_keeps [OF l wrote(2,3)]
    unfolding port_link_inv_def e after_inv by (simp add: after_def)
qed

lemma port_link_reach_inv: "port_link_reach A w \<Longrightarrow> port_link_inv w"
proof (induction rule: port_link_reach.induct)
  case (start s io)
  then show ?case
    by (auto simp: port_link_inv_def tcp_inv_def after_def port_link_run_def port_doConnect_def new_tcp_link_def
        writes_connected_def link_defs)
qed (rule port_link_step_inv)

subsection \<open>What the link does\<close>

text \<open>
  As in \<open>TcpHost\<close>, requests are written at most once and in the order of the sends, with at most one
  connect and one write under way, and none waits on an idle connection.
\<close>

theorem port_link_in_order:
  assumes "port_link_reach A w"
  shows "tw_sent w = tw_written w @ m_requestQueue (tw_link w) \<and> tw_connects w \<le> 1 \<and> tw_writes w \<le> 1 \<and>
    (isConnected (tw_link w) \<and> tw_writes w = 0 \<longrightarrow> m_requestQueue (tw_link w) = [])"
  using port_link_reach_inv [OF assms] by (auto simp: port_link_inv_def tcp_inv_def link_ok_def link_base_def)

lemma waiting_link:
  assumes "port_link_inv w" and "\<not> isConnected (tw_link w)" and "tw_connects w = 0"
  shows "tw_writes w = 0" and "\<not> isConnecting (tw_link w)" and "tw_sent w = tw_written w @ m_requestQueue (tw_link w)"
  using assms by (auto simp: port_link_inv_def tcp_inv_def writes_connected_def link_ok_def link_base_def split: if_splits)

lemma waiting_send:
  assumes "\<not> isConnected l" and "\<not> isConnecting l" and "port_tcp_send A r l = (l', r', io)"
  shows "r' = h_prepare A r" and "io = [AsyncConnect]" and "m_requestQueue l' = m_requestQueue l @ [r']"
  using assms by (auto simp: port_tcp_send_def port_doConnect_def Let_def)

text \<open>
  A link of the port whose connection could not be made waits: nothing is under way, the requests
  sent since then stay queued, and the only step is a further \<open>send\<close>, which queues its request behind
  them and starts the next attempt. No timer and no other event does.
\<close>

theorem port_link_waits:
  assumes "port_link_reach A w" and "\<not> isConnected (tw_link w)" and "tw_connects w = 0" and "port_link_step A w w'"
  shows "\<exists>r. tw_sent w' = tw_sent w @ [h_prepare A r] \<and> tw_written w' = tw_written w \<and> tw_connects w' = 1 \<and>
    m_requestQueue (tw_link w') = m_requestQueue (tw_link w) @ [h_prepare A r]"
proof -
  note i = waiting_link [OF port_link_reach_inv [OF assms(1)] assms(2,3)]
  from assms(4) show ?thesis
  proof (rule port_link_stepE)
    fix r s r' io
    assume s: "w' = (after s io w)\<lparr>tw_sent := tw_sent w @ [r']\<rparr>" "port_tcp_send A r (tw_link w) = (s, r', io)"
    show ?thesis
      using waiting_send [OF assms(2) i(2) s(2)] assms(3) s(1) by (auto simp: after_def)
  qed (use i(1) assms(3) in simp_all)
qed

definition failed_link :: "request list \<Rightarrow> request tcp_world" where
  "failed_link rs = \<lparr>tw_link = \<lparr>isConnected = False, isReady = True, isConnecting = False, m_requestQueue = rs\<rparr>,
     tw_connects = 0, tw_writes = 0, tw_sent = rs, tw_written = []\<rparr>"

definition a_request :: request where
  "a_request = h_make list_http v_post ''/x''"

lemma failed_link_reach: "port_link_reach list_http (failed_link [a_request])"
proof -
  let ?l = "\<lambda>rs. \<lparr>isConnected = False, isReady = True, isConnecting = True, m_requestQueue = rs\<rparr> :: request tcp_link"
  let ?w = "\<lambda>rs. \<lparr>tw_link = ?l rs, tw_connects = 1, tw_writes = 0, tw_sent = rs, tw_written = []\<rparr> :: request tcp_world"
  have "port_link_reach list_http (?w [])"
    using port_link_reach.start [of "?l []" "[AsyncConnect]" list_http]
    by (simp add: port_link_run_def port_doConnect_def new_tcp_link_def after_def)
  moreover have "port_tcp_send list_http a_request (tw_link (?w [])) = (?l [a_request], a_request, [])"
    by (simp add: port_tcp_send_def port_doConnect_def a_request_def list_http_def Let_def)
  from port_link_step.send [OF this] have "port_link_step list_http (?w []) (?w [a_request])"
    by (simp add: after_def)
  moreover have "port_onConnect on_self (port_sends list_http []) True (tw_link (?w [a_request])) =
      Inr (tw_link (failed_link [a_request]), [CloseStream])"
    by (simp add: port_onConnect_def and_then_def on_self_def failed_link_def)
  from port_link_step.connected [OF _ this] have "port_link_step list_http (?w [a_request]) (failed_link [a_request])"
    by (simp add: after_def failed_link_def)
  ultimately show ?thesis by (blast intro: port_link_reach.step)
qed

definition failed_send :: "request tcp_link \<times> request \<times> request tcp_io list" where
  "failed_send = port_tcp_send list_http a_request (tw_link (failed_link [a_request]))"

theorem port_link_waits_witness:
  "\<exists>w'. port_link_step list_http (failed_link [a_request]) w' \<and> tw_connects w' = 1 \<and>
    length (m_requestQueue (tw_link w')) = 2"
proof -
  obtain s r' io where "failed_send = (s, r', io)" by (cases failed_send)
  then have s: "port_link_step list_http (failed_link [a_request])
      ((after s io (failed_link [a_request]))\<lparr>tw_sent := tw_sent (failed_link [a_request]) @ [r']\<rparr>)"
    by (intro port_link_step.send [of _ a_request]) (simp add: failed_send_def)
  from port_link_waits [OF failed_link_reach _ _ s] show ?thesis
    by (intro exI [of _ "(after s io (failed_link [a_request]))\<lparr>tw_sent := tw_sent (failed_link [a_request]) @ [r']\<rparr>"]
        conjI s) (auto simp: failed_link_def)
qed

end
