(* ===== verification/Spec2Isabelle.thy ===== *)
theory Spec2Isabelle
  imports UwbNet PubSub NtripClient NodeLib DgpsNode LocalGrid UtilCli Services Gazebo PortBridge PortRoute PortLink
begin

text \<open>
  Verification of the robot middleware (the tree \<open>src/\<close>): a master process on every host, the library that
  its nodes link, the node for satellite positioning with its correction client, the local planner with its
  map, and the command line tool.

  \<^bold>\<open>The program.\<close> Nodes are processes. Each registers with the master of its host over a local socket and
  declares publishers and subscribers; messages travel between node and master through queues in shared
  memory, with an eventfd to wake the reader. The masters of the hosts know each other from a
  configuration file; they are linked by TCP or by UWB radio, keep a table of hosts, topics and routes, and
  forward requests in the form of HTTP messages. The UWB radio is a serial device shared by three hosts in
  time slots. The DGPS node reads NMEA sentences from a serial receiver, publishes positions, and feeds the
  receiver with corrections that an NTRIP client loads from a caster. The local map is a grid of the points of
  a lidar; the local planner looks for obstacles in it and chooses the velocity to drive with. A command line
  tool lists, publishes, records and replays topics. Plugins of a simulator take the place of the vehicle: they
  drive its wheels, publish its pose and odometry, and make goals of clicks. The port to HarmonyOS has the tool
  as a library behind a user interface, which starts and stops nodes in its own process.

  \<^bold>\<open>Theories and code.\<close>
  \<^item> \<open>Prelude\<close>: word types, the errors that undefined behaviour and exceptions become, the maps
    \<open>unordered_map\<close> (\<open>um_*\<close>) with their contract as a locale. \<open>CxxString\<close>: \<open>getline\<close>, \<open>stoi\<close>, \<open>stoul\<close>,
    streams of hexadecimal digits. \<open>HttpApi\<close>: Boost.Beast and jsoncpp as arguments with their laws.
  \<^item> \<open>UwbFrame\<close>, \<open>UwbSlot\<close>, \<open>UwbHttp\<close>, \<open>UwbHandle\<close>: the files \<open>UwbFramecodec\<close>, \<open>UwbTimeslotmanager\<close> and
    \<open>UwbHandle\<close> of \<open>src/Master/src/uwb/\<close>. \<open>UwbLink\<close> and \<open>UwbNet\<close>: one link step by step, two handles on a
    channel that loses, repeats and reorders lines.
  \<^item> \<open>RouteMap\<close>, \<open>RouteProof\<close>, \<open>RouteInit\<close>, \<open>RouteConfig\<close>: \<open>src/Master/src/interface/Map.cpp\<close>. \<open>HostTable\<close>: \<open>Host.cpp\<close>.
    \<open>TcpHost\<close>: \<open>src/Master/src/tcp/TcpHostInterface.cpp\<close>. \<open>IfaceManager\<close>, \<open>IfaceSend\<close>: \<open>InterfaceManager\<close>,
    \<open>Interface\<close>, \<open>HostInterface\<close>.
  \<^item> \<open>ShmRegistry\<close>: \<open>src/Master/src/shm/\<close> and \<open>MiddlewareManager\<close>. \<open>Controllers\<close>: the routers and
    controllers of both sides. \<open>MasterRun\<close>: all events of a master as one step relation. \<open>PubSub\<close>: messages,
    subscriptions and nodes across hosts.
  \<^item> \<open>NodeQueue\<close>, \<open>NodeLib\<close>: \<open>src/Node/\<close>, the transport and the set-up of nodes, publishers and subscribers.
  \<^item> \<open>NtripAuth\<close>, \<open>NtripArgs\<close>, \<open>NtripRequest\<close>, \<open>NtripChunk\<close>, \<open>NtripHttp\<close>, \<open>NtripRtp\<close>, \<open>NtripClient\<close>: the parts
    of \<open>src/Dgps/src/ntripclient.cpp\<close>, in this order: \<open>encode\<close>; \<open>encodeurl\<close>, \<open>geturl\<close> and \<open>getargs\<close>; the
    requests in their buffers and the search in replies; the chunk decoder; the HTTP connection with the
    lines of the receiver; RTP packets and the replies of the UDP and RTSP mode; attempts, pauses and the
    outer loop. \<open>SerialPort\<close>: \<open>serial.h\<close> and \<open>serial.cpp\<close>. \<open>DgpsNode\<close>: \<open>dgps_hmw_node.cpp\<close>.
  \<^item> \<open>Floating\<close>: floating point operations as an argument, with the loops over them. \<open>DwaTraj\<close>, \<open>DwaPlanner\<close>:
    \<open>src/LocalPlanner/\<close>, the search through the velocities and the node. \<open>LocalGrid\<close>: \<open>src/LocalMap/\<close>.
  \<^item> \<open>Services\<close>: \<open>src/Node/src/Timer.cpp\<close>, the connections, acceptors and the process manager of
    \<open>src/Master/\<close>. \<open>UtilCli\<close>: \<open>src/Util/src/main.cpp\<close>.
  \<^item> \<open>Gazebo\<close>: \<open>src/Gazebo/\<close>, the plugins, the node that sends velocities and the map of the tests.
  \<^item> \<open>PortMessage\<close>, \<open>PortTool\<close>, \<open>PortBridge\<close>: what is new under \<open>entry/src/main/cpp/\<close>: messages from JSON, commands, nodes
    and the request that stops one (\<open>napi_util.cpp\<close>, \<open>NodeStopController.cpp\<close>), and the bridge to the user interface
    (\<open>napi_init.cpp\<close>). \<open>PortRoute\<close>, \<open>PortLink\<close>: the port's own versions of \<open>Map.cpp\<close> and \<open>TcpHostInterface.cpp\<close>.

  \<^bold>\<open>State and operations.\<close> A class is a record with the members of the class, a member function a
  definition of the same name that returns the new record with its outputs; the calls of the system and of
  libraries are outputs, their answers inputs. \<open>Inl\<close> is an error: undefined behaviour, an exception that
  nothing catches, or \<open>std::terminate\<close>. A callback runs as one step. Machine integers are words or
  integers with the wrap and the overflow written out; buffers are lists with their size.
\<close>

text \<open>
  \<^bold>\<open>What is shown.\<close>
  \<^item> UWB: frames and HTTP messages survive encoding and decoding, corruption is detected, a request is
    delivered or reported as failed, no request is invented, and transmissions of the hosts do not overlap.
  \<^item> Routes: the search ends and leads over the first hop of a shortest path; failing links are avoided; the
    hosts with a route are those that common segments join to the local one.
  \<^item> Master: the registry is consistent in every run, hosts are listed for a topic only if they subscribe,
    and messages reach the subscribers on other hosts.
  \<^item> Node library: the transport refines a bounded queue under every interleaving of writer and reader and
    loses no wake-up; library and master agree on requests and on shared memory.
  \<^item> NTRIP: credentials are base64, URLs and packets survive printing and parsing, the requests keep to
    their buffers where they do, chunked data is delivered however it is cut, UDP sessions are closed.
  \<^item> DGPS node: the fields of a sentence are those between the commas, the position is in degrees.
  \<^item> Planner: the search ends with the cheapest admissible velocity within the limits, a silent sensor blocks
    planning, and no run of the node fails. Local map: a cell is marked exactly if a point lies in it, and a ray
    of the planner finds it.
  \<^item> Tool and services: a recording is replayed as it was published, the calls of a timer are an interval
    apart, the processes are restarted once.
  \<^item> Simulator: the plugin for clicks refines the selection of a pair of points, and what the planner commands
    turns the wheels.
  \<^item> Port: messages have the types of their descriptors and survive printing and reading, every node of the tool has
    its thread and is known at the master, a stop undoes a start, recorded messages are played in order, and no
    line to the user interface is lost. Its routes are those of the program on Linux without weights; a link that
    could not be made waits for the next request.
  \<^item> Errors of the code that came up on the way are theorems too, each with the input that shows it.

  \<^bold>\<open>Bounds and fuel.\<close> Loops that consume their input are plain recursion. The chunk decoder has a state in
  which the code loops for ever; its fuel is \<open>chunk_fuel\<close>, two rounds for every byte of the packet and
  more than a decoder that ends ever uses, which the delivery theorem shows by giving a result, and a run
  without result is \<open>NoReturn\<close>. The route search has a measure. The pending table of a handle is emptied
  within four passes of the timeout worker. The loops of the planner over floating point values have the fuel
  \<open>su_fuel\<close>, one unit a round; a loop that needs more is \<open>NoReturn\<close>. With exact sums 32 rounds are enough for the
  angles of the rays, the number of samples for the velocities and the width of the grid for a ray, and that
  no run fails is shown for such fuel.

  \<^bold>\<open>Not modelled.\<close> Threads inside a process and their mutexes: every handler, and every round of the
  planning thread, is one step. Opening sockets and serialising messages: calls of Asio, Beast and Protobuf
  around the modelled operations. The rounding of \<open>double\<close> and \<open>float\<close>: the operations are an argument, and what is
  shown of exact arithmetic says so with \<open>exact_fp\<close>. The filters of PCL, the rotation of Eigen, YAML and JSON texts:
  arguments; the files of the tool are taken to open. The messages, which are generated, and of the tree for HarmonyOS
  under \<open>entry/\<close> what else is a second copy of the tree at the top level. The drawing of the simulator's marks.
\<close>

end
